(* ===== verification/Prelude.thy ===== *)
theory Prelude
  imports Main "HOL-Library.Word" "HOL-Library.List_Lexorder" "HOL-Library.Char_ord"
    "HOL-Library.Sublist"
begin

text \<open>
  Shared ground of the development: the outcome type of operations that can fail at run time,
  the byte and character conversions of the code, the ordered association lists that stand for
  \<open>std::map\<close>, and the locale \<open>kv_store\<close>, the contract of every key-value component of the program
  (string maps, configuration trees, caches, header tables).
\<close>

unbundle bit_operations_syntax

section \<open>Outcomes\<close>

text \<open>
  What a C++ operation can do instead of returning: read or write outside an object
  (\<open>Out_Of_Bounds\<close>), throw \<open>std::out_of_range\<close> (\<open>Out_Of_Range\<close>), follow a null pointer or a freed one, read an
  indeterminate value, throw the logic error or the runtime error of the JSON library, fail an assertion, or never return.  \<open>Inl\<close> carries the
  fault, \<open>Inr\<close> the result.
\<close>

datatype fault = Out_Of_Bounds | Out_Of_Range | Null_Deref | Use_After_Free | Uninitialised | Logic_Error
  | Runtime_Error | Diverges | Assertion_Failed

type_synonym 'a outcome = "fault + 'a"

definition obind :: "'a outcome \<Rightarrow> ('a \<Rightarrow> 'b outcome) \<Rightarrow> 'b outcome" where
  "obind m f = (case m of Inl e \<Rightarrow> Inl e | Inr x \<Rightarrow> f x)"

definition returns :: "'a outcome \<Rightarrow> bool" where
  "returns m = (case m of Inl _ \<Rightarrow> False | Inr _ \<Rightarrow> True)"

named_theorems outcome_simps \<open>evaluation of outcomes\<close>

lemma obind_Inl [simp]: "obind (Inl e) f = Inl e"
  by (simp add: obind_def)

lemma obind_Inr [simp]: "obind (Inr x) f = f x"
  by (simp add: obind_def)

lemma obind_eq_Inr: "obind m f = Inr y \<longleftrightarrow> (\<exists>x. m = Inr x \<and> f x = Inr y)"
  by (cases m) auto

lemma returns_Inr [simp]: "returns (Inr x)"
  by (simp add: returns_def)

lemma returns_Inl [simp]: "\<not> returns (Inl e)"
  by (simp add: returns_def)

lemma returns_iff: "returns m \<longleftrightarrow> (\<exists>x. m = Inr x)"
  by (cases m) auto

lemmas [outcome_simps] = obind_eq_Inr returns_iff

section \<open>Characters and bytes\<close>

type_synonym byte = "8 word"

definition byte_of :: "char \<Rightarrow> byte" where
  "byte_of c = of_char c"

definition char_of_byte :: "byte \<Rightarrow> char" where
  "char_of_byte b = char_of (unat b)"

lemma unat_byte_of: "unat (byte_of c) = of_char c"
proof -
  have "byte_of c = of_nat (of_char c)"
    by (simp add: byte_of_def of_nat_of_char)
  then show ?thesis
    by (simp add: unat_of_nat)
qed

lemma char_of_byte_inverse [simp]: "char_of_byte (byte_of c) = c"
  by (simp add: char_of_byte_def unat_byte_of)

lemma unat_lt2p_byte: "unat (b :: byte) < 256"
  using unsigned_less [of b] by simp

lemma byte_of_inverse [simp]: "byte_of (char_of_byte b) = b"
proof -
  have "unat b < 256" using unat_lt2p_byte [of b] by simp
  then have "unat (byte_of (char_of_byte b)) = unat b"
    by (simp add: unat_byte_of char_of_byte_def)
  then show ?thesis by (simp add: word_unat_eq_iff)
qed

lemma char_of_byte_0 [simp]: "char_of_byte 0 = CHR 0x00"
  by (simp add: char_of_byte_def char_of_def)

lemma nibble_bounds [simp]: "of_char c div 16 < (16 :: nat)" "of_char c mod 16 < (16 :: nat)"
  using nat_of_char_less_256 [of c] by (simp_all add: less_mult_imp_div_less)

named_theorems byte_bits \<open>bits of masked and shifted bytes\<close>

lemma byte_eqI:
  "(\<And>n. n \<in> {0, 1, 2, 3, 4, 5, 6, 7} \<Longrightarrow> bit x n = bit y n) \<Longrightarrow> x = (y :: byte)"
  by (rule bit_word_eqI) (simp add: less_Suc_eq numeral_eq_Suc)

lemma byte_bit_high [byte_bits]: "8 \<le> n \<Longrightarrow> \<not> bit (b :: byte) n"
  by (auto dest: bit_imp_le_length)

lemma byte_masks [byte_bits]:
  "(x :: byte) AND 1 = take_bit 1 x" "(x :: byte) AND 3 = take_bit 2 x"
  "(x :: byte) AND 7 = take_bit 3 x" "(x :: byte) AND 15 = take_bit 4 x"
  "(x :: byte) AND 31 = take_bit 5 x" "(x :: byte) AND 63 = take_bit 6 x"
  "(x :: byte) AND 127 = take_bit 7 x"
  by (simp_all add: take_bit_eq_mask mask_eq_exp_minus_1)

lemmas [byte_bits] = bit_simps

lemma byte_bit_double [byte_bits]:
  "bit (x * 2 :: byte) n \<longleftrightarrow> 0 < n \<and> n < 8 \<and> bit x (n - 1)"
  by (auto simp: bit_double_iff mult.commute [of x] dest: bit_imp_le_length)

lemmas [byte_bits] = numeral_2_eq_2 [symmetric] numeral_3_eq_3 [symmetric]

lemma byte_odd_drop [byte_bits]: "even (drop_bit n (x :: byte)) \<longleftrightarrow> \<not> bit x n"
  by (simp add: bit_iff_odd_drop_bit)

lemma byte_bound: "x = take_bit n (x :: byte) \<Longrightarrow> unat x < 2 ^ n"
  by (metis take_bit_nat_less_exp unsigned_take_bit_eq)

text \<open>A plain \<open>char\<close> is signed on the platforms the program is built for.\<close>

definition schar :: "char \<Rightarrow> int" where
  "schar c = sint (byte_of c)"

lemma byte_of_inj [simp]: "byte_of a = byte_of b \<longleftrightarrow> a = b"
  by (metis char_of_byte_inverse)

lemma schar_inj: "schar a = schar b \<longleftrightarrow> a = b"
  by (metis byte_of_inj schar_def signed_word_eqI)

text \<open>The C view of a byte string: what comes before the first NUL.\<close>

definition c_str :: "string \<Rightarrow> string" where
  "c_str s = takeWhile (\<lambda>c. c \<noteq> CHR 0x00) s"

lemma c_str_no_nul [simp]: "CHR 0x00 \<notin> set s \<Longrightarrow> c_str s = s"
  by (auto simp: c_str_def takeWhile_eq_all_conv)

lemma c_str_idem [simp]: "c_str (c_str s) = c_str s"
  by (simp add: c_str_def)

lemma nul_notin_c_str [simp]: "CHR 0x00 \<notin> set (c_str s)"
  by (auto simp: c_str_def dest: set_takeWhileD)

section \<open>Ordered association lists: \<open>std::map\<close>\<close>

text \<open>
  A \<open>std::map\<close> is the list of its entries in key order.  \<open>map_of\<close> is \<open>find\<close>; \<open>amap_set\<close> is
  \<open>m[k] = v\<close>, which overwrites; \<open>amap_insert\<close> is \<open>insert\<close>, which keeps an existing entry;
  \<open>amap_erase\<close> is \<open>erase(find(k))\<close>.
\<close>

type_synonym ('k, 'v) amap = "('k \<times> 'v) list"

primrec amap_set :: "'k::linorder \<Rightarrow> 'v \<Rightarrow> ('k, 'v) amap \<Rightarrow> ('k, 'v) amap" where
  "amap_set k v [] = [(k, v)]"
| "amap_set k v (x # xs) =
     (if k < fst x then (k, v) # x # xs
      else if k = fst x then (k, v) # xs
      else x # amap_set k v xs)"

definition amap_insert :: "'k::linorder \<Rightarrow> 'v \<Rightarrow> ('k, 'v) amap \<Rightarrow> ('k, 'v) amap" where
  "amap_insert k v m = (case map_of m k of None \<Rightarrow> amap_set k v m | Some _ \<Rightarrow> m)"

definition amap_insert_all :: "('k::linorder, 'v) amap \<Rightarrow> ('k, 'v) amap \<Rightarrow> ('k, 'v) amap" where
  "amap_insert_all src m = fold (\<lambda>(k, v). amap_insert k v) src m"

definition amap_erase :: "'k \<Rightarrow> ('k, 'v) amap \<Rightarrow> ('k, 'v) amap" where
  "amap_erase k m = filter (\<lambda>x. fst x \<noteq> k) m"

definition amap_ok :: "('k::linorder, 'v) amap \<Rightarrow> bool" where
  "amap_ok m = sorted_wrt (<) (map fst m)"

lemma amap_ok_Nil [simp]: "amap_ok []"
  by (simp add: amap_ok_def)

lemma amap_ok_Cons: "amap_ok (x # xs) \<longleftrightarrow> (\<forall>y \<in> set xs. fst x < fst y) \<and> amap_ok xs"
  by (auto simp: amap_ok_def)

lemma amap_ok_distinct: "amap_ok m \<Longrightarrow> distinct (map fst m)"
  by (induction m) (auto simp: amap_ok_Cons)

lemma set_amap_set: "set (amap_set k v m) \<subseteq> insert (k, v) (set m)"
  by (induction m) auto

lemma amap_ok_set [intro]: "amap_ok m \<Longrightarrow> amap_ok (amap_set k v m)"
proof (induction m)
  case Nil
  then show ?case by (simp add: amap_ok_Cons)
next
  case (Cons x m)
  then show ?case
    using set_amap_set [of k v m] by (fastforce simp: amap_ok_Cons)
qed

lemma map_of_amap_set:
  "amap_ok m \<Longrightarrow> map_of (amap_set k v m) k' = (if k' = k then Some v else map_of m k')"
  by (induction m) (auto simp: amap_ok_Cons)

lemma map_of_amap_set_same [simp]: "map_of (amap_set k v m) k = Some v"
  by (induction m) auto

lemma map_of_amap_set_other [simp]: "k' \<noteq> k \<Longrightarrow> map_of (amap_set k v m) k' = map_of m k'"
  by (induction m) auto

lemma amap_ok_insert [intro]: "amap_ok m \<Longrightarrow> amap_ok (amap_insert k v m)"
  by (auto simp: amap_insert_def split: option.splits)

lemma map_of_amap_insert:
  "map_of (amap_insert k v m) k' =
     (if k' = k \<and> map_of m k = None then Some v else map_of m k')"
  by (auto simp: amap_insert_def split: option.splits)

lemma amap_ok_insert_all [intro]: "amap_ok m \<Longrightarrow> amap_ok (amap_insert_all src m)"
  unfolding amap_insert_all_def by (induction src arbitrary: m) auto

lemma map_of_amap_insert_all:
  "map_of (amap_insert_all src m) k =
     (case map_of m k of Some v \<Rightarrow> Some v | None \<Rightarrow> map_of src k)"
  unfolding amap_insert_all_def
  by (induction src arbitrary: m) (auto simp: map_of_amap_insert split: option.splits)

lemma amap_ok_erase [intro]: "amap_ok m \<Longrightarrow> amap_ok (amap_erase k m)"
  unfolding amap_erase_def by (induction m) (auto simp: amap_ok_Cons)

lemma map_of_amap_erase:
  "map_of (amap_erase k m) k' = (if k' = k then None else map_of m k')"
  unfolding amap_erase_def by (induction m) auto

lemma keys_amap_set: "fst ` set (amap_set k v m) = insert k (fst ` set m)"
  by (induction m) auto

section \<open>Key-value stores\<close>

text \<open>
  The contract of a component that maps keys to values: a valid key is found with the value last
  set, every other key is untouched, an invalid key is ignored, and the invariant is kept.  The
  derived lemmas describe whole sequences of updates.
\<close>

locale kv_store =
  fixes get :: "'s \<Rightarrow> 'k \<Rightarrow> 'v option"
    and put :: "'k \<Rightarrow> 'v \<Rightarrow> 's \<Rightarrow> 's"
    and valid :: "'k \<Rightarrow> bool"
    and inv :: "'s \<Rightarrow> bool"
  assumes get_put_same: "inv s \<Longrightarrow> valid k \<Longrightarrow> get (put k v s) k = Some v"
    and get_put_other: "inv s \<Longrightarrow> k' \<noteq> k \<Longrightarrow> get (put k v s) k' = get s k'"
    and put_invalid: "inv s \<Longrightarrow> \<not> valid k \<Longrightarrow> put k v s = s"
    and inv_put: "inv s \<Longrightarrow> inv (put k v s)"
begin

definition put_all :: "('k \<times> 'v) list \<Rightarrow> 's \<Rightarrow> 's" where
  "put_all kvs s = fold (\<lambda>(k, v). put k v) kvs s"

lemma put_all_Nil [simp]: "put_all [] s = s"
  by (simp add: put_all_def)

lemma put_all_Cons [simp]: "put_all (kv # kvs) s = put_all kvs (put (fst kv) (snd kv) s)"
  by (cases kv) (simp add: put_all_def)

lemma inv_put_all: "inv s \<Longrightarrow> inv (put_all kvs s)"
  by (induction kvs arbitrary: s) (auto intro: inv_put)

lemma get_put:
  "inv s \<Longrightarrow> get (put k v s) k' = (if k' = k \<and> valid k then Some v else get s k')"
  using get_put_same get_put_other put_invalid by auto

lemma get_put_all:
  "inv s \<Longrightarrow> get (put_all kvs s) k =
     (case map_of (rev (filter (\<lambda>kv. valid (fst kv)) kvs)) k of Some v \<Rightarrow> Some v | None \<Rightarrow> get s k)"
proof (induction kvs arbitrary: s)
  case Nil
  then show ?case by simp
next
  case (Cons kv kvs)
  then show ?case
    by (auto simp: inv_put get_put map_add_def split: option.splits)
qed

lemma put_idem: "inv s \<Longrightarrow> get (put k v (put k v s)) k' = get (put k v s) k'"
  by (simp add: get_put inv_put)

lemma put_overwrites: "inv s \<Longrightarrow> get (put k v2 (put k v1 s)) k' = get (put k v2 s) k'"
  by (simp add: get_put inv_put)

lemma put_commutes:
  "inv s \<Longrightarrow> k1 \<noteq> k2 \<Longrightarrow> get (put k1 v1 (put k2 v2 s)) k' = get (put k2 v2 (put k1 v1 s)) k'"
  by (simp add: get_put inv_put)

end

interpretation amap_store: kv_store map_of amap_set "\<lambda>_. True" amap_ok
  by unfold_locales auto

end
