(* ===== verification/Std_String.thy ===== *)
theory Std_String
  imports Prelude
begin

text \<open>
  The members of \<open>std::string\<close> the program calls, on byte strings: \<open>find\<close>, \<open>rfind\<close>, \<open>substr\<close>,
  \<open>replace\<close>, and the facts about them that the components share.  A position is a natural number and
  \<open>npos\<close> is \<open>None\<close>; strings are assumed shorter than $2^{63}$ bytes, as an object in memory is.
\<close>

section \<open>Searching\<close>

primrec find_at :: "string \<Rightarrow> string \<Rightarrow> nat option" where
  "find_at pat [] = (if pat = [] then Some 0 else None)"
| "find_at pat (c # cs) =
     (if prefix pat (c # cs) then Some 0 else map_option Suc (find_at pat cs))"

definition str_find :: "string \<Rightarrow> string \<Rightarrow> nat \<Rightarrow> nat option" where
  "str_find s pat off =
     (if off \<le> length s then map_option (\<lambda>i. off + i) (find_at pat (drop off s)) else None)"

primrec str_rfind :: "string \<Rightarrow> string \<Rightarrow> nat option" where
  "str_rfind [] pat = (if pat = [] then Some 0 else None)"
| "str_rfind (c # cs) pat =
     (case str_rfind cs pat of
        Some i \<Rightarrow> Some (Suc i)
      | None \<Rightarrow> if prefix pat (c # cs) then Some 0 else None)"

text \<open>\<open>substr(pos, n)\<close> for a position inside the string, and \<open>replace(pos, n, r)\<close>.\<close>

definition str_sub :: "string \<Rightarrow> nat \<Rightarrow> nat \<Rightarrow> string" where
  "str_sub s pos n = take n (drop pos s)"

definition str_replace :: "string \<Rightarrow> nat \<Rightarrow> nat \<Rightarrow> string \<Rightarrow> string" where
  "str_replace s pos n r = take pos s @ r @ drop (pos + n) s"

lemma find_at_Some:
  "find_at pat s = Some i \<Longrightarrow> prefix pat (drop i s) \<and> i + length pat \<le> length s"
proof (induction s arbitrary: i)
  case Nil
  then show ?case by (auto split: if_splits)
next
  case (Cons c cs)
  then show ?case
    by (auto split: if_splits dest: prefix_length_le)
qed

lemma find_at_first: "find_at pat s = Some i \<Longrightarrow> j < i \<Longrightarrow> \<not> prefix pat (drop j s)"
proof (induction s arbitrary: i j)
  case Nil
  then show ?case by (auto split: if_splits)
next
  case (Cons c cs)
  then show ?case by (cases j) (auto split: if_splits)
qed

lemma find_at_None: "find_at pat s = None \<longleftrightarrow> \<not> sublist pat s"
  by (induction s) (auto simp: sublist_Cons_right)

lemma find_at_Nil [simp]: "find_at [] s = Some 0"
  by (cases s) auto

lemma find_at_prefix: "find_at pat s = Some 0 \<longleftrightarrow> prefix pat s"
  by (cases s) auto

lemma find_at_char:
  "find_at [c] s = (if c \<in> set s then Some (length (takeWhile (\<lambda>x. x \<noteq> c) s)) else None)"
  by (induction s) auto

lemma str_find_0: "str_find s pat 0 = find_at pat s"
  by (cases "find_at pat s") (simp_all add: str_find_def)

lemma str_find_Some:
  "str_find s pat off = Some i \<Longrightarrow>
     off \<le> i \<and> i + length pat \<le> length s \<and> prefix pat (drop i s)"
  unfolding str_find_def
  by (auto split: if_splits dest!: find_at_Some simp: add.commute)

lemma str_find_None:
  "str_find s pat off = None \<longleftrightarrow> length s < off \<or> \<not> sublist pat (drop off s)"
  by (auto simp: str_find_def find_at_None)

lemma str_find_empty [simp]: "off \<le> length s \<Longrightarrow> str_find s [] off = Some off"
  by (simp add: str_find_def)

lemma str_rfind_Some:
  "str_rfind s pat = Some i \<Longrightarrow> prefix pat (drop i s) \<and> i + length pat \<le> length s"
proof (induction s arbitrary: i)
  case Nil
  then show ?case by (auto split: if_splits)
next
  case (Cons c cs)
  then show ?case
    by (auto split: option.splits if_splits dest: prefix_length_le)
qed

lemma str_rfind_None: "str_rfind s pat = None \<longleftrightarrow> \<not> sublist pat s"
  by (induction s) (auto simp: sublist_Cons_right split: option.splits)

lemma str_rfind_last:
  "str_rfind s pat = Some i \<Longrightarrow> i < j \<Longrightarrow> j \<le> length s \<Longrightarrow> \<not> prefix pat (drop j s)"
proof (induction s arbitrary: i j)
  case Nil
  then show ?case by simp
next
  case (Cons c cs)
  then show ?case
  proof (cases j)
    case 0
    with Cons.prems show ?thesis by simp
  next
    case (Suc j')
    show ?thesis
    proof (cases "str_rfind cs pat")
      case None
      then have "\<not> sublist pat cs" by (simp add: str_rfind_None)
      moreover have "sublist (drop j' cs) cs" by (rule sublist_drop)
      ultimately have "\<not> prefix pat (drop j' cs)"
        by (meson prefix_imp_sublist sublist_order.order_trans)
      then show ?thesis using Suc by simp
    next
      case (Some k)
      with Cons Suc show ?thesis by auto
    qed
  qed
qed

lemma str_rfind_empty [simp]: "str_rfind s [] = Some (length s)"
  by (induction s) auto

lemma length_str_replace:
  "pos + n \<le> length s \<Longrightarrow> length (str_replace s pos n r) = length s - n + length r"
  by (simp add: str_replace_def)

lemma str_replace_empty [simp]: "str_replace s pos 0 [] = s"
  by (simp add: str_replace_def)

section \<open>Splitting at the first occurrence of a character\<close>

text \<open>\<open>before c s\<close> and \<open>after c s\<close>: what \<open>substr(0, f)\<close> and \<open>substr(f + 1)\<close> give at \<open>f = find(c)\<close>.\<close>

definition before :: "char \<Rightarrow> string \<Rightarrow> string" where
  "before c s = takeWhile (\<lambda>x. x \<noteq> c) s"

definition after :: "char \<Rightarrow> string \<Rightarrow> string" where
  "after c s = tl (dropWhile (\<lambda>x. x \<noteq> c) s)"

lemma before_after: "c \<in> set s \<Longrightarrow> before c s @ c # after c s = s"
  unfolding before_def after_def by (induction s) auto

lemma not_in_before [simp]: "c \<notin> set (before c s)"
  by (auto simp: before_def dest: set_takeWhileD)

lemma before_append [simp]: "c \<notin> set p \<Longrightarrow> before c (p @ c # q) = p"
  by (induction p) (auto simp: before_def)

lemma after_append [simp]: "c \<notin> set p \<Longrightarrow> after c (p @ c # q) = q"
  by (induction p) (auto simp: after_def)

lemma take_length_before: "take (length (before c s)) s = before c s"
  unfolding before_def by (metis takeWhile_eq_take)

lemma drop_Suc_length_before: "drop (Suc (length (before c s))) s = after c s"
  unfolding before_def after_def by (metis dropWhile_eq_drop drop_Suc tl_drop)

lemma length_after_less: "c \<in> set s \<Longrightarrow> length (after c s) < length s"
  by (drule arg_cong [OF before_after, where f = length]) simp

lemma length_after_le: "length (after c s) \<le> length s"
  using length_dropWhile_le [of "\<lambda>x. x \<noteq> c" s] unfolding after_def by (simp add: le_diff_conv)

end
