(* ===== verification/String_Helper.thy ===== *)
theory String_Helper
  imports Std_String
begin

text \<open>
  The free functions of \<open>helper/string_helper.cpp\<close> and the class \<open>hlp::String\<close>.  An \<open>hlp::String\<close>
  holds one byte string, its \<open>value_\<close>, so its methods are functions of that string; a method that
  changes it returns the new one.  A \<open>const char*\<close> argument is an optional byte string, \<open>None\<close> being
  the null pointer.  A loop that may run forever returns an \<open>option\<close>, with \<open>None\<close> for divergence.
\<close>

section \<open>Trimming one character\<close>

definition TripLeft :: "string \<Rightarrow> char \<Rightarrow> string" where
  "TripLeft str ch = dropWhile (\<lambda>c. c = ch) str"

text \<open>
  The index of \<open>TripRight\<close> is unsigned, so \<open>i >= 0\<close> always holds and the loop only stops at a
  character other than \<open>ch\<close>: when there is none (the empty string included) it reads \<open>str[npos]\<close>.
  \<open>n\<close> is \<open>i + 1\<close>.
\<close>

fun trip_right_loop :: "string \<Rightarrow> char \<Rightarrow> nat \<Rightarrow> string outcome" where
  "trip_right_loop str ch 0 = Inl Out_Of_Bounds"
| "trip_right_loop str ch (Suc i) =
     (if ch \<noteq> str ! i then Inr (str_sub str 0 (Suc i)) else trip_right_loop str ch i)"

definition TripRight :: "string \<Rightarrow> char \<Rightarrow> string outcome" where
  "TripRight str ch = trip_right_loop str ch (length str)"

definition TripAll :: "string \<Rightarrow> char \<Rightarrow> string outcome" where
  "TripAll str ch = obind (TripRight str ch) (\<lambda>s. Inr (TripLeft s ch))"

section \<open>Removing, stripping and replacing substrings\<close>

function remove_loop :: "string \<Rightarrow> string \<Rightarrow> nat \<Rightarrow> nat \<Rightarrow> nat \<times> string" where
  "remove_loop value str off n =
     (case str_find str value off of
        None \<Rightarrow> (n, str)
      | Some fpos \<Rightarrow>
          remove_loop value (str_replace str fpos (length value) []) (fpos + 1) (n + 1))"
  by pat_completeness auto
termination
  by (relation "measure (\<lambda>(value, str, off, n). Suc (length str) - off)")
    (auto dest!: str_find_Some simp: length_str_replace)

declare remove_loop.simps [simp del]

primrec remove_chars :: "string \<Rightarrow> string \<Rightarrow> nat \<Rightarrow> nat \<times> string" where
  "remove_chars [] str n = (n, str)"
| "remove_chars (c # cs) str n =
     (let kept = filter (\<lambda>x. x \<noteq> c) str in remove_chars cs kept (n + (length str - length kept)))"

definition RemoveAll :: "string \<Rightarrow> string \<Rightarrow> bool \<Rightarrow> nat \<times> string" where
  "RemoveAll str value entire =
     (if entire then remove_loop value str 0 0 else remove_chars value str 0)"

partial_function (option) strip_left_loop :: "string \<Rightarrow> string \<Rightarrow> nat \<Rightarrow> (nat \<times> string) option" where
  "strip_left_loop value str n =
     (case str_find str value 0 of
        None \<Rightarrow> Some (n, str)
      | Some fpos \<Rightarrow>
          if fpos \<noteq> 0 then Some (n, str)
          else strip_left_loop value (str_replace str fpos (length value) []) (n + 1))"

text \<open>The scans of the other mode: the number of leading (trailing) characters that occur in \<open>value\<close>.\<close>

definition lead_count :: "string \<Rightarrow> string \<Rightarrow> nat" where
  "lead_count value str = length (takeWhile (\<lambda>c. c \<in> set value) str)"

definition trail_count :: "string \<Rightarrow> string \<Rightarrow> nat" where
  "trail_count value str = length (takeWhile (\<lambda>c. c \<in> set value) (rev str))"

definition StripLeft :: "string \<Rightarrow> string \<Rightarrow> bool \<Rightarrow> (nat \<times> string) option" where
  "StripLeft str value entire =
     (if entire then strip_left_loop value str 0
      else let off = lead_count value str in
           Some (off, if off > 0 then str_sub str off (length str) else str))"

partial_function (option) strip_right_loop ::
  "string \<Rightarrow> string \<Rightarrow> nat \<Rightarrow> nat \<Rightarrow> (nat \<times> string) option" where
  "strip_right_loop value str tot n =
     (case str_rfind str value of
        None \<Rightarrow> Some (n, str)
      | Some fpos \<Rightarrow>
          if length value \<noteq> tot - fpos then Some (n, str)
          else strip_right_loop value (str_replace str fpos (length value) [])
                 (tot - length value) (n + 1))"

definition StripRight :: "string \<Rightarrow> string \<Rightarrow> bool \<Rightarrow> (nat \<times> string) option" where
  "StripRight str value entire =
     (if entire then strip_right_loop value str (length str) 0
      else let cnt = trail_count value str; off = length str - cnt in
           Some (cnt, if off > 0 then str_sub str 0 off else str))"

partial_function (option) replace_loop ::
  "string \<Rightarrow> string \<Rightarrow> string \<Rightarrow> nat \<Rightarrow> nat \<Rightarrow> (nat \<times> string) option" where
  "replace_loop old value str off n =
     (case str_find str old off of
        None \<Rightarrow> Some (n, str)
      | Some fpos \<Rightarrow>
          replace_loop old value (str_replace str fpos (length old) value)
            (fpos + length value) (n + 1))"

definition ReplaceAll :: "string \<Rightarrow> string \<Rightarrow> string \<Rightarrow> (nat \<times> string) option" where
  "ReplaceAll str old value = replace_loop old value str 0 0"

section \<open>The class String\<close>

datatype match_type = FIRST_MATCHED | MAX_MATCHED

definition String_of_cstr :: "string option \<Rightarrow> string" where
  "String_of_cstr s = (case s of None \<Rightarrow> [] | Some s \<Rightarrow> c_str s)"

text \<open>\<open>hash * seed + str[index]\<close> over \<open>size_t\<close>: the signed character is converted to 64 bits.\<close>

definition String_Hash :: "string \<Rightarrow> 64 word" where
  "String_Hash str = fold (\<lambda>c hash. hash * 131 + word_of_int (schar c)) str 0"

text \<open>
  \<open>FormatV\<close> prints into a buffer of 102400 bytes: \<open>text\<close> is what the format produces in full, of
  which \<open>vsnprintf\<close> stores at most 102399 bytes and a NUL, and returns the full length.
\<close>

definition max_buf_len :: nat where
  "max_buf_len = 102400"

definition FormatV :: "string \<Rightarrow> string" where
  "FormatV text =
     (if text = [] then []
      else if length text < max_buf_len then text
      else take (max_buf_len - 1) text @ [CHR 0x00])"

definition AppendFormatV :: "string \<Rightarrow> string \<Rightarrow> string" where
  "AppendFormatV value text = value @ c_str (FormatV text)"

definition String_Append :: "string \<Rightarrow> string \<Rightarrow> string" where
  "String_Append value s = value @ s"

definition String_Left :: "string \<Rightarrow> string \<Rightarrow> match_type \<Rightarrow> string" where
  "String_Left value start ty =
     (if start = [] then value
      else case (case ty of MAX_MATCHED \<Rightarrow> str_rfind value start | _ \<Rightarrow> str_find value start 0) of
             None \<Rightarrow> [] | Some fpos \<Rightarrow> str_sub value 0 fpos)"

definition String_Right :: "string \<Rightarrow> string \<Rightarrow> match_type \<Rightarrow> string" where
  "String_Right value start ty =
     (if start = [] then value
      else case (case ty of MAX_MATCHED \<Rightarrow> str_find value start 0 | _ \<Rightarrow> str_rfind value start) of
             None \<Rightarrow> [] | Some fpos \<Rightarrow> str_sub value (fpos + length start) (length value))"

definition String_SubStr :: "string \<Rightarrow> string \<Rightarrow> string \<Rightarrow> match_type \<Rightarrow> string" where
  "String_SubStr value start end' ty =
     (if start = [] then String_Left value end' ty
      else if end' = [] then String_Right value start ty
      else case (str_find value start 0, str_rfind value end') of
             (Some spos, Some epos) \<Rightarrow>
               if epos \<le> spos + length start then []
               else (case ty of
                       MAX_MATCHED \<Rightarrow> str_sub value (spos + length start) (epos - spos - length start)
                     | FIRST_MATCHED \<Rightarrow>
                         (case str_find value end' (spos + length start) of
                            None \<Rightarrow> []
                          | Some epos \<Rightarrow>
                              str_sub value (spos + length start) (epos - spos - length start)))
           | _ \<Rightarrow> [])"

text \<open>
  \<open>String::Replace\<close> passes \<open>olen\<close>, which is 0, as the length to replace.
\<close>

partial_function (option) String_replace_loop ::
  "string \<Rightarrow> string \<Rightarrow> bool \<Rightarrow> string \<Rightarrow> nat option \<Rightarrow> string option" where
  "String_replace_loop old rep every value fpos =
     (case fpos of
        None \<Rightarrow> Some value
      | Some f \<Rightarrow>
          let off = f + length rep; value' = str_replace value f 0 rep in
          if \<not> every then Some value'
          else String_replace_loop old rep every value' (str_find value' old off))"

definition String_Replace :: "string \<Rightarrow> string \<Rightarrow> string \<Rightarrow> bool \<Rightarrow> string option" where
  "String_Replace value old repl every =
     (if old = [] then Some value
      else String_replace_loop old repl every value (str_find value old 0))"

definition String_TrimLeft :: "string \<Rightarrow> string \<Rightarrow> string option" where
  "String_TrimLeft value s = map_option snd (StripLeft value s True)"

definition String_TrimRight :: "string \<Rightarrow> string \<Rightarrow> string option" where
  "String_TrimRight value s = map_option snd (StripRight value s True)"

definition String_Trim :: "string \<Rightarrow> string \<Rightarrow> string option" where
  "String_Trim value s = Option.bind (String_TrimLeft value s) (\<lambda>v. String_TrimRight v s)"

definition is_digit_char :: "char \<Rightarrow> bool" where
  "is_digit_char c \<longleftrightarrow> CHR ''0'' \<le> c \<and> c \<le> CHR ''9''"

definition is_hex_char :: "char \<Rightarrow> bool" where
  "is_hex_char c \<longleftrightarrow> is_digit_char c \<or> (CHR ''a'' \<le> c \<and> c \<le> CHR ''f'') \<or> (CHR ''A'' \<le> c \<and> c \<le> CHR ''F'')"

definition String_IsDigit :: "string \<Rightarrow> bool" where
  "String_IsDigit value \<longleftrightarrow> value \<noteq> [] \<and> list_all is_digit_char value"

definition String_IsHex :: "string \<Rightarrow> bool" where
  "String_IsHex value \<longleftrightarrow> value \<noteq> [] \<and> list_all is_hex_char value"

definition tolower :: "char \<Rightarrow> char" where
  "tolower c = (if CHR ''A'' \<le> c \<and> c \<le> CHR ''Z'' then char_of (of_char c + 32 :: nat) else c)"

definition toupper :: "char \<Rightarrow> char" where
  "toupper c = (if CHR ''a'' \<le> c \<and> c \<le> CHR ''z'' then char_of (of_char c - 32 :: nat) else c)"

text \<open>The loop of \<open>Exist\<close>: \<open>i\<close> walks the value, \<open>j\<close> the pattern, and a mismatch does not reset \<open>j\<close>.\<close>

fun exist_loop :: "(char \<Rightarrow> char) \<Rightarrow> string \<Rightarrow> string \<Rightarrow> bool" where
  "exist_loop norm [] sub = False"
| "exist_loop norm (c # cs) [] = False"
| "exist_loop norm (c # cs) (p # ps) =
     (if norm c = norm p then (if ps = [] then True else exist_loop norm cs ps)
      else exist_loop norm cs (p # ps))"

definition String_Exist :: "string \<Rightarrow> string \<Rightarrow> bool \<Rightarrow> bool" where
  "String_Exist value sub ignore_case =
     (if sub = [] then False
      else if length value < length sub then False
      else exist_loop (if ignore_case then tolower else id) value sub)"

definition String_ToLower :: "string \<Rightarrow> string" where
  "String_ToLower value = map tolower value"

definition String_ToUpper :: "string \<Rightarrow> string" where
  "String_ToUpper value = map toupper value"

section \<open>Lemmas\<close>

lemma trip_right_loop_spec:
  "n \<le> length str \<Longrightarrow>
   trip_right_loop str ch n =
     (if set (take n str) \<subseteq> {ch} then Inl Out_Of_Bounds
      else Inr (rev (dropWhile (\<lambda>c. c = ch) (rev (take n str)))))"
  by (induction n) (auto simp: take_Suc_conv_app_nth str_sub_def split: if_splits)

lemma trip_right_spec:
  "TripRight str ch =
     (if set str \<subseteq> {ch} then Inl Out_Of_Bounds
      else Inr (rev (dropWhile (\<lambda>c. c = ch) (rev str))))"
  by (simp add: TripRight_def trip_right_loop_spec)

lemma remove_chars_spec:
  "remove_chars cs str n =
     (n + (length str - length (filter (\<lambda>x. x \<notin> set cs) str)), filter (\<lambda>x. x \<notin> set cs) str)"
proof (induction cs arbitrary: str n)
  case Nil
  then show ?case by simp
next
  case (Cons c cs)
  let ?k = "filter (\<lambda>x. x \<noteq> c) str"
  have "filter (\<lambda>x. x \<notin> set cs) ?k = filter (\<lambda>x. x \<notin> set (c # cs)) str"
    by (auto intro: filter_cong)
  moreover have "n + (length str - length ?k) + (length ?k - length (filter (\<lambda>x. x \<notin> set cs) ?k)) =
      n + (length str - length (filter (\<lambda>x. x \<notin> set cs) ?k))"
    using length_filter_le [of "\<lambda>x. x \<notin> set cs" ?k] length_filter_le [of "\<lambda>x. x \<noteq> c" str]
    by linarith
  ultimately show ?case
    by (simp only: remove_chars.simps Let_def Cons.IH)
qed

lemma strip_left_loop_ret:
  "value \<noteq> [] \<Longrightarrow>
     \<exists>k s'. strip_left_loop value str n = Some (n + k, s') \<and>
       str = concat (replicate k value) @ s' \<and> \<not> prefix value s'"
proof (induction "length str" arbitrary: str n rule: less_induct)
  case less
  show ?case
  proof (cases "prefix value str")
    case False
    then have "str_find str value 0 \<noteq> Some 0"
      by (simp add: str_find_0 find_at_prefix)
    then have "strip_left_loop value str n = Some (n, str)"
      by (subst strip_left_loop.simps) (auto split: option.splits)
    with False show ?thesis by (intro exI [of _ 0] exI [of _ str]) simp
  next
    case True
    then obtain t where t: "str = value @ t" by (auto simp: prefix_def)
    then have "length t < length str" using less.prems by simp
    from less.hyps [OF this less.prems, of "n + 1"] obtain k s' where
      IH: "strip_left_loop value t (n + 1) = Some (n + 1 + k, s')"
        "t = concat (replicate k value) @ s'" "\<not> prefix value s'" by blast
    have "str_find str value 0 = Some 0"
      using True by (simp add: str_find_0 find_at_prefix)
    then have "strip_left_loop value str n = strip_left_loop value t (n + 1)"
      by (subst strip_left_loop.simps) (simp add: str_replace_def t)
    with IH t show ?thesis
      by (intro exI [of _ "Suc k"] exI [of _ s']) simp
  qed
qed

lemma strip_left_loop_empty: "strip_left_loop [] str n = None"
proof (cases "strip_left_loop [] str n")
  case (Some r)
  have "v \<noteq> []" if "strip_left_loop v s m = Some r" for v s m r
    by (rule strip_left_loop.raw_induct
        [where P = "\<lambda>v s m r. v \<noteq> []", OF _ that])
      (fastforce simp: str_find_0 split: option.splits if_splits)
  with Some show ?thesis by blast
qed simp

text \<open>The reference for replacement: scan left to right, emitting \<open>new\<close> for each occurrence.\<close>

function replace_ref :: "string \<Rightarrow> string \<Rightarrow> string \<Rightarrow> string" where
  "replace_ref old new s =
     (if old = [] then s
      else case s of
             [] \<Rightarrow> []
           | c # cs \<Rightarrow>
               if prefix old s then new @ replace_ref old new (drop (length old) s)
               else c # replace_ref old new cs)"
  by pat_completeness auto
termination
  by (relation "measure (\<lambda>(old, new, s). length s)") auto

declare replace_ref.simps [simp del]

lemma replace_ref_none: "\<not> sublist old s \<Longrightarrow> replace_ref old new s = s"
proof (induction s)
  case Nil
  then show ?case by (subst replace_ref.simps) simp
next
  case (Cons c cs)
  then show ?case by (subst replace_ref.simps) (simp add: sublist_Cons_right)
qed

lemma replace_ref_at:
  "old \<noteq> [] \<Longrightarrow> find_at old s = Some i \<Longrightarrow>
   replace_ref old new s = take i s @ new @ replace_ref old new (drop (i + length old) s)"
proof (induction s arbitrary: i)
  case Nil
  then show ?case by simp
next
  case (Cons c cs)
  then show ?case
    by (subst replace_ref.simps) (auto split: if_splits)
qed

lemma replace_loop_ret:
  "old \<noteq> [] \<Longrightarrow> off \<le> length str \<Longrightarrow>
     \<exists>k. replace_loop old value str off n =
       Some (k, take off str @ replace_ref old value (drop off str))"
proof (induction "length str - off" arbitrary: str off n rule: less_induct)
  case less
  show ?case
  proof (cases "find_at old (drop off str)")
    case None
    then have "str_find str old off = None"
      by (simp add: str_find_def)
    moreover have "replace_ref old value (drop off str) = drop off str"
      using None by (simp add: find_at_None replace_ref_none)
    ultimately show ?thesis
      by (subst replace_loop.simps) simp
  next
    case (Some i)
    let ?f = "off + i"
    let ?s = "str_replace str ?f (length old) value"
    from find_at_Some [OF Some] less.prems(2) have le: "?f + length old \<le> length str"
      by auto
    have f: "str_find str old off = Some ?f"
      using Some less.prems(2) by (simp add: str_find_def)
    have len: "length ?s = length str - length old + length value"
      using le by (simp add: length_str_replace)
    have "length old > 0" using less.prems(1) by simp
    then have "length ?s - (?f + length value) < length str - off"
      using le len by linarith
    moreover have "?f + length value \<le> length ?s" using le len by simp
    ultimately obtain k where
      "replace_loop old value ?s (?f + length value) (n + 1) =
         Some (k, take (?f + length value) ?s @ replace_ref old value (drop (?f + length value) ?s))"
      using less.hyps less.prems(1) by blast
    moreover have "take (?f + length value) ?s = take off str @ take i (drop off str) @ value"
      using le by (simp add: str_replace_def take_add)
    moreover have "drop (?f + length value) ?s = drop (i + length old) (drop off str)"
      using le by (simp add: str_replace_def add.commute add.left_commute)
    ultimately show ?thesis
      using replace_ref_at [OF less.prems(1) Some] f
      by (subst replace_loop.simps) simp
  qed
qed

lemma exist_loop_subseq:
  "sub \<noteq> [] \<Longrightarrow> exist_loop norm v sub \<longleftrightarrow> subseq (map norm sub) (map norm v)"
  by (induction norm v sub rule: exist_loop.induct) auto

lemma subseq_length: "subseq xs ys \<Longrightarrow> length xs \<le> length ys"
  by (rule list_emb_length)

text \<open>Once an occurrence is found, \<open>String::Replace\<close> finds it again after every insertion.\<close>

lemma find_again:
  assumes "str_find v old off = Some f" and "old \<noteq> []"
  shows "\<exists>g. str_find (str_replace v f 0 rep) old (f + length rep) = Some g"
proof -
  from str_find_Some [OF assms(1)] have f: "f + length old \<le> length v" "prefix old (drop f v)"
    by auto
  then have "drop (f + length rep) (str_replace v f 0 rep) = drop f v"
    by (simp add: str_replace_def)
  moreover have "sublist old (drop f v)" using f(2) by (rule prefix_imp_sublist)
  moreover have "f + length rep \<le> length (str_replace v f 0 rep)"
    using f(1) by (simp add: length_str_replace)
  ultimately show ?thesis
    by (metis not_None_eq str_find_None leD)
qed

lemma String_replace_loop_diverges:
  assumes "String_replace_loop old rep every v fpos = Some r"
  shows "\<not> (every \<and> old \<noteq> [] \<and> (\<exists>f off. fpos = Some f \<and> str_find v old off = Some f))"
proof (rule String_replace_loop.raw_induct
    [where P = "\<lambda>old rep every v fpos r. \<not> (every \<and> old \<noteq> [] \<and>
        (\<exists>f off. fpos = Some f \<and> str_find v old off = Some f))", OF _ assms], rule notI)
  fix loop old rep every v fpos r
  assume IH: "\<And>old rep every v fpos r. loop old rep every v fpos = Some r \<Longrightarrow>
      \<not> (every \<and> old \<noteq> [] \<and> (\<exists>f off. fpos = Some f \<and> str_find v old off = Some f))"
    and eq: "(case fpos of None \<Rightarrow> Some v
      | Some f \<Rightarrow> let off = f + length rep; value' = str_replace v f 0 rep in
          if \<not> every then Some value'
          else loop old rep every value' (str_find value' old off)) = Some r"
    and hyp: "every \<and> old \<noteq> [] \<and> (\<exists>f off. fpos = Some f \<and> str_find v old off = Some f)"
  from hyp obtain f off where f: "fpos = Some f" "str_find v old off = Some f" by blast
  from find_again [OF f(2)] hyp obtain g where
    g: "str_find (str_replace v f 0 rep) old (f + length rep) = Some g" by blast
  from eq f(1) hyp have "loop old rep every (str_replace v f 0 rep)
      (str_find (str_replace v f 0 rep) old (f + length rep)) = Some r"
    by (simp add: Let_def)
  from IH [OF this] hyp g show False by blast
qed

section \<open>Properties\<close>

text \<open>\<open>String::Exist\<close> decides whether the pattern is a subsequence of the value (its
  characters in order, with gaps allowed), up to case when asked, and never holds of an empty
  pattern.  It is not a substring test: the pattern index is not reset on a mismatch.\<close>

theorem exist_is_subsequence:
  "String_Exist value sub ignore_case \<longleftrightarrow>
     sub \<noteq> [] \<and>
     subseq (map (if ignore_case then tolower else id) sub)
            (map (if ignore_case then tolower else id) value)"
proof (cases "sub = []")
  case False
  let ?f = "if ignore_case then tolower else id"
  have "\<not> subseq (map ?f sub) (map ?f value)" if "length value < length sub"
    using that by (metis length_map not_less subseq_length)
  with False show ?thesis
    by (auto simp: String_Exist_def exist_loop_subseq)
qed (simp add: String_Exist_def)

text \<open>\<open>ReplaceAll\<close> replaces every occurrence, left to right and without rescanning what it
  inserted, and diverges exactly when the text to replace is empty.\<close>

theorem replace_all_reference:
  "map_option snd (ReplaceAll str old value) =
     (if old = [] then None else Some (replace_ref old value str))"
proof (cases "old = []")
  case False
  then show ?thesis
    using replace_loop_ret [of old 0 str "value" 0] by (auto simp: ReplaceAll_def)
next
  case True
  have "\<not> (old = [] \<and> off \<le> length str)" if "replace_loop old v str off n = Some r"
    for old v str off n r
    by (rule replace_loop.raw_induct
        [where P = "\<lambda>old v str off n r. \<not> (old = [] \<and> off \<le> length str)", OF _ that])
      (fastforce simp: length_str_replace split: option.splits)
  then have "replace_loop [] value str 0 0 = None"
    by (metis le0 not_None_eq)
  with True show ?thesis by (simp add: ReplaceAll_def)
qed

text \<open>\<open>String::Replace\<close> in its default mode returns only when there is nothing to replace:
  it inserts the replacement before the occurrence instead of over it, so an occurrence is found
  again for ever.\<close>

theorem string_replace_all_diverges:
  "String_Replace value old repl True =
     (if old \<noteq> [] \<and> sublist old value then None else Some value)"
proof (cases "old \<noteq> [] \<and> sublist old value")
  case True
  then obtain f where f: "str_find value old 0 = Some f"
    by (metis str_find_0 find_at_None not_None_eq)
  have "String_replace_loop old repl True value (str_find value old 0) = None"
  proof (rule ccontr)
    assume "String_replace_loop old repl True value (str_find value old 0) \<noteq> None"
    then obtain r where "String_replace_loop old repl True value (str_find value old 0) = Some r"
      by auto
    from String_replace_loop_diverges [OF this] True f show False by blast
  qed
  with True show ?thesis by (simp add: String_Replace_def)
next
  case False
  then show ?thesis
    by (cases "old = []")
      (auto simp: String_Replace_def str_find_0 String_replace_loop.simps dest: find_at_None [THEN iffD2])
qed

text \<open>\<open>StripLeft\<close> of a whole value removes the leading copies of a non-empty value, all of
  them and nothing else, and counts them; with an empty value it does not return.\<close>

theorem strip_left_entire:
  "(\<exists>k s'. StripLeft str value True = Some (k, s') \<and>
      str = concat (replicate k value) @ s' \<and> \<not> prefix value s') \<or>
   (value = [] \<and> StripLeft str value True = None)"
proof (cases "value = []")
  case True
  then show ?thesis by (simp add: StripLeft_def strip_left_loop_empty)
next
  case False
  then show ?thesis
    using strip_left_loop_ret [of "value" str 0] by (simp add: StripLeft_def)
qed

end
