(* ===== verification/String_Containers.thy ===== *)
theory String_Containers
  imports String_Helper
begin

text \<open>
  The container classes of \<open>helper/string_helper.cpp\<close>: \<open>StringVector\<close> is its \<open>vector<string>\<close>, a
  list; \<open>StringMap\<close> its \<open>map<string, string>\<close>, an ordered association list; \<open>StringMultiMap\<close> its
  \<open>multimap<string, string>\<close>, an association list in key order with equal keys in insertion order.
  The overloads that take \<open>const char*\<close> convert their arguments with \<open>String_of_cstr\<close> and call these.
\<close>

section \<open>StringVector\<close>

text \<open>
  The loop of \<open>Split\<close>; the caller has dealt with an empty separator, and the first test only
  excludes that unreachable case from the recursion.
\<close>

function split_loop :: "string \<Rightarrow> string \<Rightarrow> nat \<Rightarrow> string list \<Rightarrow> string list" where
  "split_loop s sp off acc =
     (if sp \<noteq> [] \<and> off + length sp \<le> length s then
        (case str_find s sp off of
           None \<Rightarrow> acc @ [str_sub s off (length s)]
         | Some fpos \<Rightarrow> split_loop s sp (fpos + length sp) (acc @ [str_sub s off (fpos - off)]))
      else acc)"
  by pat_completeness auto
termination
proof (relation "measure (\<lambda>(s, sp, off, acc). Suc (length s) - off)", goal_cases)
  case (2 s sp off acc fpos)
  then have "off \<le> fpos" "fpos + length sp \<le> length s" "0 < length sp"
    by (auto dest: str_find_Some)
  then have "Suc (length s) - (fpos + length sp) < Suc (length s) - off" by linarith
  then show ?case by simp
qed simp

declare split_loop.simps [simp del]

definition Vector_Split :: "string \<Rightarrow> string \<Rightarrow> string list" where
  "Vector_Split s sp =
     (if s = [] then [] else if sp = [] then [s] else split_loop s sp 0 [])"

definition Vector_Append :: "string list \<Rightarrow> string \<Rightarrow> string list" where
  "Vector_Append v s = v @ [s]"

definition Vector_Append_all :: "string list \<Rightarrow> string list \<Rightarrow> string list" where
  "Vector_Append_all v vt = v @ vt"

definition Vector_Append_split :: "string list \<Rightarrow> string \<Rightarrow> string \<Rightarrow> string list" where
  "Vector_Append_split v s sp = Vector_Append_all v (Vector_Split s sp)"

definition Vector_SetAt :: "string list \<Rightarrow> nat \<Rightarrow> string \<Rightarrow> string list outcome" where
  "Vector_SetAt v index s =
     (if index \<le> length v then
        (if index < length v then Inr (v[index := s]) else Inl Out_Of_Bounds)
      else Inr (v @ [s]))"

definition Vector_At :: "string list \<Rightarrow> nat \<Rightarrow> string" where
  "Vector_At v index = (if index \<ge> length v then [] else v ! index)"

text \<open>\<open>operator[](int)\<close> converts a negative index to a huge \<open>size_t\<close>.\<close>

definition Vector_index :: "string list \<Rightarrow> int \<Rightarrow> string" where
  "Vector_index v index = Vector_At v (if index < 0 then nat (2 ^ 64 + index) else nat index)"

fun vector_join :: "string \<Rightarrow> string list \<Rightarrow> string" where
  "vector_join sp [] = []"
| "vector_join sp [x] = x"
| "vector_join sp (x # y # r) = x @ sp @ vector_join sp (y # r)"

definition Vector_ToString :: "string list \<Rightarrow> string \<Rightarrow> bool \<Rightarrow> string outcome" where
  "Vector_ToString v sp append_sp =
     (if v = [] then Inl Out_Of_Bounds
      else Inr (vector_join sp v @ (if append_sp then sp else [])))"

section \<open>StringMap\<close>

type_synonym string_map = "(string, string) amap"

definition split_entry :: "string \<Rightarrow> string \<Rightarrow> (string \<times> string) option" where
  "split_entry assign_key e =
     (case str_find e assign_key 0 of
        None \<Rightarrow> None
      | Some fpos \<Rightarrow>
          let key = str_sub e 0 fpos; val = str_sub e (fpos + length assign_key) (length e)
          in if key = [] then None else Some (key, val))"

definition Map_Set :: "string \<Rightarrow> string \<Rightarrow> string_map \<Rightarrow> string_map" where
  "Map_Set key val m = (if key = [] then m else amap_set key val m)"

definition Map_Split :: "string \<Rightarrow> string \<Rightarrow> string \<Rightarrow> string_map" where
  "Map_Split vals sp assign_key =
     (if vals = [] then []
      else fold (\<lambda>e m. case split_entry assign_key e of None \<Rightarrow> m | Some (k, v) \<Rightarrow> amap_set k v m)
             (Vector_Split vals sp) [])"

definition Map_Append :: "string_map \<Rightarrow> string \<Rightarrow> string \<Rightarrow> string_map" where
  "Map_Append m key val = (if key \<noteq> [] then amap_set key val m else m)"

definition Map_Append_map :: "string_map \<Rightarrow> string_map \<Rightarrow> string_map" where
  "Map_Append_map m src = amap_insert_all src m"

definition Map_Append_split :: "string_map \<Rightarrow> string \<Rightarrow> string \<Rightarrow> string \<Rightarrow> string_map" where
  "Map_Append_split m vals sp assign_key = Map_Append_map m (Map_Split vals sp assign_key)"

definition Map_index :: "string_map \<Rightarrow> string \<Rightarrow> string" where
  "Map_index m key = (case map_of m key of Some v \<Rightarrow> v | None \<Rightarrow> [])"

definition Map_Find :: "string_map \<Rightarrow> string \<Rightarrow> string" where
  "Map_Find m key =
     (if key = [] then key else case map_of m key of Some v \<Rightarrow> v | None \<Rightarrow> [])"

definition Map_Remove :: "string_map \<Rightarrow> string \<Rightarrow> string_map" where
  "Map_Remove m key = (if key = [] then m else amap_erase key m)"

text \<open>The printing loop, shared in its text by the two map classes.\<close>

fun entries_join :: "string \<Rightarrow> string \<Rightarrow> (string \<times> string) list \<Rightarrow> string" where
  "entries_join sp ak [] = []"
| "entries_join sp ak [(k, v)] = k @ ak @ v"
| "entries_join sp ak ((k, v) # e # r) = k @ ak @ v @ sp @ entries_join sp ak (e # r)"

definition Map_ToString :: "string_map \<Rightarrow> string \<Rightarrow> string \<Rightarrow> bool \<Rightarrow> string outcome" where
  "Map_ToString m sp assign_key append_sp =
     (if m = [] then Inl Out_Of_Bounds
      else Inr (entries_join sp assign_key m @ (if append_sp then sp else [])))"

section \<open>StringMultiMap\<close>

type_synonym string_multimap = "(string \<times> string) list"

primrec mm_insert :: "string \<Rightarrow> string \<Rightarrow> string_multimap \<Rightarrow> string_multimap" where
  "mm_insert k v [] = [(k, v)]"
| "mm_insert k v (x # xs) = (if k < fst x then (k, v) # x # xs else x # mm_insert k v xs)"

definition mm_insert_all :: "(string \<times> string) list \<Rightarrow> string_multimap \<Rightarrow> string_multimap" where
  "mm_insert_all src m = fold (\<lambda>(k, v). mm_insert k v) src m"

definition Multi_Split :: "string \<Rightarrow> string \<Rightarrow> string \<Rightarrow> string_multimap" where
  "Multi_Split vals sp assign_key =
     (if vals = [] then []
      else fold (\<lambda>e m. case split_entry assign_key e of None \<Rightarrow> m | Some (k, v) \<Rightarrow> mm_insert k v m)
             (Vector_Split vals sp) [])"

definition Multi_Append :: "string_multimap \<Rightarrow> string \<Rightarrow> string \<Rightarrow> string_multimap" where
  "Multi_Append m key val = (if key \<noteq> [] then mm_insert key val m else m)"

definition Multi_Append_map :: "string_multimap \<Rightarrow> string_multimap \<Rightarrow> string_multimap" where
  "Multi_Append_map m src = mm_insert_all src m"

definition Multi_Append_split :: "string_multimap \<Rightarrow> string \<Rightarrow> string \<Rightarrow> string \<Rightarrow> string_multimap" where
  "Multi_Append_split m vals sp assign_key = Multi_Append_map m (Multi_Split vals sp assign_key)"

definition Multi_Set :: "string_multimap \<Rightarrow> string \<Rightarrow> string \<Rightarrow> string_multimap" where
  "Multi_Set m key val = (if key = [] then m else mm_insert key val m)"

definition Multi_Find :: "string_multimap \<Rightarrow> string \<Rightarrow> string" where
  "Multi_Find m key =
     (if key = [] then key else case map_of m key of Some v \<Rightarrow> v | None \<Rightarrow> [])"

definition Multi_FindAll :: "string_multimap \<Rightarrow> string \<Rightarrow> string list" where
  "Multi_FindAll m key = (if key = [] then [] else map snd (filter (\<lambda>e. fst e = key) m))"

text \<open>\<open>Remove\<close> erases the one entry that \<open>find\<close> returned.\<close>

primrec mm_erase_first :: "string \<Rightarrow> string_multimap \<Rightarrow> string_multimap" where
  "mm_erase_first k [] = []"
| "mm_erase_first k (x # xs) = (if fst x = k then xs else x # mm_erase_first k xs)"

definition Multi_Remove :: "string_multimap \<Rightarrow> string \<Rightarrow> string_multimap" where
  "Multi_Remove m key = (if key = [] then m else mm_erase_first key m)"

definition Multi_ToString :: "string_multimap \<Rightarrow> string \<Rightarrow> string \<Rightarrow> bool \<Rightarrow> string outcome" where
  "Multi_ToString m sp assign_key append_sp =
     (if m = [] then Inl Out_Of_Bounds
      else Inr (entries_join sp assign_key m @ (if append_sp then sp else [])))"

definition Multi_index :: "string_multimap \<Rightarrow> string \<Rightarrow> string" where
  "Multi_index m key = (case map_of m key of Some v \<Rightarrow> v | None \<Rightarrow> [])"

section \<open>Lemmas: splitting\<close>

text \<open>The reference: all the fields of a string, the last one included whatever its length.\<close>

function fields :: "string \<Rightarrow> string \<Rightarrow> string list" where
  "fields sp s =
     (if sp = [] then [s]
      else case find_at sp s of
             None \<Rightarrow> [s]
           | Some i \<Rightarrow> take i s # fields sp (drop (i + length sp) s))"
  by pat_completeness auto
termination
proof (relation "measure (\<lambda>(sp, s). length s)", goal_cases)
  case (2 sp s i)
  then have "i + length sp \<le> length s" "0 < length sp"
    by (auto dest: find_at_Some)
  then have "length s - (i + length sp) < length s" by linarith
  then show ?case by simp
qed simp

declare fields.simps [simp del]

lemma fields_not_Nil [simp]: "fields sp s \<noteq> []"
  by (subst fields.simps) (auto split: option.splits)

definition drop_short_last :: "string \<Rightarrow> string list \<Rightarrow> string list" where
  "drop_short_last sp fs = (if length (last fs) < length sp then butlast fs else fs)"

lemma drop_short_last_Cons [simp]:
  "fs \<noteq> [] \<Longrightarrow> drop_short_last sp (f # fs) = f # drop_short_last sp fs"
  by (simp add: drop_short_last_def)

lemma split_loop_fields:
  "sp \<noteq> [] \<Longrightarrow> off \<le> length s \<Longrightarrow>
     split_loop s sp off acc = acc @ drop_short_last sp (fields sp (drop off s))"
proof (induction s sp off acc rule: split_loop.induct)
  case (1 s sp off acc)
  show ?case
  proof (cases "off + length sp \<le> length s")
    case False
    then have "length (drop off s) < length sp" using "1.prems"(2) by simp
    moreover from this have "find_at sp (drop off s) = None"
      by (metis find_at_Some not_None_eq le_add2 leD le_trans)
    ultimately show ?thesis
      using False "1.prems" by (simp add: split_loop.simps [of s] fields.simps [of sp] drop_short_last_def)
  next
    case True
    show ?thesis
    proof (cases "find_at sp (drop off s)")
      case None
      then have "str_find s sp off = None" by (simp add: str_find_def)
      with None True 1 show ?thesis
        by (auto simp: split_loop.simps [of s] fields.simps [of sp] drop_short_last_def str_sub_def)
    next
      case (Some i)
      have "i + length sp \<le> length s - off" using find_at_Some [OF Some] by simp
      then have le: "off + i + length sp \<le> length s" using "1.prems"(2) by linarith
      have f: "str_find s sp off = Some (off + i)"
        using Some "1.prems" by (simp add: str_find_def)
      have "split_loop s sp off acc =
          split_loop s sp (off + i + length sp) (acc @ [str_sub s off i])"
        using True "1.prems" f by (simp add: split_loop.simps [of s sp off])
      also have "\<dots> = acc @ [str_sub s off i] @
          drop_short_last sp (fields sp (drop (off + i + length sp) s))"
        using "1.IH" [OF _ f] "1.prems" True le by simp
      also have "drop (off + i + length sp) s = drop (i + length sp) (drop off s)"
        by (simp add: ac_simps)
      finally show ?thesis
        using Some "1.prems" by (simp add: fields.simps [of sp "drop off s"] str_sub_def)
    qed
  qed
qed

lemma fields_char: "c \<notin> set s \<Longrightarrow> fields [c] s = [s]"
  by (subst fields.simps) (simp add: find_at_char)

lemma fields_char_append: "c \<notin> set p \<Longrightarrow> fields [c] (p @ c # q) = p # fields [c] q"
proof -
  assume p: "c \<notin> set p"
  then have "find_at [c] (p @ c # q) = Some (length p)"
    by (induction p) auto
  then show ?thesis by (subst fields.simps) simp
qed

lemma fields_join:
  "v \<noteq> [] \<Longrightarrow> \<forall>f \<in> set v. c \<notin> set f \<Longrightarrow> fields [c] (vector_join [c] v) = v"
  by (induction "[c]" v rule: vector_join.induct) (auto simp: fields_char fields_char_append)

lemma vector_join_last_nonempty: "v \<noteq> [] \<Longrightarrow> last v \<noteq> [] \<Longrightarrow> vector_join sp v \<noteq> []"
  by (induction sp v rule: vector_join.induct) auto

section \<open>Lemmas: maps\<close>

lemma map_split_as_fold:
  "fold (\<lambda>e m. case split_entry ak e of None \<Rightarrow> m | Some (k, v) \<Rightarrow> ins k v m) es m =
   fold (\<lambda>(k, v). ins k v) (List.map_filter (split_entry ak) es) m"
  by (induction es arbitrary: m) (auto split: option.splits)

lemma split_entry_key: "split_entry ak e = Some (k, v) \<Longrightarrow> k \<noteq> []"
  by (auto simp: split_entry_def Let_def split: option.splits if_splits)

definition map_inv :: "string_map \<Rightarrow> bool" where
  "map_inv m \<longleftrightarrow> amap_ok m \<and> map_of m [] = None"

interpretation string_map: kv_store map_of Map_Set "\<lambda>k. k \<noteq> []" map_inv
  by unfold_locales (auto simp: Map_Set_def map_inv_def)

lemma Map_Split_put_all:
  "Map_Split vals sp ak =
     string_map.put_all (List.map_filter (split_entry ak) (if vals = [] then [] else Vector_Split vals sp)) []"
proof -
  have "fold (\<lambda>(k, v). amap_set k v) es m = fold (\<lambda>(k, v). Map_Set k v) es m"
    if "\<forall>(k, v) \<in> set es. k \<noteq> []" for es m
    using that by (induction es arbitrary: m) (auto simp: Map_Set_def)
  moreover have "\<forall>(k, v) \<in> set (List.map_filter (split_entry ak) es). k \<noteq> []" for es
    by (auto simp: map_filter_def dest: split_entry_key)
  ultimately show ?thesis
    by (simp add: Map_Split_def string_map.put_all_def map_split_as_fold)
qed

text \<open>Multimaps: the sorted invariant, and insertion after the entries of the same key.\<close>

definition mm_ok :: "string_multimap \<Rightarrow> bool" where
  "mm_ok m = sorted (map fst m)"

lemma set_mm_insert: "set (mm_insert k v m) = insert (k, v) (set m)"
  by (induction m) auto

lemma mm_ok_insert: "mm_ok m \<Longrightarrow> mm_ok (mm_insert k v m)"
  unfolding mm_ok_def by (induction m) (auto simp: set_mm_insert)

lemma filter_mm_insert:
  "mm_ok m \<Longrightarrow> filter (\<lambda>e. fst e = k') (mm_insert k v m) =
     filter (\<lambda>e. fst e = k') m @ (if k = k' then [(k, v)] else [])"
proof (induction m)
  case Nil
  then show ?case by simp
next
  case (Cons x m)
  have "filter (\<lambda>e. fst e = k') (x # m) = []" if "k < fst x" "k = k'"
    using Cons.prems that by (fastforce simp: mm_ok_def filter_empty_conv)
  with Cons show ?case by (auto simp: mm_ok_def)
qed

lemma mm_insert_all_ok: "mm_ok m \<Longrightarrow> mm_ok (mm_insert_all src m)"
  unfolding mm_insert_all_def by (induction src arbitrary: m) (auto simp: mm_ok_insert)

lemma filter_mm_insert_all:
  "mm_ok m \<Longrightarrow> filter (\<lambda>e. fst e = k) (mm_insert_all src m) =
     filter (\<lambda>e. fst e = k) m @ filter (\<lambda>e. fst e = k) src"
  unfolding mm_insert_all_def
  by (induction src arbitrary: m) (auto simp: mm_ok_insert filter_mm_insert)

section \<open>Properties\<close>

text \<open>\<open>StringVector::Split\<close> gives the fields of the string in order, except that a last field
  shorter than the separator is lost.\<close>

theorem vector_split_fields:
  "Vector_Split s sp =
     (if s = [] then [] else if sp = [] then [s]
      else if length (last (fields sp s)) < length sp then butlast (fields sp s)
      else fields sp s)"
  using split_loop_fields [of sp 0 s "[]"] by (simp add: Vector_Split_def drop_short_last_def)

text \<open>Joining a vector with a one-character separator and splitting again gives the vector back,
  when no element contains the separator and the last one is not empty.\<close>

theorem vector_join_split:
  assumes "v \<noteq> []" and "\<forall>f \<in> set v. c \<notin> set f" and "last v \<noteq> []"
  shows "\<exists>s. Vector_ToString v [c] False = Inr s \<and> Vector_Split s [c] = v"
proof -
  have "vector_join [c] v \<noteq> []" using assms(1,3) by (rule vector_join_last_nonempty)
  then have "Vector_Split (vector_join [c] v) [c] = v"
    using assms split_loop_fields [of "[c]" 0 "vector_join [c] v" "[]"]
    by (simp add: Vector_Split_def fields_join drop_short_last_def)
  with assms(1) show ?thesis by (simp add: Vector_ToString_def)
qed

theorem vector_join_split_witness:
  "\<exists>s. Vector_ToString [''ab'', '''', ''c''] '','' False = Inr s \<and>
       Vector_Split s '','' = [''ab'', '''', ''c'']"
  by (rule vector_join_split) simp_all

text \<open>After \<open>StringMap::Split\<close>, a key is found with the value of its last entry, and a key that
  no entry names is found empty.\<close>

theorem map_split_find:
  "Map_Find (Map_Split vals sp ak) key =
     (case map_of (rev (List.map_filter (split_entry ak) (if vals = [] then [] else Vector_Split vals sp))) key
      of Some v \<Rightarrow> v | None \<Rightarrow> [])"
proof -
  let ?es = "List.map_filter (split_entry ak) (if vals = [] then [] else Vector_Split vals sp)"
  have "filter (\<lambda>kv. fst kv \<noteq> []) ?es = ?es"
    by (auto simp: filter_id_conv map_filter_def dest: split_entry_key)
  moreover have "map_of (rev ?es) [] = None"
    by (auto simp: map_of_eq_None_iff map_filter_def dest: split_entry_key)
  ultimately show ?thesis
    using string_map.get_put_all [of "[]" ?es key]
    by (auto simp: Map_Split_put_all Map_Find_def map_inv_def split: option.splits)
qed

text \<open>After \<open>StringMultiMap::Split\<close>, \<open>FindAll\<close> lists the values of all entries of a key in the
  order of the text.\<close>

theorem multimap_split_find_all:
  "Multi_FindAll (Multi_Split vals sp ak) key =
     map snd (filter (\<lambda>e. fst e = key)
       (List.map_filter (split_entry ak) (if vals = [] then [] else Vector_Split vals sp)))"
proof -
  let ?es = "List.map_filter (split_entry ak) (if vals = [] then [] else Vector_Split vals sp)"
  have "Multi_Split vals sp ak = mm_insert_all ?es []"
    by (simp add: Multi_Split_def mm_insert_all_def map_split_as_fold)
  moreover have "filter (\<lambda>e. fst e = []) ?es = []"
    by (auto simp: filter_empty_conv map_filter_def dest: split_entry_key)
  ultimately show ?thesis
    by (auto simp: Multi_FindAll_def filter_mm_insert_all mm_ok_def)
qed

end
