(* ===== verification/Url_Encode.thy ===== *)
theory Url_Encode
  imports String_Helper
begin

text \<open>
  \<open>helper/url_encode.cpp\<close>: percent encoding by a table of 256 strings, and the decoder.
\<close>

section \<open>The encoder\<close>

text \<open>
  \<open>encode_table\<close> maps the letters, the digits and \<open>! ( ) * . _ ~\<close> to themselves and every other
  byte to \<open>%\<close> and its two upper-case hexadecimal digits.
\<close>

definition hex_digit :: "nat \<Rightarrow> char" where
  "hex_digit n = ''0123456789ABCDEF'' ! n"

definition unreserved :: "char \<Rightarrow> bool" where
  "unreserved c \<longleftrightarrow>
     (CHR ''0'' \<le> c \<and> c \<le> CHR ''9'') \<or> (CHR ''A'' \<le> c \<and> c \<le> CHR ''Z'') \<or>
     (CHR ''a'' \<le> c \<and> c \<le> CHR ''z'') \<or> c \<in> set ''!()*._~''"

definition encode_table :: "char \<Rightarrow> string" where
  "encode_table c =
     (if unreserved c then [c]
      else [CHR ''%'', hex_digit (of_char c div 16), hex_digit (of_char c mod 16)])"

definition UrlEncode :: "string \<Rightarrow> string" where
  "UrlEncode src = concat (map encode_table src)"

section \<open>The decoder\<close>

definition url_is_hex_char :: "char \<Rightarrow> bool" where
  "url_is_hex_char ch \<longleftrightarrow>
     (CHR ''0'' \<le> ch \<and> ch \<le> CHR ''9'') \<or> (CHR ''a'' \<le> ch \<and> ch \<le> CHR ''f'') \<or>
     (CHR ''A'' \<le> ch \<and> ch \<le> CHR ''F'')"

definition char2hex :: "char \<Rightarrow> nat" where
  "char2hex ch =
     (if CHR ''0'' \<le> ch \<and> ch \<le> CHR ''9'' then of_char ch - 48
      else if CHR ''a'' \<le> ch \<and> ch \<le> CHR ''f'' then of_char ch - 97 + 10
      else if CHR ''A'' \<le> ch \<and> ch \<le> CHR ''F'' then of_char ch - 65 + 10
      else 0)"

text \<open>\<open>((char2hex(a) << 4) & 0xf0) | (char2hex(b) & 0x0f)\<close> stored into a \<open>char\<close>.\<close>

definition hex_pair :: "char \<Rightarrow> char \<Rightarrow> char" where
  "hex_pair a b = char_of_byte
     ((push_bit 4 (of_nat (char2hex a)) AND 0xF0) OR (of_nat (char2hex b) AND 0x0F))"

fun UrlDecode :: "string \<Rightarrow> string" where
  "UrlDecode [] = []"
| "UrlDecode (c # a # b # rest) =
     (if c = CHR ''%'' \<and> url_is_hex_char a \<and> url_is_hex_char b
      then hex_pair a b # UrlDecode rest
      else c # UrlDecode (a # b # rest))"
| "UrlDecode (c # rest) = c # UrlDecode rest"

section \<open>Lemmas\<close>

lemma hex_digits_16: "n < 16 \<Longrightarrow> url_is_hex_char (hex_digit n) \<and> char2hex (hex_digit n) = n"
proof -
  have "list_all (\<lambda>n. url_is_hex_char (hex_digit n) \<and> char2hex (hex_digit n) = n) [0..<16]"
    by code_simp
  then show "n < 16 \<Longrightarrow> ?thesis" by (auto simp: list_all_iff)
qed

lemma nibbles:
  "n < 16 \<Longrightarrow> m < 16 \<Longrightarrow>
   (push_bit 4 (of_nat n) AND 0xF0) OR (of_nat m AND 0x0F) = (of_nat (16 * n + m) :: byte)"
proof -
  have "list_all (\<lambda>n. list_all (\<lambda>m.
      (push_bit 4 (of_nat n) AND 0xF0) OR (of_nat m AND 0x0F) = (of_nat (16 * n + m) :: byte))
    [0..<16]) [0..<16]"
    by code_simp
  then show "n < 16 \<Longrightarrow> m < 16 \<Longrightarrow> ?thesis" by (auto simp: list_all_iff)
qed

lemma hex_pair_of_byte:
  "hex_pair (hex_digit (of_char c div 16)) (hex_digit (of_char c mod 16)) = c"
proof -
  have "hex_pair (hex_digit (of_char c div 16)) (hex_digit (of_char c mod 16)) =
      char_of_byte (of_nat (of_char c))"
    by (simp add: hex_pair_def hex_digits_16 nibbles)
  also have "of_nat (of_char c) = byte_of c"
    by (simp add: byte_of_def of_nat_of_char)
  finally show ?thesis by simp
qed

lemma percent_not_unreserved: "\<not> unreserved (CHR ''%'')"
  by code_simp

lemma UrlDecode_plain: "c \<noteq> CHR ''%'' \<Longrightarrow> UrlDecode (c # rest) = c # UrlDecode rest"
  by (cases rest; cases "tl rest") auto

lemma UrlDecode_encoded: "UrlDecode (encode_table c @ rest) = c # UrlDecode rest"
proof (cases "unreserved c")
  case True
  then have "c \<noteq> CHR ''%''" using percent_not_unreserved by auto
  with True show ?thesis by (simp add: encode_table_def UrlDecode_plain)
next
  case False
  then show ?thesis
    by (simp add: encode_table_def hex_digits_16 hex_pair_of_byte)
qed

lemma UrlEncode_Cons [simp]: "UrlEncode (c # s) = encode_table c @ UrlEncode s"
  by (simp add: UrlEncode_def)

lemma UrlEncode_Nil [simp]: "UrlEncode [] = []"
  by (simp add: UrlEncode_def)

lemma unreserved_no_delims: "unreserved c \<Longrightarrow> c \<notin> set ''&=?/#+ ''"
  by (auto simp: unreserved_def)

lemma hex_digit_no_delims: "n < 16 \<Longrightarrow> hex_digit n \<notin> set ''&=?/#+ ''"
proof -
  have "list_all (\<lambda>n. hex_digit n \<notin> set ''&=?/#+ '') [0..<16]" by code_simp
  then show "n < 16 \<Longrightarrow> ?thesis" by (auto simp: list_all_iff)
qed

lemma encode_table_no_delims: "set (encode_table c) \<inter> set ''&=?/#+ '' = {}"
proof (cases "unreserved c")
  case True
  then show ?thesis using unreserved_no_delims by (auto simp: encode_table_def)
next
  case False
  then show ?thesis
    using hex_digit_no_delims by (auto simp: encode_table_def)
qed

lemma UrlDecode_UrlEncode [simp]: "UrlDecode (UrlEncode s) = s"
  by (induction s) (simp_all add: UrlDecode_encoded)

lemma encode_table_no_nul: "CHR 0x00 \<notin> set (encode_table c)"
proof (cases "unreserved c")
  case True
  moreover have "\<not> unreserved (CHR 0x00)" by code_simp
  ultimately show ?thesis by (auto simp: encode_table_def)
next
  case False
  have "list_all (\<lambda>n. hex_digit n \<noteq> CHR 0x00) [0..<16]" by code_simp
  then have "n < 16 \<Longrightarrow> hex_digit n \<noteq> CHR 0x00" for n by (auto simp: list_all_iff)
  from this [of "of_char c div 16"] this [of "of_char c mod 16"] False show ?thesis
    by (auto simp: encode_table_def)
qed

lemma UrlEncode_no_nul: "CHR 0x00 \<notin> set (UrlEncode s)"
  by (induction s) (auto simp: encode_table_no_nul)

section \<open>Properties\<close>

text \<open>Decoding an encoded string gives the string back, for every byte string.\<close>

theorem url_decode_encode: "UrlDecode (UrlEncode s) = s"
  by simp

text \<open>An encoded string holds none of the characters that delimit a query.\<close>

theorem url_encode_no_delims: "set (UrlEncode s) \<inter> set ''&=?/#+ '' = {}"
  using encode_table_no_delims by (induction s) auto

end
