(* ===== verification/Block_Codec.thy ===== *)
theory Block_Codec
  imports Prelude
begin

text \<open>
  Block-wise coding: the loop that \<open>Base64\<close>, \<open>BASE32\<close>, \<open>AES\<close> and \<open>DES\<close> share, and the contract
  under which decoding what was encoded gives the input back.  A block routine reads from the
  current offset to the end of the input and returns the block it writes together with the number
  of bytes it counts.
\<close>

section \<open>The loop\<close>

text \<open>
  \<open>for (i = 0; i < block; i++, oft += w)\<close>: the output buffer collects the blocks and \<open>total\<close> the
  counts; \<open>run_blocks\<close> cuts the buffer to the total.
\<close>

primrec block_loop :: "nat \<Rightarrow> ('a list \<Rightarrow> 'b list \<times> nat) \<Rightarrow> nat \<Rightarrow> 'a list \<Rightarrow> 'b list \<times> nat" where
  "block_loop w f 0 xs = ([], 0)"
| "block_loop w f (Suc i) xs =
     (let (out, k) = f xs; (outs, total) = block_loop w f i (drop w xs) in (out @ outs, k + total))"

definition block_count :: "nat \<Rightarrow> nat \<Rightarrow> nat" where
  "block_count w len = len div w + (if len mod w \<noteq> 0 then 1 else 0)"

definition run_blocks :: "nat \<Rightarrow> ('a list \<Rightarrow> 'b list \<times> nat) \<Rightarrow> 'a list \<Rightarrow> 'b list" where
  "run_blocks w f xs =
     (let (outs, total) = block_loop w f (block_count w (length xs)) xs in take total outs)"

lemma block_count_0 [simp]: "block_count w 0 = 0"
  by (simp add: block_count_def)

lemma block_count_short: "0 < len \<Longrightarrow> len \<le> w \<Longrightarrow> block_count w len = 1"
  by (cases "len = w") (auto simp: block_count_def)

lemma block_count_step: "0 < w \<Longrightarrow> w \<le> len \<Longrightarrow> block_count w len = Suc (block_count w (len - w))"
  by (simp add: block_count_def le_div_geq le_mod_geq)

lemma run_blocks_Nil [simp]: "run_blocks w f [] = []"
  by (simp add: run_blocks_def)

lemma run_blocks_last:
  "0 < length xs \<Longrightarrow> length xs \<le> w \<Longrightarrow> run_blocks w f xs = take (snd (f xs)) (fst (f xs))"
  by (simp add: run_blocks_def block_count_short split: prod.splits)

lemma run_blocks_step:
  "0 < w \<Longrightarrow> w \<le> length xs \<Longrightarrow> snd (f xs) = length (fst (f xs)) \<Longrightarrow>
     run_blocks w f xs = fst (f xs) @ run_blocks w f (drop w xs)"
  by (cases "f xs"; cases "block_loop w f (block_count w (length xs - w)) (drop w xs)")
    (simp add: run_blocks_def block_count_step)

text \<open>Blocks of a fixed written width \<open>m\<close> give an output whose length is a multiple of it.\<close>

lemma run_blocks_length_mod:
  assumes "\<And>xs. 0 < length xs \<Longrightarrow> length (fst (f xs)) = m \<and> snd (f xs) = m" and "0 < w"
  shows "length (run_blocks w f xs) mod m = 0"
proof (induction "length xs" arbitrary: xs rule: less_induct)
  case less
  consider "xs = []" | "0 < length xs" "length xs \<le> w" | "w < length xs" by fastforce
  then show ?case
  proof cases
    case 1
    then show ?thesis by simp
  next
    case 2
    then show ?thesis using assms(1) [OF 2(1)] by (simp add: run_blocks_last)
  next
    case 3
    then have "0 < length xs" by linarith
    then show ?thesis
      using 3 assms(1) [OF \<open>0 < length xs\<close>] assms(2) less [of "drop w xs"] by (simp add: run_blocks_step)
  qed
qed

section \<open>The contract\<close>

text \<open>
  \<open>n\<close> and \<open>m\<close> are the block widths of the plain and the encoded side.  A full block decodes to
  itself; a short last block decodes to \<open>tail\<close> of it, the identity for a faithful code.
\<close>

locale block_codec =
  fixes n m :: nat
    and encb :: "'a list \<Rightarrow> 'b list \<times> nat"
    and decb :: "'b list \<Rightarrow> 'a list \<times> nat"
    and tail :: "'a list \<Rightarrow> 'a list"
  assumes widths: "0 < n" "0 < m"
    and enc_full: "n \<le> length xs \<Longrightarrow> length (fst (encb xs)) = m \<and> snd (encb xs) = m"
    and enc_short: "0 < length xs \<Longrightarrow> length xs < n \<Longrightarrow>
          length (fst (encb xs)) = m \<and> 0 < snd (encb xs) \<and> snd (encb xs) \<le> m"
    and dec_full: "n \<le> length xs \<Longrightarrow> decb (fst (encb xs) @ ys) = (take n xs, n)"
    and dec_short: "0 < length xs \<Longrightarrow> length xs < n \<Longrightarrow>
          (let (out, k) = decb (take (snd (encb xs)) (fst (encb xs))) in take k out = tail xs)"
begin

definition last_block :: "'a list \<Rightarrow> 'a list" where
  "last_block xs = drop (length xs - length xs mod n) xs"

definition full_blocks :: "'a list \<Rightarrow> 'a list" where
  "full_blocks xs = take (length xs - length xs mod n) xs"

lemma full_last: "full_blocks xs @ last_block xs = xs"
  by (simp add: full_blocks_def last_block_def)

lemma length_last_block: "length (last_block xs) = length xs mod n"
  by (simp add: last_block_def)

lemma last_block_drop: "n \<le> length xs \<Longrightarrow> last_block (drop n xs) = last_block xs"
proof -
  assume le: "n \<le> length xs"
  then have "(length xs - n) mod n = length xs mod n" by (simp add: le_mod_geq)
  moreover have "length xs mod n \<le> length xs - n"
    using le \<open>(length xs - n) mod n = length xs mod n\<close> by (metis mod_less_eq_dividend)
  ultimately show ?thesis using le by (simp add: last_block_def)
qed

lemma full_blocks_drop: "n \<le> length xs \<Longrightarrow> full_blocks xs = take n xs @ full_blocks (drop n xs)"
  by (metis append_assoc append_same_eq append_take_drop_id full_last last_block_drop)

text \<open>Decoding an encoded text: the full blocks, then what the last one decodes to.\<close>

lemma decode_encode:
  "run_blocks m decb (run_blocks n encb xs) =
     full_blocks xs @ (if last_block xs = [] then [] else tail (last_block xs))"
proof (induction "length xs" arbitrary: xs rule: less_induct)
  case less
  consider "xs = []" | "0 < length xs" "length xs < n" | "n \<le> length xs"
    by fastforce
  then show ?case
  proof cases
    case 1
    then show ?thesis by (simp add: full_blocks_def last_block_def)
  next
    case 2
    let ?e = "take (snd (encb xs)) (fst (encb xs))"
    have "length ?e = snd (encb xs)" using enc_short [OF 2] by simp
    then have "run_blocks m decb ?e = tail xs"
      using enc_short [OF 2] dec_short [OF 2] by (simp add: run_blocks_last split: prod.splits)
    then show ?thesis
      using 2 by (simp add: run_blocks_last full_blocks_def last_block_def)
  next
    case 3
    let ?b = "fst (encb xs)" and ?r = "run_blocks n encb (drop n xs)"
    have b: "length ?b = m" "snd (encb xs) = m" using enc_full [OF 3] by auto
    have "decb (?b @ ?r) = (take n xs, n)" using dec_full [OF 3] .
    moreover from this have "run_blocks m decb (?b @ ?r) = take n xs @ run_blocks m decb ?r"
      using widths b 3 by (simp add: run_blocks_step)
    moreover have "run_blocks n encb xs = ?b @ ?r"
      using widths b 3 by (simp add: run_blocks_step)
    moreover have "run_blocks m decb ?r =
        full_blocks (drop n xs) @ (if last_block (drop n xs) = [] then [] else tail (last_block (drop n xs)))"
      using widths 3 less by simp
    ultimately show ?thesis
      using 3 by (simp add: last_block_drop full_blocks_drop)
  qed
qed

lemma decode_encode_id:
  assumes "\<And>xs. 0 < length xs \<Longrightarrow> length xs < n \<Longrightarrow> tail xs = xs"
  shows "run_blocks m decb (run_blocks n encb xs) = xs"
proof (cases "last_block xs = []")
  case True
  then show ?thesis using full_last [of xs] by (simp add: decode_encode)
next
  case False
  then have "tail (last_block xs) = last_block xs"
    using assms widths length_last_block [of xs] by simp
  with False show ?thesis by (simp add: decode_encode full_last)
qed

end

end
