(* ===== verification/Base64.thy ===== *)
theory Base64
  imports Block_Codec
begin

text \<open>
  \<open>helper/crypto/base64.cpp\<close>: the class \<open>Base64\<close> with its alphabet and the inverse index, the block
  routines, and the two whole-string operations.  \<open>index_\<close> is not initialised before \<open>SetKeys\<close>
  fills the entries of the alphabet, so its other entries stay at whatever they were.
\<close>

record base64 =
  b64_keys :: "byte list"
  b64_index :: "byte \<Rightarrow> byte"

definition kDefaultBase64Keys :: string where
  "kDefaultBase64Keys = ''ABCDEFGHIJKLMNOPQRSTUVWXYZabcdefghijklmnopqrstuvwxyz0123456789+/''"

definition pad_char :: byte where
  "pad_char = 61"

section \<open>Block routines\<close>

text \<open>The written block and the returned number; an empty input writes nothing and returns 0.\<close>

fun base64_encrypt :: "byte list \<Rightarrow> byte list \<Rightarrow> byte list \<times> nat" where
  "base64_encrypt keys [] = ([], 0)"
| "base64_encrypt keys [a] =
     ([keys ! unat (drop_bit 2 a), keys ! unat (push_bit 4 (a AND 3)), pad_char, pad_char], 2)"
| "base64_encrypt keys [a, b] =
     ([keys ! unat (drop_bit 2 a),
       keys ! unat (push_bit 4 (a AND 3) OR drop_bit 4 b),
       keys ! unat (push_bit 2 (b AND 15)), pad_char], 1)"
| "base64_encrypt keys (a # b # c # rest) =
     ([keys ! unat (drop_bit 2 a),
       keys ! unat (push_bit 4 (a AND 3) OR drop_bit 4 b),
       keys ! unat (push_bit 2 (b AND 15) OR drop_bit 6 c),
       keys ! unat (c AND 63)], 0)"

text \<open>The output block starts as three zero bytes; \<open>out\<close> elements not assigned keep the zero.\<close>

definition base64_decrypt :: "(byte \<Rightarrow> byte) \<Rightarrow> byte list \<Rightarrow> byte list \<times> nat" where
  "base64_decrypt index ins =
     (let i0 = index (ins ! 0); i1 = index (ins ! 1); i2 = index (ins ! 2); i3 = index (ins ! 3);
          out0 = push_bit 2 i0 OR drop_bit 4 i1;
          out1 = push_bit 4 (i1 AND 15) OR drop_bit 2 i2;
          out2 = push_bit 6 (i2 AND 3) OR (i3 AND 63)
      in if ins ! 2 = pad_char then ([out0, 0, 0], 1)
         else if ins ! 3 = pad_char then ([out0, out1, 0], 2)
         else ([out0, out1, out2], 3))"

section \<open>The class\<close>

text \<open>
  \<open>SetKeys\<close>: the return value, and the object.  Indexing with a negative \<open>char\<close> leaves the arrays.
\<close>

definition fill_index :: "byte list \<Rightarrow> (byte \<Rightarrow> byte) \<Rightarrow> (byte \<Rightarrow> byte)" where
  "fill_index keys index = fold (\<lambda>i idx. idx(keys ! i := of_nat i)) [0..<length keys] index"

definition Base64_SetKeys :: "string \<Rightarrow> (byte \<Rightarrow> byte) \<Rightarrow> (int \<times> base64) outcome" where
  "Base64_SetKeys keys index =
     (let short = length keys < 64;
          ks = map byte_of (take 64 (if short then kDefaultBase64Keys else keys))
      in if \<exists>k \<in> set ks. k \<ge> 128 then Inl Out_Of_Bounds
         else Inr (if short \<or> \<not> distinct ks then -1 else 0,
                   \<lparr>b64_keys = ks, b64_index = fill_index ks index\<rparr>))"

definition Base64_new :: "(byte \<Rightarrow> byte) \<Rightarrow> base64 outcome" where
  "Base64_new junk = obind (Base64_SetKeys kDefaultBase64Keys junk) (\<lambda>(ret, b). Inr b)"

text \<open>\<open>Encrypt\<close> counts four characters for every block, whatever the routine returned.\<close>

definition b64_block :: "base64 \<Rightarrow> byte list \<Rightarrow> byte list \<times> nat" where
  "b64_block b ins = (fst (base64_encrypt (b64_keys b) ins), 4)"

definition Base64_Encrypt :: "base64 \<Rightarrow> string \<Rightarrow> string" where
  "Base64_Encrypt b str =
     (if str = [] then [] else map char_of_byte (run_blocks 3 (b64_block b) (map byte_of str)))"

definition Base64_Decrypt :: "base64 \<Rightarrow> string \<Rightarrow> string" where
  "Base64_Decrypt b str =
     (if length str mod 4 \<noteq> 0 then []
      else map char_of_byte (run_blocks 4 (base64_decrypt (b64_index b)) (map byte_of str)))"

section \<open>Lemmas\<close>

text \<open>What a proper alphabet gives: 64 distinct characters, the index inverting them, no pad.\<close>

definition b64_ok :: "base64 \<Rightarrow> bool" where
  "b64_ok b \<longleftrightarrow> length (b64_keys b) = 64 \<and> pad_char \<notin> set (b64_keys b) \<and>
     (\<forall>i < 64. b64_index b (b64_keys b ! i) = of_nat i)"

lemma fill_index_nth:
  assumes "distinct keys" and "i < length keys"
  shows "fill_index keys index (keys ! i) = of_nat i"
proof -
  have "fold (\<lambda>i idx. idx(keys ! i := of_nat i)) [0..<k] index (keys ! i) =
      (if i < k then of_nat i else index (keys ! i))" if "k \<le> length keys" for k
    using that assms by (induction k) (auto simp: nth_eq_iff_index_eq)
  with assms(2) show ?thesis by (simp add: fill_index_def)
qed

lemma six_bits:
  "unat (drop_bit 2 a :: byte) < 64" "unat (push_bit 4 (a AND 3) OR drop_bit 4 b :: byte) < 64"
  "unat (push_bit 2 (b AND 15) OR drop_bit 6 c :: byte) < 64" "unat (c AND 63 :: byte) < 64"
  "unat (push_bit 4 (a AND 3) :: byte) < 64" "unat (push_bit 2 (b AND 15) :: byte) < 64"
proof -
  have *: "unat x < 64" if "x = take_bit 6 x" for x :: byte
    using byte_bound [OF that] by simp
  show "unat (drop_bit 2 a :: byte) < 64"
    by (rule *, rule byte_eqI) (auto simp: byte_bits)
  show "unat (push_bit 4 (a AND 3) OR drop_bit 4 b :: byte) < 64"
    by (rule *, rule byte_eqI) (auto simp: byte_bits)
  show "unat (push_bit 2 (b AND 15) OR drop_bit 6 c :: byte) < 64"
    by (rule *, rule byte_eqI) (auto simp: byte_bits)
  show "unat (c AND 63 :: byte) < 64"
    by (rule *, rule byte_eqI) (auto simp: byte_bits)
  show "unat (push_bit 4 (a AND 3) :: byte) < 64"
    by (rule *, rule byte_eqI) (auto simp: byte_bits)
  show "unat (push_bit 2 (b AND 15) :: byte) < 64"
    by (rule *, rule byte_eqI) (auto simp: byte_bits)
qed

text \<open>The four sextets of three bytes, and the bytes they came from.\<close>

definition sext1 :: "byte \<Rightarrow> byte" where "sext1 a = drop_bit 2 a"
definition sext2 :: "byte \<Rightarrow> byte \<Rightarrow> byte" where "sext2 a b = push_bit 4 (a AND 3) OR drop_bit 4 b"
definition sext3 :: "byte \<Rightarrow> byte \<Rightarrow> byte" where "sext3 b c = push_bit 2 (b AND 15) OR drop_bit 6 c"
definition sext4 :: "byte \<Rightarrow> byte" where "sext4 c = c AND 63"

lemma sext_bounds:
  "unat (sext1 a) < 64" "unat (sext2 a b) < 64" "unat (sext3 b c) < 64" "unat (sext4 c) < 64"
  using six_bits by (auto simp: sext1_def sext2_def sext3_def sext4_def)

lemma base64_encrypt_sext:
  "base64_encrypt keys [a] = ([keys ! unat (sext1 a), keys ! unat (sext2 a 0), pad_char, pad_char], 2)"
  "base64_encrypt keys [a, b] =
     ([keys ! unat (sext1 a), keys ! unat (sext2 a b), keys ! unat (sext3 b 0), pad_char], 1)"
  "base64_encrypt keys (a # b # c # rest) =
     ([keys ! unat (sext1 a), keys ! unat (sext2 a b), keys ! unat (sext3 b c), keys ! unat (sext4 c)], 0)"
  by (simp_all add: sext1_def sext2_def sext3_def sext4_def)

lemma sextet_1: "push_bit 2 (sext1 a) OR drop_bit 4 (sext2 a b) = a"
  unfolding sext1_def sext2_def by (rule byte_eqI) (auto simp: byte_bits; simp add: eval_nat_numeral)

lemma sextet_2: "push_bit 4 (sext2 a b AND 15) OR drop_bit 2 (sext3 b c) = b"
  unfolding sext3_def sext2_def by (rule byte_eqI) (auto simp: byte_bits)

lemma sextet_3: "push_bit 6 (sext3 b c AND 3) OR (sext4 c AND 63) = c"
  unfolding sext3_def sext4_def by (rule byte_eqI) (auto simp: byte_bits)

lemma base64_encrypt_length: "0 < length xs \<Longrightarrow> length (fst (base64_encrypt keys xs)) = 4"
  by (induction keys xs rule: base64_encrypt.induct) simp_all

lemma b64_index_key:
  "b64_ok b \<Longrightarrow> unat x < 64 \<Longrightarrow> b64_index b (b64_keys b ! unat x) = x"
  by (simp add: b64_ok_def)

lemma b64_key_not_pad: "b64_ok b \<Longrightarrow> i < 64 \<Longrightarrow> b64_keys b ! i \<noteq> pad_char"
  by (metis b64_ok_def nth_mem)

lemmas b64_simps = b64_index_key b64_key_not_pad sext_bounds sextet_1 sextet_2 [simplified]
  sextet_3 [simplified]  base64_encrypt_sext base64_decrypt_def Let_def b64_block_def

lemma base64_block_codec:
  assumes ok: "b64_ok b"
  shows "block_codec 3 4 (b64_block b)
     (base64_decrypt (b64_index b)) (\<lambda>xs. xs)"
proof
  show "(0::nat) < 3" "(0::nat) < 4" by simp_all
next
  fix xs ys :: "byte list" assume le: "3 \<le> length xs"
  then obtain x y z r where xs: "xs = x # y # z # r"
    by (metis Suc_le_length_iff numeral_3_eq_3)
  show "length (fst (b64_block b xs)) = 4 \<and>
      snd (b64_block b xs) = 4"
    by (simp add: xs b64_block_def)
  show "base64_decrypt (b64_index b) (fst (b64_block b xs) @ ys) = (take 3 xs, 3)"
    using ok by (simp add: xs b64_simps del: base64_encrypt.simps)
next
  fix xs :: "byte list" assume "0 < length xs" "length xs < 3"
  then consider x where "xs = [x]" | x y where "xs = [x, y]"
    by (cases xs; cases "tl xs"; cases "tl (tl xs)") auto
  note cases = this
  show "length (fst (b64_block b xs)) = 4 \<and>
      0 < snd (b64_block b xs) \<and>
      snd (b64_block b xs) \<le> 4"
    by (rule cases) (simp_all add: b64_block_def)
  show "let (out, k) = base64_decrypt (b64_index b)
          (take (snd (b64_block b xs))
            (fst (b64_block b xs)))
      in take k out = xs"
    using ok by (rule_tac cases) (simp_all add: b64_simps del: base64_encrypt.simps)
qed

section \<open>The class\<close>

lemma set_keys_ok:
  assumes "Base64_SetKeys keys junk = Inr (0, b)" and "CHR ''='' \<notin> set (take 64 keys)"
  shows "b64_ok b"
proof -
  let ?ks = "map byte_of (take 64 keys)"
  have *: "64 \<le> length keys" "distinct ?ks" "b = \<lparr>b64_keys = ?ks, b64_index = fill_index ?ks junk\<rparr>"
    using assms(1) by (auto simp: Base64_SetKeys_def Let_def split: if_splits)
  have "pad_char = byte_of CHR ''=''" by (simp add: pad_char_def byte_of_def)
  then have "pad_char \<notin> set ?ks" using assms(2) by (metis byte_of_inj imageE set_map)
  with * fill_index_nth [of ?ks _ junk] show ?thesis by (simp add: b64_ok_def)
qed

lemma Decrypt_Encrypt:
  assumes "b64_ok b"
  shows "Base64_Decrypt b (Base64_Encrypt b str) = str"
proof (cases "str = []")
  case True
  then show ?thesis by (simp add: Base64_Encrypt_def Base64_Decrypt_def)
next
  case False
  let ?xs = "map byte_of str"
  have len: "length (run_blocks 3 (b64_block b) xs) mod 4 = 0" for xs
    by (rule run_blocks_length_mod) (auto simp: b64_block_def base64_encrypt_length)
  have "run_blocks 4 (base64_decrypt (b64_index b)) (run_blocks 3 (b64_block b) ?xs) = ?xs"
    by (rule block_codec.decode_encode_id [OF base64_block_codec [OF assms]])  simp
  then show ?thesis
    using False len by (simp add: Base64_Encrypt_def Base64_Decrypt_def comp_def)
qed

text \<open>The object the default constructor makes, whatever the index held before.\<close>

definition default_b64 :: base64 where
  "default_b64 = \<lparr>b64_keys = map byte_of kDefaultBase64Keys,
     b64_index = fill_index (map byte_of kDefaultBase64Keys) (\<lambda>_. 0)\<rparr>"

lemma default_keys: "Base64_SetKeys kDefaultBase64Keys (\<lambda>_. 0) = Inr (0, default_b64)"
  by (simp add: Base64_SetKeys_def default_b64_def kDefaultBase64Keys_def byte_of_def Let_def)

interpretation b64: block_codec 3 4 "b64_block default_b64"
  "base64_decrypt (b64_index default_b64)" "\<lambda>xs. xs"
  by (rule base64_block_codec, rule set_keys_ok [OF default_keys]) (simp add: kDefaultBase64Keys_def)

text \<open>Decoding inverts encoding for every alphabet \<open>SetKeys\<close> accepts, as long as it does not use
  the pad character, whatever the uninitialised entries of the index hold.\<close>

theorem base64_roundtrip:
  assumes "Base64_SetKeys keys junk = Inr (0, b)" and "CHR ''='' \<notin> set (take 64 keys)"
  shows "Base64_Decrypt b (Base64_Encrypt b str) = str"
  by (rule Decrypt_Encrypt, rule set_keys_ok [OF assms])

lemma base64_roundtrip_witness:
  "Base64_Decrypt default_b64 (Base64_Encrypt default_b64 ''mosq'') = ''mosq''"
  by (rule base64_roundtrip [OF default_keys]) (simp add: kDefaultBase64Keys_def)

end
