(* ===== verification/Base32.thy ===== *)
theory Base32
  imports Base64
begin

text \<open>
  \<open>helper/crypto/base32.cpp\<close>: the class \<open>BASE32\<close>.  A last block of 1, 2, 3 or 4 bytes is written as
  2, 4, 5 or 7 characters without padding; the decoder counts a block of seven characters as five
  bytes, so an input whose length is 4 modulo 5 comes back with a NUL byte appended.
\<close>

record base32 =
  b32_keys :: "byte list"
  b32_index :: "byte \<Rightarrow> byte"

definition kDefaultBase32Keys :: string where
  "kDefaultBase32Keys = ''0123456789abcdfhijklmoqrstuvwxyz''"

section \<open>Block routines\<close>

text \<open>The output block of eight (five) bytes starts as zeros; positions not assigned keep the zero.\<close>

definition zeros_after :: "nat \<Rightarrow> byte list \<Rightarrow> byte list" where
  "zeros_after n xs = xs @ replicate (n - length xs) 0"

definition base32_encrypt :: "byte list \<Rightarrow> byte list \<Rightarrow> byte list \<times> nat" where
  "base32_encrypt keys ins =
     (let k = (\<lambda>x. keys ! unat x) in
      case ins of
        [] \<Rightarrow> (zeros_after 8 [], 0)
      | [a] \<Rightarrow> (zeros_after 8 [k (drop_bit 3 a), k (push_bit 2 (a AND 7))], 2)
      | [a, b] \<Rightarrow>
          (zeros_after 8 [k (drop_bit 3 a), k (push_bit 2 (a AND 7) OR drop_bit 6 b),
             k (drop_bit 1 (b AND 63)), k (push_bit 4 (b AND 1))], 4)
      | [a, b, c] \<Rightarrow>
          (zeros_after 8 [k (drop_bit 3 a), k (push_bit 2 (a AND 7) OR drop_bit 6 b),
             k (drop_bit 1 (b AND 63)), k (push_bit 4 (b AND 1) OR drop_bit 4 c),
             k (push_bit 1 (c AND 15))], 5)
      | [a, b, c, d] \<Rightarrow>
          (zeros_after 8 [k (drop_bit 3 a), k (push_bit 2 (a AND 7) OR drop_bit 6 b),
             k (drop_bit 1 (b AND 63)), k (push_bit 4 (b AND 1) OR drop_bit 4 c),
             k (push_bit 1 (c AND 15) OR drop_bit 7 d), k (drop_bit 2 (d AND 127)),
             k (push_bit 3 (d AND 3))], 7)
      | a # b # c # d # e # rest \<Rightarrow>
          ([k (drop_bit 3 a), k (push_bit 2 (a AND 7) OR drop_bit 6 b),
             k (drop_bit 1 (b AND 63)), k (push_bit 4 (b AND 1) OR drop_bit 4 c),
             k (push_bit 1 (c AND 15) OR drop_bit 7 d), k (drop_bit 2 (d AND 127)),
             k (push_bit 3 (d AND 3) OR drop_bit 5 e), k (e AND 31)], 8))"

definition base32_decrypt :: "(byte \<Rightarrow> byte) \<Rightarrow> byte list \<Rightarrow> byte list \<times> nat" where
  "base32_decrypt index ins =
     (let i = (\<lambda>n. index (ins ! n)); inlen = length ins;
          out0 = push_bit 3 (i 0) OR drop_bit 2 (i 1);
          out1 = push_bit 6 (i 1 AND 3) OR push_bit 1 (i 2) OR drop_bit 4 (i 3);
          out2 = push_bit 4 (i 3 AND 15) OR drop_bit 1 (i 4);
          out3 = push_bit 7 (i 4 AND 1) OR push_bit 2 (i 5) OR drop_bit 3 (i 6)
      in if inlen = 0 then (zeros_after 5 [], 0)
         else if inlen = 1 then (zeros_after 5 [push_bit 3 (i 0)], 1)
         else if inlen = 2 then
           let last = push_bit 6 (i 1 AND 3)
           in (zeros_after 5 [out0, last], 1 + (if last \<noteq> 0 then 1 else 0))
         else if inlen = 3 then
           (zeros_after 5 [out0, push_bit 6 (i 1 AND 3) OR push_bit 1 (i 2)], 2)
         else if inlen = 4 then
           let last = push_bit 4 (i 3 AND 15)
           in (zeros_after 5 [out0, out1, last], 2 + (if last \<noteq> 0 then 1 else 0))
         else if inlen = 5 then
           let last = push_bit 7 (i 4 AND 1)
           in (zeros_after 5 [out0, out1, out2, last], 3 + (if last \<noteq> 0 then 1 else 0))
         else if inlen = 6 then
           (zeros_after 5 [out0, out1, out2, push_bit 7 (i 4 AND 1) OR push_bit 2 (i 5)], 4)
         else if inlen = 7 then ([out0, out1, out2, out3, push_bit 5 (i 6 AND 7)], 5)
         else ([out0, out1, out2, out3, push_bit 5 (i 6 AND 7) OR i 7], 5))"

section \<open>The class\<close>

definition BASE32_SetKeys :: "string \<Rightarrow> (byte \<Rightarrow> byte) \<Rightarrow> (int \<times> base32) outcome" where
  "BASE32_SetKeys keys index =
     (let short = length keys < 32;
          ks = map byte_of (take 32 (if short then kDefaultBase32Keys else keys))
      in if \<exists>k \<in> set ks. k \<ge> 128 then Inl Out_Of_Bounds
         else Inr (if short \<or> \<not> distinct ks then -1 else 0,
                   \<lparr>b32_keys = ks, b32_index = fill_index ks index\<rparr>))"

definition BASE32_new :: "(byte \<Rightarrow> byte) \<Rightarrow> base32 outcome" where
  "BASE32_new junk = obind (BASE32_SetKeys kDefaultBase32Keys junk) (\<lambda>(ret, b). Inr b)"

definition BASE32_Encrypt :: "base32 \<Rightarrow> string \<Rightarrow> string" where
  "BASE32_Encrypt b str =
     (if str = [] then []
      else map char_of_byte (run_blocks 5 (base32_encrypt (b32_keys b)) (map byte_of str)))"

definition BASE32_Decrypt :: "base32 \<Rightarrow> string \<Rightarrow> string" where
  "BASE32_Decrypt b str =
     map char_of_byte (run_blocks 8 (base32_decrypt (b32_index b)) (map byte_of str))"

section \<open>Lemmas\<close>

definition b32_ok :: "base32 \<Rightarrow> bool" where
  "b32_ok b \<longleftrightarrow> length (b32_keys b) = 32 \<and> (\<forall>i < 32. b32_index b (b32_keys b ! i) = of_nat i)"

text \<open>The eight groups of five bits of five bytes.\<close>

definition q1 :: "byte \<Rightarrow> byte" where "q1 a = drop_bit 3 a"
definition q2 :: "byte \<Rightarrow> byte \<Rightarrow> byte" where "q2 a b = push_bit 2 (a AND 7) OR drop_bit 6 b"
definition q3 :: "byte \<Rightarrow> byte" where "q3 b = drop_bit 1 (b AND 63)"
definition q4 :: "byte \<Rightarrow> byte \<Rightarrow> byte" where "q4 b c = push_bit 4 (b AND 1) OR drop_bit 4 c"
definition q5 :: "byte \<Rightarrow> byte \<Rightarrow> byte" where "q5 c d = push_bit 1 (c AND 15) OR drop_bit 7 d"
definition q6 :: "byte \<Rightarrow> byte" where "q6 d = drop_bit 2 (d AND 127)"
definition q7 :: "byte \<Rightarrow> byte \<Rightarrow> byte" where "q7 d e = push_bit 3 (d AND 3) OR drop_bit 5 e"
definition q8 :: "byte \<Rightarrow> byte" where "q8 e = e AND 31"

lemmas q_defs = q1_def q2_def q3_def q4_def q5_def q6_def q7_def q8_def

lemma five_bits: "x = take_bit 5 (x :: byte) \<Longrightarrow> unat x < 32"
  by (drule byte_bound) simp

lemma q_bounds:
  "unat (q1 a) < 32" "unat (q2 a b) < 32" "unat (q3 b) < 32" "unat (q4 b c) < 32"
  "unat (q5 c d) < 32" "unat (q6 d) < 32" "unat (q7 d e) < 32" "unat (q8 e) < 32"
proof -
  show "unat (q1 a) < 32" unfolding q_defs by (rule five_bits, rule byte_eqI) (auto simp: byte_bits)
  show "unat (q2 a b) < 32" unfolding q_defs by (rule five_bits, rule byte_eqI) (auto simp: byte_bits)
  show "unat (q3 b) < 32" unfolding q_defs by (rule five_bits, rule byte_eqI) (auto simp: byte_bits)
  show "unat (q4 b c) < 32" unfolding q_defs by (rule five_bits, rule byte_eqI) (auto simp: byte_bits)
  show "unat (q5 c d) < 32" unfolding q_defs by (rule five_bits, rule byte_eqI) (auto simp: byte_bits)
  show "unat (q6 d) < 32" unfolding q_defs by (rule five_bits, rule byte_eqI) (auto simp: byte_bits)
  show "unat (q7 d e) < 32" unfolding q_defs by (rule five_bits, rule byte_eqI) (auto simp: byte_bits)
  show "unat (q8 e) < 32" unfolding q_defs by (rule five_bits, rule byte_eqI) (auto simp: byte_bits)
qed

lemma quint_0: "push_bit 3 (q1 a) OR drop_bit 2 (q2 a b) = a"
  unfolding q_defs by (rule byte_eqI, elim insertE emptyE; simp add: byte_bits)

lemma quint_1: "push_bit 6 (q2 a b AND 3) OR push_bit 1 (q3 b) OR drop_bit 4 (q4 b c) = b"
  unfolding q_defs by (rule byte_eqI, elim insertE emptyE; (simp add: byte_bits; simp add: bit_0))

lemma quint_2: "push_bit 4 (q4 b c AND 15) OR drop_bit 1 (q5 c d) = c"
  unfolding q_defs by (rule byte_eqI, elim insertE emptyE; simp add: byte_bits)

lemma quint_3: "push_bit 7 (q5 c d AND 1) OR push_bit 2 (q6 d) OR drop_bit 3 (q7 d e) = d"
  unfolding q_defs by (rule byte_eqI, elim insertE emptyE; simp add: byte_bits)

lemma quint_4: "push_bit 5 (q7 d e AND 7) OR q8 e = e"
  unfolding q_defs by (rule byte_eqI, elim insertE emptyE; simp add: byte_bits)

lemma quint_rest:
  "push_bit 6 (q2 a 0 AND 3) = 0" "push_bit 4 (q4 b 0 AND 15) = 0" "push_bit 7 (q5 c 0 AND 1) = 0"
  "push_bit 5 (q7 d 0 AND 7) = 0"
  unfolding q_defs by (rule byte_eqI, auto simp: byte_bits)+

lemma base32_encrypt_q:
  fixes keys defines "k \<equiv> \<lambda>x. keys ! unat x"
  shows
  "base32_encrypt keys [a] = ([k (q1 a), k (q2 a 0), 0, 0, 0, 0, 0, 0], 2)"
  "base32_encrypt keys [a, b] = ([k (q1 a), k (q2 a b), k (q3 b), k (q4 b 0), 0, 0, 0, 0], 4)"
  "base32_encrypt keys [a, b, c] =
     ([k (q1 a), k (q2 a b), k (q3 b), k (q4 b c), k (q5 c 0), 0, 0, 0], 5)"
  "base32_encrypt keys [a, b, c, d] =
     ([k (q1 a), k (q2 a b), k (q3 b), k (q4 b c), k (q5 c d), k (q6 d), k (q7 d 0), 0], 7)"
  "base32_encrypt keys (a # b # c # d # e # rest) =
     ([k (q1 a), k (q2 a b), k (q3 b), k (q4 b c), k (q5 c d), k (q6 d), k (q7 d e), k (q8 e)], 8)"
  by (simp_all add: base32_encrypt_def Let_def zeros_after_def k_def q_defs eval_nat_numeral)

lemma b32_index_key: "b32_ok b \<Longrightarrow> unat x < 32 \<Longrightarrow> b32_index b (b32_keys b ! unat x) = x"
  by (simp add: b32_ok_def)

lemma replicate_2_3: "replicate 2 x = [x, x]" "replicate 3 x = [x, x, x]"
  by (simp_all add: eval_nat_numeral)

lemma base32_decrypt_encrypt:
  assumes "b32_ok b"
  defines "D \<equiv> base32_decrypt (b32_index b)"
    and "E \<equiv> \<lambda>xs. take (snd (base32_encrypt (b32_keys b) xs)) (fst (base32_encrypt (b32_keys b) xs))"
  shows "D (E [x]) = ([x, 0, 0, 0, 0], 1)" "D (E [x, y]) = ([x, y, 0, 0, 0], 2)"
    "D (E [x, y, z]) = ([x, y, z, 0, 0], 3)" "D (E [x, y, z, u]) = ([x, y, z, u, 0], 5)"
    "D (fst (base32_encrypt (b32_keys b) (x # y # z # u # v # r)) @ ys) = ([x, y, z, u, v], 5)"
  using assms(1)
  by (simp_all add: D_def E_def base32_encrypt_q base32_decrypt_def Let_def b32_index_key q_bounds
    zeros_after_def replicate_2_3 quint_0 quint_1 [simplified] quint_2 [simplified] quint_3 [simplified]
    quint_4 [simplified] quint_rest [simplified])

text \<open>What a short last block decodes to.\<close>

definition b32_tail :: "byte list \<Rightarrow> byte list" where
  "b32_tail xs = (if length xs = 4 then xs @ [0] else xs)"

lemma short_cases:
  assumes "0 < length xs" and "length xs < 5"
  obtains x where "xs = [x]" | x y where "xs = [x, y]" | x y z where "xs = [x, y, z]"
    | x y z u where "xs = [x, y, z, u]"
proof (cases xs)
  case (Cons x r)
  note 1 = this
  show ?thesis
  proof (cases r)
    case Nil
    with 1 that show ?thesis by simp
  next
    case (Cons y s)
    then show ?thesis
      using 1 assms that by (cases s; cases "tl s"; cases "tl (tl s)") auto
  qed
qed (use assms in simp)

lemma base32_block_codec:
  assumes ok: "b32_ok b"
  shows "block_codec 5 8 (base32_encrypt (b32_keys b)) (base32_decrypt (b32_index b)) b32_tail"
proof
  show "(0::nat) < 5" "(0::nat) < 8" by simp_all
next
  fix xs ys :: "byte list" assume le: "5 \<le> length xs"
  then obtain x y z u v r where xs: "xs = x # y # z # u # v # r"
    by (auto simp: Suc_le_length_iff eval_nat_numeral)
  show "length (fst (base32_encrypt (b32_keys b) xs)) = 8 \<and> snd (base32_encrypt (b32_keys b) xs) = 8"
    by (simp add: xs base32_encrypt_q)
  show "base32_decrypt (b32_index b) (fst (base32_encrypt (b32_keys b) xs) @ ys) = (take 5 xs, 5)"
    using base32_decrypt_encrypt(5) [OF ok] by (simp add: xs)
next
  fix xs :: "byte list" assume "0 < length xs" "length xs < 5"
  note cases = short_cases [OF this]
  show "length (fst (base32_encrypt (b32_keys b) xs)) = 8 \<and>
      0 < snd (base32_encrypt (b32_keys b) xs) \<and> snd (base32_encrypt (b32_keys b) xs) \<le> 8"
    by (rule cases) (simp_all add: base32_encrypt_q)
  show "let (out, k) = base32_decrypt (b32_index b)
          (take (snd (base32_encrypt (b32_keys b) xs)) (fst (base32_encrypt (b32_keys b) xs)))
      in take k out = b32_tail xs"
    by (rule cases) (simp_all add: base32_decrypt_encrypt(1-4) [OF ok] b32_tail_def)
qed

section \<open>The class\<close>

lemma b32_set_keys_ok:
  assumes "BASE32_SetKeys keys junk = Inr (0, b)"
  shows "b32_ok b"
proof -
  let ?ks = "map byte_of (take 32 keys)"
  have "32 \<le> length keys" "distinct ?ks" "b = \<lparr>b32_keys = ?ks, b32_index = fill_index ?ks junk\<rparr>"
    using assms by (auto simp: BASE32_SetKeys_def Let_def split: if_splits)
  with fill_index_nth [of ?ks _ junk] show ?thesis by (simp add: b32_ok_def)
qed

definition default_b32 :: base32 where
  "default_b32 = \<lparr>b32_keys = map byte_of kDefaultBase32Keys,
     b32_index = fill_index (map byte_of kDefaultBase32Keys) (\<lambda>_. 0)\<rparr>"

lemma default_b32_keys: "BASE32_SetKeys kDefaultBase32Keys (\<lambda>_. 0) = Inr (0, default_b32)"
  by (simp add: BASE32_SetKeys_def default_b32_def kDefaultBase32Keys_def byte_of_def Let_def)

interpretation b32: block_codec 5 8 "base32_encrypt (b32_keys default_b32)"
  "base32_decrypt (b32_index default_b32)" b32_tail
  by (rule base32_block_codec, rule b32_set_keys_ok [OF default_b32_keys])

text \<open>Decoding an encoded string gives the string back, except that a NUL byte is appended
  when its length is 4 modulo 5; so for any alphabet \<open>SetKeys\<close> accepts.\<close>

theorem base32_decode_encode:
  assumes "BASE32_SetKeys keys junk = Inr (0, b)"
  shows "BASE32_Decrypt b (BASE32_Encrypt b str) =
    str @ (if length str mod 5 = 4 then [CHR 0x00] else [])"
proof (cases "str = []")
  case True
  then show ?thesis by (simp add: BASE32_Encrypt_def BASE32_Decrypt_def)
next
  case False
  let ?xs = "map byte_of str"
  note codec = base32_block_codec [OF b32_set_keys_ok [OF assms]]
  note parts = block_codec.full_last [OF codec, of ?xs] block_codec.length_last_block [OF codec, of ?xs]
  have "run_blocks 8 (base32_decrypt (b32_index b)) (run_blocks 5 (base32_encrypt (b32_keys b)) ?xs) =
      ?xs @ (if length str mod 5 = 4 then [0] else [])"
    using parts by (auto simp: block_codec.decode_encode [OF codec] b32_tail_def)
  then show ?thesis
    using False by (simp add: BASE32_Encrypt_def BASE32_Decrypt_def comp_def)
qed

lemma base32_decode_encode_witness:
  "BASE32_Decrypt default_b32 (BASE32_Encrypt default_b32 ''mosq'') = ''mosq'' @ [CHR 0x00]"
  by (simp add: base32_decode_encode [OF default_b32_keys])

end
