(* ===== verification/Hexstr.thy ===== *)
theory Hexstr
  imports Prelude
begin

text \<open>
  \<open>helper/crypto/hexstr.cpp\<close>: bytes to hexadecimal digits and back.  The tables are written out as
  the functions they tabulate; a negative \<open>char\<close> in the odd first position indexes outside the table.
\<close>

section \<open>The tables\<close>

definition hextbl :: "byte \<Rightarrow> byte" where
  "hextbl c = (if 48 \<le> c \<and> c \<le> 57 then c - 48
     else if 65 \<le> c \<and> c \<le> 70 then c - 55
     else if 97 \<le> c \<and> c \<le> 102 then c - 87 else 0)"

definition hchtbl :: "nat \<Rightarrow> char" where
  "hchtbl n = ''0123456789ABCDEF'' ! n"

definition hexchartbl :: "byte \<Rightarrow> string" where
  "hexchartbl b = [hchtbl (unat b div 16), hchtbl (unat b mod 16)]"

definition Char2Byte :: "char \<Rightarrow> char \<Rightarrow> byte" where
  "Char2Byte h l = push_bit 4 (hextbl (byte_of h)) OR hextbl (byte_of l)"

section \<open>The operations\<close>

fun hex_pairs :: "string \<Rightarrow> byte list" where
  "hex_pairs (h # l # cs) = Char2Byte h l # hex_pairs cs"
| "hex_pairs cs = []"

definition HexStr2Bytes :: "string \<Rightarrow> byte list outcome" where
  "HexStr2Bytes str =
     (if length str mod 2 \<noteq> 0 then
        (if schar (hd str) < 0 then Inl Out_Of_Bounds
         else Inr (hextbl (byte_of (hd str)) # hex_pairs (tl str)))
      else Inr (hex_pairs str))"

definition Bytes2HexStr :: "byte list \<Rightarrow> string" where
  "Bytes2HexStr bytes = concat (map hexchartbl bytes)"

section \<open>Lemmas\<close>

lemma hextbl_hchtbl: "n < 16 \<Longrightarrow> hextbl (byte_of (hchtbl n)) = of_nat n"
proof -
  assume "n < 16"
  moreover have "list_all (\<lambda>n. hextbl (byte_of (hchtbl n)) = of_nat n) [0..<16]" by code_simp
  ultimately show ?thesis by (simp add: list_all_iff)
qed

lemma byte_nibbles: "push_bit 4 (of_nat (unat b div 16)) OR of_nat (unat b mod 16) = (b :: byte)"
proof -
  have "of_nat (unat b div 16) = drop_bit 4 b"
    using unat_lt2p_byte [of b]
    by (simp add: word_unat_eq_iff unat_of_nat unsigned_drop_bit_eq drop_bit_eq_div unat_div)
  moreover have "of_nat (unat b mod 16) = take_bit 4 b"
    by (simp add: word_unat_eq_iff unat_of_nat unsigned_take_bit_eq take_bit_eq_mod unat_mod)
  ultimately show ?thesis
    by (simp, intro byte_eqI) (auto simp: byte_bits)
qed

lemma Char2Byte_hexchartbl: "Char2Byte (hchtbl (unat b div 16)) (hchtbl (unat b mod 16)) = b"
proof -
  have "unat b div 16 < 16" "unat b mod 16 < 16"
    using unat_lt2p_byte [of b] by auto
  then show ?thesis by (simp add: Char2Byte_def hextbl_hchtbl byte_nibbles)
qed

lemma length_Bytes2HexStr: "length (Bytes2HexStr bs) = 2 * length bs"
  by (induction bs) (auto simp: Bytes2HexStr_def hexchartbl_def)

lemma hex_pairs_Bytes2HexStr: "hex_pairs (Bytes2HexStr bs) = bs"
  by (induction bs) (auto simp: Bytes2HexStr_def hexchartbl_def Char2Byte_hexchartbl)

lemma length_hex_pairs: "length (hex_pairs s) = length s div 2"
  by (induction s rule: hex_pairs.induct) auto

lemma HexStr2Bytes_Bytes2HexStr [simp]: "HexStr2Bytes (Bytes2HexStr bs) = Inr bs"
  by (simp add: HexStr2Bytes_def length_Bytes2HexStr hex_pairs_Bytes2HexStr)

text \<open>The length of what is decoded, rounded up.\<close>

lemma length_HexStr2Bytes: "HexStr2Bytes str = Inr bs \<Longrightarrow> length bs = (length str + 1) div 2"
  by (cases str) (auto simp: HexStr2Bytes_def length_hex_pairs split: if_splits)

end
