(* ===== verification/Block_Cipher.thy ===== *)
theory Block_Cipher
  imports Hexstr
begin

text \<open>
  \<open>helper/crypto/aes.cpp\<close> and \<open>des.cpp\<close>: the padding, block and hexadecimal layers around the block
  ciphers of OpenSSL, which are arguments: \<open>E key block\<close> and \<open>D key block\<close> are \<open>AES_encrypt\<close> and
  \<open>AES_decrypt\<close> after the key set-up (for DES, \<open>DES_ncbc_encrypt\<close> of one block under a zero
  initialisation vector).  A text whose length is a multiple of the block is not padded, and the
  decoder takes the last byte for a padding count when it is below 15.
\<close>

type_synonym cipher = "byte list \<Rightarrow> byte list \<Rightarrow> byte list"

section \<open>Padding and the block loop\<close>

text \<open>\<open>bytes.insert(total, less, less)\<close>: the copies stand right after the text.\<close>

definition pad_blocks :: "nat \<Rightarrow> byte list \<Rightarrow> byte list" where
  "pad_blocks w bytes =
     (if length bytes mod w \<noteq> 0
      then let less = w - length bytes mod w in bytes @ replicate less (of_nat less)
      else bytes)"

primrec ecb :: "nat \<Rightarrow> (byte list \<Rightarrow> byte list) \<Rightarrow> nat \<Rightarrow> byte list \<Rightarrow> byte list" where
  "ecb w f 0 bytes = []"
| "ecb w f (Suc i) bytes = f (take w bytes) @ ecb w f i (drop w bytes)"

text \<open>
  The end of both \<open>Decrypt\<close>: \<open>out[out.length() - 1]\<close> of an empty buffer is outside it, and \<open>erase\<close>
  at a position that wrapped below zero throws.
\<close>

definition unpad :: "byte list \<Rightarrow> byte list outcome" where
  "unpad out =
     (if out = [] then Inl Out_Of_Bounds
      else let pv = unat (last out)
           in if pv < 15
              then (if pv \<le> length out then Inr (take (length out - pv) out) else Inl Out_Of_Range)
              else Inr out)"

section \<open>AES\<close>

definition AES_BLOCK_SIZE :: nat where "AES_BLOCK_SIZE = 16"

text \<open>Only a key of 16 bytes is expanded; with any other the key schedule is indeterminate.\<close>

definition AES_Encrypt :: "cipher \<Rightarrow> byte list \<Rightarrow> string \<Rightarrow> string outcome" where
  "AES_Encrypt E key str =
     (let bytes = pad_blocks AES_BLOCK_SIZE (map byte_of str);
          block = length str div AES_BLOCK_SIZE + (if length str mod AES_BLOCK_SIZE \<noteq> 0 then 1 else 0)
      in if length key + 1 < AES_BLOCK_SIZE then Inl Out_Of_Bounds
         else if length key \<noteq> 16 \<and> 0 < block then Inl Uninitialised
         else Inr (Bytes2HexStr (ecb AES_BLOCK_SIZE (E key) block bytes)))"

definition AES_Decrypt :: "cipher \<Rightarrow> byte list \<Rightarrow> string \<Rightarrow> string outcome" where
  "AES_Decrypt D key str =
     obind (HexStr2Bytes str) (\<lambda>bytes.
       let block = length bytes div AES_BLOCK_SIZE
       in if length bytes mod AES_BLOCK_SIZE \<noteq> 0 then Inr []
          else if length key \<noteq> 16 \<and> 0 < block then Inl Uninitialised
          else obind (unpad (ecb AES_BLOCK_SIZE (D key) block bytes))
                 (\<lambda>out. Inr (map char_of_byte out)))"

section \<open>DES\<close>

definition DES_BLOCK_SIZE :: nat where "DES_BLOCK_SIZE = 8"

text \<open>The key is copied from the first eight bytes of the stored one, its terminator included.\<close>

definition DES_key :: "byte list \<Rightarrow> byte list" where
  "DES_key key = take DES_BLOCK_SIZE (key @ [0])"

definition DES_Encrypt :: "cipher \<Rightarrow> byte list \<Rightarrow> string \<Rightarrow> string outcome" where
  "DES_Encrypt E key str =
     (let bytes = pad_blocks DES_BLOCK_SIZE (map byte_of str);
          block = length str div DES_BLOCK_SIZE + (if length str mod DES_BLOCK_SIZE \<noteq> 0 then 1 else 0)
      in if length key + 1 < DES_BLOCK_SIZE then Inl Out_Of_Bounds
         else Inr (Bytes2HexStr (ecb DES_BLOCK_SIZE (E (DES_key key)) block bytes)))"

definition DES_Decrypt :: "cipher \<Rightarrow> byte list \<Rightarrow> string \<Rightarrow> string outcome" where
  "DES_Decrypt D key str =
     obind (HexStr2Bytes str) (\<lambda>bytes.
       let block = length bytes div DES_BLOCK_SIZE
       in if length bytes mod DES_BLOCK_SIZE \<noteq> 0 then Inr []
          else if length key + 1 < DES_BLOCK_SIZE then Inl Out_Of_Bounds
          else obind (unpad (ecb DES_BLOCK_SIZE (D (DES_key key)) block bytes))
                 (\<lambda>out. Inr (map char_of_byte out)))"

section \<open>Lemmas\<close>

text \<open>What the code needs of the cipher: \<open>D\<close> inverts \<open>E\<close> on blocks, and blocks stay blocks.\<close>

definition inverts :: "nat \<Rightarrow> (byte list \<Rightarrow> byte list) \<Rightarrow> (byte list \<Rightarrow> byte list) \<Rightarrow> bool" where
  "inverts w E D \<longleftrightarrow> (\<forall>b. length b = w \<longrightarrow> length (E b) = w \<and> D (E b) = b)"

lemma length_ecb: "inverts w E D \<Longrightarrow> length xs = k * w \<Longrightarrow> length (ecb w E k xs) = k * w"
  by (induction k arbitrary: xs) (auto simp: inverts_def)

lemma ecb_inverse: "inverts w E D \<Longrightarrow> length xs = k * w \<Longrightarrow> ecb w D k (ecb w E k xs) = xs"
  by (induction k arbitrary: xs) (auto simp: inverts_def)

lemma length_pad_blocks:
  assumes "0 < w"
  shows "length (pad_blocks w xs) = (length xs div w + (if length xs mod w \<noteq> 0 then 1 else 0)) * w"
proof (cases "length xs mod w = 0")
  case True
  then show ?thesis using div_mult_mod_eq [of "length xs" w] by (auto simp: pad_blocks_def)
next
  case False
  have "length xs mod w < w" using assms by simp
  then show ?thesis
    using False div_mult_mod_eq [of "length xs" w]
    unfolding pad_blocks_def Let_def by (simp del: div_mult_mod_eq mult_div_mod_eq, linarith)
qed

text \<open>The text that survives an encryption and a decryption with block width \<open>w\<close>.\<close>

definition kept :: "nat \<Rightarrow> byte list \<Rightarrow> byte list outcome" where
  "kept w xs = unpad (pad_blocks w xs)"

lemma unpad_replicate:
  assumes "0 < l" "l < 15"
  shows "unpad (xs @ replicate l (of_nat l)) = Inr xs"
proof -
  have "last (xs @ replicate l (of_nat l)) = (of_nat l :: byte)" "unat (of_nat l :: byte) = l"
    using assms by (simp_all add: unat_of_nat)
  then show ?thesis using assms by (simp add: unpad_def Let_def)
qed

lemma kept_padded:
  assumes "0 < w" "w \<le> 16" "length xs mod w \<noteq> 0" "w - length xs mod w < 15"
  shows "kept w xs = Inr xs"
proof -
  let ?l = "w - length xs mod w"
  have "length xs mod w < w" using assms(1) by simp
  then have "0 < ?l" by linarith
  from unpad_replicate [OF this assms(4)] show ?thesis
    using assms(3) by (simp add: kept_def pad_blocks_def Let_def del: of_nat_diff)
qed

lemma kept_full: "length xs mod w = 0 \<Longrightarrow> kept w xs = unpad xs"
  by (simp add: kept_def pad_blocks_def)

lemma AES_Decrypt_Encrypt:
  assumes "length key = 16" and "inverts 16 (E key) (D key)"
  shows "obind (AES_Encrypt E key str) (AES_Decrypt D key) =
    obind (kept 16 (map byte_of str)) (\<lambda>out. Inr (map char_of_byte out))"
  using assms length_pad_blocks [of 16 "map byte_of str"]
  by (simp add: AES_Encrypt_def AES_Decrypt_def AES_BLOCK_SIZE_def Let_def length_ecb [OF assms(2)]
    ecb_inverse kept_def del: mult_Suc)

lemma DES_Decrypt_Encrypt:
  assumes "7 \<le> length key" and "inverts 8 (E (DES_key key)) (D (DES_key key))"
  shows "obind (DES_Encrypt E key str) (DES_Decrypt D key) =
    obind (kept 8 (map byte_of str)) (\<lambda>out. Inr (map char_of_byte out))"
  using assms length_pad_blocks [of 8 "map byte_of str"]
  by (simp add: DES_Encrypt_def DES_Decrypt_def DES_BLOCK_SIZE_def Let_def length_ecb [OF assms(2)]
    ecb_inverse kept_def del: mult_Suc)

lemma char_of_byte_15: "char_of_byte 15 = CHR 0x0F"
  by (simp add: char_of_byte_def char_of_def bit_0)

lemma unpad_full:
  "str \<noteq> [] \<Longrightarrow> obind (unpad (map byte_of str)) (\<lambda>out. Inr (map char_of_byte out)) =
    (let pv = unat (byte_of (last str))
     in if pv < 15
        then (if pv \<le> length str then Inr (take (length str - pv) str) else Inl Out_Of_Range)
        else Inr str)"
  by (simp add: unpad_def last_map Let_def take_map [symmetric] comp_def)

section \<open>Round trips\<close>

text \<open>With a key of 16 bytes and a cipher whose decryption inverts its encryption, decrypting what
  was encrypted gives back every text whose length is not 0 or 1 modulo 16.  At length 1 modulo 16 the
  15 padding bytes stay; a text of full blocks loses as many bytes as its last byte says when that is
  below 15.\<close>

theorem aes_decrypt_encrypt:
  assumes "length key = 16" and "inverts 16 (E key) (D key)" and "str \<noteq> []"
  shows "obind (AES_Encrypt E key str) (AES_Decrypt D key) =
    Inr (if length str mod 16 = 0
         then let pv = unat (byte_of (last str)) in if pv < 15 then take (length str - pv) str else str
         else if length str mod 16 = 1 then str @ replicate 15 CHR 0x0F
         else str)"
proof -
  consider "length str mod 16 = 0" | "length str mod 16 = 1" | "2 \<le> length str mod 16"
    by fastforce
  then show ?thesis
  proof cases
    case 1
    moreover from 1 assms(3) have "16 \<le> length str" by (auto simp: dvd_imp_le mod_eq_0_iff_dvd)
    ultimately show ?thesis
      using assms unpad_full [OF assms(3)] by (simp add: AES_Decrypt_Encrypt kept_full Let_def)
  next
    case 2
    then show ?thesis
      using assms by (simp add: AES_Decrypt_Encrypt kept_def pad_blocks_def unpad_def comp_def
        char_of_byte_15)
  next
    case 3
    then have "kept 16 (map byte_of str) = Inr (map byte_of str)"
      by (intro kept_padded) simp_all
    with 3 assms show ?thesis by (simp add: AES_Decrypt_Encrypt comp_def)
  qed
qed

lemma aes_decrypt_encrypt_witness:
  "obind (AES_Encrypt (\<lambda>_. rev) (replicate 16 0) ''hi'') (AES_Decrypt (\<lambda>_. rev) (replicate 16 0)) =
    Inr ''hi''"
  by (subst aes_decrypt_encrypt) (simp_all add: inverts_def)

text \<open>The same for DES with a key of at least seven bytes: a padded text comes back, a text of
  full blocks loses the bytes its last byte counts, and when that count is above the whole length the
  decryption throws.\<close>

theorem des_decrypt_encrypt:
  assumes "7 \<le> length key" and "inverts 8 (E (DES_key key)) (D (DES_key key))" and "str \<noteq> []"
  shows "obind (DES_Encrypt E key str) (DES_Decrypt D key) =
    (if length str mod 8 = 0
     then let pv = unat (byte_of (last str))
          in if pv < 15
             then (if pv \<le> length str then Inr (take (length str - pv) str) else Inl Out_Of_Range)
             else Inr str
     else Inr str)"
proof (cases "length str mod 8 = 0")
  case True
  then show ?thesis
    using assms unpad_full [OF assms(3)] by (simp add: DES_Decrypt_Encrypt kept_full)
next
  case False
  then have "kept 8 (map byte_of str) = Inr (map byte_of str)"
    by (intro kept_padded) simp_all
  with False assms show ?thesis by (simp add: DES_Decrypt_Encrypt comp_def)
qed

lemma des_decrypt_encrypt_witness:
  "obind (DES_Encrypt (\<lambda>_. rev) (replicate 8 0) (''1234567'' @ [CHR 0x0A]))
     (DES_Decrypt (\<lambda>_. rev) (replicate 8 0)) = Inl Out_Of_Range"
  by (subst des_decrypt_encrypt) (simp_all add: inverts_def byte_of_def)

end
