(* ===== verification/XString.thy ===== *)
theory XString
  imports Prelude
begin

text \<open>
  \<open>helper/xstring.h\<close>: the byte buffer \<open>hlp::xstring\<close> (\<open>mstr\<close> in the servers and plugins).  The first
  part is the class as it is written, over an allocated block whose bytes may be indeterminate; the
  second is the abstract string it stands for, with the order its \<open>operator<\<close> gives, and the
  refinement between the two.  The other theories use the abstract type.
\<close>

section \<open>The class\<close>

text \<open>\<open>None\<close> in the block is a byte \<open>malloc\<close> or \<open>realloc\<close> left indeterminate; no block is \<open>NULL\<close>.\<close>

record xstring =
  xs_buffer :: "char option list option"
  xs_size :: int
  xs_buffer_size :: int

definition xs_new :: xstring where
  "xs_new = \<lparr>xs_buffer = None, xs_size = 0, xs_buffer_size = 0\<rparr>"

definition xs_resize_buffer :: "int \<Rightarrow> xstring \<Rightarrow> xstring" where
  "xs_resize_buffer n x =
     (if n \<le> 0 then x
      else case xs_buffer x of
        None \<Rightarrow> x\<lparr>xs_buffer := Some (replicate (nat n) None), xs_buffer_size := n\<rparr>
      | Some b \<Rightarrow>
          if xs_buffer_size x < n
          then x\<lparr>xs_buffer := Some (b @ replicate (nat n - length b) None), xs_buffer_size := n\<rparr>
          else x)"

text \<open>\<open>memcpy\<close> and \<open>memset\<close> to \<open>buffer_ + off\<close>, then the terminator behind.\<close>

definition put_bytes :: "nat \<Rightarrow> string \<Rightarrow> char option list \<Rightarrow> char option list" where
  "put_bytes off s b = take off b @ map Some s @ drop (off + length s) b"

definition xs_write :: "nat \<Rightarrow> string \<Rightarrow> xstring \<Rightarrow> xstring" where
  "xs_write off s x =
     x\<lparr>xs_buffer := map_option (put_bytes off (s @ [CHR 0x00])) (xs_buffer x),
       xs_size := int (off + length s)\<rparr>"

text \<open>The argument is the region of \<open>size\<close> bytes at \<open>str\<close>; \<open>None\<close> is a null \<open>str\<close>.\<close>

definition xs_assign :: "string option \<Rightarrow> xstring \<Rightarrow> xstring" where
  "xs_assign str x =
     (case str of
        None \<Rightarrow> x\<lparr>xs_size := 0\<rparr>
      | Some s \<Rightarrow>
          if s = [] then x\<lparr>xs_size := 0\<rparr>
          else xs_write 0 s (xs_resize_buffer (int (length s) + 1) x))"

definition xs_append :: "string option \<Rightarrow> xstring \<Rightarrow> xstring" where
  "xs_append str x =
     (case str of
        None \<Rightarrow> x
      | Some s \<Rightarrow>
          if s = [] then x
          else xs_write (nat (xs_size x)) s (xs_resize_buffer (xs_size x + int (length s) + 1) x))"

definition xs_append_ch :: "nat \<Rightarrow> char \<Rightarrow> xstring \<Rightarrow> xstring" where
  "xs_append_ch n ch x =
     (if n = 0 then x
      else xs_write (nat (xs_size x)) (replicate n ch) (xs_resize_buffer (xs_size x + int n + 1) x))"

text \<open>The first \<open>size_\<close> bytes of the block, which the readers below see.\<close>

definition xs_str :: "xstring \<Rightarrow> string" where
  "xs_str x =
     (if xs_size x \<le> 0 then []
      else case xs_buffer x of None \<Rightarrow> [] | Some b \<Rightarrow> map the (take (nat (xs_size x)) b))"

definition xs_substr :: "int \<Rightarrow> int \<Rightarrow> xstring \<Rightarrow> xstring" where
  "xs_substr offset count x =
     (if xs_size x \<le> offset \<or> offset < 0 then xs_new
      else if count < 0 \<or> xs_size x - offset < count
      then xs_assign (Some (drop (nat offset) (xs_str x))) xs_new
      else xs_assign (Some (take (nat count) (drop (nat offset) (xs_str x)))) xs_new)"

definition xs_index :: "xstring \<Rightarrow> int \<Rightarrow> char" where
  "xs_index x i = (if i < 0 \<or> xs_size x \<le> i then CHR 0x00 else xs_str x ! nat i)"

definition xs_empty :: "xstring \<Rightarrow> bool" where
  "xs_empty x \<longleftrightarrow> xs_size x \<le> 0"

definition xs_c_str :: "xstring \<Rightarrow> string" where
  "xs_c_str x = (if xs_buffer x = None \<or> xs_size x \<le> 0 then [] else c_str (xs_str x))"

text \<open>\<open>operator<\<close> and \<open>operator==\<close>: the loops from index \<open>i\<close> on.\<close>

function xs_less_from :: "nat \<Rightarrow> xstring \<Rightarrow> xstring \<Rightarrow> bool" where
  "xs_less_from i x y =
     (if int i < xs_size x \<and> int i < xs_size y
      then (if xs_index x (int i) = xs_index y (int i) then xs_less_from (Suc i) x y
            else schar (xs_index x (int i)) < schar (xs_index y (int i)))
      else xs_size x < xs_size y)"
  by pat_completeness auto
termination by (relation "measure (\<lambda>(i, x, y). nat (xs_size x) - i)") auto

declare xs_less_from.simps [simp del]

definition xs_less :: "xstring \<Rightarrow> xstring \<Rightarrow> bool" where
  "xs_less x y = xs_less_from 0 x y"

function xs_eq_from :: "nat \<Rightarrow> xstring \<Rightarrow> xstring \<Rightarrow> bool" where
  "xs_eq_from i x y =
     (if int i < xs_size x
      then (if xs_index x (int i) \<noteq> xs_index y (int i) then False else xs_eq_from (Suc i) x y)
      else True)"
  by pat_completeness auto
termination by (relation "measure (\<lambda>(i, x, y). nat (xs_size x) - i)") auto

declare xs_eq_from.simps [simp del]

definition xs_equal :: "xstring \<Rightarrow> xstring \<Rightarrow> bool" where
  "xs_equal x y = (if xs_size x \<noteq> xs_size y then False else xs_eq_from 0 x y)"

section \<open>The abstract string\<close>

text \<open>
  \<open>mstr\<close> is its contents; the order compares characters as signed, as the C++ one does, so it is
  not the order of \<open>std::string\<close> on bytes above 127.
\<close>

datatype mstr = Mstr (mstr_str: string)

definition signed_chars :: "mstr \<Rightarrow> int list" where
  "signed_chars m = map schar (mstr_str m)"

lemma signed_chars_inj: "signed_chars a = signed_chars b \<longleftrightarrow> a = b"
  by (cases a; cases b) (auto simp: signed_chars_def schar_inj inj_on_def dest!: map_injective [rotated])

instantiation mstr :: linorder
begin

definition less_eq_mstr :: "mstr \<Rightarrow> mstr \<Rightarrow> bool" where
  "a \<le> b \<longleftrightarrow> signed_chars a \<le> signed_chars b"

definition less_mstr :: "mstr \<Rightarrow> mstr \<Rightarrow> bool" where
  "a < b \<longleftrightarrow> signed_chars a < signed_chars b"

instance
  by standard (auto simp: less_eq_mstr_def less_mstr_def less_le_not_le signed_chars_inj)

end

definition mlen :: "mstr \<Rightarrow> nat" where
  "mlen m = length (mstr_str m)"

section \<open>Refinement\<close>

text \<open>
  The invariant of the class: a non-empty string lies in an allocated block of the recorded size,
  all its bytes are written, and the terminator follows.
\<close>

definition xs_ok :: "xstring \<Rightarrow> bool" where
  "xs_ok x \<longleftrightarrow> 0 \<le> xs_size x \<and>
     (case xs_buffer x of
        None \<Rightarrow> xs_size x = 0 \<and> xs_buffer_size x = 0
      | Some b \<Rightarrow> int (length b) = xs_buffer_size x \<and> 0 < length b \<and>
          (xs_size x = 0 \<or>
           (xs_size x < int (length b) \<and> (\<forall>i < nat (xs_size x). b ! i \<noteq> None) \<and>
            b ! nat (xs_size x) = Some CHR 0x00)))"

lemma xs_new_ok [simp]: "xs_ok xs_new" "xs_str xs_new = []"
  by (simp_all add: xs_ok_def xs_new_def xs_str_def)

lemma length_xs_str: "xs_ok x \<Longrightarrow> length (xs_str x) = nat (xs_size x)"
  by (auto simp: xs_ok_def xs_str_def split: option.splits)

lemma xs_size_int: "xs_ok x \<Longrightarrow> xs_size x = int (length (xs_str x))"
  by (simp add: length_xs_str xs_ok_def)

text \<open>Writing \<open>s\<close> behind the first \<open>off\<close> characters of a large enough block.\<close>

lemma xs_write_spec:
  assumes "xs_buffer x = Some b" "int (length b) = xs_buffer_size x" "off + length s < length b"
    "\<forall>i < off. b ! i \<noteq> None" "s \<noteq> []"
  shows "xs_ok (xs_write off s x) \<and> xs_str (xs_write off s x) = map the (take off b) @ s"
proof -
  let ?b = "put_bytes off (s @ [CHR 0x00]) b"
  have len: "length ?b = length b" using assms by (simp add: put_bytes_def)
  have nth: "?b ! i \<noteq> None" if "i < off + length s" for i
    using assms that by (auto simp: put_bytes_def nth_append)
  have last: "?b ! (off + length s) = Some CHR 0x00"
    using assms by (auto simp: put_bytes_def nth_append)
  have take: "take (off + length s) ?b = take off b @ map Some s"
    using assms by (simp add: put_bytes_def)
  have ok: "xs_ok (xs_write off s x)"
    using assms len nth last by (auto simp: xs_ok_def xs_write_def nat_add_distrib simp flip: of_nat_add)
  moreover have "xs_str (xs_write off s x) = map the (take off b) @ s"
    using assms take
    by (cases "length s") (simp_all add: xs_str_def xs_write_def comp_def nat_add_distrib del: of_nat_Suc)
  ultimately show ?thesis ..
qed

lemma xs_resize_block:
  assumes "xs_ok x" "xs_size x < n"
  obtains b where "xs_buffer (xs_resize_buffer n x) = Some b"
    "int (length b) = xs_buffer_size (xs_resize_buffer n x)" "n \<le> int (length b)"
    "\<forall>i < nat (xs_size x). b ! i \<noteq> None" "map the (take (nat (xs_size x)) b) = xs_str x"
proof (cases "xs_buffer x")
  case None
  with assms show ?thesis
    by (intro that [of "replicate (nat n) None"])
      (auto simp: xs_ok_def xs_resize_buffer_def xs_str_def)
next
  case (Some b)
  show ?thesis
  proof (cases "xs_buffer_size x < n")
    case True
    with Some assms show ?thesis
      by (intro that [of "b @ replicate (nat n - length b) None"])
        (auto simp: xs_ok_def xs_resize_buffer_def xs_str_def nth_append)
  next
    case False
    with Some assms show ?thesis
      by (intro that [of b]) (auto simp: xs_ok_def xs_resize_buffer_def xs_str_def)
  qed
qed

lemma xs_assign_spec:
  assumes "xs_ok x"
  shows "xs_ok (xs_assign str x) \<and> xs_str (xs_assign str x) = (case str of None \<Rightarrow> [] | Some s \<Rightarrow> s)"
proof -
  have zero: "xs_ok (x\<lparr>xs_size := 0\<rparr>) \<and> xs_str (x\<lparr>xs_size := 0\<rparr>) = []"
    using assms by (auto simp: xs_ok_def xs_str_def split: option.splits)
  show ?thesis
  proof (cases str)
    case None
    then show ?thesis using zero by (simp add: xs_assign_def)
  next
    case (Some s)
    show ?thesis
    proof (cases "s = []")
      case True
      then show ?thesis using Some zero by (simp add: xs_assign_def)
    next
      case False
      let ?y = "x\<lparr>xs_size := 0\<rparr>" and ?n = "int (length s) + 1"
      have "xs_size ?y < ?n" by simp
      from xs_resize_block [OF conjunct1 [OF zero] this] obtain b where
        b: "xs_buffer (xs_resize_buffer ?n ?y) = Some b"
          "int (length b) = xs_buffer_size (xs_resize_buffer ?n ?y)" "?n \<le> int (length b)" .
      have same: "xs_buffer (xs_resize_buffer ?n ?y) = xs_buffer (xs_resize_buffer ?n x)"
          "xs_buffer_size (xs_resize_buffer ?n ?y) = xs_buffer_size (xs_resize_buffer ?n x)"
        by (simp_all add: xs_resize_buffer_def split: option.splits)
      show ?thesis
        using Some False b xs_write_spec [of "xs_resize_buffer ?n x" b 0 s]
        by (simp add: xs_assign_def same)
    qed
  qed
qed

lemma xs_append_spec:
  assumes "xs_ok x"
  shows "xs_ok (xs_append str x) \<and>
    xs_str (xs_append str x) = xs_str x @ (case str of None \<Rightarrow> [] | Some s \<Rightarrow> s)"
proof (cases "str = None \<or> str = Some []")
  case True
  then show ?thesis using assms by (auto simp: xs_append_def)
next
  case False
  then obtain s where s: "str = Some s" "s \<noteq> []" by auto
  let ?n = "xs_size x + int (length s) + 1"
  have "xs_size x < ?n" using s by simp
  from xs_resize_block [OF assms this] obtain b where
    b: "xs_buffer (xs_resize_buffer ?n x) = Some b"
      "int (length b) = xs_buffer_size (xs_resize_buffer ?n x)" "?n \<le> int (length b)"
      "\<forall>i < nat (xs_size x). b ! i \<noteq> None" "map the (take (nat (xs_size x)) b) = xs_str x" .
  have "0 \<le> xs_size x" using assms by (simp add: xs_ok_def)
  with b have "nat (xs_size x) + length s < length b" by linarith
  with b s xs_write_spec [of "xs_resize_buffer ?n x" b "nat (xs_size x)" s]
  show ?thesis by (simp add: xs_append_def)
qed

lemma xs_append_ch_append: "xs_append_ch n ch x = xs_append (Some (replicate n ch)) x"
  by (simp add: xs_append_ch_def xs_append_def)

lemma xs_substr_spec:
  assumes "xs_ok x"
  shows "xs_ok (xs_substr off cnt x) \<and>
    xs_str (xs_substr off cnt x) =
      (if off < 0 then []
       else if cnt < 0 then drop (nat off) (xs_str x)
       else take (nat cnt) (drop (nat off) (xs_str x)))"
  using assms xs_size_int [OF assms] xs_assign_spec [OF xs_new_ok(1)]
  by (auto simp: xs_substr_def)

lemma xs_index_nth: "xs_ok x \<Longrightarrow> i < length (xs_str x) \<Longrightarrow> xs_index x (int i) = xs_str x ! i"
  by (simp add: xs_index_def xs_size_int)

lemma xs_less_from_spec:
  assumes "xs_ok x" "xs_ok y"
  shows "i \<le> length (xs_str x) \<Longrightarrow> i \<le> length (xs_str y) \<Longrightarrow>
    xs_less_from i x y \<longleftrightarrow> map schar (drop i (xs_str x)) < map schar (drop i (xs_str y))"
proof (induction "length (xs_str x) - i" arbitrary: i)
  case 0
  then have "i = length (xs_str x)" by simp
  then show ?case
    using assms 0 by (subst xs_less_from.simps) (auto simp: xs_size_int less_le)
next
  case (Suc n)
  then have i: "i < length (xs_str x)" by simp
  show ?case
  proof (cases "i < length (xs_str y)")
    case True
    let ?a = "xs_str x ! i" and ?b = "xs_str y ! i"
    have "xs_less_from i x y \<longleftrightarrow> (if ?a = ?b then xs_less_from (Suc i) x y else schar ?a < schar ?b)"
      using assms i True by (subst xs_less_from.simps) (simp add: xs_size_int xs_index_nth)
    moreover have "xs_less_from (Suc i) x y \<longleftrightarrow>
        map schar (drop (Suc i) (xs_str x)) < map schar (drop (Suc i) (xs_str y))"
      using Suc i True by simp
    moreover have "drop i (xs_str x) = ?a # drop (Suc i) (xs_str x)"
      "drop i (xs_str y) = ?b # drop (Suc i) (xs_str y)"
      using i True by (simp_all add: Cons_nth_drop_Suc)
    ultimately show ?thesis by (auto simp: schar_inj)
  next
    case False
    then show ?thesis
      using assms i by (subst xs_less_from.simps) (simp add: xs_size_int)
  qed
qed

lemma xs_eq_from_spec:
  assumes "xs_ok x" "xs_ok y" "length (xs_str x) = length (xs_str y)"
  shows "i \<le> length (xs_str x) \<Longrightarrow> xs_eq_from i x y \<longleftrightarrow> drop i (xs_str x) = drop i (xs_str y)"
proof (induction "length (xs_str x) - i" arbitrary: i)
  case 0
  then show ?case
    using assms by (subst xs_eq_from.simps) (auto simp: xs_size_int)
next
  case (Suc n)
  then have i: "i < length (xs_str x)" by simp
  have "xs_eq_from i x y \<longleftrightarrow> xs_str x ! i = xs_str y ! i \<and> xs_eq_from (Suc i) x y"
    using assms i by (subst xs_eq_from.simps) (simp add: xs_size_int xs_index_nth)
  moreover have "xs_eq_from (Suc i) x y \<longleftrightarrow> drop (Suc i) (xs_str x) = drop (Suc i) (xs_str y)"
    using Suc i by simp
  ultimately show ?case
    using i assms(3) by (metis Cons_nth_drop_Suc list.inject)
qed

lemma xs_less_spec:
  "xs_ok x \<Longrightarrow> xs_ok y \<Longrightarrow> xs_less x y \<longleftrightarrow> Mstr (xs_str x) < Mstr (xs_str y)"
  by (simp add: xs_less_def xs_less_from_spec less_mstr_def signed_chars_def)

lemma xs_equal_spec:
  "xs_ok x \<Longrightarrow> xs_ok y \<Longrightarrow> xs_equal x y \<longleftrightarrow> Mstr (xs_str x) = Mstr (xs_str y)"
  using xs_eq_from_spec [of x y 0] by (auto simp: xs_equal_def xs_size_int)

section \<open>Whole histories\<close>

datatype xs_op = Assign "string option" | Append "string option" | Append_Ch nat char

fun xs_run :: "xs_op \<Rightarrow> xstring \<Rightarrow> xstring" where
  "xs_run (Assign s) x = xs_assign s x"
| "xs_run (Append s) x = xs_append s x"
| "xs_run (Append_Ch n ch) x = xs_append_ch n ch x"

fun str_run :: "xs_op \<Rightarrow> string \<Rightarrow> string" where
  "str_run (Assign s) x = (case s of None \<Rightarrow> [] | Some s \<Rightarrow> s)"
| "str_run (Append s) x = x @ (case s of None \<Rightarrow> [] | Some s \<Rightarrow> s)"
| "str_run (Append_Ch n ch) x = x @ replicate n ch"

lemma xs_run_step: "xs_ok x \<Longrightarrow> xs_ok (xs_run op x) \<and> xs_str (xs_run op x) = str_run op (xs_str x)"
  by (cases op) (simp_all add: xs_assign_spec xs_append_spec xs_append_ch_append)

lemma xs_run_all:
  "xs_ok x \<Longrightarrow> xs_ok (fold xs_run ops x) \<and> xs_str (fold xs_run ops x) = fold str_run ops (xs_str x)"
  using xs_run_step by (induction ops arbitrary: x) auto


end
