(* ===== verification/Decimal.thy ===== *)
theory Decimal
  imports Prelude
begin

text \<open>
  Decimal conversions of the C library the program uses: \<open>ostringstream << int\<close> and
  \<open>atoll\<close>/\<open>atoi\<close> (leading white space, a sign, digits up to the first other character).  The
  conversion to 64 bits saturates, as \<open>strtoll\<close> does; \<open>atoi\<close> keeps the low 32 bits.
\<close>

section \<open>Printing\<close>

definition digit_char :: "nat \<Rightarrow> char" where
  "digit_char d = char_of (48 + d)"

fun dec_nat :: "nat \<Rightarrow> string" where
  "dec_nat n = (if n < 10 then [digit_char n] else dec_nat (n div 10) @ [digit_char (n mod 10)])"

declare dec_nat.simps [simp del]

definition dec_int :: "int \<Rightarrow> string" where
  "dec_int i = (if i < 0 then CHR ''-'' # dec_nat (nat (- i)) else dec_nat (nat i))"

section \<open>Parsing\<close>

definition is_space :: "char \<Rightarrow> bool" where
  "is_space c \<longleftrightarrow> c = CHR '' '' \<or> (9 \<le> (of_char c :: nat) \<and> (of_char c :: nat) \<le> 13)"

definition is_digit :: "char \<Rightarrow> bool" where
  "is_digit c \<longleftrightarrow> 48 \<le> (of_char c :: nat) \<and> (of_char c :: nat) \<le> 57"

definition digits_nat :: "string \<Rightarrow> nat" where
  "digits_nat s = foldl (\<lambda>n c. 10 * n + (of_char c - 48)) 0 (takeWhile is_digit s)"

definition strtol_int :: "string \<Rightarrow> int" where
  "strtol_int s =
     (let t = dropWhile is_space s in
      case t of
        [] \<Rightarrow> 0
      | c # r \<Rightarrow>
          if c = CHR ''-'' then - int (digits_nat r)
          else if c = CHR ''+'' then int (digits_nat r)
          else int (digits_nat t))"

definition clamp64 :: "int \<Rightarrow> int" where
  "clamp64 i = max (- (2 ^ 63)) (min (2 ^ 63 - 1) i)"

definition atoll :: "string \<Rightarrow> int" where
  "atoll s = clamp64 (strtol_int (c_str s))"

text \<open>An integer stored into an \<open>int\<close>.\<close>

definition int32 :: "int \<Rightarrow> int" where
  "int32 i = sint (word_of_int i :: 32 word)"

definition atoi :: "string \<Rightarrow> int" where
  "atoi s = sint (word_of_int (atoll s) :: 32 word)"

section \<open>Lemmas\<close>

lemma of_char_digit [simp]: "d < 10 \<Longrightarrow> (of_char (digit_char d) :: nat) = 48 + d"
  by (simp add: digit_char_def)

lemma is_digit_digit [simp]: "d < 10 \<Longrightarrow> is_digit (digit_char d)"
  by (simp add: is_digit_def)

lemma digit_char_cases: "d < 10 \<Longrightarrow> digit_char d \<in> set ''0123456789''"
proof -
  assume "d < 10"
  moreover have "list_all (\<lambda>d. digit_char d \<in> set ''0123456789'') [0..<10]" by code_simp
  ultimately show ?thesis by (simp add: list_all_iff)
qed

lemma set_dec_nat: "set (dec_nat n) \<subseteq> set ''0123456789''"
proof (induction n rule: dec_nat.induct)
  case (1 n)
  show ?case
  proof (cases "n < 10")
    case True
    then show ?thesis using digit_char_cases [of n] by (simp add: dec_nat.simps [of n])
  next
    case False
    moreover have "n mod 10 < 10" by simp
    ultimately show ?thesis
      using 1 digit_char_cases [of "n mod 10"] by (subst dec_nat.simps) simp
  qed
qed

lemma dec_nat_digits: "list_all is_digit (dec_nat n)"
proof (induction n rule: dec_nat.induct)
  case (1 n)
  then show ?case by (subst dec_nat.simps) simp
qed

lemma dec_nat_not_Nil [simp]: "dec_nat n \<noteq> []"
  by (subst dec_nat.simps) simp

lemma digits_nat_dec_nat [simp]: "digits_nat (dec_nat n) = n"
proof -
  have *: "takeWhile is_digit (dec_nat n) = dec_nat n" for n
    using dec_nat_digits [of n] by (simp add: takeWhile_eq_all_conv list_all_iff)
  have "foldl (\<lambda>n c. 10 * n + (of_char c - 48)) 0 (dec_nat n) = n"
  proof (induction n rule: dec_nat.induct)
    case (1 n)
    then show ?case by (subst dec_nat.simps) simp
  qed
  then show ?thesis by (simp only: digits_nat_def *)
qed

lemma strtol_dec_nat [simp]: "strtol_int (dec_nat n) = int n"
proof -
  obtain c r where cr: "dec_nat n = c # r" by (cases "dec_nat n") auto
  then have "is_digit c" using dec_nat_digits [of n] by simp
  then have "\<not> is_space c" "c \<noteq> CHR ''-''" "c \<noteq> CHR ''+''"
    by (auto simp: is_digit_def is_space_def)
  then show ?thesis
    using cr digits_nat_dec_nat [of n] by (simp add: strtol_int_def)
qed

lemma strtol_dec_int [simp]: "strtol_int (dec_int i) = i"
proof (cases "i < 0")
  case True
  have "\<not> is_space CHR ''-''" by (simp add: is_space_def)
  with True show ?thesis by (simp add: strtol_int_def dec_int_def)
next
  case False
  then show ?thesis by (simp add: dec_int_def)
qed

lemma dec_nat_no_nul [simp]: "CHR 0x00 \<notin> set (dec_nat n)"
  using dec_nat_digits [of n] by (auto simp: list_all_iff is_digit_def)

lemma dec_int_no_nul [simp]: "CHR 0x00 \<notin> set (dec_int i)"
  by (simp add: dec_int_def)

lemma dec_int_not_Nil [simp]: "dec_int i \<noteq> []"
  by (simp add: dec_int_def)

lemma atoll_dec_int: "- (2 ^ 63) \<le> i \<Longrightarrow> i < 2 ^ 63 \<Longrightarrow> atoll (dec_int i) = i"
  by (simp add: atoll_def clamp64_def)

lemma atoi_dec_int: "- (2 ^ 31) \<le> i \<Longrightarrow> i < 2 ^ 31 \<Longrightarrow> atoi (dec_int i) = i"
  by (simp add: atoi_def atoll_dec_int signed_of_int signed_take_bit_int_eq_self)

end
