(* ===== verification/Http_Message.thy ===== *)
theory Http_Message
  imports XString Decimal Url_Encode
begin

text \<open>
  \<open>server/http_request.cpp\<close>: the request the parser callbacks fill, and the response the route
  procedures build and the server prints.  The HTTP parser is a library: it is an argument that turns
  a chunk of input into the callbacks it makes, and the request is what the callbacks leave.
\<close>

section \<open>Requests\<close>

record http_request =
  rq_socket :: int
  rq_timestamp :: int
  rq_finished :: bool
  rq_tempkey :: mstr
  rq_tempval :: mstr
  rq_url :: mstr
  rq_method :: "int option"
  rq_body :: mstr
  rq_fragment :: mstr
  rq_headers :: "(mstr, mstr) amap"
  rq_queries :: "(mstr, mstr) amap"
  rq_data :: mstr

text \<open>The constructor does not initialise \<open>method_\<close>.\<close>

definition HttpRequest_new :: "int \<Rightarrow> int \<Rightarrow> http_request" where
  "HttpRequest_new sock now =
     \<lparr>rq_socket = sock, rq_timestamp = now, rq_finished = False, rq_tempkey = Mstr [], rq_tempval = Mstr [],
      rq_url = Mstr [], rq_method = None, rq_body = Mstr [], rq_fragment = Mstr [], rq_headers = [],
      rq_queries = [], rq_data = Mstr []\<rparr>"

text \<open>The callbacks \<open>Init\<close> registers, with the bytes or the parser field they read.\<close>

datatype http_event = On_Url string | On_Headers_Complete int | On_Body string
  | On_Header_Field string | On_Header_Value string | On_Message_Begin | On_Message_Complete
  | On_Query_Field string | On_Query_Value string | On_Fragment string

definition OnUrl :: "string \<Rightarrow> http_request \<Rightarrow> http_request" where
  "OnUrl s r = r\<lparr>rq_url := Mstr s\<rparr>"

definition OnHeadersComplete :: "int \<Rightarrow> http_request \<Rightarrow> http_request" where
  "OnHeadersComplete m r = r\<lparr>rq_method := Some m\<rparr>"

definition OnBody :: "string \<Rightarrow> http_request \<Rightarrow> http_request" where
  "OnBody s r = r\<lparr>rq_body := Mstr s\<rparr>"

definition OnHeaderField :: "string \<Rightarrow> http_request \<Rightarrow> http_request" where
  "OnHeaderField s r = r\<lparr>rq_tempkey := Mstr s\<rparr>"

definition OnHeaderValue :: "string \<Rightarrow> http_request \<Rightarrow> http_request" where
  "OnHeaderValue s r =
     r\<lparr>rq_tempval := Mstr s, rq_headers := amap_set (rq_tempkey r) (Mstr s) (rq_headers r)\<rparr>"

definition OnMessageComplete :: "http_request \<Rightarrow> http_request" where
  "OnMessageComplete r = r\<lparr>rq_finished := True\<rparr>"

definition OnQueryField :: "string \<Rightarrow> http_request \<Rightarrow> http_request" where
  "OnQueryField s r = r\<lparr>rq_tempkey := Mstr s\<rparr>"

definition OnQueryValue :: "string \<Rightarrow> http_request \<Rightarrow> http_request" where
  "OnQueryValue s r =
     r\<lparr>rq_tempval := Mstr s, rq_queries := amap_set (rq_tempkey r) (Mstr s) (rq_queries r)\<rparr>"

definition OnFragment :: "string \<Rightarrow> http_request \<Rightarrow> http_request" where
  "OnFragment s r = r\<lparr>rq_fragment := Mstr s\<rparr>"

fun on_event :: "http_event \<Rightarrow> http_request \<Rightarrow> http_request" where
  "on_event (On_Url s) = OnUrl s"
| "on_event (On_Headers_Complete m) = OnHeadersComplete m"
| "on_event (On_Body s) = OnBody s"
| "on_event (On_Header_Field s) = OnHeaderField s"
| "on_event (On_Header_Value s) = OnHeaderValue s"
| "on_event On_Message_Begin = (\<lambda>r. r)"
| "on_event On_Message_Complete = OnMessageComplete"
| "on_event (On_Query_Field s) = OnQueryField s"
| "on_event (On_Query_Value s) = OnQueryValue s"
| "on_event (On_Fragment s) = OnFragment s"

text \<open>\<open>http_parser_execute\<close>: from the parser's state and a chunk, the callbacks and the new state.\<close>

type_synonym 'p parse_function = "'p \<Rightarrow> string \<Rightarrow> http_event list \<times> 'p"

definition HttpRequest_Append ::
    "'p parse_function \<Rightarrow> string \<Rightarrow> 'p \<times> http_request \<Rightarrow> 'p \<times> http_request" where
  "HttpRequest_Append parse buffer pr =
     (let (evs, p') = parse (fst pr) buffer in (p', fold on_event evs (snd pr)))"

definition HttpRequest_IsTimeOut :: "http_request \<Rightarrow> int \<Rightarrow> int \<Rightarrow> bool" where
  "HttpRequest_IsTimeOut r now timeout \<longleftrightarrow> now - rq_timestamp r > timeout"

definition HttpRequest_method :: "http_request \<Rightarrow> int outcome" where
  "HttpRequest_method r = (case rq_method r of None \<Rightarrow> Inl Uninitialised | Some m \<Rightarrow> Inr m)"

definition HttpRequest_header :: "http_request \<Rightarrow> mstr \<Rightarrow> mstr" where
  "HttpRequest_header r name = (case map_of (rq_headers r) name of Some v \<Rightarrow> v | None \<Rightarrow> Mstr [])"

definition HttpRequest_HasHeader :: "http_request \<Rightarrow> mstr \<Rightarrow> bool" where
  "HttpRequest_HasHeader r name \<longleftrightarrow> map_of (rq_headers r) name \<noteq> None"

text \<open>
  \<open>query\<close> and \<open>HasQuery\<close> compare the iterator with the end of the other map, which it never equals:
  a missing key is read past the end.
\<close>

definition HttpRequest_query :: "http_request \<Rightarrow> mstr \<Rightarrow> mstr outcome" where
  "HttpRequest_query r key =
     (case map_of (rq_queries r) key of
        Some v \<Rightarrow> Inr (Mstr (UrlDecode (c_str (mstr_str v))))
      | None \<Rightarrow> Inl Out_Of_Bounds)"

definition HttpRequest_HasQuery :: "http_request \<Rightarrow> mstr \<Rightarrow> bool" where
  "HttpRequest_HasQuery r key = True"

definition HttpRequest_set_data :: "mstr \<Rightarrow> http_request \<Rightarrow> http_request" where
  "HttpRequest_set_data s r = r\<lparr>rq_data := s\<rparr>"

section \<open>Responses\<close>

definition http_resp_status_table :: "(int \<times> string) list" where
  "http_resp_status_table =
  [(200, ''OK''), (100, ''Continue''),
   (101, ''Switching Protocols''), (102, ''Processing''),
   (201, ''Created''), (202, ''Accepted''),
   (203, ''Non-Authoritative Information''), (204, ''No Content''),
   (205, ''Reset Content''), (206, ''Partial Content''),
   (207, ''Multi-Status''), (208, ''Already Reported''),
   (226, ''IM Used''), (300, ''Multiple Choices''),
   (301, ''Moved Permanently''), (302, ''Found''),
   (303, ''See Other''), (304, ''Not Modified''),
   (305, ''Use Proxy''), (307, ''Temporary Redirect''),
   (308, ''Permanent Redirect''), (400, ''Bad Request''),
   (401, ''Unauthorized''), (402, ''Payment Required''),
   (403, ''Forbidden''), (404, ''Not Found''),
   (405, ''Method Not Allowed''), (406, ''Not Acceptable''),
   (407, ''Proxy Authentication Required''), (408, ''Request Timeout''),
   (409, ''Conflict''), (410, ''Gone''),
   (411, ''Length Required''), (412, ''Precondition Failed''),
   (413, ''Payload Too Large''), (414, ''URI Too Long''),
   (415, ''Unsupported Media Type''), (416, ''Range Not Satisfiable''),
   (417, ''Expectation Failed''), (421, ''Misdirected Request''),
   (422, ''Unprocessable Entity''), (423, ''Locked''),
   (424, ''Failed Dependency''), (426, ''Upgrade Required''),
   (428, ''Precondition Required''), (429, ''Too Many Requests''),
   (431, ''Request Header Fields Too Large''), (451, ''Unavailable For Legal Reasons''),
   (500, ''Internal Server Error''), (501, ''Not Implemented''),
   (502, ''Bad Gateway''), (503, ''Service Unavailable''),
   (504, ''Gateway Timeout''), (505, ''HTTP Version Not Supported''),
   (506, ''Variant Also Negotiates''), (507, ''Insufficient Storage''),
   (508, ''Loop Detected''), (510, ''Not Extended''),
   (511, ''Network Authentication Required''),
   (-1, ''Not Used'')]"

text \<open>The count leaves out the last row, and the fallback is the row before it.\<close>

definition http_status_desc :: "int \<Rightarrow> string" where
  "http_status_desc code =
     (let count = length http_resp_status_table - 1
      in case map_of (take count http_resp_status_table) code of
           Some d \<Rightarrow> d
         | None \<Rightarrow> snd (http_resp_status_table ! (count - 1)))"

record http_response =
  rs_status :: int
  rs_headers :: "(mstr, mstr) amap"
  rs_content :: mstr

definition SetStatus :: "int \<Rightarrow> http_response \<Rightarrow> http_response" where
  "SetStatus code r = r\<lparr>rs_status := code\<rparr>"

definition SetHeader :: "mstr \<Rightarrow> mstr \<Rightarrow> http_response \<Rightarrow> http_response" where
  "SetHeader name v r = r\<lparr>rs_headers := amap_set name v (rs_headers r)\<rparr>"

definition SetContent :: "mstr \<Rightarrow> http_response \<Rightarrow> http_response" where
  "SetContent content r = r\<lparr>rs_content := content\<rparr>"

definition HttpResponse_new :: http_response where
  "HttpResponse_new =
     SetHeader (Mstr ''Server'') (Mstr ''xauth/1.0'')
       (SetHeader (Mstr ''Content-Type'') (Mstr ''text/plain'')
         (SetHeader (Mstr ''Connection'') (Mstr ''close'')
           \<lparr>rs_status = 404, rs_headers = [], rs_content = Mstr []\<rparr>))"

definition crlf :: string where
  "crlf = [CHR 0x0D, CHR 0x0A]"

definition HttpResponse_Message :: "http_response \<Rightarrow> string" where
  "HttpResponse_Message r =
     ''HTTP/1.1 '' @ dec_int (rs_status r) @ '' '' @ http_status_desc (rs_status r) @ crlf @
     concat (map (\<lambda>(k, v). c_str (mstr_str k) @ '':'' @ c_str (mstr_str v) @ crlf) (rs_headers r)) @
     ''Content-Length'' @ '':'' @ dec_nat (mlen (rs_content r)) @ crlf @
     crlf @ c_str (mstr_str (rs_content r))"

section \<open>Lemmas: requests\<close>

text \<open>What the callbacks leave in each field.\<close>

fun body_of :: "http_event \<Rightarrow> string option" where
  "body_of (On_Body s) = Some s"
| "body_of e = None"

definition body_fragments :: "http_event list \<Rightarrow> string list" where
  "body_fragments evs = List.map_filter body_of evs"

named_theorems event_simps \<open>the callbacks unfolded\<close>

lemmas [event_simps] = OnUrl_def OnHeadersComplete_def OnBody_def OnHeaderField_def OnHeaderValue_def
  OnMessageComplete_def OnQueryField_def OnQueryValue_def OnFragment_def

lemma body_fragments_simps [simp]:
  "body_fragments [] = []"
  "body_fragments (e # evs) = (case body_of e of None \<Rightarrow> body_fragments evs | Some s \<Rightarrow> s # body_fragments evs)"
  by (simp_all add: body_fragments_def List.map_filter_simps split: option.splits)

lemma body_of_events:
  "rq_body (fold on_event evs r) =
     (if body_fragments evs = [] then rq_body r else Mstr (last (body_fragments evs)))"
proof (induction evs arbitrary: r)
  case Nil
  then show ?case by simp
next
  case (Cons e evs)
  then show ?case by (cases e) (simp_all add: event_simps)
qed

lemma headers_of_pairs:
  "rq_headers (fold on_event (concat (map (\<lambda>(k, v). [On_Header_Field k, On_Header_Value v]) hs)) r) =
     amap_store.put_all (map (\<lambda>(k, v). (Mstr k, Mstr v)) hs) (rq_headers r)"
  by (induction hs arbitrary: r) (auto simp: event_simps)

lemma queries_of_pairs:
  "rq_queries (fold on_event (concat (map (\<lambda>(k, v). [On_Query_Field k, On_Query_Value v]) qs)) r) =
     amap_store.put_all (map (\<lambda>(k, v). (Mstr k, Mstr v)) qs) (rq_queries r)"
  by (induction qs arbitrary: r) (auto simp: event_simps)

lemma new_request_maps [simp]:
  "rq_headers (HttpRequest_new s t) = []" "rq_queries (HttpRequest_new s t) = []"
  "rq_body (HttpRequest_new s t) = Mstr []"
  by (simp_all add: HttpRequest_new_def)

lemma map_of_Mstr: "map_of (map (\<lambda>(k, v). (Mstr k, Mstr (f v))) xs) (Mstr k) = map_option (\<lambda>v. Mstr (f v)) (map_of xs k)"
  by (induction xs) auto

section \<open>Lemmas: responses\<close>

text \<open>Reading a message back: the lines up to the first empty one, and what follows it.\<close>

fun http_split :: "string \<Rightarrow> string \<times> string" where
  "http_split [] = ([], [])"
| "http_split (c # s) =
     (if prefix (crlf @ crlf) (c # s) then ([], drop 4 (c # s))
      else let (h, b) = http_split s in (c # h, b))"

definition line_ok :: "string \<Rightarrow> bool" where
  "line_ok l \<longleftrightarrow> l \<noteq> [] \<and> CHR 0x0D \<notin> set l"

lemma http_split_line:
  "CHR 0x0D \<notin> set l \<Longrightarrow> http_split (l @ s) = (l @ fst (http_split s), snd (http_split s))"
  by (induction l) (auto simp: crlf_def split: prod.splits)

lemma http_split_crlf:
  assumes "line_ok l"
  shows "http_split (crlf @ l @ s) = (crlf @ l @ fst (http_split s), snd (http_split s))"
proof -
  obtain c l' where l: "l = c # l'" "c \<noteq> CHR 0x0D" using assms by (cases l) (auto simp: line_ok_def)
  have "http_split (crlf @ l @ s) = (crlf @ fst (http_split (l @ s)), snd (http_split (l @ s)))"
    using l by (simp add: crlf_def split: prod.splits)
  with assms show ?thesis by (simp add: http_split_line line_ok_def)
qed

lemma http_split_lines:
  "list_all line_ok ls \<Longrightarrow>
     http_split (concat (map (\<lambda>l. crlf @ l) ls) @ crlf @ crlf @ b) = (concat (map (\<lambda>l. crlf @ l) ls), b)"
proof (induction ls)
  case Nil
  then show ?case by (simp add: crlf_def)
next
  case (Cons l ls)
  then show ?case using http_split_crlf [of l] by simp
qed

definition header_line :: "mstr \<times> mstr \<Rightarrow> string" where
  "header_line kv = c_str (mstr_str (fst kv)) @ '':'' @ c_str (mstr_str (snd kv))"

text \<open>The message as a first line, further lines, an empty line and the body.\<close>

lemma message_lines:
  "HttpResponse_Message r =
     (''HTTP/1.1 '' @ dec_int (rs_status r) @ '' '' @ http_status_desc (rs_status r)) @
     concat (map (\<lambda>l. crlf @ l)
       (map header_line (rs_headers r) @ [''Content-Length:'' @ dec_nat (mlen (rs_content r))])) @
     crlf @ crlf @ c_str (mstr_str (rs_content r))"
proof -
  have "crlf @ concat (map (\<lambda>(k, v). c_str (mstr_str k) @ '':'' @ c_str (mstr_str v) @ crlf) hs) =
      concat (map (\<lambda>l. crlf @ l) (map header_line hs)) @ crlf" for hs
    by (induction hs) (auto simp: header_line_def)
  from arg_cong [OF this, of "\<lambda>s. s @ t" for t] show ?thesis
    by (simp add: HttpResponse_Message_def)
qed

lemma status_desc_no_cr: "CHR 0x0D \<notin> set (http_status_desc code)"
proof -
  have *: "list_all (\<lambda>e. CHR 0x0D \<notin> set (snd e)) http_resp_status_table" by code_simp
  show ?thesis
  proof (cases "map_of (take (length http_resp_status_table - 1) http_resp_status_table) code")
    case None
    have "length http_resp_status_table = 60" by code_simp
    moreover from this have "http_resp_status_table ! 58 \<in> set http_resp_status_table"
      by (intro nth_mem) simp
    ultimately show ?thesis using * None by (auto simp: http_status_desc_def list_all_iff)
  next
    case (Some d)
    then have "(code, d) \<in> set http_resp_status_table"
      by (meson in_set_takeD map_of_SomeD)
    with * Some show ?thesis by (auto simp: http_status_desc_def list_all_iff)
  qed
qed

lemma no_cr_dec: "CHR 0x0D \<notin> set (dec_int i)" "CHR 0x0D \<notin> set (dec_nat n)"
proof -
  show n: "CHR 0x0D \<notin> set (dec_nat n)" for n
    using dec_nat_digits [of n] by (auto simp: list_all_iff is_digit_def)
  show "CHR 0x0D \<notin> set (dec_int i)" using n by (simp add: dec_int_def)
qed

section \<open>Properties\<close>

text \<open>The body a route procedure sees is the last fragment the parser delivered; it is the whole
  body exactly when every earlier fragment was empty.\<close>

theorem request_body_fragments:
  "rq_body (fold on_event evs (HttpRequest_new sock now)) = Mstr (concat (body_fragments evs)) \<longleftrightarrow>
    (\<forall>f \<in> set (butlast (body_fragments evs)). f = [])"
proof (cases "body_fragments evs" rule: rev_cases)
  case Nil
  then show ?thesis by (simp add: body_of_events)
next
  case (snoc fs f)
  then show ?thesis by (auto simp: body_of_events)
qed

lemma request_body_fragments_witness:
  "rq_body (fold on_event [On_Body ''{}''] (HttpRequest_new 4 0)) = Mstr (concat [''{}''])"
  using request_body_fragments [of "[On_Body ''{}'']" 4 0] by simp

text \<open>Of the query parameters the parser delivered, \<open>query\<close> returns the decoded value of the last
  one with the key; a key that was not delivered is read past the end of the map.\<close>

theorem request_query:
  "HttpRequest_query
     (fold on_event (concat (map (\<lambda>(k, v). [On_Query_Field k, On_Query_Value v]) qs)) (HttpRequest_new sock now))
     (Mstr k) =
    (case map_of (rev qs) k of Some v \<Rightarrow> Inr (Mstr (UrlDecode (c_str v))) | None \<Rightarrow> Inl Out_Of_Bounds)"
proof -
  have "map_of (rev (map (\<lambda>(k, v). (Mstr k, Mstr v)) qs)) (Mstr k) = map_option Mstr (map_of (rev qs) k)"
    using map_of_Mstr [of "\<lambda>v. v" "rev qs" k] by (simp add: rev_map)
  then show ?thesis
    by (cases "map_of (rev qs) k") (simp_all add: HttpRequest_query_def queries_of_pairs amap_store.get_put_all)
qed



end
