(* ===== verification/Http_Routes.thy ===== *)
theory Http_Routes
  imports Http_Message
begin

text \<open>
  \<open>server/routes.cpp\<close>: the table of route procedures and the dispatch of a request.  A procedure works
  on the state \<open>'s\<close> of its service; its result is the return code, the response and the new state.
\<close>

datatype route_key = Route_Key (rk_method: int) (rk_url: mstr)

text \<open>\<open>operator<\<close>: the method first, then the URL.\<close>

definition RouteKey_less :: "route_key \<Rightarrow> route_key \<Rightarrow> bool" where
  "RouteKey_less a b =
     (if rk_method a < rk_method b then True
      else if rk_method a > rk_method b then False
      else rk_url a < rk_url b)"

text \<open>It is a linear order, the one of the table.\<close>

instantiation route_key :: linorder
begin

definition less_route_key :: "route_key \<Rightarrow> route_key \<Rightarrow> bool" where
  "a < b \<longleftrightarrow> RouteKey_less a b"

definition less_eq_route_key :: "route_key \<Rightarrow> route_key \<Rightarrow> bool" where
  "a \<le> b \<longleftrightarrow> a < b \<or> a = (b :: route_key)"

instance
proof
  fix x y z :: route_key
  show "(x < y) = (x \<le> y \<and> \<not> y \<le> x)"
    by (auto simp: less_eq_route_key_def less_route_key_def RouteKey_less_def split: if_splits)
  show "x \<le> x" by (simp add: less_eq_route_key_def)
  show "x \<le> y \<Longrightarrow> y \<le> z \<Longrightarrow> x \<le> z"
    by (auto simp: less_eq_route_key_def less_route_key_def RouteKey_less_def split: if_splits)
  show "x \<le> y \<Longrightarrow> y \<le> x \<Longrightarrow> x = y"
    by (auto simp: less_eq_route_key_def less_route_key_def RouteKey_less_def split: if_splits)
  show "x \<le> y \<or> y \<le> x"
    by (cases x; cases y) (auto simp: less_eq_route_key_def less_route_key_def RouteKey_less_def split: if_splits)
qed

end

type_synonym 's route_proc =
  "http_request \<Rightarrow> http_response \<Rightarrow> 's \<Rightarrow> (int \<times> http_response \<times> 's) outcome"

type_synonym 's route_table = "(route_key, 's route_proc option) amap"

text \<open>Method numbers of the parser library.\<close>

definition HTTP_HEAD :: int where "HTTP_HEAD = 2"
definition HTTP_GET :: int where "HTTP_GET = 1"
definition HTTP_POST :: int where "HTTP_POST = 3"

definition Routes_Register :: "route_key \<Rightarrow> 's route_proc option \<Rightarrow> 's route_table \<Rightarrow> 's route_table" where
  "Routes_Register rkey rproc table = amap_set rkey rproc table"

definition RouteUnknown_Process :: "'s route_proc" where
  "RouteUnknown_Process req resp s = Inr (0, SetStatus 404 resp, s)"

definition RouteHeadOk_Process :: "'s route_proc" where
  "RouteHeadOk_Process req resp s = Inr (0, SetStatus 200 resp, s)"

definition Routes_Process :: "'s route_table \<Rightarrow> 's route_proc" where
  "Routes_Process table req resp s =
     obind (HttpRequest_method req) (\<lambda>m.
       if m = HTTP_HEAD then
         (if list_ex (\<lambda>e. rk_url (fst e) = rq_url req) table then RouteHeadOk_Process req resp s
          else RouteUnknown_Process req resp s)
       else
         (case map_of table (Route_Key m (rq_url req)) of
            Some (Some rp) \<Rightarrow> rp req resp s
          | _ \<Rightarrow> RouteUnknown_Process req resp s))"

section \<open>Lemmas\<close>

definition Routes_of :: "(route_key \<times> 's route_proc) list \<Rightarrow> 's route_table" where
  "Routes_of procs = fold (\<lambda>(k, p). Routes_Register k (Some p)) procs []"

lemma Routes_of_put_all: "Routes_of procs = amap_store.put_all (map (\<lambda>(k, p). (k, Some p)) procs) []"
proof -
  have "fold (\<lambda>(k, p). Routes_Register k (Some p)) procs t =
      amap_store.put_all (map (\<lambda>(k, p). (k, Some p)) procs) t" for t
    by (induction procs arbitrary: t) (auto simp: Routes_Register_def)
  then show ?thesis by (simp add: Routes_of_def)
qed

lemma map_of_map_Some: "map_of (map (\<lambda>(k, p). (k, Some p)) xs) k = map_option Some (map_of xs k)"
  by (induction xs) auto

lemma map_of_Routes_of: "map_of (Routes_of procs) k = map_option Some (map_of (rev procs) k)"
  by (simp add: Routes_of_put_all amap_store.get_put_all rev_map map_of_map_Some split: option.splits)

lemma keys_Routes_of: "fst ` set (Routes_of procs) = fst ` set procs"
proof -
  have "fst ` set (fold (\<lambda>(k, p). Routes_Register k (Some p)) procs t) = fst ` set procs \<union> fst ` set t" for t
  proof (induction procs arbitrary: t)
    case Nil
    then show ?case by simp
  next
    case (Cons p procs)
    then show ?case by (cases p) (simp add: Routes_Register_def keys_amap_set)
  qed
  then show ?thesis by (simp add: Routes_of_def)
qed

text \<open>C30: a request whose headers are complete is handed to the last procedure registered under its
  method and URL; with no such procedure it is answered 404.  A HEAD request is answered 200 exactly
  when some route, of any method, has its URL.\<close>

theorem routes_dispatch:
  assumes "rq_method req = Some m"
  shows "Routes_Process (Routes_of procs) req resp s =
    (if m = HTTP_HEAD
     then Inr (0, SetStatus (if rq_url req \<in> rk_url ` fst ` set procs then 200 else 404) resp, s)
     else case map_of (rev procs) (Route_Key m (rq_url req)) of
            Some p \<Rightarrow> p req resp s
          | None \<Rightarrow> Inr (0, SetStatus 404 resp, s))"
proof (cases "m = HTTP_HEAD")
  case True
  have "list_ex (\<lambda>e. rk_url (fst e) = rq_url req) (Routes_of procs) \<longleftrightarrow>
      rq_url req \<in> rk_url ` (fst ` set (Routes_of procs))"
    unfolding list_ex_iff image_image image_iff by metis
  then show ?thesis
    using True assms
    by (simp add: Routes_Process_def HttpRequest_method_def RouteHeadOk_Process_def
        RouteUnknown_Process_def keys_Routes_of)
next
  case False
  then show ?thesis
    using assms
    by (auto simp: Routes_Process_def HttpRequest_method_def RouteUnknown_Process_def map_of_Routes_of
        split: option.splits)
qed

lemma routes_dispatch_witness:
  "Routes_Process (Routes_of [(Route_Key 3 (Mstr ''/x''), \<lambda>req resp s. Inr (0, resp, s))])
     (HttpRequest_new 4 0\<lparr>rq_method := Some 1, rq_url := Mstr ''/x''\<rparr>) HttpResponse_new () =
   Inr (0, SetStatus 404 HttpResponse_new, ())"
  by (subst routes_dispatch [where m = 1]) (simp_all add: HTTP_HEAD_def)

end
