(* ===== verification/Json_Wrapper.thy ===== *)
theory Json_Wrapper
  imports Std_String Complex_Main
begin

text \<open>
  \<open>helper/json_wrapper.cpp\<close>: the class \<open>JsonDocument\<close>, which addresses the values of a document by
  dotted paths.  A \<open>Json::Value\<close> is the datatype \<open>json\<close>; \<open>isMember\<close> and \<open>operator[]\<close> behave as the
  JSON library documents, with an exception on a value that is neither an object nor null.  \<open>Parse\<close> and \<open>Write\<close>
  are in \<open>Json_Document\<close>, over the reader and the writer.
\<close>

section \<open>Values\<close>

text \<open>An object is the list of its members in key order.\<close>

datatype json = JNull | JInt int | JUInt int | JReal rat | JString string | JBool bool
  | JArray "json list" | JObject "(string \<times> json) list"

definition is_object :: "json \<Rightarrow> bool" where
  "is_object v = (case v of JObject _ \<Rightarrow> True | _ \<Rightarrow> False)"

definition json_is_int :: "json \<Rightarrow> bool" where
  "json_is_int v =
     (case v of
        JInt i \<Rightarrow> - (2 ^ 31) \<le> i \<and> i < 2 ^ 31
      | JUInt i \<Rightarrow> i < 2 ^ 31
      | JReal r \<Rightarrow> - (2 ^ 31) \<le> r \<and> r \<le> 2 ^ 31 - 1 \<and> snd (quotient_of r) = 1
      | _ \<Rightarrow> False)"

definition json_as_int :: "json \<Rightarrow> int" where
  "json_as_int v = (case v of JInt i \<Rightarrow> i | JUInt i \<Rightarrow> i | JReal r \<Rightarrow> fst (quotient_of r) | _ \<Rightarrow> 0)"

definition json_isMember :: "json \<Rightarrow> string \<Rightarrow> bool outcome" where
  "json_isMember v key =
     (case v of
        JNull \<Rightarrow> Inr False
      | JObject m \<Rightarrow> Inr (map_of m key \<noteq> None)
      | _ \<Rightarrow> Inl Logic_Error)"

text \<open>\<open>operator[]\<close> on a constant value, and the assignment \<open>parent[key] = value\<close>.\<close>

definition json_at :: "json \<Rightarrow> string \<Rightarrow> json outcome" where
  "json_at v key =
     (case v of
        JNull \<Rightarrow> Inr JNull
      | JObject m \<Rightarrow> Inr (case map_of m key of None \<Rightarrow> JNull | Some x \<Rightarrow> x)
      | _ \<Rightarrow> Inl Logic_Error)"

definition json_put :: "json \<Rightarrow> string \<Rightarrow> json \<Rightarrow> json outcome" where
  "json_put parent key v =
     (case parent of
        JNull \<Rightarrow> Inr (JObject [(key, v)])
      | JObject m \<Rightarrow> Inr (JObject (amap_set key v m))
      | _ \<Rightarrow> Inl Logic_Error)"

section \<open>The private operations, by recursion on the path\<close>

function Json_Get :: "json \<Rightarrow> string \<Rightarrow> json option outcome" where
  "Json_Get parent key =
     (if CHR ''.'' \<notin> set key
      then obind (json_isMember parent key) (\<lambda>m.
             if \<not> m then Inr None
             else obind (json_at parent key) (\<lambda>v. Inr (Some v)))
      else obind (json_isMember parent (before CHR ''.'' key)) (\<lambda>m.
             if \<not> m then Inr None
             else obind (json_at parent (before CHR ''.'' key)) (\<lambda>child.
                    Json_Get child (after CHR ''.'' key))))"
  by pat_completeness auto
termination by (relation "measure (\<lambda>(parent, key). length key)") (auto intro: length_after_less)

declare Json_Get.simps [simp del]

text \<open>The object the next path component is set in: an existing object, or a fresh one.\<close>

definition json_child :: "json \<Rightarrow> string \<Rightarrow> json outcome" where
  "json_child parent pkey =
     obind (json_isMember parent pkey) (\<lambda>m.
       if \<not> m then Inr (JObject [])
       else obind (json_at parent pkey) (\<lambda>child.
              Inr (if is_object child then child else JObject [])))"

function Json_Set :: "json \<Rightarrow> string \<Rightarrow> json \<Rightarrow> json outcome" where
  "Json_Set parent key v =
     (if CHR ''.'' \<notin> set key then json_put parent key v
      else obind (json_child parent (before CHR ''.'' key)) (\<lambda>child.
             obind (Json_Set child (after CHR ''.'' key) v) (\<lambda>child'.
               json_put parent (before CHR ''.'' key) child')))"
  by pat_completeness auto
termination by (relation "measure (\<lambda>(parent, key, v). length key)") (auto intro: length_after_less)

declare Json_Set.simps [simp del]

function Json_Append :: "json \<Rightarrow> string \<Rightarrow> json \<Rightarrow> json outcome" where
  "Json_Append parent key v =
     (if CHR ''.'' \<notin> set key
      then obind (json_isMember parent key) (\<lambda>m.
             obind (if m then json_at parent key else Inr JNull) (\<lambda>old.
               json_put parent key (JArray ((case old of JArray vs \<Rightarrow> vs | _ \<Rightarrow> []) @ [v]))))
      else obind (json_child parent (before CHR ''.'' key)) (\<lambda>child.
             obind (Json_Append child (after CHR ''.'' key) v) (\<lambda>child'.
               json_put parent (before CHR ''.'' key) child')))"
  by pat_completeness auto
termination by (relation "measure (\<lambda>(parent, key, v). length key)") (auto intro: length_after_less)

declare Json_Append.simps [simp del]

section \<open>The public operations\<close>

definition JsonDocument :: json where
  "JsonDocument = JObject []"

text \<open>A getter returns what it assigns to \<open>value\<close>; \<open>None\<close> is \<open>false\<close>, with \<open>value\<close> untouched.\<close>

definition Json_Get_int :: "json \<Rightarrow> string \<Rightarrow> int option outcome" where
  "Json_Get_int doc key =
     obind (Json_Get doc key) (\<lambda>r. Inr
       (case r of Some v \<Rightarrow> if json_is_int v then Some (json_as_int v) else None | None \<Rightarrow> None))"

definition Json_Get_string :: "json \<Rightarrow> string \<Rightarrow> string option outcome" where
  "Json_Get_string doc key =
     obind (Json_Get doc key) (\<lambda>r. Inr (case r of Some (JString s) \<Rightarrow> Some s | _ \<Rightarrow> None))"

text \<open>The vector getters push every element of the right type behind what \<open>value\<close> holds.\<close>

definition Json_Get_ints :: "json \<Rightarrow> string \<Rightarrow> int list \<Rightarrow> int list option outcome" where
  "Json_Get_ints doc key acc =
     obind (Json_Get doc key) (\<lambda>r. Inr
       (case r of Some (JArray vs) \<Rightarrow> Some (acc @ map json_as_int (filter json_is_int vs)) | _ \<Rightarrow> None))"

fun json_strings :: "json list \<Rightarrow> string list" where
  "json_strings (JString s # vs) = s # json_strings vs"
| "json_strings (v # vs) = json_strings vs"
| "json_strings [] = []"

definition Json_Get_strings :: "json \<Rightarrow> string \<Rightarrow> string list \<Rightarrow> string list option outcome" where
  "Json_Get_strings doc key acc =
     obind (Json_Get doc key) (\<lambda>r. Inr
       (case r of Some (JArray vs) \<Rightarrow> Some (acc @ json_strings vs) | _ \<Rightarrow> None))"

definition Json_Set_int :: "json \<Rightarrow> string \<Rightarrow> int \<Rightarrow> json outcome" where
  "Json_Set_int doc key i = Json_Set doc key (JInt i)"

definition Json_Set_string :: "json \<Rightarrow> string \<Rightarrow> string \<Rightarrow> json outcome" where
  "Json_Set_string doc key s = Json_Set doc key (JString s)"

definition Json_Set_ints :: "json \<Rightarrow> string \<Rightarrow> int list \<Rightarrow> json outcome" where
  "Json_Set_ints doc key is = Json_Set doc key (JArray (map JInt is))"

definition Json_Set_strings :: "json \<Rightarrow> string \<Rightarrow> string list \<Rightarrow> json outcome" where
  "Json_Set_strings doc key ss = Json_Set doc key (JArray (map JString ss))"

definition Json_Append_int :: "json \<Rightarrow> string \<Rightarrow> int \<Rightarrow> json outcome" where
  "Json_Append_int doc key i = Json_Append doc key (JInt i)"

definition Json_Append_string :: "json \<Rightarrow> string \<Rightarrow> string \<Rightarrow> json outcome" where
  "Json_Append_string doc key s = Json_Append doc key (JString s)"

section \<open>Lemmas\<close>

named_theorems json_simps \<open>evaluation of the document operations\<close>

lemma json_object_simps [simp]:
  "is_object (JObject m)" "json_isMember (JObject m) k = Inr (map_of m k \<noteq> None)"
  "json_at (JObject m) k = Inr (case map_of m k of None \<Rightarrow> JNull | Some x \<Rightarrow> x)"
  "json_put (JObject m) k v = Inr (JObject (amap_set k v m))"
  by (simp_all add: is_object_def json_isMember_def json_at_def json_put_def)

lemma is_object_iff: "is_object v \<longleftrightarrow> (\<exists>m. v = JObject m)"
  by (cases v) (auto simp: is_object_def)

lemma json_child_object: "\<exists>m'. json_child (JObject m) k = Inr (JObject m')"
  by (auto simp: json_child_def is_object_iff split: option.splits)

lemma Json_Get_flat [json_simps]:
  "CHR ''.'' \<notin> set k \<Longrightarrow> Json_Get (JObject m) k = Inr (map_of m k)"
  by (auto simp: Json_Get.simps [of _ k] split: option.splits)

lemma Json_Set_flat [json_simps]:
  "CHR ''.'' \<notin> set k \<Longrightarrow> Json_Set (JObject m) k v = Inr (JObject (amap_set k v m))"
  by (simp add: Json_Set.simps)

lemma Json_Set_object: "\<exists>m'. Json_Set (JObject m) k v = Inr (JObject m')"
proof (induction "length k" arbitrary: k m rule: less_induct)
  case less
  show ?case
  proof (cases "CHR ''.'' \<in> set k")
    case True
    from json_child_object [of m "before CHR ''.'' k"] obtain c where
      c: "json_child (JObject m) (before CHR ''.'' k) = Inr (JObject c)" ..
    from less [OF length_after_less [OF True], of c] c True show ?thesis
      by (subst Json_Set.simps) auto
  next
    case False
    then show ?thesis by (simp add: Json_Set_flat)
  qed
qed

lemma Json_Get_Set:
  "\<exists>m'. Json_Set (JObject m) k v = Inr (JObject m') \<and> Json_Get (JObject m') k = Inr (Some v)"
proof (induction "length k" arbitrary: k m rule: less_induct)
  case less
  show ?case
  proof (cases "CHR ''.'' \<in> set k")
    case True
    from json_child_object [of m "before CHR ''.'' k"] obtain c where
      c: "json_child (JObject m) (before CHR ''.'' k) = Inr (JObject c)" ..
    from less [OF length_after_less [OF True], of c] obtain c' where
      "Json_Set (JObject c) (after CHR ''.'' k) v = Inr (JObject c')"
      "Json_Get (JObject c') (after CHR ''.'' k) = Inr (Some v)" by blast
    with c True show ?thesis
      by (subst Json_Set.simps, subst Json_Get.simps) simp
  next
    case False
    then show ?thesis by (simp add: json_simps)
  qed
qed

lemma json_strings_map [simp]: "json_strings (map JString ss) = ss"
  by (induction ss) auto

section \<open>Properties\<close>

text \<open>Setting a path of an object document always succeeds, whatever the values on the way are,
  and the path then holds the value, at any depth.\<close>

theorem json_get_after_set:
  assumes "is_object doc"
  shows "\<exists>doc'. Json_Set doc key v = Inr doc' \<and> is_object doc' \<and> Json_Get doc' key = Inr (Some v)"
  using assms Json_Get_Set by (fastforce simp: is_object_iff)

lemma json_get_after_set_witness:
  "\<exists>doc'. Json_Set (JObject [(''a'', JInt 1)]) ''a.b'' JNull = Inr doc' \<and> is_object doc' \<and>
    Json_Get doc' ''a.b'' = Inr (Some JNull)"
  by (rule json_get_after_set) simp

text \<open>Reading any path of a document whose root is a number, a string, a boolean or an array
  throws; nothing in the program catches it.\<close>

theorem json_get_throws:
  "Json_Get doc key = Inl Logic_Error \<longleftrightarrow>
    (case doc of JNull \<Rightarrow> False | JObject m \<Rightarrow>
        CHR ''.'' \<in> set key \<and>
        (case map_of m (before CHR ''.'' key) of
           None \<Rightarrow> False | Some child \<Rightarrow> Json_Get child (after CHR ''.'' key) = Inl Logic_Error)
     | _ \<Rightarrow> True)"
  by (subst Json_Get.simps) (auto simp: json_isMember_def json_at_def split: json.splits option.splits)

end
