(* ===== verification/Json_Text.thy ===== *)
theory Json_Text
  imports Json_Wrapper Decimal
begin

text \<open>
  \<open>helper/jsoncpp/jsoncpp.cpp\<close>: how a string and a number are written to JSON text and decoded from
  it.  The conversions between a \<open>double\<close> and text are those of the C++ library, the record
  \<open>real_io\<close>; a finite \<open>double\<close> is the rational number it stands for.
\<close>

record real_io =
  read_double :: "string \<Rightarrow> rat option"
  print_double :: "rat \<Rightarrow> string"

section \<open>Code points\<close>

abbreviation octet :: "32 word \<Rightarrow> char" where
  "octet w \<equiv> char_of_byte (ucast w)"

definition codePointToUTF8 :: "32 word \<Rightarrow> string" where
  "codePointToUTF8 cp =
     (if cp \<le> 0x7f then [octet cp]
      else if cp \<le> 0x7FF then [octet (0xC0 OR (0x1f AND drop_bit 6 cp)), octet (0x80 OR (0x3f AND cp))]
      else if cp \<le> 0xFFFF then
        [octet (0xE0 OR (0xf AND drop_bit 12 cp)), octet (0x80 OR (0x3f AND drop_bit 6 cp)),
         octet (0x80 OR (0x3f AND cp))]
      else if cp \<le> 0x10FFFF then
        [octet (0xF0 OR (0x7 AND drop_bit 18 cp)), octet (0x80 OR (0x3f AND drop_bit 12 cp)),
         octet (0x80 OR (0x3f AND drop_bit 6 cp)), octet (0x80 OR (0x3f AND cp))]
      else [])"

text \<open>The digits of an escape; \<open>None\<close> is a reported error.\<close>

definition hex_value :: "char \<Rightarrow> (32 word) option" where
  "hex_value c =
     (if CHR ''0'' \<le> c \<and> c \<le> CHR ''9'' then Some (of_nat (of_char c - 48))
      else if CHR ''a'' \<le> c \<and> c \<le> CHR ''f'' then Some (of_nat (of_char c - 97 + 10))
      else if CHR ''A'' \<le> c \<and> c \<le> CHR ''F'' then Some (of_nat (of_char c - 65 + 10))
      else None)"

fun hex_digits :: "nat \<Rightarrow> string \<Rightarrow> 32 word \<Rightarrow> (32 word \<times> string) option" where
  "hex_digits 0 cs unicode = Some (unicode, cs)"
| "hex_digits (Suc n) [] unicode = None"
| "hex_digits (Suc n) (c # cs) unicode =
     (case hex_value c of None \<Rightarrow> None | Some d \<Rightarrow> hex_digits n cs (unicode * 16 + d))"

definition decodeUnicodeEscapeSequence :: "string \<Rightarrow> (32 word \<times> string) option" where
  "decodeUnicodeEscapeSequence cs = (if length cs < 4 then None else hex_digits 4 cs 0)"

definition decodeUnicodeCodePoint :: "string \<Rightarrow> (32 word \<times> string) option" where
  "decodeUnicodeCodePoint cs =
     (case decodeUnicodeEscapeSequence cs of
        None \<Rightarrow> None
      | Some (unicode, r) \<Rightarrow>
          if 0xD800 \<le> unicode \<and> unicode \<le> 0xDBFF then
            if length r < 6 then None
            else if r ! 0 = CHR 0x5C \<and> r ! 1 = CHR ''u'' then
              (case decodeUnicodeEscapeSequence (drop 2 r) of
                 None \<Rightarrow> None
               | Some (surrogatePair, r') \<Rightarrow>
                   Some (0x10000 + push_bit 10 (unicode AND 0x3FF) + (surrogatePair AND 0x3FF), r'))
            else None
          else Some (unicode, r))"

section \<open>Strings\<close>

text \<open>The characters after a backslash other than \<open>u\<close>.\<close>

definition plain_escapes :: "(char \<times> char) list" where
  "plain_escapes =
     [(CHR 0x22, CHR 0x22), (CHR ''/'', CHR ''/''), (CHR 0x5C, CHR 0x5C), (CHR ''b'', CHR 0x08),
      (CHR ''f'', CHR 0x0C), (CHR ''n'', CHR 0x0A), (CHR ''r'', CHR 0x0D), (CHR ''t'', CHR 0x09)]"

lemma hex_digits_shorter: "hex_digits n cs u = Some (v, r) \<Longrightarrow> length r = length cs - n"
  by (induction n cs u rule: hex_digits.induct) (auto split: option.splits)

lemma decodeUnicodeEscapeSequence_shorter:
  "decodeUnicodeEscapeSequence cs = Some (u, r) \<Longrightarrow> length r < length cs"
  by (auto simp: decodeUnicodeEscapeSequence_def dest!: hex_digits_shorter split: if_splits)

lemma decodeUnicodeCodePoint_shorter:
  "decodeUnicodeCodePoint cs = Some (u, r) \<Longrightarrow> length r < length cs"
  by (fastforce simp: decodeUnicodeCodePoint_def dest: decodeUnicodeEscapeSequence_shorter
      split: option.splits if_splits)

text \<open>The loop of \<open>decodeString\<close> between the quotes.\<close>

function decode_chars :: "string \<Rightarrow> string option" where
  "decode_chars cs =
     (case cs of
        [] \<Rightarrow> Some []
      | c # cs1 \<Rightarrow>
          if c = CHR 0x22 then Some []
          else if c = CHR 0x5C then
            (case cs1 of
               [] \<Rightarrow> None
             | e # cs2 \<Rightarrow>
                 (case map_of plain_escapes e of
                    Some x \<Rightarrow> map_option ((#) x) (decode_chars cs2)
                  | None \<Rightarrow>
                      if e = CHR ''u'' then
                        (case decodeUnicodeCodePoint cs2 of
                           None \<Rightarrow> None
                         | Some (unicode, r) \<Rightarrow> map_option ((@) (codePointToUTF8 unicode)) (decode_chars r))
                      else None))
          else map_option ((#) c) (decode_chars cs1))"
  by pat_completeness auto
termination
  by (relation "measure length") (auto dest: decodeUnicodeCodePoint_shorter)

declare decode_chars.simps [simp del]

definition decodeString :: "string \<Rightarrow> string option" where
  "decodeString token = decode_chars (butlast (tl token))"

text \<open>\<open>valueToQuotedStringN\<close>: a string without special characters is copied, the others walked.\<close>

definition isControlCharacter :: "char \<Rightarrow> bool" where
  "isControlCharacter ch \<longleftrightarrow> 0 < schar ch \<and> schar ch \<le> 0x1F"

definition quoted_specials :: string where
  "quoted_specials = [CHR 0x22, CHR 0x5C, CHR 0x08, CHR 0x0C, CHR 0x0A, CHR 0x0D, CHR 0x09]"

definition hex_upper :: "nat \<Rightarrow> char" where
  "hex_upper n = (if n < 10 then char_of (48 + n) else char_of (55 + n))"

definition quote_char :: "char \<Rightarrow> string" where
  "quote_char c =
     (if c = CHR 0x22 then [CHR 0x5C, CHR 0x22] else if c = CHR 0x5C then [CHR 0x5C, CHR 0x5C]
      else if c = CHR 0x08 then [CHR 0x5C, CHR ''b''] else if c = CHR 0x0C then [CHR 0x5C, CHR ''f'']
      else if c = CHR 0x0A then [CHR 0x5C, CHR ''n''] else if c = CHR 0x0D then [CHR 0x5C, CHR ''r'']
      else if c = CHR 0x09 then [CHR 0x5C, CHR ''t'']
      else if isControlCharacter c \<or> c = CHR 0x00
      then [CHR 0x5C, CHR ''u'', CHR ''0'', CHR ''0'', hex_upper (of_char c div 16), hex_upper (of_char c mod 16)]
      else [c])"

definition valueToQuotedStringN :: "string \<Rightarrow> string" where
  "valueToQuotedStringN s =
     (if list_all (\<lambda>c. c \<notin> set quoted_specials) s \<and> list_all (\<lambda>c. \<not> (isControlCharacter c \<or> c = CHR 0x00)) s
      then [CHR 0x22] @ s @ [CHR 0x22]
      else [CHR 0x22] @ concat (map quote_char s) @ [CHR 0x22])"

section \<open>Numbers\<close>

text \<open>\<open>uintToString\<close> writes the digits from the last to the first, in front of what is there.\<close>

function uintToString :: "nat \<Rightarrow> string \<Rightarrow> string" where
  "uintToString n buf =
     (let buf' = char_of (n mod 10 + 48) # buf in if n div 10 \<noteq> 0 then uintToString (n div 10) buf' else buf')"
  by pat_completeness auto
termination by (relation "measure fst") auto

declare uintToString.simps [simp del]

definition valueToString_int :: "int \<Rightarrow> string" where
  "valueToString_int i =
     (if i = - (2 ^ 63) then CHR ''-'' # uintToString (unat (2 ^ 63 - 1 + 1 :: 64 word)) []
      else if i < 0 then CHR ''-'' # uintToString (unat (word_of_int (- i) :: 64 word)) []
      else uintToString (unat (word_of_int i :: 64 word)) [])"

definition valueToString_uint :: "int \<Rightarrow> string" where
  "valueToString_uint i = uintToString (unat (word_of_int i :: 64 word)) []"

text \<open>A finite \<open>double\<close>; a comma of the locale becomes a point.\<close>

definition valueToString_real :: "real_io \<Rightarrow> rat \<Rightarrow> string" where
  "valueToString_real io r = map (\<lambda>c. if c = CHR '','' then CHR ''.'' else c) (print_double io r)"

definition decodeDouble :: "real_io \<Rightarrow> string \<Rightarrow> json option" where
  "decodeDouble io token = map_option JReal (read_double io token)"

text \<open>The loop over the digits; \<open>None\<close> is the call of \<open>decodeDouble\<close>.\<close>

fun decode_digits :: "64 word \<Rightarrow> 64 word \<Rightarrow> string \<Rightarrow> (64 word) option" where
  "decode_digits maxIntegerValue v [] = Some v"
| "decode_digits maxIntegerValue v (c # cs) =
     (if c < CHR ''0'' \<or> CHR ''9'' < c then None
      else
        let threshold = maxIntegerValue div 10; digit = of_nat (of_char c - 48)
        in if threshold \<le> v \<and> (threshold < v \<or> cs \<noteq> [] \<or> maxIntegerValue mod 10 < digit) then None
           else decode_digits maxIntegerValue (v * 10 + digit) cs)"

definition decodeNumber :: "real_io \<Rightarrow> string \<Rightarrow> json option" where
  "decodeNumber io token =
     (let isNegative = (\<exists>cs. token = CHR ''-'' # cs);
          maxIntegerValue = (if isNegative then 2 ^ 63 - 1 + 1 else 2 ^ 64 - 1 :: 64 word)
      in case decode_digits maxIntegerValue 0 (if isNegative then tl token else token) of
           None \<Rightarrow> decodeDouble io token
         | Some v \<Rightarrow> Some
             (if isNegative \<and> v = maxIntegerValue then JInt (- (2 ^ 63))
              else if isNegative then JInt (- sint v)
              else if v \<le> 0x7fffffff then JInt (sint v)
              else JUInt (uint v)))"

section \<open>Lemmas on strings\<close>

lemma schar_nat: "schar c = (if (of_char c :: nat) < 128 then int (of_char c) else int (of_char c) - 256)"
proof -
  let ?k = "int (of_char c)"
  have k: "?k div 128 = (if ?k < 128 then 0 else 1)" "?k < 256"
    using nat_of_char_less_256 [of c] by (auto simp: div_pos_pos_trivial intro: int_div_pos_eq [of _ _ 1 "int (of_char c) - 128"])
  have "uint (byte_of c) = ?k"
    by (simp flip: unat_byte_of)
  then have "schar c = signed_take_bit 7 ?k"
    by (simp add: schar_def sint_uint)
  also have "\<dots> = take_bit 8 ?k - 2 ^ 8 * of_bool (bit ?k 7)"
    using signed_take_bit_eq_take_bit_minus [of 7 ?k] by simp
  also have "take_bit 8 ?k = ?k"
    using k by (simp add: take_bit_int_eq_self)
  finally show ?thesis
    using k by (simp add: bit_iff_odd)
qed

lemma control_small: "isControlCharacter c \<or> c = CHR 0x00 \<longleftrightarrow> (of_char c :: nat) < 32"
proof -
  have "c = CHR 0x00 \<longleftrightarrow> (of_char c :: nat) = of_char (CHR 0x00)"
    by (simp only: of_char_eq_iff)
  then have "c = CHR 0x00 \<longleftrightarrow> (of_char c :: nat) = 0"
    by simp
  moreover obtain n :: nat where "of_char c = n" "n < 256"
    using nat_of_char_less_256 [of c] by blast
  ultimately show ?thesis
    by (auto simp: isControlCharacter_def schar_nat)
qed

lemma hex_value_upper: "n < 16 \<Longrightarrow> hex_value (hex_upper n) = Some (of_nat n)"
proof -
  assume "n < 16"
  moreover have "list_all (\<lambda>n. hex_value (hex_upper n) = Some (of_nat n)) [0..<16]" by code_simp
  ultimately show ?thesis by (simp add: list_all_iff)
qed

lemma small_word: "n < 4096 \<Longrightarrow> unat (of_nat n :: 32 word) = n"
  by (simp add: unat_of_nat take_bit_nat_eq_self)

lemma codePoint_ascii: "n < 128 \<Longrightarrow> codePointToUTF8 (of_nat n) = [char_of n]"
  by (simp add: codePointToUTF8_def word_le_nat_alt small_word char_of_byte_def unsigned_ucast_eq take_bit_nat_eq_self)

lemma hex_digits_4:
  "hex_digits 4 (a # b # c # d # r) 0 =
     (case (hex_value a, hex_value b, hex_value c, hex_value d) of
        (Some a', Some b', Some c', Some d') \<Rightarrow> Some (((a' * 16 + b') * 16 + c') * 16 + d', r)
      | _ \<Rightarrow> None)"
  by (simp add: eval_nat_numeral split: option.splits)

lemma unicode_escape:
  "n < 32 \<Longrightarrow> decodeUnicodeCodePoint (CHR ''0'' # CHR ''0'' # hex_upper (n div 16) # hex_upper (n mod 16) # r) = Some (of_nat n, r)"
proof -
  assume n: "n < 32"
  have "of_nat (n div 16) * 16 + of_nat (n mod 16) = (of_nat (n div 16 * 16 + n mod 16) :: 32 word)"
    by (simp only: of_nat_mult of_nat_add of_nat_numeral)
  then have "of_nat (n div 16) * 16 + of_nat (n mod 16) = (of_nat n :: 32 word)"
    by simp
  moreover have "hex_value (CHR ''0'') = Some 0"
    by code_simp
  ultimately have "hex_digits 4 (CHR ''0'' # CHR ''0'' # hex_upper (n div 16) # hex_upper (n mod 16) # r) 0 = Some (of_nat n, r)"
    using n by (simp add: hex_digits_4 hex_value_upper)
  then show ?thesis
    using n by (simp add: decodeUnicodeCodePoint_def decodeUnicodeEscapeSequence_def word_le_nat_alt small_word)
qed

lemma decode_quote_char: "decode_chars (quote_char c @ r) = map_option ((#) c) (decode_chars r)"
proof (cases "c \<in> set quoted_specials")
  case True
  then show ?thesis
    by (auto simp: quoted_specials_def quote_char_def decode_chars.simps [of "CHR 0x5C # _"] plain_escapes_def)
next
  case False
  show ?thesis
  proof (cases "isControlCharacter c \<or> c = CHR 0x00")
    case True
    then have small: "(of_char c :: nat) < 32" by (simp only: control_small)
    have "quote_char c @ r = CHR 0x5C # CHR ''u'' # CHR ''0'' # CHR ''0'' # hex_upper (of_char c div 16) # hex_upper (of_char c mod 16) # r"
      using False True by (auto simp: quote_char_def quoted_specials_def)
    moreover have "codePointToUTF8 (of_nat (of_char c)) = [c]"
      using codePoint_ascii [of "of_char c"] small by simp
    ultimately show ?thesis
      by (simp add: decode_chars.simps [of "CHR 0x5C # _"] plain_escapes_def unicode_escape [OF small] fun_eq_iff cong: option.map_cong)
  next
    case no: False
    then show ?thesis
      using False by (auto simp: quote_char_def quoted_specials_def decode_chars.simps [of "c # _"])
  qed
qed
lemma decode_quote_chars: "decode_chars (concat (map quote_char s)) = Some s"
  by (induction s) (simp_all add: decode_chars.simps [of "[]"] decode_quote_char)

lemma quoted_eq: "valueToQuotedStringN s = [CHR 0x22] @ concat (map quote_char s) @ [CHR 0x22]"
proof -
  have "list_all (\<lambda>c. c \<notin> set quoted_specials) s \<and> list_all (\<lambda>c. \<not> (isControlCharacter c \<or> c = CHR 0x00)) s
      \<Longrightarrow> concat (map quote_char s) = s"
    by (induction s) (auto simp: quote_char_def quoted_specials_def)
  then show ?thesis
    by (simp add: valueToQuotedStringN_def)
qed

lemma decodeString_quoted [simp]: "decodeString (valueToQuotedStringN s) = Some s"
  by (simp add: quoted_eq decodeString_def decode_quote_chars)

section \<open>Lemmas on numbers\<close>

lemma uintToString_dec: "uintToString n buf = dec_nat n @ buf"
proof (induction n buf rule: uintToString.induct)
  case (1 n buf)
  have "char_of (n mod 10 + 48) = digit_char (n mod 10)"
    by (simp add: digit_char_def add.commute)
  then show ?case
    using 1 by (auto simp: uintToString.simps [of n] dec_nat.simps [of n] Let_def div_eq_0_iff)
qed

lemma unat_of_int64: "0 \<le> i \<Longrightarrow> i < 2 ^ 64 \<Longrightarrow> unat (word_of_int i :: 64 word) = nat i"
  by (simp add: unat_eq_nat_uint uint_word_of_int_eq take_bit_int_eq_self)

lemma valueToString_int_dec:
  assumes "- (2 ^ 63) \<le> i" "i < 2 ^ 63"
  shows "valueToString_int i = dec_int i"
  using assms unat_of_int64 [of i] unat_of_int64 [of "- i"]
  by (simp add: valueToString_int_def dec_int_def uintToString_dec)

lemma valueToString_uint_dec:
  assumes "0 \<le> i" "i < 2 ^ 64"
  shows "valueToString_uint i = dec_nat (nat i)"
  using assms by (simp add: valueToString_uint_def uintToString_dec unat_of_int64)

definition digits_from :: "nat \<Rightarrow> string \<Rightarrow> nat" where
  "digits_from n cs = foldl (\<lambda>n c. 10 * n + (of_char c - 48)) n cs"

lemma digits_from_simps [simp]:
  "digits_from n [] = n" "digits_from n (c # cs) = digits_from (10 * n + (of_char c - 48)) cs"
  by (simp_all add: digits_from_def)

lemma digits_from_le: "n * 10 ^ length cs \<le> digits_from n cs"
proof (induction cs arbitrary: n)
  case (Cons c cs)
  have "n * 10 ^ length (c # cs) \<le> (10 * n + (of_char c - 48)) * 10 ^ length cs"
    by (simp add: algebra_simps)
  also have "\<dots> \<le> digits_from n (c # cs)"
    using Cons by simp
  finally show ?case .
qed simp

lemma is_digit_range: "is_digit c \<longleftrightarrow> \<not> (c < CHR ''0'' \<or> CHR ''9'' < c)"
  by (auto simp: is_digit_def less_char_def)

lemma decode_digits_nat:
  assumes "list_all is_digit cs" "10 \<le> unat maxv" "digits_from (unat v) cs \<le> unat maxv"
  shows "decode_digits maxv v cs = Some (of_nat (digits_from (unat v) cs))"
  using assms
proof (induction cs arbitrary: v)
  case Nil
  then show ?case by simp
next
  case (Cons c cs)
  let ?d = "of_char c - 48 :: nat" and ?m = "unat maxv"
  have digit: "is_digit c" "?d < 10" and m: "?m < 2 ^ 64"
    using Cons.prems(1) unsigned_less [of maxv] by (auto simp: is_digit_def)
  have le: "(10 * unat v + ?d) * 10 ^ length cs \<le> ?m"
    using digits_from_le [of "10 * unat v + ?d" cs] Cons.prems(3) by simp
  have fits: "10 * unat v + ?d \<le> ?m"
    using le by (metis mult.right_neutral mult_le_mono2 one_le_numeral one_le_power order_trans)
  have small: "unat (of_nat ?d :: 64 word) = ?d"
    using digit(2) by (simp add: unat_of_nat take_bit_nat_eq_self)
  have next': "unat (v * 10 + of_nat ?d) = 10 * unat v + ?d"
    using fits m digit(2) by (simp add: unat_word_ariths small mult.commute)
  have "unat v \<le> ?m div 10"
    using fits by (simp add: less_eq_div_iff_mult_less_eq)
  moreover have "cs = [] \<and> ?d \<le> ?m mod 10" if "unat v = ?m div 10"
  proof
    obtain q r where qr: "?m div 10 = q" "?m mod 10 = r" by blast
    then have m10: "?m = 10 * q + r" "r < 10" by (auto simp flip: qr)
    have t: "1 \<le> ?m div 10" using Cons.prems(2) by (simp add: less_eq_div_iff_mult_less_eq)
    show "cs = []"
    proof (rule ccontr)
      assume "cs \<noteq> []"
      then have "(10::nat) ^ 1 \<le> 10 ^ length cs"
        by (intro power_increasing) (simp_all add: Suc_le_eq)
      then have "(10 * unat v + ?d) * 10 \<le> ?m"
        using le mult_le_mono2 [of 10 "10 ^ length cs" "10 * unat v + ?d"] by simp
      moreover have "100 * unat v \<le> (10 * unat v + ?d) * 10"
        by simp
      ultimately show False
        using t m10 that unfolding qr by linarith
    qed
    show "?d \<le> ?m mod 10"
      using fits m10 that unfolding qr by linarith
  qed
  ultimately have "\<not> (maxv div 10 \<le> v \<and> (maxv div 10 < v \<or> cs \<noteq> [] \<or> maxv mod 10 < of_nat ?d))"
    by (auto simp: word_le_nat_alt word_less_nat_alt unat_div unat_mod small)
  then show ?case
    using Cons.IH [of "v * 10 + of_nat ?d"] Cons.prems digit next'
    by (simp add: is_digit_range Let_def)
qed
lemma foldl_digits: "list_all is_digit cs \<Longrightarrow> digits_nat cs = digits_from 0 cs"
  by (simp add: digits_nat_def digits_from_def takeWhile_eq_all_conv [THEN iffD2] list_all_iff)

lemma decode_digits_dec:
  "10 \<le> unat maxv \<Longrightarrow> n \<le> unat maxv \<Longrightarrow> decode_digits maxv 0 (dec_nat n) = Some (of_nat n)"
  using decode_digits_nat [OF dec_nat_digits, of maxv 0 n] foldl_digits [OF dec_nat_digits, of n] by simp

lemma dec_nat_no_minus: "dec_nat n \<noteq> CHR ''-'' # cs"
  using dec_nat_digits [of n] by (auto simp: is_digit_def)

lemma unat_max64: "unat (2 ^ 64 - 1 :: 64 word) = 2 ^ 64 - 1" "unat (2 ^ 63 - 1 + 1 :: 64 word) = 2 ^ 63"
  by simp_all

text \<open>An integer the reader takes for signed comes back as such, a larger one as unsigned.\<close>

lemma decodeNumber_int:
  assumes "- (2 ^ 63) \<le> i" "i < 2 ^ 31"
  shows "decodeNumber io (dec_int i) = Some (JInt i)"
proof (cases "i < 0")
  case True
  define n where "n = nat (- i)"
  have n: "i = - int n" "n \<le> 2 ^ 63" "0 < n"
    using True assms(1) by (auto simp: n_def)
  have un: "unat (of_nat n :: 64 word) = n"
    using n(2) by (simp add: unat_of_nat take_bit_nat_eq_self)
  have s: "n < 2 ^ 63 \<Longrightarrow> sint (of_nat n :: 64 word) = int n"
    by (simp add: signed_of_nat signed_take_bit_int_eq_self)
  show ?thesis
    using n decode_digits_dec [of "2 ^ 63 - 1 + 1" n] un s
    by (simp add: decodeNumber_def dec_int_def word_unat_eq_iff)
next
  case False
  define n where "n = nat i"
  have n: "i = int n" "n < 2 ^ 31"
    using False assms(2) by (auto simp: n_def)
  have "sint (of_nat n :: 64 word) = int n" "unat (of_nat n :: 64 word) = n"
    using n(2) by (simp_all add: signed_of_nat signed_take_bit_int_eq_self unat_of_nat take_bit_nat_eq_self)
  then show ?thesis
    using n decode_digits_dec [of "2 ^ 64 - 1" n]
    by (simp add: decodeNumber_def dec_int_def dec_nat_no_minus word_le_nat_alt)
qed

lemma decodeNumber_uint:
  assumes "2 ^ 31 \<le> i" "i < 2 ^ 64"
  shows "decodeNumber io (dec_nat (nat i)) = Some (JUInt i)"
proof -
  define n where "n = nat i"
  have n: "i = int n" "2 ^ 31 \<le> n" "n < 2 ^ 64"
    using assms by (auto simp: n_def)
  have un: "unat (of_nat n :: 64 word) = n"
    using n(3) by (simp add: unat_of_nat take_bit_nat_eq_self)
  then have "uint (of_nat n :: 64 word) = int n"
    by (subst of_nat_unat [symmetric]) (simp only:)
  then show ?thesis
    using n un decode_digits_dec [of "2 ^ 64 - 1" n]
    by (simp add: decodeNumber_def dec_nat_no_minus word_le_nat_alt)
qed

end
