(* ===== verification/Json_Reader.thy ===== *)
theory Json_Reader
  imports Json_Text
begin

text \<open>
  \<open>helper/jsoncpp/jsoncpp.cpp\<close>: the class \<open>Json::Reader\<close> with the features \<open>Features::all()\<close> \<open>JsonDocument\<close>
  uses it with.  A function takes the text from \<open>current_\<close> to \<open>end_\<close> and returns what is left of it; a token is its type
  and its text.  A value that is read is returned with whether reading it succeeded, as it is
  left in the document when it failed.  The list of error messages and the comments a value keeps are left out: the
  program reads neither.
\<close>

datatype token_type = tokenEndOfStream | tokenObjectBegin | tokenObjectEnd | tokenArrayBegin | tokenArrayEnd
  | tokenString | tokenNumber | tokenTrue | tokenFalse | tokenNull | tokenArraySeparator | tokenMemberSeparator
  | tokenComment | tokenError

type_synonym token = "token_type \<times> string"

section \<open>Tokens\<close>

definition json_space :: "char \<Rightarrow> bool" where
  "json_space c \<longleftrightarrow> c = CHR '' '' \<or> c = CHR 0x09 \<or> c = CHR 0x0D \<or> c = CHR 0x0A"

definition skipSpaces :: "string \<Rightarrow> string" where
  "skipSpaces s = dropWhile json_space s"

definition getNextChar :: "string \<Rightarrow> char \<times> string" where
  "getNextChar s = (case s of [] \<Rightarrow> (CHR 0x00, []) | c # cs \<Rightarrow> (c, cs))"

definition match_text :: "string \<Rightarrow> string \<Rightarrow> bool \<times> string" where
  "match_text pattern s = (if prefix pattern s then (True, drop (length pattern) s) else (False, s))"

fun readString :: "char \<Rightarrow> string \<Rightarrow> bool \<times> string" where
  "readString c [] = (c = CHR 0x22, [])"
| "readString _ (c # cs) =
     (if c = CHR 0x5C then readString c (tl cs)
      else if c = CHR 0x22 then (True, cs)
      else readString c cs)"

text \<open>What \<open>*current_\<close> is at the end of the document, the NUL behind it, is neither a slash nor a line feed.\<close>

fun readCStyleComment :: "string \<Rightarrow> bool \<times> string" where
  "readCStyleComment [] = (False, [])"
| "readCStyleComment (c # cs) =
     (if c = CHR ''*'' \<and> cs \<noteq> [] \<and> hd cs = CHR ''/'' then (True, tl cs) else readCStyleComment cs)"

fun readCppStyleComment :: "string \<Rightarrow> string" where
  "readCppStyleComment [] = []"
| "readCppStyleComment (c # cs) =
     (if c = CHR 0x0A then cs
      else if c = CHR 0x0D then (if cs \<noteq> [] \<and> hd cs = CHR 0x0A then tl cs else cs)
      else readCppStyleComment cs)"

definition readComment :: "string \<Rightarrow> bool \<times> string" where
  "readComment s =
     (let (c, r) = getNextChar s in
      if c = CHR ''*'' then readCStyleComment r
      else if c = CHR ''/'' then (True, readCppStyleComment r)
      else (False, r))"

definition skip_digits :: "string \<Rightarrow> string" where
  "skip_digits s = dropWhile is_digit s"

definition starts_with :: "string \<Rightarrow> string \<Rightarrow> bool" where
  "starts_with cs s \<longleftrightarrow> s \<noteq> [] \<and> hd s \<in> set cs"

definition readNumber :: "string \<Rightarrow> string" where
  "readNumber s =
     (let r1 = skip_digits s;
          r2 = (if starts_with ''.'' r1 then skip_digits (tl r1) else r1)
      in if starts_with ''eE'' r2 then
           let r3 = tl r2 in skip_digits (if starts_with ''+-'' r3 then tl r3 else r3)
         else r2)"

definition token_at :: "char \<Rightarrow> string \<Rightarrow> token_type \<times> bool \<times> string" where
  "token_at c r =
     (if c = CHR ''{'' then (tokenObjectBegin, True, r)
      else if c = CHR ''}'' then (tokenObjectEnd, True, r)
      else if c = CHR ''['' then (tokenArrayBegin, True, r)
      else if c = CHR '']'' then (tokenArrayEnd, True, r)
      else if c = CHR 0x22 then (tokenString, readString (CHR 0x00) r)
      else if c = CHR ''/'' then (tokenComment, readComment r)
      else if is_digit c \<or> c = CHR ''-'' then (tokenNumber, True, readNumber r)
      else if c = CHR ''t'' then (tokenTrue, match_text ''rue'' r)
      else if c = CHR ''f'' then (tokenFalse, match_text ''alse'' r)
      else if c = CHR ''n'' then (tokenNull, match_text ''ull'' r)
      else if c = CHR '','' then (tokenArraySeparator, True, r)
      else if c = CHR '':'' then (tokenMemberSeparator, True, r)
      else if c = CHR 0x00 then (tokenEndOfStream, True, r)
      else (tokenError, False, r))"

definition readToken :: "string \<Rightarrow> token \<times> string" where
  "readToken s =
     (let start = skipSpaces s;
          (c, r) = getNextChar start;
          (type, ok, r') = token_at c r
      in ((if ok then type else tokenError, take (length start - length r') start), r'))"

section \<open>Reading makes progress\<close>

lemma readString_le: "length (snd (readString c s)) \<le> length s"
  by (induction c s rule: readString.induct) (auto intro: le_trans)

lemma readCStyleComment_le: "length (snd (readCStyleComment s)) \<le> length s"
  by (induction s rule: readCStyleComment.induct) auto

lemma readCppStyleComment_le: "length (readCppStyleComment s) \<le> length s"
  by (induction s rule: readCppStyleComment.induct) auto

lemma readComment_le: "length (snd (readComment s)) \<le> length s"
  using readCStyleComment_le [of "tl s"] readCppStyleComment_le [of "tl s"]
  by (cases s) (auto simp: readComment_def getNextChar_def)

lemma skip_digits_le: "length (skip_digits s) \<le> length s"
  by (simp add: skip_digits_def length_dropWhile_le)

lemma readNumber_le: "length (readNumber s) \<le> length s"
proof -
  have step: "length r \<le> n \<Longrightarrow> length (skip_digits r) \<le> n" "length r \<le> n \<Longrightarrow> length (tl r) \<le> n" for r n
    using skip_digits_le [of r] by auto
  show ?thesis
    by (auto simp: readNumber_def Let_def intro!: step simp del: length_tl)
qed

lemma token_at_le: "length (snd (snd (token_at c r))) \<le> length r"
  using readString_le readComment_le readNumber_le by (simp add: token_at_def match_text_def)

lemma snd_readToken:
  "snd (readToken s) = snd (snd (token_at (fst (getNextChar (skipSpaces s))) (snd (getNextChar (skipSpaces s)))))"
  by (simp add: readToken_def Let_def case_prod_unfold)

lemma skipSpaces_le: "length (skipSpaces s) \<le> length s"
  by (simp add: skipSpaces_def length_dropWhile_le)

lemma readToken_le: "length (snd (readToken s)) \<le> length s"
proof -
  have "length (snd (getNextChar (skipSpaces s))) \<le> length (skipSpaces s)"
    by (simp add: getNextChar_def split: list.split)
  then show ?thesis
    using token_at_le skipSpaces_le le_trans unfolding snd_readToken by metis
qed

lemma readToken_less:
  assumes "fst (fst (readToken s)) \<noteq> tokenEndOfStream"
  shows "length (snd (readToken s)) < length s"
proof (cases "skipSpaces s")
  case Nil
  then show ?thesis
    using assms by (simp add: readToken_def getNextChar_def token_at_def is_digit_def)
next
  case (Cons c cs)
  have "length (snd (readToken s)) \<le> length cs"
    using Cons token_at_le [of c cs] by (simp add: snd_readToken getNextChar_def)
  also have "\<dots> < length (skipSpaces s)"
    using Cons by simp
  finally show ?thesis
    using skipSpaces_le [of s] by simp
qed

section \<open>Comments and recovery\<close>

function skipCommentTokens :: "string \<Rightarrow> token \<times> string" where
  "skipCommentTokens s =
     (let t = readToken s in if fst (fst t) = tokenComment then skipCommentTokens (snd t) else t)"
  by pat_completeness auto
termination
  by (relation "measure length") (auto intro!: readToken_less)

declare skipCommentTokens.simps [simp del]

function recoverFromError :: "token_type \<Rightarrow> string \<Rightarrow> string" where
  "recoverFromError skipUntilToken s =
     (let t = readToken s in
      if fst (fst t) = skipUntilToken \<or> fst (fst t) = tokenEndOfStream then snd t
      else recoverFromError skipUntilToken (snd t))"
  by pat_completeness auto
termination
  by (relation "measure (length \<circ> snd)") (auto intro!: readToken_less)

declare recoverFromError.simps [simp del]

section \<open>Values\<close>

type_synonym value_reader = "json \<Rightarrow> string \<Rightarrow> (bool \<times> json \<times> string) outcome"

text \<open>What follows a member: its value is in the object whether it could be read or not.\<close>

definition object_next ::
    "((string \<times> json) list \<Rightarrow> string \<Rightarrow> (bool \<times> json \<times> string) outcome) \<Rightarrow> string \<Rightarrow> (string \<times> json) list \<Rightarrow>
     bool \<times> json \<times> string \<Rightarrow> (bool \<times> json \<times> string) outcome" where
  "object_next loop name m res =
     (case res of (ok, v, r) \<Rightarrow>
        let m' = amap_set name v m in
        if \<not> ok then Inr (False, JObject m', recoverFromError tokenObjectEnd r)
        else
          let (comma, r1) = readToken r in
          if fst comma \<noteq> tokenObjectEnd \<and> fst comma \<noteq> tokenArraySeparator \<and> fst comma \<noteq> tokenComment
          then Inr (False, JObject m', recoverFromError tokenObjectEnd r1)
          else
            let (comma', r2) = (if fst comma = tokenComment then skipCommentTokens r1 else (comma, r1)) in
            if fst comma' = tokenObjectEnd then Inr (True, JObject m', r2) else loop m' r2)"

text \<open>
  The loop of \<open>readObject\<close>: \<open>rv\<close> reads the value of a member, \<open>name\<close> is the name of the last one, \<open>m\<close> the members so far.
  The loop of \<open>readArray\<close> likewise.  The first argument bounds the rounds; a round takes a character
  of the text, so its length is enough.
\<close>

fun object_loop :: "nat \<Rightarrow> value_reader \<Rightarrow> string \<Rightarrow> (string \<times> json) list \<Rightarrow> string \<Rightarrow> (bool \<times> json \<times> string) outcome" where
  "object_loop 0 rv name m s = Inl Diverges"
| "object_loop (Suc n) rv name m s =
     (let (tokenName, r) = skipCommentTokens s in
      if fst tokenName = tokenObjectEnd \<and> name = [] then Inr (True, JObject m, r)
      else if fst tokenName \<noteq> tokenString then Inr (False, JObject m, recoverFromError tokenObjectEnd r)
      else case decodeString (snd tokenName) of
        None \<Rightarrow> Inr (False, JObject m, recoverFromError tokenObjectEnd r)
      | Some name' \<Rightarrow>
          let (colon, r1) = readToken r in
          if fst colon \<noteq> tokenMemberSeparator then Inr (False, JObject m, recoverFromError tokenObjectEnd r1)
          else obind (rv (case map_of m name' of None \<Rightarrow> JNull | Some v \<Rightarrow> v) r1)
                 (object_next (object_loop n rv name') name' m))"

definition array_next ::
    "(json list \<Rightarrow> string \<Rightarrow> (bool \<times> json \<times> string) outcome) \<Rightarrow> json list \<Rightarrow>
     bool \<times> json \<times> string \<Rightarrow> (bool \<times> json \<times> string) outcome" where
  "array_next loop vs res =
     (case res of (ok, v, r) \<Rightarrow>
        if \<not> ok then Inr (False, JArray (vs @ [v]), recoverFromError tokenArrayEnd r)
        else
          let (token, r1) = skipCommentTokens r in
          if fst token \<noteq> tokenArraySeparator \<and> fst token \<noteq> tokenArrayEnd
          then Inr (False, JArray (vs @ [v]), recoverFromError tokenArrayEnd r1)
          else if fst token = tokenArrayEnd then Inr (True, JArray (vs @ [v]), r1)
          else loop (vs @ [v]) r1)"

fun array_loop :: "nat \<Rightarrow> value_reader \<Rightarrow> json list \<Rightarrow> string \<Rightarrow> (bool \<times> json \<times> string) outcome" where
  "array_loop 0 rv vs s = Inl Diverges"
| "array_loop (Suc n) rv vs s = obind (rv JNull s) (array_next (array_loop n rv) vs)"

declare object_loop.simps [simp del] array_loop.simps [simp del]

definition readObject :: "value_reader \<Rightarrow> string \<Rightarrow> (bool \<times> json \<times> string) outcome" where
  "readObject rv s = object_loop (Suc (length s)) rv [] [] s"

definition readArray :: "value_reader \<Rightarrow> string \<Rightarrow> (bool \<times> json \<times> string) outcome" where
  "readArray rv s =
     (let s' = skipSpaces s in
      if starts_with '']'' s' then Inr (True, JArray [], snd (readToken s'))
      else array_loop (Suc (length s')) rv [] s')"

definition stackLimit_g :: nat where
  "stackLimit_g = 1000"

text \<open>\<open>readValue\<close> with \<open>stackLimit_g - stackDepth_g\<close> levels left: one level more throws a runtime error.\<close>

fun readValue :: "real_io \<Rightarrow> nat \<Rightarrow> value_reader" where
  "readValue io 0 old s = Inl Runtime_Error"
| "readValue io (Suc d) old s =
     (let (token, r) = skipCommentTokens s in
      case fst token of
        tokenObjectBegin \<Rightarrow> readObject (readValue io d) r
      | tokenArrayBegin \<Rightarrow> readArray (readValue io d) r
      | tokenNumber \<Rightarrow>
          (case decodeNumber io (snd token) of None \<Rightarrow> Inr (False, old, r) | Some v \<Rightarrow> Inr (True, v, r))
      | tokenString \<Rightarrow>
          (case decodeString (snd token) of None \<Rightarrow> Inr (False, old, r) | Some v \<Rightarrow> Inr (True, JString v, r))
      | tokenTrue \<Rightarrow> Inr (True, JBool True, r)
      | tokenFalse \<Rightarrow> Inr (True, JBool False, r)
      | tokenNull \<Rightarrow> Inr (True, JNull, r)
      | _ \<Rightarrow> Inr (False, old, r))"

text \<open>\<open>parse\<close>: \<open>strictRoot_\<close> is off, so any value will do, and nothing looks at the text behind it.\<close>

definition Reader_parse :: "real_io \<Rightarrow> string \<Rightarrow> json \<Rightarrow> (bool \<times> json) outcome" where
  "Reader_parse io document doc0 =
     obind (readValue io stackLimit_g doc0 document) (\<lambda>(successful, v, r). Inr (successful, v))"

section \<open>The reader returns\<close>

text \<open>What a reader of values promises: it returns or throws the runtime error, and a value takes text.\<close>

definition progressing :: "value_reader \<Rightarrow> bool" where
  "progressing rv \<longleftrightarrow> (\<forall>v s. case rv v s of
     Inl e \<Rightarrow> e = Runtime_Error
   | Inr (ok, v', r) \<Rightarrow> ok \<longrightarrow> length r < length s)"

definition finishes :: "(bool \<times> json \<times> string) outcome \<Rightarrow> nat \<Rightarrow> bool" where
  "finishes res n \<longleftrightarrow> (case res of Inl e \<Rightarrow> e = Runtime_Error | Inr (ok, v, r) \<Rightarrow> ok \<longrightarrow> length r < n)"

lemma finishes_simps [simp]:
  "finishes (Inr (False, v, r)) n" "finishes (Inr (True, v, r)) n \<longleftrightarrow> length r < n"
  "finishes (Inl e) n \<longleftrightarrow> e = Runtime_Error"
  by (simp_all add: finishes_def)

lemma finishes_mono: "finishes res n \<Longrightarrow> n \<le> k \<Longrightarrow> finishes res k"
  by (auto simp: finishes_def split: sum.splits)

lemma finishes_obind:
  assumes "progressing rv"
    and "\<And>v' r. rv v s = Inr (False, v', r) \<Longrightarrow> finishes (f (False, v', r)) n"
    and "\<And>v' r. rv v s = Inr (True, v', r) \<Longrightarrow> length r < length s \<Longrightarrow> finishes (f (True, v', r)) n"
  shows "finishes (obind (rv v s) f) n"
proof (cases "rv v s")
  case (Inl e)
  then show ?thesis
    using assms(1) by (auto simp: progressing_def dest!: spec [of _ v] spec [of _ s])
next
  case (Inr x)
  then show ?thesis
    using assms by (cases x; cases "fst x") (fastforce simp: progressing_def split: sum.splits)+
qed

lemma skipCommentTokens_less:
  "length (snd (skipCommentTokens s)) \<le> length s"
  "fst (fst (skipCommentTokens s)) \<noteq> tokenEndOfStream \<Longrightarrow> length (snd (skipCommentTokens s)) < length s"
proof (induction s rule: skipCommentTokens.induct)
  case (1 s)
  {
    case 1
    show ?case
      using "1.IH"(1) [OF refl] readToken_le [of s]
      by (subst skipCommentTokens.simps) (auto simp: Let_def)
  next
    case 2
    show ?case
      using 2 "1.IH"(1) [OF refl] readToken_less [of s]
      by (subst skipCommentTokens.simps, subst (asm) skipCommentTokens.simps)
        (auto simp: Let_def split: if_splits)
  }
qed

lemma object_next_finishes:
  assumes "\<And>m' r'. length r' < n \<Longrightarrow> finishes (loop m' r') n" "ok \<Longrightarrow> length r < n"
  shows "finishes (object_next loop name m (ok, v, r)) n"
proof -
  obtain mn mt r1 where comma: "readToken r = ((mn, mt), r1)"
    by (metis surj_pair)
  obtain fn ft r2 where comma': "(if mn = tokenComment then skipCommentTokens r1 else ((mn, mt), r1)) = ((fn, ft), r2)"
    by (metis surj_pair)
  have "length r2 \<le> length r1"
    using comma' skipCommentTokens_less(1) [of r1] by (auto split: if_splits)
  then have "ok \<Longrightarrow> length r2 < n"
    using assms(2) readToken_le [of r] comma by simp
  then show ?thesis
    using comma' assms(1) [of r2] by (auto simp: object_next_def comma Let_def)
qed

lemma object_loop_finishes:
  assumes "progressing rv" "length s < n"
  shows "finishes (object_loop n rv name m s) (length s)"
  using assms(2)
proof (induction n arbitrary: name m s)
  case (Suc n)
  obtain tn nt r where tok: "skipCommentTokens s = ((tn, nt), r)"
    by (metis surj_pair)
  obtain cn ct r1 where colon: "readToken r = ((cn, ct), r1)"
    by (metis surj_pair)
  have r: "tn \<noteq> tokenEndOfStream \<Longrightarrow> length r < length s" and r1: "length r1 \<le> length r"
    using skipCommentTokens_less(2) [of s] readToken_le [of r] by (auto simp: tok colon)
  have "finishes (obind (rv w r1) (object_next (object_loop n rv name') name' m)) (length s)"
    if "tn \<noteq> tokenEndOfStream" for w name'
  proof (rule finishes_obind [OF assms(1)])
    fix v' :: json and r2 :: string
    assume "length r2 < length r1"
    with that r r1 Suc.prems show "finishes (object_next (object_loop n rv name') name' m (True, v', r2)) (length s)"
      by (intro object_next_finishes) (auto intro!: finishes_mono [OF Suc.IH])
  qed (simp add: object_next_def)
  with r show ?case
    by (auto simp: object_loop.simps tok colon split: option.split)
qed simp

lemma array_loop_finishes:
  assumes "progressing rv" "length s < n"
  shows "finishes (array_loop n rv vs s) (length s)"
  using assms(2)
proof (induction n arbitrary: vs s)
  case (Suc n)
  show ?case
    unfolding array_loop.simps
  proof (rule finishes_obind [OF assms(1)])
    fix v' :: json and r :: string
    assume r: "length r < length s"
    obtain tn tt r1 where tok: "skipCommentTokens r = ((tn, tt), r1)"
      by (metis surj_pair)
    have "length r1 < length s"
      using r skipCommentTokens_less(1) [of r] by (simp add: tok)
    then show "finishes (array_next (array_loop n rv) vs (True, v', r)) (length s)"
      using Suc.prems by (auto simp: array_next_def tok intro!: finishes_mono [OF Suc.IH])
  qed (simp add: array_next_def)
qed simp

lemma progressing_iff: "progressing rv \<longleftrightarrow> (\<forall>v s. finishes (rv v s) (length s))"
  by (simp add: progressing_def finishes_def)

lemma readArray_finishes: "progressing rv \<Longrightarrow> finishes (readArray rv s) (Suc (length s))"
  using readToken_le [of "skipSpaces s"] skipSpaces_le [of s] 
    finishes_mono [OF array_loop_finishes [of rv "skipSpaces s" "Suc (length (skipSpaces s))" "[]"], of "Suc (length s)"]
  by (simp add: readArray_def Let_def)

lemma readValue_progressing: "progressing (readValue io d)"
proof (induction d)
  case 0
  show ?case by (simp add: progressing_iff)
next
  case (Suc d)
  have "finishes (readValue io (Suc d) old s) (length s)" for old s
  proof -
    obtain tn tt r where tok: "skipCommentTokens s = ((tn, tt), r)"
      by (metis surj_pair)
    have r: "tn \<noteq> tokenEndOfStream \<Longrightarrow> length r < length s"
      using skipCommentTokens_less(2) [of s] by (simp add: tok)
    then have "tn \<noteq> tokenEndOfStream \<Longrightarrow> finishes (readObject (readValue io d) r) (length s)"
      "tn \<noteq> tokenEndOfStream \<Longrightarrow> finishes (readArray (readValue io d) r) (length s)"
      using finishes_mono [OF object_loop_finishes [OF Suc, of r "Suc (length r)" "[]" "[]"], of "length s"]
        finishes_mono [OF readArray_finishes [OF Suc, of r], of "length s"]
      by (simp_all add: readObject_def)
    then show ?thesis
      using r by (cases tn) (auto simp: tok split: option.split)
  qed
  then show ?case by (simp add: progressing_iff)
qed

section \<open>Properties\<close>

text \<open>C29: The reader returns on every text, well-formed or not: no loop of it goes on for ever, and nothing but the
  limit of its depth makes it throw.\<close>

theorem reader_returns: "Reader_parse io doc v = Inl Runtime_Error \<or> (\<exists>ok v'. Reader_parse io doc v = Inr (ok, v'))"
  using readValue_progressing [of io stackLimit_g]
  by (cases "readValue io stackLimit_g v doc") (auto simp: progressing_iff finishes_def Reader_parse_def dest!: spec [of _ v] spec [of _ doc])

end
