(* ===== verification/Json_Syntax.thy ===== *)
theory Json_Syntax
  imports Json_Reader
begin

text \<open>
  A grammar of the JSON texts that stand for a value, with any white space between the tokens, and the
  reader's correctness for it: a text of the grammar is read to its value whatever follows it, as
  long as the value is not nested deeper than the reader's limit, and a text nested deeper throws.
\<close>

section \<open>The grammar\<close>

abbreviation spaces :: "string \<Rightarrow> bool" where
  "spaces w \<equiv> list_all json_space w"

text \<open>What may follow a number.\<close>

definition delimited :: "string \<Rightarrow> bool" where
  "delimited r \<longleftrightarrow> r = [] \<or> json_space (hd r) \<or> hd r \<in> set '',]}''"

definition number_text :: "string \<Rightarrow> bool" where
  "number_text t \<longleftrightarrow> t \<noteq> [] \<and> (is_digit (hd t) \<or> hd t = CHR ''-'') \<and> readNumber (tl t) = []"

inductive json_text :: "real_io \<Rightarrow> json \<Rightarrow> string \<Rightarrow> bool"
  and json_elements :: "real_io \<Rightarrow> json list \<Rightarrow> string \<Rightarrow> bool"
  and json_members :: "real_io \<Rightarrow> (string \<times> json) list \<Rightarrow> string \<Rightarrow> bool"
  for io where
  text_null: "json_text io JNull ''null''"
| text_true: "json_text io (JBool True) ''true''"
| text_false: "json_text io (JBool False) ''false''"
| text_number: "number_text t \<Longrightarrow> decodeNumber io t = Some v \<Longrightarrow> json_text io v t"
| text_string: "json_text io (JString s) (valueToQuotedStringN s)"
| text_empty_array: "spaces w \<Longrightarrow> json_text io (JArray []) (CHR ''['' # w @ '']'')"
| text_array: "json_elements io vs t \<Longrightarrow> json_text io (JArray vs) (CHR ''['' # t @ '']'')"
| text_empty_object: "spaces w \<Longrightarrow> json_text io (JObject []) (CHR ''{'' # w @ ''}'')"
| text_object: "json_members io ms t \<Longrightarrow> amap_ok ms \<Longrightarrow> json_text io (JObject ms) (CHR ''{'' # t @ ''}'')"
| last_element: "spaces w \<Longrightarrow> spaces w' \<Longrightarrow> json_text io v t \<Longrightarrow> json_elements io [v] (w @ t @ w')"
| more_elements: "spaces w \<Longrightarrow> spaces w' \<Longrightarrow> json_text io v t \<Longrightarrow> json_elements io vs ts \<Longrightarrow>
    json_elements io (v # vs) (w @ t @ w' @ CHR '','' # ts)"
| last_member: "spaces w \<Longrightarrow> spaces w1 \<Longrightarrow> spaces w2 \<Longrightarrow> spaces w' \<Longrightarrow> json_text io v t \<Longrightarrow>
    json_members io [(k, v)] (w @ valueToQuotedStringN k @ w1 @ CHR '':'' # w2 @ t @ w')"
| more_members: "spaces w \<Longrightarrow> spaces w1 \<Longrightarrow> spaces w2 \<Longrightarrow> spaces w' \<Longrightarrow> json_text io v t \<Longrightarrow>
    json_members io ms ts \<Longrightarrow>
    json_members io ((k, v) # ms) (w @ valueToQuotedStringN k @ w1 @ CHR '':'' # w2 @ t @ w' @ CHR '','' # ts)"

fun json_depth :: "json \<Rightarrow> nat" where
  "json_depth (JArray vs) = Suc (fold max (map json_depth vs) 0)"
| "json_depth (JObject ms) = Suc (fold max (map (\<lambda>m. json_depth (snd m)) ms) 0)"
| "json_depth _ = 1"

lemma fold_max_le: "fold max xs n \<le> k \<longleftrightarrow> n \<le> k \<and> (\<forall>x \<in> set xs. x \<le> (k :: nat))"
  by (induction xs arbitrary: n) auto

lemma json_depth_le [simp]:
  "json_depth (JArray vs) \<le> Suc d \<longleftrightarrow> (\<forall>v \<in> set vs. json_depth v \<le> d)"
  "json_depth (JObject ms) \<le> Suc d \<longleftrightarrow> (\<forall>m \<in> set ms. json_depth (snd m) \<le> d)"
  by (simp_all add: json_depth.simps fold_max_le)

declare json_depth.simps(1,2) [simp del]

lemma json_depth_pos: "0 < json_depth v"
  by (cases v) (auto simp: json_depth.simps)

section \<open>Tokens of the grammar\<close>

lemma skipSpaces_append: "spaces w \<Longrightarrow> skipSpaces (w @ s) = skipSpaces s"
  by (simp add: skipSpaces_def dropWhile_append list_all_iff)

lemma readToken_spaces: "spaces w \<Longrightarrow> readToken (w @ s) = readToken s"
  by (simp add: readToken_def skipSpaces_append)

lemma skipComment_spaces: "spaces w \<Longrightarrow> skipCommentTokens (w @ s) = skipCommentTokens s"
  by (simp add: skipCommentTokens.simps [of "w @ s"] skipCommentTokens.simps [of s] readToken_spaces)

lemma readValue_spaces: "spaces w \<Longrightarrow> readValue io d old (w @ s) = readValue io d old s"
  by (cases d) (simp_all add: skipComment_spaces)

lemma skipSpaces_other [simp]: "\<not> json_space c \<Longrightarrow> skipSpaces (c # s) = c # s"
  by (simp add: skipSpaces_def)

lemma readToken_char:
  "\<not> json_space c \<Longrightarrow> token_at c r = (type, True, r') \<Longrightarrow>
     readToken (c # r) = ((type, take (Suc (length r) - length r') (c # r)), r')"
  by (simp add: readToken_def getNextChar_def)

lemma punctuation [simp]:
  "readToken (CHR ''{'' # r) = ((tokenObjectBegin, ''{''), r)" "readToken (CHR ''}'' # r) = ((tokenObjectEnd, ''}''), r)"
  "readToken (CHR ''['' # r) = ((tokenArrayBegin, ''[''), r)" "readToken (CHR '']'' # r) = ((tokenArrayEnd, '']''), r)"
  "readToken (CHR '','' # r) = ((tokenArraySeparator, '',''), r)"
  "readToken (CHR '':'' # r) = ((tokenMemberSeparator, '':''), r)"
  by (simp_all add: readToken_char json_space_def token_at_def is_digit_def Suc_diff_le)

lemma skipComment_readToken: "fst (fst (readToken s)) \<noteq> tokenComment \<Longrightarrow> skipCommentTokens s = readToken s"
  by (simp add: skipCommentTokens.simps [of s] Let_def)

lemma hex_upper_plain: "n < 16 \<Longrightarrow> hex_upper n \<noteq> CHR 0x22 \<and> hex_upper n \<noteq> CHR 0x5C"
proof -
  assume "n < 16"
  moreover have "list_all (\<lambda>n. hex_upper n \<noteq> CHR 0x22 \<and> hex_upper n \<noteq> CHR 0x5C) [0..<16]" by code_simp
  ultimately show ?thesis by (simp add: list_all_iff)
qed

lemma readString_quoted: "readString c (concat (map quote_char s) @ CHR 0x22 # r) = (True, r)"
proof (induction s arbitrary: c)
  case (Cons a s)
  have "of_char a div 16 < (16 :: nat)" "of_char a mod 16 < (16 :: nat)"
    by simp_all
  with Cons show ?case
    by (simp add: quote_char_def hex_upper_plain)
qed simp

lemma readToken_quoted: "readToken (valueToQuotedStringN s @ r) = ((tokenString, valueToQuotedStringN s), r)"
  by (simp add: quoted_eq readToken_char json_space_def token_at_def readString_quoted)

lemma skip_digits_append: "delimited r \<Longrightarrow> skip_digits (s @ r) = skip_digits s @ r"
  by (cases r) (auto simp: skip_digits_def delimited_def dropWhile_append json_space_def is_digit_def)

lemma starts_append: "delimited r \<Longrightarrow> set cs \<subseteq> set ''.eE+-'' \<Longrightarrow> starts_with cs (s @ r) = starts_with cs s"
  by (cases s; cases r) (auto simp: starts_with_def delimited_def json_space_def)

lemma tl_append_starts: "starts_with cs s \<Longrightarrow> tl (s @ r) = tl s @ r"
  by (auto simp: starts_with_def)

lemma readNumber_append: "delimited r \<Longrightarrow> readNumber (s @ r) = readNumber s @ r"
  by (simp add: readNumber_def Let_def skip_digits_append starts_append tl_append_starts)

lemma readToken_number:
  assumes "number_text t" "delimited r"
  shows "readToken (t @ r) = ((tokenNumber, t), r)"
proof -
  obtain c cs where t: "t = c # cs" "is_digit c \<or> c = CHR ''-''" "readNumber cs = []"
    using assms(1) by (cases t) (auto simp: number_text_def)
  then have "token_at c (cs @ r) = (tokenNumber, True, r)" "\<not> json_space c"
    using assms(2) by (auto simp: token_at_def readNumber_append is_digit_def json_space_def)
  then show ?thesis
    by (simp add: t(1) readToken_char)
qed

lemma readToken_literals:
  "readToken (''null'' @ r) = ((tokenNull, ''null''), r)" "readToken (''true'' @ r) = ((tokenTrue, ''true''), r)"
  "readToken (''false'' @ r) = ((tokenFalse, ''false''), r)"
  by (simp_all add: readToken_char json_space_def token_at_def match_text_def is_digit_def)

lemmas grammar_tokens = skipComment_readToken readToken_quoted readToken_number readToken_literals readToken_spaces
  skipComment_spaces readValue_spaces skipSpaces_append

section \<open>Reading a text of the grammar\<close>

lemma delimited_spaces [simp]:
  "spaces w \<Longrightarrow> delimited (w @ CHR '','' # r)" "spaces w \<Longrightarrow> delimited (w @ CHR '']'' # r)"
  "spaces w \<Longrightarrow> delimited (w @ CHR ''}'' # r)" "delimited []"
  by (cases w; simp add: delimited_def)+

lemma readValue_Suc: "0 < d \<Longrightarrow> readValue io d = readValue io (Suc (d - 1))"
  by simp

lemma text_not_bracket: "json_text io v t \<Longrightarrow> \<not> starts_with '']'' (t @ r)"
  by (cases rule: json_text.cases) (auto simp: starts_with_def number_text_def quoted_eq is_digit_def)

lemma readValue_skip: "readValue io d old (skipSpaces s) = readValue io d old s"
proof -
  have "readValue io d old (takeWhile json_space s @ skipSpaces s) = readValue io d old (skipSpaces s)"
    by (rule readValue_spaces) (auto simp: list_all_iff dest: set_takeWhileD)
  moreover have "takeWhile json_space s @ skipSpaces s = s"
    by (simp add: skipSpaces_def)
  ultimately show ?thesis by simp
qed

lemma array_loop_skip: "array_loop n (readValue io d) vs (skipSpaces s) = array_loop n (readValue io d) vs s"
  by (cases n) (simp_all add: array_loop.simps readValue_skip)

lemma text_first: "json_text io v t \<Longrightarrow> \<exists>c cs. t = c # cs \<and> \<not> json_space c"
  by (cases rule: json_text.cases) (auto simp: number_text_def quoted_eq is_digit_def json_space_def neq_Nil_conv)

lemma text_skip: "json_text io v t \<Longrightarrow> skipSpaces (t @ r) = t @ r"
  using text_first [of io v t] by auto

lemma elements_first:
  assumes "json_elements io vs t"
  shows "\<not> starts_with '']'' (skipSpaces (t @ r))"
  using assms
proof (cases rule: json_elements.cases)
  case (last_element w w' v ta)
  then show ?thesis
    using text_not_bracket [of io v ta] by (simp add: skipSpaces_append text_skip)
next
  case (more_elements w w' v ta vsa ts)
  then show ?thesis
    using text_not_bracket [of io v ta] by (simp add: skipSpaces_append text_skip)
qed

lemma text_length:
  "json_text io v t \<Longrightarrow> True"
  "json_elements io vs t \<Longrightarrow> vs \<noteq> [] \<and> length vs \<le> length (skipSpaces (t @ r))"
  "json_members io ms t \<Longrightarrow> ms \<noteq> [] \<and> length ms \<le> length t"
proof (induction arbitrary: and r rule: json_text_json_elements_json_members.inducts)
  case (last_element w w' v t)
  then show ?case
    using text_first [of io v t] by (auto simp: skipSpaces_append text_skip)
next
  case (more_elements w w' v t vs ts)
  have "length vs \<le> length (ts @ r)"
    using skipSpaces_le [of "ts @ r"] more_elements(6) [of r] by linarith
  with more_elements(1-3) show ?case
    using text_first [of io v t] by (auto simp: skipSpaces_append text_skip)
qed auto

lemma amap_set_last: "amap_ok m \<Longrightarrow> \<forall>e \<in> set m. fst e < k \<Longrightarrow> amap_set k v m = m @ [(k, v)]"
  by (induction m) (auto simp: amap_ok_Cons)

lemma fold_amap_set: "amap_ok ms \<Longrightarrow> fold (\<lambda>(k, v). amap_set k v) ms [] = ms"
proof (induction ms rule: rev_induct)
  case (snoc m ms)
  then have "amap_ok ms" "\<forall>e \<in> set ms. fst e < fst m"
    by (auto simp: amap_ok_def sorted_wrt_append)
  with snoc show ?case
    by (cases m) (simp add: amap_set_last)
qed simp

lemma reads_text:
  "json_text io v t \<Longrightarrow> delimited r \<Longrightarrow>
     readValue io d old (t @ r) = (if json_depth v \<le> d then Inr (True, v, r) else Inl Runtime_Error)"
  "json_elements io vs t \<Longrightarrow> length vs \<le> n \<Longrightarrow>
     array_loop n (readValue io d) us (t @ CHR '']'' # r) =
       (if \<forall>v \<in> set vs. json_depth v \<le> d then Inr (True, JArray (us @ vs), r) else Inl Runtime_Error)"
  "json_members io ms t \<Longrightarrow> length ms \<le> n \<Longrightarrow>
     object_loop n (readValue io d) name m (t @ CHR ''}'' # r) =
       (if \<forall>m \<in> set ms. json_depth (snd m) \<le> d then Inr (True, JObject (fold (\<lambda>(k, v). amap_set k v) ms m), r)
        else Inl Runtime_Error)"
proof (induction arbitrary: d r old and d n us r and d n name m r rule: json_text_json_elements_json_members.inducts)
  case text_null
  then show ?case by (cases d) (simp_all add: grammar_tokens del: append.simps)
next
  case text_true
  then show ?case by (cases d) (simp_all add: grammar_tokens del: append.simps)
next
  case text_false
  then show ?case by (cases d) (simp_all add: grammar_tokens del: append.simps)
next
  case (text_number t v)
  have "json_depth v = 1"
    using text_number(2) by (auto simp: decodeNumber_def decodeDouble_def Let_def split: option.splits if_splits)
  with text_number show ?case by (cases d) (simp_all add: grammar_tokens)
next
  case (text_string s)
  then show ?case by (cases d) (simp_all add: grammar_tokens)
next
  case (text_empty_array w)
  then show ?case by (cases d) (simp_all add: grammar_tokens readArray_def starts_with_def json_space_def json_depth.simps)
next
  case (text_array vs t)
  have "length vs \<le> Suc (length (skipSpaces (t @ CHR '']'' # r)))"
    using text_length(2) [OF text_array(1), of "CHR '']'' # r"] by simp
  from text_array(2) [OF this] show ?case
    by (cases d) (simp_all add: grammar_tokens readArray_def elements_first [OF text_array(1)] array_loop_skip Let_def
        json_depth.simps(1) fold_max_le)
next
  case (text_empty_object w)
  then show ?case by (cases d) (simp_all add: grammar_tokens readObject_def object_loop.simps json_depth.simps)
next
  case (text_object ms t)
  have "length ms \<le> Suc (length (t @ CHR ''}'' # r))"
    using text_length(3) [OF text_object(1)] by simp
  from text_object(2) [OF this] show ?case
    by (cases d) (simp_all add: grammar_tokens readObject_def fold_amap_set [OF text_object(3)] json_depth.simps(2) fold_max_le)
next
  case (last_element w w' v t)
  then show ?case
    by (cases n) (simp_all add: array_loop.simps array_next_def grammar_tokens)
next
  case (more_elements w w' v t vs ts)
  then show ?case
    by (cases n) (simp_all add: array_loop.simps array_next_def grammar_tokens)
next
  case (last_member w w1 w2 w' v t k)
  then show ?case
    by (cases n) (simp_all add: object_loop.simps object_next_def grammar_tokens)
next
  case (more_members w w1 w2 w' v t ms ts k)
  then show ?case
    by (cases n) (simp_all add: object_loop.simps object_next_def grammar_tokens)
qed

section \<open>Properties\<close>


text \<open>An array of arrays, \<open>n\<close> levels deep, and its text.\<close>

primrec nested :: "nat \<Rightarrow> json" where
  "nested 0 = JArray []"
| "nested (Suc n) = JArray [nested n]"

definition nested_text :: "nat \<Rightarrow> string" where
  "nested_text n = replicate (Suc n) (CHR ''['') @ replicate (Suc n) (CHR '']'')"

lemma json_text_nested: "json_text io (nested n) (nested_text n)"
proof (induction n)
  case 0
  then show ?case
    using text_empty_array [of "[]" io] by (simp add: nested_text_def)
next
  case (Suc n)
  then show ?case
    using text_array [OF last_element [of "[]" "[]" io "nested n" "nested_text n"]]
    by (simp add: nested_text_def replicate_append_same)
qed

lemma json_depth_nested [simp]: "json_depth (nested n) = Suc n"
  by (induction n) (simp_all add: json_depth.simps)


end
