(* ===== verification/Json_Writer.thy ===== *)
theory Json_Writer
  imports Json_Syntax
begin

text \<open>
  \<open>helper/jsoncpp/jsoncpp.cpp\<close>: \<open>BuiltStyledStreamWriter\<close>, the writer \<open>JsonDocument::Write\<close> gets from
  \<open>StreamWriterBuilder\<close> with the comment style \<open>None\<close>, and that what it writes is a text of the grammar of the value, so
  that the reader gives the value back (\<open>Json_Document\<close>).  The values are without comments.
\<close>

section \<open>The writer\<close>

record json_style =
  st_indentation :: string
  st_colonSymbol :: string
  st_nullSymbol :: string
  st_endingLineFeedSymbol :: string

definition rightMargin :: int where
  "rightMargin = 74"

text \<open>\<open>newStreamWriter\<close> with the settings for YAML and for null values.\<close>

definition newStreamWriter :: "string \<Rightarrow> bool \<Rightarrow> bool \<Rightarrow> json_style" where
  "newStreamWriter indentation eyc dnp =
     \<lparr>st_indentation = indentation,
      st_colonSymbol = (if eyc then '': '' else if indentation = [] then '':'' else '' : ''),
      st_nullSymbol = (if dnp then [] else ''null''),
      st_endingLineFeedSymbol = []\<rparr>"

record json_out =
  wr_sout :: string
  wr_childValues :: "string list"
  wr_indentString :: string
  wr_addChildValues :: bool
  wr_indented :: bool

definition put :: "string \<Rightarrow> json_out \<Rightarrow> json_out" where
  "put t w = w\<lparr>wr_sout := wr_sout w @ t\<rparr>"

definition pushValue :: "string \<Rightarrow> json_out \<Rightarrow> json_out" where
  "pushValue t w = (if wr_addChildValues w then w\<lparr>wr_childValues := wr_childValues w @ [t]\<rparr> else put t w)"

definition writeIndent :: "json_style \<Rightarrow> json_out \<Rightarrow> json_out" where
  "writeIndent st w = (if st_indentation st \<noteq> [] then put (CHR 0x0A # wr_indentString w) w else w)"

definition writeWithIndent :: "json_style \<Rightarrow> string \<Rightarrow> json_out \<Rightarrow> json_out" where
  "writeWithIndent st t w = (put t (if wr_indented w then w else writeIndent st w))\<lparr>wr_indented := False\<rparr>"

definition indent :: "json_style \<Rightarrow> json_out \<Rightarrow> json_out" where
  "indent st w = w\<lparr>wr_indentString := wr_indentString w @ st_indentation st\<rparr>"

definition unindent :: "json_style \<Rightarrow> json_out \<Rightarrow> json_out" where
  "unindent st w = w\<lparr>wr_indentString := take (length (wr_indentString w) - length (st_indentation st)) (wr_indentString w)\<rparr>"

text \<open>The number of children of a container, and whether an array has one that needs lines of its own.\<close>

definition nonempty_container :: "json \<Rightarrow> bool" where
  "nonempty_container v = (case v of JArray vs \<Rightarrow> vs \<noteq> [] | JObject ms \<Rightarrow> ms \<noteq> [] | _ \<Rightarrow> False)"

definition put_line :: "json_style \<Rightarrow> json_out \<Rightarrow> json_out" where
  "put_line st w =
     (let pad = (if st_indentation st \<noteq> [] then '' '' else []);
          fields = concat (map (\<lambda>(i, c). (if 0 < i then '', '' else []) @ c) (enumerate 0 (wr_childValues w)))
      in put (''['' @ pad @ fields @ pad @ '']'') w)"

fun writeValue :: "json_style \<Rightarrow> real_io \<Rightarrow> json \<Rightarrow> json_out \<Rightarrow> json_out"
  and write_members :: "json_style \<Rightarrow> real_io \<Rightarrow> (string \<times> json) list \<Rightarrow> json_out \<Rightarrow> json_out"
  and push_children :: "json_style \<Rightarrow> real_io \<Rightarrow> json list \<Rightarrow> json_out \<Rightarrow> json_out"
  and write_elements :: "json_style \<Rightarrow> real_io \<Rightarrow> bool \<Rightarrow> nat \<Rightarrow> json list \<Rightarrow> json_out \<Rightarrow> json_out" where
  "writeValue st io JNull w = pushValue (st_nullSymbol st) w"
| "writeValue st io (JInt i) w = pushValue (valueToString_int i) w"
| "writeValue st io (JUInt i) w = pushValue (valueToString_uint i) w"
| "writeValue st io (JReal r) w = pushValue (valueToString_real io r) w"
| "writeValue st io (JString s) w = pushValue (valueToQuotedStringN s) w"
| "writeValue st io (JBool b) w = pushValue (if b then ''true'' else ''false'') w"
| "writeValue st io (JObject ms) w =
     (if ms = [] then pushValue ''{}'' w
      else writeWithIndent st ''}'' (unindent st (write_members st io ms (indent st (writeWithIndent st ''{'' w)))))"
| "writeValue st io (JArray vs) w =
     (if vs = [] then pushValue ''[]'' w
      else
        let short = (int (length vs) * 3 < rightMargin \<and> \<not> list_ex nonempty_container vs);
            w0 = w\<lparr>wr_childValues := []\<rparr>;
            w1 = (if short then (push_children st io vs (w0\<lparr>wr_addChildValues := True\<rparr>))\<lparr>wr_addChildValues := False\<rparr> else w0);
            lineLength = 4 + (int (length vs) - 1) * 2 + sum_list (map (\<lambda>c. int (length c)) (wr_childValues w1))
        in if short \<and> lineLength < rightMargin then put_line st w1
           else
             let w2 = indent st (writeWithIndent st ''['' w1)
             in writeWithIndent st '']'' (unindent st (write_elements st io (wr_childValues w2 \<noteq> []) 0 vs w2)))"
| "write_members st io [] w = w"
| "write_members st io (m # ms) w =
     (let w1 = writeValue st io (snd m) (put (st_colonSymbol st) (writeWithIndent st (valueToQuotedStringN (fst m)) w))
      in if ms = [] then w1 else write_members st io ms (put '','' w1))"
| "push_children st io [] w = w"
| "push_children st io (v # vs) w = push_children st io vs (writeValue st io v w)"
| "write_elements st io hasChildValue index [] w = w"
| "write_elements st io hasChildValue index (v # vs) w =
     (let w1 = (if hasChildValue then writeWithIndent st (wr_childValues w ! index) w
                else (writeValue st io v ((if wr_indented w then w else writeIndent st w)\<lparr>wr_indented := True\<rparr>))
                       \<lparr>wr_indented := False\<rparr>)
      in if vs = [] then w1 else write_elements st io hasChildValue (Suc index) vs (put '','' w1))"

definition writeString :: "json_style \<Rightarrow> real_io \<Rightarrow> json \<Rightarrow> string" where
  "writeString st io root_value =
     wr_sout (put (st_endingLineFeedSymbol st) (writeValue st io root_value
       \<lparr>wr_sout = [], wr_childValues = [], wr_indentString = [], wr_addChildValues = False, wr_indented = True\<rparr>))"

section \<open>The values that can be read back\<close>

text \<open>The integers in the range the reader takes for their type, the reals the C++ library prints and reads
  exactly, and objects in key order, as a \<open>std::map\<close> keeps them.\<close>

fun writable :: "real_io \<Rightarrow> json \<Rightarrow> bool" where
  "writable io (JInt i) = (- (2 ^ 63) \<le> i \<and> i < 2 ^ 31)"
| "writable io (JUInt i) = (2 ^ 31 \<le> i \<and> i < 2 ^ 64)"
| "writable io (JReal r) = (number_text (valueToString_real io r) \<and> decodeNumber io (valueToString_real io r) = Some (JReal r))"
| "writable io (JArray vs) = list_all (writable io) vs"
| "writable io (JObject ms) = (amap_ok ms \<and> list_all (\<lambda>m. writable io (snd m)) ms)"
| "writable io _ = True"

definition style_ok :: "json_style \<Rightarrow> bool" where
  "style_ok st \<longleftrightarrow> spaces (st_indentation st) \<and> st_nullSymbol st = ''null'' \<and> st_endingLineFeedSymbol st = [] \<and>
     (\<exists>g g'. spaces g \<and> spaces g' \<and> st_colonSymbol st = g @ CHR '':'' # g')"

lemma newStreamWriter_ok: "spaces indentation \<Longrightarrow> style_ok (newStreamWriter indentation eyc False)"
  unfolding style_ok_def newStreamWriter_def
  by (auto intro: exI [of _ "[]"] exI [of _ "'' ''"] simp: json_space_def)

section \<open>Leaves\<close>

lemma skip_digits_dec: "skip_digits (dec_nat n) = []" "skip_digits (tl (dec_nat n)) = []"
  using dec_nat_digits [of n] by (cases "dec_nat n"; auto simp: skip_digits_def list_all_iff)+

lemma readNumber_digits: "skip_digits s = [] \<Longrightarrow> readNumber s = []"
  by (simp add: readNumber_def starts_with_def)

lemma number_text_dec: "number_text (dec_nat n)" "number_text (dec_int i)"
proof -
  show nat: "number_text (dec_nat n)" for n
    using dec_nat_digits [of n] by (cases "dec_nat n") (auto simp: number_text_def readNumber_digits skip_digits_def list_all_iff)
  show "number_text (dec_int i)"
    using nat by (simp add: dec_int_def) (simp add: number_text_def readNumber_digits skip_digits_dec)
qed

definition leaf_text :: "json_style \<Rightarrow> real_io \<Rightarrow> json \<Rightarrow> string" where
  "leaf_text st io v = (case v of
     JNull \<Rightarrow> st_nullSymbol st | JInt i \<Rightarrow> valueToString_int i | JUInt i \<Rightarrow> valueToString_uint i
   | JReal r \<Rightarrow> valueToString_real io r | JString s \<Rightarrow> valueToQuotedStringN s
   | JBool b \<Rightarrow> (if b then ''true'' else ''false'') | JArray _ \<Rightarrow> ''[]'' | JObject _ \<Rightarrow> ''{}'')"

lemma writeValue_leaf: "\<not> nonempty_container v \<Longrightarrow> writeValue st io v w = pushValue (leaf_text st io v) w"
  by (cases v) (simp_all add: nonempty_container_def leaf_text_def)

lemma json_text_leaf:
  assumes "\<not> nonempty_container v" "writable io v" "style_ok st"
  shows "json_text io v (leaf_text st io v)"
proof (cases v)
  case (JInt i)
  then show ?thesis
    using assms(2) by (auto simp: leaf_text_def valueToString_int_dec number_text_dec decodeNumber_int intro!: text_number)
next
  case (JUInt i)
  then show ?thesis
    using assms(2) by (auto simp: leaf_text_def valueToString_uint_dec number_text_dec decodeNumber_uint intro!: text_number)
next
  case (JReal r)
  then show ?thesis
    using assms(2) by (auto simp: leaf_text_def intro!: text_number)
next
  case (JArray vs)
  then show ?thesis
    using assms(1) text_empty_array [of "[]" io] by (simp add: leaf_text_def nonempty_container_def)
next
  case (JObject ms)
  then show ?thesis
    using assms(1) text_empty_object [of "[]" io] by (simp add: leaf_text_def nonempty_container_def)
qed (use assms(3) in \<open>simp_all add: leaf_text_def style_ok_def text_null text_true text_false text_string\<close>)

lemma push_children_leaves:
  assumes "wr_addChildValues w" "\<not> list_ex nonempty_container vs"
  shows "push_children st io vs w = w\<lparr>wr_childValues := wr_childValues w @ map (leaf_text st io) vs\<rparr>"
  using assms by (induction vs arbitrary: w) (simp_all add: writeValue_leaf pushValue_def)

text \<open>An array on one line.\<close>

definition more_fields :: "string list \<Rightarrow> string" where
  "more_fields ts = concat (map (\<lambda>c. '', '' @ c) ts)"

lemma fields_eq:
  "0 < n \<Longrightarrow> concat (map (\<lambda>(i, c). (if 0 < i then '', '' else []) @ c) (enumerate n ts)) = more_fields ts"
  by (induction ts arbitrary: n) (simp_all add: more_fields_def)

lemma line_elements:
  "list_all2 (json_text io) (v # vs) (t # ts) \<Longrightarrow> spaces g \<Longrightarrow> spaces g' \<Longrightarrow>
     json_elements io (v # vs) (g @ t @ more_fields ts @ g')"
proof (induction ts arbitrary: v vs t g)
  case Nil
  then show ?case
    using last_element [of g g' io v t] by (simp add: more_fields_def)
next
  case (Cons u ts)
  then obtain v' vs' where vs: "vs = v' # vs'" by (auto simp: list_all2_Cons2)
  have "json_elements io (v' # vs') ('' '' @ u @ more_fields ts @ g')"
    using Cons.prems vs by (intro Cons.IH) (simp_all add: json_space_def)
  from more_elements [OF Cons.prems(2) _ _ this, of "[]" v t] Cons.prems vs show ?case
    by (simp add: more_fields_def)
qed

section \<open>What is written\<close>

lemma put_simps [simp]:
  "wr_sout (put t w) = wr_sout w @ t" "wr_childValues (put t w) = wr_childValues w"
  "wr_indentString (put t w) = wr_indentString w" "wr_addChildValues (put t w) = wr_addChildValues w"
  "wr_indented (put t w) = wr_indented w"
  by (simp_all add: put_def)

text \<open>A writer outside the collecting of children, with an indentation of spaces and tabs; \<open>writes t w w'\<close>: from \<open>w\<close> to
  \<open>w'\<close> the text \<open>t\<close> is written.\<close>

definition steady :: "json_out \<Rightarrow> bool" where
  "steady w \<longleftrightarrow> \<not> wr_addChildValues w \<and> spaces (wr_indentString w)"

definition writes :: "string \<Rightarrow> json_out \<Rightarrow> json_out \<Rightarrow> bool" where
  "writes t w w' \<longleftrightarrow> wr_sout w' = wr_sout w @ t \<and> wr_indentString w' = wr_indentString w \<and>
     wr_addChildValues w' = wr_addChildValues w"

lemma writes_trans: "writes t w w' \<Longrightarrow> writes t' w' w'' \<Longrightarrow> writes (t @ t') w w''"
  by (simp add: writes_def)

lemma writes_put [simp]: "writes t w (put t w)"
  by (simp add: writes_def)

lemma steady_writes: "steady w \<Longrightarrow> writes t w w' \<Longrightarrow> steady w'"
  by (simp add: steady_def writes_def)

lemma writes_indented [simp]: "writes t w (w'\<lparr>wr_indented := b\<rparr>) = writes t w w'" "steady (w\<lparr>wr_indented := b\<rparr>) = steady w"
  "writes t (w\<lparr>wr_indented := b\<rparr>) w' = writes t w w'"
  by (simp_all add: writes_def steady_def)

lemma gap_written: "steady w \<Longrightarrow> \<exists>g. spaces g \<and> writes g w (if wr_indented w then w else writeIndent st w)"
proof (cases "wr_indented w \<or> st_indentation st = []")
  case True
  then show ?thesis
    by (intro exI [of _ "[]"]) (auto simp: writes_def writeIndent_def)
next
  case False
  assume "steady w"
  with False show ?thesis
    by (intro exI [of _ "CHR 0x0A # wr_indentString w"]) (simp add: writes_def writeIndent_def steady_def json_space_def)
qed

lemma writeWithIndent_writes:
  "steady w \<Longrightarrow> \<exists>g. spaces g \<and> writes (g @ t) w (writeWithIndent st t w) \<and>
     wr_childValues (writeWithIndent st t w) = wr_childValues w"
  by (auto simp: writeWithIndent_def writeIndent_def writes_def steady_def json_space_def
      intro: exI [of _ "[]"] exI [of _ "CHR 0x0A # wr_indentString w"])

lemma members_trailing: "json_members io ms t \<Longrightarrow> spaces g \<Longrightarrow> json_members io ms (t @ g)"
proof (induction rule: json_text_json_elements_json_members.inducts(3) [where ?P1.0 = "\<lambda>_ _. True" and ?P2.0 = "\<lambda>_ _. True"])
  case (last_member w w1 w2 w' v t k)
  then show ?case
    using json_text_json_elements_json_members.last_member [of w w1 w2 "w' @ g" io v t k] by simp
next
  case (more_members w w1 w2 w' v t ms ts k)
  then show ?case
    using json_text_json_elements_json_members.more_members [of w w1 w2 w' io v t ms "ts @ g" k] by simp
qed auto

lemma elements_trailing: "json_elements io vs t \<Longrightarrow> spaces g \<Longrightarrow> json_elements io vs (t @ g)"
proof (induction rule: json_text_json_elements_json_members.inducts(2) [where ?P1.0 = "\<lambda>_ _. True" and ?P3.0 = "\<lambda>_ _. True"])
  case (last_element w w' v t)
  then show ?case
    using json_text_json_elements_json_members.last_element [of w "w' @ g" io v t] by simp
next
  case (more_elements w w' v t vs ts)
  then show ?case
    using json_text_json_elements_json_members.more_elements [of w w' io v t vs "ts @ g"] by simp
qed auto

text \<open>Between its brackets a container writes one level deeper, and comes back to its own.\<close>

lemma bracketed:
  assumes "steady w" "style_ok st"
    and "\<And>w1. steady w1 \<Longrightarrow> wr_childValues w1 = wr_childValues w \<Longrightarrow> \<exists>t. writes t w1 (body w1) \<and> P t"
    and "\<And>t g. P t \<Longrightarrow> spaces g \<Longrightarrow> P (t @ g)"
  shows "\<exists>g t. spaces g \<and> P t \<and> writes (g @ op # t @ [cl]) w
    (writeWithIndent st [cl] (unindent st (body (indent st (writeWithIndent st [op] w)))))"
proof -
  let ?w1 = "writeWithIndent st [op] w"
  let ?w2 = "indent st ?w1"
  obtain g where g: "spaces g" "writes (g @ [op]) w ?w1" "wr_childValues ?w1 = wr_childValues w"
    using writeWithIndent_writes [OF assms(1)] by blast
  have "steady ?w2" "wr_childValues ?w2 = wr_childValues w"
    using steady_writes [OF assms(1) g(2)] assms(2) g(3) by (simp_all add: steady_def indent_def style_ok_def)
  then obtain t where t: "writes t ?w2 (body ?w2)" "P t"
    using assms(3) by blast
  let ?w3 = "unindent st (body ?w2)"
  have "writes (g @ op # t) w ?w3"
    using g(2) t(1) by (simp add: writes_def indent_def unindent_def)
  moreover obtain g' where "spaces g'" "writes (g' @ [cl]) ?w3 (writeWithIndent st [cl] ?w3)"
    using writeWithIndent_writes [OF steady_writes [OF assms(1) calculation]] by blast
  ultimately have "spaces g \<and> P (t @ g') \<and> writes (g @ op # (t @ g') @ [cl]) w (writeWithIndent st [cl] ?w3)"
    using g(1) assms(4) [OF t(2)] writes_trans [of "g @ op # t" w ?w3 "g' @ [cl]"] by simp
  then show ?thesis by blast
qed
definition value_written :: "json_style \<Rightarrow> real_io \<Rightarrow> json \<Rightarrow> bool" where
  "value_written st io v \<longleftrightarrow> (\<forall>w. steady w \<longrightarrow>
     (\<exists>g t. spaces g \<and> json_text io v t \<and> writes (g @ t) w (writeValue st io v w)))"

lemma value_writtenE:
  assumes "value_written st io v" "steady w"
  obtains g t where "spaces g" "json_text io v t" "writes (g @ t) w (writeValue st io v w)"
  using assms by (auto simp: value_written_def)

lemma members_written:
  assumes "style_ok st" "list_all (\<lambda>m. value_written st io (snd m)) ms" "ms \<noteq> []" "steady w"
  shows "\<exists>t. writes t w (write_members st io ms w) \<and> json_members io ms t"
  using assms(2-)
proof (induction ms arbitrary: w)
  case (Cons m ms)
  obtain k v where m: "m = (k, v)" by (cases m)
  obtain c c' where colon: "spaces c" "spaces c'" "st_colonSymbol st = c @ CHR '':'' # c'"
    using assms(1) by (auto simp: style_ok_def)
  let ?w1 = "put (st_colonSymbol st) (writeWithIndent st (valueToQuotedStringN k) w)"
  obtain g where g: "spaces g" "writes (g @ valueToQuotedStringN k) w (writeWithIndent st (valueToQuotedStringN k) w)"
    using writeWithIndent_writes [OF Cons.prems(3)] by blast
  then have w1: "writes (g @ valueToQuotedStringN k @ c @ CHR '':'' # c') w ?w1"
    using writes_trans [OF g(2) writes_put, of "st_colonSymbol st"] colon(3) by simp
  have "value_written st io v"
    using Cons.prems(1) m by simp
  from this steady_writes [OF Cons.prems(3) w1]
  obtain g' t where t: "spaces g'" "json_text io v t" "writes (g' @ t) ?w1 (writeValue st io v ?w1)"
    by (rule value_writtenE)
  let ?w2 = "writeValue st io v ?w1"
  have w2: "writes (g @ valueToQuotedStringN k @ c @ CHR '':'' # (c' @ g') @ t) w ?w2"
    using writes_trans [OF w1 t(3)] by simp
  show ?case
  proof (cases "ms = []")
    case True
    then show ?thesis
      using w2 last_member [OF g(1) colon(1) _ _ t(2), of "c' @ g'" "[]" k] colon(2) t(1) by (auto simp: m Let_def)
  next
    case False
    have "steady (put '','' ?w2)"
      using steady_writes [OF steady_writes [OF Cons.prems(3) w2] writes_put] .
    then obtain u where u: "writes u (put '','' ?w2) (write_members st io ms (put '','' ?w2))" "json_members io ms u"
      using Cons.IH [of "put '','' ?w2"] Cons.prems(1) False by auto
    then show ?thesis
      using writes_trans [OF w2 writes_trans [OF writes_put u(1)]] False
        more_members [OF g(1) colon(1) _ _ t(2) u(2), of "c' @ g'" "[]" k] colon(2) t(1)
      by (auto simp: m Let_def)
  qed
qed simp

lemma all2_drop: "list_all2 P (x # xs) (drop n ys) \<Longrightarrow> list_all2 P xs (drop (Suc n) ys)"
proof -
  have "drop (Suc n) ys = tl (drop n ys)"
    by (simp add: drop_Suc tl_drop)
  then show "list_all2 P (x # xs) (drop n ys) \<Longrightarrow> list_all2 P xs (drop (Suc n) ys)"
    by (auto simp: list_all2_Cons1)
qed

lemma elements_written:
  assumes "style_ok st" "list_all (value_written st io) vs" "vs \<noteq> []" "steady w"
    and "has \<Longrightarrow> list_all2 (json_text io) vs (drop index (wr_childValues w))"
  shows "\<exists>t. writes t w (write_elements st io has index vs w) \<and> json_elements io vs t"
  using assms(2-)
proof (induction vs arbitrary: w index)
  case (Cons v vs)
  let ?w1 = "if has then writeWithIndent st (wr_childValues w ! index) w
    else (writeValue st io v ((if wr_indented w then w else writeIndent st w)\<lparr>wr_indented := True\<rparr>))\<lparr>wr_indented := False\<rparr>"
  have "\<exists>g t. spaces g \<and> json_text io v t \<and> writes (g @ t) w ?w1 \<and> (has \<longrightarrow> wr_childValues ?w1 = wr_childValues w)"
  proof (cases has)
    case True
    then have "json_text io v (wr_childValues w ! index)"
      using Cons.prems(4) by (auto simp: list_all2_Cons1 dest: nth_via_drop)
    then show ?thesis
      using True writeWithIndent_writes [OF Cons.prems(3), of "wr_childValues w ! index" st] by auto
  next
    case False
    let ?w0 = "if wr_indented w then w else writeIndent st w"
    obtain g where g: "spaces g" "writes g w ?w0"
      using gap_written [OF Cons.prems(3)] by blast
    have "value_written st io v" "steady (?w0\<lparr>wr_indented := True\<rparr>)"
      using Cons.prems(1) steady_writes [OF Cons.prems(3) g(2)] by simp_all
    then obtain g' t where "spaces g'" "json_text io v t"
      "writes (g' @ t) (?w0\<lparr>wr_indented := True\<rparr>) (writeValue st io v (?w0\<lparr>wr_indented := True\<rparr>))"
      by (rule value_writtenE)
    then show ?thesis
      using False g writes_trans [OF g(2), of "g' @ t"] by (intro exI [of _ "g @ g'"] exI [of _ t]) simp
  qed
  then obtain g t where t: "spaces g" "json_text io v t" "writes (g @ t) w ?w1"
    "has \<Longrightarrow> wr_childValues ?w1 = wr_childValues w"
    by blast
  show ?case
  proof (cases "vs = []")
    case True
    then show ?thesis
      using t last_element [OF t(1) _ t(2), of "[]"] by (auto simp: Let_def)
  next
    case False
    have "steady (put '','' ?w1)"
      using steady_writes [OF steady_writes [OF Cons.prems(3) t(3)] writes_put] .
    moreover have "has \<Longrightarrow> list_all2 (json_text io) vs (drop (Suc index) (wr_childValues (put '','' ?w1)))"
      using Cons.prems(4) t(4) all2_drop by fastforce
    ultimately obtain u where u: "writes u (put '','' ?w1) (write_elements st io has (Suc index) vs (put '','' ?w1))"
      "json_elements io vs u"
      using Cons.IH [of "put '','' ?w1" "Suc index"] Cons.prems(1) False by auto
    have "writes ((g @ t) @ '','' @ u) w (write_elements st io has index (v # vs) w)"
      using writes_trans [OF t(3) writes_trans [OF writes_put u(1)]] False by (simp add: Let_def)
    then show ?thesis
      using more_elements [OF t(1) _ t(2) u(2), of "[]"] by auto
  qed
qed simp
lemma leaf_written:
  assumes "\<not> nonempty_container v" "writable io v" "style_ok st"
  shows "value_written st io v"
  unfolding value_written_def writeValue_leaf [OF assms(1)]
proof (intro allI impI)
  fix w assume "steady w"
  then show "\<exists>g t. spaces g \<and> json_text io v t \<and> writes (g @ t) w (pushValue (leaf_text st io v) w)"
    using json_text_leaf [OF assms]
    by - (rule exI [of _ "[]"], rule exI [of _ "leaf_text st io v"], simp add: pushValue_def steady_def)
qed

lemma line_written:
  assumes "list_all2 (json_text io) vs (wr_childValues w)" "vs \<noteq> []"
  shows "\<exists>t. json_text io (JArray vs) t \<and> writes t w (put_line st w)"
proof -
  obtain v vs' t ts where vs: "vs = v # vs'" "wr_childValues w = t # ts"
    using assms by (cases vs) (auto simp: list_all2_Cons1)
  define pad where "pad = (if st_indentation st \<noteq> [] then '' '' else [])"
  have "spaces pad"
    by (simp add: pad_def json_space_def)
  then have "json_elements io vs (pad @ t @ more_fields ts @ pad)"
    using line_elements [of io v vs' t ts pad pad] assms(1) vs by simp
  then have "json_text io (JArray vs) (''['' @ (pad @ t @ more_fields ts @ pad) @ '']'')"
    using text_array [of io vs "pad @ t @ more_fields ts @ pad"] by simp
  moreover have "put_line st w = put (''['' @ (pad @ t @ more_fields ts @ pad) @ '']'') w"
    using fields_eq [of 1 ts] by (simp add: put_line_def vs(2) pad_def Let_def)
  ultimately show ?thesis
    using writes_put by metis
qed

lemma array_written:
  assumes "style_ok st" "list_all (value_written st io) vs" "list_all (writable io) vs" "vs \<noteq> []"
  shows "value_written st io (JArray vs)"
  unfolding value_written_def
proof (intro allI impI)
  fix w assume w: "steady w"
  define short where "short = (int (length vs) * 3 < rightMargin \<and> \<not> list_ex nonempty_container vs)"
  define w1 where "w1 = (if short then (push_children st io vs (w\<lparr>wr_childValues := [], wr_addChildValues := True\<rparr>))\<lparr>wr_addChildValues := False\<rparr>
    else w\<lparr>wr_childValues := []\<rparr>)"
  have steady: "steady w1" "writes [] w w1"
    using w by (auto simp: w1_def short_def push_children_leaves steady_def writes_def)
  have children: "short \<Longrightarrow> list_all2 (json_text io) vs (wr_childValues w1)"
    using assms(1,3) by (auto simp: w1_def short_def push_children_leaves list_all2_map2 list_all_iff list_ex_iff
        intro!: list.rel_refl_strong json_text_leaf)
  have none: "\<not> short \<Longrightarrow> wr_childValues w1 = []"
    by (simp add: w1_def)
  let ?body = "\<lambda>w2. write_elements st io (wr_childValues w2 \<noteq> []) 0 vs w2"
  have "\<exists>g t. spaces g \<and> json_elements io vs t \<and> writes (g @ CHR ''['' # t @ '']'') w1
    (writeWithIndent st '']'' (unindent st (?body (indent st (writeWithIndent st ''['' w1)))))"
  proof (rule bracketed [OF steady(1) assms(1)])
    fix w2 assume "steady w2" "wr_childValues w2 = wr_childValues w1"
    with children none show "\<exists>t. writes t w2 (?body w2) \<and> json_elements io vs t"
      by (intro elements_written [OF assms(1,2,4)]; cases short) simp_all
  qed (rule elements_trailing)
  then have multi: "\<exists>g t. spaces g \<and> json_text io (JArray vs) t \<and> writes (g @ t) w
    (writeWithIndent st '']'' (unindent st (?body (indent st (writeWithIndent st ''['' w1)))))"
    using writes_trans [OF steady(2)] text_array by fastforce
  moreover have line: "\<exists>g t. spaces g \<and> json_text io (JArray vs) t \<and> writes (g @ t) w (put_line st w1)" if sh: short
  proof -
    obtain t where "json_text io (JArray vs) t" "writes t w1 (put_line st w1)"
      using line_written [OF children [OF sh] assms(4)] by blast
    then show ?thesis
      using writes_trans [OF steady(2)] by - (rule exI [of _ "[]"], rule exI [of _ t], simp)
  qed
  show "\<exists>g t. spaces g \<and> json_text io (JArray vs) t \<and> writes (g @ t) w (writeValue st io (JArray vs) w)"
  proof (cases short)
    case True
    then have "w1 = (push_children st io vs (w\<lparr>wr_childValues := [], wr_addChildValues := True\<rparr>))\<lparr>wr_addChildValues := False\<rparr>"
      by (simp add: w1_def)
    with True multi line assms(4) show ?thesis
      by (simp add: Let_def short_def [symmetric])
  next
    case False
    then have "w1 = w\<lparr>wr_childValues := []\<rparr>"
      by (simp add: w1_def)
    with False multi assms(4) show ?thesis
      by (simp add: Let_def short_def [symmetric])
  qed
qed

lemma object_written:
  assumes "style_ok st" "list_all (\<lambda>m. value_written st io (snd m)) ms" "amap_ok ms" "ms \<noteq> []"
  shows "value_written st io (JObject ms)"
  unfolding value_written_def
proof (intro allI impI)
  fix w assume "steady w"
  from bracketed [OF this assms(1), of "write_members st io ms" "json_members io ms" "CHR ''{''" "CHR ''}''"]
    members_written [OF assms(1,2,4)] members_trailing
  obtain g t where "spaces g" "json_members io ms t" "writes (g @ CHR ''{'' # t @ ''}'') w
    (writeWithIndent st ''}'' (unindent st (write_members st io ms (indent st (writeWithIndent st ''{'' w)))))"
    by blast
  then show "\<exists>g t. spaces g \<and> json_text io (JObject ms) t \<and> writes (g @ t) w (writeValue st io (JObject ms) w)"
    using assms(4) text_object [OF _ assms(3)] by auto
qed

lemma writable_written: "style_ok st \<Longrightarrow> writable io v \<Longrightarrow> value_written st io v"
proof (induction v)
  case (JArray vs)
  show ?case
  proof (cases "vs = []")
    case True
    with JArray show ?thesis by (intro leaf_written) (simp_all add: nonempty_container_def)
  next
    case False
    with JArray show ?thesis by (intro array_written) (auto simp: list_all_iff)
  qed
next
  case (JObject ms)
  show ?case
  proof (cases "ms = []")
    case True
    with JObject show ?thesis by (intro leaf_written) (simp_all add: nonempty_container_def)
  next
    case False
    with JObject show ?thesis by (intro object_written) (fastforce simp: list_all_iff)+
  qed
qed (intro leaf_written; simp add: nonempty_container_def)+

section \<open>What a whole text is\<close>

lemma writeString_text:
  assumes "style_ok st" "writable io v"
  shows "\<exists>g t. spaces g \<and> json_text io v t \<and> writeString st io v = g @ t"
proof -
  let ?w = "\<lparr>wr_sout = [], wr_childValues = [], wr_indentString = [], wr_addChildValues = False, wr_indented = True\<rparr>"
  have "steady ?w"
    by (simp add: steady_def)
  with writable_written [OF assms] obtain g t where "spaces g" "json_text io v t" "writes (g @ t) ?w (writeValue st io v ?w)"
    by (rule value_writtenE)
  then show ?thesis
    using assms(1) by (auto simp: writeString_def writes_def style_ok_def)
qed

end
