(* ===== verification/Json_Document.thy ===== *)
theory Json_Document
  imports Json_Writer
begin

text \<open>
  \<open>JsonDocument::Parse\<close> and \<open>JsonDocument::Write\<close> of \<open>helper/json_wrapper.cpp\<close>, over the reader and the writer of
  \<open>helper/jsoncpp/jsoncpp.cpp\<close>: what is written is read back, and a text nested too deep makes \<open>Parse\<close> throw.
\<close>

section \<open>The two operations\<close>

text \<open>\<open>Parse\<close> hands the text to the reader up to its first NUL and keeps what the reader left in the document.\<close>

definition JsonDocument_Parse :: "real_io \<Rightarrow> string \<Rightarrow> json \<Rightarrow> (bool \<times> json) outcome" where
  "JsonDocument_Parse io doc doc0 = Reader_parse io (c_str doc) doc0"

definition JsonDocument_Write :: "real_io \<Rightarrow> bool \<Rightarrow> json \<Rightarrow> string" where
  "JsonDocument_Write io pretty doc = writeString (newStreamWriter (if pretty then [CHR 0x09] else []) False False) io doc"

section \<open>Texts without NUL\<close>

lemma spaces_no_nul: "spaces w \<Longrightarrow> CHR 0x00 \<notin> set w"
  by (induction w) (auto simp: json_space_def)

lemma skip_digits_no_nul: "CHR 0x00 \<in> set s \<Longrightarrow> CHR 0x00 \<in> set (skip_digits s)"
  by (induction s) (auto simp: skip_digits_def is_digit_def)

lemma tl_no_nul: "CHR 0x00 \<in> set s \<Longrightarrow> starts_with cs s \<Longrightarrow> CHR 0x00 \<notin> set cs \<Longrightarrow> CHR 0x00 \<in> set (tl s)"
  by (cases s) (auto simp: starts_with_def)

lemma readNumber_no_nul:
  assumes "CHR 0x00 \<in> set s"
  shows "CHR 0x00 \<in> set (readNumber s)"
proof -
  define r1 where "r1 = skip_digits s"
  define r2 where "r2 = (if starts_with ''.'' r1 then skip_digits (tl r1) else r1)"
  define r3 where "r3 = (if starts_with ''+-'' (tl r2) then tl (tl r2) else tl r2)"
  have 1: "CHR 0x00 \<in> set r1"
    unfolding r1_def by (rule skip_digits_no_nul [OF assms])
  have 2: "CHR 0x00 \<in> set r2"
    using 1 skip_digits_no_nul [OF tl_no_nul [OF 1]] by (simp add: r2_def)
  have "CHR 0x00 \<in> set r3" if "starts_with ''eE'' r2"
    using tl_no_nul [OF 2 that] tl_no_nul [of "tl r2" "''+-''"] by (simp add: r3_def)
  then have "starts_with ''eE'' r2 \<Longrightarrow> CHR 0x00 \<in> set (skip_digits r3)"
    by (rule skip_digits_no_nul)
  moreover have "readNumber s = (if starts_with ''eE'' r2 then skip_digits r3 else r2)"
    by (simp only: readNumber_def r1_def r2_def r3_def Let_def)
  ultimately show ?thesis
    using 2 by simp
qed

lemma number_no_nul: "number_text t \<Longrightarrow> CHR 0x00 \<notin> set t"
  using readNumber_no_nul [of "tl t"] by (cases t) (auto simp: number_text_def is_digit_def)

lemma hex_upper_no_nul: "n < 16 \<Longrightarrow> hex_upper n \<noteq> CHR 0x00"
proof -
  assume "n < 16"
  moreover have "list_all (\<lambda>n. hex_upper n \<noteq> CHR 0x00) [0..<16]" by code_simp
  ultimately show ?thesis by (simp add: list_all_iff)
qed

lemma quoted_no_nul: "CHR 0x00 \<notin> set (valueToQuotedStringN s)"
proof -
  have "CHR 0x00 \<notin> set (quote_char c)" for c
  proof -
    have "of_char c div 16 < (16 :: nat)" "of_char c mod 16 < (16 :: nat)"
      by simp_all
    then have "CHR 0x00 \<noteq> hex_upper (of_char c div 16)" "CHR 0x00 \<noteq> hex_upper (of_char c mod 16)"
      using hex_upper_no_nul by metis+
    moreover have "CHR 0x00 \<noteq> hex_upper 0"
      by code_simp
    ultimately show ?thesis
      by (auto simp: quote_char_def)
  qed
  then show ?thesis
    by (auto simp: quoted_eq)
qed

lemma text_no_nul:
  "json_text io v t \<Longrightarrow> CHR 0x00 \<notin> set t"
  "json_elements io vs t \<Longrightarrow> CHR 0x00 \<notin> set t"
  "json_members io ms t \<Longrightarrow> CHR 0x00 \<notin> set t"
  by (induction rule: json_text_json_elements_json_members.inducts)
    (auto simp: number_no_nul quoted_no_nul dest: spaces_no_nul)

lemma text_not_empty: "json_text io v t \<Longrightarrow> t \<noteq> []"
  using text_first by blast

section \<open>Reading and writing documents\<close>

lemma parse_text:
  assumes "json_text io v t" "spaces g"
  shows "JsonDocument_Parse io (g @ t) doc = (if json_depth v \<le> 1000 then Inr (True, v) else Inl Runtime_Error)"
  using reads_text(1) [OF assms(1), of "[]" stackLimit_g doc] assms text_no_nul(1) [OF assms(1)] spaces_no_nul [OF assms(2)]
  by (simp add: JsonDocument_Parse_def Reader_parse_def readValue_spaces stackLimit_g_def del: readValue.simps)

lemma write_text:
  assumes "writable io v"
  shows "\<exists>g t. spaces g \<and> json_text io v t \<and> JsonDocument_Write io pretty v = g @ t"
  unfolding JsonDocument_Write_def
  by (rule writeString_text [OF newStreamWriter_ok assms]) (simp add: json_space_def)

lemma write_no_nul [simp]:
  assumes "writable io v"
  shows "CHR 0x00 \<notin> set (JsonDocument_Write io pretty v)"
  using write_text [OF assms, of pretty] by (auto dest: text_no_nul(1) spaces_no_nul)

lemma write_not_empty [simp]:
  assumes "writable io v"
  shows "JsonDocument_Write io pretty v \<noteq> []"
  using write_text [OF assms, of pretty] by (auto dest: text_not_empty)

lemma parse_written:
  "writable io v \<Longrightarrow> json_depth v \<le> 1000 \<Longrightarrow> JsonDocument_Parse io (JsonDocument_Write io pretty v) doc = Inr (True, v)"
  using write_text [of io v pretty] parse_text by auto

lemma parse_c_str [simp]: "JsonDocument_Parse io (c_str t) doc = JsonDocument_Parse io t doc"
  by (simp add: JsonDocument_Parse_def c_str_def)

text \<open>The documents the programs exchange: flat objects of strings and 32-bit integers.\<close>

fun flat_value :: "json \<Rightarrow> bool" where
  "flat_value (JString s) = True"
| "flat_value (JInt i) = (- (2 ^ 31) \<le> i \<and> i < 2 ^ 31)"
| "flat_value _ = False"

definition flat_object :: "(string \<times> json) list \<Rightarrow> bool" where
  "flat_object m \<longleftrightarrow> amap_ok m \<and> list_all (\<lambda>e. flat_value (snd e)) m"

lemma flat_value_fine: "flat_value v \<Longrightarrow> writable io v \<and> json_depth v = 1"
  by (cases v) auto

lemma flat_writable [simp]: "flat_object m \<Longrightarrow> writable io (JObject m)"
  using flat_value_fine by (simp add: flat_object_def list_all_iff)

lemma flat_depth: "flat_object m \<Longrightarrow> json_depth (JObject m) \<le> 1000"
proof -
  assume "flat_object m"
  then have "\<forall>e \<in> set m. json_depth (snd e) \<le> 999"
    using flat_value_fine by (fastforce simp: flat_object_def list_all_iff)
  then have "json_depth (JObject m) \<le> Suc 999"
    by (simp only: json_depth_le)
  then show ?thesis by simp
qed

lemma flat_read [simp]:
  "flat_object m \<Longrightarrow> JsonDocument_Parse io (JsonDocument_Write io pretty (JObject m)) doc = Inr (True, JObject m)"
  by (simp only: parse_written flat_writable flat_depth)

text \<open>An empty text leaves the document as it was.\<close>

lemma parse_empty [simp]: "JsonDocument_Parse io [] doc = Inr (False, doc)"
proof -
  have "readToken [] = ((tokenEndOfStream, []), [])"
    by (simp add: readToken_def skipSpaces_def getNextChar_def token_at_def is_digit_def)
  then show ?thesis
    by (simp add: JsonDocument_Parse_def Reader_parse_def stackLimit_g_def skipCommentTokens.simps [of "[]"] c_str_def
        numeral_eq_Suc)
qed

section \<open>Properties\<close>

text \<open>C26: A document that is written is read back as it was, on one line or on several: every value nested up to 1000
  levels, with its integers in the range the reader gives their type, its objects in key order and its reals among those the C++ library
  prints and reads exactly.\<close>

theorem json_written_read:
  assumes "writable io v" "json_depth v \<le> 1000"
  shows "JsonDocument_Parse io (JsonDocument_Write io pretty v) doc = Inr (True, v)"
  using assms by (rule parse_written)

definition example_io :: real_io where
  "example_io = \<lparr>read_double = \<lambda>s. if s = ''0.5'' then Some (1 / 2) else None,
     print_double = \<lambda>r. if r = 1 / 2 then ''0,5'' else ''1e999''\<rparr>"

definition example_doc :: json where
  "example_doc = JObject [(''a'', JArray [JInt (-1), JReal (1 / 2), JNull]), (''b'', JObject []), (''c'', JString [CHR 0x22, CHR 0x00])]"

lemma json_written_read_witness:
  "JsonDocument_Parse example_io (JsonDocument_Write example_io True example_doc) JNull = Inr (True, example_doc)"
proof (rule json_written_read)
  have "decode_digits (2 ^ 64 - 1) 0 ''0.5'' = None"
    by (simp add: word_le_nat_alt less_char_def)
  then show "writable example_io example_doc"
    by (simp add: example_doc_def example_io_def valueToString_real_def number_text_def readNumber_def starts_with_def
        skip_digits_def is_digit_def decodeNumber_def decodeDouble_def amap_ok_def)
  show "json_depth example_doc \<le> 1000"
    by (simp add: example_doc_def json_depth.simps)
qed

end
