(* ===== verification/Locks.thy ===== *)
theory Locks
  imports Prelude
begin

text \<open>
  \<open>helper/lock.h\<close>, \<open>lock_impl_posix.cpp\<close>: the lock pointer a class holds and the scope of an
  \<open>AutoLock\<close>.  A null pointer is accepted and locks nothing; a pointer no constructor set is wild,
  and the virtual call through it has no defined result.
\<close>

datatype lock_ptr = Null_Lock | Posix_Lock | Wild_Lock

text \<open>\<open>AutoLock(lock)\<close> around a body that runs to its end, and the destructor behind it.\<close>

definition AutoLock :: "lock_ptr \<Rightarrow> 'a outcome \<Rightarrow> 'a outcome" where
  "AutoLock lock body = (case lock of Wild_Lock \<Rightarrow> Inl Uninitialised | _ \<Rightarrow> body)"

lemma AutoLock_simps [simp]:
  "AutoLock Null_Lock body = body" "AutoLock Posix_Lock body = body"
  "AutoLock Wild_Lock body = Inl Uninitialised"
  by (simp_all add: AutoLock_def)

lemma AutoLock_defined [simp]: "lock \<noteq> Wild_Lock \<Longrightarrow> AutoLock lock body = body"
  by (cases lock) auto

end
