(* ===== verification/Auth_Service.thy ===== *)
theory Auth_Service
  imports Http_Routes Json_Document Locks
begin

text \<open>
  \<open>mosquitto_auth_service\<close>: the manager of the broker instances, which decides on users and topics,
  and the three route procedures in front of it.  The statistics hooks of an instance do nothing, so
  an instance is its name.
\<close>

section \<open>The manager\<close>

record mosq_context =
  mc_host :: mstr

definition MosquittoContext_new :: "string \<Rightarrow> mosq_context" where
  "MosquittoContext_new host = \<lparr>mc_host = Mstr host\<rparr>"

definition StatUsers :: "mosq_context \<Rightarrow> string \<Rightarrow> string \<Rightarrow> string \<Rightarrow> bool" where
  "StatUsers ctx clientid username password = True"

definition StatTopics :: "mosq_context \<Rightarrow> string \<Rightarrow> int \<Rightarrow> string \<Rightarrow> bool" where
  "StatTopics ctx clientid access topic = True"

text \<open>The constructor leaves \<open>lock_\<close> as the memory was: its value is an argument.\<close>

record mosq_manager =
  mm_trust_username :: string
  mm_trust_password :: string
  mm_trust_prefix :: string
  mm_lock :: lock_ptr
  mm_instances :: "(mstr, mosq_context) amap"

definition MosquittoContextManager_new :: "lock_ptr \<Rightarrow> string \<Rightarrow> string \<Rightarrow> string \<Rightarrow> mosq_manager" where
  "MosquittoContextManager_new junk user pass pre =
     \<lparr>mm_trust_username = user, mm_trust_password = pass, mm_trust_prefix = pre, mm_lock = junk,
      mm_instances = []\<rparr>"

definition Manager_Get :: "mosq_manager \<Rightarrow> string \<Rightarrow> mosq_context option outcome" where
  "Manager_Get m name = AutoLock (mm_lock m) (Inr (map_of (mm_instances m) (Mstr name)))"

definition Manager_NodeNames :: "mosq_manager \<Rightarrow> string list \<Rightarrow> string list outcome" where
  "Manager_NodeNames m nodes =
     AutoLock (mm_lock m) (Inr (nodes @ map (\<lambda>e. c_str (mstr_str (fst e))) (mm_instances m)))"

definition Manager_Initialize :: "string \<Rightarrow> mosq_manager \<Rightarrow> mosq_manager outcome" where
  "Manager_Initialize name m =
     AutoLock (mm_lock m) (Inr
       (case map_of (mm_instances m) (Mstr name) of
          None \<Rightarrow> m\<lparr>mm_instances := amap_set (Mstr name) (MosquittoContext_new name) (mm_instances m)\<rparr>
        | Some _ \<Rightarrow> m))"

definition Manager_CheckUser :: "mosq_manager \<Rightarrow> string \<Rightarrow> string \<Rightarrow> string \<Rightarrow> string \<Rightarrow> bool outcome" where
  "Manager_CheckUser m name clientid username password =
     obind (Manager_Get m name) (\<lambda>mosq.
       let _ = map_option (\<lambda>ctx. StatUsers ctx clientid username password) mosq in
       if mm_trust_username m = username \<and> mm_trust_password m = password then Inr True
       else if str_find username (mm_trust_prefix m) 0 = Some 0 then Inr True
       else Inr False)"

definition Manager_CheckAcl :: "mosq_manager \<Rightarrow> string \<Rightarrow> string \<Rightarrow> int \<Rightarrow> string \<Rightarrow> bool outcome" where
  "Manager_CheckAcl m name clientid access topic =
     obind (Manager_Get m name) (\<lambda>mosq.
       let _ = map_option (\<lambda>ctx. StatTopics ctx clientid access topic) mosq in Inr True)"

section \<open>The route procedures\<close>

text \<open>\<open>MosqAuthRouteProc::Process\<close>: the common headers (the two log lines are left out).\<close>

definition MosqAuthRouteProc_Process :: "http_response \<Rightarrow> http_response" where
  "MosqAuthRouteProc_Process resp =
     SetHeader (Mstr ''Server'') (Mstr ''mosquitto_auth_service/1.0'')
       (SetHeader (Mstr ''Content-Type'') (Mstr ''application/json'') (SetStatus 200 resp))"

definition granted_doc :: "bool \<Rightarrow> json outcome" where
  "granted_doc granted =
     obind (Json_Set_int JsonDocument ''code'' (if granted then 0 else -1)) (\<lambda>doc.
       Json_Set_string doc ''message'' (if granted then ''success'' else ''failed''))"

text \<open>\<open>&&\<close> of two getters: the second is only evaluated when the first succeeded.\<close>

definition get_and :: "'a option outcome \<Rightarrow> ('a \<Rightarrow> 'b option outcome) \<Rightarrow> 'b option outcome" where
  "get_and g f = obind g (\<lambda>r. case r of None \<Rightarrow> Inr None | Some x \<Rightarrow> f x)"

definition RouteCheckUser_Process :: "real_io \<Rightarrow> mosq_manager route_proc" where
  "RouteCheckUser_Process io req resp m =
     (let resp1 = MosqAuthRouteProc_Process resp
      in obind (JsonDocument_Parse io (c_str (mstr_str (rq_body req))) JsonDocument) (\<lambda>(_, data). obind
           (get_and (Json_Get_string data ''name'') (\<lambda>name.
            get_and (Json_Get_string data ''clientid'') (\<lambda>clientid.
            get_and (Json_Get_string data ''username'') (\<lambda>username.
            get_and (Json_Get_string data ''password'') (\<lambda>password.
              obind (Manager_CheckUser m name clientid username password) (\<lambda>g. Inr (Some g)))))))
         (\<lambda>r. obind (granted_doc (r = Some True)) (\<lambda>doc.
            Inr (0, SetContent (Mstr (JsonDocument_Write io False doc)) resp1, m)))))"

definition RouteCheckAcl_Process :: "real_io \<Rightarrow> mosq_manager route_proc" where
  "RouteCheckAcl_Process io req resp m =
     (let resp1 = MosqAuthRouteProc_Process resp
      in obind (JsonDocument_Parse io (c_str (mstr_str (rq_body req))) JsonDocument) (\<lambda>(_, data). obind
           (get_and (Json_Get_string data ''name'') (\<lambda>name.
            get_and (Json_Get_string data ''clientid'') (\<lambda>clientid.
            get_and (Json_Get_int data ''access'') (\<lambda>access.
            get_and (Json_Get_string data ''topic'') (\<lambda>topic.
              obind (Manager_CheckAcl m name clientid access topic) (\<lambda>g. Inr (Some g)))))))
         (\<lambda>r. obind (granted_doc (r = Some True)) (\<lambda>doc.
            Inr (0, SetContent (Mstr (JsonDocument_Write io False doc)) resp1, m)))))"

definition RouteInitialize_Process :: "real_io \<Rightarrow> mosq_manager route_proc" where
  "RouteInitialize_Process io req resp m =
     (let resp1 = MosqAuthRouteProc_Process resp
      in obind (JsonDocument_Parse io (c_str (mstr_str (rq_body req))) JsonDocument) (\<lambda>(_, data). obind
           (get_and (Json_Get_string data ''action'') (\<lambda>action.
            get_and (Json_Get_string data ''node'') (\<lambda>node. Inr (Some node))))
         (\<lambda>r. case r of
            None \<Rightarrow> Inr (0, resp1, m)
          | Some node \<Rightarrow>
              obind (Manager_Initialize node m) (\<lambda>m'.
              obind (Manager_NodeNames m' []) (\<lambda>nodes.
              obind (Json_Set_int JsonDocument ''code'' 0) (\<lambda>d1.
              obind (Json_Set_string d1 ''message'' ''success'') (\<lambda>d2.
              obind (Json_Set_strings d2 ''nodes'' nodes) (\<lambda>d3.
                Inr (0, SetContent (Mstr (JsonDocument_Write io False d3)) resp1, m')))))))))"

section \<open>The table\<close>

definition RouteInitialize_key :: route_key where
  "RouteInitialize_key = Route_Key HTTP_POST (Mstr ''/mosquitto/initialize'')"

definition RouteCheckUser_key :: route_key where
  "RouteCheckUser_key = Route_Key HTTP_POST (Mstr ''/mosquitto/checkuser'')"

definition RouteCheckAcl_key :: route_key where
  "RouteCheckAcl_key = Route_Key HTTP_POST (Mstr ''/mosquitto/checkacl'')"

definition AuthServiceRoutes_InitTable :: "real_io \<Rightarrow> mosq_manager route_table" where
  "AuthServiceRoutes_InitTable io =
     Routes_Register RouteCheckAcl_key (Some (RouteCheckAcl_Process io))
       (Routes_Register RouteCheckUser_key (Some (RouteCheckUser_Process io))
         (Routes_Register RouteInitialize_key (Some (RouteInitialize_Process io)) []))"

section \<open>Lemmas\<close>

lemma get_and_simps [simp]:
  "get_and (Inl e) f = Inl e" "get_and (Inr None) f = Inr None" "get_and (Inr (Some x)) f = f x"
  by (simp_all add: get_and_def)

lemma find_prefix: "str_find s p 0 = Some 0 \<longleftrightarrow> prefix p s"
  by (simp add: str_find_0 find_at_prefix)

lemma CheckUser_decision:
  "mm_lock m \<noteq> Wild_Lock \<Longrightarrow> Manager_CheckUser m name cid user pass =
     Inr ((mm_trust_username m = user \<and> mm_trust_password m = pass) \<or> prefix (mm_trust_prefix m) user)"
  by (auto simp: Manager_CheckUser_def Manager_Get_def find_prefix)

lemma CheckAcl_decision: "mm_lock m \<noteq> Wild_Lock \<Longrightarrow> Manager_CheckAcl m name cid access topic = Inr True"
  by (simp add: Manager_CheckAcl_def Manager_Get_def)

text \<open>The answers; their members are in key order.\<close>

definition answer_doc :: "bool \<Rightarrow> json" where
  "answer_doc granted = JObject [(''code'', JInt (if granted then 0 else -1)),
     (''message'', JString (if granted then ''success'' else ''failed''))]"

lemma granted_doc_eq: "granted_doc g = Inr (answer_doc g)"
  by (simp add: granted_doc_def answer_doc_def Json_Set_int_def Json_Set_string_def JsonDocument_def json_simps)

lemma answer_written [simp]:
  "JsonDocument_Parse io (JsonDocument_Write io pretty (answer_doc g)) doc = Inr (True, answer_doc g)"
  "CHR 0x00 \<notin> set (JsonDocument_Write io pretty (answer_doc g))"
  by (simp_all add: answer_doc_def flat_object_def amap_ok_def)

definition names_of :: "mosq_manager \<Rightarrow> mstr list" where
  "names_of m = map fst (mm_instances m)"

lemma Initialize_names:
  assumes "mm_lock m \<noteq> Wild_Lock" and "amap_ok (mm_instances m)"
  shows "\<exists>m'. Manager_Initialize name m = Inr m' \<and> mm_lock m' = mm_lock m \<and>
    amap_ok (mm_instances m') \<and> set (names_of m') = insert (Mstr name) (set (names_of m))"
proof (cases "map_of (mm_instances m) (Mstr name)")
  case None
  then show ?thesis
    using assms by (auto simp: Manager_Initialize_def names_of_def keys_amap_set image_image)
next
  case (Some ctx)
  then have "Mstr name \<in> set (names_of m)"
    by (force simp: names_of_def dest: map_of_SomeD)
  then show ?thesis using Some assms by (auto simp: Manager_Initialize_def)
qed

text \<open>A sequence of joins, as the service performs them.\<close>

fun Manager_Initialize_all :: "string list \<Rightarrow> mosq_manager \<Rightarrow> mosq_manager outcome" where
  "Manager_Initialize_all [] m = Inr m"
| "Manager_Initialize_all (n # ns) m = obind (Manager_Initialize n m) (Manager_Initialize_all ns)"

lemma Initialize_all_names:
  assumes "mm_lock m \<noteq> Wild_Lock" and "amap_ok (mm_instances m)"
  shows "\<exists>m'. Manager_Initialize_all ns m = Inr m' \<and> mm_lock m' = mm_lock m \<and>
    amap_ok (mm_instances m') \<and> set (names_of m') = Mstr ` set ns \<union> set (names_of m)"
  using assms
proof (induction ns arbitrary: m)
  case Nil
  then show ?case by simp
next
  case (Cons n ns)
  from Initialize_names [OF Cons.prems, of n] obtain m1 where
    m1: "Manager_Initialize n m = Inr m1" "mm_lock m1 = mm_lock m" "amap_ok (mm_instances m1)"
      "set (names_of m1) = insert (Mstr n) (set (names_of m))" by blast
  with Cons.prems Cons.IH [of m1] show ?case by auto
qed

lemma table_lookup:
  "map_of (AuthServiceRoutes_InitTable io) (Route_Key HTTP_POST (Mstr url)) =
     (if url = ''/mosquitto/checkacl'' then Some (Some (RouteCheckAcl_Process io))
      else if url = ''/mosquitto/checkuser'' then Some (Some (RouteCheckUser_Process io))
      else if url = ''/mosquitto/initialize'' then Some (Some (RouteInitialize_Process io))
      else None)"
proof -
  have "AuthServiceRoutes_InitTable io = amap_store.put_all
      [(RouteInitialize_key, Some (RouteInitialize_Process io)),
       (RouteCheckUser_key, Some (RouteCheckUser_Process io)),
       (RouteCheckAcl_key, Some (RouteCheckAcl_Process io))] []"
    by (simp add: AuthServiceRoutes_InitTable_def Routes_Register_def)
  then show ?thesis
    by (simp add: amap_store.get_put_all RouteInitialize_key_def RouteCheckUser_key_def RouteCheckAcl_key_def)
qed

lemma table_check_user:
  assumes "rq_method req = Some HTTP_POST" "rq_url req = Mstr ''/mosquitto/checkuser''"
  shows "Routes_Process (AuthServiceRoutes_InitTable io) req resp m = RouteCheckUser_Process io req resp m"
  using assms by (simp add: Routes_Process_def HttpRequest_method_def table_lookup [unfolded HTTP_POST_def]
      HTTP_POST_def HTTP_HEAD_def)

text \<open>A member that is a string.\<close>

definition text_member :: "(string \<times> json) list \<Rightarrow> string \<Rightarrow> string option" where
  "text_member d k = (case map_of d k of Some (JString s) \<Rightarrow> Some s | _ \<Rightarrow> None)"

lemma text_member_Some [simp]: "map_of d k = Some (JString s) \<Longrightarrow> text_member d k = Some s"
  by (simp add: text_member_def)

lemma Get_string_member:
  "CHR ''.'' \<notin> set k \<Longrightarrow> Json_Get_string v k =
     (case v of JNull \<Rightarrow> Inr None | JObject d \<Rightarrow> Inr (text_member d k) | _ \<Rightarrow> Inl Logic_Error)"
  by (subst Json_Get_string_def, subst Json_Get.simps)
    (auto simp: json_isMember_def json_at_def text_member_def split: json.splits option.splits)

lemma RouteCheckUser_decision:
  assumes "mm_lock m \<noteq> Wild_Lock"
  shows "RouteCheckUser_Process io req resp m =
    (case JsonDocument_Parse io (mstr_str (rq_body req)) JsonDocument of
       Inl e \<Rightarrow> Inl e
     | Inr (_, doc) \<Rightarrow>
        (case doc of
           JObject d \<Rightarrow>
             let granted = (case (text_member d ''name'', text_member d ''clientid'', text_member d ''username'', text_member d ''password'') of
                   (Some name, Some cid, Some user, Some pass) \<Rightarrow>
                     (mm_trust_username m = user \<and> mm_trust_password m = pass) \<or> prefix (mm_trust_prefix m) user
                 | _ \<Rightarrow> False)
             in Inr (0, SetContent (Mstr (JsonDocument_Write io False (answer_doc granted))) (MosqAuthRouteProc_Process resp), m)
         | JNull \<Rightarrow> Inr (0, SetContent (Mstr (JsonDocument_Write io False (answer_doc False))) (MosqAuthRouteProc_Process resp), m)
         | _ \<Rightarrow> Inl Logic_Error))"
proof (cases "JsonDocument_Parse io (mstr_str (rq_body req)) JsonDocument")
  case (Inr x)
  obtain ok doc where x: "x = (ok, doc)" by (cases x)
  show ?thesis
  proof (cases doc)
    case (JObject d)
    then show ?thesis
      using assms by (cases "text_member d ''name''"; cases "text_member d ''clientid''"; cases "text_member d ''username''";
          cases "text_member d ''password''")
        (simp_all add: RouteCheckUser_Process_def Inr x Get_string_member granted_doc_eq CheckUser_decision)
  qed (simp_all add: RouteCheckUser_Process_def Inr x Get_string_member granted_doc_eq)
qed (simp add: RouteCheckUser_Process_def)

text \<open>Each of the three procedures throws what reading the body throws.\<close>

lemma routes_parse_fault:
  assumes "JsonDocument_Parse io (mstr_str (rq_body req)) JsonDocument = Inl e" "rq_method req = Some HTTP_POST"
    and "rq_url req \<in> Mstr ` {''/mosquitto/checkuser'', ''/mosquitto/checkacl'', ''/mosquitto/initialize''}"
  shows "Routes_Process (AuthServiceRoutes_InitTable io) req resp m = Inl e"
  using assms by (auto simp: Routes_Process_def HttpRequest_method_def table_lookup [unfolded HTTP_POST_def] HTTP_POST_def
      HTTP_HEAD_def RouteCheckUser_Process_def RouteCheckAcl_Process_def RouteInitialize_Process_def)

section \<open>Properties\<close>

text \<open>A user is accepted exactly when the trusted name and password match or the name starts with
  the trusted prefix; so an unset prefix accepts every user.\<close>

theorem check_user_decision:
  assumes "junk \<noteq> Wild_Lock"
  shows "Manager_CheckUser (MosquittoContextManager_new junk tu tp pre) name cid user pass =
    Inr ((tu = user \<and> tp = pass) \<or> pre = [] \<or> (\<exists>rest. user = pre @ rest))"
  using assms by (auto simp: CheckUser_decision MosquittoContextManager_new_def prefix_def)

lemma check_user_decision_witness:
  "Manager_CheckUser (MosquittoContextManager_new Null_Lock ''a'' ''b'' ''dev'') ''n'' ''c'' ''device'' [] = Inr True"
  by (subst check_user_decision) simp_all

text \<open>C25: after any sequence of joins the node list a joining node is given holds every joined name
  once, in ascending order, and nothing else.\<close>

theorem join_node_names:
  assumes "junk \<noteq> Wild_Lock" and "\<forall>n \<in> set ns. CHR 0x00 \<notin> set n"
  shows "\<exists>nodes. obind (Manager_Initialize_all ns (MosquittoContextManager_new junk tu tp pre))
      (\<lambda>m. Manager_NodeNames m []) = Inr nodes \<and>
    set nodes = set ns \<and> distinct nodes \<and> sorted (map Mstr nodes)"
proof -
  let ?m = "MosquittoContextManager_new junk tu tp pre"
  have "mm_lock ?m \<noteq> Wild_Lock" "amap_ok (mm_instances ?m)" "names_of ?m = []"
    using assms(1) by (simp_all add: MosquittoContextManager_new_def names_of_def)
  from Initialize_all_names [OF this(1,2), of ns] this(3) obtain m' where
    m': "Manager_Initialize_all ns ?m = Inr m'" "mm_lock m' \<noteq> Wild_Lock" "amap_ok (mm_instances m')"
      "set (names_of m') = Mstr ` set ns"
    using assms(1) by (auto simp: MosquittoContextManager_new_def)
  let ?nodes = "map (\<lambda>e. c_str (mstr_str (fst e))) (mm_instances m')"
  have "\<forall>k \<in> set (names_of m'). c_str (mstr_str k) = mstr_str k" using m'(4) assms(2) by auto
  then have nodes: "?nodes = map mstr_str (names_of m')" by (simp add: names_of_def)
  have names: "map Mstr ?nodes = names_of m'" unfolding nodes by (simp add: comp_def)
  have "sorted_wrt (<) (names_of m')" using m'(3) by (simp add: amap_ok_def names_of_def)
  then have "distinct (names_of m')" "sorted (names_of m')"
    by (simp_all add: strict_sorted_iff)
  then have "distinct ?nodes" "sorted (map Mstr ?nodes)"
    using names by (metis distinct_map, simp)
  moreover have "set ?nodes = set ns"
    using m'(4) unfolding nodes by (auto simp: image_image)
  ultimately show ?thesis using m' by (simp add: Manager_NodeNames_def)
qed

lemma join_node_names_witness:
  "\<exists>nodes. obind (Manager_Initialize_all [''b'', ''a'', ''b''] (MosquittoContextManager_new Null_Lock [] [] []))
      (\<lambda>m. Manager_NodeNames m []) = Inr nodes \<and>
    set nodes = set [''b'', ''a'', ''b''] \<and> distinct nodes \<and> sorted (map Mstr nodes)"
  by (rule join_node_names) simp_all

text \<open>A request to check a user whose body does not read as an object or null makes the procedure
  throw; otherwise it answers 200 with code 0 exactly when all four fields are strings and the
  manager accepts them.\<close>

theorem check_user_route:
  assumes "mm_lock m \<noteq> Wild_Lock" and "rq_method req = Some HTTP_POST"
    and "rq_url req = Mstr ''/mosquitto/checkuser''"
  shows "Routes_Process (AuthServiceRoutes_InitTable io) req resp m =
    (case JsonDocument_Parse io (mstr_str (rq_body req)) JsonDocument of
       Inl e \<Rightarrow> Inl e
     | Inr (_, doc) \<Rightarrow>
        (case doc of
           JObject d \<Rightarrow>
             let granted = (case (text_member d ''name'', text_member d ''clientid'', text_member d ''username'', text_member d ''password'') of
                   (Some name, Some cid, Some user, Some pass) \<Rightarrow>
                     (mm_trust_username m = user \<and> mm_trust_password m = pass) \<or> prefix (mm_trust_prefix m) user
                 | _ \<Rightarrow> False)
             in Inr (0, SetContent (Mstr (JsonDocument_Write io False (answer_doc granted))) (MosqAuthRouteProc_Process resp), m)
         | JNull \<Rightarrow> Inr (0, SetContent (Mstr (JsonDocument_Write io False (answer_doc False))) (MosqAuthRouteProc_Process resp), m)
         | _ \<Rightarrow> Inl Logic_Error))"
  unfolding table_check_user [OF assms(2,3)] by (rule RouteCheckUser_decision) (rule assms)

lemma check_user_route_witness:
  "\<forall>io. Routes_Process (AuthServiceRoutes_InitTable io)
     (HttpRequest_new 4 0\<lparr>rq_method := Some HTTP_POST, rq_url := Mstr ''/mosquitto/checkuser'', rq_body := Mstr ''[]''\<rparr>)
     HttpResponse_new (MosquittoContextManager_new Null_Lock [] [] []) = Inl Logic_Error"
proof
  fix io
  have "JsonDocument_Parse io ''[]'' JsonDocument = Inr (True, JArray [])"
    using parse_text [OF text_empty_array [of "[]"], of "[]" io JsonDocument] by (simp add: json_depth.simps)
  then show "Routes_Process (AuthServiceRoutes_InitTable io)
     (HttpRequest_new 4 0\<lparr>rq_method := Some HTTP_POST, rq_url := Mstr ''/mosquitto/checkuser'', rq_body := Mstr ''[]''\<rparr>)
     HttpResponse_new (MosquittoContextManager_new Null_Lock [] [] []) = Inl Logic_Error"
    by (subst check_user_route) (simp_all add: MosquittoContextManager_new_def)
qed

end
