(* ===== verification/Http_Client.thy ===== *)
theory Http_Client
  imports String_Containers
begin

text \<open>
  \<open>helper/http_client.cpp\<close> and \<open>http_wrapper.cpp\<close>: a session around a curl handle, and the class
  \<open>HttpWrapper\<close> the program talks to other services with.  \<open>curl_easy_perform\<close> is an argument: from
  the options the session has set it gives a failure, or the status, and the chunks it hands to the
  two write callbacks.
\<close>

section \<open>Sessions\<close>

record http_session =
  hs_method :: int
  hs_proxy :: "string option"
  hs_proxy_port :: int
  hs_timeout :: int
  hs_post_data :: "string option"
  hs_request_headers :: "string list"

text \<open>The options curl sees at \<open>curl_easy_perform\<close>.\<close>

record curl_request =
  cr_url :: string
  cr_post :: bool
  cr_post_fields :: "string option"
  cr_headers :: "string list"
  cr_proxy :: "(string \<times> int option) option"
  cr_timeout :: int

type_synonym curl = "curl_request \<Rightarrow> (int \<times> string list \<times> string list) option"

definition HTTP_METHOD_GET :: int where "HTTP_METHOD_GET = 0"
definition HTTP_METHOD_POST :: int where "HTTP_METHOD_POST = 1"

definition HttpCreateSession :: "int \<Rightarrow> int \<Rightarrow> http_session" where
  "HttpCreateSession method timeout =
     \<lparr>hs_method = (if method < 0 \<or> method > 2 then 0 else method), hs_proxy = None, hs_proxy_port = 0,
      hs_timeout = timeout, hs_post_data = None, hs_request_headers = []\<rparr>"

definition HttpSetProxy :: "string \<Rightarrow> http_session \<Rightarrow> http_session" where
  "HttpSetProxy proxy s = s\<lparr>hs_proxy := Some (c_str proxy)\<rparr>"

definition HttpSetProxyPort :: "int \<Rightarrow> http_session \<Rightarrow> http_session" where
  "HttpSetProxyPort port s = s\<lparr>hs_proxy_port := port\<rparr>"

text \<open>
  \<open>HttpSetHeader\<close>: one line at a time through a buffer of 1024 zero bytes.  \<open>strcpy\<close> of 1024 bytes
  and the scan by \<open>strchr\<close> of a line of 1024 bytes without its end leave the buffer.
\<close>

function set_header_lines :: "string \<Rightarrow> string list \<Rightarrow> string list outcome" where
  "set_header_lines begin acc =
     (if begin = [] then Inr acc
      else case find_at [CHR 0x0D, CHR 0x0A] begin of
        Some k \<Rightarrow>
          let line = take k begin in
          if 1024 \<le> k then Inl Out_Of_Bounds
          else set_header_lines (drop (k + 2) begin) (if CHR '':'' \<in> set line then acc @ [line] else acc)
      | None \<Rightarrow>
          if 1024 \<le> length begin then Inl Out_Of_Bounds
          else Inr (if CHR '':'' \<in> set begin then acc @ [begin] else acc))"
  by pat_completeness auto
termination by (relation "measure (\<lambda>(b, acc). length b)") auto

declare set_header_lines.simps [simp del]

definition HttpSetHeader :: "string \<Rightarrow> http_session \<Rightarrow> http_session outcome" where
  "HttpSetHeader header s =
     obind (set_header_lines (c_str header) (hs_request_headers s)) (\<lambda>hs.
       Inr (s\<lparr>hs_request_headers := hs\<rparr>))"

definition HttpSetPostData :: "string \<Rightarrow> http_session \<Rightarrow> http_session" where
  "HttpSetPostData data s = (if data = [] then s else s\<lparr>hs_post_data := Some data\<rparr>)"

text \<open>The growing buffer of a write callback.\<close>

definition MemoryCopyCallback :: "string \<Rightarrow> string option \<Rightarrow> string option" where
  "MemoryCopyCallback chunk buf = Some (case buf of None \<Rightarrow> chunk | Some b \<Rightarrow> b @ chunk)"

text \<open>
  The callback's arguments when the transfer worked: status, headers (up to their NUL) and content;
  a buffer no chunk arrived for is null.
\<close>

definition HttpOpen :: "curl \<Rightarrow> string \<Rightarrow> http_session \<Rightarrow> (int \<times> string option \<times> string option) option" where
  "HttpOpen perform url s =
     (let req = \<lparr>cr_url = c_str url, cr_post = (hs_method s = HTTP_METHOD_POST),
                 cr_post_fields = (if hs_method s = HTTP_METHOD_POST then hs_post_data s else None),
                 cr_headers = hs_request_headers s,
                 cr_proxy = map_option (\<lambda>p. (p, if hs_proxy_port s \<noteq> 0 then Some (hs_proxy_port s) else None)) (hs_proxy s),
                 cr_timeout = hs_timeout s\<rparr>
      in case perform req of
           None \<Rightarrow> None
         | Some (status, hchunks, cchunks) \<Rightarrow>
             Some (status, fold MemoryCopyCallback hchunks None, fold MemoryCopyCallback cchunks None))"

definition HttpGet :: "curl \<Rightarrow> string \<Rightarrow> string \<Rightarrow> (int \<times> string option \<times> string option) option outcome" where
  "HttpGet perform url headers =
     obind (HttpSetHeader headers (HttpCreateSession HTTP_METHOD_GET 30)) (\<lambda>s.
       Inr (HttpOpen perform url s))"

definition HttpPost :: "curl \<Rightarrow> string \<Rightarrow> string \<Rightarrow> string \<Rightarrow> (int \<times> string option \<times> string option) option outcome" where
  "HttpPost perform url headers data =
     obind (HttpSetHeader headers (HttpCreateSession HTTP_METHOD_POST 30)) (\<lambda>s.
       Inr (HttpOpen perform url (HttpSetPostData data s)))"

section \<open>\<open>HttpWrapper\<close>\<close>

text \<open>The constructor of the response leaves \<open>status_code_\<close> as the memory was.\<close>

record http_wrapper =
  hw_headers :: string_multimap
  hw_status_code :: int
  hw_body :: string
  hw_resp_headers :: string_multimap

definition HttpWrapper_new :: "int \<Rightarrow> http_wrapper" where
  "HttpWrapper_new junk = \<lparr>hw_headers = [], hw_status_code = junk, hw_body = [], hw_resp_headers = []\<rparr>"

definition HttpWrapper_SetHeader :: "string \<Rightarrow> string \<Rightarrow> http_wrapper \<Rightarrow> http_wrapper" where
  "HttpWrapper_SetHeader key v w = w\<lparr>hw_headers := Multi_Append (hw_headers w) key v\<rparr>"

definition HttpRespHandler :: "(int \<times> string option \<times> string option) \<Rightarrow> http_wrapper \<Rightarrow> http_wrapper" where
  "HttpRespHandler r w =
     (case r of (status, headers, content) \<Rightarrow>
        w\<lparr>hw_status_code := status,
          hw_body := (case content of None \<Rightarrow> [] | Some b \<Rightarrow> b),
          hw_resp_headers := Multi_Split (c_str (case headers of None \<Rightarrow> [] | Some h \<Rightarrow> h)) [CHR 0x0D, CHR 0x0A] '':''\<rparr>)"

definition HttpWrapper_header :: "http_wrapper \<Rightarrow> string \<Rightarrow> string" where
  "HttpWrapper_header w key = TripLeft (Multi_Find (hw_resp_headers w) key) CHR '' ''"

definition HttpWrapper_header_all :: "http_wrapper \<Rightarrow> string \<Rightarrow> string list" where
  "HttpWrapper_header_all w key = map (\<lambda>v. TripLeft v CHR '' '') (Multi_FindAll (hw_resp_headers w) key)"

definition HttpWrapper_Get :: "curl \<Rightarrow> string \<Rightarrow> http_wrapper \<Rightarrow> (bool \<times> http_wrapper) outcome" where
  "HttpWrapper_Get perform url w =
     obind (Multi_ToString (hw_headers w) [CHR 0x0D, CHR 0x0A] '':'' False) (\<lambda>headers.
     obind (HttpGet perform url headers) (\<lambda>r.
       let w' = (case r of None \<Rightarrow> w | Some x \<Rightarrow> HttpRespHandler x w)
       in Inr (hw_status_code w' = 200, w')))"

definition HttpWrapper_Post :: "curl \<Rightarrow> string \<Rightarrow> string \<Rightarrow> http_wrapper \<Rightarrow> (bool \<times> http_wrapper) outcome" where
  "HttpWrapper_Post perform url data w =
     obind (Multi_ToString (hw_headers w) [CHR 0x0D, CHR 0x0A] '':'' False) (\<lambda>headers.
     obind (HttpPost perform url headers data) (\<lambda>r.
       let w' = (case r of None \<Rightarrow> w | Some x \<Rightarrow> HttpRespHandler x w)
       in Inr (hw_status_code w' = 200, w')))"

definition HttpWrapper_Text :: "http_wrapper \<Rightarrow> string" where
  "HttpWrapper_Text w = hw_body w"

section \<open>Lemmas\<close>

lemma fold_chunks_Some: "fold MemoryCopyCallback chunks (Some b) = Some (b @ concat chunks)"
  by (induction chunks arbitrary: b) (auto simp: MemoryCopyCallback_def)

lemma fold_chunks:
  "fold MemoryCopyCallback chunks None = (if chunks = [] then None else Some (concat chunks))"
proof (cases chunks)
  case (Cons c cs)
  then show ?thesis using fold_chunks_Some [of cs c] by (simp add: MemoryCopyCallback_def)
qed simp

lemma find_crlf:
  "CHR 0x0D \<notin> set l \<Longrightarrow> find_at [CHR 0x0D, CHR 0x0A] (l @ CHR 0x0D # CHR 0x0A # s) = Some (length l)"
  by (induction l) auto

lemma find_crlf_None: "CHR 0x0D \<notin> set l \<Longrightarrow> find_at [CHR 0x0D, CHR 0x0A] l = None"
  by (induction l) auto

text \<open>Lines that fit the buffer, hold a colon and no CR or NUL reach curl as they are.\<close>

definition entry_ok :: "string \<times> string \<Rightarrow> bool" where
  "entry_ok e \<longleftrightarrow> CHR 0x0D \<notin> set (fst e) \<union> set (snd e) \<and> CHR 0x00 \<notin> set (fst e) \<union> set (snd e) \<and>
     length (fst e) + length (snd e) < 1023"

lemma set_header_lines_step:
  "CHR 0x0D \<notin> set l \<Longrightarrow> length l < 1024 \<Longrightarrow>
     set_header_lines (l @ CHR 0x0D # CHR 0x0A # s) acc =
       set_header_lines s (if CHR '':'' \<in> set l then acc @ [l] else acc)"
  by (subst set_header_lines.simps) (simp add: find_crlf)

lemma set_header_lines_join:
  assumes "es \<noteq> []" "list_all entry_ok es"
  shows "set_header_lines (entries_join [CHR 0x0D, CHR 0x0A] '':'' es) acc =
    Inr (acc @ map (\<lambda>(k, v). k @ '':'' @ v) es)"
  using assms
proof (induction "[CHR 0x0D, CHR 0x0A]" "'':''" es arbitrary: acc rule: entries_join.induct)
  case 1
  then show ?case by simp
next
  case (2 k v)
  then show ?case
    by (subst set_header_lines.simps) (simp add: entry_ok_def find_crlf_None)
next
  case (3 k v e r)
  let ?l = "k @ '':'' @ v"
  have l: "CHR 0x0D \<notin> set ?l" "length ?l < 1024"
    using 3 by (simp_all add: entry_ok_def)
  show ?case
    using 3 set_header_lines_step [OF l, of "entries_join [CHR 0x0D, CHR 0x0A] '':'' (e # r)" acc]
    by (simp add: case_prod_beta)
qed

lemma entries_join_no_nul:
  "list_all entry_ok es \<Longrightarrow> CHR 0x00 \<notin> set (entries_join [CHR 0x0D, CHR 0x0A] '':'' es)"
proof (induction "[CHR 0x0D, CHR 0x0A]" "'':''" es rule: entries_join.induct)
  case (3 k v e r)
  then show ?case by (simp add: entry_ok_def)
qed (simp_all add: entry_ok_def)

definition wrapper_request :: "bool \<Rightarrow> string \<Rightarrow> string \<Rightarrow> http_wrapper \<Rightarrow> curl_request" where
  "wrapper_request post url data w =
     \<lparr>cr_url = c_str url, cr_post = post,
      cr_post_fields = (if post \<and> data \<noteq> [] then Some data else None),
      cr_headers = map (\<lambda>(k, v). k @ '':'' @ v) (hw_headers w), cr_proxy = None, cr_timeout = 30\<rparr>"

definition wrapper_result :: "(int \<times> string list \<times> string list) option \<Rightarrow> http_wrapper \<Rightarrow> bool \<times> http_wrapper" where
  "wrapper_result r w =
     (case r of
        None \<Rightarrow> (hw_status_code w = 200, w)
      | Some (status, hs, cs) \<Rightarrow>
          (status = 200, w\<lparr>hw_status_code := status, hw_body := concat cs,
             hw_resp_headers := Multi_Split (c_str (concat hs)) [CHR 0x0D, CHR 0x0A] '':''\<rparr>))"

lemma headers_reach_curl:
  assumes "hw_headers w \<noteq> []" "list_all entry_ok (hw_headers w)"
  shows "obind (Multi_ToString (hw_headers w) [CHR 0x0D, CHR 0x0A] '':'' False) (\<lambda>h.
      HttpSetHeader h (HttpCreateSession m 30)) =
    Inr (HttpCreateSession m 30 \<lparr>hs_request_headers := map (\<lambda>(k, v). k @ '':'' @ v) (hw_headers w)\<rparr>)"
  using assms
  by (simp add: Multi_ToString_def HttpSetHeader_def HttpCreateSession_def entries_join_no_nul set_header_lines_join)

lemma Post_result:
  assumes "hw_headers w \<noteq> []" "list_all entry_ok (hw_headers w)"
  shows "HttpWrapper_Post perform url data w =
    Inr (wrapper_result (perform (wrapper_request True url data w)) w)"
  using headers_reach_curl [OF assms, of HTTP_METHOD_POST] assms(1)
  by (auto simp: HttpWrapper_Post_def HttpPost_def Multi_ToString_def HttpOpen_def HttpSetPostData_def
      wrapper_result_def wrapper_request_def HttpRespHandler_def HttpCreateSession_def fold_chunks
      HTTP_METHOD_POST_def Let_def split: option.splits)

lemma Get_result:
  assumes "hw_headers w \<noteq> []" "list_all entry_ok (hw_headers w)"
  shows "HttpWrapper_Get perform url w =
    Inr (wrapper_result (perform (wrapper_request False url [] w)) w)"
  using headers_reach_curl [OF assms, of HTTP_METHOD_GET] assms(1)
  by (auto simp: HttpWrapper_Get_def HttpGet_def Multi_ToString_def HttpOpen_def
      wrapper_result_def wrapper_request_def HttpRespHandler_def HttpCreateSession_def fold_chunks
      HTTP_METHOD_GET_def HTTP_METHOD_POST_def Let_def split: option.splits)

section \<open>Properties\<close>

text \<open>With at least one header set and every header line shorter than the 1024 byte buffer, a
  request reaches curl with exactly the headers that were set, and the response is what curl
  delivered, chunks joined; when the transfer fails the wrapper keeps its old state, so the verdict
  is the status it held before.\<close>

theorem wrapper_post:
  assumes "hw_headers w \<noteq> []" and "list_all entry_ok (hw_headers w)"
  shows "HttpWrapper_Post perform url data w =
    Inr (case perform \<lparr>cr_url = c_str url, cr_post = True, cr_post_fields = (if data = [] then None else Some data),
            cr_headers = map (\<lambda>(k, v). k @ '':'' @ v) (hw_headers w), cr_proxy = None, cr_timeout = 30\<rparr> of
        None \<Rightarrow> (hw_status_code w = 200, w)
      | Some (status, hs, cs) \<Rightarrow>
          (status = 200, w\<lparr>hw_status_code := status, hw_body := concat cs,
             hw_resp_headers := Multi_Split (c_str (concat hs)) [CHR 0x0D, CHR 0x0A] '':''\<rparr>))"
  by (subst Post_result [OF assms]) (auto simp: wrapper_request_def wrapper_result_def)

lemma wrapper_post_witness:
  "HttpWrapper_Post (\<lambda>_. Some (200, [], [''ok''])) ''u'' [] (HttpWrapper_SetHeader ''A'' ''b'' (HttpWrapper_new 7)) =
    Inr (True, HttpWrapper_SetHeader ''A'' ''b'' (HttpWrapper_new 7)\<lparr>hw_status_code := 200, hw_body := ''ok'',
       hw_resp_headers := []\<rparr>)"
  by (subst wrapper_post)
    (simp_all add: HttpWrapper_SetHeader_def HttpWrapper_new_def Multi_Append_def entry_ok_def Multi_Split_def c_str_def)

text \<open>A request without any header set reads the first entry of an empty map.\<close>

theorem wrapper_without_headers:
  "HttpWrapper_Get perform url (HttpWrapper_new junk) = Inl Out_Of_Bounds \<and>
   HttpWrapper_Post perform url data (HttpWrapper_new junk) = Inl Out_Of_Bounds"
  by (simp add: HttpWrapper_Get_def HttpWrapper_Post_def HttpWrapper_new_def Multi_ToString_def)

end
