(* ===== verification/Config.thy ===== *)
theory Config
  imports String_Helper Decimal
begin

text \<open>
  \<open>helper/config.cpp\<close> and \<open>command_line.cpp\<close>: the tree of configuration values addressed by dotted
  names, and the switches of a command line.  The tree is an interpretation of \<open>kv_store\<close>: a name
  that was set is found, and no other name is affected.
\<close>

section \<open>\<open>conf::Value\<close>\<close>

datatype conf_value = Conf_Value
  (conf_prop: "(string \<times> string) list") (conf_child: "(string \<times> conf_value) list")

definition conf_empty :: conf_value where
  "conf_empty = Conf_Value [] []"

text \<open>
  The test \<open>fpos != npos && fpos + 2 < length\<close>: the prefix and the rest of a name that goes into a
  child; a dot with at most one character behind it does not count.
\<close>

definition split_name :: "string \<Rightarrow> (string \<times> string) option" where
  "split_name name =
     (case str_find name ''.'' 0 of
        None \<Rightarrow> None
      | Some fpos \<Rightarrow>
          if fpos + 2 < length name then Some (str_sub name 0 fpos, drop (fpos + 1) name) else None)"

lemma split_name_length: "split_name name = Some (p, r) \<Longrightarrow> length r < length name"
  by (auto simp: split_name_def split: option.splits if_splits)

text \<open>\<open>None\<close> is \<open>exist = false\<close>, with the empty string returned.\<close>

function Value_Get_exist :: "conf_value \<Rightarrow> string \<Rightarrow> string option" where
  "Value_Get_exist v name =
     (case split_name name of
        Some (pre, rest) \<Rightarrow>
          (case map_of (conf_child v) pre of Some c \<Rightarrow> Value_Get_exist c rest | None \<Rightarrow> None)
      | None \<Rightarrow> map_of (conf_prop v) name)"
  by pat_completeness auto
termination by (relation "measure (\<lambda>(v, name). length name)") (auto dest: split_name_length)

declare Value_Get_exist.simps [simp del]

definition Value_Get :: "conf_value \<Rightarrow> string \<Rightarrow> string" where
  "Value_Get v name = (case Value_Get_exist v name of Some s \<Rightarrow> s | None \<Rightarrow> [])"

definition Value_Get_default :: "conf_value \<Rightarrow> string \<Rightarrow> string \<Rightarrow> string" where
  "Value_Get_default v name dflt = (let s = Value_Get v name in if s = [] then dflt else s)"

definition Value_GetInt :: "conf_value \<Rightarrow> string \<Rightarrow> int" where
  "Value_GetInt v name = (let s = Value_Get v name in if s = [] then 0 else atoll s)"

definition Value_GetInt_default :: "conf_value \<Rightarrow> string \<Rightarrow> int \<Rightarrow> int" where
  "Value_GetInt_default v name dflt = (let s = Value_Get v name in if s = [] then dflt else atoll s)"

function Value_Set :: "string \<Rightarrow> string \<Rightarrow> conf_value \<Rightarrow> conf_value" where
  "Value_Set name s v =
     (case split_name name of
        Some (pre, rest) \<Rightarrow>
          (case map_of (conf_child v) pre of
             Some c \<Rightarrow> Conf_Value (conf_prop v) (amap_set pre (Value_Set rest s c) (conf_child v))
           | None \<Rightarrow> Conf_Value (conf_prop v) (amap_set pre (Value_Set rest s conf_empty) (conf_child v)))
      | None \<Rightarrow> Conf_Value (amap_set name s (conf_prop v)) (conf_child v))"
  by pat_completeness auto
termination by (relation "measure (\<lambda>(name, s, v). length name)") (auto dest: split_name_length)

declare Value_Set.simps [simp del]

definition Value_SetInt :: "string \<Rightarrow> int \<Rightarrow> conf_value \<Rightarrow> conf_value" where
  "Value_SetInt name i v = Value_Set name (dec_int i) v"

text \<open>\<open>Archive\<close>: the properties, then the children, with the callback threading its state.\<close>

definition child_path :: "string \<Rightarrow> string \<Rightarrow> string" where
  "child_path vpath name = (if vpath = [] then name else vpath @ ''.'' @ name)"

lemma child_size [termination_simp]:
  "(n, c) \<in> set cs \<Longrightarrow> size c < Suc (size_list (size_prod size_string size) cs)" for size_string
  by (induction cs) auto

fun Value_Archive :: "('s \<Rightarrow> string \<Rightarrow> string \<Rightarrow> string \<Rightarrow> 's) \<Rightarrow> conf_value \<Rightarrow> string \<Rightarrow> 's \<Rightarrow> 's" where
  "Value_Archive callback (Conf_Value ps cs) vpath s =
     fold (\<lambda>(name, c) s. Value_Archive callback c (child_path vpath name) s) cs
       (fold (\<lambda>(name, val) s. callback s vpath name val) ps s)"

section \<open>\<open>CommandLine\<close>\<close>

record command_line =
  cl_application :: string
  cl_switches :: "(string, string) amap"

text \<open>The name behind the dashes, and the value behind the first equals sign.\<close>

definition parse_switch :: "string \<Rightarrow> string \<times> string" where
  "parse_switch arg =
     (let argp = dropWhile (\<lambda>c. c = CHR ''-'') arg in
      if CHR ''='' \<in> set argp then (before CHR ''='' argp, after CHR ''='' argp) else (argp, []))"

fun FromArgs :: "string list \<Rightarrow> command_line \<Rightarrow> command_line outcome" where
  "FromArgs [] cl = Inl Out_Of_Bounds"
| "FromArgs (app # args) cl =
     Inr (cl\<lparr>cl_application := app,
        cl_switches := fold (\<lambda>arg m. case parse_switch arg of (n, v) \<Rightarrow> amap_set n v m) args (cl_switches cl)\<rparr>)"

definition CommandLine_new :: command_line where
  "CommandLine_new = \<lparr>cl_application = [], cl_switches = []\<rparr>"

definition HasSwitch :: "command_line \<Rightarrow> string \<Rightarrow> bool" where
  "HasSwitch cl name \<longleftrightarrow> map_of (cl_switches cl) name \<noteq> None"

definition GetSwitchValue :: "command_line \<Rightarrow> string \<Rightarrow> string" where
  "GetSwitchValue cl name = (case map_of (cl_switches cl) name of Some v \<Rightarrow> v | None \<Rightarrow> [])"

definition GetSwitchValueWithDefault :: "command_line \<Rightarrow> string \<Rightarrow> string \<Rightarrow> string" where
  "GetSwitchValueWithDefault cl name dflt =
     (let v = GetSwitchValue cl name in if v = [] then dflt else v)"

definition GetSwitchIntValue :: "command_line \<Rightarrow> string \<Rightarrow> int \<Rightarrow> int" where
  "GetSwitchIntValue cl name dflt =
     (let v = GetSwitchValue cl name in if v = [] then dflt else atoi v)"

section \<open>Lemmas\<close>

text \<open>A name and its path determine each other.\<close>

lemma split_name_eq: "split_name name = Some (p, r) \<Longrightarrow> name = p @ CHR ''.'' # r"
  using before_after [of "CHR ''.''" name]
  by (auto simp: split_name_def str_find_0 find_at_char str_sub_def before_def [symmetric]
      take_length_before drop_Suc_length_before split: if_splits)

lemma split_name_inj:
  "split_name a = Some x \<Longrightarrow> split_name b = Some x \<Longrightarrow> a = b"
  by (cases x) (auto dest: split_name_eq)

lemma Value_Get_empty: "Value_Get_exist conf_empty name = None"
  by (subst Value_Get_exist.simps) (simp add: conf_empty_def split: option.splits)

text \<open>Setting in an existing child and in a fresh one, as one equation.\<close>

lemma Value_Set_child:
  "split_name name = Some (p, r) \<Longrightarrow> Value_Set name s v =
     Conf_Value (conf_prop v) (amap_set p (Value_Set r s
       (case map_of (conf_child v) p of Some c \<Rightarrow> c | None \<Rightarrow> conf_empty)) (conf_child v))"
  by (subst Value_Set.simps) (auto split: option.splits)

lemma Value_Set_prop:
  "split_name name = None \<Longrightarrow> Value_Set name s v = Conf_Value (amap_set name s (conf_prop v)) (conf_child v)"
  by (subst Value_Set.simps) simp

lemma Value_Get_child:
  "split_name name = Some (p, r) \<Longrightarrow> Value_Get_exist v name =
     Value_Get_exist (case map_of (conf_child v) p of Some c \<Rightarrow> c | None \<Rightarrow> conf_empty) r"
  by (subst Value_Get_exist.simps) (auto simp: Value_Get_empty split: option.splits)

lemma Value_Get_prop:
  "split_name name = None \<Longrightarrow> Value_Get_exist v name = map_of (conf_prop v) name"
  by (subst Value_Get_exist.simps) simp

lemma Value_Get_Set:
  "Value_Get_exist (Value_Set name s v) name' = (if name' = name then Some s else Value_Get_exist v name')"
proof (induction name s v arbitrary: name' rule: Value_Set.induct)
  case (1 name s v)
  show ?case
  proof (cases "split_name name")
    case None
    then show ?thesis
      by (cases "split_name name'")
        (auto simp: Value_Set_prop Value_Get_prop Value_Get_child)
  next
    case (Some x)
    then obtain p r where pr: "split_name name = Some (p, r)" by (cases x) auto
    let ?c = "case map_of (conf_child v) p of Some c \<Rightarrow> c | None \<Rightarrow> conf_empty"
    have IH: "Value_Get_exist (Value_Set r s ?c) n = (if n = r then Some s else Value_Get_exist ?c n)" for n
      using 1 pr by (cases "map_of (conf_child v) p") auto
    show ?thesis
    proof (cases "split_name name'")
      case None
      then show ?thesis using pr by (auto simp: Value_Set_child Value_Get_prop)
    next
      case (Some y)
      then obtain p' r' where pr': "split_name name' = Some (p', r')" by (cases y) auto
      have "name' = name \<longleftrightarrow> p' = p \<and> r' = r"
        using pr pr' split_name_inj by auto
      then show ?thesis
        using IH by (cases "p' = p") (simp_all add: Value_Set_child [OF pr] Value_Get_child [OF pr'])
    qed
  qed
qed

interpretation conf: kv_store Value_Get_exist Value_Set "\<lambda>_. True" "\<lambda>_. True"
  by unfold_locales (simp_all add: Value_Get_Set)

text \<open>The entries of a tree in the order \<open>Archive\<close> visits them.\<close>

fun conf_entries :: "string \<Rightarrow> conf_value \<Rightarrow> (string \<times> string \<times> string) list" where
  "conf_entries vpath (Conf_Value ps cs) =
     map (\<lambda>(name, val). (vpath, name, val)) ps @
     concat (map (\<lambda>(name, c). conf_entries (child_path vpath name) c) cs)"

lemma Value_Archive_entries:
  "Value_Archive cb v vpath s = fold (\<lambda>(p, n, x) s. cb s p n x) (conf_entries vpath v) s"
proof (induction cb v vpath s rule: Value_Archive.induct)
  case (1 cb ps cs vpath s)
  have props: "fold (\<lambda>(p, n, x) s. cb s p n x) (map (\<lambda>(n, x). (vpath, n, x)) ps) s =
      fold (\<lambda>(n, x) s. cb s vpath n x) ps s"
    by (induction ps arbitrary: s) auto
  have "fold (\<lambda>(n, c) s. Value_Archive cb c (child_path vpath n) s) ds t =
      fold (\<lambda>(p, n, x) s. cb s p n x) (concat (map (\<lambda>(n, c). conf_entries (child_path vpath n) c) ds)) t"
    if "set ds \<subseteq> set cs" for ds t
    using that 1 by (induction ds arbitrary: t) auto
  then show ?case using props by simp
qed

section \<open>Properties\<close>

text \<open>After any sequence of \<open>Set\<close> calls, \<open>Get\<close> of a name returns the value last set for exactly
  that name, whatever dots the names hold; a name never set reads as the empty string.\<close>

theorem config_get_after_sets:
  "Value_Get (fold (\<lambda>(n, s). Value_Set n s) kvs conf_empty) name =
    (case map_of (rev kvs) name of Some s \<Rightarrow> s | None \<Rightarrow> [])"
proof -
  have "fold (\<lambda>(n, s). Value_Set n s) kvs conf_empty = conf.put_all kvs conf_empty"
    by (simp add: conf.put_all_def)
  then show ?thesis
    by (simp add: Value_Get_def conf.get_put_all Value_Get_empty split: option.splits)
qed

text \<open>An integer in the range of 64 bits survives \<open>SetInt\<close> and \<open>GetInt\<close>.\<close>

theorem config_int_roundtrip:
  assumes "- (2 ^ 63) \<le> i" and "i < 2 ^ 63"
  shows "Value_GetInt (Value_SetInt name i v) name = i"
  using assms by (simp add: Value_GetInt_def Value_Get_def Value_SetInt_def Value_Get_Set atoll_dec_int)

lemma config_int_roundtrip_witness:
  "Value_GetInt (Value_SetInt ''http.port'' (-1) conf_empty) ''http.port'' = -1"
  by (rule config_int_roundtrip) simp_all

text \<open>The switches \<open>--name=value\<close> of a command line are found by name, the last one winning, and
  the value keeps any further equals sign.\<close>

theorem command_line_switches:
  assumes "\<forall>(n, v) \<in> set sws. CHR ''='' \<notin> set n \<and> (n = [] \<or> hd n \<noteq> CHR ''-'')"
  shows "\<exists>cl. FromArgs (app # map (\<lambda>(n, v). ''--'' @ n @ ''='' @ v) sws) CommandLine_new = Inr cl \<and>
    GetSwitchValue cl name = (case map_of (rev sws) name of Some v \<Rightarrow> v | None \<Rightarrow> [])"
proof -
  have parse: "parse_switch (''--'' @ n @ ''='' @ v) = (n, v)" if "(n, v) \<in> set sws" for n v
  proof -
    have "dropWhile (\<lambda>c. c = CHR ''-'') (n @ CHR ''='' # v) = n @ CHR ''='' # v"
      using assms that by (cases n) auto
    moreover have "CHR ''='' \<notin> set n" using assms that by auto
    ultimately show ?thesis by (simp add: parse_switch_def Let_def)
  qed
  have "fold (\<lambda>arg m. case parse_switch arg of (n, v) \<Rightarrow> amap_set n v m)
      (map (\<lambda>(n, v). ''--'' @ n @ ''='' @ v) xs) m = amap_store.put_all xs m" if "set xs \<subseteq> set sws" for xs m
    using that parse by (induction xs arbitrary: m) auto
  then show ?thesis
    by (simp add: CommandLine_new_def GetSwitchValue_def amap_store.get_put_all split: option.splits)
qed

lemma command_line_switches_witness:
  "\<exists>cl. FromArgs (''auth'' # map (\<lambda>(n, v). ''--'' @ n @ ''='' @ v) [(''config'', ''a=b'')]) CommandLine_new = Inr cl \<and>
    GetSwitchValue cl ''config'' = ''a=b''"
  using command_line_switches [of "[(''config'', ''a=b'')]" "''auth''" "''config''"] by simp

end
