(* ===== verification/Ini_Parser.thy ===== *)
theory Ini_Parser
  imports Config
begin

text \<open>
  \<open>helper/ini_parser.cpp\<close> and the class \<open>Config\<close> on top of it.  The state of a parse is the section
  the parser is in and the tree it fills; a file system, an argument, gives the contents of the files
  that can be opened.
\<close>

record ini_parser =
  ini_section :: string

definition IniParser_new :: ini_parser where
  "IniParser_new = \<lparr>ini_section = []\<rparr>"

type_synonym file_system = "string \<Rightarrow> string option"

section \<open>Reading\<close>

definition strip_left :: "string \<Rightarrow> string \<Rightarrow> string" where
  "strip_left str cs = (case StripLeft str cs False of Some (n, s) \<Rightarrow> s | None \<Rightarrow> str)"

definition strip_right :: "string \<Rightarrow> string \<Rightarrow> string" where
  "strip_right str cs = (case StripRight str cs False of Some (n, s) \<Rightarrow> s | None \<Rightarrow> str)"

definition ParseLine :: "string \<Rightarrow> ini_parser \<times> conf_value \<Rightarrow> int \<times> ini_parser \<times> conf_value" where
  "ParseLine line st =
     (let (ini, conf) = st in
      if line = [] then (-1, st)
      else
        let str = strip_right (strip_left line [CHR '' '', CHR 0x09, CHR 0x0D, CHR ''='']) [CHR '' '', CHR 0x09, CHR 0x0D] in
        if str = [] \<or> hd str = CHR '';'' then (-1, st)
        else if 2 \<le> length str \<and> hd str = CHR ''['' \<and> last str = CHR '']'' then
          (1, ini\<lparr>ini_section := (if length str = 2 then [] else str_sub str 1 (length str - 2))\<rparr>, conf)
        else
          let (key, val) =
            (case str_find str ''='' 0 of
               None \<Rightarrow> (str, [])
             | Some fpos \<Rightarrow>
                 (strip_right (str_sub str 0 fpos) [CHR '' '', CHR 0x09, CHR 0x0D],
                  strip_left (drop (fpos + 1) str) [CHR '' '', CHR 0x09, CHR 0x0D]));
            name = (if ini_section ini = [] then key
                    else FormatV (c_str (ini_section ini) @ ''.'' @ c_str key))
          in (0, ini, Value_Set name val conf))"

definition parse_line :: "string \<Rightarrow> ini_parser \<times> conf_value \<Rightarrow> ini_parser \<times> conf_value" where
  "parse_line line st = snd (ParseLine line st)"

text \<open>
  \<open>ParseLines\<close>: \<open>substr(offset, fpos)\<close> takes \<open>fpos\<close> characters, not the distance to \<open>fpos\<close>, and a
  rest without a newline does not move the offset.  \<open>None\<close> is a loop that does not end.
\<close>

partial_function (option) ParseLines_loop ::
  "string \<Rightarrow> nat \<Rightarrow> ini_parser \<times> conf_value \<Rightarrow> (ini_parser \<times> conf_value) option" where
  "ParseLines_loop buf off st =
     (case str_find buf [CHR 0x0A] off of
        Some fpos \<Rightarrow>
          let st' = parse_line (str_sub buf off fpos) st in
          if fpos + 1 < length buf then ParseLines_loop buf (fpos + 1) st' else Some st'
      | None \<Rightarrow>
          let st' = parse_line (drop off buf) st in
          if off < length buf then ParseLines_loop buf off st' else Some st')"

definition ParseLines :: "string \<Rightarrow> ini_parser \<times> conf_value \<Rightarrow> (ini_parser \<times> conf_value) option" where
  "ParseLines buf st = ParseLines_loop buf 0 st"

text \<open>The lines \<open>getline\<close> gives.\<close>

fun getlines :: "string \<Rightarrow> string list" where
  "getlines [] = [[]]"
| "getlines (c # s) =
     (if c = CHR 0x0A then [] # getlines s
      else case getlines s of [] \<Rightarrow> [[c]] | l # ls \<Rightarrow> (c # l) # ls)"

definition ParseFile :: "file_system \<Rightarrow> string \<Rightarrow> ini_parser \<times> conf_value \<Rightarrow> ini_parser \<times> conf_value" where
  "ParseFile fs file st =
     (if file = [] then st
      else case fs (c_str file) of
        None \<Rightarrow> st
      | Some buf \<Rightarrow> fold (\<lambda>line st. if line = [] then st else parse_line line st) (getlines buf) st)"

section \<open>Writing\<close>

text \<open>The state of an archive is the output and the parser, whose section doubles as a flag.\<close>

definition IniParser_OnArchiveValue ::
    "string \<times> ini_parser \<Rightarrow> string \<Rightarrow> string \<Rightarrow> string \<Rightarrow> string \<times> ini_parser" where
  "IniParser_OnArchiveValue s vpath name val =
     (let (oss, ini) = s;
          (oss1, ini1) = (if vpath \<noteq> [] \<and> ini_section ini = []
                          then (oss @ ''['' @ vpath @ '']'' @ [CHR 0x0A], ini\<lparr>ini_section := vpath\<rparr>)
                          else (oss, ini))
      in (oss1 @ name @ ''='' @ val @ [CHR 0x0A], ini1))"

section \<open>\<open>Config\<close>\<close>

record config =
  cf_root :: conf_value
  cf_parser :: ini_parser

definition Config_new :: config where
  "Config_new = \<lparr>cf_root = conf_empty, cf_parser = IniParser_new\<rparr>"

definition Config_LoadBuffer :: "string \<Rightarrow> config \<Rightarrow> config option" where
  "Config_LoadBuffer buf c =
     map_option (\<lambda>(ini, root). \<lparr>cf_root = root, cf_parser = ini\<rparr>) (ParseLines buf (cf_parser c, cf_root c))"

definition Config_LoadFile :: "file_system \<Rightarrow> string \<Rightarrow> config \<Rightarrow> config" where
  "Config_LoadFile fs file c =
     (let (ini, root) = ParseFile fs file (cf_parser c, cf_root c) in \<lparr>cf_root = root, cf_parser = ini\<rparr>)"

definition Config_ToBuffer :: "config \<Rightarrow> string \<times> config" where
  "Config_ToBuffer c =
     (let (oss, ini) = Value_Archive IniParser_OnArchiveValue (cf_root c) [] ([], cf_parser c)
      in (oss, c\<lparr>cf_parser := ini\<rparr>))"

text \<open>\<open>ToFile\<close>: what is written, if the file opens.\<close>

definition Config_ToFile :: "string \<Rightarrow> config \<Rightarrow> (string \<times> string) option \<times> config" where
  "Config_ToFile file c =
     (if file = [] then (None, c)
      else let (oss, c') = Config_ToBuffer c in (Some (c_str file, oss @ [CHR 0x0A]), c'))"

definition Config_Get :: "config \<Rightarrow> string \<Rightarrow> string" where
  "Config_Get c name = Value_Get (cf_root c) name"

definition Config_Get_default :: "config \<Rightarrow> string \<Rightarrow> string \<Rightarrow> string" where
  "Config_Get_default c name dflt = Value_Get_default (cf_root c) name dflt"

definition Config_GetInt_default :: "config \<Rightarrow> string \<Rightarrow> int \<Rightarrow> int" where
  "Config_GetInt_default c name dflt = Value_GetInt_default (cf_root c) name dflt"

definition Config_Set :: "string \<Rightarrow> string \<Rightarrow> config \<Rightarrow> config" where
  "Config_Set name val c = c\<lparr>cf_root := Value_Set name val (cf_root c)\<rparr>"

section \<open>Lemmas\<close>

definition blank :: "char \<Rightarrow> bool" where
  "blank c \<longleftrightarrow> c \<in> set [CHR '' '', CHR 0x09, CHR 0x0D]"

lemma strip_left_id: "s = [] \<or> hd s \<notin> set cs \<Longrightarrow> strip_left s cs = s"
  by (cases s) (auto simp: strip_left_def StripLeft_def lead_count_def Let_def)

lemma strip_right_id: "s = [] \<or> last s \<notin> set cs \<Longrightarrow> strip_right s cs = s"
  by (cases s rule: rev_cases) (auto simp: strip_right_def StripRight_def trail_count_def Let_def str_sub_def)

text \<open>A configuration as its lines: section headers and entries that survive the trimming.\<close>

datatype ini_item = Ini_Section string | Ini_Entry string string

fun item_line :: "ini_item \<Rightarrow> string" where
  "item_line (Ini_Section s) = ''['' @ s @ '']''"
| "item_line (Ini_Entry k v) = k @ ''='' @ v"

fun item_ok :: "ini_item \<Rightarrow> bool" where
  "item_ok (Ini_Section s) \<longleftrightarrow> CHR 0x0A \<notin> set s \<and> CHR 0x00 \<notin> set s \<and> length s < 51200"
| "item_ok (Ini_Entry k v) \<longleftrightarrow> k \<noteq> [] \<and> CHR 0x0A \<notin> set k \<and> CHR 0x00 \<notin> set k \<and> CHR ''='' \<notin> set k \<and>
     length k < 51199 \<and> hd k \<noteq> CHR '';'' \<and> hd k \<noteq> CHR ''['' \<and> \<not> blank (hd k) \<and> \<not> blank (last k) \<and>
     CHR 0x0A \<notin> set v \<and> (v = [] \<or> (\<not> blank (hd v) \<and> \<not> blank (last v)))"

fun ini_entries :: "ini_item list \<Rightarrow> string \<Rightarrow> (string \<times> string) list" where
  "ini_entries [] sec = []"
| "ini_entries (Ini_Section s # r) sec = ini_entries r s"
| "ini_entries (Ini_Entry k v # r) sec =
     ((if sec = [] then k else sec @ ''.'' @ k), v) # ini_entries r sec"

lemma parse_section:
  assumes "item_ok (Ini_Section s)"
  shows "parse_line (item_line (Ini_Section s)) (ini, conf) = (ini\<lparr>ini_section := s\<rparr>, conf)"
proof -
  have "str_sub (''['' @ s @ '']'') 1 (length (''['' @ s @ '']'') - 2) = s"
    by (simp add: str_sub_def)
  then show ?thesis
    by (auto simp: parse_line_def ParseLine_def strip_left_id strip_right_id Let_def)
qed

lemma parse_entry:
  assumes "item_ok (Ini_Entry k v)" "length (ini_section ini) < 51200" "CHR 0x00 \<notin> set (ini_section ini)"
  shows "parse_line (item_line (Ini_Entry k v)) (ini, conf) =
    (ini, Value_Set (if ini_section ini = [] then k else ini_section ini @ ''.'' @ k) v conf)"
proof -
  let ?l = "k @ CHR ''='' # v"
  have k: "k \<noteq> []" "CHR ''='' \<notin> set k" "hd k \<noteq> CHR '';''" "hd k \<noteq> CHR ''[''" using assms(1) by auto
  have "hd ?l \<notin> set [CHR '' '', CHR 0x09, CHR 0x0D, CHR ''='']"
    using assms(1) k by (cases k) (auto simp: blank_def)
  then have l: "strip_left ?l [CHR '' '', CHR 0x09, CHR 0x0D, CHR ''=''] = ?l"
    by (intro strip_left_id) simp
  have "last ?l \<notin> set [CHR '' '', CHR 0x09, CHR 0x0D]"
    using assms(1) by (auto simp: blank_def)
  then have r: "strip_right ?l [CHR '' '', CHR 0x09, CHR 0x0D] = ?l"
    by (intro strip_right_id) simp
  have f: "str_find ?l ''='' 0 = Some (length k)"
    using k(2) by (simp add: str_find_0 find_at_char) (induction k, auto)
  have kr: "strip_right k [CHR '' '', CHR 0x09, CHR 0x0D] = k"
    using assms(1) by (intro strip_right_id) (auto simp: blank_def)
  have vl: "strip_left v [CHR '' '', CHR 0x09, CHR 0x0D] = v"
    using assms(1) by (intro strip_left_id) (auto simp: blank_def)
  have fmt: "FormatV (ini_section ini @ CHR ''.'' # k) = ini_section ini @ CHR ''.'' # k"
    using assms by (simp add: FormatV_def max_buf_len_def)
  show ?thesis
    using k assms l r f kr vl fmt
    by (simp add: parse_line_def ParseLine_def Let_def str_sub_def)
qed

lemma getlines_lines:
  "list_all (\<lambda>l. CHR 0x0A \<notin> set l) ls \<Longrightarrow> getlines (concat (map (\<lambda>l. l @ [CHR 0x0A]) ls)) = ls @ [[]]"
proof (induction ls)
  case (Cons l ls)
  have "getlines (l @ CHR 0x0A # s) = l # getlines s" if "CHR 0x0A \<notin> set l" for s
    using that by (induction l) auto
  with Cons show ?case by simp
qed simp

lemma parse_items:
  assumes "list_all item_ok items" "length (ini_section ini) < 51200" "CHR 0x00 \<notin> set (ini_section ini)"
  shows "snd (fold (\<lambda>line st. if line = [] then st else parse_line line st) (map item_line items) (ini, c)) =
    conf.put_all (ini_entries items (ini_section ini)) c"
  using assms
proof (induction items arbitrary: ini c)
  case (Cons i items)
  then show ?case
  proof (cases i)
    case (Ini_Section s)
    with Cons parse_section [of s ini c] show ?thesis by simp
  next
    case (Ini_Entry k v)
    with Cons parse_entry [of k v ini c] show ?thesis by simp
  qed
qed simp

lemma item_lines_ok: "list_all item_ok items \<Longrightarrow> list_all (\<lambda>l. CHR 0x0A \<notin> set l) (map item_line items)"
proof (induction items)
  case (Cons i items)
  then show ?case by (cases i) auto
qed simp

text \<open>The line loop: it moves past the last newline and stops there, or never.\<close>

lemma find_newline:
  "off < length buf \<Longrightarrow> last buf = CHR 0x0A \<Longrightarrow>
     \<exists>f. str_find buf [CHR 0x0A] off = Some f \<and> off \<le> f \<and> f < length buf"
proof -
  assume *: "off < length buf" "last buf = CHR 0x0A"
  then have "CHR 0x0A \<in> set (drop off buf)"
    by (metis drop_eq_Nil2 last_drop last_in_set linorder_not_less)
  then obtain f where "str_find buf [CHR 0x0A] off = Some f"
    using * by (auto simp: str_find_def find_at_char)
  moreover from str_find_Some [OF this] have "off \<le> f \<and> f < length buf" by simp
  ultimately show ?thesis by blast
qed

lemma ParseLines_loop_returns:
  "last buf = CHR 0x0A \<Longrightarrow> off < length buf \<Longrightarrow> \<exists>st'. ParseLines_loop buf off st = Some st'"
proof (induction "length buf - off" arbitrary: off st rule: less_induct)
  case less
  from find_newline [OF less(3,2)] obtain f where
    f: "str_find buf [CHR 0x0A] off = Some f" "off \<le> f" "f < length buf" by blast
  show ?case
  proof (cases "f + 1 < length buf")
    case True
    with less.hyps [of "f + 1"] less.prems f show ?thesis
      by (subst ParseLines_loop.simps) (simp add: Let_def)
  next
    case False
    with f show ?thesis by (subst ParseLines_loop.simps) (simp add: Let_def)
  qed
qed

lemma ParseLines_loop_stops:
  assumes "ParseLines_loop buf off st = Some st'"
  shows "off < length buf \<Longrightarrow> last buf = CHR 0x0A"
proof (rule ParseLines_loop.raw_induct
    [where P = "\<lambda>buf off st st'. off < length buf \<longrightarrow> last buf = CHR 0x0A", OF _ assms, THEN mp], rule impI)
  fix loop :: "string \<Rightarrow> nat \<Rightarrow> ini_parser \<times> conf_value \<Rightarrow> (ini_parser \<times> conf_value) option"
  fix buf off st st'
  assume IH: "\<And>buf off st st'. loop buf off st = Some st' \<Longrightarrow> off < length buf \<longrightarrow> last buf = CHR 0x0A"
    and eq: "(case str_find buf [CHR 0x0A] off of
        None \<Rightarrow> let st' = parse_line (drop off buf) st in
          if off < length buf then loop buf off st' else Some st'
      | Some fpos \<Rightarrow> let st' = parse_line (str_sub buf off fpos) st in
          if fpos + 1 < length buf then loop buf (fpos + 1) st' else Some st') = Some st'"
    and off: "off < length buf"
  show "last buf = CHR 0x0A"
  proof (cases "str_find buf [CHR 0x0A] off")
    case None
    with eq off have "loop buf off (parse_line (drop off buf) st) = Some st'" by (simp add: Let_def)
    with IH off show ?thesis by blast
  next
    case (Some f)
    from str_find_Some [OF Some] have f: "f < length buf" "buf ! f = CHR 0x0A"
      by (auto simp: prefix_def nth_via_drop)
    show ?thesis
    proof (cases "f + 1 < length buf")
      case True
      with eq Some have "loop buf (f + 1) (parse_line (str_sub buf off f) st) = Some st'"
        by (simp add: Let_def)
      with IH True show ?thesis by blast
    next
      case False
      with f have "f = length buf - 1" "buf \<noteq> []" by auto
      with f show ?thesis by (simp add: last_conv_nth)
    qed
  qed
qed

section \<open>Properties\<close>

text \<open>C37: loading a file of section headers and entries that survive trimming makes every entry
  readable under its section's name, the last one winning, and leaves the other names as they were.\<close>

theorem ini_load_file:
  assumes "file \<noteq> []" and "list_all item_ok items"
    and "fs (c_str file) = Some (concat (map (\<lambda>i. item_line i @ [CHR 0x0A]) items))"
    and "cf_parser c = IniParser_new"
  shows "Config_Get (Config_LoadFile fs file c) name =
    (case map_of (rev (ini_entries items [])) name of Some v \<Rightarrow> v | None \<Rightarrow> Config_Get c name)"
proof -
  have "getlines (concat (map (\<lambda>i. item_line i @ [CHR 0x0A]) items)) = map item_line items @ [[]]"
    using getlines_lines [OF item_lines_ok [OF assms(2)]] by (simp add: comp_def)
  then have "cf_root (Config_LoadFile fs file c) = conf.put_all (ini_entries items []) (cf_root c)"
    using assms parse_items [of items IniParser_new "cf_root c"]
    by (simp add: Config_LoadFile_def ParseFile_def IniParser_new_def case_prod_beta)
  then show ?thesis
    by (simp add: Config_Get_def Value_Get_def conf.get_put_all split: option.splits)
qed

lemma ini_load_file_witness:
  "Config_Get (Config_LoadFile (\<lambda>_. Some (concat (map (\<lambda>i. item_line i @ [CHR 0x0A])
      [Ini_Entry ''port'' ''2020'', Ini_Section ''db'', Ini_Entry ''host'' ''a=b'']))) ''f'' Config_new) ''db.host'' = ''a=b''"
  by (subst ini_load_file [where items = "[Ini_Entry ''port'' ''2020'', Ini_Section ''db'', Ini_Entry ''host'' ''a=b'']"])
    (simp_all add: Config_new_def IniParser_new_def blank_def)

text \<open>Parsing a buffer returns only when the buffer is empty or ends with a newline; any other
  buffer keeps \<open>LoadBuffer\<close> in its loop for ever.\<close>

theorem ini_load_buffer_returns:
  "(\<exists>c'. Config_LoadBuffer buf c = Some c') \<longleftrightarrow> buf = [] \<or> last buf = CHR 0x0A"
proof (cases "buf = []")
  case True
  then show ?thesis
    by (simp add: Config_LoadBuffer_def ParseLines_def ParseLines_loop.simps [of "[]"] str_find_def Let_def)
next
  case False
  have "(\<exists>c'. Config_LoadBuffer buf c = Some c') \<longleftrightarrow>
      (\<exists>st'. ParseLines_loop buf 0 (cf_parser c, cf_root c) = Some st')"
    by (auto simp: Config_LoadBuffer_def ParseLines_def)
  then show ?thesis
    using False ParseLines_loop_returns [of buf 0] ParseLines_loop_stops [of buf 0] by auto
qed

text \<open>Archiving prints one line per entry and a single section header, that of the first entry
  below a section; entries of every later section land under it.\<close>

theorem ini_archive_one_header:
  assumes "cf_parser c = IniParser_new"
  shows "fst (Config_ToBuffer c) =
    (let es = conf_entries [] (cf_root c);
         line = (\<lambda>(p, n, v). n @ ''='' @ v @ [CHR 0x0A]);
         tops = takeWhile (\<lambda>(p, n, v). p = []) es; rest = dropWhile (\<lambda>(p, n, v). p = []) es
     in concat (map line tops) @
        (case rest of [] \<Rightarrow> [] | (p, n, v) # _ \<Rightarrow> ''['' @ p @ '']'' @ [CHR 0x0A]) @ concat (map line rest))"
proof -
  let ?line = "\<lambda>(p, n, v). n @ ''='' @ v @ [CHR 0x0A]"
  let ?f = "\<lambda>(p, n, x) s. IniParser_OnArchiveValue s p n x"
  have set: "fold ?f es (o1, ini) = (o1 @ concat (map ?line es), ini)" if "ini_section ini \<noteq> []" for es o1 ini
    using that by (induction es arbitrary: o1) (auto simp: IniParser_OnArchiveValue_def)
  have "fst (fold ?f es (o1, ini)) = o1 @ concat (map ?line (takeWhile (\<lambda>(p, n, v). p = []) es)) @
      (case dropWhile (\<lambda>(p, n, v). p = []) es of [] \<Rightarrow> [] | (p, n, v) # _ \<Rightarrow> ''['' @ p @ '']'' @ [CHR 0x0A]) @
      concat (map ?line (dropWhile (\<lambda>(p, n, v). p = []) es))" if "ini_section ini = []" for es o1 ini
    using that
  proof (induction es arbitrary: o1)
    case (Cons e es)
    obtain p n v where e: "e = (p, n, v)" by (cases e)
    show ?case
    proof (cases "p = []")
      case True
      with Cons e show ?thesis by (simp add: IniParser_OnArchiveValue_def)
    next
      case False
      with Cons e set [of "ini\<lparr>ini_section := p\<rparr>"] show ?thesis
        by (simp add: IniParser_OnArchiveValue_def)
    qed
  qed simp
  from this [of IniParser_new "conf_entries [] (cf_root c)" "[]"] assms show ?thesis
    by (simp add: Config_ToBuffer_def Value_Archive_entries IniParser_new_def Let_def case_prod_beta)
qed

lemma ini_archive_one_header_witness:
  "fst (Config_ToBuffer (Config_Set ''a.xx'' ''1'' (Config_Set ''b.yy'' ''2'' Config_new))) =
    ''[a]'' @ [CHR 0x0A] @ ''xx=1'' @ [CHR 0x0A] @ ''yy=2'' @ [CHR 0x0A]"
  by (subst ini_archive_one_header)
    (simp_all add: Config_new_def Config_Set_def Value_Set.simps conf_empty_def split_name_def str_find_def
      str_sub_def child_path_def)

end
