(* ===== verification/Auth_Plugin.thy ===== *)
theory Auth_Plugin
  imports Auth_Service Http_Client Ini_Parser
begin

text \<open>
  \<open>mosquitto_auth_plugin\<close>: the broker plugin that asks the authentication service about users and
  topics, and the entry points the broker calls.  The broker's client structure is reduced to the
  client id the code reads from it; curl, the printing of a \<open>double\<close>, the file system and what the
  indeterminate status of a fresh response holds make up the environment.
\<close>

record mosq_peer =
  mq_id :: "string option"

record plugin_env =
  pe_curl :: curl
  pe_io :: real_io
  pe_junk_status :: int

section \<open>The context\<close>

datatype plugin_error = Failed | NoError | Defer

definition plugin_error_code :: "plugin_error \<Rightarrow> int" where
  "plugin_error_code e = (case e of Failed \<Rightarrow> -1 | NoError \<Rightarrow> 0 | Defer \<Rightarrow> 1)"

record auth_plugin =
  ap_config_file :: string
  ap_node_name :: string
  ap_checkuser_url :: string
  ap_checkacl_url :: string

definition AuthPluginContext_new :: auth_plugin where
  "AuthPluginContext_new = \<lparr>ap_config_file = [], ap_node_name = [], ap_checkuser_url = [], ap_checkacl_url = []\<rparr>"

definition auth_config_files :: "string list" where
  "auth_config_files =
     [''/etc/mosquitto_auth_plugin.conf'', ''/usr/etc/mosquitto_auth_plugin.conf'',
      ''/usr/local/etc/mosquitto_auth_plugin.conf'', ''mosquitto_auth_plugin.conf'']"

definition AuthPlugin_LoadConfig :: "file_system \<Rightarrow> string \<Rightarrow> auth_plugin \<Rightarrow> auth_plugin" where
  "AuthPlugin_LoadConfig fs file ctx =
     (let conf = Config_LoadFile fs file (fold (Config_LoadFile fs) auth_config_files Config_new)
      in ctx\<lparr>ap_node_name := Config_Get conf ''nodename'',
             ap_checkuser_url := Config_Get conf ''checkuser'',
             ap_checkacl_url := Config_Get conf ''checkacl''\<rparr>)"

definition AuthPlugin_SetOpt :: "string \<Rightarrow> string \<Rightarrow> auth_plugin \<Rightarrow> auth_plugin" where
  "AuthPlugin_SetOpt key val ctx =
     (if key = ''auth_config_file'' then ctx\<lparr>ap_config_file := val\<rparr> else ctx)"

definition AuthPlugin_Initialize :: "file_system \<Rightarrow> bool \<Rightarrow> auth_plugin \<Rightarrow> auth_plugin" where
  "AuthPlugin_Initialize fs reload ctx =
     (if \<not> reload then AuthPlugin_LoadConfig fs (ap_config_file ctx) ctx else ctx)"

text \<open>The three headers of a request to the service.\<close>

definition plugin_http :: "string \<Rightarrow> int \<Rightarrow> http_wrapper" where
  "plugin_http version junk =
     HttpWrapper_SetHeader ''User-Agent'' version
       (HttpWrapper_SetHeader ''Content-Type'' ''application/json''
         (HttpWrapper_SetHeader ''Connection'' ''Close'' (HttpWrapper_new junk)))"

text \<open>Posting a document and reading \<open>code\<close> from the answer, the same lines in both checks.\<close>

definition ask_service :: "plugin_env \<Rightarrow> string \<Rightarrow> json \<Rightarrow> plugin_error outcome" where
  "ask_service env url doc =
     obind (HttpWrapper_Post (pe_curl env) url (JsonDocument_Write (pe_io env) False doc)
              (plugin_http ''mosqauth/1.6.9.1'' (pe_junk_status env))) (\<lambda>(ok, http).
       if ok then
         obind (JsonDocument_Parse (pe_io env) (HttpWrapper_Text http) JsonDocument) (\<lambda>(_, resp).
         obind (Json_Get_int resp ''code'') (\<lambda>code.
           Inr (if code = Some 0 then NoError else Failed)))
       else Inr Failed)"

definition AuthPlugin_CheckUser ::
    "plugin_env \<Rightarrow> auth_plugin \<Rightarrow> mosq_peer \<Rightarrow> string \<Rightarrow> string \<Rightarrow> plugin_error outcome" where
  "AuthPlugin_CheckUser env ctx client username password =
     (if ap_checkuser_url ctx = [] then Inr Defer
      else case mq_id client of
        None \<Rightarrow> Inl Null_Deref
      | Some cid \<Rightarrow>
          let clientid = c_str cid in
          if str_find clientid ''mosqcluster'' 0 = Some 0 then Inr NoError
          else
            obind (Json_Set_string JsonDocument ''name'' (ap_node_name ctx)) (\<lambda>d1.
            obind (Json_Set_string d1 ''clientid'' clientid) (\<lambda>d2.
            obind (Json_Set_string d2 ''username'' username) (\<lambda>d3.
            obind (Json_Set_string d3 ''password'' password) (\<lambda>d4.
              ask_service env (ap_checkuser_url ctx) d4)))))"

definition AuthPlugin_CheckAcl ::
    "plugin_env \<Rightarrow> auth_plugin \<Rightarrow> mosq_peer \<Rightarrow> int \<Rightarrow> string \<Rightarrow> plugin_error outcome" where
  "AuthPlugin_CheckAcl env ctx client access topic =
     (if ap_checkacl_url ctx = [] then Inr Defer
      else case mq_id client of
        None \<Rightarrow> Inl Null_Deref
      | Some cid \<Rightarrow>
          let clientid = c_str cid in
          if str_find clientid ''mosqcluster'' 0 = Some 0 then Inr NoError
          else
            obind (Json_Set_string JsonDocument ''name'' (ap_node_name ctx)) (\<lambda>d1.
            obind (Json_Set_string d1 ''clientid'' clientid) (\<lambda>d2.
            obind (Json_Set_int d2 ''access'' access) (\<lambda>d3.
            obind (Json_Set_string d3 ''topic'' topic) (\<lambda>d4.
              ask_service env (ap_checkacl_url ctx) d4)))))"

section \<open>The entry points\<close>

definition MOSQ_ERR_SUCCESS :: int where "MOSQ_ERR_SUCCESS = 0"
definition MOSQ_ERR_ACL_DENIED :: int where "MOSQ_ERR_ACL_DENIED = 12"
definition MOSQ_ERR_PLUGIN_DEFER :: int where "MOSQ_ERR_PLUGIN_DEFER = 17"

text \<open>Options, names and passwords are C strings; a null one cannot be made a \<open>std::string\<close>.\<close>

definition auth_plugin_init :: "file_system \<Rightarrow> (string \<times> string) list \<Rightarrow> int \<times> auth_plugin" where
  "auth_plugin_init fs opts =
     (MOSQ_ERR_SUCCESS,
      AuthPlugin_Initialize fs False
        (fold (\<lambda>(k, v). AuthPlugin_SetOpt (c_str k) (c_str v)) opts AuthPluginContext_new))"

definition auth_security_init :: "file_system \<Rightarrow> (string \<times> string) list \<Rightarrow> bool \<Rightarrow> auth_plugin option \<Rightarrow>
    int \<times> auth_plugin option" where
  "auth_security_init fs opts reload user_data =
     (MOSQ_ERR_SUCCESS,
      (case user_data of
         None \<Rightarrow> None
       | Some ctx \<Rightarrow> Some
          (if reload
           then AuthPlugin_Initialize fs reload
                  (fold (\<lambda>(k, v). AuthPlugin_SetOpt (c_str k) (c_str v)) opts ctx)
           else ctx)))"

definition auth_acl_check :: "plugin_env \<Rightarrow> auth_plugin \<Rightarrow> int \<Rightarrow> mosq_peer \<Rightarrow> string option \<Rightarrow> int outcome" where
  "auth_acl_check env ctx access client topic =
     (case topic of
        None \<Rightarrow> Inl Null_Deref
      | Some t \<Rightarrow>
          obind (AuthPlugin_CheckAcl env ctx client access (c_str t)) (\<lambda>code.
            Inr (if plugin_error_code code \<ge> 0 then MOSQ_ERR_SUCCESS else MOSQ_ERR_ACL_DENIED)))"

definition auth_unpwd_check ::
    "plugin_env \<Rightarrow> auth_plugin \<Rightarrow> mosq_peer \<Rightarrow> string option \<Rightarrow> string option \<Rightarrow> int outcome" where
  "auth_unpwd_check env ctx client username password =
     (case (username, password) of
        (Some u, Some p) \<Rightarrow>
          obind (AuthPlugin_CheckUser env ctx client (c_str u) (c_str p)) (\<lambda>code.
            Inr (if plugin_error_code code \<ge> 0 then MOSQ_ERR_SUCCESS else MOSQ_ERR_ACL_DENIED))
      | _ \<Rightarrow> Inl Null_Deref)"

section \<open>Lemmas\<close>

lemma plugin_http_headers:
  "hw_headers (plugin_http version junk) =
     [(''Connection'', ''Close''), (''Content-Type'', ''application/json''), (''User-Agent'', version)]"
  "hw_status_code (plugin_http version junk) = junk" "hw_body (plugin_http version junk) = []"
  by (simp_all add: plugin_http_def HttpWrapper_SetHeader_def HttpWrapper_new_def Multi_Append_def)

text \<open>The verdict on what curl delivered for a posted document.\<close>

definition verdict :: "plugin_env \<Rightarrow> (int \<times> string list \<times> string list) option \<Rightarrow> plugin_error outcome" where
  "verdict env r =
     (let (status, body) = (case r of None \<Rightarrow> (pe_junk_status env, []) | Some (st, hs, cs) \<Rightarrow> (st, concat cs))
      in if status = 200
         then obind (JsonDocument_Parse (pe_io env) body JsonDocument) (\<lambda>(_, resp).
              obind (Json_Get_int resp ''code'') (\<lambda>code.
                Inr (if code = Some 0 then NoError else Failed)))
         else Inr Failed)"

definition service_request :: "string \<Rightarrow> string \<Rightarrow> curl_request" where
  "service_request url data =
     \<lparr>cr_url = c_str url, cr_post = True, cr_post_fields = (if data = [] then None else Some data),
      cr_headers = [''Connection:Close'', ''Content-Type:application/json'', ''User-Agent:mosqauth/1.6.9.1''],
      cr_proxy = None, cr_timeout = 30\<rparr>"

lemma ask_service_verdict:
  "ask_service env url doc = verdict env (pe_curl env (service_request url (JsonDocument_Write (pe_io env) False doc)))"
proof -
  let ?w = "plugin_http ''mosqauth/1.6.9.1'' (pe_junk_status env)"
  have "hw_headers ?w \<noteq> []" "list_all entry_ok (hw_headers ?w)"
    by (simp_all add: plugin_http_headers entry_ok_def)
  from Post_result [OF this] show ?thesis
    by (auto simp: ask_service_def HttpWrapper_Text_def
        wrapper_request_def wrapper_result_def service_request_def verdict_def plugin_http_headers
        split: option.splits)
qed

definition user_doc :: "string \<Rightarrow> string \<Rightarrow> string \<Rightarrow> string \<Rightarrow> json" where
  "user_doc node cid user pass =
     JObject [(''clientid'', JString cid), (''name'', JString node), (''password'', JString pass),
       (''username'', JString user)]"

lemma CheckUser_eq:
  assumes "ap_checkuser_url ctx \<noteq> []" and "mq_id client = Some cid"
  shows "AuthPlugin_CheckUser env ctx client user pass =
    (if prefix ''mosqcluster'' (c_str cid) then Inr NoError
     else verdict env (pe_curl env (service_request (ap_checkuser_url ctx)
            (JsonDocument_Write (pe_io env) False (user_doc (ap_node_name ctx) (c_str cid) user pass)))))"
  using assms
  by (simp add: AuthPlugin_CheckUser_def find_prefix Json_Set_string_def JsonDocument_def json_simps
      ask_service_verdict user_doc_def Let_def)

text \<open>
  The service behind the network: curl's post reaches the route table as a request with the URL's
  path and the posted body, and the answer comes back as one chunk; a procedure that throws ends the
  connection.
\<close>

definition service_curl :: "real_io \<Rightarrow> mosq_manager \<Rightarrow> string \<Rightarrow> curl" where
  "service_curl io m path req =
     (let rq = HttpRequest_new 0 0\<lparr>rq_finished := True, rq_method := Some HTTP_POST, rq_url := Mstr path,
                 rq_body := Mstr (case cr_post_fields req of None \<Rightarrow> [] | Some b \<Rightarrow> b)\<rparr>
      in case Routes_Process (AuthServiceRoutes_InitTable io) rq HttpResponse_new m of
           Inr (ret, resp, _) \<Rightarrow> Some (rs_status resp, [], [c_str (mstr_str (rs_content resp))])
         | Inl _ \<Rightarrow> None)"

lemma user_doc_written [simp]:
  "JsonDocument_Parse io (JsonDocument_Write io pretty (user_doc node cid user pass)) doc = Inr (True, user_doc node cid user pass)"
  "JsonDocument_Write io pretty (user_doc node cid user pass) \<noteq> []"
  by (simp_all add: user_doc_def flat_object_def amap_ok_def)

lemma service_answer:
  assumes "mm_lock m \<noteq> Wild_Lock"
  shows "service_curl io m ''/mosquitto/checkuser''
      (service_request url (JsonDocument_Write io False (user_doc node cid user pass))) =
    Some (200, [], [JsonDocument_Write io False (answer_doc
      ((mm_trust_username m = user \<and> mm_trust_password m = pass) \<or> prefix (mm_trust_prefix m) user))])"
proof -
  let ?data = "JsonDocument_Write io False (user_doc node cid user pass)"
  let ?g = "(mm_trust_username m = user \<and> mm_trust_password m = pass) \<or> prefix (mm_trust_prefix m) user"
  let ?rq = "HttpRequest_new 0 0\<lparr>rq_finished := True, rq_method := Some HTTP_POST,
      rq_url := Mstr ''/mosquitto/checkuser'', rq_body := Mstr ?data\<rparr>"
  have parse: "JsonDocument_Parse io (mstr_str (rq_body ?rq)) JsonDocument = Inr (True, user_doc node cid user pass)"
    by simp
  have "Routes_Process (AuthServiceRoutes_InitTable io) ?rq HttpResponse_new m = RouteCheckUser_Process io ?rq HttpResponse_new m"
    by (rule table_check_user) simp_all
  also have "\<dots> = Inr (0, SetContent (Mstr (JsonDocument_Write io False (answer_doc ?g)))
      (MosqAuthRouteProc_Process HttpResponse_new), m)"
    unfolding RouteCheckUser_decision [OF assms] parse by (simp add: user_doc_def text_member_def)
  finally show ?thesis
    by (simp add: service_curl_def service_request_def SetContent_def MosqAuthRouteProc_Process_def
        SetHeader_def SetStatus_def)
qed

section \<open>Properties\<close>

text \<open>C5: plugin and service agree.  With a service URL configured, a client whose id does not start
  with the cluster prefix and a network that delivers requests and answers, the broker accepts a user exactly when the manager behind the route does.\<close>

theorem plugin_agrees_with_service:
  assumes "pe_curl env = service_curl (pe_io env) m ''/mosquitto/checkuser''"
    and "mm_lock m \<noteq> Wild_Lock" and "ap_checkuser_url ctx \<noteq> []"
    and "mq_id client = Some cid" and "\<not> prefix ''mosqcluster'' (c_str cid)"
  shows "auth_unpwd_check env ctx client (Some user) (Some pass) =
    obind (Manager_CheckUser m (ap_node_name ctx) (c_str cid) (c_str user) (c_str pass)) (\<lambda>granted.
      Inr (if granted then MOSQ_ERR_SUCCESS else MOSQ_ERR_ACL_DENIED))"
proof -
  let ?ok = "(mm_trust_username m = c_str user \<and> mm_trust_password m = c_str pass) \<or>
    prefix (mm_trust_prefix m) (c_str user)"
  have "AuthPlugin_CheckUser env ctx client (c_str user) (c_str pass) = Inr (if ?ok then NoError else Failed)"
    using assms
    by (simp add: CheckUser_eq service_answer verdict_def Json_Get_int_def)
      (simp add: answer_doc_def json_simps json_is_int_def json_as_int_def)
  then show ?thesis
    using assms(2) by (simp add: auth_unpwd_check_def CheckUser_decision plugin_error_code_def)
qed

definition example_env :: "mosq_manager \<Rightarrow> plugin_env" where
  "example_env m = \<lparr>pe_curl = service_curl example_io m ''/mosquitto/checkuser'', pe_io = example_io, pe_junk_status = 0\<rparr>"

lemma plugin_agrees_with_service_witness:
  "auth_unpwd_check (example_env (MosquittoContextManager_new Null_Lock ''u'' ''p'' ''dev''))
     (AuthPluginContext_new\<lparr>ap_checkuser_url := ''http://auth/mosquitto/checkuser''\<rparr>)
     \<lparr>mq_id = Some ''c1''\<rparr> (Some ''u'') (Some ''wrong'') = Inr MOSQ_ERR_ACL_DENIED"
  by (subst plugin_agrees_with_service [where m = "MosquittoContextManager_new Null_Lock ''u'' ''p'' ''dev''" and cid = "''c1''"])
    (simp_all add: example_env_def MosquittoContextManager_new_def
      AuthPluginContext_new_def CheckUser_decision c_str_def)

text \<open>C21: a configured check fails closed: when the transfer fails, whatever the status field of the
  fresh response happens to hold, the user is denied: the empty text it answers with leaves no code in
  the document.\<close>

theorem check_user_fails_closed:
  assumes "ap_checkuser_url ctx \<noteq> []" and "mq_id client = Some cid" and "\<not> prefix ''mosqcluster'' (c_str cid)"
    and "\<And>req. pe_curl env req = None"
  shows "auth_unpwd_check env ctx client (Some user) (Some pass) = Inr MOSQ_ERR_ACL_DENIED"
proof -
  have "AuthPlugin_CheckUser env ctx client u p = Inr Failed" for u p
    using assms
    by (simp add: CheckUser_eq verdict_def Json_Get_int_def JsonDocument_def json_simps)
  then show ?thesis by (simp add: auth_unpwd_check_def plugin_error_code_def)
qed

lemma check_user_fails_closed_witness:
  "auth_unpwd_check \<lparr>pe_curl = \<lambda>_. None, pe_io = example_io, pe_junk_status = 200\<rparr>
     (AuthPluginContext_new\<lparr>ap_checkuser_url := ''u''\<rparr>) \<lparr>mq_id = Some ''c1''\<rparr> (Some ''a'') (Some ''b'') =
   Inr MOSQ_ERR_ACL_DENIED"
  by (rule check_user_fails_closed [where cid = "''c1''"]) (simp_all add: c_str_def)

text \<open>C34: the check is skipped, and the user accepted with any password, when no URL is configured or
  the client chose an id starting with \<open>mosqcluster\<close>.\<close>

theorem check_user_bypass:
  "(\<exists>cid. mq_id client = Some cid \<and> prefix ''mosqcluster'' cid) \<or> ap_checkuser_url ctx = [] \<Longrightarrow>
    auth_unpwd_check env ctx client (Some user) (Some pass) = Inr MOSQ_ERR_SUCCESS"
proof -
  assume *: "(\<exists>cid. mq_id client = Some cid \<and> prefix ''mosqcluster'' cid) \<or> ap_checkuser_url ctx = []"
  have "prefix ''mosqcluster'' (c_str cid)" if "prefix ''mosqcluster'' cid" for cid
    using that by (auto simp: prefix_def c_str_def)
  then show ?thesis
    using * by (auto simp: auth_unpwd_check_def AuthPlugin_CheckUser_def find_prefix plugin_error_code_def Let_def)
qed

lemma check_user_bypass_witness:
  "auth_unpwd_check (example_env (MosquittoContextManager_new Null_Lock [] [] ''x''))
     (AuthPluginContext_new\<lparr>ap_checkuser_url := ''u''\<rparr>)
     \<lparr>mq_id = Some ''mosqcluster/evil''\<rparr> (Some ''root'') (Some []) = Inr MOSQ_ERR_SUCCESS"
  by (rule check_user_bypass) simp

text \<open>A reload with any options leaves the node name and both URLs as they were.\<close>

theorem reload_keeps_urls:
  "snd (auth_security_init fs opts reload (Some ctx)) = Some ctx' \<Longrightarrow>
    ap_node_name ctx' = ap_node_name ctx \<and> ap_checkuser_url ctx' = ap_checkuser_url ctx \<and>
    ap_checkacl_url ctx' = ap_checkacl_url ctx"
proof -
  assume *: "snd (auth_security_init fs opts reload (Some ctx)) = Some ctx'"
  have "ap_node_name c' = ap_node_name c \<and> ap_checkuser_url c' = ap_checkuser_url c \<and>
      ap_checkacl_url c' = ap_checkacl_url c"
    if "c' = fold (\<lambda>(k, v). AuthPlugin_SetOpt (c_str k) (c_str v)) opts c" for c c'
    using that by (induction opts arbitrary: c) (auto simp: AuthPlugin_SetOpt_def)
  with * show ?thesis
    by (auto simp: auth_security_init_def AuthPlugin_Initialize_def split: if_splits)
qed

lemma reload_keeps_urls_witness:
  "ap_checkuser_url (the (snd (auth_security_init (\<lambda>_. None) [(''auth_config_file'', ''new.conf'')] True
     (Some AuthPluginContext_new)))) = []"
  using reload_keeps_urls [of "\<lambda>_. None" "[(''auth_config_file'', ''new.conf'')]" True AuthPluginContext_new]
  by (simp add: auth_security_init_def AuthPluginContext_new_def)

end
