(* ===== verification/Task_Queue.thy ===== *)
theory Task_Queue
  imports Prelude
begin

text \<open>
  \<open>helper/task_queue_posix.h\<close>, \<open>waitable_impl_posix.cpp\<close>, \<open>lock_impl_posix.cpp\<close>: the queue between
  threads, as a step relation.  A thread's position in \<open>Push\<close> or \<open>Get\<close> is its program counter; a
  step is one call on the mutex or the condition variable, or one access to the queue.
  \<open>pthread_cond_wait\<close> releases the mutex and blocks in one step, may wake without a broadcast, and
  takes the mutex again before it returns.
\<close>

datatype 'a pc =
    Idle
  | Push_Acquire 'a   \<comment> \<open>in \<open>Push\<close>, before \<open>Acquire\<close>\<close>
  | Push_Insert 'a    \<comment> \<open>holds the lock, before \<open>queue_.push\<close>\<close>
  | Push_Release      \<comment> \<open>holds the lock, before \<open>Release\<close>\<close>
  | Push_Broadcast
  | Get_Acquire       \<comment> \<open>in \<open>Wait\<close>, before \<open>lock_.Acquire\<close>\<close>
  | Get_Check         \<comment> \<open>holds the lock, before \<open>checker->wait()\<close>\<close>
  | Get_Blocked       \<comment> \<open>in \<open>pthread_cond_wait\<close>\<close>
  | Get_Woken         \<comment> \<open>woken, before taking the mutex again\<close>
  | Get_Take          \<comment> \<open>holds the lock, \<open>Wait\<close> returned 0\<close>
  | Get_Release "'a option" \<comment> \<open>holds the lock, with the result of \<open>Get\<close>\<close>

text \<open>The two histories record what was pushed and what was taken, in order.\<close>

record 'a tq_state =
  tq_lock :: "nat option"
  tq_queue :: "'a list"
  tq_pc :: "nat \<Rightarrow> 'a pc"
  tq_pushed :: "'a list"
  tq_taken :: "'a list"

definition TaskQueue_new :: "'a tq_state" where
  "TaskQueue_new = \<lparr>tq_lock = None, tq_queue = [], tq_pc = \<lambda>_. Idle, tq_pushed = [], tq_taken = []\<rparr>"

abbreviation at_pc :: "'a tq_state \<Rightarrow> nat \<Rightarrow> 'a pc \<Rightarrow> 'a tq_state" where
  "at_pc s t p \<equiv> s\<lparr>tq_pc := (tq_pc s)(t := p)\<rparr>"

inductive push_step :: "nat \<Rightarrow> 'a tq_state \<Rightarrow> 'a tq_state \<Rightarrow> bool" where
  push_call: "tq_pc s t = Idle \<Longrightarrow> push_step t s (at_pc s t (Push_Acquire v))"
| push_acquire: "tq_pc s t = Push_Acquire v \<Longrightarrow> tq_lock s = None \<Longrightarrow>
    push_step t s (at_pc (s\<lparr>tq_lock := Some t\<rparr>) t (Push_Insert v))"
| push_insert: "tq_pc s t = Push_Insert v \<Longrightarrow>
    push_step t s (at_pc (s\<lparr>tq_queue := tq_queue s @ [v], tq_pushed := tq_pushed s @ [v]\<rparr>) t Push_Release)"
| push_release: "tq_pc s t = Push_Release \<Longrightarrow>
    push_step t s (at_pc (s\<lparr>tq_lock := None\<rparr>) t Push_Broadcast)"
| push_broadcast: "tq_pc s t = Push_Broadcast \<Longrightarrow>
    push_step t s (s\<lparr>tq_pc := (\<lambda>u. if tq_pc s u = Get_Blocked then Get_Woken else tq_pc s u)(t := Idle)\<rparr>)"

text \<open>\<open>Wait(-1, this)\<close>: it returns 0 with the lock held.\<close>

inductive wait_step :: "nat \<Rightarrow> 'a tq_state \<Rightarrow> 'a tq_state \<Rightarrow> bool" where
  wait_acquire: "tq_pc s t = Get_Acquire \<Longrightarrow> tq_lock s = None \<Longrightarrow>
    wait_step t s (at_pc (s\<lparr>tq_lock := Some t\<rparr>) t Get_Check)"
| wait_ready: "tq_pc s t = Get_Check \<Longrightarrow> tq_queue s \<noteq> [] \<Longrightarrow> wait_step t s (at_pc s t Get_Take)"
| wait_block: "tq_pc s t = Get_Check \<Longrightarrow> tq_queue s = [] \<Longrightarrow>
    wait_step t s (at_pc (s\<lparr>tq_lock := None\<rparr>) t Get_Blocked)"
| wait_wake: "tq_pc s t = Get_Woken \<Longrightarrow> tq_lock s = None \<Longrightarrow>
    wait_step t s (at_pc (s\<lparr>tq_lock := Some t\<rparr>) t Get_Take)"

inductive get_step :: "nat \<Rightarrow> 'a tq_state \<Rightarrow> 'a tq_state \<Rightarrow> bool" where
  get_call: "tq_pc s t = Idle \<Longrightarrow> get_step t s (at_pc s t Get_Acquire)"
| get_wait: "wait_step t s s' \<Longrightarrow> get_step t s s'"
| get_take: "tq_pc s t = Get_Take \<Longrightarrow> tq_queue s = x # q \<Longrightarrow>
    get_step t s (at_pc (s\<lparr>tq_queue := q, tq_taken := tq_taken s @ [x]\<rparr>) t (Get_Release (Some x)))"
| get_none: "tq_pc s t = Get_Take \<Longrightarrow> tq_queue s = [] \<Longrightarrow> get_step t s (at_pc s t (Get_Release None))"
| get_release: "tq_pc s t = Get_Release r \<Longrightarrow> get_step t s (at_pc (s\<lparr>tq_lock := None\<rparr>) t Idle)"

text \<open>A step of any thread; a blocked one may also wake by itself.\<close>

inductive tq_step :: "'a tq_state \<Rightarrow> 'a tq_state \<Rightarrow> bool" where
  step_push: "push_step t s s' \<Longrightarrow> tq_step s s'"
| step_get: "get_step t s s' \<Longrightarrow> tq_step s s'"
| step_spurious: "tq_pc s t = Get_Blocked \<Longrightarrow> tq_step s (at_pc s t Get_Woken)"

inductive tq_reach :: "'a tq_state \<Rightarrow> bool" where
  reach_init: "tq_reach TaskQueue_new"
| reach_step: "tq_reach s \<Longrightarrow> tq_step s s' \<Longrightarrow> tq_reach s'"

inductive_cases push_stepE: "push_step t s s'"
inductive_cases wait_stepE: "wait_step t s s'"
inductive_cases get_step_casesE: "get_step t s s'"
inductive_cases tq_stepE: "tq_step s s'"

section \<open>The invariant\<close>

text \<open>Where a thread holds the lock.\<close>

definition holds_lock :: "'a pc \<Rightarrow> bool" where
  "holds_lock p = (case p of Push_Insert _ \<Rightarrow> True | Push_Release \<Rightarrow> True | Get_Check \<Rightarrow> True
     | Get_Take \<Rightarrow> True | Get_Release _ \<Rightarrow> True | _ \<Rightarrow> False)"

lemma holds_lock_simps [simp]:
  "\<not> holds_lock Idle" "\<not> holds_lock (Push_Acquire v)" "holds_lock (Push_Insert v)" "holds_lock Push_Release"
  "\<not> holds_lock Push_Broadcast" "\<not> holds_lock Get_Acquire" "holds_lock Get_Check" "\<not> holds_lock Get_Blocked"
  "\<not> holds_lock Get_Woken" "holds_lock Get_Take" "holds_lock (Get_Release r)"
  by (simp_all add: holds_lock_def)

definition tq_inv :: "'a tq_state \<Rightarrow> bool" where
  "tq_inv s \<longleftrightarrow>
     (\<forall>t. holds_lock (tq_pc s t) \<longleftrightarrow> tq_lock s = Some t) \<and>
     tq_pushed s = tq_taken s @ tq_queue s \<and>
     (tq_queue s \<noteq> [] \<longrightarrow> (\<exists>t. tq_pc s t = Get_Blocked) \<longrightarrow>
        (\<exists>p. tq_pc s p = Push_Release \<or> tq_pc s p = Push_Broadcast))"

lemma tq_invI:
  assumes "\<And>t. holds_lock (tq_pc s t) \<longleftrightarrow> tq_lock s = Some t"
    and "tq_pushed s = tq_taken s @ tq_queue s"
    and "\<And>t. tq_queue s \<noteq> [] \<Longrightarrow> tq_pc s t = Get_Blocked \<Longrightarrow>
      \<exists>p. tq_pc s p = Push_Release \<or> tq_pc s p = Push_Broadcast"
  shows "tq_inv s"
  using assms unfolding tq_inv_def by blast

lemma tq_invD:
  assumes "tq_inv s"
  shows "holds_lock (tq_pc s t) \<longleftrightarrow> tq_lock s = Some t"
    and "tq_pushed s = tq_taken s @ tq_queue s"
    and "tq_queue s \<noteq> [] \<Longrightarrow> tq_pc s t = Get_Blocked \<Longrightarrow>
      \<exists>p. tq_pc s p = Push_Release \<or> tq_pc s p = Push_Broadcast"
  using assms unfolding tq_inv_def by blast+

lemma tq_inv_lock: "tq_inv s \<Longrightarrow> holds_lock (tq_pc s t) \<Longrightarrow> holds_lock (tq_pc s u) \<Longrightarrow> t = u"
  by (auto simp: tq_invD(1))

text \<open>A witness for the third clause survives a step of another thread.\<close>

lemma pending_other:
  assumes "\<exists>p. tq_pc s p = Push_Release \<or> tq_pc s p = Push_Broadcast"
    and "tq_pc s t \<noteq> Push_Release" and "tq_pc s t \<noteq> Push_Broadcast"
  shows "\<exists>p. ((tq_pc s)(t := q)) p = Push_Release \<or> ((tq_pc s)(t := q)) p = Push_Broadcast"
proof -
  from assms(1) obtain p where p: "tq_pc s p = Push_Release \<or> tq_pc s p = Push_Broadcast" ..
  with assms(2,3) have "p \<noteq> t" by auto
  with p show ?thesis by (intro exI [of _ p]) simp
qed

lemma tq_inv_push:
  assumes "tq_inv s" and "push_step t s s'"
  shows "tq_inv s'"
proof (rule tq_invI)
  fix u
  show "holds_lock (tq_pc s' u) \<longleftrightarrow> tq_lock s' = Some u"
    using assms(2) tq_invD(1) [OF assms(1), of u] tq_invD(1) [OF assms(1), of t] by cases auto
  show "tq_pushed s' = tq_taken s' @ tq_queue s'"
    using assms(2) tq_invD(2) [OF assms(1)] by cases auto
  assume q: "tq_queue s' \<noteq> []" and u: "tq_pc s' u = Get_Blocked"
  from assms(2) show "\<exists>p. tq_pc s' p = Push_Release \<or> tq_pc s' p = Push_Broadcast"
  proof cases
    case (push_call v)
    with q u have "tq_queue s \<noteq> []" "tq_pc s u = Get_Blocked" by (auto split: if_splits)
    from pending_other [OF tq_invD(3) [OF assms(1) this], of t] push_call show ?thesis by simp
  next
    case (push_acquire v)
    with q u have "tq_queue s \<noteq> []" "tq_pc s u = Get_Blocked" by (auto split: if_splits)
    from pending_other [OF tq_invD(3) [OF assms(1) this], of t] push_acquire show ?thesis by simp
  next
    case (push_insert v)
    then show ?thesis by (intro exI [of _ t]) simp
  next
    case push_release
    then show ?thesis by (intro exI [of _ t]) simp
  next
    case push_broadcast
    with u show ?thesis by (auto split: if_splits)
  qed
qed

lemma tq_inv_get:
  assumes "tq_inv s" and "get_step t s s'"
  shows "tq_inv s'"
proof (rule tq_invI)
  fix u
  show "holds_lock (tq_pc s' u) \<longleftrightarrow> tq_lock s' = Some u"
    using assms(2) tq_invD(1) [OF assms(1), of u] tq_invD(1) [OF assms(1), of t] by (cases; (elim wait_stepE)?; auto)
  show "tq_pushed s' = tq_taken s' @ tq_queue s'"
    using assms(2) tq_invD(2) [OF assms(1)] by (cases; (elim wait_stepE)?; auto)
  assume q: "tq_queue s' \<noteq> []" and u: "tq_pc s' u = Get_Blocked"
  have t: "tq_pc s t \<noteq> Push_Release" "tq_pc s t \<noteq> Push_Broadcast" "tq_queue s \<noteq> []"
    using assms(2) q by (cases; (elim wait_stepE)?; auto)+
  moreover have "tq_pc s u = Get_Blocked"
    using assms(2) q u by (cases; (elim wait_stepE)?; auto split: if_splits)
  moreover have "\<exists>r. tq_pc s' = (tq_pc s)(t := r)"
    using assms(2) by (cases; (elim wait_stepE)?; auto)
  ultimately show "\<exists>p. tq_pc s' p = Push_Release \<or> tq_pc s' p = Push_Broadcast"
    using pending_other [OF tq_invD(3) [OF assms(1)], of u t] by auto
qed

lemma tq_inv_spurious:
  assumes "tq_inv s" and "tq_pc s t = Get_Blocked"
  shows "tq_inv (at_pc s t Get_Woken)"
proof (rule tq_invI)
  fix u
  show "holds_lock (tq_pc (at_pc s t Get_Woken) u) \<longleftrightarrow> tq_lock (at_pc s t Get_Woken) = Some u"
    using assms(2) tq_invD(1) [OF assms(1), of u] by auto
  show "tq_pushed (at_pc s t Get_Woken) = tq_taken (at_pc s t Get_Woken) @ tq_queue (at_pc s t Get_Woken)"
    using tq_invD(2) [OF assms(1)] by simp
  assume "tq_queue (at_pc s t Get_Woken) \<noteq> []"
  then have "tq_queue s \<noteq> []" by simp
  from pending_other [OF tq_invD(3) [OF assms(1) this assms(2)], of t] assms(2)
  show "\<exists>p. tq_pc (at_pc s t Get_Woken) p = Push_Release \<or> tq_pc (at_pc s t Get_Woken) p = Push_Broadcast"
    by simp
qed

lemma tq_inv_step: "tq_inv s \<Longrightarrow> tq_step s s' \<Longrightarrow> tq_inv s'"
  by (erule tq_stepE) (blast intro: tq_inv_push tq_inv_get, blast intro: tq_inv_get, blast intro: tq_inv_spurious)

lemma tq_inv_new: "tq_inv TaskQueue_new"
  by (simp add: tq_inv_def TaskQueue_new_def)

lemma tq_reach_inv: "tq_reach s \<Longrightarrow> tq_inv s"
  by (induction rule: tq_reach.induct) (blast intro: tq_inv_step tq_inv_new)+

section \<open>Properties\<close>



text \<open>C24: no wake-up is lost and the lock excludes: in every reachable state at most one thread is
  between an acquire and its release, and while an element waits in the queue and a thread blocks in
  \<open>Get\<close>, some pusher has its broadcast still to make.\<close>

theorem queue_no_lost_wakeup:
  assumes "tq_reach s"
  shows "(holds_lock (tq_pc s t) \<and> holds_lock (tq_pc s u) \<longrightarrow> t = u) \<and>
    (tq_queue s \<noteq> [] \<and> tq_pc s t = Get_Blocked \<longrightarrow>
      (\<exists>p. tq_pc s p = Push_Release \<or> tq_pc s p = Push_Broadcast))"
  using tq_inv_lock [OF tq_reach_inv [OF assms]] tq_invD(3) [OF tq_reach_inv [OF assms]] by blast

lemma queue_no_lost_wakeup_witness:
  "\<exists>s :: nat tq_state. tq_reach s \<and> tq_pc s 1 = Push_Acquire 7 \<and>
    (holds_lock (tq_pc s 1) \<and> holds_lock (tq_pc s 2) \<longrightarrow> (1 :: nat) = 2)"
proof -
  let ?s = "at_pc TaskQueue_new 1 (Push_Acquire (7 :: nat))"
  have "tq_reach ?s"
    by (rule reach_step [OF reach_init]) (rule step_push, rule push_call, simp add: TaskQueue_new_def)
  moreover from queue_no_lost_wakeup [OF this, of 1 2] have "holds_lock (tq_pc ?s 1) \<and> holds_lock (tq_pc ?s 2) \<longrightarrow> (1 :: nat) = 2" ..
  ultimately show ?thesis by (intro exI [of _ ?s]) simp
qed

end
