(* ===== verification/Mosq_Client.thy ===== *)
theory Mosq_Client
  imports XString Task_Queue
begin

text \<open>
  \<open>mosquitto_cluster_plugin/mosq_client.cpp\<close>: the client of another broker.  Its two threads and \<open>Stop\<close>
  share the state variable \<open>state_\<close>; they are a step relation whose environment is the library's
  results.  Publishing and subscribing queue commands that the second thread runs.
\<close>

section \<open>The back-off\<close>

record mosqdelay =
  md_count :: int
  md_delay_base :: int
  md_delay_max :: int
  md_exponential_backoff :: bool
  md_delay :: int

definition mosqdelay_new :: "int \<Rightarrow> int \<Rightarrow> bool \<Rightarrow> mosqdelay" where
  "mosqdelay_new base mx backoff =
     \<lparr>md_count = 0, md_delay_base = base, md_delay_max = mx, md_exponential_backoff = backoff, md_delay = base\<rparr>"

definition mosqdelay_get :: "mosqdelay \<Rightarrow> int \<times> mosqdelay" where
  "mosqdelay_get d =
     (if md_delay d < md_delay_max d then
        let delay1 = (if md_exponential_backoff d
                      then md_delay d * (md_count d + 1) * (md_count d + 1)
                      else md_delay d * (md_count d + 1));
            delay2 = (if delay1 > md_delay_max d then md_delay_max d else delay1)
        in (delay2, d\<lparr>md_delay := delay2, md_count := md_count d + 1\<rparr>)
      else (md_delay_max d, d\<lparr>md_delay := md_delay_max d\<rparr>))"

fun delays :: "nat \<Rightarrow> mosqdelay \<Rightarrow> int list" where
  "delays 0 d = []"
| "delays (Suc n) d = (let (x, d') = mosqdelay_get d in x # delays n d')"

section \<open>The client\<close>

datatype mosq_command =
    Cmd_Publish int mstr mstr int bool
  | Cmd_Subscribe int mstr int
  | Cmd_Unsubscribe int mstr

datatype running_state = Stopped | Running | Stopping | Reconnecting

record mosq_client =
  mq_state :: running_state
  mq_clean_session :: bool
  mq_keep_alive :: int
  mq_client_id :: string
  mq_username :: string
  mq_password :: string
  mq_host :: string
  mq_port :: int
  mq_commands :: "mosq_command list"
  mq_command_id :: int

definition MosqClient_new :: mosq_client where
  "MosqClient_new =
     \<lparr>mq_state = Stopped, mq_clean_session = True, mq_keep_alive = 10, mq_client_id = [], mq_username = [],
      mq_password = [], mq_host = ''127.0.0.1'', mq_port = 1883, mq_commands = [], mq_command_id = 0\<rparr>"

definition set_clean_session :: "bool \<Rightarrow> mosq_client \<Rightarrow> mosq_client" where
  "set_clean_session v c = c\<lparr>mq_clean_session := v\<rparr>"

definition set_keep_alive :: "int \<Rightarrow> mosq_client \<Rightarrow> mosq_client" where
  "set_keep_alive v c = c\<lparr>mq_keep_alive := v\<rparr>"

definition set_client_id :: "string \<Rightarrow> mosq_client \<Rightarrow> mosq_client" where
  "set_client_id v c = c\<lparr>mq_client_id := v\<rparr>"

definition set_username :: "string \<Rightarrow> mosq_client \<Rightarrow> mosq_client" where
  "set_username v c = c\<lparr>mq_username := v\<rparr>"

definition set_password :: "string \<Rightarrow> mosq_client \<Rightarrow> mosq_client" where
  "set_password v c = c\<lparr>mq_password := v\<rparr>"

definition set_host :: "string \<Rightarrow> mosq_client \<Rightarrow> mosq_client" where
  "set_host v c = c\<lparr>mq_host := v\<rparr>"

definition set_port :: "int \<Rightarrow> mosq_client \<Rightarrow> mosq_client" where
  "set_port v c = c\<lparr>mq_port := v\<rparr>"

text \<open>The atomic counter of 64 bits, and the command id of 32.\<close>

definition next_command_id :: "mosq_client \<Rightarrow> int \<times> mosq_client" where
  "next_command_id c =
     (let v = signed_take_bit 63 (mq_command_id c + 1) in (v, c\<lparr>mq_command_id := v\<rparr>))"

definition Client_Publish :: "string \<Rightarrow> string \<Rightarrow> int \<Rightarrow> bool \<Rightarrow> mosq_client \<Rightarrow> int \<times> mosq_client" where
  "Client_Publish topic payload qos retain c =
     (let (v, c1) = next_command_id c; cid = signed_take_bit 31 v
      in (cid, c1\<lparr>mq_commands := mq_commands c1 @ [Cmd_Publish cid (Mstr (c_str topic)) (Mstr payload) qos retain]\<rparr>))"

definition Client_Subscribe :: "string \<Rightarrow> int \<Rightarrow> mosq_client \<Rightarrow> int \<times> mosq_client" where
  "Client_Subscribe topic qos c =
     (let (v, c1) = next_command_id c; cid = signed_take_bit 31 v
      in (cid, c1\<lparr>mq_commands := mq_commands c1 @ [Cmd_Subscribe cid (Mstr (c_str topic)) qos]\<rparr>))"

definition Client_Unsubscribe :: "string \<Rightarrow> mosq_client \<Rightarrow> int \<times> mosq_client" where
  "Client_Unsubscribe topic c =
     (let (v, c1) = next_command_id c; cid = signed_take_bit 31 v
      in (cid, c1\<lparr>mq_commands := mq_commands c1 @ [Cmd_Unsubscribe cid (Mstr (c_str topic))]\<rparr>))"

text \<open>\<open>Run\<close>: what the library is called with.\<close>

datatype mosq_call =
    Call_publish mstr mstr int bool
  | Call_subscribe mstr int
  | Call_unsubscribe mstr

fun Command_Run :: "mosq_command \<Rightarrow> mosq_call" where
  "Command_Run (Cmd_Publish cid topic payload qos retain) = Call_publish topic payload qos retain"
| "Command_Run (Cmd_Subscribe cid topic qos) = Call_subscribe topic qos"
| "Command_Run (Cmd_Unsubscribe cid topic) = Call_unsubscribe topic"

section \<open>The threads\<close>

text \<open>Program counters of \<open>SubscribeLoop\<close>, \<open>PublishLoop\<close> and \<open>Stop\<close>.\<close>

datatype sub_pc =
    Sub_Test        \<comment> \<open>\<open>while (state_ != Stopping)\<close>\<close>
  | Sub_Connect     \<comment> \<open>before \<open>mosquitto_connect\<close> or \<open>mosquitto_reconnect\<close>\<close>
  | Sub_Connected   \<comment> \<open>the connection succeeded, before \<open>state_ = Running\<close>\<close>
  | Sub_Loop        \<comment> \<open>before \<open>mosquitto_loop\<close>\<close>
  | Sub_Loop_Test bool \<comment> \<open>after it, with whether it succeeded\<close>
  | Sub_Leave       \<comment> \<open>before \<open>state_ = Reconnecting\<close>\<close>
  | Sub_Sleep
  | Sub_Exit

datatype pub_pc =
    Pub_Test
  | Pub_Check       \<comment> \<open>\<open>if (state_ != Running)\<close>\<close>
  | Pub_Get         \<comment> \<open>in \<open>commands_.Get\<close>\<close>
  | Pub_Exit

datatype stop_pc = Stop_Call | Stop_Join_Pub | Stop_Join_Sub | Stop_Done

record client_threads =
  ct_state :: running_state
  ct_sub :: sub_pc
  ct_pub :: pub_pc
  ct_stop :: stop_pc
  ct_commands :: "mosq_command list"
  ct_calls :: "mosq_call list"

definition Client_Start :: "mosq_client \<Rightarrow> client_threads" where
  "Client_Start c =
     \<lparr>ct_state = mq_state c, ct_sub = Sub_Test, ct_pub = Pub_Test, ct_stop = Stop_Call,
      ct_commands = mq_commands c, ct_calls = []\<rparr>"

inductive sub_step :: "client_threads \<Rightarrow> client_threads \<Rightarrow> bool" where
  sub_go: "ct_sub s = Sub_Test \<Longrightarrow> ct_state s \<noteq> Stopping \<Longrightarrow> sub_step s (s\<lparr>ct_sub := Sub_Connect\<rparr>)"
| sub_end: "ct_sub s = Sub_Test \<Longrightarrow> ct_state s = Stopping \<Longrightarrow> sub_step s (s\<lparr>ct_sub := Sub_Exit\<rparr>)"
| sub_connect_ok: "ct_sub s = Sub_Connect \<Longrightarrow> sub_step s (s\<lparr>ct_sub := Sub_Connected\<rparr>)"
| sub_connect_fail: "ct_sub s = Sub_Connect \<Longrightarrow> sub_step s (s\<lparr>ct_sub := Sub_Sleep\<rparr>)"
| sub_running: "ct_sub s = Sub_Connected \<Longrightarrow> sub_step s (s\<lparr>ct_sub := Sub_Loop, ct_state := Running\<rparr>)"
| sub_loop: "ct_sub s = Sub_Loop \<Longrightarrow> sub_step s (s\<lparr>ct_sub := Sub_Loop_Test ok\<rparr>)"
| sub_again: "ct_sub s = Sub_Loop_Test ok \<Longrightarrow> ct_state s \<noteq> Stopping \<Longrightarrow> ok \<Longrightarrow> sub_step s (s\<lparr>ct_sub := Sub_Loop\<rparr>)"
| sub_break: "ct_sub s = Sub_Loop_Test ok \<Longrightarrow> \<not> (ct_state s \<noteq> Stopping \<and> ok) \<Longrightarrow> sub_step s (s\<lparr>ct_sub := Sub_Leave\<rparr>)"
| sub_leave: "ct_sub s = Sub_Leave \<Longrightarrow> sub_step s (s\<lparr>ct_sub := Sub_Sleep, ct_state := Reconnecting\<rparr>)"
| sub_slept: "ct_sub s = Sub_Sleep \<Longrightarrow> sub_step s (s\<lparr>ct_sub := Sub_Test\<rparr>)"

inductive pub_step :: "client_threads \<Rightarrow> client_threads \<Rightarrow> bool" where
  pub_go: "ct_pub s = Pub_Test \<Longrightarrow> ct_state s \<noteq> Stopping \<Longrightarrow> pub_step s (s\<lparr>ct_pub := Pub_Check\<rparr>)"
| pub_end: "ct_pub s = Pub_Test \<Longrightarrow> ct_state s = Stopping \<Longrightarrow> pub_step s (s\<lparr>ct_pub := Pub_Exit\<rparr>)"
| pub_sleep: "ct_pub s = Pub_Check \<Longrightarrow> ct_state s \<noteq> Running \<Longrightarrow> pub_step s (s\<lparr>ct_pub := Pub_Test\<rparr>)"
| pub_enter: "ct_pub s = Pub_Check \<Longrightarrow> ct_state s = Running \<Longrightarrow> pub_step s (s\<lparr>ct_pub := Pub_Get\<rparr>)"
| pub_run: "ct_pub s = Pub_Get \<Longrightarrow> ct_commands s = c # cs \<Longrightarrow>
    pub_step s (s\<lparr>ct_pub := Pub_Test, ct_commands := cs, ct_calls := ct_calls s @ [Command_Run c]\<rparr>)"

inductive stop_step :: "client_threads \<Rightarrow> client_threads \<Rightarrow> bool" where
  stop_call: "ct_stop s = Stop_Call \<Longrightarrow> stop_step s (s\<lparr>ct_stop := Stop_Join_Pub, ct_state := Stopping\<rparr>)"
| stop_join_pub: "ct_stop s = Stop_Join_Pub \<Longrightarrow> ct_pub s = Pub_Exit \<Longrightarrow> stop_step s (s\<lparr>ct_stop := Stop_Join_Sub\<rparr>)"
| stop_join_sub: "ct_stop s = Stop_Join_Sub \<Longrightarrow> ct_sub s = Sub_Exit \<Longrightarrow>
    stop_step s (s\<lparr>ct_stop := Stop_Done, ct_state := Stopped\<rparr>)"

inductive client_step :: "client_threads \<Rightarrow> client_threads \<Rightarrow> bool" where
  step_sub: "sub_step s s' \<Longrightarrow> client_step s s'"
| step_pub: "pub_step s s' \<Longrightarrow> client_step s s'"
| step_stop: "stop_step s s' \<Longrightarrow> client_step s s'"
| step_enqueue: "client_step s (s\<lparr>ct_commands := ct_commands s @ [c]\<rparr>)"

inductive client_steps :: "client_threads \<Rightarrow> client_threads \<Rightarrow> bool" where
  steps_refl: "client_steps s s"
| steps_step: "client_steps s s' \<Longrightarrow> client_step s' s'' \<Longrightarrow> client_steps s s''"

inductive_cases sub_stepE: "sub_step s s'"
inductive_cases pub_stepE: "pub_step s s'"
inductive_cases stop_stepE: "stop_step s s'"
inductive_cases client_stepE: "client_step s s'"

section \<open>Lemmas\<close>

text \<open>
  After \<open>Stop\<close> was called while the subscriber was in the inner loop: either it still is, or it has
  written another state over \<open>Stopping\<close>, and nothing writes \<open>Stopping\<close> a second time.
\<close>

definition in_session :: "sub_pc \<Rightarrow> bool" where
  "in_session p = (case p of Sub_Connected \<Rightarrow> True | Sub_Loop \<Rightarrow> True | Sub_Loop_Test _ \<Rightarrow> True | Sub_Leave \<Rightarrow> True | _ \<Rightarrow> False)"

definition stop_lost :: "client_threads \<Rightarrow> bool" where
  "stop_lost s \<longleftrightarrow> ct_stop s \<in> {Stop_Join_Pub, Stop_Join_Sub} \<and> ct_sub s \<noteq> Sub_Exit \<and>
     (ct_state s = Stopping \<longrightarrow> in_session (ct_sub s))"

lemma in_session_simps [simp]:
  "\<not> in_session Sub_Test" "\<not> in_session Sub_Connect" "in_session Sub_Connected" "in_session Sub_Loop"
  "in_session (Sub_Loop_Test ok)" "in_session Sub_Leave" "\<not> in_session Sub_Sleep" "\<not> in_session Sub_Exit"
  by (simp_all add: in_session_def)

lemma stop_lost_step: "client_step s s' \<Longrightarrow> stop_lost s \<Longrightarrow> stop_lost s'"
  by (erule client_stepE; (elim sub_stepE pub_stepE stop_stepE)?) (auto simp: stop_lost_def)

lemma stop_lost_steps: "client_steps s s' \<Longrightarrow> stop_lost s \<Longrightarrow> stop_lost s'"
  by (induction rule: client_steps.induct) (auto intro: stop_lost_step)

text \<open>The order of the library calls.\<close>

lemma calls_step:
  "client_step s s' \<Longrightarrow> \<exists>new. ct_calls s' @ map Command_Run (ct_commands s') =
     ct_calls s @ map Command_Run (ct_commands s) @ new"
  by (erule client_stepE; (elim sub_stepE pub_stepE stop_stepE)?) auto

lemma calls_steps:
  "client_steps s s' \<Longrightarrow> \<exists>new. ct_calls s' @ map Command_Run (ct_commands s') =
     ct_calls s @ map Command_Run (ct_commands s) @ new"
proof (induction rule: client_steps.induct)
  case (steps_step s s' s'')
  then show ?case using calls_step [OF steps_step(2)] by (metis append.assoc)
qed simp

section \<open>Properties\<close>

text \<open>The client waits 2, then 8, then 35 seconds for ever between attempts; a session that worked
  in between does not reset the back-off.\<close>

theorem backoff_sequence:
  "delays (n + 2) (mosqdelay_new 2 35 True) = 2 # 8 # replicate n 35"
proof -
  let ?d = "\<lparr>md_count = 2, md_delay_base = 2, md_delay_max = 35, md_exponential_backoff = True, md_delay = 8\<rparr>"
  have max: "delays k d = replicate k 35" if "md_delay d = 35" "md_delay_max d = 35" for k d
    using that by (induction k arbitrary: d) (auto simp: mosqdelay_get_def)
  have "delays n ?d = replicate n 35"
  proof (cases n)
    case (Suc k)
    then show ?thesis using max by (simp add: mosqdelay_get_def)
  qed simp
  then show ?thesis by (simp add: mosqdelay_new_def mosqdelay_get_def)
qed

text \<open>C16: a stop during a session is lost.  If \<open>Stop\<close> is called after a connection attempt succeeded and
  before the subscriber left the session, then in every continuation the subscriber never ends, and
  \<open>Stop\<close> never returns: leaving the session writes \<open>Reconnecting\<close> over \<open>Stopping\<close>.\<close>

theorem stop_during_session_is_lost:
  assumes "in_session (ct_sub s)" and "stop_step s s1" and "ct_stop s = Stop_Call" and "client_steps s1 s2"
  shows "ct_sub s2 \<noteq> Sub_Exit \<and> ct_stop s2 \<noteq> Stop_Done"
proof -
  have "stop_lost s1"
    using assms(2,1,3) by cases (auto simp: stop_lost_def)
  from stop_lost_steps [OF assms(4) this] show ?thesis by (auto simp: stop_lost_def)
qed

lemma stop_during_session_is_lost_witness:
  "ct_stop ((Client_Start MosqClient_new)\<lparr>ct_sub := Sub_Loop, ct_stop := Stop_Join_Pub, ct_state := Stopping\<rparr>) \<noteq> Stop_Done"
  using stop_during_session_is_lost [of "(Client_Start MosqClient_new)\<lparr>ct_sub := Sub_Loop\<rparr>"
      "(Client_Start MosqClient_new)\<lparr>ct_sub := Sub_Loop, ct_stop := Stop_Join_Pub, ct_state := Stopping\<rparr>"
      "(Client_Start MosqClient_new)\<lparr>ct_sub := Sub_Loop, ct_stop := Stop_Join_Pub, ct_state := Stopping\<rparr>"]
    stop_call [of "(Client_Start MosqClient_new)\<lparr>ct_sub := Sub_Loop\<rparr>"]
  by (simp add: Client_Start_def steps_refl)

text \<open>The library is called for the queued commands in the order they were queued: at any time the
  calls made are a prefix of the commands queued so far.\<close>

theorem commands_run_in_order:
  assumes "client_steps (Client_Start c) s"
  shows "\<exists>queued. ct_calls s @ map Command_Run (ct_commands s) = map Command_Run (mq_commands c) @ queued"
  using calls_steps [OF assms] by (simp add: Client_Start_def)

lemma commands_run_in_order_witness:
  "\<exists>queued. ct_calls (Client_Start MosqClient_new) @ map Command_Run (ct_commands (Client_Start MosqClient_new)) =
    map Command_Run (mq_commands MosqClient_new) @ queued"
  by (rule commands_run_in_order) (rule steps_refl)

end
