(* ===== verification/Cluster_Plugin.thy ===== *)
theory Cluster_Plugin
  imports Auth_Plugin Mosq_Client
begin

text \<open>
  \<open>mosquitto_cluster_plugin\<close>: the plugin that keeps a client for every other broker of the cluster and
  passes each message a local client publishes to all of them.  The linked list of nodes is a list;
  \<open>md5\<close> is an argument; starting a client's threads leaves its fields alone.
\<close>

record cluster_context =
  cc_config_file :: string
  cc_node_name :: string
  cc_api_join :: string
  cc_nodes :: "(mstr \<times> mosq_client) list"

definition ClusterPluginContext_new :: cluster_context where
  "ClusterPluginContext_new = \<lparr>cc_config_file = [], cc_node_name = [], cc_api_join = [], cc_nodes = []\<rparr>"

definition cluster_config_files :: "string list" where
  "cluster_config_files =
     [''/etc/mosquitto_cluster_plugin.conf'', ''/usr/etc/mosquitto_cluster_plugin.conf'',
      ''/usr/local/etc/mosquitto_cluster_plugin.conf'', ''mosquitto_cluster_plugin.conf'']"

definition Cluster_LoadConfig :: "file_system \<Rightarrow> string \<Rightarrow> cluster_context \<Rightarrow> cluster_context" where
  "Cluster_LoadConfig fs file ctx =
     (let conf = Config_LoadFile fs file (fold (Config_LoadFile fs) cluster_config_files Config_new)
      in ctx\<lparr>cc_node_name := Config_Get conf ''nodename'', cc_api_join := Config_Get conf ''api-join''\<rparr>)"

definition Cluster_SetOpt :: "string \<Rightarrow> string \<Rightarrow> cluster_context \<Rightarrow> cluster_context" where
  "Cluster_SetOpt key val ctx =
     (if key = ''cluster_config_file'' then ctx\<lparr>cc_config_file := val\<rparr> else ctx)"

section \<open>The node list\<close>

type_synonym hash = "string \<Rightarrow> string"

text \<open>The client of a new node, configured and started.\<close>

definition node_client :: "hash \<Rightarrow> string \<Rightarrow> mosq_client" where
  "node_client md5 name =
     (let c0 = MosqClient_new; v = Vector_Split (c_str name) '':'';
          c1 = (if length v = 2 then set_port (atoi (Vector_index v 1)) (set_host (Vector_index v 0) c0)
                else set_host (c_str name) c0);
          str = FormatV (''mosqcluster/'' @ c_str (md5 (c_str name)))
      in set_keep_alive 10 (set_clean_session True (set_password ''mosqcluster''
           (set_username ''mosqcluster'' (set_client_id str c1)))))"

definition MaintainProxyInstances :: "hash \<Rightarrow> string \<Rightarrow> cluster_context \<Rightarrow> cluster_context" where
  "MaintainProxyInstances md5 name ctx =
     (if list_ex (\<lambda>n. fst n = Mstr name) (cc_nodes ctx) then ctx
      else ctx\<lparr>cc_nodes := cc_nodes ctx @ [(Mstr name, node_client md5 name)]\<rparr>)"

definition MaintainProxyInstances_all :: "hash \<Rightarrow> string list \<Rightarrow> cluster_context \<Rightarrow> cluster_context" where
  "MaintainProxyInstances_all md5 nodes ctx =
     fold (\<lambda>name c. if cc_node_name c = name then c else MaintainProxyInstances md5 name c) nodes ctx"

text \<open>The join request; its failure leaves the list empty.\<close>

definition Cluster_Initialize ::
    "plugin_env \<Rightarrow> file_system \<Rightarrow> hash \<Rightarrow> bool \<Rightarrow> cluster_context \<Rightarrow> cluster_context outcome" where
  "Cluster_Initialize env fs md5 reload ctx =
     (if reload then Inr ctx
      else let ctx1 = Cluster_LoadConfig fs (cc_config_file ctx) ctx in
        obind (Json_Set_string JsonDocument ''action'' ''join'') (\<lambda>d1.
        obind (Json_Set_string d1 ''node'' (cc_node_name ctx1)) (\<lambda>d2.
        obind (HttpWrapper_Post (pe_curl env) (cc_api_join ctx1) (JsonDocument_Write (pe_io env) False d2)
                 (plugin_http ''mosqcluster/1.6.9.1'' (pe_junk_status env))) (\<lambda>(ok, http).
          if \<not> ok then Inr ctx1
          else obind (JsonDocument_Parse (pe_io env) (HttpWrapper_Text http) JsonDocument) (\<lambda>(_, resp).
            obind (Json_Get_int resp ''code'') (\<lambda>code.
              if code \<noteq> Some 0 then Inr ctx1
              else obind (Json_Get_strings resp ''nodes'' []) (\<lambda>nodes.
                Inr (MaintainProxyInstances_all md5 (case nodes of Some ns \<Rightarrow> ns | None \<Rightarrow> []) ctx1))))))))"

section \<open>Messages\<close>

definition MosqProxyPass ::
    "mosq_peer \<Rightarrow> string \<Rightarrow> string \<Rightarrow> int \<Rightarrow> bool \<Rightarrow> cluster_context \<Rightarrow> cluster_context outcome" where
  "MosqProxyPass client topic payload qos retain ctx =
     (if cc_api_join ctx = [] then Inr ctx
      else case mq_id client of
        None \<Rightarrow> Inl Null_Deref
      | Some cid \<Rightarrow>
          if str_find (c_str cid) ''mosqcluster'' 0 = Some 0 then Inr ctx
          else Inr (ctx\<lparr>cc_nodes :=
                 map (\<lambda>(n, c). (n, snd (Client_Publish (c_str topic) payload qos retain c))) (cc_nodes ctx)\<rparr>))"

definition monitor_topic :: string where
  "monitor_topic = ''/mosq/cluster/join''"

text \<open>The callbacks of a node's client: on its own command queue, and on the context.\<close>

definition Monitor_on_connect :: "string \<Rightarrow> int \<Rightarrow> mosq_client \<Rightarrow> mosq_client" where
  "Monitor_on_connect node_name rc c =
     (if rc = 0
      then snd (Client_Publish monitor_topic node_name 1 False (snd (Client_Subscribe monitor_topic 1 c)))
      else c)"

definition Monitor_on_message :: "hash \<Rightarrow> string \<Rightarrow> string \<Rightarrow> cluster_context \<Rightarrow> cluster_context" where
  "Monitor_on_message md5 topic payload ctx =
     (if monitor_topic = c_str topic
      then (if payload \<noteq> cc_node_name ctx then MaintainProxyInstances md5 payload ctx else ctx)
      else ctx)"

section \<open>The entry points\<close>

definition MOSQ_ACL_WRITE :: int where "MOSQ_ACL_WRITE = 2"

definition cluster_plugin_init ::
    "plugin_env \<Rightarrow> file_system \<Rightarrow> hash \<Rightarrow> (string \<times> string) list \<Rightarrow> (int \<times> cluster_context) outcome" where
  "cluster_plugin_init env fs md5 opts =
     obind (Cluster_Initialize env fs md5 False
       (fold (\<lambda>(k, v). Cluster_SetOpt (c_str k) (c_str v)) opts ClusterPluginContext_new)) (\<lambda>ctx.
       Inr (MOSQ_ERR_SUCCESS, ctx))"

definition cluster_acl_check ::
    "cluster_context \<Rightarrow> int \<Rightarrow> mosq_peer \<Rightarrow> string \<Rightarrow> string \<Rightarrow> int \<Rightarrow> bool \<Rightarrow> (int \<times> cluster_context) outcome" where
  "cluster_acl_check ctx access client topic payload qos retain =
     (if MOSQ_ACL_WRITE = access
      then obind (MosqProxyPass client topic payload qos retain ctx) (\<lambda>ctx'. Inr (MOSQ_ERR_PLUGIN_DEFER, ctx'))
      else Inr (MOSQ_ERR_PLUGIN_DEFER, ctx))"

definition cluster_unpwd_check :: "cluster_context \<Rightarrow> mosq_peer \<Rightarrow> int" where
  "cluster_unpwd_check ctx client = MOSQ_ERR_PLUGIN_DEFER"

section \<open>Lemmas\<close>

text \<open>The distinct names of a list in the order they first occur.\<close>

definition first_occurrences :: "'a list \<Rightarrow> 'a list" where
  "first_occurrences xs = rev (remdups (rev xs))"

lemma first_occurrences_snoc:
  "first_occurrences (xs @ [x]) = (if x \<in> set xs then first_occurrences xs else first_occurrences xs @ [x])"
  by (simp add: first_occurrences_def)

lemma set_first_occurrences [simp]: "set (first_occurrences xs) = set xs"
  by (simp add: first_occurrences_def)

lemma distinct_first_occurrences [simp]: "distinct (first_occurrences xs)"
  by (simp add: first_occurrences_def)

text \<open>A context after the joins \<open>names\<close>: its nodes and their clients.\<close>

lemma joins_nodes:
  "cc_nodes ctx = [] \<Longrightarrow>
     MaintainProxyInstances_all md5 names ctx =
       ctx\<lparr>cc_nodes := map (\<lambda>n. (Mstr n, node_client md5 n)) (first_occurrences (filter (\<lambda>n. n \<noteq> cc_node_name ctx) names))\<rparr>"
proof (induction names rule: rev_induct)
  case Nil
  then show ?case by (simp add: MaintainProxyInstances_all_def first_occurrences_def)
next
  case (snoc n names)
  let ?c = "MaintainProxyInstances_all md5 names ctx"
  have "MaintainProxyInstances_all md5 (names @ [n]) ctx =
      (if cc_node_name ?c = n then ?c else MaintainProxyInstances md5 n ?c)"
    by (simp add: MaintainProxyInstances_all_def)
  with snoc show ?case
    by (auto simp: MaintainProxyInstances_def first_occurrences_snoc list_ex_iff)
qed

lemma prefix_FormatV: "p \<noteq> [] \<Longrightarrow> length p < max_buf_len \<Longrightarrow> prefix p (FormatV (p @ s))"
  by (auto simp: FormatV_def prefix_def)

lemma client_id_prefix: "prefix ''mosqcluster'' (c_str (mq_client_id (node_client md5 name)))"
proof -
  let ?text = "''mosqcluster/'' @ c_str (md5 (c_str name))"
  have "prefix ''mosqcluster'' (FormatV ?text)"
    using prefix_FormatV [of "''mosqcluster''" "''/'' @ c_str (md5 (c_str name))"] by (simp add: max_buf_len_def)
  then have "prefix ''mosqcluster'' (c_str (FormatV ?text))"
    by (auto simp: prefix_def c_str_def)
  then show ?thesis
    by (simp add: node_client_def Let_def set_keep_alive_def set_clean_session_def set_password_def
        set_username_def set_client_id_def set_host_def set_port_def)
qed

lemma Client_Publish_id [simp]: "mq_client_id (snd (Client_Publish t p q r c)) = mq_client_id c"
  by (simp add: Client_Publish_def next_command_id_def Let_def split: prod.splits)

lemma Client_Publish_commands:
  "\<exists>cid. mq_commands (snd (Client_Publish t p q r c)) =
     mq_commands c @ [Cmd_Publish cid (Mstr (c_str t)) (Mstr p) q r]"
  by (simp add: Client_Publish_def next_command_id_def Let_def split: prod.splits)

section \<open>Properties\<close>

text \<open>C15: after any list of joins a broker keeps exactly one client for every other broker that joined, in
  the order they first appeared, and none for itself.\<close>

theorem cluster_nodes_after_joins:
  assumes "cc_nodes ctx = []"
  shows "map fst (cc_nodes (MaintainProxyInstances_all md5 names ctx)) =
      map Mstr (first_occurrences (filter (\<lambda>n. n \<noteq> cc_node_name ctx) names)) \<and>
    distinct (map fst (cc_nodes (MaintainProxyInstances_all md5 names ctx))) \<and>
    Mstr (cc_node_name ctx) \<notin> fst ` set (cc_nodes (MaintainProxyInstances_all md5 names ctx))"
proof -
  have "map fst (cc_nodes (MaintainProxyInstances_all md5 names ctx)) =
      map Mstr (first_occurrences (filter (\<lambda>n. n \<noteq> cc_node_name ctx) names))"
    by (simp add: joins_nodes [OF assms] comp_def)
  moreover have "distinct (map Mstr ns)" if "distinct ns" for ns
    using that by (simp add: distinct_map inj_on_def)
  ultimately show ?thesis
    by (auto simp: joins_nodes [OF assms] simp del: map_map)
qed

lemma cluster_nodes_after_joins_witness:
  "map fst (cc_nodes (MaintainProxyInstances_all (\<lambda>s. s) [''b'', ''a'', ''b'', ''c'']
     (ClusterPluginContext_new\<lparr>cc_node_name := ''a''\<rparr>))) = [Mstr ''b'', Mstr ''c'']"
  using cluster_nodes_after_joins [of "ClusterPluginContext_new\<lparr>cc_node_name := ''a''\<rparr>" "\<lambda>s. s"
      "[''b'', ''a'', ''b'', ''c'']"]
  by (simp add: ClusterPluginContext_new_def first_occurrences_def)

text \<open>C3: a message of a local client reaches every other broker once, and does not bounce.  After any
  joins, the check of a write by a client outside the cluster leaves one publish of exactly this
  message in the queue of each node's client, and the publish that client makes on its broker is not
  passed on there.\<close>

theorem cluster_single_hop:
  assumes "cc_nodes ctx = []" and "cc_api_join ctx \<noteq> []"
    and "mq_id client = Some cid" and "\<not> prefix ''mosqcluster'' (c_str cid)"
  shows "\<exists>ctx2. cluster_acl_check (MaintainProxyInstances_all md5 names ctx) MOSQ_ACL_WRITE client topic payload qos retain = Inr (MOSQ_ERR_PLUGIN_DEFER, ctx2) \<and>
    map (\<lambda>(n, c). (n, map Command_Run (mq_commands c))) (cc_nodes ctx2) =
      map (\<lambda>n. (Mstr n, [Call_publish (Mstr (c_str topic)) (Mstr payload) qos retain]))
        (first_occurrences (filter (\<lambda>n. n \<noteq> cc_node_name ctx) names)) \<and>
    (\<forall>(n, c) \<in> set (cc_nodes ctx2). \<forall>remote t p q r.
      cluster_acl_check remote MOSQ_ACL_WRITE \<lparr>mq_id = Some (mq_client_id c)\<rparr> t p q r = Inr (MOSQ_ERR_PLUGIN_DEFER, remote))"
proof -
  let ?ctx1 = "MaintainProxyInstances_all md5 names ctx"
  let ?ns = "first_occurrences (filter (\<lambda>n. n \<noteq> cc_node_name ctx) names)"
  let ?f = "\<lambda>c. snd (Client_Publish (c_str topic) payload qos retain c)"
  let ?ctx2 = "?ctx1\<lparr>cc_nodes := map (\<lambda>n. (Mstr n, ?f (node_client md5 n))) ?ns\<rparr>"
  have ctx1: "cc_nodes ?ctx1 = map (\<lambda>n. (Mstr n, node_client md5 n)) ?ns" "cc_api_join ?ctx1 \<noteq> []"
    using assms(2) by (simp_all add: joins_nodes [OF assms(1)])
  have "cluster_acl_check ?ctx1 MOSQ_ACL_WRITE client topic payload qos retain = Inr (MOSQ_ERR_PLUGIN_DEFER, ?ctx2)"
    using assms(3,4) ctx1 by (simp add: cluster_acl_check_def MosqProxyPass_def find_prefix comp_def)
  moreover have "map Command_Run (mq_commands (?f (node_client md5 n))) =
      [Call_publish (Mstr (c_str topic)) (Mstr payload) qos retain]" for n
    using Client_Publish_commands [of "c_str topic" payload qos retain "node_client md5 n"]
    by (auto simp: node_client_def Let_def set_keep_alive_def set_clean_session_def set_password_def
        set_username_def set_client_id_def set_host_def set_port_def MosqClient_new_def)
  moreover have "cluster_acl_check remote MOSQ_ACL_WRITE \<lparr>mq_id = Some (mq_client_id (?f (node_client md5 n)))\<rparr> t p q r =
      Inr (MOSQ_ERR_PLUGIN_DEFER, remote)" for remote n t p q r
    using client_id_prefix [of md5 n] by (simp add: cluster_acl_check_def MosqProxyPass_def find_prefix)
  ultimately show ?thesis by (intro exI [of _ ?ctx2]) auto
qed

lemma cluster_single_hop_witness:
  "\<exists>ctx2. cluster_acl_check (MaintainProxyInstances_all (\<lambda>s. s) [''b'', ''a'']
       (ClusterPluginContext_new\<lparr>cc_node_name := ''a'', cc_api_join := ''u''\<rparr>))
       MOSQ_ACL_WRITE \<lparr>mq_id = Some ''c1''\<rparr> ''t'' ''hello'' 1 False = Inr (MOSQ_ERR_PLUGIN_DEFER, ctx2) \<and>
    map (\<lambda>(n, c). (n, map Command_Run (mq_commands c))) (cc_nodes ctx2) =
      [(Mstr ''b'', [Call_publish (Mstr ''t'') (Mstr ''hello'') 1 False])]"
  using cluster_single_hop [of "ClusterPluginContext_new\<lparr>cc_node_name := ''a'', cc_api_join := ''u''\<rparr>"
      "\<lparr>mq_id = Some ''c1''\<rparr>" "''c1''" "\<lambda>s. s" "[''b'', ''a'']" "''t''" "''hello''" 1 False]
  by (auto simp: ClusterPluginContext_new_def first_occurrences_def c_str_def)

text \<open>The client id is made from the name of the broker it connects to alone, so any two brokers of
  a cluster connect to a third one with the same client id, of which a broker keeps one session.\<close>

theorem cluster_client_id_clash:
  assumes "cc_nodes ctx1 = []" and "cc_nodes ctx2 = []"
    and "(n, c1) \<in> set (cc_nodes (MaintainProxyInstances_all md5 names1 ctx1))"
    and "(n, c2) \<in> set (cc_nodes (MaintainProxyInstances_all md5 names2 ctx2))"
  shows "mq_client_id c1 = mq_client_id c2"
  using assms(3,4) by (auto simp: joins_nodes [OF assms(1)] joins_nodes [OF assms(2)])

lemma cluster_client_id_clash_witness:
  "\<exists>c1 c2. mq_client_id c1 = mq_client_id c2 \<and>
    (Mstr ''c'', c1) \<in> set (cc_nodes (MaintainProxyInstances_all (\<lambda>s. s) [''a'', ''b'', ''c''] (ClusterPluginContext_new\<lparr>cc_node_name := ''a''\<rparr>))) \<and>
    (Mstr ''c'', c2) \<in> set (cc_nodes (MaintainProxyInstances_all (\<lambda>s. s) [''a'', ''b'', ''c''] (ClusterPluginContext_new\<lparr>cc_node_name := ''b''\<rparr>)))"
  using cluster_client_id_clash [of "ClusterPluginContext_new\<lparr>cc_node_name := ''a''\<rparr>"
      "ClusterPluginContext_new\<lparr>cc_node_name := ''b''\<rparr>" "Mstr ''c''" "node_client (\<lambda>s. s) ''c''" "\<lambda>s. s"
      "[''a'', ''b'', ''c'']" "node_client (\<lambda>s. s) ''c''" "[''a'', ''b'', ''c'']"]
  by (simp add: ClusterPluginContext_new_def joins_nodes first_occurrences_def)

end
