(* ===== verification/Thread_Pool.thy ===== *)
theory Thread_Pool
  imports Task_Queue
begin

text \<open>
  \<open>helper/thread_pool.cpp\<close>: the worker loops around the task queue.  A step carries a label that says
  who made it: a worker, a thread that pushes, a spurious wake-up, or \<open>Stop\<close>.
\<close>

datatype 'a worker_pc = W_Test | W_Get | W_Run 'a | W_Done

record 'a pool =
  tp_stop :: bool
  tp_size :: "int option"
  tp_worker :: "nat \<Rightarrow> 'a worker_pc"
  tp_qlist :: "'a tq_state"
  tp_log :: "'a list"

text \<open>The default constructor sets neither \<open>size_\<close> nor \<open>stop_\<close>; \<open>Create\<close> does not set \<open>size_\<close> either.\<close>

definition ThreadPool_new :: "bool \<Rightarrow> 'a pool" where
  "ThreadPool_new junk_stop =
     \<lparr>tp_stop = junk_stop, tp_size = None, tp_worker = \<lambda>_. W_Done, tp_qlist = TaskQueue_new, tp_log = []\<rparr>"

definition ThreadPool_Create :: "nat \<Rightarrow> 'a pool \<Rightarrow> 'a pool" where
  "ThreadPool_Create n p = p\<lparr>tp_stop := False, tp_worker := (\<lambda>t. if t < n then W_Test else tp_worker p t)\<rparr>"

definition ThreadPool_new_size :: "nat \<Rightarrow> 'a pool" where
  "ThreadPool_new_size n = ThreadPool_Create n (ThreadPool_new True\<lparr>tp_size := Some (int n)\<rparr>)"

definition ThreadPool_Stop :: "'a pool \<Rightarrow> 'a pool" where
  "ThreadPool_Stop p = p\<lparr>tp_stop := True\<rparr>"

text \<open>\<open>Wait\<close> joins \<open>size_\<close> threads: it returns when all of them are done.\<close>

definition ThreadPool_Wait_returns :: "'a pool \<Rightarrow> bool outcome" where
  "ThreadPool_Wait_returns p =
     (case tp_size p of
        None \<Rightarrow> Inl Uninitialised
      | Some n \<Rightarrow> Inr (list_all (\<lambda>t. case tp_worker p t of W_Done \<Rightarrow> True | _ \<Rightarrow> False) [0..<nat n]))"

datatype pool_label = By_Worker nat | By_Pusher nat | By_Spurious nat | By_Stop

abbreviation at_worker :: "'a pool \<Rightarrow> nat \<Rightarrow> 'a worker_pc \<Rightarrow> 'a pool" where
  "at_worker p t w \<equiv> p\<lparr>tp_worker := (tp_worker p)(t := w)\<rparr>"

inductive worker_step :: "nat \<Rightarrow> 'a pool \<Rightarrow> 'a pool \<Rightarrow> bool" where
  worker_exit: "tp_worker p t = W_Test \<Longrightarrow> tp_stop p \<Longrightarrow> worker_step t p (at_worker p t W_Done)"
| worker_enter: "tp_worker p t = W_Test \<Longrightarrow> \<not> tp_stop p \<Longrightarrow> tq_pc (tp_qlist p) t = Idle \<Longrightarrow>
    worker_step t p (at_worker (p\<lparr>tp_qlist := at_pc (tp_qlist p) t Get_Acquire\<rparr>) t W_Get)"
| worker_get: "tp_worker p t = W_Get \<Longrightarrow> get_step t (tp_qlist p) q \<Longrightarrow> tq_pc (tp_qlist p) t \<noteq> Idle \<Longrightarrow>
    tq_pc q t \<noteq> Idle \<Longrightarrow> worker_step t p (p\<lparr>tp_qlist := q\<rparr>)"
| worker_got: "tp_worker p t = W_Get \<Longrightarrow> tq_pc (tp_qlist p) t = Get_Release r \<Longrightarrow> get_step t (tp_qlist p) q \<Longrightarrow>
    worker_step t p (at_worker (p\<lparr>tp_qlist := q\<rparr>) t (case r of Some x \<Rightarrow> W_Run x | None \<Rightarrow> W_Test))"
| worker_run: "tp_worker p t = W_Run x \<Longrightarrow>
    worker_step t p (at_worker (p\<lparr>tp_log := tp_log p @ [x]\<rparr>) t W_Test)"

inductive pool_step :: "pool_label \<Rightarrow> 'a pool \<Rightarrow> 'a pool \<Rightarrow> bool" where
  by_worker: "worker_step t p p' \<Longrightarrow> pool_step (By_Worker t) p p'"
| by_pusher: "push_step t (tp_qlist p) q \<Longrightarrow> pool_step (By_Pusher t) p (p\<lparr>tp_qlist := q\<rparr>)"
| by_spurious: "tq_pc (tp_qlist p) t = Get_Blocked \<Longrightarrow>
    pool_step (By_Spurious t) p (p\<lparr>tp_qlist := at_pc (tp_qlist p) t Get_Woken\<rparr>)"
| by_stop: "pool_step By_Stop p (ThreadPool_Stop p)"

inductive pool_run :: "pool_label list \<Rightarrow> 'a pool \<Rightarrow> 'a pool \<Rightarrow> bool" where
  run_nil: "pool_run [] p p"
| run_step: "pool_step l p p' \<Longrightarrow> pool_run ls p' p'' \<Longrightarrow> pool_run (l # ls) p p''"

inductive_cases worker_stepE: "worker_step t p p'"
inductive_cases pool_stepE: "pool_step l p p'"

section \<open>Lemmas\<close>

text \<open>Every step of the pool is a step of the queue or leaves it alone.\<close>

lemma pool_step_queue: "pool_step l p p' \<Longrightarrow> tp_qlist p' = tp_qlist p \<or> tq_step (tp_qlist p) (tp_qlist p')"
proof (erule pool_stepE)
  fix t assume "worker_step t p p'"
  then show ?thesis
    by cases (auto intro: step_get get_call)
qed (auto intro: step_push step_spurious simp: ThreadPool_Stop_def)

lemma pool_run_reach:
  "pool_run ls p p' \<Longrightarrow> tq_reach (tp_qlist p) \<Longrightarrow> tq_reach (tp_qlist p')"
proof (induction rule: pool_run.induct)
  case (run_step l p p' ls p'')
  then show ?case using pool_step_queue [OF run_step(1)] by (auto intro: reach_step)
qed

text \<open>All \<open>n\<close> workers block in \<open>Get\<close>.\<close>

definition all_blocked :: "nat \<Rightarrow> 'a pool \<Rightarrow> bool" where
  "all_blocked n p \<longleftrightarrow> (\<forall>t < n. tp_worker p t = W_Get \<and> tq_pc (tp_qlist p) t = Get_Blocked)"

definition quiet :: "pool_label \<Rightarrow> bool" where
  "quiet l = (case l of By_Worker _ \<Rightarrow> True | By_Stop \<Rightarrow> True | _ \<Rightarrow> False)"

lemma blocked_no_get_step: "tq_pc s t = Get_Blocked \<Longrightarrow> \<not> get_step t s s'"
  by (auto elim!: get_step_casesE wait_stepE)

lemma get_step_other: "get_step t s s' \<Longrightarrow> u \<noteq> t \<Longrightarrow> tq_pc s' u = tq_pc s u"
  by (erule get_step_casesE; (elim wait_stepE)?; auto)

lemma all_blocked_step:
  assumes "all_blocked n p" "pool_step l p p'" "quiet l"
  shows "all_blocked n p'"
  using assms(2)
proof cases
  case (by_worker t)
  have "\<not> t < n"
  proof
    assume "t < n"
    with assms(1) have w: "tp_worker p t = W_Get" "tq_pc (tp_qlist p) t = Get_Blocked"
      by (auto simp: all_blocked_def)
    from by_worker(2) show False
      using w blocked_no_get_step [OF w(2)] by cases auto
  qed
  from by_worker(2) show ?thesis
    using assms(1) \<open>\<not> t < n\<close> by cases (auto simp: all_blocked_def get_step_other)
qed (use assms in \<open>auto simp: quiet_def all_blocked_def ThreadPool_Stop_def\<close>)

lemma all_blocked_run:
  "pool_run ls p p' \<Longrightarrow> all_blocked n p \<Longrightarrow> list_all quiet ls \<Longrightarrow> all_blocked n p'"
  by (induction rule: pool_run.induct) (auto intro: all_blocked_step)

section \<open>Properties\<close>

text \<open>Tasks reach the workers in the order they were pushed, none lost or taken twice, in every
  execution of a pool of any size.\<close>

theorem pool_takes_in_order:
  assumes "pool_run ls (ThreadPool_new_size n) p"
  shows "tq_pushed (tp_qlist p) = tq_taken (tp_qlist p) @ tq_queue (tp_qlist p)"
proof -
  have "tq_reach (tp_qlist (ThreadPool_new_size n))"
    by (simp add: ThreadPool_new_size_def ThreadPool_Create_def ThreadPool_new_def reach_init)
  from tq_invD(2) [OF tq_reach_inv [OF pool_run_reach [OF assms this]]] show ?thesis .
qed

lemma pool_takes_in_order_witness:
  "let p = ThreadPool_new_size 2 :: nat pool
   in tq_pushed (tp_qlist p) = tq_taken (tp_qlist p) @ tq_queue (tp_qlist p)"
  unfolding Let_def by (rule pool_takes_in_order) (rule run_nil)

text \<open>C32: stopping idle workers hangs.  When every worker blocks in \<open>Get\<close>, no sequence of worker steps
  and of calls of \<open>Stop\<close> lets \<open>Wait\<close> return: \<open>Stop\<close> does not wake them.\<close>

theorem stop_does_not_wake:
  assumes "all_blocked n p" and "0 < n" and "tp_size p = Some (int n)"
    and "pool_run ls p p'" and "list_all quiet ls"
  shows "ThreadPool_Wait_returns p' = Inr False"
proof -
  have "tp_size p' = tp_size p" using assms(4)
  proof (induction rule: pool_run.induct)
    case (run_step l p p' ls p'')
    from run_step(1) have "tp_size p' = tp_size p"
      by cases (auto simp: ThreadPool_Stop_def elim: worker_stepE)
    with run_step show ?case by simp
  qed simp
  moreover have "tp_worker p' 0 = W_Get"
    using all_blocked_run [OF assms(4,1,5)] assms(2) by (simp add: all_blocked_def)
  then have "\<not> list_all (\<lambda>t. case tp_worker p' t of W_Done \<Rightarrow> True | _ \<Rightarrow> False) [0..<n]"
    using assms(2) by (auto simp: list_all_iff intro!: bexI [of _ 0])
  ultimately show ?thesis
    using assms(3) by (simp add: ThreadPool_Wait_returns_def)
qed

lemma stop_does_not_wake_witness:
  "ThreadPool_Wait_returns (ThreadPool_Stop ((ThreadPool_new_size 1 :: nat pool)
     \<lparr>tp_worker := \<lambda>_. W_Get, tp_qlist := at_pc TaskQueue_new 0 Get_Blocked\<rparr>)) = Inr False"
  by (rule stop_does_not_wake [where n = 1 and ls = "[By_Stop]"
      and p = "(ThreadPool_new_size 1 :: nat pool)\<lparr>tp_worker := \<lambda>_. W_Get, tp_qlist := at_pc TaskQueue_new 0 Get_Blocked\<rparr>"])
    (auto simp: all_blocked_def ThreadPool_new_size_def ThreadPool_Create_def quiet_def
      intro: run_step [OF by_stop run_nil])

text \<open>A pool made by the default constructor and \<open>Create\<close> joins an indeterminate number of threads,
  whatever happened in between.\<close>

theorem default_pool_wait:
  assumes "pool_run ls (ThreadPool_Create n (ThreadPool_new junk)) p"
  shows "ThreadPool_Wait_returns p = Inl Uninitialised"
proof -
  have "tp_size p' = tp_size p" if "pool_run ls p p'" for ls p and p' :: "'a pool"
    using that
  proof (induction rule: pool_run.induct)
    case (run_step l p p' ls p'')
    from run_step(1) have "tp_size p' = tp_size p"
      by cases (auto simp: ThreadPool_Stop_def elim: worker_stepE)
    with run_step show ?case by simp
  qed simp
  from this [OF assms] show ?thesis
    by (simp add: ThreadPool_Wait_returns_def ThreadPool_Create_def ThreadPool_new_def)
qed

lemma default_pool_wait_witness:
  "ThreadPool_Wait_returns (ThreadPool_Create 20 (ThreadPool_new False) :: nat pool) = Inl Uninitialised"
  by (rule default_pool_wait) (rule run_nil)

end
