(* ===== verification/Server_Loop.thy ===== *)
theory Server_Loop
  imports Prelude
begin

text \<open>
  \<open>server/server.cpp\<close>: the accept and read loop.  The system calls are inputs: what \<open>epoll_wait\<close>,
  \<open>accept\<close> and \<open>recv\<close> return.  The heap of \<open>SocketContext\<close> blocks is explicit, an event carries the
  pointer that was registered with it, and a step on a freed block is the fault \<open>Use_After_Free\<close>.
\<close>

section \<open>State\<close>

record client_context =
  cl_fd :: int
  cl_userptr :: "nat option"

record socket_context =
  sc_fd :: int
  sc_index :: "nat option"
  sc_read_timestamp :: int
  sc_write_timestamp :: int
  sc_read_timeout :: int
  sc_write_timeout :: int
  sc_cli :: client_context

text \<open>The handle: the callbacks, over the state \<open>'s\<close> of the application, and the limits.\<close>

record 's server_handle =
  sh_accept_cb :: "client_context \<Rightarrow> 's \<Rightarrow> client_context \<times> 's"
  sh_read_cb :: "client_context \<Rightarrow> string \<Rightarrow> 's \<Rightarrow> int \<times> 's"
  sh_close_cb :: "client_context \<Rightarrow> 's \<Rightarrow> 's"
  sh_timeout_cb :: "client_context \<Rightarrow> 's \<Rightarrow> 's"
  sh_read_timeout :: int
  sh_write_timeout :: int

text \<open>
  The locals of \<open>ServerLoopMain\<close>: the descriptors registered with epoll and their pointers, the slots
  of \<open>accept_queue\<close>, the heap (\<open>sl_next\<close> is the next fresh block), and the descriptors it closed.
\<close>

record 's server_loop =
  sl_epoll :: "(int \<times> nat) list"
  sl_accept_size :: int
  sl_queue :: "nat \<Rightarrow> nat option"
  sl_heap :: "nat \<Rightarrow> socket_context option"
  sl_next :: nat
  sl_closed :: "int list"
  sl_app :: 's

definition max_accept_size :: int where
  "max_accept_size = 1024 * 1024"

definition ServerLoop_init :: "'s \<Rightarrow> 's server_loop" where
  "ServerLoop_init app =
     \<lparr>sl_epoll = [], sl_accept_size = 0, sl_queue = \<lambda>_. None, sl_heap = \<lambda>_. None, sl_next = 0,
      sl_closed = [], sl_app = app\<rparr>"

definition epoll_del :: "int \<Rightarrow> 's server_loop \<Rightarrow> 's server_loop" where
  "epoll_del fd s = s\<lparr>sl_epoll := filter (\<lambda>e. fst e \<noteq> fd) (sl_epoll s)\<rparr>"

section \<open>Accepting\<close>

definition accept_client :: "'s server_handle \<Rightarrow> int \<Rightarrow> int \<Rightarrow> 's server_loop \<Rightarrow> 's server_loop" where
  "accept_client h now socket s =
     (let accept_size = sl_accept_size s + 1;
          p = sl_next s;
          slot = List.find (\<lambda>i. sl_queue s i = None) [0..<nat accept_size];
          newclient = \<lparr>sc_fd = socket, sc_index = slot, sc_read_timestamp = now, sc_write_timestamp = -1,
            sc_read_timeout = now + sh_read_timeout h, sc_write_timeout = -1,
            sc_cli = \<lparr>cl_fd = socket, cl_userptr = None\<rparr>\<rparr>;
          (cli, app) = sh_accept_cb h (sc_cli newclient) (sl_app s)
      in s\<lparr>sl_accept_size := accept_size, sl_next := p + 1,
           sl_queue := (case slot of Some i \<Rightarrow> (sl_queue s)(i := Some p) | None \<Rightarrow> sl_queue s),
           sl_heap := (sl_heap s)(p := Some (newclient\<lparr>sc_cli := cli\<rparr>)),
           sl_epoll := sl_epoll s @ [(socket, p)], sl_app := app\<rparr>)"

text \<open>The loop over \<open>accept\<close>: the list holds its results, and past the end it fails.\<close>

fun accept_loop :: "'s server_handle \<Rightarrow> int \<Rightarrow> int list \<Rightarrow> 's server_loop \<Rightarrow> 's server_loop" where
  "accept_loop h now [] s = s"
| "accept_loop h now (socket # rest) s =
     (if socket > 0 then
        (if sl_accept_size s + 1 > max_accept_size then s\<lparr>sl_closed := sl_closed s @ [socket]\<rparr>
         else accept_loop h now rest (accept_client h now socket s))
      else s)"

section \<open>Reading\<close>

definition EAGAIN :: int where "EAGAIN = 11"
definition EWOULDBLOCK :: int where "EWOULDBLOCK = EAGAIN"

text \<open>How the run of \<open>recv\<close> calls ends, after the chunks it returned.\<close>

datatype recv_end = Recv_Eof | Recv_Errno int

definition recv_removes :: "recv_end \<Rightarrow> bool" where
  "recv_removes r = (case r of Recv_Eof \<Rightarrow> True | Recv_Errno e \<Rightarrow> e \<noteq> EAGAIN \<and> e \<noteq> EWOULDBLOCK)"

text \<open>One chunk; the flag is the local \<open>remove\<close>.\<close>

definition read_chunk ::
    "'s server_handle \<Rightarrow> int \<Rightarrow> string \<Rightarrow> socket_context \<times> 's server_loop \<times> bool \<Rightarrow>
     socket_context \<times> 's server_loop \<times> bool" where
  "read_chunk h now data st =
     (let (client, s, remove) = st;
          (r, app) = sh_read_cb h (sc_cli client) data (sl_app s);
          s1 = s\<lparr>sl_app := app\<rparr>
      in if r < 0
         then (client\<lparr>sc_fd := -1, sc_read_timestamp := -1, sc_read_timeout := -1, sc_write_timestamp := now,
                 sc_write_timeout := now + sh_write_timeout h\<rparr>,
               epoll_del (sc_fd client) s1, True)
         else (client, s1, remove))"

definition remove_client ::
    "'s server_handle \<Rightarrow> nat \<Rightarrow> socket_context \<Rightarrow> 's server_loop \<Rightarrow> 's server_loop outcome" where
  "remove_client h p client s =
     (case sc_index client of
        None \<Rightarrow> Inl Uninitialised
      | Some i \<Rightarrow>
          let s1 = s\<lparr>sl_queue := (sl_queue s)(i := None), sl_accept_size := sl_accept_size s - 1\<rparr>;
              s2 = (if sc_fd client > 0
                    then (epoll_del (sc_fd client) s1)\<lparr>sl_app := sh_close_cb h (sc_cli client) (sl_app s1),
                            sl_closed := sl_closed s1 @ [sc_fd client]\<rparr>
                    else s1)
          in Inr (s2\<lparr>sl_heap := (sl_heap s2)(p := None)\<rparr>))"

text \<open>The events: the listening socket with the results of \<open>accept\<close>, or a client.\<close>

datatype server_event = Listen_Event bool "int list"
  | Client_Event nat bool bool "string list" recv_end

definition handle_client ::
    "'s server_handle \<Rightarrow> int \<Rightarrow> nat \<Rightarrow> bool \<Rightarrow> bool \<Rightarrow> string list \<Rightarrow> recv_end \<Rightarrow> 's server_loop \<Rightarrow>
     's server_loop outcome" where
  "handle_client h now p epollin hup chunks rend s =
     (case sl_heap s p of
        None \<Rightarrow> Inl Use_After_Free
      | Some client \<Rightarrow>
          let (client1, s1, remove) =
            (if epollin
             then let (c, t, r) = fold (read_chunk h now) chunks
                        (client\<lparr>sc_read_timestamp := now, sc_read_timeout := now + sh_read_timeout h\<rparr>, s, False)
                  in (c, t, r \<or> recv_removes rend)
             else (client, s, False));
              s2 = s1\<lparr>sl_heap := (sl_heap s1)(p := Some client1)\<rparr>
          in if hup \<or> remove then remove_client h p client1 s2 else Inr s2)"

fun handle_event :: "'s server_handle \<Rightarrow> int \<Rightarrow> server_event \<Rightarrow> 's server_loop \<Rightarrow> 's server_loop outcome" where
  "handle_event h now (Listen_Event epollin sockets) s =
     Inr (if epollin then accept_loop h now sockets s else s)"
| "handle_event h now (Client_Event p epollin hup chunks rend) s =
     handle_client h now p epollin hup chunks rend s"

primrec handle_events :: "'s server_handle \<Rightarrow> int \<Rightarrow> server_event list \<Rightarrow> 's server_loop \<Rightarrow> 's server_loop outcome" where
  "handle_events h now [] s = Inr s"
| "handle_events h now (e # es) s = obind (handle_event h now e s) (handle_events h now es)"

section \<open>Timeouts\<close>

definition expired :: "int \<Rightarrow> socket_context \<Rightarrow> bool" where
  "expired now c \<longleftrightarrow> (sc_read_timestamp c > 0 \<and> now > sc_read_timeout c) \<or>
     (sc_write_timestamp c > 0 \<and> now > sc_write_timeout c)"

definition drop_expired ::
    "'s server_handle \<Rightarrow> nat \<Rightarrow> nat \<Rightarrow> socket_context \<Rightarrow> 's server_loop \<Rightarrow> 's server_loop" where
  "drop_expired h i p c s =
     (let s1 = s\<lparr>sl_app := sh_timeout_cb h (sc_cli c) (sl_app s), sl_queue := (sl_queue s)(i := None)\<rparr>;
          s2 = (if sc_fd c > 0
                then (epoll_del (sc_fd c) s1)\<lparr>sl_app := sh_close_cb h (sc_cli c) (sl_app s1),
                        sl_closed := sl_closed s1 @ [sc_fd c]\<rparr>
                else s1)
      in s2\<lparr>sl_heap := (sl_heap s2)(p := None)\<rparr>)"

text \<open>The loop over the slots; the number is \<open>active_size\<close>.\<close>

primrec sweep :: "'s server_handle \<Rightarrow> int \<Rightarrow> nat list \<Rightarrow> 's server_loop \<times> int \<Rightarrow> ('s server_loop \<times> int) outcome" where
  "sweep h now [] sa = Inr sa"
| "sweep h now (i # is) sa =
     (case sl_queue (fst sa) i of
        None \<Rightarrow> sweep h now is sa
      | Some p \<Rightarrow>
          (case sl_heap (fst sa) p of
             None \<Rightarrow> Inl Use_After_Free
           | Some c \<Rightarrow>
               if expired now c then sweep h now is (drop_expired h i p c (fst sa), snd sa - 1)
               else sweep h now is sa))"

text \<open>One turn of the loop, on what \<open>epoll_wait\<close> returned.\<close>

datatype epoll_result = Epoll_Events "server_event list" | Epoll_Error

fun loop_turn :: "'s server_handle \<Rightarrow> int \<Rightarrow> epoll_result \<Rightarrow> 's server_loop \<Rightarrow> 's server_loop outcome" where
  "loop_turn h now (Epoll_Events es) s = handle_events h now es s"
| "loop_turn h now Epoll_Error s =
     obind (sweep h now [0..<nat (sl_accept_size s)] (s, sl_accept_size s)) (\<lambda>(s1, active).
       Inr (s1\<lparr>sl_accept_size := active\<rparr>))"

section \<open>Starting and stopping\<close>

text \<open>
  \<open>StartServer\<close> sets \<open>stat_\<close> and leaves the two other fields of the block as \<open>malloc\<close> gave them;
  nothing ever writes \<open>SrvRunning\<close>.  \<open>StopServer\<close> looks at \<open>stat_\<close> once a second: its result is how often
  it sleeps when the status is \<open>stat k\<close> at its \<open>k\<close>-th look.
\<close>

datatype server_status = SrvRunning | SrvStopped

record server_context =
  sx_stop :: "int option"
  sx_stat :: server_status

definition StartServer_context :: server_context where
  "StartServer_context = \<lparr>sx_stop = None, sx_stat = SrvStopped\<rparr>"

definition loop_continues :: "server_context \<Rightarrow> bool outcome" where
  "loop_continues ctx = (case sx_stop ctx of None \<Rightarrow> Inl Uninitialised | Some v \<Rightarrow> Inr (v = 0))"

fun stop_sleeps :: "(nat \<Rightarrow> server_status) \<Rightarrow> nat \<Rightarrow> nat \<Rightarrow> nat" where
  "stop_sleeps stat k 0 = 0"
| "stop_sleeps stat k (Suc timeout) = (if stat k = SrvStopped then 0 else Suc (stop_sleeps stat (Suc k) timeout))"

definition StopServer :: "(nat \<Rightarrow> server_status) \<Rightarrow> server_context \<Rightarrow> nat \<times> server_context" where
  "StopServer stat ctx = (stop_sleeps stat 0 5, ctx\<lparr>sx_stop := Some 1\<rparr>)"

lemma stop_sleeps_bound: "stop_sleeps stat k n \<le> n"
  by (induction n arbitrary: k) auto

text \<open>It waits for nothing while the loop is still in its turn, since the status is never another one.\<close>

lemma stop_server_does_not_wait:
  "fst (StopServer (\<lambda>_. sx_stat StartServer_context) ctx) = 0 \<and> \<not> returns (loop_continues StartServer_context)"
  by (simp add: StopServer_def StartServer_context_def loop_continues_def numeral_eq_Suc)

section \<open>Lemmas: the table of clients\<close>

definition used_slots :: "'s server_loop \<Rightarrow> nat set" where
  "used_slots s = {i. sl_queue s i \<noteq> None}"

text \<open>
  Between two events: the blocks in use, the slots and the registered descriptors are in bijection,
  \<open>n\<close> is the number of used slots, and no slot lies outside the array.  In \<open>loop_inv\<close> the count of the
  loop is that number; during a sweep it is not yet.
\<close>

definition table_inv :: "int \<Rightarrow> 's server_loop \<Rightarrow> bool" where
  "table_inv n s \<longleftrightarrow>
     (\<forall>p c. sl_heap s p = Some c \<longrightarrow>
        p < sl_next s \<and> sc_fd c > 0 \<and> (sc_fd c, p) \<in> set (sl_epoll s) \<and>
        (\<exists>i. sc_index c = Some i \<and> sl_queue s i = Some p)) \<and>
     (\<forall>i p. sl_queue s i = Some p \<longrightarrow> (\<exists>c. sl_heap s p = Some c \<and> sc_index c = Some i)) \<and>
     (\<forall>(fd, p) \<in> set (sl_epoll s). \<exists>c. sl_heap s p = Some c \<and> sc_fd c = fd) \<and>
     distinct (map fst (sl_epoll s)) \<and>
     finite (used_slots s) \<and> int (card (used_slots s)) = n \<and>
     (\<forall>i \<in> used_slots s. int i < max_accept_size)"

definition loop_inv :: "'s server_loop \<Rightarrow> bool" where
  "loop_inv s \<longleftrightarrow> table_inv (sl_accept_size s) s"

lemma loop_inv_init: "loop_inv (ServerLoop_init app)"
  by (simp add: table_inv_def loop_inv_def ServerLoop_init_def used_slots_def)

lemma loop_inv_heapD:
  assumes "loop_inv s" and "sl_heap s p = Some c"
  obtains i where "sc_index c = Some i" "sl_queue s i = Some p" "sc_fd c > 0" "(sc_fd c, p) \<in> set (sl_epoll s)"
    "p < sl_next s"
  using assms unfolding table_inv_def loop_inv_def by blast

lemma loop_inv_queueD:
  assumes "loop_inv s" and "sl_queue s i = Some p"
  obtains c where "sl_heap s p = Some c" "sc_index c = Some i"
  using assms unfolding table_inv_def loop_inv_def by blast

lemma loop_inv_epollD:
  assumes "loop_inv s" and "(fd, p) \<in> set (sl_epoll s)"
  obtains c where "sl_heap s p = Some c" "sc_fd c = fd"
  using assms unfolding table_inv_def loop_inv_def by blast

text \<open>A free slot is found among the first \<open>accept_size + 1\<close>.\<close>

lemma free_slot:
  assumes "loop_inv s"
  obtains i where "List.find (\<lambda>i. sl_queue s i = None) [0..<nat (sl_accept_size s + 1)] = Some i"
    "sl_queue s i = None" "int i \<le> sl_accept_size s"
proof -
  have card: "int (card (used_slots s)) = sl_accept_size s" and fin: "finite (used_slots s)"
    using assms by (auto simp: table_inv_def loop_inv_def)
  have "\<not> {0..<nat (sl_accept_size s + 1)} \<subseteq> used_slots s"
    using card card_mono [OF fin, of "{0..<nat (sl_accept_size s + 1)}"] by auto
  then obtain j where "j \<in> {0..<nat (sl_accept_size s + 1)}" "j \<notin> used_slots s" by blast
  then have "List.find (\<lambda>i. sl_queue s i = None) [0..<nat (sl_accept_size s + 1)] \<noteq> None"
    by (auto simp: find_None_iff used_slots_def)
  then obtain i where i: "List.find (\<lambda>i. sl_queue s i = None) [0..<nat (sl_accept_size s + 1)] = Some i"
    by blast
  then have "sl_queue s i = None" "i < nat (sl_accept_size s + 1)"
    by (auto simp: find_Some_iff)
  with i that show ?thesis by auto
qed

text \<open>What an accepted connection does to the table.\<close>

lemma accept_client_inv:
  assumes inv: "loop_inv s" and fd: "fd > 0" "fd \<notin> fst ` set (sl_epoll s)"
    and room: "sl_accept_size s + 1 \<le> max_accept_size"
  shows "loop_inv (accept_client h now fd s) \<and>
    set (sl_epoll s) \<subseteq> set (sl_epoll (accept_client h now fd s)) \<and>
    fst ` set (sl_epoll (accept_client h now fd s)) = insert fd (fst ` set (sl_epoll s))"
proof -
  obtain i where slot: "List.find (\<lambda>i. sl_queue s i = None) [0..<nat (sl_accept_size s + 1)] = Some i"
    and i: "sl_queue s i = None" "int i \<le> sl_accept_size s"
    by (rule free_slot [OF inv])
  obtain cli app where cb: "sh_accept_cb h \<lparr>cl_fd = fd, cl_userptr = None\<rparr> (sl_app s) = (cli, app)"
    by (cases "sh_accept_cb h \<lparr>cl_fd = fd, cl_userptr = None\<rparr> (sl_app s)")
  let ?s = "accept_client h now fd s"
  have fresh: "sl_heap s (sl_next s) = None"
    using inv by (cases "sl_heap s (sl_next s)") (auto simp: table_inv_def loop_inv_def)
  have nq: "sl_queue s j \<noteq> Some (sl_next s)" for j
    using fresh by (metis inv loop_inv_queueD option.simps(3))
  have used: "used_slots ?s = insert i (used_slots s)"
    by (auto simp: used_slots_def accept_client_def Let_def slot cb)
  have "i \<notin> used_slots s" using i by (simp add: used_slots_def)
  then have card: "int (card (used_slots ?s)) = sl_accept_size s + 1" "finite (used_slots ?s)"
    using inv by (simp_all add: used table_inv_def loop_inv_def)
  have "sl_accept_size ?s = sl_accept_size s + 1"
    by (simp add: accept_client_def Let_def cb)
  moreover have "\<forall>j \<in> used_slots ?s. int j < max_accept_size"
    using inv i room by (auto simp: used table_inv_def loop_inv_def)
  moreover have "\<forall>p c. sl_heap ?s p = Some c \<longrightarrow> p < sl_next ?s \<and> sc_fd c > 0 \<and> (sc_fd c, p) \<in> set (sl_epoll ?s) \<and>
        (\<exists>i. sc_index c = Some i \<and> sl_queue ?s i = Some p)"
  proof (intro allI impI)
    fix q d
    assume q: "sl_heap ?s q = Some d"
    show "q < sl_next ?s \<and> sc_fd d > 0 \<and> (sc_fd d, q) \<in> set (sl_epoll ?s) \<and>
        (\<exists>i. sc_index d = Some i \<and> sl_queue ?s i = Some q)"
    proof (cases "q = sl_next s")
      case True
      then show ?thesis using q fd by (auto simp: accept_client_def Let_def slot cb)
    next
      case False
      then have "sl_heap s q = Some d" using q by (simp add: accept_client_def Let_def cb)
      then obtain j where j: "sc_index d = Some j" "sl_queue s j = Some q" "sc_fd d > 0"
        "(sc_fd d, q) \<in> set (sl_epoll s)" "q < sl_next s"
        by (rule loop_inv_heapD [OF inv])
      then have "j \<noteq> i" using i by auto
      with j show ?thesis by (simp add: accept_client_def Let_def slot cb)
    qed
  qed
  moreover have "\<forall>j p. sl_queue ?s j = Some p \<longrightarrow> (\<exists>c. sl_heap ?s p = Some c \<and> sc_index c = Some j)"
    using inv fresh nq by (auto simp: accept_client_def Let_def slot cb table_inv_def loop_inv_def)
  moreover have "\<forall>(f, p) \<in> set (sl_epoll ?s). \<exists>c. sl_heap ?s p = Some c \<and> sc_fd c = f"
    using inv fresh by (fastforce simp: accept_client_def Let_def slot cb table_inv_def loop_inv_def)
  moreover have "distinct (map fst (sl_epoll ?s))"
    using inv fd by (simp add: accept_client_def Let_def cb table_inv_def loop_inv_def)
  ultimately have "loop_inv ?s" using card unfolding table_inv_def loop_inv_def by simp
  then show ?thesis by (auto simp: accept_client_def Let_def cb)
qed

lemma accept_loop_inv:
  "\<lbrakk>loop_inv s; distinct socks; \<forall>fd \<in> set socks. fd \<notin> fst ` set (sl_epoll s)\<rbrakk> \<Longrightarrow>
   loop_inv (accept_loop h now socks s) \<and> set (sl_epoll s) \<subseteq> set (sl_epoll (accept_loop h now socks s))"
proof (induction socks arbitrary: s)
  case Nil
  then show ?case by simp
next
  case (Cons fd socks)
  show ?case
  proof (cases "fd > 0 \<and> sl_accept_size s + 1 \<le> max_accept_size")
    case True
    note step = accept_client_inv [OF Cons.prems(1) conjunct1 [OF True] _ conjunct2 [OF True], of h now]
    have "fd \<notin> fst ` set (sl_epoll s)" using Cons.prems by simp
    note st = step [OF this]
    have "loop_inv (accept_loop h now socks (accept_client h now fd s)) \<and>
        set (sl_epoll (accept_client h now fd s)) \<subseteq> set (sl_epoll (accept_loop h now socks (accept_client h now fd s)))"
      using st Cons.prems by (intro Cons.IH) auto
    with st True show ?thesis by auto
  next
    case False
    then show ?thesis using Cons.prems by (auto simp: table_inv_def loop_inv_def used_slots_def)
  qed
qed

text \<open>
  What leaves the table: the common effect of a removed and of an expired client, on a table whose
  count may be off by the clients the sweep has dropped.
\<close>

definition left_by :: "int \<Rightarrow> nat \<Rightarrow> nat \<Rightarrow> 's server_loop \<Rightarrow> 's server_loop \<Rightarrow> bool" where
  "left_by fd i p s s' \<longleftrightarrow>
     sl_epoll s' = filter (\<lambda>e. fst e \<noteq> fd) (sl_epoll s) \<and> sl_queue s' = (sl_queue s)(i := None) \<and>
     sl_heap s' = (sl_heap s)(p := None) \<and> sl_next s' = sl_next s"

lemma table_inv_left:
  assumes inv: "table_inv n s" and p: "sl_heap s p = Some c" "sc_index c = Some i"
    and left: "left_by (sc_fd c) i p s s'"
  shows "table_inv (n - 1) s'"
proof -
  note l = left [unfolded left_by_def]
  have i: "sl_queue s i = Some p" "0 < sc_fd c"
    using inv p unfolding table_inv_def by (metis option.inject)+
  have used: "used_slots s' = used_slots s - {i}" "i \<in> used_slots s"
    using l i by (auto simp: used_slots_def)
  have fin: "finite (used_slots s)" "int (card (used_slots s)) = n"
    using inv by (simp_all add: table_inv_def)
  have inj: "sl_queue s j = Some p \<Longrightarrow> j = i" for j
    using inv p by (force simp: table_inv_def)
  have fds: "(sc_fd c, q) \<in> set (sl_epoll s) \<Longrightarrow> q = p" for q
    using inv p unfolding table_inv_def by (metis eq_key_imp_eq_value)
  have "int (card (used_slots s - {i})) = n - 1"
    using fin used(2) card_gt_0_iff [of "used_slots s"] by (auto simp: of_nat_diff Suc_leI)
  moreover have "\<forall>j \<in> used_slots s. int j < max_accept_size"
    using inv by (auto simp: table_inv_def)
  moreover have "distinct (map fst (sl_epoll s'))"
    using inv l by (simp add: table_inv_def distinct_map_filter)
  moreover have "\<forall>j q. sl_queue s' j = Some q \<longrightarrow> (\<exists>d. sl_heap s' q = Some d \<and> sc_index d = Some j)"
    using inv l inj unfolding table_inv_def by (auto split: if_splits)
  moreover have "\<forall>(f, q) \<in> set (sl_epoll s'). \<exists>d. sl_heap s' q = Some d \<and> sc_fd d = f"
    using inv l p unfolding table_inv_def by fastforce
  moreover have "\<forall>q d. sl_heap s' q = Some d \<longrightarrow> q < sl_next s' \<and> sc_fd d > 0 \<and> (sc_fd d, q) \<in> set (sl_epoll s') \<and>
        (\<exists>j. sc_index d = Some j \<and> sl_queue s' j = Some q)"
  proof (intro allI impI)
    fix q d
    assume "sl_heap s' q = Some d"
    then have q: "q \<noteq> p" "sl_heap s q = Some d" using l by (simp_all split: if_splits)
    then obtain j where "q < sl_next s" "sc_fd d > 0" "(sc_fd d, q) \<in> set (sl_epoll s)" "sc_index d = Some j"
      "sl_queue s j = Some q"
      using inv unfolding table_inv_def by blast
    moreover have "j \<noteq> i" using i(1) q(1) calculation by auto
    moreover have "sc_fd d \<noteq> sc_fd c" using fds q(1) calculation by metis
    ultimately show "q < sl_next s' \<and> sc_fd d > 0 \<and> (sc_fd d, q) \<in> set (sl_epoll s') \<and>
        (\<exists>j. sc_index d = Some j \<and> sl_queue s' j = Some q)"
      using l by simp
  qed
  ultimately show ?thesis
    using fin by (simp add: table_inv_def used)
qed

lemma table_inv_refresh:
  assumes inv: "table_inv n s" and p: "sl_heap s p = Some c"
    and same: "sc_fd c' = sc_fd c" "sc_index c' = sc_index c"
    and s': "sl_epoll s' = sl_epoll s" "sl_queue s' = sl_queue s" "sl_next s' = sl_next s"
      "sl_heap s' = (sl_heap s)(p := Some c')"
  shows "table_inv n s'"
proof -
  have used: "used_slots s' = used_slots s" by (simp add: used_slots_def s')
  have c: "p < sl_next s" "sc_fd c > 0" "(sc_fd c, p) \<in> set (sl_epoll s)"
    using inv p unfolding table_inv_def by blast+
  obtain i where i: "sc_index c = Some i" "sl_queue s i = Some p"
    using inv p unfolding table_inv_def by blast
  have "\<forall>q d. sl_heap s' q = Some d \<longrightarrow> q < sl_next s' \<and> sc_fd d > 0 \<and> (sc_fd d, q) \<in> set (sl_epoll s') \<and>
        (\<exists>j. sc_index d = Some j \<and> sl_queue s' j = Some q)"
    using inv c i same unfolding table_inv_def s' by simp
  moreover have "\<exists>d. sl_heap s' q = Some d \<and> sc_index d = sc_index e \<and> sc_fd d = sc_fd e"
    if "sl_heap s q = Some e" for q e
    using that p same by (cases "q = p") (simp_all add: s')
  note keeps = this
  have "\<forall>j q. sl_queue s' j = Some q \<longrightarrow> (\<exists>d. sl_heap s' q = Some d \<and> sc_index d = Some j)"
    using inv keeps unfolding table_inv_def s'(1-3) by metis
  moreover have "\<forall>(f, q) \<in> set (sl_epoll s'). \<exists>d. sl_heap s' q = Some d \<and> sc_fd d = f"
    using inv keeps unfolding table_inv_def s'(1-3) by fast
  ultimately show ?thesis
    using inv unfolding table_inv_def used s'(1) by blast
qed

section \<open>Lemmas: one event\<close>

text \<open>What the chunks of one event leave: the client as it was, or unregistered with descriptor -1.\<close>

definition still_open :: "socket_context \<Rightarrow> 's server_loop \<Rightarrow> socket_context \<times> 's server_loop \<times> bool \<Rightarrow> bool" where
  "still_open c s st \<longleftrightarrow> (\<exists>app. st = (c, s\<lparr>sl_app := app\<rparr>, False))"

definition handed_over :: "socket_context \<Rightarrow> 's server_loop \<Rightarrow> socket_context \<times> 's server_loop \<times> bool \<Rightarrow> bool" where
  "handed_over c s st \<longleftrightarrow>
     (\<exists>d s'. st = (d, s', True) \<and> sc_fd d = -1 \<and> sc_index d = sc_index c \<and>
        sl_epoll s' = filter (\<lambda>e. fst e \<noteq> sc_fd c) (sl_epoll s) \<and> sl_queue s' = sl_queue s \<and>
        sl_heap s' = sl_heap s \<and> sl_next s' = sl_next s \<and> sl_accept_size s' = sl_accept_size s)"

lemma read_chunk_cases:
  assumes "still_open c s st \<or> handed_over c s st" and "-1 \<notin> fst ` set (sl_epoll s)"
  shows "still_open c s (read_chunk h now data st) \<or> handed_over c s (read_chunk h now data st)"
proof -
  obtain c1 s1 rm where st: "st = (c1, s1, rm)" by (cases st)
  obtain r app where cb: "sh_read_cb h (sc_cli c1) data (sl_app s1) = (r, app)"
    by (cases "sh_read_cb h (sc_cli c1) data (sl_app s1)")
  have gone: "filter (\<lambda>e. fst e \<noteq> sc_fd c \<and> fst e \<noteq> -1) (sl_epoll s) = filter (\<lambda>e. fst e \<noteq> sc_fd c) (sl_epoll s)"
    using assms(2) by (intro filter_cong refl) force
  show ?thesis
  proof (cases "r < 0")
    case False
    then show ?thesis
      using assms(1) by (auto simp: st still_open_def handed_over_def read_chunk_def cb)
  next
    case True
    from assms(1) show ?thesis
    proof
      assume "still_open c s st"
      then obtain app0 where "c1 = c" "s1 = s\<lparr>sl_app := app0\<rparr>" by (auto simp: still_open_def st)
      moreover have "\<exists>d. read_chunk h now data st = (d, epoll_del (sc_fd c1) (s1\<lparr>sl_app := app\<rparr>), True) \<and>
          sc_fd d = -1 \<and> sc_index d = sc_index c1"
        using True by (simp add: st read_chunk_def cb)
      ultimately have "handed_over c s (read_chunk h now data st)"
        by (auto simp: handed_over_def epoll_del_def)
      then show ?thesis ..
    next
      assume "handed_over c s st"
      then have s1: "sc_fd c1 = -1" "sc_index c1 = sc_index c" "sl_queue s1 = sl_queue s"
          "sl_epoll s1 = filter (\<lambda>e. fst e \<noteq> sc_fd c) (sl_epoll s)"
          "sl_heap s1 = sl_heap s" "sl_next s1 = sl_next s" "sl_accept_size s1 = sl_accept_size s"
        by (simp_all add: handed_over_def st)
      obtain d where d: "read_chunk h now data st = (d, epoll_del (-1) (s1\<lparr>sl_app := app\<rparr>), True)"
          "sc_fd d = -1" "sc_index d = sc_index c1"
        using True s1(1) by (simp add: st read_chunk_def cb)
      have "handed_over c s (read_chunk h now data st)"
        using s1 d gone by (simp add: handed_over_def epoll_del_def)
      then show ?thesis ..
    qed
  qed
qed

lemma read_chunks_cases:
  assumes "-1 \<notin> fst ` set (sl_epoll s)"
  shows "still_open c s st \<or> handed_over c s st \<Longrightarrow>
    still_open c s (fold (read_chunk h now) chunks st) \<or> handed_over c s (fold (read_chunk h now) chunks st)"
  by (induction chunks arbitrary: st) (use read_chunk_cases [OF _ assms] in auto)

text \<open>An event on a registered client is handled, and every other client stays registered.\<close>

lemma handle_client_inv:
  assumes inv: "loop_inv s" and p: "p \<in> snd ` set (sl_epoll s)"
  shows "\<exists>s'. handle_client h now p epollin hup chunks rend s = Inr s' \<and> loop_inv s' \<and>
    snd ` set (sl_epoll s) - {p} \<subseteq> snd ` set (sl_epoll s')"
proof -
  from p obtain c where c: "sl_heap s p = Some c" "(sc_fd c, p) \<in> set (sl_epoll s)"
    using inv by (auto elim: loop_inv_epollD)
  then obtain i where i: "sc_index c = Some i" "sl_queue s i = Some p" "sc_fd c > 0"
    using inv by (auto elim: loop_inv_heapD)
  define c0 where "c0 = (if epollin then c\<lparr>sc_read_timestamp := now, sc_read_timeout := now + sh_read_timeout h\<rparr> else c)"
  have c0: "sc_fd c0 = sc_fd c" "sc_index c0 = sc_index c" by (simp_all add: c0_def)
  define st where "st = (if epollin then fold (read_chunk h now) chunks (c0, s, False) else (c, s, False))"
  have no_neg: "-1 \<notin> fst ` set (sl_epoll s)"
    using inv by (force simp: loop_inv_def table_inv_def)
  have so: "still_open x s (x, s, False)" for x
    by (auto simp: still_open_def intro!: exI [of _ "sl_app s"])
  have st: "still_open c0 s st \<or> handed_over c0 s st"
    using read_chunks_cases [OF no_neg] so by (simp add: st_def c0_def)
  obtain c1 s1 r where s1: "st = (c1, s1, r)" by (cases st)
  define rm where "rm = (r \<or> epollin \<and> recv_removes rend)"
  let ?s2 = "s1\<lparr>sl_heap := (sl_heap s1)(p := Some c1)\<rparr>"
  have eq: "handle_client h now p epollin hup chunks rend s =
      (if hup \<or> rm then remove_client h p c1 ?s2 else Inr ?s2)"
    using s1 by (auto simp: handle_client_def c st_def c0_def rm_def split: if_splits)
  have fields: "sl_queue s1 = sl_queue s" "sl_heap s1 = sl_heap s" "sl_next s1 = sl_next s"
      "sl_accept_size s1 = sl_accept_size s" "sc_index c1 = Some i"
    using st s1 c0 i by (fastforce simp: still_open_def handed_over_def)+
  have handed: "sc_fd c1 = -1 \<and> sl_epoll s1 = filter (\<lambda>e. fst e \<noteq> sc_fd c) (sl_epoll s) \<and> rm" if "r"
    using st s1 c0 that by (auto simp: still_open_def handed_over_def rm_def)
  have open_: "sc_fd c1 = sc_fd c \<and> sl_epoll s1 = sl_epoll s" if "\<not> r"
    using st s1 c0 that by (auto simp: still_open_def handed_over_def)
  show ?thesis
  proof (cases "hup \<or> rm")
    case False
    then have "\<not> r" by (simp add: rm_def)
    then have "table_inv (sl_accept_size s) ?s2"
      using fields open_ [OF \<open>\<not> r\<close>] i(1)
      by (intro table_inv_refresh [OF inv [unfolded loop_inv_def] c(1), of c1]) simp_all
    then show ?thesis
      using False eq fields open_ [OF \<open>\<not> r\<close>] by (auto simp: loop_inv_def)
  next
    case True
    obtain s' where s': "remove_client h p c1 ?s2 = Inr s'"
      by (auto simp: remove_client_def fields Let_def)
    then have "left_by (sc_fd c) i p s s'" "sl_accept_size s' = sl_accept_size s - 1"
      using handed open_ fields i
      by (cases r; auto simp: remove_client_def left_by_def epoll_del_def Let_def split: if_splits)+
    then have "loop_inv s'"
      using table_inv_left [OF inv [unfolded loop_inv_def] c(1) i(1)] by (simp add: loop_inv_def)
    moreover have "snd ` set (sl_epoll s) - {p} \<subseteq> snd ` set (sl_epoll s')"
    proof
      fix q assume "q \<in> snd ` set (sl_epoll s) - {p}"
      then obtain d where "sl_heap s q = Some d" "(sc_fd d, q) \<in> set (sl_epoll s)" "q \<noteq> p"
        using inv by (auto elim: loop_inv_epollD)
      moreover have "sc_fd d \<noteq> sc_fd c"
        using calculation c inv unfolding loop_inv_def table_inv_def by (metis eq_key_imp_eq_value)
      ultimately show "q \<in> snd ` set (sl_epoll s')"
        using \<open>left_by (sc_fd c) i p s s'\<close> by (force simp: left_by_def)
    qed
    ultimately show ?thesis using True s' eq by simp
  qed
qed

section \<open>Lemmas: a turn of the loop\<close>

text \<open>
  What the kernel guarantees of a batch: one event per registered pointer, registered when
  \<open>epoll_wait\<close> returned, and descriptors from \<open>accept\<close> that are not in use.
\<close>

primrec client_of :: "server_event \<Rightarrow> nat list" where
  "client_of (Listen_Event i f) = []"
| "client_of (Client_Event p i u cs r) = [p]"

definition registered_batch :: "server_event list \<Rightarrow> 's server_loop \<Rightarrow> bool" where
  "registered_batch es s \<longleftrightarrow> distinct (concat (map client_of es)) \<and>
     set (concat (map client_of es)) \<subseteq> snd ` set (sl_epoll s)"

definition fresh_sockets :: "int list \<Rightarrow> 's server_loop \<Rightarrow> bool" where
  "fresh_sockets socks s \<longleftrightarrow> distinct socks \<and> (\<forall>fd \<in> set socks. fd \<notin> fst ` set (sl_epoll s))"

primrec accepts_fresh :: "'s server_handle \<Rightarrow> int \<Rightarrow> server_event list \<Rightarrow> 's server_loop \<Rightarrow> bool" where
  "accepts_fresh h now [] s = True"
| "accepts_fresh h now (e # es) s =
     ((case e of Listen_Event _ socks \<Rightarrow> fresh_sockets socks s | _ \<Rightarrow> True) \<and>
      (case handle_event h now e s of Inr s' \<Rightarrow> accepts_fresh h now es s' | Inl _ \<Rightarrow> True))"

fun kernel_ok :: "'s server_handle \<Rightarrow> int \<Rightarrow> epoll_result \<Rightarrow> 's server_loop \<Rightarrow> bool" where
  "kernel_ok h now (Epoll_Events es) s \<longleftrightarrow> registered_batch es s \<and> accepts_fresh h now es s"
| "kernel_ok h now Epoll_Error s \<longleftrightarrow> True"

lemma handle_events_inv:
  "\<lbrakk>loop_inv s; registered_batch es s; accepts_fresh h now es s\<rbrakk> \<Longrightarrow>
   \<exists>s'. handle_events h now es s = Inr s' \<and> loop_inv s'"
proof (induction es arbitrary: s)
  case Nil
  then show ?case by simp
next
  case (Cons e es)
  have "\<exists>s1. handle_event h now e s = Inr s1 \<and> loop_inv s1 \<and>
      snd ` set (sl_epoll s) - set (client_of e) \<subseteq> snd ` set (sl_epoll s1)"
  proof (cases e)
    case (Listen_Event i socks)
    then show ?thesis
      using Cons.prems accept_loop_inv [OF Cons.prems(1), of socks h now] by (auto simp: fresh_sockets_def)
  next
    case (Client_Event p i u cs r)
    then have "p \<in> snd ` set (sl_epoll s)" using Cons.prems(2) by (simp add: registered_batch_def)
    from handle_client_inv [OF Cons.prems(1) this, of h now i u cs r] show ?thesis
      by (simp add: Client_Event)
  qed
  then obtain s1 where s1: "handle_event h now e s = Inr s1" "loop_inv s1"
    "snd ` set (sl_epoll s) - set (client_of e) \<subseteq> snd ` set (sl_epoll s1)" by blast
  have "registered_batch es s1"
    using Cons.prems(2) s1(3) unfolding registered_batch_def by simp blast
  then have "\<exists>s'. handle_events h now es s1 = Inr s' \<and> loop_inv s'"
    using Cons.prems(3) s1 by (intro Cons.IH) simp_all
  then show ?case by (simp add: s1)
qed

lemma sweep_inv:
  "table_inv n s \<Longrightarrow> \<exists>s' m. sweep h now is (s, n) = Inr (s', m) \<and> table_inv m s'"
proof (induction "is" arbitrary: s n)
  case Nil
  then show ?case by simp
next
  case (Cons i "is")
  show ?case
  proof (cases "sl_queue s i")
    case None
    then show ?thesis using Cons by simp
  next
    case (Some p)
    then obtain c where c: "sl_heap s p = Some c" "sc_index c = Some i"
      using Cons.prems unfolding table_inv_def by blast
    have "0 < sc_fd c" using Cons.prems c unfolding table_inv_def by blast
    then have "left_by (sc_fd c) i p s (drop_expired h i p c s)"
      by (simp add: left_by_def drop_expired_def epoll_del_def Let_def)
    then have "table_inv (n - 1) (drop_expired h i p c s)"
      by (rule table_inv_left [OF Cons.prems c])
    then show ?thesis using Cons Some c by (cases "expired now c") auto
  qed
qed

lemma table_inv_count [simp]: "table_inv m (s\<lparr>sl_accept_size := n\<rparr>) = table_inv m s"
  by (simp add: table_inv_def used_slots_def)

lemma loop_turn_inv:
  assumes "loop_inv s" and "kernel_ok h now r s"
  shows "\<exists>s'. loop_turn h now r s = Inr s' \<and> loop_inv s'"
proof (cases r)
  case (Epoll_Events es)
  then show ?thesis using assms handle_events_inv by auto
next
  case Epoll_Error
  obtain s' m where "sweep h now [0..<nat (sl_accept_size s)] (s, sl_accept_size s) = Inr (s', m)" "table_inv m s'"
    using assms(1) sweep_inv unfolding loop_inv_def by blast
  then show ?thesis by (simp add: Epoll_Error loop_inv_def)
qed

text \<open>The states the loop reaches, at any times and on any results the kernel may give.\<close>

inductive loop_reach :: "'s server_handle \<Rightarrow> 's \<Rightarrow> 's server_loop \<Rightarrow> bool" for h app where
  reach_init: "loop_reach h app (ServerLoop_init app)"
| reach_turn: "loop_reach h app s \<Longrightarrow> kernel_ok h now r s \<Longrightarrow> loop_turn h now r s = Inr s' \<Longrightarrow> loop_reach h app s'"

lemma loop_reach_inv: "loop_reach h app s \<Longrightarrow> loop_inv s"
proof (induction rule: loop_reach.induct)
  case reach_init
  show ?case by (rule loop_inv_init)
next
  case (reach_turn s now r s')
  from loop_turn_inv [OF reach_turn.IH reach_turn.hyps(2)] show ?case
    using reach_turn.hyps(3) by auto
qed

text \<open>A sequence of turns, and what a sweep leaves in each slot.\<close>

primrec loop_turns :: "'s server_handle \<Rightarrow> (int \<times> epoll_result) list \<Rightarrow> 's server_loop \<Rightarrow> 's server_loop outcome" where
  "loop_turns h [] s = Inr s"
| "loop_turns h (x # xs) s = obind (loop_turn h (fst x) (snd x) s) (loop_turns h xs)"

lemma sweep_slots:
  "\<lbrakk>table_inv n s; distinct is; sweep h now is (s, n) = Inr (s', m)\<rbrakk> \<Longrightarrow>
   sl_queue s' i = (case sl_queue s i of None \<Rightarrow> None
     | Some p \<Rightarrow> if i \<in> set is \<and> expired now (the (sl_heap s p)) then None else Some p)"
proof (induction "is" arbitrary: s n)
  case Nil
  then show ?case by (auto split: option.splits)
next
  case (Cons j "is")
  show ?case
  proof (cases "sl_queue s j")
    case None
    then show ?thesis using Cons by (auto split: option.splits)
  next
    case (Some p)
    then obtain c where c: "sl_heap s p = Some c" "sc_index c = Some j"
      using Cons.prems(1) unfolding table_inv_def by blast
    have fd: "0 < sc_fd c" using Cons.prems(1) c unfolding table_inv_def by blast
    let ?d = "drop_expired h j p c s"
    have left: "left_by (sc_fd c) j p s ?d"
      using fd by (simp add: left_by_def drop_expired_def epoll_del_def Let_def)
    have inj: "sl_queue s i = Some p \<Longrightarrow> i = j"
      using c Cons.prems(1) unfolding table_inv_def by force
    show ?thesis
    proof (cases "expired now c")
      case True
      have "sl_queue s' i = (case sl_queue ?d i of None \<Rightarrow> None
          | Some q \<Rightarrow> if i \<in> set is \<and> expired now (the (sl_heap ?d q)) then None else Some q)"
        using Cons.prems(2,3) True Some c by (intro Cons.IH [OF table_inv_left [OF Cons.prems(1) c left]]) simp_all
      moreover have "sl_heap ?d = (sl_heap s)(p := None)" "sl_queue ?d = (sl_queue s)(j := None)"
        using left by (auto simp: left_by_def)
      moreover have "q \<noteq> p" if "i \<noteq> j" "sl_queue s i = Some q" for q
        using that inj by blast
      ultimately show ?thesis using Some c True by (cases "i = j"; cases "sl_queue s i") simp_all
    next
      case False
      have "sl_queue s' i = (case sl_queue s i of None \<Rightarrow> None
          | Some q \<Rightarrow> if i \<in> set is \<and> expired now (the (sl_heap s q)) then None else Some q)"
        using Cons.prems(2,3) False Some c by (intro Cons.IH [OF Cons.prems(1)]) simp_all
      then show ?thesis using Some c False by (cases "i = j"; cases "sl_queue s i") simp_all
    qed
  qed
qed

lemma quiet_turns: "loop_turns h (map (\<lambda>t. (t, Epoll_Events [])) ts) s = Inr s"
  by (induction ts) auto

section \<open>Properties\<close>

text \<open>C6: in every state the accept loop reaches, a further turn returns without touching a freed
  \<open>SocketContext\<close>, without writing outside \<open>accept_queue\<close>, and with a slot for every accepted client:
  the used slots are \<open>accept_size\<close> many and below the size of the array, and the clients in the slots
  are the clients registered with epoll, one each.\<close>

theorem server_loop_safe:
  assumes "loop_reach h app s" and "kernel_ok h now r s"
  shows "\<exists>s'. loop_turn h now r s = Inr s' \<and>
    int (card {i. sl_queue s' i \<noteq> None}) = sl_accept_size s' \<and>
    (\<forall>i p. sl_queue s' i = Some p \<longrightarrow> int i < max_accept_size \<and>
       (\<exists>c. sl_heap s' p = Some c \<and> sc_index c = Some i \<and> (sc_fd c, p) \<in> set (sl_epoll s'))) \<and>
    distinct (map fst (sl_epoll s'))"
proof -
  obtain s' where s': "loop_turn h now r s = Inr s'" "loop_inv s'"
    using loop_turn_inv [OF loop_reach_inv [OF assms(1)] assms(2)] by blast
  have "int i < max_accept_size \<and> (\<exists>c. sl_heap s' p = Some c \<and> sc_index c = Some i \<and> (sc_fd c, p) \<in> set (sl_epoll s'))"
    if "sl_queue s' i = Some p" for i p
    using that s'(2) unfolding loop_inv_def table_inv_def used_slots_def by blast
  then show ?thesis
    using s' by (auto simp: loop_inv_def table_inv_def used_slots_def)
qed

lemma server_loop_safe_witness:
  "\<exists>s'. loop_turn \<lparr>sh_accept_cb = (\<lambda>c n. (c, n)), sh_read_cb = (\<lambda>c d n. (-1, n + length d)),
        sh_close_cb = (\<lambda>c n. n), sh_timeout_cb = (\<lambda>c n. n), sh_read_timeout = 15, sh_write_timeout = 5\<rparr> 100
      (Epoll_Events [Listen_Event True [7, 8]]) (ServerLoop_init (0 :: nat)) = Inr s' \<and>
    int (card {i. sl_queue s' i \<noteq> None}) = sl_accept_size s'"
  using server_loop_safe [OF reach_init, of "\<lparr>sh_accept_cb = (\<lambda>c n. (c, n)), sh_read_cb = (\<lambda>c d n. (-1, n + length d)),
        sh_close_cb = (\<lambda>c n. n), sh_timeout_cb = (\<lambda>c n. n), sh_read_timeout = 15, sh_write_timeout = 5\<rparr>" 100
      "Epoll_Events [Listen_Event True [7, 8]]" "0 :: nat"]
  by (auto simp: registered_batch_def fresh_sockets_def ServerLoop_init_def)

text \<open>The timeouts are tested only when \<open>epoll_wait\<close> fails.  Turns without events change nothing,
  whatever the times, so an idle client is never closed; a failure drops the expired clients of the
  first \<open>accept_size\<close> slots, and the clients in later slots are kept whether expired or not.\<close>

theorem timeouts_only_on_error:
  assumes "loop_reach h app s"
  shows "loop_turns h (map (\<lambda>t. (t, Epoll_Events [])) ts) s = Inr s \<and>
    (\<exists>s'. loop_turn h now Epoll_Error s = Inr s' \<and>
      (\<forall>i. sl_queue s' i = (case sl_queue s i of None \<Rightarrow> None
         | Some p \<Rightarrow> if int i < sl_accept_size s \<and> expired now (the (sl_heap s p)) then None else Some p)))"
proof -
  have inv: "table_inv (sl_accept_size s) s"
    using loop_reach_inv [OF assms] by (simp add: loop_inv_def)
  obtain s' m where s': "sweep h now [0..<nat (sl_accept_size s)] (s, sl_accept_size s) = Inr (s', m)"
    using sweep_inv [OF inv] by blast
  have "sl_queue s' i = (case sl_queue s i of None \<Rightarrow> None
      | Some p \<Rightarrow> if int i < sl_accept_size s \<and> expired now (the (sl_heap s p)) then None else Some p)" for i
    using sweep_slots [OF inv _ s', of i] by (simp add: zless_nat_eq_int_zless cong: option.case_cong)
  then show ?thesis using s' by (simp add: quiet_turns)
qed

lemma timeouts_only_on_error_witness:
  "loop_turns \<lparr>sh_accept_cb = (\<lambda>c n. (c, n)), sh_read_cb = (\<lambda>c d n. (-1, n + length d)),
      sh_close_cb = (\<lambda>c n. n), sh_timeout_cb = (\<lambda>c n. n), sh_read_timeout = 15, sh_write_timeout = 5\<rparr>
    [(100, Epoll_Events []), (5000, Epoll_Events [])] (ServerLoop_init (0 :: nat)) = Inr (ServerLoop_init 0)"
  using timeouts_only_on_error [OF reach_init, of "\<lparr>sh_accept_cb = (\<lambda>c n. (c, n)), sh_read_cb = (\<lambda>c d n. (-1, n + length d)),
      sh_close_cb = (\<lambda>c n. n), sh_timeout_cb = (\<lambda>c n. n), sh_read_timeout = 15, sh_write_timeout = 5\<rparr>" "[100, 5000]" "0 :: nat"]
  by simp

end
