(* ===== verification/Http_Server.thy ===== *)
theory Http_Server
  imports Server_Loop Http_Routes
begin

text \<open>
  \<open>server/http_server.cpp\<close>: the callbacks the accept loop makes, the task that answers a request, and
  the tasks that send the rest of an answer.  The pool is the list of the tasks pushed to it; time,
  \<open>send\<close> and the \<open>errno\<close> of each thread are inputs.
\<close>

section \<open>Sending\<close>

record next_task =
  nt_sock :: int
  nt_content :: mstr
  nt_expires_in :: int

text \<open>What \<open>send\<close> does: the number of bytes it took, or the \<open>errno\<close> it failed with.\<close>

datatype send_result = Sent nat | Send_Failed int

fun send_length :: "send_result \<Rightarrow> int" where
  "send_length (Sent n) = int n"
| "send_length (Send_Failed e) = -1"

fun send_bytes :: "send_result \<Rightarrow> mstr \<Rightarrow> string" where
  "send_bytes (Sent n) buffer = take n (mstr_str buffer)"
| "send_bytes (Send_Failed e) buffer = []"

text \<open>A call that succeeds leaves \<open>errno\<close> alone.\<close>

fun send_errno :: "send_result \<Rightarrow> int \<Rightarrow> int" where
  "send_errno (Sent n) errno = errno"
| "send_errno (Send_Failed e) errno = e"

text \<open>The task to push, the bytes on the wire and the thread's \<open>errno\<close>.\<close>

definition SendResponse ::
    "int \<Rightarrow> send_result \<Rightarrow> int \<Rightarrow> int \<Rightarrow> mstr \<Rightarrow> next_task option \<Rightarrow> next_task option \<times> string \<times> int" where
  "SendResponse now r errno sock buffer pre =
     (let expires_in = (case pre of None \<Rightarrow> now + 15 | Some t \<Rightarrow> nt_expires_in t)
      in if now > expires_in then (None, [], errno)
         else
           let total = int (mlen buffer);
               len = send_length r;
               errno1 = send_errno r errno;
               out = send_bytes r buffer
           in if len > 0 \<and> len < total
              then (Some \<lparr>nt_sock = sock, nt_content = Mstr (drop (nat len) (mstr_str buffer)), nt_expires_in = expires_in\<rparr>,
                    out, errno1)
              else if errno1 = EAGAIN \<or> errno1 = EWOULDBLOCK
              then (Some \<lparr>nt_sock = sock, nt_content = buffer, nt_expires_in = expires_in\<rparr>, out, errno1)
              else (None, out, errno1))"

text \<open>What a task ends with: another task on the queue, or the socket closed.\<close>

datatype task_end = Pushed next_task | Closed int

definition NextTask_Run :: "int \<Rightarrow> send_result \<Rightarrow> int \<Rightarrow> next_task \<Rightarrow> task_end \<times> string \<times> int" where
  "NextTask_Run now r errno t =
     (let (nxt, out, errno1) = SendResponse now r errno (nt_sock t) (nt_content t) (Some t)
      in (case nxt of Some n \<Rightarrow> Pushed n | None \<Rightarrow> Closed (nt_sock t), out, errno1))"

text \<open>\<open>HttpTask::Run\<close>; without routes it neither answers nor closes.\<close>

definition HttpTask_Run ::
    "'s route_table option \<Rightarrow> int \<Rightarrow> send_result \<Rightarrow> int \<Rightarrow> http_request \<Rightarrow> 's \<Rightarrow>
     (task_end option \<times> string \<times> int \<times> 's) outcome" where
  "HttpTask_Run routes now r errno request s =
     (case routes of
        None \<Rightarrow> Inr (None, [], errno, s)
      | Some table \<Rightarrow>
          obind (Routes_Process table request HttpResponse_new s) (\<lambda>(rc, resp, s1).
            if rc = 0
            then let (nxt, out, errno1) = SendResponse now r errno (rq_socket request) (Mstr (HttpResponse_Message resp)) None
                 in Inr (Some (case nxt of Some n \<Rightarrow> Pushed n | None \<Rightarrow> Closed (rq_socket request)), out, errno1, s1)
            else Inr (Some (Closed (rq_socket request)), [], errno, s1)))"

text \<open>
  The tasks that follow one another for an answer: each attempt is made by a worker at a time with a
  result of \<open>send\<close>; \<open>errno\<close> is per worker.
\<close>

type_synonym attempt = "nat \<times> int \<times> send_result"

primrec next_runs :: "attempt list \<Rightarrow> next_task \<Rightarrow> (nat \<Rightarrow> int) \<Rightarrow> string \<times> task_end \<times> (nat \<Rightarrow> int)" where
  "next_runs [] t errno = ([], Pushed t, errno)"
| "next_runs (a # as) t errno =
     (let (w, now, r) = a;
          (e, out, errno1) = NextTask_Run now r (errno w) t;
          errno2 = errno(w := errno1)
      in case e of
           Closed sock \<Rightarrow> (out, Closed sock, errno2)
         | Pushed t1 \<Rightarrow> let (out1, e1, errno3) = next_runs as t1 errno2 in (out @ out1, e1, errno3))"

section \<open>The callbacks\<close>

text \<open>
  The application state of the loop: the heap of requests with their parsers, and the requests of
  the tasks pushed to the pool.  A callback on a null or freed request records the fault.
\<close>

record 'p http_server =
  hs_requests :: "nat \<Rightarrow> ('p \<times> http_request) option"
  hs_next :: nat
  hs_pool :: "nat list"
  hs_fault :: "fault option"

definition HttpServer_OnAccept :: "'p \<Rightarrow> int \<Rightarrow> client_context \<Rightarrow> 'p http_server \<Rightarrow> client_context \<times> 'p http_server" where
  "HttpServer_OnAccept parser0 now client hs =
     (client\<lparr>cl_userptr := Some (hs_next hs)\<rparr>,
      hs\<lparr>hs_requests := (hs_requests hs)(hs_next hs := Some (parser0, HttpRequest_new (cl_fd client) now)),
         hs_next := hs_next hs + 1\<rparr>)"

definition HttpServer_OnRead :: "'p parse_function \<Rightarrow> client_context \<Rightarrow> string \<Rightarrow> 'p http_server \<Rightarrow> int \<times> 'p http_server" where
  "HttpServer_OnRead parse client data hs =
     (case cl_userptr client of
        None \<Rightarrow> (0, hs\<lparr>hs_fault := Some Null_Deref\<rparr>)
      | Some p \<Rightarrow>
          (case hs_requests hs p of
             None \<Rightarrow> (0, hs\<lparr>hs_fault := Some Use_After_Free\<rparr>)
           | Some request \<Rightarrow>
               let request1 = HttpRequest_Append parse data request;
                   hs1 = hs\<lparr>hs_requests := (hs_requests hs)(p := Some request1)\<rparr>
               in if rq_finished (snd request1) then (-1, hs1\<lparr>hs_pool := hs_pool hs1 @ [p]\<rparr>) else (0, hs1)))"

definition HttpServer_OnClose :: "client_context \<Rightarrow> 'p http_server \<Rightarrow> 'p http_server" where
  "HttpServer_OnClose client hs = hs"

definition HttpServer_OnTimeOut :: "client_context \<Rightarrow> 'p http_server \<Rightarrow> 'p http_server" where
  "HttpServer_OnTimeOut client hs = hs"

text \<open>The constructor's handle; \<open>now\<close> is the clock of the requests it creates.\<close>

definition HttpServer_handle :: "'p parse_function \<Rightarrow> 'p \<Rightarrow> int \<Rightarrow> 'p http_server server_handle" where
  "HttpServer_handle parse parser0 now =
     \<lparr>sh_accept_cb = HttpServer_OnAccept parser0 now, sh_read_cb = HttpServer_OnRead parse,
      sh_close_cb = HttpServer_OnClose, sh_timeout_cb = HttpServer_OnTimeOut,
      sh_read_timeout = 15, sh_write_timeout = 5\<rparr>"

text \<open>\<open>HttpTask::Finish\<close> deletes the task, and with it the request.\<close>

definition HttpTask_Finish :: "nat \<Rightarrow> 'p http_server \<Rightarrow> 'p http_server" where
  "HttpTask_Finish p hs =
     (case hs_requests hs p of
        None \<Rightarrow> hs\<lparr>hs_fault := Some Use_After_Free\<rparr>
      | Some _ \<Rightarrow> hs\<lparr>hs_requests := (hs_requests hs)(p := None)\<rparr>)"

section \<open>Lemmas: sending\<close>

lemma SendResponse_task:
  "SendResponse now r errno sock buffer pre = (Some t, out, errno1) \<Longrightarrow>
   nt_sock t = sock \<and> (case pre of Some p \<Rightarrow> nt_expires_in t = nt_expires_in p | None \<Rightarrow> nt_expires_in t = now + 15)"
  by (auto simp: SendResponse_def Let_def split: if_splits option.splits)

lemma SendResponse_clean:
  assumes "SendResponse now r errno sock buffer (Some p) = (nxt, out, errno1)"
    and "send_errno r errno \<noteq> EAGAIN \<or> (\<exists>e. r = Send_Failed e)"
  shows "case nxt of Some t \<Rightarrow> out @ mstr_str (nt_content t) = mstr_str buffer
    | None \<Rightarrow> Sublist.prefix out (mstr_str buffer) \<and>
        (now \<le> nt_expires_in p \<longrightarrow> (\<exists>n. r = Sent n \<and> n > 0) \<longrightarrow> out = mstr_str buffer)"
  using assms
  by (cases r) (auto simp: SendResponse_def Let_def mlen_def EWOULDBLOCK_def take_is_prefix split: if_splits)

lemma next_runs_clean:
  "\<lbrakk>next_runs as t errno = (out, e, errno2); \<forall>w. errno w \<noteq> EAGAIN; \<forall>(w, now, r) \<in> set as. r \<noteq> Send_Failed EAGAIN\<rbrakk> \<Longrightarrow>
   case e of Pushed t' \<Rightarrow> out @ mstr_str (nt_content t') = mstr_str (nt_content t)
     | Closed sock \<Rightarrow> sock = nt_sock t \<and> Sublist.prefix out (mstr_str (nt_content t)) \<and>
         ((\<forall>(w, now, r) \<in> set as. now \<le> nt_expires_in t \<and> (\<exists>n. r = Sent n \<and> n > 0)) \<longrightarrow>
            out = mstr_str (nt_content t))"
proof (induction as arbitrary: t errno out)
  case Nil
  then show ?case by auto
next
  case (Cons a as)
  obtain w now r where a: "a = (w, now, r)" by (cases a)
  obtain nxt out1 errno1 where sr: "SendResponse now r (errno w) (nt_sock t) (nt_content t) (Some t) = (nxt, out1, errno1)"
    by (cases "SendResponse now r (errno w) (nt_sock t) (nt_content t) (Some t)")
  have clean: "send_errno r (errno w) \<noteq> EAGAIN" using Cons.prems(2,3) by (cases r) (auto simp: a)
  have errno1: "errno1 \<noteq> EAGAIN"
    using sr clean Cons.prems(2) by (auto simp: SendResponse_def Let_def split: if_splits)
  note step = SendResponse_clean [OF sr disjI1 [OF clean]]
  show ?case
  proof (cases nxt)
    case None
    then show ?thesis using Cons.prems(1) step by (auto simp: a NextTask_Run_def sr)
  next
    case (Some t1)
    obtain out2 where out2: "next_runs as t1 (errno(w := errno1)) = (out2, e, errno2)" "out = out1 @ out2"
      using Cons.prems(1) by (auto simp: a NextTask_Run_def sr Some split: prod.splits)
    have t1: "nt_sock t1 = nt_sock t" "nt_expires_in t1 = nt_expires_in t"
      using SendResponse_task [OF sr [unfolded Some]] by simp_all
    have rest: "out1 @ mstr_str (nt_content t1) = mstr_str (nt_content t)" using step Some by simp
    have "case e of Pushed t' \<Rightarrow> out2 @ mstr_str (nt_content t') = mstr_str (nt_content t1)
     | Closed sock \<Rightarrow> sock = nt_sock t1 \<and> Sublist.prefix out2 (mstr_str (nt_content t1)) \<and>
         ((\<forall>(w, now, r) \<in> set as. now \<le> nt_expires_in t1 \<and> (\<exists>n. r = Sent n \<and> n > 0)) \<longrightarrow>
            out2 = mstr_str (nt_content t1))"
      using Cons.prems(2,3) errno1 by (intro Cons.IH [OF out2(1)]) auto
    then show ?thesis
      unfolding rest [symmetric] using t1 out2(2) by (cases e) (auto simp: a)
  qed
qed

lemma next_runs_stale:
  "\<lbrakk>errno w = EAGAIN; mlen (nt_content t) \<le> n; \<forall>s \<in> set ts. s \<le> nt_expires_in t\<rbrakk> \<Longrightarrow>
   next_runs (map (\<lambda>s. (w, s, Sent n)) ts) t errno = (concat (replicate (length ts) (mstr_str (nt_content t))), Pushed t, errno)"
proof (induction ts)
  case Nil
  then show ?case by simp
next
  case (Cons s ts)
  have "NextTask_Run s (Sent n) (errno w) t = (Pushed t, mstr_str (nt_content t), EAGAIN)"
    using Cons.prems by (simp add: NextTask_Run_def SendResponse_def mlen_def)
  moreover have "errno(w := EAGAIN) = errno" using Cons.prems(1) by auto
  ultimately show ?case using Cons by simp
qed

section \<open>Lemmas: reading\<close>

lemma on_event_finished: "rq_finished r \<Longrightarrow> rq_finished (on_event e r)"
  by (cases e) (simp_all add: OnUrl_def OnHeadersComplete_def OnBody_def OnHeaderField_def OnHeaderValue_def
      OnMessageComplete_def OnQueryField_def OnQueryValue_def OnFragment_def)

lemma fold_on_event_finished: "rq_finished r \<Longrightarrow> rq_finished (fold on_event es r)"
  by (induction es arbitrary: r) (auto intro: on_event_finished)

lemma Append_finished: "rq_finished (snd pr) \<Longrightarrow> rq_finished (snd (HttpRequest_Append parse d pr))"
  by (auto simp: HttpRequest_Append_def fold_on_event_finished split: prod.splits)

text \<open>The request after the chunks, and how many of them found it finished.\<close>

definition request_after :: "'p parse_function \<Rightarrow> string list \<Rightarrow> 'p \<times> http_request \<Rightarrow> 'p \<times> http_request" where
  "request_after parse chunks pr = fold (HttpRequest_Append parse) chunks pr"

primrec pushes :: "'p parse_function \<Rightarrow> string list \<Rightarrow> 'p \<times> http_request \<Rightarrow> nat" where
  "pushes parse [] pr = 0"
| "pushes parse (d # ds) pr =
     (let pr1 = HttpRequest_Append parse d pr
      in (if rq_finished (snd pr1) then 1 else 0) + pushes parse ds pr1)"

lemma pushes_finished: "rq_finished (snd pr) \<Longrightarrow> pushes parse ds pr = length ds"
  by (induction ds arbitrary: pr) (auto simp: Append_finished Let_def)

lemma request_after_finished: "rq_finished (snd pr) \<Longrightarrow> rq_finished (snd (request_after parse ds pr))"
  unfolding request_after_def
  by (induction ds arbitrary: pr) (simp_all add: Append_finished del: split_paired_All)

lemma pushes_unfinished:
  "\<not> rq_finished (snd (request_after parse ds pr)) \<Longrightarrow> pushes parse ds pr = 0"
proof (induction ds arbitrary: pr)
  case Nil
  then show ?case by simp
next
  case (Cons d ds)
  have "\<not> rq_finished (snd (HttpRequest_Append parse d pr))"
    using Cons.prems request_after_finished [of "HttpRequest_Append parse d pr" parse ds] by (auto simp: request_after_def)
  then show ?case using Cons by (simp add: request_after_def Let_def)
qed

lemma pushes_append: "pushes parse (ds @ es) pr = pushes parse ds pr + pushes parse es (request_after parse ds pr)"
  by (induction ds arbitrary: pr) (auto simp: request_after_def Let_def)

text \<open>The application state after the chunks of one event.\<close>

lemma read_chunks_app:
  "\<lbrakk>cl_userptr (sc_cli c) = Some p; hs_requests (sl_app s) p = Some pr\<rbrakk> \<Longrightarrow>
   \<exists>c' s' rm'. fold (read_chunk (HttpServer_handle parse p0 clk) now) ds (c, s, rm) = (c', s', rm') \<and>
     sc_index c' = sc_index c \<and> sc_cli c' = sc_cli c \<and>
     (pushes parse ds pr > 0 \<longrightarrow> sc_fd c' = -1 \<and> rm') \<and> sl_heap s' = sl_heap s \<and>
     sl_app s' = (sl_app s)\<lparr>hs_requests := (hs_requests (sl_app s))(p := Some (request_after parse ds pr)),
       hs_pool := hs_pool (sl_app s) @ replicate (pushes parse ds pr) p\<rparr> \<and>
     (rm \<longrightarrow> rm') \<and> (sc_fd c = -1 \<longrightarrow> sc_fd c' = -1) \<and> (pushes parse ds pr = 0 \<longrightarrow> rm' = rm \<and> sc_fd c' = sc_fd c)"
proof (induction ds arbitrary: c s rm pr)
  case Nil
  then have "(hs_requests (sl_app s))(p := Some pr) = hs_requests (sl_app s)" by auto
  then show ?case by (simp add: request_after_def)
next
  case (Cons d ds)
  let ?pr1 = "HttpRequest_Append parse d pr"
  let ?fin = "rq_finished (snd ?pr1)"
  obtain c1 s1 rm1 where step: "read_chunk (HttpServer_handle parse p0 clk) now d (c, s, rm) = (c1, s1, rm1)"
    by (cases "read_chunk (HttpServer_handle parse p0 clk) now d (c, s, rm)")
  have st: "sc_cli c1 = sc_cli c" "sc_index c1 = sc_index c" "sl_heap s1 = sl_heap s"
      "sl_app s1 = (sl_app s)\<lparr>hs_requests := (hs_requests (sl_app s))(p := Some ?pr1),
         hs_pool := hs_pool (sl_app s) @ (if ?fin then [p] else [])\<rparr>"
      "rm1 = (rm \<or> ?fin)" "sc_fd c1 = (if ?fin then -1 else sc_fd c)"
    using step Cons.prems
    by (auto simp: read_chunk_def HttpServer_handle_def HttpServer_OnRead_def Let_def epoll_del_def split: if_splits)
  have "cl_userptr (sc_cli c1) = Some p" "hs_requests (sl_app s1) p = Some ?pr1"
    using st Cons.prems by simp_all
  from Cons.IH [OF this, of rm1] obtain c' s' rm' where IH:
    "fold (read_chunk (HttpServer_handle parse p0 clk) now) ds (c1, s1, rm1) = (c', s', rm')"
    "sc_index c' = sc_index c1" "sc_cli c' = sc_cli c1"
    "pushes parse ds ?pr1 > 0 \<longrightarrow> sc_fd c' = -1 \<and> rm'" "sl_heap s' = sl_heap s1"
    "sl_app s' = (sl_app s1)\<lparr>hs_requests := (hs_requests (sl_app s1))(p := Some (request_after parse ds ?pr1)),
       hs_pool := hs_pool (sl_app s1) @ replicate (pushes parse ds ?pr1) p\<rparr>"
    "rm1 \<longrightarrow> rm'" "sc_fd c1 = -1 \<longrightarrow> sc_fd c' = -1"
    "pushes parse ds ?pr1 = 0 \<longrightarrow> rm' = rm1 \<and> sc_fd c' = sc_fd c1"
    by (elim exE conjE) (rule that)
  have "fold (read_chunk (HttpServer_handle parse p0 clk) now) (d # ds) (c, s, rm) = (c', s', rm')"
    by (simp add: step IH(1))
  moreover have "sl_app s' = (sl_app s)\<lparr>hs_requests := (hs_requests (sl_app s))(p := Some (request_after parse (d # ds) pr)),
       hs_pool := hs_pool (sl_app s) @ replicate (pushes parse (d # ds) pr) p\<rparr>"
    by (cases ?fin) (simp_all add: IH(6) st(4) request_after_def Let_def)
  moreover have "pushes parse (d # ds) pr > 0 \<longrightarrow> sc_fd c' = -1 \<and> rm'"
    using IH(4,7,8) st(5,6) by (simp add: Let_def split: if_splits)
  moreover have "pushes parse (d # ds) pr = 0 \<longrightarrow> rm' = rm \<and> sc_fd c' = sc_fd c"
    using IH(9) st(5,6) by (simp add: Let_def split: if_splits)
  moreover have "sc_fd c = -1 \<longrightarrow> sc_fd c' = -1" "rm \<longrightarrow> rm'"
    using IH(7,8) st(5,6) by simp_all
  moreover have "sc_index c' = sc_index c" "sc_cli c' = sc_cli c" "sl_heap s' = sl_heap s"
    using IH(2,3,5) st(1-3) by simp_all
  ultimately show ?case by (intro exI [of _ c'] exI [of _ s'] exI [of _ rm']) (simp del: fold_Cons pushes.simps add: fun_upd_def)
qed

text \<open>The tasks that share a request: the first one that finishes frees it.\<close>

lemma finish_freed:
  "hs_requests hs p = None \<Longrightarrow>
   hs_fault (fold HttpTask_Finish (replicate n p) hs) = (if n = 0 then hs_fault hs else Some Use_After_Free)"
proof (induction n arbitrary: hs)
  case 0
  then show ?case by simp
next
  case (Suc n)
  then show ?case
    by (auto simp: HttpTask_Finish_def Suc.IH [of "hs\<lparr>hs_fault := Some Use_After_Free\<rparr>"])
qed

lemma finish_tasks:
  "hs_requests hs p \<noteq> None \<Longrightarrow>
   hs_fault (fold HttpTask_Finish (replicate n p) (HttpTask_Finish p hs)) =
     (if n = 0 then hs_fault hs else Some Use_After_Free)"
  by (subst finish_freed) (auto simp: HttpTask_Finish_def)

section \<open>Properties\<close>

text \<open>C36: as long as no worker's \<open>errno\<close> is EAGAIN, the tasks that follow one another for an answer put
  each byte on the wire once and in order: what is sent and what the task in flight still holds make up
  the answer; when the socket is closed a prefix was sent, and the whole answer if every attempt
  was in time and took some bytes.\<close>

theorem response_sent_once:
  assumes "next_runs as t errno = (out, e, errno2)" and "\<forall>w. errno w \<noteq> EAGAIN"
    and "\<forall>(w, now, r) \<in> set as. r \<noteq> Send_Failed EAGAIN"
  shows "case e of Pushed t' \<Rightarrow> out @ mstr_str (nt_content t') = mstr_str (nt_content t)
     | Closed sock \<Rightarrow> sock = nt_sock t \<and> Sublist.prefix out (mstr_str (nt_content t)) \<and>
         ((\<forall>(w, now, r) \<in> set as. now \<le> nt_expires_in t \<and> (\<exists>n. r = Sent n \<and> n > 0)) \<longrightarrow>
            out = mstr_str (nt_content t))"
  by (rule next_runs_clean [OF assms])

lemma response_sent_once_witness:
  "next_runs [(0, 10, Sent 3), (1, 12, Sent 2)] \<lparr>nt_sock = 7, nt_content = Mstr ''hello'', nt_expires_in = 20\<rparr> (\<lambda>_. 0) =
     (''hello'', Closed 7, \<lambda>_. 0) \<and> Sublist.prefix ''hello'' (mstr_str (Mstr ''hello''))"
proof -
  have "next_runs [(0, 10, Sent 3), (1, 12, Sent 2)] \<lparr>nt_sock = 7, nt_content = Mstr ''hello'', nt_expires_in = 20\<rparr> (\<lambda>_. 0) =
     (''hello'', Closed 7, \<lambda>_. 0)"
    by (simp add: NextTask_Run_def SendResponse_def mlen_def EAGAIN_def EWOULDBLOCK_def fun_upd_idem)
  with response_sent_once [OF this] show ?thesis by (simp add: EAGAIN_def)
qed

text \<open>A full socket once is enough to send an answer many times.  After a \<open>send\<close> that failed with
  EAGAIN on a worker, every attempt of that worker that takes the whole answer reads the old \<open>errno\<close> and
  pushes the whole answer again, until the 15 seconds are over.\<close>

theorem response_repeated:
  assumes "s0 \<le> nt_expires_in t" and "\<forall>s \<in> set ts. s \<le> nt_expires_in t" and "mlen (nt_content t) \<le> n"
  shows "next_runs ((w, s0, Send_Failed EAGAIN) # map (\<lambda>s. (w, s, Sent n)) ts) t errno =
    (concat (replicate (length ts) (mstr_str (nt_content t))), Pushed t, errno(w := EAGAIN))"
proof -
  have "NextTask_Run s0 (Send_Failed EAGAIN) (errno w) t = (Pushed t, [], EAGAIN)"
    using assms(1) by (simp add: NextTask_Run_def SendResponse_def)
  then show ?thesis
    using next_runs_stale [of "errno(w := EAGAIN)" w t n ts] assms(2,3) by simp
qed

lemma response_repeated_witness:
  "next_runs [(0, 10, Send_Failed EAGAIN), (0, 11, Sent 2), (0, 12, Sent 2), (0, 13, Sent 2)]
     \<lparr>nt_sock = 7, nt_content = Mstr ''ok'', nt_expires_in = 25\<rparr> (\<lambda>_. 0) =
   (''okokok'', Pushed \<lparr>nt_sock = 7, nt_content = Mstr ''ok'', nt_expires_in = 25\<rparr>, (\<lambda>_. 0)(0 := EAGAIN))"
  using response_repeated [of 10 "\<lparr>nt_sock = 7, nt_content = Mstr ''ok'', nt_expires_in = 25\<rparr>" "[11, 12, 13]" 2 0 "\<lambda>_. 0"]
  by (simp add: mlen_def numeral_3_eq_3)

text \<open>One readable event on a client whose request completes within the chunk after \<open>pre\<close> pushes a task
  for that request for this chunk and for every later chunk of the event: exactly one task when the
  message ends with the data, several tasks that each delete the same request otherwise.\<close>

theorem request_pushed_per_chunk:
  assumes "sl_heap s q = Some c" and "sc_index c = Some i" and "cl_userptr (sc_cli c) = Some p"
    and "hs_requests (sl_app s) p = Some pr"
    and "\<not> rq_finished (snd (request_after parse pre pr))"
    and "rq_finished (snd (request_after parse (pre @ [d]) pr))"
  shows "\<exists>s'. handle_client (HttpServer_handle parse p0 clk) now q True hup (pre @ d # post) rend s = Inr s' \<and>
    hs_pool (sl_app s') = hs_pool (sl_app s) @ replicate (1 + length post) p \<and> sl_heap s' q = None \<and>
    hs_fault (sl_app s') = hs_fault (sl_app s) \<and>
    hs_fault (fold HttpTask_Finish (replicate (1 + length post) p) (sl_app s')) =
      (if post = [] then hs_fault (sl_app s) else Some Use_After_Free)"
proof -
  let ?h = "HttpServer_handle parse p0 clk"
  let ?c = "c\<lparr>sc_read_timestamp := now, sc_read_timeout := now + sh_read_timeout ?h\<rparr>"
  have d: "rq_finished (snd (HttpRequest_Append parse d (request_after parse pre pr)))"
    using assms(6) by (simp add: request_after_def)
  have n: "pushes parse (pre @ d # post) pr = 1 + length post"
    using pushes_unfinished [OF assms(5)] pushes_finished [OF d, of parse post] d by (simp add: pushes_append Let_def)
  obtain c' s' rm' where f: "fold (read_chunk ?h now) (pre @ d # post) (?c, s, False) = (c', s', rm')"
    "sc_index c' = sc_index ?c" "sc_fd c' = -1" "rm'"
    "sl_app s' = (sl_app s)\<lparr>hs_requests := (hs_requests (sl_app s))(p := Some (request_after parse (pre @ d # post) pr)),
       hs_pool := hs_pool (sl_app s) @ replicate (1 + length post) p\<rparr>"
    using read_chunks_app [of ?c p s pr parse p0 clk now "pre @ d # post" False] assms(3,4) n by auto
  have "handle_client ?h now q True hup (pre @ d # post) rend s =
      remove_client ?h q c' (s'\<lparr>sl_heap := (sl_heap s')(q := Some c')\<rparr>)"
    using f(1,4) by (simp add: handle_client_def assms(1))
  then show ?thesis
    using f(2,3,5) assms(2) by (simp add: remove_client_def Let_def finish_tasks del: fold_replicate)
qed

lemma request_pushed_per_chunk_witness:
  "\<exists>s'. handle_client (HttpServer_handle (\<lambda>n s. (if n = (1 :: nat) then [On_Message_Complete] else [], n + 1)) 0 50) 100 0
       True False [''GE'', ''T'', ''x''] (Recv_Errno EAGAIN)
       (accept_client (HttpServer_handle (\<lambda>n s. (if n = (1 :: nat) then [On_Message_Complete] else [], n + 1)) 0 50) 100 7
         (ServerLoop_init \<lparr>hs_requests = \<lambda>_. None, hs_next = 0, hs_pool = [], hs_fault = None\<rparr>)) = Inr s' \<and>
     hs_pool (sl_app s') = [0, 0]"
  using request_pushed_per_chunk [of
      "accept_client (HttpServer_handle (\<lambda>n s. (if n = (1 :: nat) then [On_Message_Complete] else [], n + 1)) 0 50) 100 7
         (ServerLoop_init \<lparr>hs_requests = \<lambda>_. None, hs_next = 0, hs_pool = [], hs_fault = None\<rparr>)" 0
      "\<lparr>sc_fd = 7, sc_index = Some 0, sc_read_timestamp = 100, sc_write_timestamp = -1, sc_read_timeout = 115,
        sc_write_timeout = -1, sc_cli = \<lparr>cl_fd = 7, cl_userptr = Some 0\<rparr>\<rparr>" 0 0 "(0, HttpRequest_new 7 50)"
      "\<lambda>n s. (if n = (1 :: nat) then [On_Message_Complete] else [], n + 1)" "[''GE'']" "''T''" 0 50 100 False "[''x'']" "Recv_Errno EAGAIN"]
  by (auto simp: accept_client_def ServerLoop_init_def HttpServer_handle_def HttpServer_OnAccept_def
      request_after_def HttpRequest_Append_def HttpRequest_new_def OnMessageComplete_def Let_def)

end
