(* ===== verification/Native_Memory.thy ===== *)
theory Native_Memory
  imports Prelude
begin

text \<open>
  \<open>helper/cache.h\<close>, \<open>helper/cache/native_memory.cpp\<close>: the contract of a cache engine and the engine
  that keeps its values in a map.  Times are seconds; the clock is an argument.
\<close>

section \<open>The contract\<close>

text \<open>
  \<open>usable\<close> says that the engine takes a value for a key in a state; then the value is found while it is
  in time, and not after, and every other key keeps what it had.
\<close>

locale cache_engine =
  fixes set_entry :: "int \<Rightarrow> string \<Rightarrow> string \<Rightarrow> int \<Rightarrow> 's \<Rightarrow> 's outcome"
    and get_entry :: "int \<Rightarrow> string \<Rightarrow> 's \<Rightarrow> string outcome"
    and usable :: "'s \<Rightarrow> int \<Rightarrow> string \<Rightarrow> string \<Rightarrow> int \<Rightarrow> bool"
  assumes set_returns: "usable s t k v e \<Longrightarrow> \<exists>s'. set_entry t k v e s = Inr s'"
    and get_in_time: "usable s t k v e \<Longrightarrow> set_entry t k v e s = Inr s' \<Longrightarrow> 0 \<le> e \<Longrightarrow> t \<le> now \<Longrightarrow> now < t + e \<Longrightarrow>
      get_entry now k s' = Inr v"
    and get_too_late: "usable s t k v e \<Longrightarrow> set_entry t k v e s = Inr s' \<Longrightarrow> 0 \<le> e \<Longrightarrow> t + e < now \<Longrightarrow>
      get_entry now k s' = Inr []"
    and get_other: "usable s t k v e \<Longrightarrow> set_entry t k v e s = Inr s' \<Longrightarrow> k' \<noteq> k \<Longrightarrow>
      get_entry now k' s' = get_entry now k' s"
begin

lemma set_get:
  "usable s t k v e \<Longrightarrow> 0 \<le> e \<Longrightarrow> t \<le> now \<Longrightarrow> now < t + e \<Longrightarrow>
   obind (set_entry t k v e s) (get_entry now k) = Inr v"
  using set_returns get_in_time by fastforce

lemma set_get_late:
  "usable s t k v e \<Longrightarrow> 0 \<le> e \<Longrightarrow> t + e < now \<Longrightarrow> obind (set_entry t k v e s) (get_entry now k) = Inr []"
  using set_returns get_too_late by fastforce

lemma set_get_other:
  "usable s t k v e \<Longrightarrow> k' \<noteq> k \<Longrightarrow> obind (set_entry t k v e s) (get_entry now k') = get_entry now k' s"
  using set_returns get_other by fastforce

end

section \<open>The engine in memory\<close>

record cache_value =
  cv_value :: string
  cv_expires_in :: int

type_synonym native_memory = "(string, cache_value) amap"

definition CacheValue_new :: "string \<Rightarrow> int \<Rightarrow> cache_value" where
  "CacheValue_new value expires_in = \<lparr>cv_value = value, cv_expires_in = expires_in\<rparr>"

definition CacheValue_IsExpired :: "int \<Rightarrow> cache_value \<Rightarrow> bool" where
  "CacheValue_IsExpired now v \<longleftrightarrow> cv_expires_in v \<ge> 0 \<and> now > cv_expires_in v"

definition CacheValue_Set :: "int \<Rightarrow> string \<Rightarrow> int \<Rightarrow> cache_value" where
  "CacheValue_Set now value expires_in =
     \<lparr>cv_value = value, cv_expires_in = (if expires_in \<ge> 0 then now + expires_in else -1)\<rparr>"

definition NativeMemory_Set :: "int \<Rightarrow> string \<Rightarrow> string \<Rightarrow> int \<Rightarrow> native_memory \<Rightarrow> native_memory" where
  "NativeMemory_Set now key value expires_in m =
     (case map_of m key of
        Some _ \<Rightarrow> amap_set key (CacheValue_Set now value expires_in) m
      | None \<Rightarrow> amap_set key (CacheValue_new value expires_in) m)"

text \<open>The value, the expiry it writes to the caller's variable, and the map after a clean-up.\<close>

definition NativeMemory_Get :: "int \<Rightarrow> string \<Rightarrow> bool \<Rightarrow> native_memory \<Rightarrow> string \<times> int option \<times> native_memory" where
  "NativeMemory_Get now key cleanup m =
     (case map_of m key of
        None \<Rightarrow> ([], None, m)
      | Some v \<Rightarrow>
          if \<not> CacheValue_IsExpired now v then (cv_value v, Some (cv_expires_in v), m)
          else ([], None, if cleanup then amap_erase key m else m))"

definition memory_set :: "int \<Rightarrow> string \<Rightarrow> string \<Rightarrow> int \<Rightarrow> native_memory \<Rightarrow> native_memory outcome" where
  "memory_set now key value expires_in m = Inr (NativeMemory_Set now key value expires_in m)"

definition memory_get :: "int \<Rightarrow> string \<Rightarrow> native_memory \<Rightarrow> string outcome" where
  "memory_get now key m = Inr (fst (NativeMemory_Get now key False m))"

text \<open>The contract holds for a key the map knows already: only then is the expiry made absolute.\<close>

definition memory_usable :: "native_memory \<Rightarrow> int \<Rightarrow> string \<Rightarrow> string \<Rightarrow> int \<Rightarrow> bool" where
  "memory_usable m t k v e \<longleftrightarrow> map_of m k \<noteq> None \<and> 0 \<le> t"

interpretation mem: cache_engine memory_set memory_get memory_usable
proof
  fix s t k v e s' now k'
  assume u: "memory_usable s t k v e"
  then show "\<exists>s'. memory_set t k v e s = Inr s'" by (simp add: memory_set_def)
  assume "memory_set t k v e s = Inr s'"
  then have s': "s' = amap_set k (CacheValue_Set t v e) s"
    using u by (auto simp: memory_set_def memory_usable_def NativeMemory_Set_def)
  show "0 \<le> e \<Longrightarrow> t \<le> now \<Longrightarrow> now < t + e \<Longrightarrow> memory_get now k s' = Inr v"
    by (simp add: s' memory_get_def NativeMemory_Get_def CacheValue_Set_def CacheValue_IsExpired_def)
  show "0 \<le> e \<Longrightarrow> t + e < now \<Longrightarrow> memory_get now k s' = Inr []"
    using u by (simp add: s' memory_get_def NativeMemory_Get_def CacheValue_Set_def CacheValue_IsExpired_def memory_usable_def)
  show "k' \<noteq> k \<Longrightarrow> memory_get now k' s' = memory_get now k' s"
    by (auto simp: s' memory_get_def NativeMemory_Get_def split: option.split)
qed

section \<open>Properties\<close>

text \<open>The first value of a key keeps its lifetime as an absolute time: it is found for ever after
  only when that time is negative, and it is already gone when it is a lifetime of fewer seconds than
  the clock shows.  The second value of the key is found for its lifetime.\<close>

theorem memory_first_value_expired:
  assumes "map_of m k = None" and "0 \<le> e" and "e < t" and "t \<le> now" and "now < t + e"
  shows "obind (memory_set t k v e m) (memory_get now k) = Inr [] \<and>
    obind (memory_set t k v1 e m) (\<lambda>m1. obind (memory_set t k v e m1) (memory_get now k)) = Inr v"
proof
  show "obind (memory_set t k v e m) (memory_get now k) = Inr []"
    using assms by (simp add: memory_set_def memory_get_def NativeMemory_Set_def NativeMemory_Get_def
        CacheValue_new_def CacheValue_IsExpired_def)
  have "memory_usable (NativeMemory_Set t k v1 e m) t k v e"
    using assms by (simp add: memory_usable_def NativeMemory_Set_def)
  from mem.set_get [OF this assms(2,4,5)] show
    "obind (memory_set t k v1 e m) (\<lambda>m1. obind (memory_set t k v e m1) (memory_get now k)) = Inr v"
    by (simp add: memory_set_def)
qed

lemma memory_first_value_expired_witness:
  "obind (memory_set 1600000000 ''access_token'' ''abc'' 7000 []) (memory_get 1600000001 ''access_token'') = Inr []"
  using memory_first_value_expired [of "[]" "''access_token''" 7000 1600000000 1600000001 "''abc''" "[]"] by simp

end
