(* ===== verification/Native_File.thy ===== *)
theory Native_File
  imports Native_Memory
begin

text \<open>
  \<open>helper/cache/native_file.cpp\<close>: the engine that keeps its values in a hash file, at the level of the
  bytes: a table of 65536 heads of 8 bytes, and behind it chains of items.  A loop over a chain is a
  partial function, which is \<open>None\<close> when the loop does not end.
\<close>

section \<open>Files\<close>

record nfile =
  nf_size :: nat
  nf_byte :: "nat \<Rightarrow> byte"

text \<open>\<open>fseek\<close> and \<open>fwrite\<close>, which fills a gap behind the end with zeros; \<open>fseek\<close> and \<open>fread\<close>.\<close>

definition file_write :: "nat \<Rightarrow> byte list \<Rightarrow> nfile \<Rightarrow> nfile" where
  "file_write pos bs f =
     (if bs = [] then f
      else \<lparr>nf_size = max (nf_size f) (pos + length bs),
            nf_byte = (\<lambda>i. if pos \<le> i \<and> i < pos + length bs then bs ! (i - pos)
                           else if i < nf_size f then nf_byte f i else 0)\<rparr>)"

definition file_read :: "nat \<Rightarrow> nat \<Rightarrow> nfile \<Rightarrow> byte list" where
  "file_read pos n f = map (nf_byte f) [pos..<min (pos + n) (nf_size f)]"

text \<open>Little-endian integers.\<close>

primrec le_bytes :: "nat \<Rightarrow> nat \<Rightarrow> byte list" where
  "le_bytes 0 v = []"
| "le_bytes (Suc k) v = of_nat v # le_bytes k (v div 256)"

primrec le_value :: "byte list \<Rightarrow> nat" where
  "le_value [] = 0"
| "le_value (b # bs) = unat b + 256 * le_value bs"

text \<open>\<open>time_t\<close> has 64 bits.\<close>

definition time_bits :: "int \<Rightarrow> nat" where
  "time_bits t = nat (t mod 2 ^ 64)"

definition time_of_bits :: "nat \<Rightarrow> int" where
  "time_of_bits n = (if n < 2 ^ 63 then int n else int n - 2 ^ 64)"

section \<open>Items\<close>

record item =
  it_capcity :: nat
  it_next :: nat
  it_expires_in :: int
  it_key :: string
  it_value :: string

definition size_of_size_t :: nat where "size_of_size_t = 8"

definition nf_hash :: "string \<Rightarrow> nat" where
  "nf_hash key = nat (fold (\<lambda>c h. (h * 131 + schar c) mod 2 ^ 64) key 0 mod 0x10000)"

definition item_bytes :: "item \<Rightarrow> byte list" where
  "item_bytes it =
     le_bytes 8 (it_capcity it) @ le_bytes 8 (it_next it) @ le_bytes 8 (time_bits (it_expires_in it)) @
     le_bytes 8 (length (it_key it)) @ map byte_of (it_key it) @
     le_bytes 8 (length (it_value it)) @ map byte_of (it_value it)"

definition WriteItem :: "nat \<Rightarrow> item \<Rightarrow> nfile \<Rightarrow> nfile" where
  "WriteItem addr it f = file_write addr (item_bytes it) f"

text \<open>
  A string field: \<open>resize\<close> to the length read, which throws when it is above the largest string, then
  the bytes there are.  The result is the string and the position behind it.
\<close>

definition read_string :: "nat \<Rightarrow> nfile \<Rightarrow> (string \<times> nat) outcome" where
  "read_string pos f =
     (let len = le_value (file_read pos 8 f);
          pos1 = pos + length (file_read pos 8 f)
      in if len \<ge> 2 ^ 63 then Inl Out_Of_Range
         else let bs = file_read pos1 len f
              in Inr (map char_of_byte bs @ replicate (len - length bs) (CHR 0x00), pos1 + length bs))"

text \<open>The three numbers of a fresh \<open>Item\<close> are indeterminate when the file ends before them.\<close>

definition ReadItem :: "nat \<Rightarrow> nfile \<Rightarrow> item outcome" where
  "ReadItem pos f =
     (let h = file_read pos 24 f
      in if length h < 24 then Inl Uninitialised
         else obind (read_string (pos + 24) f) (\<lambda>(key, pos1).
              obind (read_string pos1 f) (\<lambda>(val, _).
                Inr \<lparr>it_capcity = le_value (take 8 h), it_next = le_value (take 8 (drop 8 h)),
                     it_expires_in = time_of_bits (le_value (drop 16 h)), it_key = key, it_value = val\<rparr>)))"

section \<open>Writing and reading a key\<close>

text \<open>The loop of \<open>Write\<close> along a chain; \<open>end\<close> is the size of the file when it was called.\<close>

partial_function (option) write_chain ::
    "int \<Rightarrow> item \<Rightarrow> nat \<Rightarrow> nat \<Rightarrow> nfile \<Rightarrow> nfile outcome option" where
  "write_chain now it file_end addr f =
     (if addr = 0 then Some (Inr f)
      else case ReadItem addr f of
        Inl e \<Rightarrow> Some (Inl e)
      | Inr xr \<Rightarrow>
          if it_key xr = it_key it then
            (if it_capcity xr < it_capcity it
             then write_chain now it file_end (it_next xr)
                    (WriteItem (it_next xr) (xr\<lparr>it_key := [], it_value := [], it_expires_in := 0\<rparr>) f)
             else Some (Inr (WriteItem addr
                    (xr\<lparr>it_expires_in := it_expires_in it, it_key := it_key it, it_value := it_value it\<rparr>) f)))
          else if it_capcity xr \<ge> it_capcity it \<and> now > it_expires_in xr
          then Some (Inr (WriteItem addr
                 (xr\<lparr>it_expires_in := it_expires_in it, it_key := it_key it, it_value := it_value it\<rparr>) f))
          else if it_next xr = 0
          then Some (Inr (WriteItem file_end it (file_write (addr + 8) (le_bytes 8 file_end) f)))
          else write_chain now it file_end (it_next xr) f)"

definition NativeFile_Write :: "int \<Rightarrow> item \<Rightarrow> nfile \<Rightarrow> nfile outcome option" where
  "NativeFile_Write now it f =
     (let hash = nf_hash (it_key it) * size_of_size_t;
          file_end = nf_size f;
          addr = le_value (file_read hash 4 f)
      in if addr \<noteq> 0 then write_chain now it file_end addr f
         else Some (Inr (WriteItem file_end it (file_write hash (le_bytes 4 file_end) f))))"

partial_function (option) read_chain :: "string \<Rightarrow> nat \<Rightarrow> nfile \<Rightarrow> item option outcome option" where
  "read_chain key addr f =
     (if addr = 0 then Some (Inr None)
      else case ReadItem addr f of
        Inl e \<Rightarrow> Some (Inl e)
      | Inr xr \<Rightarrow> if key = it_key xr then Some (Inr (Some xr)) else read_chain key (it_next xr) f)"

definition NativeFile_Read :: "string \<Rightarrow> nfile \<Rightarrow> item option outcome option" where
  "NativeFile_Read key f = read_chain key (le_value (file_read (nf_hash key * size_of_size_t) 8 f)) f"

text \<open>A new file is the table of empty heads.\<close>

definition NativeFile_Open :: "nfile \<Rightarrow> nfile" where
  "NativeFile_Open f = (if nf_size f = 0 then \<lparr>nf_size = 0x10000 * size_of_size_t, nf_byte = \<lambda>_. 0\<rparr> else f)"

definition item_for :: "int \<Rightarrow> string \<Rightarrow> string \<Rightarrow> int \<Rightarrow> item" where
  "item_for now key val expires_in =
     (let capcity = size_of_size_t * 4 + 8 + length key + length val
      in \<lparr>it_capcity = (capcity div 16 + 1) * 16, it_next = 0,
          it_expires_in = (if expires_in \<ge> 0 then now + expires_in else -1), it_key = key, it_value = val\<rparr>)"

definition loop_result :: "'a outcome option \<Rightarrow> 'a outcome" where
  "loop_result r = (case r of None \<Rightarrow> Inl Diverges | Some x \<Rightarrow> x)"

definition NativeFile_Set :: "int \<Rightarrow> string \<Rightarrow> string \<Rightarrow> int \<Rightarrow> nfile \<Rightarrow> nfile outcome" where
  "NativeFile_Set now key val expires_in f =
     loop_result (NativeFile_Write now (item_for now key val expires_in) f)"

text \<open>The value, and the expiry it writes to the caller's variable.\<close>

definition NativeFile_Get :: "int \<Rightarrow> string \<Rightarrow> nfile \<Rightarrow> (string \<times> int option) outcome" where
  "NativeFile_Get now key f =
     obind (loop_result (NativeFile_Read key f)) (\<lambda>r.
       Inr (case r of
              Some it \<Rightarrow> if it_expires_in it \<ge> 0 \<and> now < it_expires_in it then (it_value it, Some (it_expires_in it))
                         else ([], None)
            | None \<Rightarrow> ([], None)))"

section \<open>Lemmas: bytes and files\<close>

lemma length_le_bytes [simp]: "length (le_bytes k v) = k"
  by (induction k arbitrary: v) auto

lemma le_value_le_bytes: "le_value (le_bytes k v) = v mod 256 ^ k"
proof (induction k arbitrary: v)
  case 0
  then show ?case by simp
next
  case (Suc k)
  have "unat (of_nat v :: byte) = v mod 256"
    by (simp add: unat_of_nat)
  then show ?case
    by (simp add: Suc.IH mod_mult2_eq [of v 256 "256 ^ k"] add.commute)
qed

lemma le_value_8 [simp]: "v < 2 ^ 64 \<Longrightarrow> le_value (le_bytes 8 v) = v"
  by (simp add: le_value_le_bytes)

lemma le_value_append: "le_value (as @ bs) = le_value as + 256 ^ length as * le_value bs"
  by (induction as) (auto simp: algebra_simps)

lemma le_value_zeros [simp]: "le_value (replicate n 0) = 0"
  by (induction n) auto

lemma time_of_bits_time_bits: "- (2 ^ 63) \<le> t \<Longrightarrow> t < 2 ^ 63 \<Longrightarrow> time_of_bits (time_bits t) = t"
proof (cases "0 \<le> t")
  case True
  moreover assume "t < 2 ^ 63"
  ultimately show ?thesis by (simp add: time_of_bits_def time_bits_def mod_pos_pos_trivial)
next
  case False
  assume "- (2 ^ 63) \<le> t"
  with False have "(t + 2 ^ 64) mod 2 ^ 64 = t + 2 ^ 64"
    by (intro mod_pos_pos_trivial) simp_all
  then have "t mod 2 ^ 64 = t + 2 ^ 64" by (simp only: mod_add_self2)
  with False \<open>- (2 ^ 63) \<le> t\<close> show ?thesis
    by (simp add: time_of_bits_def time_bits_def nat_less_iff)
qed

lemma time_bits_bound: "time_bits t < 2 ^ 64"
  by (simp add: time_bits_def nat_less_iff)

lemma time_roundtrip:
  "- (2 ^ 63) \<le> t \<Longrightarrow> t < 2 ^ 63 \<Longrightarrow> time_of_bits (le_value (le_bytes 8 (time_bits t))) = t"
  using time_bits_bound [of t] by (simp add: time_of_bits_time_bits)

lemma length_file_read: "length (file_read pos n f) = min (pos + n) (nf_size f) - pos"
  by (simp add: file_read_def)

lemma file_read_write_inside:
  assumes "off + n \<le> length bs"
  shows "file_read (pos + off) n (file_write pos bs f) = take n (drop off bs)"
proof (cases "bs = []")
  case True
  then show ?thesis using assms by (simp add: file_read_def)
next
  case False
  have "min (pos + off + n) (nf_size (file_write pos bs f)) = pos + off + n"
    using assms False by (auto simp: file_write_def min_def max_def)
  then show ?thesis
    using assms False by (auto simp: file_read_def file_write_def intro!: nth_equalityI)
qed

lemma file_read_write_outside:
  assumes "p + n \<le> nf_size f" and "p + n \<le> pos \<or> pos + length bs \<le> p"
  shows "file_read p n (file_write pos bs f) = file_read p n f"
proof -
  have "min (p + n) (nf_size (file_write pos bs f)) = p + n" "min (p + n) (nf_size f) = p + n"
    using assms(1) by (auto simp: file_write_def)
  then show ?thesis
    using assms by (auto simp: file_read_def file_write_def)
qed

lemma nf_size_write: "nf_size (file_write pos bs f) = (if bs = [] then nf_size f else max (nf_size f) (pos + length bs))"
  by (simp add: file_write_def)

lemma nf_hash_bound: "nf_hash key * size_of_size_t + 8 \<le> 0x10000 * size_of_size_t"
proof -
  have "nf_hash key < 0x10000"
    by (simp add: nf_hash_def nat_less_iff)
  then show ?thesis by (simp add: size_of_size_t_def)
qed

lemma file_read_sub:
  "off + n \<le> m \<Longrightarrow> a + m \<le> nf_size f \<Longrightarrow> file_read (a + off) n f = take n (drop off (file_read a m f))"
  by (auto simp: file_read_def min_def take_map drop_map intro!: nth_equalityI)

section \<open>Lemmas: items in a file\<close>

definition item_ok :: "item \<Rightarrow> bool" where
  "item_ok it \<longleftrightarrow> it_capcity it < 2 ^ 64 \<and> it_next it < 2 ^ 64 \<and> - (2 ^ 63) \<le> it_expires_in it \<and>
     it_expires_in it < 2 ^ 63 \<and> length (it_key it) < 2 ^ 63 \<and> length (it_value it) < 2 ^ 63"

definition stored :: "nfile \<Rightarrow> nat \<Rightarrow> item \<Rightarrow> bool" where
  "stored f a it \<longleftrightarrow> a + length (item_bytes it) \<le> nf_size f \<and>
     file_read a (length (item_bytes it)) f = item_bytes it"

lemma length_item_bytes: "length (item_bytes it) = 40 + length (it_key it) + length (it_value it)"
  by (simp add: item_bytes_def)

lemma item_bytes_not_Nil [simp]: "item_bytes it \<noteq> []"
  using length_item_bytes [of it] by (metis add_is_0 list.size(3) zero_neq_numeral)

lemma stored_part:
  assumes "stored f a it" and "off + n \<le> length (item_bytes it)"
  shows "file_read (a + off) n f = take n (drop off (item_bytes it))"
  using file_read_sub [OF assms(2)] assms(1) by (simp add: stored_def)

lemma read_string_at:
  assumes "file_read pos 8 f = le_bytes 8 (length s)" and "length s < 2 ^ 63"
    and "file_read (pos + 8) (length s) f = map byte_of s"
  shows "read_string pos f = Inr (s, pos + 8 + length s)"
  using assms by (simp add: read_string_def Let_def o_def)

lemma ReadItem_stored:
  assumes st: "stored f a it" and ok: "item_ok it"
  shows "ReadItem a f = Inr it"
proof -
  let ?k = "it_key it" and ?v = "it_value it"
  have h: "file_read a 24 f = le_bytes 8 (it_capcity it) @ le_bytes 8 (it_next it) @ le_bytes 8 (time_bits (it_expires_in it))"
    using stored_part [OF st, of 0 24] by (simp add: length_item_bytes) (simp add: item_bytes_def)
  have "file_read (a + 24) 8 f = le_bytes 8 (length ?k)"
    using stored_part [OF st, of 24 8] by (simp add: length_item_bytes) (simp add: item_bytes_def)
  moreover have "file_read (a + 32) (length ?k) f = map byte_of ?k"
    using stored_part [OF st, of 32 "length ?k"] by (simp add: length_item_bytes) (simp add: item_bytes_def)
  ultimately have k: "read_string (a + 24) f = Inr (?k, a + 32 + length ?k)"
    using ok read_string_at [of "a + 24" f ?k] by (simp add: item_ok_def add.commute add.left_commute)
  have "file_read (a + 32 + length ?k) 8 f = le_bytes 8 (length ?v)"
    using stored_part [OF st, of "32 + length ?k" 8] by (simp add: length_item_bytes) (simp add: item_bytes_def add.assoc)
  moreover have "file_read (a + 40 + length ?k) (length ?v) f = map byte_of ?v"
    using stored_part [OF st, of "40 + length ?k" "length ?v"] by (simp add: length_item_bytes) (simp add: item_bytes_def add.assoc)
  ultimately have v: "read_string (a + 32 + length ?k) f = Inr (?v, a + 40 + length ?k + length ?v)"
    using ok read_string_at [of "a + 32 + length ?k" f ?v] by (simp add: item_ok_def add.commute add.left_commute)
  show ?thesis
    using ok h k v by (simp add: ReadItem_def item_ok_def time_roundtrip)
qed

lemma stored_write_outside:
  assumes "stored f a it" and "a + length (item_bytes it) \<le> pos \<or> pos + length bs \<le> a"
  shows "stored (file_write pos bs f) a it"
  using assms file_read_write_outside [of a "length (item_bytes it)" f pos bs]
  by (auto simp: stored_def nf_size_write)

lemma stored_WriteItem: "stored (WriteItem a it f) a it"
  using file_read_write_inside [of 0 "length (item_bytes it)" "item_bytes it" a f]
  by (simp add: stored_def WriteItem_def nf_size_write)

section \<open>Lemmas: chains\<close>

definition table_size :: nat where "table_size = 0x10000 * 8"

primrec chain :: "nfile \<Rightarrow> nat \<Rightarrow> (nat \<times> item) list \<Rightarrow> bool" where
  "chain f a [] \<longleftrightarrow> a = 0"
| "chain f a (x # xs) \<longleftrightarrow> a = fst x \<and> table_size \<le> a \<and> stored f a (snd x) \<and> item_ok (snd x) \<and>
     chain f (it_next (snd x)) xs"

definition nf_head :: "nfile \<Rightarrow> nat \<Rightarrow> nat" where
  "nf_head f slot = le_value (file_read (slot * size_of_size_t) 8 f)"

definition file_ok :: "nfile \<Rightarrow> bool" where
  "file_ok f \<longleftrightarrow> table_size \<le> nf_size f \<and> (\<forall>slot < 0x10000. \<exists>ch. chain f (nf_head f slot) ch)"

lemma read_chain_chain:
  "chain f a ch \<Longrightarrow> read_chain key a f = Some (Inr (map_option snd (List.find (\<lambda>x. it_key (snd x) = key) ch)))"
proof (induction ch arbitrary: a)
  case Nil
  then show ?case by (simp add: read_chain.simps)
next
  case (Cons x ch)
  then have "a \<noteq> 0" "ReadItem a f = Inr (snd x)"
    using ReadItem_stored by (auto simp: table_size_def)
  then show ?case
    using Cons by (subst read_chain.simps) auto
qed

text \<open>What \<open>Get\<close> returns from the chain of the key's slot.\<close>

definition entry_value :: "int \<Rightarrow> string \<Rightarrow> (nat \<times> item) list \<Rightarrow> string \<times> int option" where
  "entry_value now key ch = (case List.find (\<lambda>x. it_key (snd x) = key) ch of
     Some x \<Rightarrow> if it_expires_in (snd x) \<ge> 0 \<and> now < it_expires_in (snd x)
               then (it_value (snd x), Some (it_expires_in (snd x))) else ([], None)
   | None \<Rightarrow> ([], None))"

lemma NativeFile_Get_chain:
  "chain f (nf_head f (nf_hash key)) ch \<Longrightarrow> NativeFile_Get now key f = Inr (entry_value now key ch)"
  by (auto simp: NativeFile_Get_def NativeFile_Read_def read_chain_chain nf_head_def loop_result_def
      entry_value_def split: option.splits)

text \<open>A write of a new item behind the end, and of its address into an empty head.\<close>

definition linked :: "nat \<Rightarrow> item \<Rightarrow> nfile \<Rightarrow> nfile" where
  "linked slot it f = WriteItem (nf_size f) it (file_write (slot * size_of_size_t) (le_bytes 4 (nf_size f)) f)"

lemma chain_linked:
  assumes "table_size \<le> nf_size f" and "slot < 0x10000"
  shows "chain f a ch \<Longrightarrow> chain (linked slot it f) a ch"
proof (induction ch arbitrary: a)
  case Nil
  then show ?case by simp
next
  case (Cons x ch)
  let ?g = "file_write (slot * size_of_size_t) (le_bytes 4 (nf_size f)) f"
  have st: "stored f a (snd x)" "table_size \<le> a" using Cons.prems by auto
  have "stored ?g a (snd x)"
    using stored_write_outside [OF st(1), of "slot * size_of_size_t" "le_bytes 4 (nf_size f)"] st(2) assms(2)
    by (simp add: table_size_def size_of_size_t_def)
  moreover have "a + length (item_bytes (snd x)) \<le> nf_size f" using st(1) by (simp add: stored_def)
  ultimately have "stored (linked slot it f) a (snd x)"
    unfolding linked_def WriteItem_def by (rule stored_write_outside [OF _ disjI1])
  then show ?case using Cons by simp
qed

lemma nf_head_linked:
  assumes "table_size \<le> nf_size f" and "nf_size f < 2 ^ 32" and "slot < 0x10000" and "nf_head f slot = 0" and "s < 0x10000"
  shows "nf_head (linked slot it f) s = (if s = slot then nf_size f else nf_head f s)"
proof -
  let ?g = "file_write (slot * size_of_size_t) (le_bytes 4 (nf_size f)) f"
  have g: "nf_size ?g = nf_size f"
    using assms by (simp add: nf_size_write table_size_def size_of_size_t_def)
  have head: "file_read (s * size_of_size_t) 8 (linked slot it f) = file_read (s * size_of_size_t) 8 ?g"
    unfolding linked_def WriteItem_def
    by (rule file_read_write_outside) (use assms g in \<open>simp_all add: table_size_def size_of_size_t_def\<close>)
  show ?thesis
  proof (cases "s = slot")
    case False
    have "file_read (s * size_of_size_t) 8 ?g = file_read (s * size_of_size_t) 8 f"
      by (rule file_read_write_outside) (use assms False in \<open>auto simp: table_size_def size_of_size_t_def\<close>)
    then show ?thesis using False head by (simp add: nf_head_def)
  next
    case True
    let ?p = "slot * size_of_size_t"
    have n: "?p + 8 \<le> nf_size f" "?p + 8 \<le> nf_size ?g"
      using assms g by (simp_all add: table_size_def size_of_size_t_def)
    have low: "take 4 (file_read ?p 8 ?g) = le_bytes 4 (nf_size f)"
      using file_read_sub [of 0 4 8 ?p ?g] n file_read_write_inside [of 0 4 "le_bytes 4 (nf_size f)" ?p f] by simp
    have "drop 4 (file_read ?p 8 ?g) = file_read (?p + 4) 4 ?g"
      using file_read_sub [of 4 4 8 ?p ?g] n by (simp add: length_file_read)
    also have "\<dots> = file_read (?p + 4) 4 f"
      by (rule file_read_write_outside) (use n in simp_all)
    also have "\<dots> = drop 4 (file_read ?p 8 f)"
      using file_read_sub [of 4 4 8 ?p f] n by (simp add: length_file_read)
    finally have high: "drop 4 (file_read ?p 8 ?g) = drop 4 (file_read ?p 8 f)" .
    have "le_value (take 4 (file_read ?p 8 f) @ drop 4 (file_read ?p 8 f)) = 0"
      using assms(4) by (simp add: nf_head_def)
    then have "le_value (drop 4 (file_read ?p 8 f)) = 0"
      unfolding le_value_append by simp
    then have "le_value (take 4 (file_read ?p 8 ?g) @ drop 4 (file_read ?p 8 ?g)) = nf_size f"
      unfolding le_value_append low high using assms(2) by (simp add: le_value_le_bytes)
    then show ?thesis using True head by (simp add: nf_head_def)
  qed
qed

lemma linked_item:
  assumes "table_size \<le> nf_size f" and "nf_size f < 2 ^ 32" and "slot < 0x10000" and "nf_head f slot = 0"
    and "item_ok it" and "it_next it = 0"
  shows "chain (linked slot it f) (nf_head (linked slot it f) slot) [(nf_size f, it)]"
proof -
  have "nf_head (linked slot it f) slot = nf_size f"
    using nf_head_linked [OF assms(1-4) assms(3)] by simp
  then show ?thesis
    using assms stored_WriteItem by (simp add: linked_def)
qed

lemma nf_size_linked:
  "table_size \<le> nf_size f \<Longrightarrow> slot < 0x10000 \<Longrightarrow> nf_size (linked slot it f) = nf_size f + length (item_bytes it)"
  by (simp add: linked_def WriteItem_def nf_size_write table_size_def size_of_size_t_def)

section \<open>The contract\<close>

text \<open>A key is usable when its slot is empty, the file is below the 4 bytes of a head, and the times fit.\<close>

definition file_usable :: "nfile \<Rightarrow> int \<Rightarrow> string \<Rightarrow> string \<Rightarrow> int \<Rightarrow> bool" where
  "file_usable f t k v e \<longleftrightarrow> file_ok f \<and> nf_head f (nf_hash k) = 0 \<and> nf_size f < 2 ^ 32 \<and>
     length k < 2 ^ 32 \<and> length v < 2 ^ 32 \<and> 0 \<le> t \<and> t < 2 ^ 62 \<and> e < 2 ^ 62"

definition file_get :: "int \<Rightarrow> string \<Rightarrow> nfile \<Rightarrow> string outcome" where
  "file_get now key f = obind (NativeFile_Get now key f) (\<lambda>r. Inr (fst r))"

lemma nf_hash_less: "nf_hash k < 0x10000"
  by (simp add: nf_hash_def nat_less_iff)

lemma NativeFile_Set_empty_slot:
  assumes "file_usable f t k v e"
  shows "NativeFile_Set t k v e f = Inr (linked (nf_hash k) (item_for t k v e) f)"
proof -
  have size: "nf_hash k * size_of_size_t + 8 \<le> nf_size f"
    using nf_hash_bound [of k] assms by (auto simp: file_usable_def file_ok_def table_size_def size_of_size_t_def)
  have "le_value (take 4 (file_read (nf_hash k * size_of_size_t) 8 f) @ drop 4 (file_read (nf_hash k * size_of_size_t) 8 f)) = 0"
    using assms by (simp add: file_usable_def nf_head_def)
  then have "le_value (take 4 (file_read (nf_hash k * size_of_size_t) 8 f)) = 0"
    unfolding le_value_append by simp
  moreover have "file_read (nf_hash k * size_of_size_t) 4 f = take 4 (file_read (nf_hash k * size_of_size_t) 8 f)"
    using file_read_sub [of 0 4 8 "nf_hash k * size_of_size_t" f] size by simp
  ultimately show ?thesis
    by (simp add: NativeFile_Set_def NativeFile_Write_def loop_result_def item_for_def Let_def linked_def)
qed

lemma item_for_ok:
  assumes "file_usable f t k v e"
  shows "item_ok (item_for t k v e)" "it_next (item_for t k v e) = 0" "it_key (item_for t k v e) = k"
    "it_value (item_for t k v e) = v" "it_expires_in (item_for t k v e) = (if e \<ge> 0 then t + e else -1)"
proof -
  have "(size_of_size_t * 4 + 8 + length k + length v) div 16 < 2 ^ 34"
    using assms by (simp add: file_usable_def size_of_size_t_def less_mult_imp_div_less)
  then show "item_ok (item_for t k v e)"
    using assms by (auto simp: item_ok_def item_for_def file_usable_def Let_def)
qed (simp_all add: item_for_def Let_def)

lemma file_ok_linked:
  assumes "file_usable f t k v e"
  shows "file_ok (linked (nf_hash k) (item_for t k v e) f)"
proof -
  note u = assms [unfolded file_usable_def file_ok_def]
  have "\<exists>ch. chain (linked (nf_hash k) (item_for t k v e) f) (nf_head (linked (nf_hash k) (item_for t k v e) f) slot) ch"
    if slot: "slot < 0x10000" for slot
  proof (cases "slot = nf_hash k")
    case True
    have "chain (linked (nf_hash k) (item_for t k v e) f) (nf_head (linked (nf_hash k) (item_for t k v e) f) (nf_hash k))
        [(nf_size f, item_for t k v e)]"
      by (rule linked_item) (use u nf_hash_less item_for_ok(1,2) [OF assms] in blast)+
    then show ?thesis unfolding True by (rule exI)
  next
    case False
    obtain ch where "chain f (nf_head f slot) ch" using u slot by blast
    then have "chain (linked (nf_hash k) (item_for t k v e) f) (nf_head f slot) ch"
      using u nf_hash_less by (intro chain_linked) blast+
    moreover have "nf_head (linked (nf_hash k) (item_for t k v e) f) slot = nf_head f slot"
      using nf_head_linked [of f "nf_hash k" slot] u nf_hash_less slot False by simp
    ultimately show ?thesis by auto
  qed
  moreover have "table_size \<le> nf_size (linked (nf_hash k) (item_for t k v e) f)"
    using nf_size_linked [of f "nf_hash k"] u nf_hash_less [of k] by simp
  ultimately show ?thesis by (simp add: file_ok_def)
qed

interpretation nff: cache_engine NativeFile_Set file_get file_usable
proof
  fix s t k v e s' now k'
  assume u: "file_usable s t k v e"
  then show "\<exists>s'. NativeFile_Set t k v e s = Inr s'" by (simp add: NativeFile_Set_empty_slot)
  assume "NativeFile_Set t k v e s = Inr s'"
  then have s': "s' = linked (nf_hash k) (item_for t k v e) s"
    by (simp add: NativeFile_Set_empty_slot [OF u])
  note w = u [unfolded file_usable_def file_ok_def]
  note it = item_for_ok [OF u]
  have own: "chain s' (nf_head s' (nf_hash k)) [(nf_size s, item_for t k v e)]"
    unfolding s' using w it nf_hash_less by (intro linked_item) blast+
  show "0 \<le> e \<Longrightarrow> t \<le> now \<Longrightarrow> now < t + e \<Longrightarrow> file_get now k s' = Inr v"
    using w it by (simp add: file_get_def NativeFile_Get_chain [OF own] entry_value_def)
  show "0 \<le> e \<Longrightarrow> t + e < now \<Longrightarrow> file_get now k s' = Inr []"
    using it by (simp add: file_get_def NativeFile_Get_chain [OF own] entry_value_def)
  show "file_get now k' s' = file_get now k' s" if "k' \<noteq> k"
  proof (cases "nf_hash k' = nf_hash k")
    case True
    have "chain s (nf_head s (nf_hash k')) []" using w True by simp
    note before = NativeFile_Get_chain [OF this]
    have "chain s' (nf_head s' (nf_hash k')) [(nf_size s, item_for t k v e)]"
      using own by (simp only: True)
    note after = NativeFile_Get_chain [OF this]
    show ?thesis
      using it that by (simp add: file_get_def before after entry_value_def)
  next
    case False
    obtain ch where ch: "chain s (nf_head s (nf_hash k')) ch" using w nf_hash_less by blast
    then have "chain s' (nf_head s (nf_hash k')) ch"
      unfolding s' using w nf_hash_less by (intro chain_linked) blast+
    moreover have "nf_head s' (nf_hash k') = nf_head s (nf_hash k')"
      unfolding s' using nf_head_linked [of s "nf_hash k" "nf_hash k'"] w nf_hash_less False by simp
    ultimately show ?thesis using ch by (simp add: file_get_def NativeFile_Get_chain)
  qed
qed

section \<open>Lemmas: a value that outgrows its item\<close>

lemma ReadItem_WriteItem: "item_ok it \<Longrightarrow> ReadItem a (WriteItem a it f) = Inr it"
  by (rule ReadItem_stored [OF stored_WriteItem])

text \<open>An item that points to itself keeps the loop of \<open>Write\<close> going.\<close>

definition self_loop :: "item \<Rightarrow> nat \<Rightarrow> nfile \<Rightarrow> bool" where
  "self_loop it a f \<longleftrightarrow> a \<noteq> 0 \<and> (\<exists>xr. ReadItem a f = Inr xr \<and> it_next xr = a \<and> it_key xr \<noteq> it_key it \<and>
     it_capcity xr < it_capcity it)"

lemma write_chain_self_loop:
  assumes loop: "self_loop it a f"
  shows "write_chain now it file_end a f = None"
proof -
  have "\<not> self_loop it a f" if "write_chain now it file_end a f = Some y" for y
  proof (rule write_chain.raw_induct [OF _ that])
    fix rec_chain now it file_end a f y
    assume IH: "\<And>now it file_end a f y. rec_chain now it file_end a f = Some y \<Longrightarrow> \<not> self_loop it a f"
      and body: "(if a = 0 then Some (Inr f)
        else case ReadItem a f of Inl e \<Rightarrow> Some (Inl e)
        | Inr xr \<Rightarrow>
            if it_key xr = it_key it
            then if it_capcity xr < it_capcity it
                 then rec_chain now it file_end (it_next xr)
                        (WriteItem (it_next xr) (xr\<lparr>it_key := [], it_value := [], it_expires_in := 0\<rparr>) f)
                 else Some (Inr (WriteItem a
                        (xr\<lparr>it_expires_in := it_expires_in it, it_key := it_key it, it_value := it_value it\<rparr>) f))
            else if it_capcity xr \<ge> it_capcity it \<and> now > it_expires_in xr
            then Some (Inr (WriteItem a
                   (xr\<lparr>it_expires_in := it_expires_in it, it_key := it_key it, it_value := it_value it\<rparr>) f))
            else if it_next xr = 0
            then Some (Inr (WriteItem file_end it (file_write (a + 8) (le_bytes 8 file_end) f)))
            else rec_chain now it file_end (it_next xr) f) = Some y"
    show "\<not> self_loop it a f"
    proof
      assume loop: "self_loop it a f"
      then have "rec_chain now it file_end a f = Some y"
        using body by (auto simp: self_loop_def)
      with loop IH show False by blast
    qed
  qed
  then show ?thesis using loop by (cases "write_chain now it file_end a f") auto
qed

section \<open>Properties\<close>


text \<open>The new file satisfies its hypothesis.\<close>

lemma new_file:
  "nf_size f = 0 \<Longrightarrow> nf_size (NativeFile_Open f) = table_size" "nf_size f = 0 \<Longrightarrow> slot < 0x10000 \<Longrightarrow> nf_head (NativeFile_Open f) slot = 0"
  "nf_size f = 0 \<Longrightarrow> file_ok (NativeFile_Open f)"
proof -
  assume 0: "nf_size f = 0"
  show size: "nf_size (NativeFile_Open f) = table_size"
    by (simp add: 0 NativeFile_Open_def table_size_def size_of_size_t_def)
  have "file_read p n (NativeFile_Open f) = replicate (min (p + n) (nf_size (NativeFile_Open f)) - p) 0" for p n
    by (simp add: file_read_def NativeFile_Open_def 0 map_replicate_const)
  then show head: "nf_head (NativeFile_Open f) slot = 0" for slot
    by (simp add: nf_head_def)
  show "file_ok (NativeFile_Open f)"
    using size head by (auto simp: file_ok_def intro!: exI [of _ "[]"])
qed

lemma new_file_usable:
  "nf_size f = 0 \<Longrightarrow> length k < 2 ^ 32 \<Longrightarrow> length v < 2 ^ 32 \<Longrightarrow> 0 \<le> t \<Longrightarrow> t < 2 ^ 62 \<Longrightarrow> e < 2 ^ 62 \<Longrightarrow>
   file_usable (NativeFile_Open f) t k v e"
  using new_file [of f] nf_hash_less [of k] by (simp add: file_usable_def table_size_def)


text \<open>A longer value does not replace a shorter one.  When the key's item is alone in its chain and the
  new value needs a larger item, setting the key writes the emptied item over the start of the table and
  not the new value anywhere: the old value is still the one that is found, and the head of slot 0
  holds the old item's capacity.\<close>

theorem native_file_growth_lost:
  assumes "file_usable f t k v1 e" and "5 \<le> nf_hash k" and "t \<le> now" and "now < t + e"
    and "it_capcity (item_for t k v1 e) < it_capcity (item_for t2 k v2 e2)"
  shows "\<exists>f2. obind (NativeFile_Set t k v1 e f) (NativeFile_Set t2 k v2 e2) = Inr f2 \<and>
    file_get now k f2 = Inr v1 \<and> nf_head f2 0 = it_capcity (item_for t k v1 e)"
proof -
  let ?i1 = "item_for t k v1 e" and ?i2 = "item_for t2 k v2 e2" and ?s = "nf_hash k"
  let ?f1 = "linked ?s ?i1 f"
  let ?x = "?i1\<lparr>it_key := [], it_value := [], it_expires_in := 0\<rparr>"
  let ?f2 = "WriteItem 0 ?x ?f1"
  note u = assms(1) [unfolded file_usable_def file_ok_def]
  note i1 = item_for_ok [OF assms(1)]
  have head: "nf_head ?f1 ?s = nf_size f"
    using nf_head_linked [of f ?s ?s] u nf_hash_less by simp
  have "chain ?f1 (nf_head ?f1 ?s) [(nf_size f, ?i1)]"
    by (rule linked_item) (use u nf_hash_less i1(1,2) in blast)+
  then have st: "stored ?f1 (nf_size f) ?i1" "table_size \<le> nf_size f" unfolding head by auto
  have size: "?s * size_of_size_t + 8 \<le> nf_size ?f1"
    using nf_hash_bound [of k] nf_size_linked [of f ?s ?i1] st(2) nf_hash_less [of k]
    by (simp add: table_size_def size_of_size_t_def)
  have "le_value (take 4 (file_read (?s * size_of_size_t) 8 ?f1) @ drop 4 (file_read (?s * size_of_size_t) 8 ?f1)) = nf_size f"
    using head by (simp add: nf_head_def)
  then have sum: "le_value (take 4 (file_read (?s * size_of_size_t) 8 ?f1)) +
      256 ^ 4 * le_value (drop 4 (file_read (?s * size_of_size_t) 8 ?f1)) = nf_size f"
    using size unfolding le_value_append by (simp add: length_file_read)
  then have "le_value (drop 4 (file_read (?s * size_of_size_t) 8 ?f1)) = 0"
    using conjunct1 [OF conjunct2 [OF conjunct2 [OF u]]]
    by (cases "le_value (drop 4 (file_read (?s * size_of_size_t) 8 ?f1))") simp_all
  then have low: "le_value (file_read (?s * size_of_size_t) 4 ?f1) = nf_size f"
    using sum file_read_sub [of 0 4 8 "?s * size_of_size_t" ?f1] size by simp
  have pos: "nf_size f \<noteq> 0" using st(2) by (simp add: table_size_def)
  have "write_chain t2 ?i2 (nf_size ?f1) (nf_size f) ?f1 = Some (Inr ?f2)"
    using pos ReadItem_stored [OF st(1) i1(1)] i1 assms(5)
    by (subst write_chain.simps) (simp add: write_chain.simps [where addr = 0] item_for_def [of t2] Let_def)
  then have "NativeFile_Set t2 k v2 e2 ?f1 = Inr ?f2"
    using low pos by (simp add: NativeFile_Set_def NativeFile_Write_def loop_result_def item_for_def [of t2] Let_def)
  moreover have "length (item_bytes ?x) = 40" by (simp add: length_item_bytes)
  note len = this
  have head2: "nf_head ?f2 ?s = nf_size f"
    unfolding head [symmetric] nf_head_def WriteItem_def
    using file_read_write_outside [of "?s * size_of_size_t" 8 ?f1 0 "item_bytes ?x"] size len assms(2)
    by (simp add: size_of_size_t_def)
  have "stored ?f2 (nf_size f) ?i1"
    unfolding WriteItem_def using st len by (intro stored_write_outside) (auto simp: table_size_def)
  then have "chain ?f2 (nf_head ?f2 ?s) [(nf_size f, ?i1)]"
    using head2 st i1 by simp
  note get = NativeFile_Get_chain [OF this]
  have "file_get now k ?f2 = Inr v1"
    using i1 u assms(3,4) by (simp add: file_get_def get entry_value_def)
  moreover have "nf_head ?f2 0 = it_capcity ?i1"
    using file_read_write_inside [of 0 8 "item_bytes ?x" 0 ?f1] len i1(1)
    by (simp add: nf_head_def WriteItem_def item_bytes_def item_ok_def)
  ultimately show ?thesis
    by (simp add: NativeFile_Set_empty_slot [OF assms(1)])
qed

lemma native_file_growth_lost_witness:
  "\<exists>f2. obind (NativeFile_Set 1600000000 ''k'' ''old'' 7000 (NativeFile_Open \<lparr>nf_size = 0, nf_byte = \<lambda>_. 0\<rparr>))
       (NativeFile_Set 1600000010 ''k'' ''a much longer value'' 7000) = Inr f2 \<and> file_get 1600000020 ''k'' f2 = Inr ''old''"
  using native_file_growth_lost [OF new_file_usable [of "\<lparr>nf_size = 0, nf_byte = \<lambda>_. 0\<rparr>" "''k''" "''old''" 1600000000 7000],
      of 1600000020 1600000010 "''a much longer value''" 7000]
  by (auto simp: nf_hash_def schar_def byte_of_def item_for_def size_of_size_t_def)

text \<open>And when another item follows it in the chain, setting the key never returns: the emptied item is
  written over the next one, points to itself, and the loop reads it for ever.\<close>

theorem native_file_growth_diverges:
  assumes "le_value (file_read (nf_hash k * size_of_size_t) 4 f) = a" and "a \<noteq> 0"
    and "ReadItem a f = Inr xr" and "it_key xr = k" and "k \<noteq> []" and "it_next xr \<noteq> 0" and "item_ok xr"
    and "it_capcity xr < it_capcity (item_for t k v e)"
  shows "NativeFile_Set t k v e f = Inl Diverges"
proof -
  let ?it = "item_for t k v e"
  let ?x = "xr\<lparr>it_key := [], it_value := [], it_expires_in := 0\<rparr>"
  have key: "it_key ?it = k" by (simp add: item_for_def Let_def)
  have "item_ok ?x" using assms(7) by (simp add: item_ok_def)
  then have "ReadItem (it_next xr) (WriteItem (it_next xr) ?x f) = Inr ?x" by (rule ReadItem_WriteItem)
  then have "self_loop ?it (it_next xr) (WriteItem (it_next xr) ?x f)"
    using assms(5,6,8) key by (simp add: self_loop_def)
  then have "write_chain t ?it (nf_size f) (it_next xr) (WriteItem (it_next xr) ?x f) = None"
    by (rule write_chain_self_loop)
  then have "write_chain t ?it (nf_size f) a f = None"
    using assms(2-4,8) key by (subst write_chain.simps) simp
  then show ?thesis
    using assms(1,2) key by (simp add: NativeFile_Set_def NativeFile_Write_def loop_result_def)
qed

lemma native_file_growth_diverges_witness:
  "NativeFile_Set 10 ''k'' ''a much longer value'' 100
     (WriteItem 600000 \<lparr>it_capcity = 48, it_next = 600100, it_expires_in = 50, it_key = ''k'', it_value = ''v''\<rparr>
       (file_write (nf_hash ''k'' * size_of_size_t) (le_bytes 4 600000) (NativeFile_Open \<lparr>nf_size = 0, nf_byte = \<lambda>_. 0\<rparr>))) =
   Inl Diverges"
proof -
  let ?g = "file_write (nf_hash ''k'' * size_of_size_t) (le_bytes 4 600000) (NativeFile_Open \<lparr>nf_size = 0, nf_byte = \<lambda>_. 0\<rparr>)"
  let ?it = "\<lparr>it_capcity = 48, it_next = 600100, it_expires_in = 50, it_key = ''k'', it_value = ''v''\<rparr>"
  have hash: "nf_hash ''k'' = 107" by (simp add: nf_hash_def schar_def byte_of_def)
  have "file_read (107 * 8) 4 (WriteItem 600000 ?it ?g) = file_read (107 * 8) 4 ?g"
    unfolding WriteItem_def
    by (rule file_read_write_outside) (simp_all add: nf_size_write NativeFile_Open_def size_of_size_t_def hash)
  also have "\<dots> = le_bytes 4 600000"
    using file_read_write_inside [of 0 4 "le_bytes 4 600000" "107 * 8" "NativeFile_Open \<lparr>nf_size = 0, nf_byte = \<lambda>_. 0\<rparr>"]
    by (simp add: hash size_of_size_t_def)
  finally have "le_value (file_read (nf_hash ''k'' * size_of_size_t) 4 (WriteItem 600000 ?it ?g)) = 600000"
    by (simp add: hash size_of_size_t_def le_value_le_bytes)
  from native_file_growth_diverges [OF this _ ReadItem_WriteItem, of 10 "''a much longer value''" 100] show ?thesis
    by (simp add: item_ok_def item_for_def size_of_size_t_def)
qed

end
