(* ===== verification/Wx_Api.thy ===== *)
theory Wx_Api
  imports Http_Client Json_Document
begin

text \<open>
  \<open>xauth/wx_work_api.cpp\<close>: requests to the WeChat Work service and the answers.  Curl, the printing
  of a \<open>double\<close>, the clock and what an uninitialised \<open>int\<close> holds are the environment.
\<close>

record wx_env =
  we_curl :: curl
  we_io :: real_io
  we_now :: int
  we_junk :: int

text \<open>\<open>WxResp\<close>: the document the answer was parsed to.\<close>

definition WxResp_Parse :: "wx_env \<Rightarrow> string \<Rightarrow> (bool \<times> json) outcome" where
  "WxResp_Parse env content = JsonDocument_Parse (we_io env) content JsonDocument"

definition WxResp_Get :: "json \<Rightarrow> string \<Rightarrow> string outcome" where
  "WxResp_Get doc key = obind (Json_Get_string doc key) (\<lambda>r. Inr (case r of Some s \<Rightarrow> s | None \<Rightarrow> []))"

text \<open>A missing number leaves the local as it was.\<close>

definition WxResp_GetInt :: "wx_env \<Rightarrow> json \<Rightarrow> string \<Rightarrow> int outcome" where
  "WxResp_GetInt env doc key = obind (Json_Get_int doc key) (\<lambda>r. Inr (case r of Some i \<Rightarrow> i | None \<Rightarrow> we_junk env))"

definition ApiRespHandler :: "(int \<times> string option \<times> string option) option \<Rightarrow> (int \<times> string) option" where
  "ApiRespHandler r = map_option (\<lambda>(status, _, content). (status, case content of None \<Rightarrow> [] | Some b \<Rightarrow> b)) r"

definition api_content :: "(int \<times> string) option \<Rightarrow> string" where
  "api_content r = (case r of Some (status, content) \<Rightarrow> if status = 200 then content else [] | None \<Rightarrow> [])"

definition WxApi_Get :: "wx_env \<Rightarrow> string \<Rightarrow> string outcome" where
  "WxApi_Get env url =
     obind (HttpGet (we_curl env) (c_str url) []) (\<lambda>r. Inr (api_content (ApiRespHandler r)))"

definition WxApi_Post :: "wx_env \<Rightarrow> string \<Rightarrow> string \<Rightarrow> string outcome" where
  "WxApi_Post env url data =
     obind (HttpPost (we_curl env) (c_str url) ''Content-Type: application/json'' data) (\<lambda>r.
       Inr (api_content (ApiRespHandler r)))"

text \<open>The message to the application's users, and the request that looks up a contact.\<close>

definition text_message :: "wx_env \<Rightarrow> int \<Rightarrow> string \<Rightarrow> string \<Rightarrow> string outcome" where
  "text_message env appid touser content =
     obind (Json_Set_string JsonDocument ''touser'' touser) (\<lambda>d1.
     obind (Json_Set_string d1 ''msgtype'' ''text'') (\<lambda>d2.
     obind (Json_Set_int d2 ''agentid'' appid) (\<lambda>d3.
     obind (Json_Set_string d3 ''text.content'' content) (\<lambda>d4.
       Inr (JsonDocument_Write (we_io env) False d4)))))"

definition message_url :: "string \<Rightarrow> string" where
  "message_url access_token =
     FormatV (''https://qyapi.weixin.qq.com/cgi-bin/message/send?access_token='' @ c_str access_token)"

definition gettoken_url :: "string \<Rightarrow> string \<Rightarrow> string" where
  "gettoken_url corpid secret =
     FormatV (''https://qyapi.weixin.qq.com/cgi-bin/gettoken?corpid='' @ c_str corpid @ ''&corpsecret='' @ c_str secret)"

definition contact_url :: "string \<Rightarrow> string \<Rightarrow> string" where
  "contact_url access_token external_userid =
     FormatV (''https://qyapi.weixin.qq.com/cgi-bin/externalcontact/get?access_token='' @ c_str access_token @
       ''&external_userid='' @ c_str external_userid)"

definition userinfo_url :: "string \<Rightarrow> string \<Rightarrow> string" where
  "userinfo_url access_token code =
     FormatV (''https://qyapi.weixin.qq.com/cgi-bin/user/getuserinfo?access_token='' @ c_str access_token @
       ''&code='' @ c_str code)"

text \<open>\<open>WxUserInfo\<close>: the raw answer and two fields of it.\<close>

record wx_user_info =
  ui_user_id :: string
  ui_device_id :: string
  ui_raw_content :: string

definition WxUserInfo_new :: "wx_env \<Rightarrow> string \<Rightarrow> string \<Rightarrow> wx_user_info outcome" where
  "WxUserInfo_new env access_token code =
     obind (WxApi_Get env (userinfo_url access_token code)) (\<lambda>raw.
       obind (WxResp_Parse env raw) (\<lambda>(_, doc).
          obind (WxResp_Get doc ''UserId'') (\<lambda>user.
          obind (WxResp_Get doc ''DeviceId'') (\<lambda>device.
            Inr \<lparr>ui_user_id = user, ui_device_id = device, ui_raw_content = raw\<rparr>))))"

section \<open>Lemmas\<close>

lemma HttpGet_no_headers: "\<exists>r. HttpGet perform url [] = Inr r"
  by (simp add: HttpGet_def HttpSetHeader_def set_header_lines.simps c_str_def)

lemma WxApi_Get_returns: "\<exists>s. WxApi_Get env url = Inr s"
  using HttpGet_no_headers [of "we_curl env" "c_str url"] by (auto simp: WxApi_Get_def)

end
