(* ===== verification/App_Cache.thy ===== *)
theory App_Cache
  imports Native_File Wx_Api Locks Ini_Parser
begin

text \<open>
  \<open>helper/cache.cpp\<close>, \<open>xauth/app_info.cpp\<close>, \<open>xauth/corp_info.cpp\<close> and the \<open>app\<close> part of
  \<open>xauth/global.cpp\<close>: the cache in front of an engine, the applications of a corporation with their two
  caches, and the table of corporations read from the configuration.
\<close>

section \<open>\<open>SimpleCache\<close>\<close>

text \<open>The engines behind the virtual calls; the factory opens files through its argument.\<close>

datatype engine = Memory_Engine native_memory | File_Engine nfile

definition Engine_Set :: "int \<Rightarrow> string \<Rightarrow> string \<Rightarrow> int \<Rightarrow> engine \<Rightarrow> engine outcome" where
  "Engine_Set now key val expires_in e =
     (case e of
        Memory_Engine m \<Rightarrow> Inr (Memory_Engine (NativeMemory_Set now key val expires_in m))
      | File_Engine f \<Rightarrow> obind (NativeFile_Set now key val expires_in f) (\<lambda>f'. Inr (File_Engine f')))"

definition Engine_Get :: "int \<Rightarrow> string \<Rightarrow> engine \<Rightarrow> string outcome" where
  "Engine_Get now key e =
     (case e of Memory_Engine m \<Rightarrow> memory_get now key m | File_Engine f \<Rightarrow> file_get now key f)"

definition Factory_Create :: "(string \<Rightarrow> nfile) \<Rightarrow> string \<Rightarrow> engine option" where
  "Factory_Create file url =
     (case str_find url ''://'' 0 of
        None \<Rightarrow> None
      | Some fpos \<Rightarrow>
          if take fpos url = ''memory'' then Some (Memory_Engine [])
          else if take fpos url = ''file'' then Some (File_Engine (NativeFile_Open (file (drop (fpos + 3) url))))
          else None)"

record simple_cache =
  ca_engine :: "engine option"
  ca_lock :: lock_ptr

text \<open>The four constructors; the first leaves the lock as the memory was.\<close>

definition SimpleCache_new :: "lock_ptr \<Rightarrow> simple_cache" where
  "SimpleCache_new junk = \<lparr>ca_engine = None, ca_lock = junk\<rparr>"

definition SimpleCache_lock :: "lock_ptr \<Rightarrow> simple_cache" where
  "SimpleCache_lock lock = \<lparr>ca_engine = None, ca_lock = lock\<rparr>"

definition SimpleCache_engine :: "engine option \<Rightarrow> simple_cache" where
  "SimpleCache_engine e = \<lparr>ca_engine = e, ca_lock = Null_Lock\<rparr>"

definition SimpleCache_engine_lock :: "engine option \<Rightarrow> lock_ptr \<Rightarrow> simple_cache" where
  "SimpleCache_engine_lock e lock = \<lparr>ca_engine = e, ca_lock = lock\<rparr>"

definition SimpleCache_Set :: "int \<Rightarrow> string \<Rightarrow> string \<Rightarrow> int \<Rightarrow> simple_cache \<Rightarrow> simple_cache outcome" where
  "SimpleCache_Set now key val expires_in c =
     AutoLock (ca_lock c)
       (case ca_engine c of
          None \<Rightarrow> Inr c
        | Some e \<Rightarrow> obind (Engine_Set now key val expires_in e) (\<lambda>e'. Inr (c\<lparr>ca_engine := Some e'\<rparr>)))"

definition SimpleCache_Get :: "int \<Rightarrow> string \<Rightarrow> simple_cache \<Rightarrow> string outcome" where
  "SimpleCache_Get now key c =
     AutoLock (ca_lock c) (case ca_engine c of None \<Rightarrow> Inr [] | Some e \<Rightarrow> Engine_Get now key e)"

section \<open>\<open>AppInfo\<close>\<close>

definition decrement_expires_in :: "int \<Rightarrow> int \<Rightarrow> int" where
  "decrement_expires_in origin val = (if origin > val then origin - val else origin)"

record app_info =
  ai_appid :: string
  ai_secret :: string
  ai_params :: "(string, string) amap"
  ai_cache1 :: simple_cache
  ai_cache2 :: simple_cache

definition AppInfo_new :: "(string \<Rightarrow> nfile) \<Rightarrow> string \<Rightarrow> string \<Rightarrow> app_info" where
  "AppInfo_new file appid secret =
     \<lparr>ai_appid = appid, ai_secret = secret, ai_params = [],
      ai_cache1 = SimpleCache_engine_lock (Factory_Create file ''memory://'') Posix_Lock,
      ai_cache2 = SimpleCache_engine_lock (Factory_Create file (FormatV (''file://./'' @ c_str appid))) Posix_Lock\<rparr>"

definition AppInfo_AppId :: "app_info \<Rightarrow> int" where
  "AppInfo_AppId a = (if ai_appid a = [] then -1 else atoi (c_str (ai_appid a)))"

definition AppInfo_SetAppParam :: "string \<Rightarrow> string \<Rightarrow> app_info \<Rightarrow> app_info" where
  "AppInfo_SetAppParam key val a = a\<lparr>ai_params := amap_set key val (ai_params a)\<rparr>"

definition AppInfo_GetAppParam :: "app_info \<Rightarrow> string \<Rightarrow> string" where
  "AppInfo_GetAppParam a key = (case map_of (ai_params a) key of Some v \<Rightarrow> v | None \<Rightarrow> [])"

definition AppInfo_GetParamFromCache :: "int \<Rightarrow> string \<Rightarrow> app_info \<Rightarrow> string outcome" where
  "AppInfo_GetParamFromCache now key a =
     obind (SimpleCache_Get now key (ai_cache1 a)) (\<lambda>data.
       if data = [] then SimpleCache_Get now key (ai_cache2 a) else Inr data)"

definition AppInfo_SetParamToCache :: "int \<Rightarrow> string \<Rightarrow> string \<Rightarrow> int \<Rightarrow> app_info \<Rightarrow> app_info outcome" where
  "AppInfo_SetParamToCache now key data expires_in a =
     obind (SimpleCache_Set now key data expires_in (ai_cache1 a)) (\<lambda>c1.
     obind (SimpleCache_Set now key data expires_in (ai_cache2 a)) (\<lambda>c2.
       Inr (a\<lparr>ai_cache1 := c1, ai_cache2 := c2\<rparr>)))"

text \<open>The part the three getters share: the cache unless forced, then the request, its field, the cache.\<close>

definition cached_or_fetched ::
    "wx_env \<Rightarrow> bool \<Rightarrow> string \<Rightarrow> string \<Rightarrow> (app_info \<Rightarrow> (string \<times> app_info) outcome) \<Rightarrow> app_info \<Rightarrow>
     (string \<times> app_info) outcome" where
  "cached_or_fetched env force key field url a =
     obind (if force then Inr [CHR ''x''] else AppInfo_GetParamFromCache (we_now env) key a) (\<lambda>cached.
       if cached = [] then Inr ([], a)
       else
         obind (url a) (\<lambda>(u, a1).
         obind (WxApi_Get env u) (\<lambda>content.
         obind (WxResp_Parse env content) (\<lambda>(_, doc).
              obind (WxResp_Get doc field) (\<lambda>token.
                if token = [] then Inr ([], a1)
                else obind (WxResp_GetInt env doc ''expires_in'') (\<lambda>expires_in.
                     obind (AppInfo_SetParamToCache (we_now env) key token (decrement_expires_in expires_in 200) a1) (\<lambda>a2.
                       Inr (token, a2))))))))"

definition AppInfo_GetAccessToken :: "wx_env \<Rightarrow> string \<Rightarrow> bool \<Rightarrow> app_info \<Rightarrow> (string \<times> app_info) outcome" where
  "AppInfo_GetAccessToken env corpid force a =
     cached_or_fetched env force ''access_token'' ''access_token''
       (\<lambda>a. Inr (gettoken_url corpid (ai_secret a), a)) a"

definition AppInfo_GetCorpJsapiTicket :: "wx_env \<Rightarrow> string \<Rightarrow> bool \<Rightarrow> app_info \<Rightarrow> (string \<times> app_info) outcome" where
  "AppInfo_GetCorpJsapiTicket env corpid force a =
     cached_or_fetched env force ''corp_jsapi_ticket'' ''ticket''
       (\<lambda>a. obind (AppInfo_GetAccessToken env corpid force a) (\<lambda>(token, a1).
          Inr (FormatV (''https://qyapi.weixin.qq.com/cgi-bin/get_jsapi_ticket?access_token='' @ c_str token), a1))) a"

definition AppInfo_GetAppJsapiTicket :: "wx_env \<Rightarrow> string \<Rightarrow> bool \<Rightarrow> app_info \<Rightarrow> (string \<times> app_info) outcome" where
  "AppInfo_GetAppJsapiTicket env corpid force a =
     cached_or_fetched env force ''app_jsapi_ticket'' ''ticket''
       (\<lambda>a. obind (AppInfo_GetAccessToken env corpid force a) (\<lambda>(token, a1).
          Inr (FormatV (''https://qyapi.weixin.qq.com/cgi-bin/ticket/get?access_token='' @ c_str token @
            ''&type=agent_config''), a1))) a"

definition quoted :: "string \<Rightarrow> string" where
  "quoted s = [CHR 0x22] @ s @ [CHR 0x22]"

definition AppInfo_GetJsapiTicket :: "wx_env \<Rightarrow> string \<Rightarrow> bool \<Rightarrow> app_info \<Rightarrow> (string \<times> app_info) outcome" where
  "AppInfo_GetJsapiTicket env corpid force a =
     obind (AppInfo_GetCorpJsapiTicket env corpid force a) (\<lambda>(corp, a1).
     obind (AppInfo_GetAppJsapiTicket env corpid force a1) (\<lambda>(app, a2).
       Inr (FormatV (''{'' @ quoted ''corp_jsapi_ticket'' @ '': '' @ quoted (c_str corp) @ '', '' @
              quoted ''app_jsapi_ticket'' @ '': '' @ quoted (c_str app) @ ''}''), a2)))"

section \<open>\<open>CorpInfo\<close>\<close>

record corp_info =
  ci_corp_id :: string
  ci_apps :: "(string, app_info) amap"

definition CorpInfo_new :: "string \<Rightarrow> corp_info" where
  "CorpInfo_new corpid = \<lparr>ci_corp_id = corpid, ci_apps = []\<rparr>"

definition CorpInfo_GetApp :: "corp_info \<Rightarrow> string \<Rightarrow> app_info option" where
  "CorpInfo_GetApp c name = map_of (ci_apps c) name"

definition CorpInfo_AppId :: "corp_info \<Rightarrow> string \<Rightarrow> int" where
  "CorpInfo_AppId c name = (case CorpInfo_GetApp c name of Some a \<Rightarrow> AppInfo_AppId a | None \<Rightarrow> -1)"

definition CorpInfo_SetCorpId :: "string \<Rightarrow> corp_info \<Rightarrow> corp_info" where
  "CorpInfo_SetCorpId corpid c = c\<lparr>ci_corp_id := corpid\<rparr>"

definition CorpInfo_SetAppParam :: "string \<Rightarrow> string \<Rightarrow> string \<Rightarrow> corp_info \<Rightarrow> corp_info" where
  "CorpInfo_SetAppParam app key val c =
     (case CorpInfo_GetApp c app of
        Some a \<Rightarrow> c\<lparr>ci_apps := amap_set app (AppInfo_SetAppParam key val a) (ci_apps c)\<rparr>
      | None \<Rightarrow> c)"

definition CorpInfo_GetAppParam :: "corp_info \<Rightarrow> string \<Rightarrow> string \<Rightarrow> string" where
  "CorpInfo_GetAppParam c app key =
     (case CorpInfo_GetApp c app of Some a \<Rightarrow> AppInfo_GetAppParam a key | None \<Rightarrow> [])"

definition CorpInfo_CreateApplication ::
    "(string \<Rightarrow> nfile) \<Rightarrow> string \<Rightarrow> string \<Rightarrow> string \<Rightarrow> corp_info \<Rightarrow> bool \<times> corp_info" where
  "CorpInfo_CreateApplication file name appid secret c =
     (case map_of (ci_apps c) name of
        Some _ \<Rightarrow> (False, c)
      | None \<Rightarrow> (True, c\<lparr>ci_apps := amap_set name (AppInfo_new file appid secret) (ci_apps c)\<rparr>))"

text \<open>Both getters leave \<open>force\<close> at its default.\<close>

definition CorpInfo_get ::
    "(app_info \<Rightarrow> (string \<times> app_info) outcome) \<Rightarrow> string \<Rightarrow> corp_info \<Rightarrow> (string \<times> corp_info) outcome" where
  "CorpInfo_get getter name c =
     (case map_of (ci_apps c) name of
        Some a \<Rightarrow> obind (getter a) (\<lambda>(s, a'). Inr (s, c\<lparr>ci_apps := amap_set name a' (ci_apps c)\<rparr>))
      | None \<Rightarrow> Inr ([], c))"

definition CorpInfo_GetAccessToken :: "wx_env \<Rightarrow> string \<Rightarrow> corp_info \<Rightarrow> (string \<times> corp_info) outcome" where
  "CorpInfo_GetAccessToken env name c = CorpInfo_get (AppInfo_GetAccessToken env (ci_corp_id c) False) name c"

definition CorpInfo_GetJsapiTicket :: "wx_env \<Rightarrow> string \<Rightarrow> corp_info \<Rightarrow> (string \<times> corp_info) outcome" where
  "CorpInfo_GetJsapiTicket env name c = CorpInfo_get (AppInfo_GetJsapiTicket env (ci_corp_id c) False) name c"

section \<open>The table of corporations\<close>

type_synonym corps = "(string, corp_info) amap"

definition kMaxSize :: nat where "kMaxSize = 128"

definition numbered :: "string \<Rightarrow> nat \<Rightarrow> string \<Rightarrow> string" where
  "numbered section index field = FormatV (c_str section @ ''.'' @ dec_int (int index) @ field)"

text \<open>The loop over the corporations from index \<open>i\<close> on, which stops at the first incomplete entry.\<close>

fun load_corps :: "config \<Rightarrow> nat list \<Rightarrow> corps \<Rightarrow> corps" where
  "load_corps conf [] m = m"
| "load_corps conf (index # rest) m =
     (let corp_name = Config_Get conf (numbered ''CorpInfo'' index ''_name'');
          corp_id = Config_Get conf (numbered ''CorpInfo'' index ''_corpid'')
      in if corp_name = [] \<or> corp_id = [] then m
         else load_corps conf rest (amap_set corp_name (CorpInfo_new corp_id) m))"

text \<open>The loop over the applications of one corporation, which does not stop.\<close>

definition load_app :: "(string \<Rightarrow> nfile) \<Rightarrow> config \<Rightarrow> string \<Rightarrow> nat \<Rightarrow> corp_info \<Rightarrow> corp_info" where
  "load_app file conf corp_name index c =
     (let app_name = Config_Get conf (numbered corp_name index ''_name'');
          app_id = Config_Get conf (numbered corp_name index ''_appid'');
          app_secret = Config_Get conf (numbered corp_name index ''_secret'');
          app_token = Config_Get conf (numbered corp_name index ''_callback_token'');
          app_aeskey = Config_Get conf (numbered corp_name index ''_callback_aeskey'')
      in CorpInfo_SetAppParam app_name ''callback_aeskey'' app_aeskey
           (CorpInfo_SetAppParam app_name ''callback_token'' app_token
             (snd (CorpInfo_CreateApplication file app_name app_id app_secret c))))"

definition load_apps :: "(string \<Rightarrow> nfile) \<Rightarrow> config \<Rightarrow> string \<Rightarrow> nat list \<Rightarrow> corp_info \<Rightarrow> corp_info" where
  "load_apps file conf corp_name indices c = fold (load_app file conf corp_name) indices c"

definition app_Initialize :: "(string \<Rightarrow> nfile) \<Rightarrow> config \<Rightarrow> corps" where
  "app_Initialize file conf =
     map (\<lambda>(corp_name, c). (corp_name, load_apps file conf corp_name [1..<kMaxSize + 1] c))
       (load_corps conf [1..<kMaxSize + 1] [])"

definition app_Corp :: "corps \<Rightarrow> string \<Rightarrow> corp_info option" where
  "app_Corp m name = map_of m name"

definition app_GetAppParam :: "corps \<Rightarrow> string \<Rightarrow> string \<Rightarrow> string \<Rightarrow> string" where
  "app_GetAppParam m corp app key =
     (case app_Corp m corp of Some c \<Rightarrow> CorpInfo_GetAppParam c app key | None \<Rightarrow> [])"

definition app_get ::
    "(corp_info \<Rightarrow> (string \<times> corp_info) outcome) \<Rightarrow> string \<Rightarrow> corps \<Rightarrow> (string \<times> corps) outcome" where
  "app_get getter corp m =
     (case app_Corp m corp of
        Some c \<Rightarrow> obind (getter c) (\<lambda>(s, c'). Inr (s, amap_set corp c' m))
      | None \<Rightarrow> Inr ([], m))"

definition app_GetAccessToken :: "wx_env \<Rightarrow> string \<Rightarrow> string \<Rightarrow> corps \<Rightarrow> (string \<times> corps) outcome" where
  "app_GetAccessToken env corp app m = app_get (CorpInfo_GetAccessToken env app) corp m"

definition app_GetJsapiTicket :: "wx_env \<Rightarrow> string \<Rightarrow> string \<Rightarrow> corps \<Rightarrow> (string \<times> corps) outcome" where
  "app_GetJsapiTicket env corp app m = app_get (CorpInfo_GetJsapiTicket env app) corp m"

text \<open>The posts and requests that start from a corporation; the task is the address and the body it posts.\<close>

definition SendAppTextMessage ::
    "wx_env \<Rightarrow> string \<Rightarrow> string \<Rightarrow> string \<Rightarrow> corp_info option \<Rightarrow> ((string \<times> string) \<times> corp_info) outcome" where
  "SendAppTextMessage env app touser content corp =
     (case corp of
        None \<Rightarrow> Inl Null_Deref
      | Some c \<Rightarrow>
          obind (CorpInfo_GetAccessToken env app c) (\<lambda>(access_token, c1).
          obind (text_message env (CorpInfo_AppId c1 app) touser content) (\<lambda>message.
            Inr ((message_url access_token, message), c1))))"

definition SendAppTextMessage_name ::
    "wx_env \<Rightarrow> string \<Rightarrow> string \<Rightarrow> string \<Rightarrow> string \<Rightarrow> corps \<Rightarrow> ((string \<times> string) \<times> corp_info) outcome" where
  "SendAppTextMessage_name env corp app touser content m =
     SendAppTextMessage env ''notify'' touser content (app_Corp m corp)"

definition GetExternalContact ::
    "wx_env \<Rightarrow> string \<Rightarrow> string \<Rightarrow> string \<Rightarrow> corps \<Rightarrow> (string \<times> corp_info) outcome" where
  "GetExternalContact env corp app external_userid m =
     (case app_Corp m corp of
        None \<Rightarrow> Inl Null_Deref
      | Some c \<Rightarrow>
          obind (CorpInfo_GetAccessToken env ''external_contact'' c) (\<lambda>(access_token, c1).
            if access_token = [] then Inr ([], c1)
            else obind (WxApi_Get env (contact_url access_token external_userid)) (\<lambda>r. Inr (r, c1))))"

section \<open>Lemmas: two caches, one behind the other\<close>

text \<open>
  What a caller of the pair relies on: the fast cache answers with the value or not at all, the slow one
  keeps the contract of an engine.
\<close>

locale cache_pair = slow: cache_engine slow_set slow_get slow_usable
  for slow_set :: "int \<Rightarrow> string \<Rightarrow> string \<Rightarrow> int \<Rightarrow> 's \<Rightarrow> 's outcome"
    and slow_get :: "int \<Rightarrow> string \<Rightarrow> 's \<Rightarrow> string outcome"
    and slow_usable :: "'s \<Rightarrow> int \<Rightarrow> string \<Rightarrow> string \<Rightarrow> int \<Rightarrow> bool" +
  fixes fast_set :: "int \<Rightarrow> string \<Rightarrow> string \<Rightarrow> int \<Rightarrow> 'f \<Rightarrow> 'f outcome"
    and fast_get :: "int \<Rightarrow> string \<Rightarrow> 'f \<Rightarrow> string outcome"
  assumes fast_returns: "\<exists>s'. fast_set t k v e s = Inr s'"
    and fast_hit_or_miss: "fast_set t k v e s = Inr s' \<Longrightarrow> fast_get now k s' = Inr v \<or> fast_get now k s' = Inr []"
begin

lemma pair_set_get:
  assumes "slow_usable s t k v e" and "0 \<le> e" and "t \<le> now" and "now < t + e"
  shows "\<exists>f' s'. fast_set t k v e f = Inr f' \<and> slow_set t k v e s = Inr s' \<and>
    obind (fast_get now k f') (\<lambda>data. if data = [] then slow_get now k s' else Inr data) = Inr v"
proof -
  obtain f' s' where "fast_set t k v e f = Inr f'" "slow_set t k v e s = Inr s'"
    using fast_returns slow.set_returns [OF assms(1)] by blast
  then show ?thesis
    using fast_hit_or_miss [of t k v e f f' now] slow.get_in_time [OF assms(1) _ assms(2-4)] by auto
qed

end

interpretation two: cache_pair NativeFile_Set file_get file_usable memory_set memory_get
proof
  fix t k v e s s' now
  show "\<exists>s'. memory_set t k v e s = Inr s'" by (simp add: memory_set_def)
  assume "memory_set t k v e s = Inr s'"
  then show "memory_get now k s' = Inr v \<or> memory_get now k s' = Inr []"
    by (auto simp: memory_set_def memory_get_def NativeMemory_Set_def NativeMemory_Get_def
        CacheValue_Set_def CacheValue_new_def split: option.splits)
qed

section \<open>Lemmas: caches that hold nothing\<close>

definition engine_cold :: "engine \<Rightarrow> bool" where
  "engine_cold e \<longleftrightarrow> (\<forall>now key. Engine_Get now key e = Inr [])"

definition cache_cold :: "simple_cache \<Rightarrow> bool" where
  "cache_cold c \<longleftrightarrow> ca_lock c \<noteq> Wild_Lock \<and> (case ca_engine c of None \<Rightarrow> True | Some e \<Rightarrow> engine_cold e)"

definition app_cold :: "app_info \<Rightarrow> bool" where
  "app_cold a \<longleftrightarrow> cache_cold (ai_cache1 a) \<and> cache_cold (ai_cache2 a)"

definition corp_cold :: "corp_info \<Rightarrow> bool" where
  "corp_cold c \<longleftrightarrow> amap_ok (ci_apps c) \<and> (\<forall>x \<in> set (ci_apps c). app_cold (snd x))"

definition new_files :: "(string \<Rightarrow> nfile) \<Rightarrow> bool" where
  "new_files file \<longleftrightarrow> (\<forall>path. nf_size (file path) = 0)"

lemma cache_cold_Get [simp]: "cache_cold c \<Longrightarrow> SimpleCache_Get now key c = Inr []"
  by (auto simp: cache_cold_def SimpleCache_Get_def engine_cold_def split: option.splits)

lemma app_cold_Get [simp]: "app_cold a \<Longrightarrow> AppInfo_GetParamFromCache now key a = Inr []"
  by (simp add: app_cold_def AppInfo_GetParamFromCache_def)

lemma file_get_new: "nf_size f = 0 \<Longrightarrow> file_get now key (NativeFile_Open f) = Inr []"
  using NativeFile_Get_chain [of "NativeFile_Open f" key "[]" now] new_file(2) [of f "nf_hash key"] nf_hash_less [of key]
  by (simp add: file_get_def entry_value_def)

lemma engine_cold_Create:
  "new_files file \<Longrightarrow> case Factory_Create file url of None \<Rightarrow> True | Some e \<Rightarrow> engine_cold e"
  by (auto simp: Factory_Create_def engine_cold_def Engine_Get_def memory_get_def NativeMemory_Get_def
      new_files_def file_get_new split: option.splits)

lemma app_cold_new: "new_files file \<Longrightarrow> app_cold (AppInfo_new file appid secret)"
  using engine_cold_Create
  by (simp add: app_cold_def AppInfo_new_def cache_cold_def SimpleCache_engine_lock_def)

lemma corp_cold_set: "corp_cold c \<Longrightarrow> app_cold a \<Longrightarrow> corp_cold (c\<lparr>ci_apps := amap_set name a (ci_apps c)\<rparr>)"
  using set_amap_set [of name a "ci_apps c"] by (auto simp: corp_cold_def)

lemma corp_cold_app: "corp_cold c \<Longrightarrow> map_of (ci_apps c) name = Some a \<Longrightarrow> app_cold a"
  by (fastforce simp: corp_cold_def dest: map_of_SomeD)

lemma corp_cold_param: "corp_cold c \<Longrightarrow> corp_cold (CorpInfo_SetAppParam app key val c)"
  using corp_cold_app [of c app]
  by (auto simp: CorpInfo_SetAppParam_def CorpInfo_GetApp_def AppInfo_SetAppParam_def app_cold_def
      intro!: corp_cold_set split: option.splits)

lemma corp_cold_create:
  "new_files file \<Longrightarrow> corp_cold c \<Longrightarrow> corp_cold (snd (CorpInfo_CreateApplication file name appid secret c))"
  by (auto simp: CorpInfo_CreateApplication_def app_cold_new intro!: corp_cold_set split: option.splits)

lemma corp_cold_load: "new_files file \<Longrightarrow> corp_cold c \<Longrightarrow> corp_cold (load_apps file conf corp_name indices c)"
  unfolding load_apps_def
  by (induction indices arbitrary: c) (simp_all add: load_app_def Let_def corp_cold_param corp_cold_create)

lemma load_corps_cold:
  "amap_ok m \<Longrightarrow> \<forall>x \<in> set m. corp_cold (snd x) \<Longrightarrow>
   amap_ok (load_corps conf is m) \<and> (\<forall>x \<in> set (load_corps conf is m). corp_cold (snd x))"
proof (induction "is" arbitrary: m)
  case (Cons i rest)
  let ?id = "Config_Get conf (numbered ''CorpInfo'' i ''_corpid'')" and ?n = "Config_Get conf (numbered ''CorpInfo'' i ''_name'')"
  have "corp_cold (CorpInfo_new ?id)" by (simp add: CorpInfo_new_def corp_cold_def)
  then have "\<forall>x \<in> set (amap_set ?n (CorpInfo_new ?id) m). corp_cold (snd x)"
    using Cons.prems(2) set_amap_set [of ?n "CorpInfo_new ?id" m] by auto
  with Cons show ?case by (auto simp: Let_def)
qed simp

lemma app_Initialize_cold:
  assumes "new_files file"
  shows "amap_ok (app_Initialize file conf) \<and> (\<forall>x \<in> set (app_Initialize file conf). corp_cold (snd x))"
proof -
  let ?m = "load_corps conf [1..<kMaxSize + 1] []"
  have m: "amap_ok ?m" "\<forall>x \<in> set ?m. corp_cold (snd x)" using load_corps_cold [of "[]"] by auto
  have init: "app_Initialize file conf = map (\<lambda>x. (fst x, load_apps file conf (fst x) [1..<kMaxSize + 1] (snd x))) ?m"
    by (simp add: app_Initialize_def case_prod_unfold)
  show ?thesis
    unfolding init using m corp_cold_load [OF assms] by (simp add: amap_ok_def o_def del: upt_Suc)
qed

lemma amap_set_known: "amap_ok m \<Longrightarrow> map_of m k = Some v \<Longrightarrow> amap_set k v m = m"
proof (induction m)
  case (Cons x m)
  then show ?case
    by (cases x) (fastforce simp: amap_ok_Cons dest: map_of_SomeD)
qed simp

lemma cold_not_fetched: "app_cold a \<Longrightarrow> cached_or_fetched env False key field url a = Inr ([], a)"
  by (simp add: cached_or_fetched_def)

lemma cold_tokens:
  assumes "app_cold a"
  shows "AppInfo_GetAccessToken env corpid False a = Inr ([], a)"
    "AppInfo_GetCorpJsapiTicket env corpid False a = Inr ([], a)"
    "AppInfo_GetAppJsapiTicket env corpid False a = Inr ([], a)"
  by (simp_all add: AppInfo_GetAccessToken_def AppInfo_GetCorpJsapiTicket_def AppInfo_GetAppJsapiTicket_def
      cold_not_fetched [OF assms])

definition no_tickets :: string where
  "no_tickets = ''{'' @ quoted ''corp_jsapi_ticket'' @ '': '' @ quoted [] @ '', '' @
     quoted ''app_jsapi_ticket'' @ '': '' @ quoted [] @ ''}''"

lemma cold_tickets: "app_cold a \<Longrightarrow> AppInfo_GetJsapiTicket env corpid False a = Inr (no_tickets, a)"
  by (simp add: AppInfo_GetJsapiTicket_def cold_tokens no_tickets_def FormatV_def quoted_def c_str_def max_buf_len_def)

lemma cold_corp_get:
  assumes "corp_cold c" and "\<And>a. app_cold a \<Longrightarrow> getter a = Inr (s, a)"
  shows "CorpInfo_get getter name c = Inr (if map_of (ci_apps c) name = None then [] else s, c)"
  using corp_cold_app [OF assms(1), of name] assms
  by (auto simp: CorpInfo_get_def corp_cold_def amap_set_known split: option.splits)

section \<open>Properties\<close>

text \<open>The two caches of an application: a value that the file takes is found for its whole lifetime
  through \<open>SetParamToCache\<close> and \<open>GetParamFromCache\<close>, whatever the cache in memory held before.\<close>

theorem app_param_cached:
  assumes "ai_cache1 a = SimpleCache_engine_lock (Some (Memory_Engine m)) Posix_Lock"
    and "ai_cache2 a = SimpleCache_engine_lock (Some (File_Engine f)) Posix_Lock"
    and "file_usable f t k v e" and "0 \<le> e" and "t \<le> now" and "now < t + e"
  shows "obind (AppInfo_SetParamToCache t k v e a) (AppInfo_GetParamFromCache now k) = Inr v"
proof -
  from two.pair_set_get [OF assms(3-6), of m] obtain m' f' where
    s: "memory_set t k v e m = Inr m'" "NativeFile_Set t k v e f = Inr f'"
    and g: "obind (memory_get now k m') (\<lambda>data. if data = [] then file_get now k f' else Inr data) = Inr v"
    by blast
  from s(1) have "NativeMemory_Set t k v e m = m'" by (simp add: memory_set_def)
  with s have "AppInfo_SetParamToCache t k v e a =
      Inr (a\<lparr>ai_cache1 := SimpleCache_engine_lock (Some (Memory_Engine m')) Posix_Lock,
             ai_cache2 := SimpleCache_engine_lock (Some (File_Engine f')) Posix_Lock\<rparr>)"
    by (simp add: AppInfo_SetParamToCache_def SimpleCache_Set_def SimpleCache_engine_lock_def Engine_Set_def assms(1,2))
  with g show ?thesis
    by (simp add: AppInfo_GetParamFromCache_def SimpleCache_Get_def SimpleCache_engine_lock_def Engine_Get_def cong: if_cong)
qed

lemma app_param_cached_witness:
  "obind (AppInfo_SetParamToCache 1600000000 ''access_token'' ''abc'' 7000
     (AppInfo_new (\<lambda>_. \<lparr>nf_size = 0, nf_byte = \<lambda>_. 0\<rparr>) ''100'' ''s''))
     (AppInfo_GetParamFromCache 1600000100 ''access_token'') = Inr ''abc''"
proof (rule app_param_cached)
  let ?f = "NativeFile_Open \<lparr>nf_size = 0, nf_byte = \<lambda>_. 0\<rparr>"
  show "ai_cache1 (AppInfo_new (\<lambda>_. \<lparr>nf_size = 0, nf_byte = \<lambda>_. 0\<rparr>) ''100'' ''s'') =
      SimpleCache_engine_lock (Some (Memory_Engine [])) Posix_Lock"
    by (simp add: AppInfo_new_def Factory_Create_def str_find_def)
  show "ai_cache2 (AppInfo_new (\<lambda>_. \<lparr>nf_size = 0, nf_byte = \<lambda>_. 0\<rparr>) ''100'' ''s'') =
      SimpleCache_engine_lock (Some (File_Engine ?f)) Posix_Lock"
    by (simp add: AppInfo_new_def Factory_Create_def FormatV_def c_str_def max_buf_len_def str_find_def)
  show "file_usable ?f 1600000000 ''access_token'' ''abc'' 7000"
    by (rule new_file_usable) simp_all
qed simp_all

text \<open>With new cache files no configured application ever gets a token: \<open>GetAccessToken\<close> and
  \<open>GetJsapiTicket\<close> answer with nothing and leave every cache as it was, whatever the service would answer,
  because a getter that is not forced returns when the cache has no value instead of fetching one.\<close>

theorem tokens_never_obtained:
  assumes "new_files file"
  shows "app_GetAccessToken env corp app (app_Initialize file conf) = Inr ([], app_Initialize file conf) \<and>
    app_GetJsapiTicket env corp app (app_Initialize file conf) \<in>
      {Inr ([], app_Initialize file conf), Inr (no_tickets, app_Initialize file conf)}"
proof
  let ?m = "app_Initialize file conf"
  note cold = app_Initialize_cold [OF assms, of conf]
  have c: "corp_cold c" if "map_of ?m corp = Some c" for c
    using cold map_of_SomeD [OF that] by fastforce
  show "app_GetAccessToken env corp app ?m = Inr ([], ?m)"
    using c cold by (auto simp: app_GetAccessToken_def app_get_def app_Corp_def CorpInfo_GetAccessToken_def
        cold_corp_get cold_tokens amap_set_known split: option.splits)
  show "app_GetJsapiTicket env corp app ?m \<in> {Inr ([], ?m), Inr (no_tickets, ?m)}"
    using c cold by (auto simp: app_GetJsapiTicket_def app_get_def app_Corp_def CorpInfo_GetJsapiTicket_def
        cold_corp_get cold_tickets amap_set_known split: option.splits)
qed

definition one_corp :: config where
  "one_corp = \<lparr>cf_root = Value_Set ''CorpInfo.1_corpid'' ''ww1'' (Value_Set ''CorpInfo.1_name'' ''Main'' conf_empty),
     cf_parser = IniParser_new\<rparr>"

lemma tokens_never_obtained_witness:
  "\<forall>env. app_GetAccessToken env ''Main'' ''app'' (app_Initialize (\<lambda>_. \<lparr>nf_size = 0, nf_byte = \<lambda>_. 0\<rparr>) one_corp) =
     Inr ([], app_Initialize (\<lambda>_. \<lparr>nf_size = 0, nf_byte = \<lambda>_. 0\<rparr>) one_corp)"
  using tokens_never_obtained [of "\<lambda>_. \<lparr>nf_size = 0, nf_byte = \<lambda>_. 0\<rparr>"] by (simp add: new_files_def)

section \<open>Entries of an application\<close>

abbreviation app_entry :: "config \<Rightarrow> string \<Rightarrow> string \<Rightarrow> nat \<Rightarrow> string" where
  "app_entry conf corp field index \<equiv> Config_Get conf (numbered corp index field)"

definition loaded_as :: "config \<Rightarrow> string \<Rightarrow> nat list \<Rightarrow> app_info \<Rightarrow> bool" where
  "loaded_as conf corp js a \<longleftrightarrow> js \<noteq> [] \<and>
     ai_appid a = app_entry conf corp ''_appid'' (hd js) \<and> ai_secret a = app_entry conf corp ''_secret'' (hd js) \<and>
     AppInfo_GetAppParam a ''callback_token'' = app_entry conf corp ''_callback_token'' (last js) \<and>
     AppInfo_GetAppParam a ''callback_aeskey'' = app_entry conf corp ''_callback_aeskey'' (last js)"

lemma SetAppParam_other [simp]: "n \<noteq> app \<Longrightarrow> map_of (ci_apps (CorpInfo_SetAppParam app key val c)) n = map_of (ci_apps c) n"
  by (simp add: CorpInfo_SetAppParam_def split: option.splits)

lemma SetAppParam_same:
  "map_of (ci_apps (CorpInfo_SetAppParam app key val c)) app =
     map_option (AppInfo_SetAppParam key val) (map_of (ci_apps c) app)"
  by (simp add: CorpInfo_SetAppParam_def CorpInfo_GetApp_def split: option.splits)

lemma CreateApplication_apps:
  "map_of (ci_apps (snd (CorpInfo_CreateApplication file app appid secret c))) n =
     (if n = app \<and> map_of (ci_apps c) app = None then Some (AppInfo_new file appid secret) else map_of (ci_apps c) n)"
  by (auto simp: CorpInfo_CreateApplication_def split: option.splits)

lemma load_app_same:
  assumes "app_entry conf corp ''_name'' j = n"
  shows "\<exists>a. map_of (ci_apps (load_app file conf corp j c)) n = Some a \<and>
    (case map_of (ci_apps c) n of
       None \<Rightarrow> loaded_as conf corp [j] a
     | Some a0 \<Rightarrow> loaded_as conf corp js a0 \<longrightarrow> loaded_as conf corp (js @ [j]) a)"
  using assms
  by (cases "map_of (ci_apps c) n")
    (simp_all add: load_app_def Let_def SetAppParam_same CreateApplication_apps loaded_as_def AppInfo_SetAppParam_def
      AppInfo_GetAppParam_def AppInfo_new_def)

lemma load_app_other:
  "app_entry conf corp ''_name'' j \<noteq> n \<Longrightarrow> map_of (ci_apps (load_app file conf corp j c)) n = map_of (ci_apps c) n"
  by (simp add: load_app_def Let_def CreateApplication_apps)

lemma load_apps_entry:
  "map_of (ci_apps c) n = None \<Longrightarrow>
   case map_of (ci_apps (load_apps file conf corp is c)) n of
     None \<Rightarrow> filter (\<lambda>j. app_entry conf corp ''_name'' j = n) is = []
   | Some a \<Rightarrow> loaded_as conf corp (filter (\<lambda>j. app_entry conf corp ''_name'' j = n) is) a"
proof (induction "is" rule: rev_induct)
  case Nil
  then show ?case by (simp add: load_apps_def)
next
  case (snoc j "is")
  let ?c = "load_apps file conf corp is c" and ?js = "filter (\<lambda>j. app_entry conf corp ''_name'' j = n) is"
  have step: "load_apps file conf corp (is @ [j]) c = load_app file conf corp j ?c" by (simp add: load_apps_def)
  show ?case
  proof (cases "app_entry conf corp ''_name'' j = n")
    case True
    from load_app_same [OF True, of "file" ?c ?js] snoc True show ?thesis
      by (auto simp: step split: option.splits)
  next
    case False
    with snoc load_app_other [OF False] show ?thesis by (auto simp: step split: option.splits)
  qed
qed

text \<open>The applications of a corporation after the start: an application exists exactly when one of the
  128 numbered entries has its name (so one with the empty name exists as soon as an entry is missing); its
  identity and secret are those of the first entry of that name, its callback token and key those of the
  last.\<close>

theorem configured_apps:
  "case CorpInfo_GetApp (load_apps file conf corp [1..<kMaxSize + 1] (CorpInfo_new corpid)) n of
     None \<Rightarrow> filter (\<lambda>j. app_entry conf corp ''_name'' j = n) [1..<kMaxSize + 1] = []
   | Some a \<Rightarrow> loaded_as conf corp (filter (\<lambda>j. app_entry conf corp ''_name'' j = n) [1..<kMaxSize + 1]) a"
  unfolding CorpInfo_GetApp_def by (rule load_apps_entry) (simp add: CorpInfo_new_def)

end
