(* ===== verification/Xml_Text.thy ===== *)
theory Xml_Text
  imports Prelude
begin

text \<open>
  \<open>xauth/tinyxml2\<close>, the texts: \<open>XMLUtil\<close>'s classes of characters, character references and their UTF-8
  form, and \<open>StrPair\<close>, the string between two pointers into the buffer of a document, which is decoded in
  place when it is first read.  A pointer into the buffer is the text from there to its end.
\<close>

section \<open>Classes of characters\<close>

definition isspace :: "char \<Rightarrow> bool" where
  "isspace c \<longleftrightarrow> c = CHR '' '' \<or> (9 \<le> (of_char c :: nat) \<and> (of_char c :: nat) \<le> 13)"

definition isalpha :: "char \<Rightarrow> bool" where
  "isalpha c \<longleftrightarrow> (65 \<le> (of_char c :: nat) \<and> (of_char c :: nat) \<le> 90) \<or> (97 \<le> (of_char c :: nat) \<and> (of_char c :: nat) \<le> 122)"

definition isdigit :: "char \<Rightarrow> bool" where
  "isdigit c \<longleftrightarrow> 48 \<le> (of_char c :: nat) \<and> (of_char c :: nat) \<le> 57"

definition IsUTF8Continuation :: "char \<Rightarrow> bool" where
  "IsUTF8Continuation p \<longleftrightarrow> byte_of p AND 0x80 \<noteq> 0"

definition IsWhiteSpace :: "char \<Rightarrow> bool" where
  "IsWhiteSpace p \<longleftrightarrow> \<not> IsUTF8Continuation p \<and> isspace p"

definition IsNameStartChar :: "char \<Rightarrow> bool" where
  "IsNameStartChar ch \<longleftrightarrow> 128 \<le> (of_char ch :: nat) \<or> isalpha ch \<or> ch = CHR '':'' \<or> ch = CHR ''_''"

definition IsNameChar :: "char \<Rightarrow> bool" where
  "IsNameChar ch \<longleftrightarrow> IsNameStartChar ch \<or> isdigit ch \<or> ch = CHR ''.'' \<or> ch = CHR ''-''"

definition SkipWhiteSpace :: "string \<Rightarrow> string" where
  "SkipWhiteSpace p = dropWhile IsWhiteSpace p"

definition TIXML_UTF_LEAD :: string where
  "TIXML_UTF_LEAD = [CHR 0xEF, CHR 0xBB, CHR 0xBF]"

definition ReadBOM :: "string \<Rightarrow> string \<times> bool" where
  "ReadBOM p = (if take 3 p = TIXML_UTF_LEAD then (drop 3 p, True) else (p, False))"

section \<open>Character references\<close>

definition FIRST_BYTE_MARK :: "64 word list" where
  "FIRST_BYTE_MARK = [0x00, 0x00, 0xC0, 0xE0, 0xF0, 0xF8, 0xFC]"

definition utf8_length :: "64 word \<Rightarrow> nat" where
  "utf8_length input =
     (if input < 0x80 then 1 else if input < 0x800 then 2 else if input < 0x10000 then 3
      else if input < 0x200000 then 4 else 0)"

text \<open>The falling through the cases of the switch, from the last byte to the second.\<close>

fun utf8_fill :: "nat \<Rightarrow> 64 word \<Rightarrow> 64 word \<Rightarrow> string \<Rightarrow> string" where
  "utf8_fill (Suc (Suc n)) mark input output =
     utf8_fill (Suc n) mark (drop_bit 6 input) (char_of_byte (ucast ((input OR 0x80) AND 0xBF)) # output)"
| "utf8_fill (Suc 0) mark input output = char_of_byte (ucast (input OR mark)) # output"
| "utf8_fill 0 mark input output = output"

definition ConvertUTF32ToUTF8 :: "64 word \<Rightarrow> string" where
  "ConvertUTF32ToUTF8 input = utf8_fill (utf8_length input) (FIRST_BYTE_MARK ! utf8_length input) input []"

definition ref_digit :: "nat \<Rightarrow> char \<Rightarrow> 32 word option" where
  "ref_digit base c =
     (let n = of_char c :: nat
      in if 48 \<le> n \<and> n \<le> 57 then Some (of_nat (n - 48))
         else if base = 16 \<and> 97 \<le> n \<and> n \<le> 102 then Some (of_nat (n - 97 + 10))
         else if base = 16 \<and> 65 \<le> n \<and> n \<le> 70 then Some (of_nat (n - 65 + 10))
         else None)"

text \<open>From the semicolon back to the mark; the multiplier is an \<open>unsigned\<close>, which wraps.\<close>

fun ref_digits :: "nat \<Rightarrow> char \<Rightarrow> string \<Rightarrow> 32 word \<Rightarrow> 64 word \<Rightarrow> 64 word option" where
  "ref_digits base mark [] mult ucs = Some ucs"
| "ref_digits base mark (q # qs) mult ucs =
     (if q = mark then Some ucs
      else case ref_digit base q of
        None \<Rightarrow> None
      | Some digit \<Rightarrow> ref_digits base mark qs (mult * of_nat base) (ucs + ucast (mult * digit)))"

definition ref_value :: "nat \<Rightarrow> char \<Rightarrow> string \<Rightarrow> (string \<times> string) option" where
  "ref_value base mark q =
     (if q = [] \<or> CHR '';'' \<notin> set q then None
      else map_option (\<lambda>ucs. (ConvertUTF32ToUTF8 ucs, tl (dropWhile (\<lambda>c. c \<noteq> CHR '';'') q)))
             (ref_digits base mark (rev (takeWhile (\<lambda>c. c \<noteq> CHR '';'') q)) 1 0))"

text \<open>Called behind an ampersand and a hash: what is written, and the text behind what was read.\<close>

definition GetCharacterRef :: "string \<Rightarrow> (string \<times> string) option" where
  "GetCharacterRef r =
     (case r of
        [] \<Rightarrow> Some ([], CHR ''#'' # r)
      | c # q \<Rightarrow> if c = CHR ''x'' then ref_value 16 (CHR ''x'') q else ref_value 10 (CHR ''#'') r)"

section \<open>\<open>StrPair\<close>\<close>

record str_flags =
  NEEDS_ENTITY_PROCESSING :: bool
  NEEDS_NEWLINE_NORMALIZATION :: bool

definition TEXT_ELEMENT :: str_flags where
  "TEXT_ELEMENT = \<lparr>NEEDS_ENTITY_PROCESSING = True, NEEDS_NEWLINE_NORMALIZATION = True\<rparr>"

definition ATTRIBUTE_VALUE :: str_flags where
  "ATTRIBUTE_VALUE = \<lparr>NEEDS_ENTITY_PROCESSING = True, NEEDS_NEWLINE_NORMALIZATION = True\<rparr>"

definition COMMENT :: str_flags where
  "COMMENT = \<lparr>NEEDS_ENTITY_PROCESSING = False, NEEDS_NEWLINE_NORMALIZATION = True\<rparr>"

fun ParseText :: "string \<Rightarrow> string \<Rightarrow> (string \<times> string) option" where
  "ParseText endTag [] = None"
| "ParseText endTag (c # p) =
     (if take (length endTag) (c # p) = endTag then Some ([], drop (length endTag) (c # p))
      else map_option (\<lambda>(s, r). (c # s, r)) (ParseText endTag p))"

definition ParseName :: "string \<Rightarrow> (string \<times> string) option" where
  "ParseName p =
     (case p of
        [] \<Rightarrow> None
      | c # r \<Rightarrow> if IsNameStartChar c then Some (c # takeWhile IsNameChar r, dropWhile IsNameChar r) else None)"

definition xml_LF :: char where "xml_LF = CHR 0x0A"
definition xml_CR :: char where "xml_CR = CHR 0x0D"

definition entities :: "(string \<times> char) list" where
  "entities = [(''quot'', CHR 0x22), (''amp'', CHR ''&''), (''apos'', CHR 0x27), (''lt'', CHR ''<''), (''gt'', CHR ''>'')]"

definition entity_at :: "string \<Rightarrow> (string \<times> char) option" where
  "entity_at p = find (\<lambda>(pattern, _). take (length pattern + 1) p = pattern @ '';'') entities"

lemma ref_value_shorter: "ref_value base mark q = Some (s, r) \<Longrightarrow> length r < length q"
  using length_dropWhile_le [of "\<lambda>c. c \<noteq> CHR '';''" q] by (cases q) (auto simp: ref_value_def simp del: dropWhile.simps split: if_splits)

lemma GetCharacterRef_shorter: "GetCharacterRef r = Some (s, r') \<Longrightarrow> length r' \<le> Suc (length r)"
  by (auto simp: GetCharacterRef_def dest: ref_value_shorter split: list.splits if_splits)

text \<open>
  The two pointers of \<open>GetStr\<close>: what is left to read, and what is written so far to the front of the same
  buffer.  For an ampersand that starts nothing both pointers go on and nothing is written, so the byte that
  stands there is whatever the buffer held.
\<close>

function GetStr_loop :: "str_flags \<Rightarrow> string \<Rightarrow> string \<Rightarrow> string \<Rightarrow> string" where
  "GetStr_loop flags buffer out [] = out"
| "GetStr_loop flags buffer out (c # p) =
     (if NEEDS_NEWLINE_NORMALIZATION flags \<and> c = xml_CR then
        GetStr_loop flags buffer (out @ [xml_LF]) (if take 1 p = [xml_LF] then tl p else p)
      else if NEEDS_NEWLINE_NORMALIZATION flags \<and> c = xml_LF then
        GetStr_loop flags buffer (out @ [xml_LF]) (if take 1 p = [xml_CR] then tl p else p)
      else if NEEDS_ENTITY_PROCESSING flags \<and> c = CHR ''&'' then
        (if take 1 p = ''#'' then
           (case GetCharacterRef (tl p) of
              None \<Rightarrow> GetStr_loop flags buffer (out @ [c]) p
            | Some (buf, adjusted) \<Rightarrow> GetStr_loop flags buffer (out @ buf) adjusted)
         else
           (case entity_at p of
              Some (pattern, v) \<Rightarrow> GetStr_loop flags buffer (out @ [v]) (drop (length pattern + 1) p)
            | None \<Rightarrow> GetStr_loop flags buffer (out @ [buffer ! length out]) p))
      else GetStr_loop flags buffer (out @ [c]) p)"
  by pat_completeness auto
termination
proof (relation "measure (\<lambda>(flags, buffer, out, p). length p)")
  fix p and x :: "string \<times> string" and buf adjusted
  assume "take 1 p = ''#''" "GetCharacterRef (tl p) = Some x" "(buf, adjusted) = x"
  then show "((flags, buffer, out @ buf, adjusted), flags, buffer, out, c # p) \<in> measure (\<lambda>(flags, buffer, out, p). length p)"
    for flags :: str_flags and buffer out :: string and c :: char
    using GetCharacterRef_shorter [of "tl p" buf adjusted] by (cases p) auto
qed auto

definition StrPair_GetStr :: "str_flags \<Rightarrow> string \<Rightarrow> string" where
  "StrPair_GetStr flags s = c_str (GetStr_loop flags s [] s)"

end
