(* ===== verification/Xml_Parse.thy ===== *)
theory Xml_Parse
  imports Xml_Text
begin

text \<open>
  \<open>xauth/tinyxml2\<close>, the parser: the nodes of a document, the recursive descent of \<open>ParseDeep\<close> over the
  classes of nodes, the errors, the limit of depth.  A null pointer is \<open>None\<close>; a node's strings are decoded
  when it is read, which nothing can tell from the first time they are looked at.  Line numbers and the texts
  of errors are left out.
\<close>

section \<open>Nodes and errors\<close>

datatype xml =
    Xml_Element (xml_name: string) (xml_attributes: "(string \<times> string) list") (xml_children: "xml list")
  | Xml_Text (xml_text: string) (xml_cdata: bool)
  | Xml_Comment (xml_comment: string)
  | Xml_Declaration (xml_declaration: string)
  | Xml_Unknown (xml_unknown: string)

datatype xml_error = XML_ERROR_PARSING_ELEMENT | XML_ERROR_PARSING_ATTRIBUTE | XML_ERROR_PARSING_TEXT
  | XML_ERROR_PARSING_CDATA | XML_ERROR_PARSING_COMMENT | XML_ERROR_PARSING_DECLARATION | XML_ERROR_PARSING_UNKNOWN
  | XML_ERROR_EMPTY_DOCUMENT | XML_ERROR_MISMATCHED_ELEMENT | XML_ERROR_PARSING | XML_ELEMENT_DEPTH_EXCEEDED

datatype closing_type = OPEN | CLOSED | CLOSING

datatype node_kind = Declaration_Node | Comment_Node | CData_Node | Unknown_Node | Element_Node | Text_Node

text \<open>What starts at \<open>p\<close>, and where its own text starts; nothing if only white space is left.\<close>

definition Identify :: "string \<Rightarrow> (node_kind \<times> string) option" where
  "Identify start =
     (let p = SkipWhiteSpace start
      in if p = [] then None
         else if take 2 p = ''<?'' then Some (Declaration_Node, drop 2 p)
         else if take 4 p = ''<!--'' then Some (Comment_Node, drop 4 p)
         else if take 9 p = ''<![CDATA['' then Some (CData_Node, drop 9 p)
         else if take 2 p = ''<!'' then Some (Unknown_Node, drop 2 p)
         else if take 1 p = ''<'' then Some (Element_Node, drop 1 p)
         else Some (Text_Node, start))"

section \<open>Nodes without children\<close>

text \<open>The left side is a null pointer with the error set, if one is.\<close>

definition parse_leaf :: "string \<Rightarrow> xml_error \<Rightarrow> (string \<Rightarrow> xml) \<Rightarrow> string \<Rightarrow> xml_error option + (xml \<times> string)" where
  "parse_leaf endTag e node p =
     (case ParseText endTag p of None \<Rightarrow> Inl (Some e) | Some (s, p') \<Rightarrow> Inr (node s, p'))"

definition XMLText_ParseDeep :: "bool \<Rightarrow> string \<Rightarrow> xml_error option + (xml \<times> string)" where
  "XMLText_ParseDeep cdata p =
     (if cdata
      then parse_leaf '']]>'' XML_ERROR_PARSING_CDATA (\<lambda>s. Xml_Text (StrPair_GetStr COMMENT s) True) p
      else (case ParseText ''<'' p of
          None \<Rightarrow> Inl (Some XML_ERROR_PARSING_TEXT)
        | Some (s, p') \<Rightarrow>
            if p' = [] then Inl None else Inr (Xml_Text (StrPair_GetStr TEXT_ELEMENT s) False, CHR ''<'' # p')))"

definition XMLComment_ParseDeep :: "string \<Rightarrow> xml_error option + (xml \<times> string)" where
  "XMLComment_ParseDeep = parse_leaf ''-->'' XML_ERROR_PARSING_COMMENT (\<lambda>s. Xml_Comment (StrPair_GetStr COMMENT s))"

definition XMLDeclaration_ParseDeep :: "string \<Rightarrow> xml_error option + (xml \<times> string)" where
  "XMLDeclaration_ParseDeep =
     parse_leaf ''?>'' XML_ERROR_PARSING_DECLARATION (\<lambda>s. Xml_Declaration (StrPair_GetStr COMMENT s))"

definition XMLUnknown_ParseDeep :: "string \<Rightarrow> xml_error option + (xml \<times> string)" where
  "XMLUnknown_ParseDeep = parse_leaf ''>'' XML_ERROR_PARSING_UNKNOWN (\<lambda>s. Xml_Unknown (StrPair_GetStr COMMENT s))"

fun leaf_ParseDeep :: "node_kind \<Rightarrow> string \<Rightarrow> xml_error option + (xml \<times> string)" where
  "leaf_ParseDeep Declaration_Node p = XMLDeclaration_ParseDeep p"
| "leaf_ParseDeep Comment_Node p = XMLComment_ParseDeep p"
| "leaf_ParseDeep CData_Node p = XMLText_ParseDeep True p"
| "leaf_ParseDeep Unknown_Node p = XMLUnknown_ParseDeep p"
| "leaf_ParseDeep Text_Node p = XMLText_ParseDeep False p"
| "leaf_ParseDeep Element_Node p = Inl None"

section \<open>Attributes\<close>

definition XMLAttribute_ParseDeep :: "string \<Rightarrow> ((string \<times> string) \<times> string) option" where
  "XMLAttribute_ParseDeep p =
     (case ParseName p of
        None \<Rightarrow> None
      | Some (name, p1) \<Rightarrow>
          (if p1 = [] then None
           else case SkipWhiteSpace p1 of
               [] \<Rightarrow> None
             | c # p2 \<Rightarrow>
                 (if c \<noteq> CHR ''='' then None
                  else case SkipWhiteSpace p2 of
                      [] \<Rightarrow> None
                    | q # p3 \<Rightarrow>
                        (if q \<noteq> CHR 0x22 \<and> q \<noteq> CHR 0x27 then None
                         else map_option (\<lambda>(v, p4). ((name, StrPair_GetStr ATTRIBUTE_VALUE v), p4)) (ParseText [q] p3)))))"

lemma SkipWhiteSpace_le: "length (SkipWhiteSpace p) \<le> length p"
  by (simp add: SkipWhiteSpace_def length_dropWhile_le)

lemma ParseName_shorter: "ParseName p = Some (s, r) \<Longrightarrow> length r < length p"
  by (cases p) (auto simp: ParseName_def length_dropWhile_le le_imp_less_Suc split: if_splits)

lemma ParseText_le: "ParseText t p = Some (s, r) \<Longrightarrow> length r \<le> length p"
  by (induction t p arbitrary: s rule: ParseText.induct) (fastforce split: if_splits)+

lemma XMLAttribute_ParseDeep_shorter:
  assumes "XMLAttribute_ParseDeep p = Some (a, r)"
  shows "length r < length p"
proof -
  obtain name p1 c p2 q p3 v where 1: "ParseName p = Some (name, p1)" "SkipWhiteSpace p1 = c # p2"
    "SkipWhiteSpace p2 = q # p3" "ParseText [q] p3 = Some (v, r)"
    using assms by (auto simp: XMLAttribute_ParseDeep_def split: option.splits list.splits if_splits)
  then show ?thesis
    using ParseName_shorter [OF 1(1)] SkipWhiteSpace_le [of p1] SkipWhiteSpace_le [of p2] ParseText_le [OF 1(4)] by simp
qed

text \<open>The attributes, how the tag ends and what is behind it.\<close>

function ParseAttributes :: "(string \<times> string) list \<Rightarrow> closing_type \<Rightarrow> string \<Rightarrow>
    xml_error + ((string \<times> string) list \<times> closing_type \<times> string)" where
  "ParseAttributes attributes closing start =
     (case SkipWhiteSpace start of
        [] \<Rightarrow> Inl XML_ERROR_PARSING_ELEMENT
      | c # p \<Rightarrow>
          (if IsNameStartChar c then
             (case XMLAttribute_ParseDeep (c # p) of
                None \<Rightarrow> Inl XML_ERROR_PARSING_ATTRIBUTE
              | Some (attrib, p') \<Rightarrow>
                  if fst attrib \<in> fst ` set attributes then Inl XML_ERROR_PARSING_ATTRIBUTE
                  else ParseAttributes (attributes @ [attrib]) closing p')
           else if c = CHR ''>'' then Inr (attributes, closing, p)
           else if c = CHR ''/'' \<and> take 1 p = ''>'' then Inr (attributes, CLOSED, tl p)
           else Inl XML_ERROR_PARSING_ELEMENT))"
  by pat_completeness auto
termination
proof (relation "measure (\<lambda>(attributes, closing, p). length p)")
  fix start c p and x :: "(string \<times> string) \<times> string" and attrib p'
  assume "SkipWhiteSpace start = c # p" "XMLAttribute_ParseDeep (c # p) = Some x" "(attrib, p') = x"
  then show "((attributes @ [attrib], closing, p'), attributes, closing, start) \<in> measure (\<lambda>(attributes, closing, p). length p)"
    for attributes and closing :: closing_type
    using XMLAttribute_ParseDeep_shorter [of "c # p" attrib p'] SkipWhiteSpace_le [of start] by auto
qed auto

declare ParseAttributes.simps [simp del]

lemma ParseAttributes_shorter: "ParseAttributes as cl p = Inr (as', cl', r) \<Longrightarrow> length r < length p"
proof (induction as cl p rule: ParseAttributes.induct)
  case (1 as cl start)
  note le = SkipWhiteSpace_le [of start]
  show ?case
  proof (cases "SkipWhiteSpace start")
    case Nil
    with "1.prems" show ?thesis by (simp add: ParseAttributes.simps [of as cl start])
  next
    case (Cons c p)
    show ?thesis
    proof (cases "IsNameStartChar c")
      case True
      then obtain a p' where "XMLAttribute_ParseDeep (c # p) = Some (a, p')" "fst a \<notin> fst ` set as"
        "ParseAttributes (as @ [a]) cl p' = Inr (as', cl', r)"
        using "1.prems" Cons by (auto simp: ParseAttributes.simps [of as cl start] split: option.splits if_splits)
      with "1.IH" [OF Cons True this(1) refl] XMLAttribute_ParseDeep_shorter [of "c # p" a p'] Cons le show ?thesis by simp
    next
      case False
      with "1.prems" Cons le show ?thesis
        by (cases p) (auto simp: ParseAttributes.simps [of as cl start] split: if_splits)
    qed
  qed
qed

section \<open>Elements and their children\<close>

definition TINYXML2_MAX_ELEMENT_DEPTH :: nat where "TINYXML2_MAX_ELEMENT_DEPTH = 100"

text \<open>The error \<open>PushDepth\<close> may set ends the parse of the level.\<close>

definition PushDepth :: "nat \<Rightarrow> nat option" where
  "PushDepth depth = (if Suc depth = TINYXML2_MAX_ELEMENT_DEPTH then None else Some (Suc depth))"

text \<open>The name and the attributes of a tag, behind its bracket.\<close>

definition element_head :: "string \<Rightarrow> xml_error option + (string \<times> (string \<times> string) list \<times> closing_type \<times> string)" where
  "element_head start =
     (let p = SkipWhiteSpace start;
          closing = (if take 1 p = ''/'' then CLOSING else OPEN);
          p1 = (if take 1 p = ''/'' then drop 1 p else p)
      in case ParseName p1 of
          None \<Rightarrow> Inl None
        | Some (name, p2) \<Rightarrow>
            (case ParseAttributes [] closing p2 of
               Inl e \<Rightarrow> Inl (Some e)
             | Inr (attributes, closing', p3) \<Rightarrow> Inr (name, attributes, closing', p3)))"

text \<open>
  What \<open>XMLNode::ParseDeep\<close> leaves: the children, the name of the end tag it met, the pointer and the
  error.  What \<open>XMLElement::ParseDeep\<close> leaves: the element, its closing type, the end tag of its children
  and the pointer, or a null pointer.
\<close>

datatype xml_level =
  Level (lv_children: "xml list") (lv_end_tag: "string option") (lv_ptr: "string option") (lv_error: "xml_error option")

type_synonym xml_element = "xml_error option + (xml \<times> closing_type \<times> string option \<times> string)"

definition level_fails :: "xml list \<Rightarrow> xml_error option \<Rightarrow> xml_level" where
  "level_fails children e =
     Level children None None (Some (case e of None \<Rightarrow> XML_ERROR_PARSING | Some e \<Rightarrow> e))"

fun is_declaration :: "xml \<Rightarrow> bool" where
  "is_declaration (Xml_Declaration _) = True"
| "is_declaration _ = False"

definition well_located :: "bool \<Rightarrow> xml list \<Rightarrow> bool" where
  "well_located is_doc children \<longleftrightarrow>
     is_doc \<and> (children \<noteq> [] \<longrightarrow> is_declaration (hd children) \<and> is_declaration (last children))"

definition mismatched :: "closing_type \<Rightarrow> string option \<Rightarrow> string \<Rightarrow> bool" where
  "mismatched closing end_tag name =
     (case end_tag of None \<Rightarrow> closing = OPEN | Some t \<Rightarrow> closing \<noteq> OPEN \<or> t \<noteq> name)"

lemma Identify_le: "Identify p = Some (k, p1) \<Longrightarrow> length p1 \<le> length p"
  using SkipWhiteSpace_le [of p] by (auto simp: Identify_def Let_def split: if_splits)

lemma Identify_shorter: "Identify p = Some (k, p1) \<Longrightarrow> k \<noteq> Text_Node \<Longrightarrow> length p1 < length p"
  using SkipWhiteSpace_le [of p]
  by (cases "SkipWhiteSpace p") (auto simp: Identify_def Let_def split: if_splits)

lemma element_head_shorter: "element_head p = Inr (name, as, cl, r) \<Longrightarrow> length r < length p"
  using SkipWhiteSpace_le [of p]
  by (fastforce simp: element_head_def Let_def split: if_splits option.splits sum.splits
      dest: ParseName_shorter ParseAttributes_shorter)

lemma parse_leaf_le: "parse_leaf t e f p = Inr (x, r) \<Longrightarrow> length r \<le> length p"
  by (auto simp: parse_leaf_def split: option.splits dest: ParseText_le)

lemma leaf_ParseDeep_shorter:
  assumes "Identify p = Some (k, p1)" and "leaf_ParseDeep k p1 = Inr (x, r)"
  shows "length r < length p"
proof (cases "k = Text_Node")
  case True
  from assms(1) True have p: "p1 = p" "take 1 (SkipWhiteSpace p) \<noteq> ''<''" "p \<noteq> []"
    by (auto simp: Identify_def Let_def SkipWhiteSpace_def split: if_splits)
  from assms(2) True obtain s p' where t: "ParseText ''<'' p = Some (s, p')" "r = CHR ''<'' # p'"
    by (auto simp: p XMLText_ParseDeep_def split: option.splits if_splits)
  obtain c q where pc: "p = c # q" using p(3) by (cases p) auto
  have "\<not> IsWhiteSpace CHR ''<''" by (simp add: IsWhiteSpace_def isspace_def)
  then have "c \<noteq> CHR ''<''" using p(2) by (auto simp: pc SkipWhiteSpace_def)
  then obtain s' where "ParseText ''<'' q = Some (s', p')" using t(1) by (auto simp: pc)
  then have "length p' < length q"
    by (induction "''<''" q arbitrary: s' rule: ParseText.induct) (fastforce split: if_splits)+
  then show ?thesis by (simp add: t pc)
next
  case False
  have "length r \<le> length p1"
    using assms(2) False
    by (cases k) (auto simp: XMLText_ParseDeep_def XMLComment_ParseDeep_def XMLDeclaration_ParseDeep_def
        XMLUnknown_ParseDeep_def dest: parse_leaf_le)
  with Identify_shorter [OF assms(1) False] show ?thesis by simp
qed

text \<open>
  \<open>XMLNode_ParseDeep\<close> is the loop of \<open>XMLNode::ParseDeep\<close> at a depth, with the children read so far;
  \<open>XMLElement_ParseDeep\<close> is called behind the bracket of a tag.
\<close>

function (sequential) XMLNode_ParseDeep :: "nat \<Rightarrow> bool \<Rightarrow> xml list \<Rightarrow> string \<Rightarrow> xml_level"
  and XMLElement_ParseDeep :: "nat \<Rightarrow> string \<Rightarrow> xml_element" where
  "XMLNode_ParseDeep depth is_doc children p =
     (case Identify p of
        None \<Rightarrow> Level children None None None
      | Some (kind, p1) \<Rightarrow>
          (if kind = Element_Node then
             (case XMLElement_ParseDeep depth p1 of
                Inl e \<Rightarrow> level_fails children e
              | Inr (ele, closing, end_tag, p2) \<Rightarrow>
                  (if closing = CLOSING then
                     Level children (if is_doc then None else Some (xml_name ele)) (Some p2) None
                   else if mismatched closing end_tag (xml_name ele) then
                     level_fails children (Some XML_ERROR_MISMATCHED_ELEMENT)
                   else XMLNode_ParseDeep depth is_doc (children @ [ele]) p2))
           else
             (case leaf_ParseDeep kind p1 of
                Inl e \<Rightarrow> level_fails children e
              | Inr (node, p2) \<Rightarrow>
                  (if is_declaration node \<and> \<not> well_located is_doc children then
                     level_fails children (Some XML_ERROR_PARSING_DECLARATION)
                   else XMLNode_ParseDeep depth is_doc (children @ [node]) p2))))"
| "XMLElement_ParseDeep depth p =
     (case element_head p of
        Inl e \<Rightarrow> Inl e
      | Inr (name, attributes, closing, p1) \<Rightarrow>
          (if p1 = [] \<or> closing \<noteq> OPEN then Inr (Xml_Element name attributes [], closing, None, p1)
           else case PushDepth depth of
               None \<Rightarrow> Inl (Some XML_ELEMENT_DEPTH_EXCEEDED)
             | Some depth1 \<Rightarrow>
                 (let level = XMLNode_ParseDeep depth1 False [] p1
                  in case lv_ptr level of
                      None \<Rightarrow> Inl (lv_error level)
                    | Some p2 \<Rightarrow> Inr (Xml_Element name attributes (lv_children level), closing, lv_end_tag level, p2))))"
  by pat_completeness auto

lemma ParseDeep_le:
  "XMLNode_ParseDeep_XMLElement_ParseDeep_dom (Inl (depth, is_doc, cs, p)) \<Longrightarrow>
     lv_ptr (XMLNode_ParseDeep depth is_doc cs p) = Some r \<Longrightarrow> length r \<le> length p"
  "XMLNode_ParseDeep_XMLElement_ParseDeep_dom (Inr (depth, p)) \<Longrightarrow>
     XMLElement_ParseDeep depth p = Inr (ele, cl, t, r) \<Longrightarrow> length r \<le> length p"
proof (induction arbitrary: r and ele cl t r rule: XMLNode_ParseDeep_XMLElement_ParseDeep.pinduct)
  case (1 depth is_doc cs p)
  obtain kind p1 where k: "Identify p = Some (kind, p1)"
    using "1.prems" by (auto simp: XMLNode_ParseDeep.psimps [OF "1.hyps"] split: option.splits)
  note step = "1.prems" [unfolded XMLNode_ParseDeep.psimps [OF "1.hyps"] k option.case prod.case]
  show ?case
  proof (cases "kind = Element_Node")
    case True
    then obtain ele closing end_tag p2 where e: "XMLElement_ParseDeep depth p1 = Inr (ele, closing, end_tag, p2)"
      using step by (auto simp: level_fails_def split: sum.splits)
    have le: "length p2 < length p"
      using "1.IH"(1) [OF k refl True e] Identify_shorter [OF k] True by simp
    then show ?thesis
      using step True e "1.IH"(2) [OF k refl True e refl refl refl] by (fastforce simp: level_fails_def split: if_splits)
  next
    case False
    then obtain node p2 where e: "leaf_ParseDeep kind p1 = Inr (node, p2)"
      using step by (auto simp: level_fails_def split: sum.splits)
    then show ?thesis
      using step False leaf_ParseDeep_shorter [OF k e] "1.IH"(3) [OF k refl False e refl]
      by (fastforce simp: level_fails_def split: if_splits)
  qed
next
  case (2 depth p)
  obtain name as closing p1 where h: "element_head p = Inr (name, as, closing, p1)"
    using "2.prems" by (cases "element_head p") (auto simp: XMLElement_ParseDeep.psimps [OF "2.hyps"])
  note step = "2.prems" [unfolded XMLElement_ParseDeep.psimps [OF "2.hyps"] h sum.case prod.case]
  show ?case
  proof (cases "p1 = [] \<or> closing \<noteq> OPEN")
    case True
    then show ?thesis using step element_head_shorter [OF h] by simp
  next
    case False
    then obtain depth1 where d: "PushDepth depth = Some depth1" using step by (auto split: option.splits)
    then obtain p2 where l: "lv_ptr (XMLNode_ParseDeep depth1 False [] p1) = Some p2" "r = p2"
      using step False by (auto simp: Let_def split: option.splits)
    then show ?thesis using "2.IH" [OF h refl refl refl False d _] element_head_shorter [OF h] by fastforce
  qed
qed

text \<open>Every step reads at least one character, so the descent ends.\<close>

termination XMLNode_ParseDeep
proof (relation "measure (\<lambda>x. case x of Inl (depth, is_doc, cs, p) \<Rightarrow> 2 * length p + 1 | Inr (depth, p) \<Rightarrow> 2 * length p)")
  fix depth :: nat and is_doc :: bool and children :: "xml list" and p p1 kind and x :: "node_kind \<times> string"
  assume 1: "Identify p = Some x" "(kind, p1) = x"
  {
    assume "kind = Element_Node"
    then show "(Inr (depth, p1), Inl (depth, is_doc, children, p)) \<in>
        measure (\<lambda>x. case x of Inl (depth, is_doc, cs, p) \<Rightarrow> 2 * length p + 1 | Inr (depth, p) \<Rightarrow> 2 * length p)"
      using 1 Identify_le [of p kind p1] by simp
  next
    fix ele closing end_tag p2 y z w
    assume 2: "kind = Element_Node" "XMLElement_ParseDeep depth p1 = Inr y" "(ele, z) = y" "(closing, w) = z" "(end_tag, p2) = w"
      "XMLNode_ParseDeep_XMLElement_ParseDeep_dom (Inr (depth, p1))"
    then have "length p2 \<le> length p1" using ParseDeep_le(2) [of depth p1 ele closing end_tag p2] by auto
    with 1 2(1) Identify_shorter [of p kind p1]
    show "(Inl (depth, is_doc, children @ [ele], p2), Inl (depth, is_doc, children, p)) \<in>
        measure (\<lambda>x. case x of Inl (depth, is_doc, cs, p) \<Rightarrow> 2 * length p + 1 | Inr (depth, p) \<Rightarrow> 2 * length p)"
      by simp
  next
    fix node p2 and y :: "xml \<times> string"
    assume "leaf_ParseDeep kind p1 = Inr y" "(node, p2) = y"
    then show "(Inl (depth, is_doc, children @ [node], p2), Inl (depth, is_doc, children, p)) \<in>
        measure (\<lambda>x. case x of Inl (depth, is_doc, cs, p) \<Rightarrow> 2 * length p + 1 | Inr (depth, p) \<Rightarrow> 2 * length p)"
      using 1 leaf_ParseDeep_shorter [of p kind p1 node p2] by auto
  }
next
  fix depth depth1 :: nat and p p1 name attributes closing y z w
  assume "element_head p = Inr y" "(name, z) = y" "(attributes, w) = z" "(closing, p1) = w"
  then show "(Inl (depth1, False, [], p1), Inr (depth, p)) \<in>
      measure (\<lambda>x. case x of Inl (depth, is_doc, cs, p) \<Rightarrow> 2 * length p + 1 | Inr (depth, p) \<Rightarrow> 2 * length p)"
    using element_head_shorter [of p name attributes closing p1] by auto
qed simp

declare XMLNode_ParseDeep.simps [simp del] XMLElement_ParseDeep.simps [simp del]

section \<open>Documents\<close>

record xml_document =
  xd_children :: "xml list"
  xd_error :: "xml_error option"
  xd_writeBOM :: bool

definition XMLDocument_new :: xml_document where
  "XMLDocument_new = \<lparr>xd_children = [], xd_error = None, xd_writeBOM = False\<rparr>"

definition XMLDocument_Clear :: "xml_document \<Rightarrow> xml_document" where
  "XMLDocument_Clear doc = doc\<lparr>xd_children := [], xd_error := None\<rparr>"

text \<open>\<open>Parse()\<close>, on the buffer.\<close>

definition XMLDocument_Parse_buffer :: "string \<Rightarrow> xml_document \<Rightarrow> xml_document" where
  "XMLDocument_Parse_buffer buffer doc =
     (let (p, bom) = ReadBOM (SkipWhiteSpace buffer);
          doc1 = doc\<lparr>xd_writeBOM := bom\<rparr>
      in if p = [] then doc1\<lparr>xd_error := Some XML_ERROR_EMPTY_DOCUMENT\<rparr>
         else case PushDepth 0 of
             None \<Rightarrow> doc1\<lparr>xd_error := Some XML_ELEMENT_DEPTH_EXCEEDED\<rparr>
           | Some depth \<Rightarrow>
               let level = XMLNode_ParseDeep depth True [] p
               in doc1\<lparr>xd_children := lv_children level, xd_error := lv_error level\<rparr>)"

text \<open>\<open>Parse(const char*, size_t)\<close>: after an error the document has no children.\<close>

definition XMLDocument_Parse :: "string \<Rightarrow> xml_document \<Rightarrow> xml_document" where
  "XMLDocument_Parse data doc =
     (let doc1 = XMLDocument_Clear doc
      in if c_str data = [] then doc1\<lparr>xd_error := Some XML_ERROR_EMPTY_DOCUMENT\<rparr>
         else let doc2 = XMLDocument_Parse_buffer (c_str data) doc1
              in if xd_error doc2 \<noteq> None then doc2\<lparr>xd_children := []\<rparr> else doc2)"

end
