(* ===== verification/Xml_Print.thy ===== *)
theory Xml_Print
  imports Xml_Parse
begin

text \<open>
  \<open>xauth/tinyxml2\<close>, the printer: \<open>XMLPrinter\<close> writing into its own buffer, and the visit of a document.
\<close>

section \<open>The printer\<close>

record xml_printer =
  px_buffer :: string
  px_elementJustOpened :: bool
  px_stack :: "string list"
  px_firstElement :: bool
  px_depth :: int
  px_textDepth :: int
  px_processEntities :: bool
  px_compactMode :: bool

definition XMLPrinter_new :: "bool \<Rightarrow> int \<Rightarrow> xml_printer" where
  "XMLPrinter_new compact depth =
     \<lparr>px_buffer = [], px_elementJustOpened = False, px_stack = [], px_firstElement = True, px_depth = depth,
      px_textDepth = -1, px_processEntities = True, px_compactMode = compact\<rparr>"

definition ENTITY_RANGE :: nat where "ENTITY_RANGE = 64"

definition entityFlag :: "char \<Rightarrow> bool" where
  "entityFlag c \<longleftrightarrow> c \<in> snd ` set entities"

definition restrictedEntityFlag :: "char \<Rightarrow> bool" where
  "restrictedEntityFlag c \<longleftrightarrow> c \<in> {CHR ''&'', CHR ''<'', CHR ''>''}"

definition Write :: "string \<Rightarrow> xml_printer \<Rightarrow> xml_printer" where
  "Write data pr = pr\<lparr>px_buffer := px_buffer pr @ c_str data\<rparr>"

definition Putc :: "char \<Rightarrow> xml_printer \<Rightarrow> xml_printer" where
  "Putc ch pr = pr\<lparr>px_buffer := px_buffer pr @ [ch]\<rparr>"

definition PrintSpace :: "int \<Rightarrow> xml_printer \<Rightarrow> xml_printer" where
  "PrintSpace depth pr = (Write ''    '' ^^ nat depth) pr"

text \<open>A character of a string: itself, or the name of its entity.\<close>

definition print_char :: "bool \<Rightarrow> char \<Rightarrow> string" where
  "print_char restricted q =
     (if 0 < (of_char q :: nat) \<and> (of_char q :: nat) < ENTITY_RANGE \<and>
         (if restricted then restrictedEntityFlag q else entityFlag q)
      then (case find (\<lambda>(_, v). v = q) entities of Some (pattern, _) \<Rightarrow> ''&'' @ pattern @ '';'' | None \<Rightarrow> [])
      else [q])"

definition PrintString :: "string \<Rightarrow> bool \<Rightarrow> xml_printer \<Rightarrow> xml_printer" where
  "PrintString p restricted pr =
     (if px_processEntities pr then pr\<lparr>px_buffer := px_buffer pr @ concat (map (print_char restricted) (c_str p))\<rparr>
      else Write p pr)"

definition SealElementIfJustOpened :: "xml_printer \<Rightarrow> xml_printer" where
  "SealElementIfJustOpened pr =
     (if px_elementJustOpened pr then Putc CHR ''>'' (pr\<lparr>px_elementJustOpened := False\<rparr>) else pr)"

definition OpenElement :: "string \<Rightarrow> bool \<Rightarrow> xml_printer \<Rightarrow> xml_printer" where
  "OpenElement name compactMode pr =
     (let p1 = SealElementIfJustOpened pr;
          p2 = p1\<lparr>px_stack := name # px_stack p1\<rparr>;
          p3 = (if px_textDepth p2 < 0 \<and> \<not> px_firstElement p2 \<and> \<not> compactMode then Putc CHR 0x0A p2 else p2);
          p4 = (if compactMode then p3 else PrintSpace (px_depth p3) p3);
          p5 = Write name (Write ''<'' p4)
      in p5\<lparr>px_elementJustOpened := True, px_firstElement := False, px_depth := px_depth p5 + 1\<rparr>)"

definition PushAttribute :: "string \<times> string \<Rightarrow> xml_printer \<Rightarrow> xml_printer" where
  "PushAttribute a pr =
     Putc CHR 0x22 (PrintString (snd a) False (Write (CHR ''='' # [CHR 0x22]) (Write (fst a) (Putc CHR '' '' pr))))"

definition CloseElement :: "bool \<Rightarrow> xml_printer \<Rightarrow> xml_printer" where
  "CloseElement compactMode pr =
     (let p1 = pr\<lparr>px_depth := px_depth pr - 1\<rparr>;
          name = hd (px_stack p1);
          p2 = p1\<lparr>px_stack := tl (px_stack p1)\<rparr>;
          p3 = (if px_elementJustOpened p2 then Write ''/>'' p2
                else let p = (if px_textDepth p2 < 0 \<and> \<not> compactMode
                              then PrintSpace (px_depth p2) (Putc CHR 0x0A p2) else p2)
                     in Write ''>'' (Write name (Write ''</'' p)));
          p4 = (if px_textDepth p3 = px_depth p3 then p3\<lparr>px_textDepth := -1\<rparr> else p3);
          p5 = (if px_depth p4 = 0 \<and> \<not> compactMode then Putc CHR 0x0A p4 else p4)
      in p5\<lparr>px_elementJustOpened := False\<rparr>)"

definition PushText :: "string \<Rightarrow> bool \<Rightarrow> xml_printer \<Rightarrow> xml_printer" where
  "PushText t cdata pr =
     (let p1 = SealElementIfJustOpened (pr\<lparr>px_textDepth := px_depth pr - 1\<rparr>)
      in if cdata then Write '']]>'' (Write t (Write ''<![CDATA['' p1)) else PrintString t True p1)"

text \<open>What comments, declarations and unknowns start with.\<close>

definition push_line :: "xml_printer \<Rightarrow> xml_printer" where
  "push_line pr =
     (let p1 = SealElementIfJustOpened pr;
          p2 = (if px_textDepth p1 < 0 \<and> \<not> px_firstElement p1 \<and> \<not> px_compactMode p1
                then PrintSpace (px_depth p1) (Putc CHR 0x0A p1) else p1)
      in p2\<lparr>px_firstElement := False\<rparr>)"

definition PushComment :: "string \<Rightarrow> xml_printer \<Rightarrow> xml_printer" where
  "PushComment comment pr = Write ''-->'' (Write comment (Write ''<!--'' (push_line pr)))"

definition PushDeclaration :: "string \<Rightarrow> xml_printer \<Rightarrow> xml_printer" where
  "PushDeclaration v pr = Write ''?>'' (Write v (Write ''<?'' (push_line pr)))"

definition PushUnknown :: "string \<Rightarrow> xml_printer \<Rightarrow> xml_printer" where
  "PushUnknown v pr = Putc CHR ''>'' (Write v (Write ''<!'' (push_line pr)))"

definition PushHeader :: "bool \<Rightarrow> bool \<Rightarrow> xml_printer \<Rightarrow> xml_printer" where
  "PushHeader writeBOM writeDec pr =
     (let p1 = (if writeBOM then Write TIXML_UTF_LEAD pr else pr)
      in if writeDec then PushDeclaration (''xml version='' @ [CHR 0x22] @ ''1.0'' @ [CHR 0x22]) p1 else p1)"

section \<open>The visit\<close>

fun XMLNode_Accept :: "xml \<Rightarrow> xml_printer \<Rightarrow> xml_printer" where
  "XMLNode_Accept (Xml_Element name attributes children) pr =
     (let p1 = fold PushAttribute attributes (OpenElement name (px_compactMode pr) pr);
          p2 = fold XMLNode_Accept children p1
      in CloseElement (px_compactMode p2) p2)"
| "XMLNode_Accept (Xml_Text t cdata) pr = PushText t cdata pr"
| "XMLNode_Accept (Xml_Comment v) pr = PushComment v pr"
| "XMLNode_Accept (Xml_Declaration v) pr = PushDeclaration v pr"
| "XMLNode_Accept (Xml_Unknown v) pr = PushUnknown v pr"

text \<open>A document processes entities.\<close>

definition XMLDocument_Accept :: "xml_document \<Rightarrow> xml_printer \<Rightarrow> xml_printer" where
  "XMLDocument_Accept doc pr =
     (let p1 = pr\<lparr>px_processEntities := True\<rparr>
      in fold XMLNode_Accept (xd_children doc) (if xd_writeBOM doc then PushHeader True False p1 else p1))"

text \<open>The text of a document, by a printer of its own.\<close>

definition XMLDocument_text :: "xml_document \<Rightarrow> string" where
  "XMLDocument_text doc = c_str (px_buffer (XMLDocument_Accept doc (XMLPrinter_new False 0)))"

end
