(* ===== verification/Xml_Syntax.thy ===== *)
theory Xml_Syntax
  imports Xml_Print
begin

text \<open>
  The texts of nodes the parser of tinyxml2 reads back to those nodes: tags, attributes in double quotes,
  escaped texts and white space between nodes, and what the parser does on them.
\<close>

section \<open>Reading a string up to its end\<close>

lemma ParseText_char: "c \<notin> set v \<Longrightarrow> ParseText [c] (v @ c # r) = Some (v, r)"
  by (induction v) auto

lemma ParseText_tag:
  assumes "tag \<noteq> []" and "last tag \<notin> set (butlast tag)" and "\<not> sublist tag v"
  shows "ParseText tag (v @ tag @ r) = Some (v, r)"
  using assms(3)
proof (induction v)
  case Nil
  obtain t ts where "tag = t # ts" using assms(1) by (cases tag) auto
  then show ?case by simp
next
  case (Cons c v)
  have "take (length tag) (c # v @ tag @ r) \<noteq> tag"
  proof
    assume a: "take (length tag) (c # v @ tag @ r) = tag"
    show False
    proof (cases "length tag \<le> length (c # v)")
      case True
      then have "tag = take (length tag) (c # v)" using a by (simp flip: append_Cons)
      then have "sublist tag (c # v)" by (metis sublist_take)
      with Cons.prems show False by simp
    next
      case False
      define k where "k = length tag - length (c # v)"
      have k: "0 < k" "k < length tag" using False by (auto simp: k_def)
      have tag: "tag = (c # v) @ take k tag" using a False k by (simp add: k_def flip: append_Cons)
      have "take k tag \<noteq> []" using k by auto
      then have "last tag = last (take k tag)" using tag by (metis last_appendR)
      also have "\<dots> = tag ! (k - 1)" using k \<open>take k tag \<noteq> []\<close> by (simp add: last_conv_nth min_def)
      also have "\<dots> = butlast tag ! (k - 1)" using k by (simp add: nth_butlast)
      also have "\<dots> \<in> set (butlast tag)" using k by (intro nth_mem) simp
      finally show False using assms(2) by simp
    qed
  qed
  moreover have "\<not> sublist tag v" using Cons.prems by (auto simp: sublist_Cons_right)
  ultimately show ?case using Cons.IH by simp
qed

section \<open>Escaped strings\<close>

abbreviation escaped :: "bool \<Rightarrow> string \<Rightarrow> string" where
  "escaped restricted v \<equiv> concat (map (print_char restricted) v)"

definition chars_ok :: "string \<Rightarrow> bool" where
  "chars_ok t \<longleftrightarrow> CHR 0x00 \<notin> set t \<and> xml_CR \<notin> set t"

lemma print_char_cases:
  "print_char restricted c = [c] \<and> c \<noteq> CHR ''&'' \<and> c \<noteq> CHR ''<'' \<and> (\<not> restricted \<longrightarrow> c \<noteq> CHR 0x22)
   \<or> (\<exists>pattern. (pattern, c) \<in> set entities \<and> print_char restricted c = ''&'' @ pattern @ '';'')"
proof (cases "c \<in> snd ` set entities")
  case True
  then have "c = CHR 0x22 \<or> c = CHR ''&'' \<or> c = CHR 0x27 \<or> c = CHR ''<'' \<or> c = CHR ''>''" by (auto simp: entities_def)
  then show ?thesis
    by (elim disjE) (cases restricted; simp add: print_char_def entities_def entityFlag_def restrictedEntityFlag_def ENTITY_RANGE_def)+
next
  case False
  then have "c \<noteq> CHR 0x22" "c \<noteq> CHR ''&''" "c \<noteq> CHR 0x27" "c \<noteq> CHR ''<''" "c \<noteq> CHR ''>''" by (auto simp: entities_def)
  then show ?thesis by (simp add: print_char_def entityFlag_def restrictedEntityFlag_def entities_def)
qed

lemma entity_chars: "(pattern, c) \<in> set entities \<Longrightarrow> d \<in> set pattern \<Longrightarrow> d \<in> set ''quotampslg''"
  by (auto simp: entities_def)

lemma escaped_chars:
  assumes "d \<in> set (escaped restricted v)"
  shows "d \<in> set v \<and> d \<noteq> CHR ''<'' \<and> (\<not> restricted \<longrightarrow> d \<noteq> CHR 0x22) \<or> d \<in> set ''&quotampslg;''"
proof -
  obtain c where c: "c \<in> set v" "d \<in> set (print_char restricted c)" using assms by auto
  from print_char_cases [of restricted c] show ?thesis
  proof
    assume "print_char restricted c = [c] \<and> c \<noteq> CHR ''&'' \<and> c \<noteq> CHR ''<'' \<and> (\<not> restricted \<longrightarrow> c \<noteq> CHR 0x22)"
    with c show ?thesis by auto
  next
    assume "\<exists>pattern. (pattern, c) \<in> set entities \<and> print_char restricted c = ''&'' @ pattern @ '';''"
    with c(2) show ?thesis using entity_chars by fastforce
  qed
qed

lemma entity_read:
  assumes "(pattern, c) \<in> set entities"
  shows "take 1 (pattern @ '';'' @ p) \<noteq> ''#'' \<and> entity_at (pattern @ '';'' @ p) = Some (pattern, c)"
proof -
  have "(pattern, c) \<in> {(''quot'', CHR 0x22), (''amp'', CHR ''&''), (''apos'', CHR 0x27), (''lt'', CHR ''<''), (''gt'', CHR ''>'')}"
    using assms by (simp add: entities_def)
  then show ?thesis unfolding insert_iff by (elim disjE) (simp_all add: entities_def entity_at_def)
qed

lemma take_one_ne: "x \<notin> set xs \<Longrightarrow> take 1 xs \<noteq> [x]"
  by (cases xs) auto

lemma GetStr_escaped:
  assumes "NEEDS_ENTITY_PROCESSING flags" and "xml_CR \<notin> set v"
  shows "GetStr_loop flags buffer out (escaped restricted v) = out @ v"
  using assms(2)
proof (induction v arbitrary: out)
  case (Cons c v)
  have no_cr: "take 1 (escaped restricted v) \<noteq> [xml_CR]"
    using escaped_chars [of xml_CR restricted v] Cons.prems by (intro take_one_ne) (auto simp: xml_CR_def simp del: set_concat)
  from print_char_cases [of restricted c] show ?case
  proof
    assume c: "print_char restricted c = [c] \<and> c \<noteq> CHR ''&'' \<and> c \<noteq> CHR ''<'' \<and> (\<not> restricted \<longrightarrow> c \<noteq> CHR 0x22)"
    then show ?thesis using Cons no_cr by (cases "c = xml_LF") auto
  next
    assume "\<exists>pattern. (pattern, c) \<in> set entities \<and> print_char restricted c = ''&'' @ pattern @ '';''"
    then obtain pattern where p: "(pattern, c) \<in> set entities" "print_char restricted c = ''&'' @ pattern @ '';''" by blast
    have "CHR ''&'' \<noteq> xml_CR" "CHR ''&'' \<noteq> xml_LF" by (simp_all add: xml_CR_def xml_LF_def)
    then show ?thesis
      using Cons entity_read [OF p(1), of "escaped restricted v"] assms(1) by (simp add: p(2))
  qed
qed simp

lemma GetStr_verbatim:
  assumes "\<not> NEEDS_ENTITY_PROCESSING flags" and "xml_CR \<notin> set v"
  shows "GetStr_loop flags buffer out v = out @ v"
  using assms(2)
proof (induction v arbitrary: out)
  case (Cons c v)
  have "take 1 v \<noteq> [xml_CR]" using Cons.prems by (cases v) auto
  then show ?case using Cons assms(1) by (cases "c = xml_LF") auto
qed simp

lemma read_escaped:
  assumes "chars_ok v"
  shows "StrPair_GetStr TEXT_ELEMENT (escaped r v) = v" "StrPair_GetStr ATTRIBUTE_VALUE (escaped r v) = v"
    "StrPair_GetStr COMMENT v = v"
  using assms by (simp_all add: chars_ok_def StrPair_GetStr_def GetStr_escaped GetStr_verbatim TEXT_ELEMENT_def
      ATTRIBUTE_VALUE_def COMMENT_def)

section \<open>Names and attributes\<close>

definition name_ok :: "string \<Rightarrow> bool" where
  "name_ok n \<longleftrightarrow> n \<noteq> [] \<and> IsNameStartChar (hd n) \<and> list_all IsNameChar n"

definition attr_text :: "string \<times> string \<Rightarrow> string" where
  "attr_text a = CHR '' '' # fst a @ CHR ''='' # CHR 0x22 # escaped False (snd a) @ [CHR 0x22]"

definition attr_ok :: "string \<times> string \<Rightarrow> bool" where
  "attr_ok a \<longleftrightarrow> name_ok (fst a) \<and> chars_ok (snd a)"

lemma start_not_space: "IsNameStartChar c \<Longrightarrow> \<not> IsWhiteSpace c"
proof -
  assume c: "IsNameStartChar c"
  show ?thesis
  proof (cases "128 \<le> (of_char c :: nat)")
    case True
    have "(of_char c :: nat) < 256" using unat_lt2p_byte [of "byte_of c"] by (simp add: unat_byte_of)
    with True show ?thesis by (auto simp: IsWhiteSpace_def isspace_def)
  next
    case False
    then have "\<not> isspace c" using c by (auto simp: IsNameStartChar_def isalpha_def isspace_def)
    then show ?thesis by (simp add: IsWhiteSpace_def)
  qed
qed

lemma name_chars [simp]:
  "\<not> IsNameChar CHR '' ''" "\<not> IsNameChar CHR ''=''" "\<not> IsNameChar CHR ''>''" "\<not> IsNameChar CHR ''/''" "\<not> IsNameChar CHR 0x00"
  "\<not> IsNameStartChar CHR ''>''" "\<not> IsNameStartChar CHR ''/''" "\<not> IsNameStartChar CHR ''!''" "\<not> IsNameStartChar CHR ''?''"
  "\<not> IsWhiteSpace CHR ''=''" "\<not> IsWhiteSpace CHR ''>''" "\<not> IsWhiteSpace CHR ''/''" "\<not> IsWhiteSpace CHR ''<''"
  "\<not> IsWhiteSpace CHR 0x22" "IsWhiteSpace CHR '' ''" "IsWhiteSpace CHR 0x0A"
  by (simp_all add: IsNameChar_def IsNameStartChar_def isalpha_def isdigit_def IsWhiteSpace_def isspace_def
      IsUTF8Continuation_def byte_of_def)

lemma ParseName_name:
  assumes "name_ok n" and "\<not> IsNameChar c"
  shows "ParseName (n @ c # r) = Some (n, c # r)"
proof -
  obtain x xs where n: "n = x # xs" using assms(1) by (cases n) (auto simp: name_ok_def)
  have "\<forall>y \<in> set xs. IsNameChar y" using assms(1) by (auto simp: name_ok_def n list_all_iff)
  then have "takeWhile IsNameChar (xs @ c # r) = xs" "dropWhile IsNameChar (xs @ c # r) = c # r"
    using assms(2) by (simp_all add: takeWhile_append2 dropWhile_append2)
  then show ?thesis using assms(1) by (simp add: n ParseName_def name_ok_def)
qed

lemma name_no_space: "name_ok n \<Longrightarrow> SkipWhiteSpace (n @ r) = n @ r"
  by (cases n) (auto simp: name_ok_def SkipWhiteSpace_def start_not_space)

lemma ParseDeep_attr:
  assumes "attr_ok a"
  shows "XMLAttribute_ParseDeep (fst a @ CHR ''='' # CHR 0x22 # escaped False (snd a) @ CHR 0x22 # r) = Some (a, r)"
proof -
  have "CHR 0x22 \<notin> set (escaped False (snd a))" using escaped_chars [of "CHR 0x22" False "snd a"] by auto
  then have "ParseText [CHR 0x22] (escaped False (snd a) @ CHR 0x22 # r) = Some (escaped False (snd a), r)"
    by (rule ParseText_char)
  then show ?thesis
    using assms by (cases a) (simp add: attr_ok_def XMLAttribute_ParseDeep_def ParseName_name SkipWhiteSpace_def read_escaped)
qed

lemma ParseAttributes_texts:
  assumes "list_all attr_ok as" and "distinct (map fst (done_as @ as))"
  shows "ParseAttributes done_as cl (concat (map attr_text as) @ r) = ParseAttributes (done_as @ as) cl r"
  using assms
proof (induction as arbitrary: done_as)
  case (Cons a as)
  have ok: "attr_ok a" "name_ok (fst a)" using Cons.prems by (auto simp: attr_ok_def)
  then obtain c n where n: "fst a = c # n" "IsNameStartChar c" by (cases "fst a") (auto simp: name_ok_def)
  have skip: "SkipWhiteSpace (concat (map attr_text (a # as)) @ r) =
      c # n @ CHR ''='' # CHR 0x22 # escaped False (snd a) @ CHR 0x22 # concat (map attr_text as) @ r"
    using n by (simp add: attr_text_def SkipWhiteSpace_def start_not_space)
  have new: "fst a \<notin> fst ` set done_as" using Cons.prems(2) by auto
  show ?case
    using Cons.IH [of "done_as @ [a]"] Cons.prems n(2) new ParseDeep_attr [OF ok(1), of "concat (map attr_text as) @ r"]
    by (simp add: ParseAttributes.simps [of done_as cl "concat (map attr_text (a # as)) @ r"] skip n(1)
        del: concat.simps list.map)
qed simp

lemma ParseAttributes_end:
  "ParseAttributes as cl (CHR ''>'' # r) = Inr (as, cl, r)"
  "ParseAttributes as cl (CHR ''/'' # CHR ''>'' # r) = Inr (as, CLOSED, r)"
  by (simp_all add: ParseAttributes.simps [of as] SkipWhiteSpace_def)

lemma attr_texts_start: "as \<noteq> [] \<Longrightarrow> \<exists>t. concat (map attr_text as) = CHR '' '' # t"
  by (cases as) (auto simp: attr_text_def)

text \<open>Behind a bracket: the tag that opens an element, the one that is all of it, and the one that ends it.\<close>

lemma element_head_tag:
  assumes "name_ok n" and "list_all attr_ok as" and "distinct (map fst as)"
  shows "element_head (n @ concat (map attr_text as) @ CHR ''>'' # r) = Inr (n, as, OPEN, r)"
    "element_head (n @ concat (map attr_text as) @ CHR ''/'' # CHR ''>'' # r) = Inr (n, as, CLOSED, r)"
    "element_head (CHR ''/'' # n @ CHR ''>'' # r) = Inr (n, [], CLOSING, r)"
proof -
  have start: "take 1 (n @ s) \<noteq> ''/''" for s using assms(1) by (cases n) (auto simp: name_ok_def)
  have name: "\<exists>c q. concat (map attr_text as) @ x # s = c # q \<and> \<not> IsNameChar c" if "\<not> IsNameChar x" for x s
    using attr_texts_start [of as] that by (cases "as = []") auto
  have "element_head (n @ concat (map attr_text as) @ x # s) =
      (case ParseAttributes as OPEN (x # s) of
         Inl e \<Rightarrow> Inl (Some e) | Inr (attributes, closing', p3) \<Rightarrow> Inr (n, attributes, closing', p3))"
    if x: "\<not> IsNameChar x" for x s
  proof -
    obtain c q where c: "concat (map attr_text as) @ x # s = c # q" "\<not> IsNameChar c" using name [OF x] by blast
    then have "ParseName (n @ concat (map attr_text as) @ x # s) = Some (n, concat (map attr_text as) @ x # s)"
      using ParseName_name [OF assms(1) c(2), of q] by simp
    then show ?thesis
      using ParseAttributes_texts [of as "[]" OPEN "x # s"] assms start [of "concat (map attr_text as) @ x # s"]
      by (simp add: element_head_def name_no_space Let_def del: take_append One_nat_def)
  qed
  then show "element_head (n @ concat (map attr_text as) @ CHR ''>'' # r) = Inr (n, as, OPEN, r)"
    "element_head (n @ concat (map attr_text as) @ CHR ''/'' # CHR ''>'' # r) = Inr (n, as, CLOSED, r)"
    by (simp_all add: ParseAttributes_end)
  show "element_head (CHR ''/'' # n @ CHR ''>'' # r) = Inr (n, [], CLOSING, r)"
    using assms(1) by (simp add: element_head_def SkipWhiteSpace_def ParseName_name ParseAttributes_end)
qed

section \<open>Nodes\<close>

fun plain_text :: "xml \<Rightarrow> bool" where
  "plain_text (Xml_Text _ cdata) = (\<not> cdata)"
| "plain_text _ = False"

text \<open>
  The texts of a node read at a depth, and of the children of a level with the white space between them.
  A text that is no CDATA section takes all white space around it, and ends with the next bracket.
\<close>

inductive node_text :: "nat \<Rightarrow> xml \<Rightarrow> string \<Rightarrow> bool"
  and nodes_text :: "nat \<Rightarrow> xml list \<Rightarrow> string \<Rightarrow> bool" where
  sealed: "name_ok n \<Longrightarrow> list_all attr_ok as \<Longrightarrow> distinct (map fst as) \<Longrightarrow>
    node_text d (Xml_Element n as []) (CHR ''<'' # n @ concat (map attr_text as) @ ''/>'')"
| element: "name_ok n \<Longrightarrow> list_all attr_ok as \<Longrightarrow> distinct (map fst as) \<Longrightarrow> Suc d < TINYXML2_MAX_ELEMENT_DEPTH \<Longrightarrow>
    list_all (\<lambda>x. \<not> is_declaration x) cs \<Longrightarrow> nodes_text (Suc d) cs b \<Longrightarrow>
    node_text d (Xml_Element n as cs) (CHR ''<'' # n @ concat (map attr_text as) @ CHR ''>'' # b @ ''</'' @ n @ ''>'')"
| cdata: "chars_ok t \<Longrightarrow> \<not> sublist '']]>'' t \<Longrightarrow> node_text d (Xml_Text t True) (''<![CDATA['' @ t @ '']]>'')"
| plain: "chars_ok t \<Longrightarrow> \<not> list_all IsWhiteSpace t \<Longrightarrow> node_text d (Xml_Text t False) (escaped True t)"
| comment: "chars_ok t \<Longrightarrow> \<not> sublist ''-->'' t \<Longrightarrow> node_text d (Xml_Comment t) (''<!--'' @ t @ ''-->'')"
| decl: "chars_ok t \<Longrightarrow> \<not> sublist ''?>'' t \<Longrightarrow> node_text d (Xml_Declaration t) (''<?'' @ t @ ''?>'')"
| unknown: "chars_ok t \<Longrightarrow> CHR ''>'' \<notin> set t \<Longrightarrow> take 2 t \<noteq> ''--'' \<Longrightarrow> take 7 t \<noteq> ''[CDATA['' \<Longrightarrow>
    node_text d (Xml_Unknown t) (''<!'' @ t @ ''>'')"
| last_space: "list_all IsWhiteSpace w \<Longrightarrow> nodes_text d [] w"
| next_node: "list_all IsWhiteSpace w \<Longrightarrow> node_text d x s \<Longrightarrow> nodes_text d xs r \<Longrightarrow>
    (plain_text x \<Longrightarrow> w = [] \<and> (if xs = [] then r = [] else take 1 r = ''<'')) \<Longrightarrow> nodes_text d (x # xs) (w @ s @ r)"

lemma skip_to: "list_all IsWhiteSpace w \<Longrightarrow> \<not> IsWhiteSpace c \<Longrightarrow> SkipWhiteSpace (w @ c # p) = c # p"
  by (simp add: SkipWhiteSpace_def list_all_iff dropWhile_append2)

lemma Identify_bracket:
  assumes "list_all IsWhiteSpace w"
  shows "Identify (w @ ''<?'' @ p) = Some (Declaration_Node, p)"
    "Identify (w @ ''<!--'' @ p) = Some (Comment_Node, p)"
    "Identify (w @ ''<![CDATA['' @ p) = Some (CData_Node, p)"
    "take 2 p \<noteq> ''--'' \<Longrightarrow> take 7 p \<noteq> ''[CDATA['' \<Longrightarrow> Identify (w @ ''<!'' @ p) = Some (Unknown_Node, p)"
    "take 1 p \<noteq> ''!'' \<Longrightarrow> take 1 p \<noteq> ''?'' \<Longrightarrow> Identify (w @ CHR ''<'' # p) = Some (Element_Node, p)"
proof -
  note skip = skip_to [OF assms name_chars(13)]
  show "Identify (w @ ''<?'' @ p) = Some (Declaration_Node, p)" by (simp add: Identify_def skip)
  show "Identify (w @ ''<!--'' @ p) = Some (Comment_Node, p)" by (simp add: Identify_def skip)
  show "Identify (w @ ''<![CDATA['' @ p) = Some (CData_Node, p)" by (simp add: Identify_def skip)
  show "Identify (w @ ''<!'' @ p) = Some (Unknown_Node, p)" if "take 2 p \<noteq> ''--''" "take 7 p \<noteq> ''[CDATA[''"
    using that by (simp add: Identify_def skip)
  show "Identify (w @ CHR ''<'' # p) = Some (Element_Node, p)" if "take 1 p \<noteq> ''!''" "take 1 p \<noteq> ''?''"
    using that by (cases p) (simp_all add: Identify_def skip)
qed

lemma Identify_tag: "list_all IsWhiteSpace w \<Longrightarrow> name_ok n \<Longrightarrow> Identify (w @ CHR ''<'' # n @ p) = Some (Element_Node, n @ p)"
  by (rule Identify_bracket(5)) (cases n; auto simp: name_ok_def)+

text \<open>An escaped text that is not only white space is a text to \<open>Identify\<close>.\<close>

lemma Identify_plain:
  assumes "\<not> list_all IsWhiteSpace t"
  shows "Identify (escaped True t @ CHR ''<'' # r) = Some (Text_Node, escaped True t @ CHR ''<'' # r)"
proof -
  have "\<exists>x \<in> set t. \<not> IsWhiteSpace x" using assms by (simp add: list_all_iff)
  then obtain w c q where t: "t = w @ c # q" "list_all IsWhiteSpace w" "\<not> IsWhiteSpace c"
    using split_list_first_prop [of t "\<lambda>x. \<not> IsWhiteSpace x"] by (auto simp: list_all_iff)
  have w: "escaped True w = w"
    using t(2)
  proof (induction w)
    case (Cons x w)
    have "x \<noteq> CHR ''&''" "x \<noteq> CHR ''<''" "x \<noteq> CHR ''>''"
      using Cons.prems by (auto simp: IsWhiteSpace_def isspace_def)
    then have "print_char True x = [x]" by (simp add: print_char_def restrictedEntityFlag_def)
    with Cons show ?case by simp
  qed simp
  have "\<not> IsWhiteSpace CHR ''&''" by (simp add: IsWhiteSpace_def isspace_def)
  then have "\<exists>x s. print_char True c = x # s \<and> x \<noteq> CHR ''<'' \<and> \<not> IsWhiteSpace x"
    using print_char_cases [of True c] t(3) by fastforce
  then obtain x s where x: "print_char True c = x # s" "x \<noteq> CHR ''<''" "\<not> IsWhiteSpace x" by blast
  then show ?thesis
    by (simp add: Identify_def t(1) w skip_to [OF t(2)])
qed

section \<open>What the parser does on them\<close>

lemma node_step:
  assumes "Identify p = Some (k, p1)" and "k \<noteq> Element_Node" and "leaf_ParseDeep k p1 = Inr (x, p2)"
    and "is_declaration x \<Longrightarrow> well_located is_doc cs"
  shows "XMLNode_ParseDeep d is_doc cs p = XMLNode_ParseDeep d is_doc (cs @ [x]) p2"
  using assms by (auto simp: XMLNode_ParseDeep.simps [of d is_doc cs p])

lemma element_step:
  assumes "Identify p = Some (Element_Node, p1)" and "XMLElement_ParseDeep d p1 = Inr (x, closing, end_tag, p2)"
    and "closing \<noteq> CLOSING" and "\<not> mismatched closing end_tag (xml_name x)"
  shows "XMLNode_ParseDeep d is_doc cs p = XMLNode_ParseDeep d is_doc (cs @ [x]) p2"
  using assms by (simp add: XMLNode_ParseDeep.simps [of d is_doc cs p])

lemma end_tag_step:
  assumes "list_all IsWhiteSpace w" and "name_ok n"
  shows "XMLNode_ParseDeep d False cs (w @ ''</'' @ n @ CHR ''>'' # r) = Level cs (Some n) (Some r) None"
proof -
  have "Identify (w @ CHR ''<'' # CHR ''/'' # n @ CHR ''>'' # r) = Some (Element_Node, CHR ''/'' # n @ CHR ''>'' # r)"
    by (rule Identify_bracket(5) [OF assms(1)]) simp_all
  moreover have "XMLElement_ParseDeep d (CHR ''/'' # n @ CHR ''>'' # r) = Inr (Xml_Element n [] [], CLOSING, None, r)"
    using element_head_tag(3) [OF assms(2), of "[]"] by (simp add: XMLElement_ParseDeep.simps)
  ultimately show ?thesis by (simp add: XMLNode_ParseDeep.simps [of d False cs "w @ CHR ''<'' # _"])
qed

lemma take_before:
  assumes "length tag = k" and "c \<notin> set tag" and "take k (t @ c # r) = tag"
  shows "take k t = tag"
proof (cases "k \<le> length t")
  case False
  then have "(take k (t @ c # r)) ! length t = c" by (simp add: nth_append)
  moreover have "length t < length tag" using False assms(1) by simp
  ultimately show ?thesis using assms(2,3) by (metis nth_mem)
qed (use assms(3) in simp)

lemma PushDepth_below: "Suc d < TINYXML2_MAX_ELEMENT_DEPTH \<Longrightarrow> PushDepth d = Some (Suc d)"
  by (simp add: PushDepth_def)

lemma nodes_read:
  "node_text d x s \<Longrightarrow> list_all IsWhiteSpace w \<Longrightarrow> (plain_text x \<Longrightarrow> w = [] \<and> (\<exists>q. q \<noteq> [] \<and> r = CHR ''<'' # q)) \<Longrightarrow>
     (is_declaration x \<Longrightarrow> well_located is_doc cs) \<Longrightarrow>
     XMLNode_ParseDeep d is_doc cs (w @ s @ r) = XMLNode_ParseDeep d is_doc (cs @ [x]) r"
  "nodes_text d xs b \<Longrightarrow> list_all (\<lambda>x. \<not> is_declaration x) xs \<Longrightarrow> name_ok n \<Longrightarrow>
     XMLNode_ParseDeep d False cs (b @ ''</'' @ n @ CHR ''>'' # r) = Level (cs @ xs) (Some n) (Some r) None"
proof (induction arbitrary: w r is_doc cs and cs n r rule: node_text_nodes_text.inducts)
  case (sealed n as d)
  have "XMLElement_ParseDeep d (n @ concat (map attr_text as) @ CHR ''/'' # CHR ''>'' # r) =
      Inr (Xml_Element n as [], CLOSED, None, r)"
    using element_head_tag(2) [OF sealed.hyps(1-3), of r] by (simp add: XMLElement_ParseDeep.simps)
  with Identify_tag [OF sealed.prems(1) sealed.hyps(1), of "concat (map attr_text as) @ CHR ''/'' # CHR ''>'' # r"]
  show ?case by (simp add: element_step mismatched_def)
next
  case (element n as d cs' b)
  let ?p = "b @ ''</'' @ n @ CHR ''>'' # r"
  have "XMLElement_ParseDeep d (n @ concat (map attr_text as) @ CHR ''>'' # ?p) =
      Inr (Xml_Element n as cs', OPEN, Some n, r)"
    using element_head_tag(1) [OF element.hyps(1-3), of ?p] PushDepth_below [OF element.hyps(4)]
      element.IH [OF element.hyps(5,1), of "[]" r]
    by (simp add: XMLElement_ParseDeep.simps)
  with Identify_tag [OF element.prems(1) element.hyps(1), of "concat (map attr_text as) @ CHR ''>'' # ?p"]
  show ?case by (simp add: element_step mismatched_def)
next
  case (cdata t d)
  have "ParseText '']]>'' (t @ '']]>'' @ r) = Some (t, r)" using cdata.hyps by (intro ParseText_tag) auto
  with Identify_bracket(3) [OF cdata.prems(1), of "t @ '']]>'' @ r"] show ?case
    using cdata.hyps by (auto intro!: node_step simp: XMLText_ParseDeep_def parse_leaf_def read_escaped)
next
  case (plain t d)
  then obtain q where r: "w = []" "r = CHR ''<'' # q" "q \<noteq> []" by auto
  have "CHR ''<'' \<notin> set (escaped True t)" using escaped_chars [of "CHR ''<''" True t] by auto
  then have "ParseText ''<'' (escaped True t @ CHR ''<'' # q) = Some (escaped True t, q)" by (rule ParseText_char)
  with Identify_plain [OF plain.hyps(2), of q] show ?case
    using plain.hyps r by (auto intro!: node_step simp: XMLText_ParseDeep_def read_escaped)
next
  case (comment t d)
  have "ParseText ''-->'' (t @ ''-->'' @ r) = Some (t, r)" using comment.hyps by (intro ParseText_tag) auto
  with Identify_bracket(2) [OF comment.prems(1), of "t @ ''-->'' @ r"] show ?case
    using comment.hyps by (auto intro!: node_step simp: XMLComment_ParseDeep_def parse_leaf_def read_escaped)
next
  case (decl t d)
  have "ParseText ''?>'' (t @ ''?>'' @ r) = Some (t, r)" using decl.hyps by (intro ParseText_tag) auto
  with Identify_bracket(1) [OF decl.prems(1), of "t @ ''?>'' @ r"] show ?case
    using decl by (auto intro!: node_step simp: XMLDeclaration_ParseDeep_def parse_leaf_def read_escaped)
next
  case (unknown t d)
  have "ParseText ''>'' (t @ CHR ''>'' # r) = Some (t, r)" using unknown.hyps by (intro ParseText_char) auto
  moreover have "Identify (w @ ''<!'' @ t @ CHR ''>'' # r) = Some (Unknown_Node, t @ CHR ''>'' # r)"
    using unknown.hyps take_before [of "''--''" 2 "CHR ''>''" t r] take_before [of "''[CDATA[''" 7 "CHR ''>''" t r]
    by (intro Identify_bracket(4) [OF unknown.prems(1)]) auto
  ultimately show ?case
    using unknown.hyps by (auto intro!: node_step simp: XMLUnknown_ParseDeep_def parse_leaf_def read_escaped)
next
  case (last_space w d)
  then show ?case using end_tag_step by simp
next
  case (next_node w d x s xs r')
  have "XMLNode_ParseDeep d False cs (w @ s @ r' @ ''</'' @ n @ CHR ''>'' # r) =
      XMLNode_ParseDeep d False (cs @ [x]) (r' @ ''</'' @ n @ CHR ''>'' # r)"
  proof (rule next_node.IH(1) [OF next_node.hyps(1)])
    show "w = [] \<and> (\<exists>q. q \<noteq> [] \<and> r' @ ''</'' @ n @ CHR ''>'' # r = CHR ''<'' # q)" if "plain_text x"
      using next_node.hyps(4) [OF that] by (cases r') (auto split: if_splits)
  qed (use next_node.prems in simp)
  then show ?case using next_node.IH(2) [of n "cs @ [x]" r] next_node.prems by simp
qed

end
