(* ===== verification/Xml_Written.thy ===== *)
theory Xml_Written
  imports Xml_Syntax
begin

text \<open>
  \<open>xauth/tinyxml2\<close>, written and read back: what the printer writes for a document is a text the parser
  reads to that document, for the documents the format can carry.
\<close>

section \<open>Documents that can be carried\<close>

fun is_element :: "xml \<Rightarrow> bool" where
  "is_element (Xml_Element _ _ _) = True"
| "is_element _ = False"

text \<open>
  The printer indents an element behind a text, and the parser takes that for a part of the text; two
  texts become one.
\<close>

fun siblings_ok :: "xml list \<Rightarrow> bool" where
  "siblings_ok [] = True"
| "siblings_ok [x] = True"
| "siblings_ok (x # y # xs) = ((plain_text x \<longrightarrow> \<not> is_element y \<and> \<not> plain_text y) \<and> siblings_ok (y # xs))"

fun xml_ok :: "nat \<Rightarrow> xml \<Rightarrow> bool" where
  "xml_ok d (Xml_Element n as cs) =
     (name_ok n \<and> list_all attr_ok as \<and> distinct (map fst as) \<and> siblings_ok cs \<and>
      (cs \<noteq> [] \<longrightarrow> Suc d < TINYXML2_MAX_ELEMENT_DEPTH) \<and>
      list_all (\<lambda>x. \<not> is_declaration x) cs \<and> list_all (xml_ok (Suc d)) cs)"
| "xml_ok d (Xml_Text t cdata) =
     (chars_ok t \<and> (if cdata then \<not> sublist '']]>'' t else \<not> list_all IsWhiteSpace t))"
| "xml_ok d (Xml_Comment t) = (chars_ok t \<and> \<not> sublist ''-->'' t)"
| "xml_ok d (Xml_Declaration t) = (chars_ok t \<and> \<not> sublist ''?>'' t)"
| "xml_ok d (Xml_Unknown t) =
     (chars_ok t \<and> CHR ''>'' \<notin> set t \<and> take 2 t \<noteq> ''--'' \<and> take 7 t \<noteq> ''[CDATA['')"

definition xml_doc_ok :: "xml list \<Rightarrow> bool" where
  "xml_doc_ok ns \<longleftrightarrow> ns \<noteq> [] \<and> list_all (xml_ok 1) ns \<and> list_all (\<lambda>x. \<not> plain_text x) ns \<and>
     list_all (\<lambda>x. \<not> is_declaration x) (dropWhile is_declaration ns)"

section \<open>What the printer writes\<close>

definition seal :: "xml_printer \<Rightarrow> string" where
  "seal pr = (if px_elementJustOpened pr then ''>'' else [])"

lemma Seal_text: "SealElementIfJustOpened pr = pr\<lparr>px_buffer := px_buffer pr @ seal pr, px_elementJustOpened := False\<rparr>"
  by (simp add: SealElementIfJustOpened_def seal_def Putc_def)

definition indent_spaces :: "int \<Rightarrow> string" where
  "indent_spaces d = replicate (4 * nat d) CHR '' ''"

lemma PrintSpace_text: "PrintSpace d pr = pr\<lparr>px_buffer := px_buffer pr @ indent_spaces d\<rparr>"
proof -
  have "(Write ''    '' ^^ n) pr = pr\<lparr>px_buffer := px_buffer pr @ replicate (4 * n) CHR '' ''\<rparr>" for n
    by (induction n) (simp_all add: Write_def c_str_def replicate_add [symmetric] eval_nat_numeral replicate_app_Cons_same replicate_append_same)
  then show ?thesis by (simp add: PrintSpace_def indent_spaces_def)
qed

lemma indent_spaces_white [simp]: "list_all IsWhiteSpace (indent_spaces d)"
  by (simp add: indent_spaces_def list_all_iff)

lemma name_c_str: "name_ok n \<Longrightarrow> c_str n = n"
  by (rule c_str_no_nul) (auto simp: name_ok_def list_all_iff)

lemma chars_c_str: "chars_ok t \<Longrightarrow> c_str t = t"
  by (simp add: chars_ok_def)

lemma PushAttribute_text:
  assumes "attr_ok a" and "px_processEntities pr"
  shows "PushAttribute a pr = pr\<lparr>px_buffer := px_buffer pr @ attr_text a\<rparr>"
  using assms by (simp add: PushAttribute_def Putc_def Write_def PrintString_def attr_text_def attr_ok_def
      name_c_str chars_c_str c_str_def [of "[_, _]"])

lemma PushAttributes_text:
  "list_all attr_ok as \<Longrightarrow> px_processEntities pr \<Longrightarrow>
   fold PushAttribute as pr = pr\<lparr>px_buffer := px_buffer pr @ concat (map attr_text as)\<rparr>"
  by (induction as arbitrary: pr) (simp_all add: PushAttribute_text)

text \<open>The line a node starts on.\<close>

definition new_line :: "xml_printer \<Rightarrow> string" where
  "new_line pr = (if px_textDepth pr < 0 \<and> \<not> px_firstElement pr then [CHR 0x0A] else [])"

lemma OpenElement_text:
  assumes "name_ok n" and "\<not> px_compactMode pr"
  shows "OpenElement n False pr =
    pr\<lparr>px_buffer := px_buffer pr @ seal pr @ (new_line pr @ indent_spaces (px_depth pr)) @ CHR ''<'' # n,
       px_elementJustOpened := True, px_stack := n # px_stack pr, px_firstElement := False, px_depth := px_depth pr + 1\<rparr>"
  using assms by (simp add: OpenElement_def Seal_text Let_def Putc_def PrintSpace_text Write_def name_c_str new_line_def
      c_str_def [of "''<''"])

lemma push_line_text:
  assumes "\<not> px_compactMode pr"
  shows "push_line pr =
    pr\<lparr>px_buffer := px_buffer pr @ seal pr @ (if new_line pr = [] then [] else new_line pr @ indent_spaces (px_depth pr)),
       px_elementJustOpened := False, px_firstElement := False\<rparr>"
  using assms by (simp add: push_line_def Seal_text Let_def Putc_def PrintSpace_text new_line_def)

lemma new_line_white [simp]: "list_all IsWhiteSpace (new_line pr)"
  by (simp add: new_line_def)

lemma CloseElement_text:
  assumes "name_ok n" and "px_stack pr = n # st"
  shows "CloseElement False pr =
    pr\<lparr>px_buffer := px_buffer pr @
          (if px_elementJustOpened pr then ''/>''
           else (if px_textDepth pr < 0 then CHR 0x0A # indent_spaces (px_depth pr - 1) else []) @ ''</'' @ n @ ''>'') @
          (if px_depth pr = 1 then [CHR 0x0A] else []),
       px_elementJustOpened := False, px_stack := st, px_depth := px_depth pr - 1,
       px_textDepth := (if px_textDepth pr = px_depth pr - 1 then -1 else px_textDepth pr)\<rparr>"
  using assms by (cases pr) (simp add: CloseElement_def Let_def Putc_def PrintSpace_text Write_def name_c_str
      c_str_def [of "''/>''"] c_str_def [of "''</''"] c_str_def [of "''>''"])

text \<open>A node: what is written, up to white space around it, and the printer afterwards.\<close>

definition printer_at :: "nat \<Rightarrow> xml_printer \<Rightarrow> bool" where
  "printer_at d pr \<longleftrightarrow> px_depth pr = int d - 1 \<and> px_processEntities pr \<and> \<not> px_compactMode pr \<and> 1 \<le> d"

definition node_written :: "nat \<Rightarrow> xml \<Rightarrow> xml_printer \<Rightarrow> bool" where
  "node_written d x pr \<longleftrightarrow> (\<exists>w s w' td fe.
     XMLNode_Accept x pr = pr\<lparr>px_buffer := px_buffer pr @ seal pr @ w @ s @ w', px_elementJustOpened := False,
       px_firstElement := fe, px_textDepth := td\<rparr> \<and>
     list_all IsWhiteSpace w \<and> list_all IsWhiteSpace w' \<and> node_text d x s \<and>
     (plain_text x \<longrightarrow> w = [] \<and> w' = [] \<and> (1 < d \<longrightarrow> 0 \<le> td)) \<and> (1 < d \<longrightarrow> w' = []) \<and>
     (new_line pr = [] \<and> (is_element x \<longrightarrow> d = 1) \<longrightarrow> w = []))"

text \<open>The children of a level: a text of them with whatever white space comes behind it.\<close>

definition nodes_written :: "nat \<Rightarrow> xml list \<Rightarrow> xml_printer \<Rightarrow> bool" where
  "nodes_written d cs pr \<longleftrightarrow> (\<exists>b td fe.
     fold XMLNode_Accept cs pr = pr\<lparr>px_buffer := px_buffer pr @ seal pr @ b, px_elementJustOpened := False,
       px_firstElement := fe, px_textDepth := td\<rparr> \<and>
     (\<forall>w. list_all IsWhiteSpace w \<longrightarrow> (plain_text (last cs) \<longrightarrow> w = []) \<longrightarrow> nodes_text d cs (b @ w)) \<and>
     (plain_text (last cs) \<longrightarrow> 1 < d \<longrightarrow> 0 \<le> td) \<and>
     (new_line pr = [] \<and> \<not> plain_text (hd cs) \<and> (is_element (hd cs) \<longrightarrow> d = 1) \<longrightarrow> take 1 b = ''<''))"

lemma node_writtenE:
  assumes "node_written d x pr"
  obtains w s w' td fe where "XMLNode_Accept x pr = pr\<lparr>px_buffer := px_buffer pr @ seal pr @ w @ s @ w',
        px_elementJustOpened := False, px_firstElement := fe, px_textDepth := td\<rparr>"
    "list_all IsWhiteSpace w" "list_all IsWhiteSpace w'" "node_text d x s"
    "plain_text x \<longrightarrow> w = [] \<and> w' = [] \<and> (1 < d \<longrightarrow> 0 \<le> td)" "1 < d \<longrightarrow> w' = []"
    "new_line pr = [] \<and> (is_element x \<longrightarrow> d = 1) \<longrightarrow> w = []"
  using assms unfolding node_written_def by (elim exE conjE) (rule that)

lemma nodes_writtenE:
  assumes "nodes_written d cs pr"
  obtains b td fe where "fold XMLNode_Accept cs pr = pr\<lparr>px_buffer := px_buffer pr @ seal pr @ b,
        px_elementJustOpened := False, px_firstElement := fe, px_textDepth := td\<rparr>"
    "\<forall>w. list_all IsWhiteSpace w \<longrightarrow> (plain_text (last cs) \<longrightarrow> w = []) \<longrightarrow> nodes_text d cs (b @ w)"
    "plain_text (last cs) \<longrightarrow> 1 < d \<longrightarrow> 0 \<le> td"
    "new_line pr = [] \<and> \<not> plain_text (hd cs) \<and> (is_element (hd cs) \<longrightarrow> d = 1) \<longrightarrow> take 1 b = ''<''"
  using assms unfolding nodes_written_def by (elim exE conjE) (rule that)

lemma nodes_writtenI:
  assumes "fold XMLNode_Accept cs pr = pr\<lparr>px_buffer := px_buffer pr @ seal pr @ b,
        px_elementJustOpened := False, px_firstElement := fe, px_textDepth := td\<rparr>"
    and "\<And>w. list_all IsWhiteSpace w \<Longrightarrow> plain_text (last cs) \<longrightarrow> w = [] \<Longrightarrow> nodes_text d cs (b @ w)"
    and "plain_text (last cs) \<longrightarrow> 1 < d \<longrightarrow> 0 \<le> td"
    and "new_line pr = [] \<and> \<not> plain_text (hd cs) \<and> (is_element (hd cs) \<longrightarrow> d = 1) \<Longrightarrow> take 1 b = ''<''"
  shows "nodes_written d cs pr"
  unfolding nodes_written_def using assms by (intro exI [of _ b] exI [of _ td] exI [of _ fe]) blast

lemma node_text_bracket: "node_text d x s \<Longrightarrow> \<not> plain_text x \<Longrightarrow> \<exists>t. s = CHR ''<'' # t"
  by (cases rule: node_text.cases) auto

lemma nodes_text_space:
  assumes "nodes_text d xs r" and "list_all IsWhiteSpace w" and "xs = [] \<or> \<not> plain_text (hd xs)"
  shows "nodes_text d xs (w @ r)"
  using assms(1)
proof (cases rule: nodes_text.cases)
  case last_space
  then show ?thesis using assms(2) by (auto intro: node_text_nodes_text.last_space)
next
  case (next_node w1 x s xs' r')
  then have "nodes_text d (x # xs') ((w @ w1) @ s @ r')"
    using assms(2,3) by (intro node_text_nodes_text.next_node) auto
  then show ?thesis using next_node by simp
qed

lemma nodes_written_all:
  assumes "cs \<noteq> []" and "\<And>x pr. x \<in> set cs \<Longrightarrow> printer_at d pr \<Longrightarrow> node_written d x pr" and "printer_at d pr"
    and "siblings_ok cs" and "1 < d \<or> list_all (\<lambda>x. \<not> plain_text x) cs"
  shows "nodes_written d cs pr"
  using assms
proof (induction cs arbitrary: pr rule: siblings_ok.induct)
  case (3 x y xs)
  obtain w s w' td fe where x: "XMLNode_Accept x pr = pr\<lparr>px_buffer := px_buffer pr @ seal pr @ w @ s @ w',
        px_elementJustOpened := False, px_firstElement := fe, px_textDepth := td\<rparr>"
    "list_all IsWhiteSpace w" "list_all IsWhiteSpace w'" "node_text d x s"
    "plain_text x \<longrightarrow> w = [] \<and> w' = [] \<and> (1 < d \<longrightarrow> 0 \<le> td)" "1 < d \<longrightarrow> w' = []"
    "new_line pr = [] \<and> (is_element x \<longrightarrow> d = 1) \<longrightarrow> w = []"
    by (rule node_writtenE [OF "3.prems"(2) [of x pr]]) (use "3.prems"(3) in simp_all)
  define pr1 where "pr1 = XMLNode_Accept x pr"
  have at1: "printer_at d pr1" using "3.prems"(3) by (simp add: pr1_def x(1) printer_at_def)
  have "nodes_written d (y # xs) pr1" by (rule "3.IH") (use "3.prems" at1 in auto)
  then obtain b td' fe' where y: "fold XMLNode_Accept (y # xs) pr1 = pr1\<lparr>px_buffer := px_buffer pr1 @ seal pr1 @ b,
        px_elementJustOpened := False, px_firstElement := fe', px_textDepth := td'\<rparr>"
    "\<forall>w. list_all IsWhiteSpace w \<longrightarrow> (plain_text (last (y # xs)) \<longrightarrow> w = []) \<longrightarrow> nodes_text d (y # xs) (b @ w)"
    "plain_text (last (y # xs)) \<longrightarrow> 1 < d \<longrightarrow> 0 \<le> td'"
    "new_line pr1 = [] \<and> \<not> plain_text (hd (y # xs)) \<and> (is_element (hd (y # xs)) \<longrightarrow> d = 1) \<longrightarrow> take 1 b = ''<''"
    by (rule nodes_writtenE)
  have "fold XMLNode_Accept (x # y # xs) pr = pr\<lparr>px_buffer := px_buffer pr @ seal pr @ w @ s @ w' @ b,
        px_elementJustOpened := False, px_firstElement := fe', px_textDepth := td'\<rparr>"
    using y(1) by (simp add: pr1_def [symmetric] del: fold.simps(2) add: fold_Cons) (simp add: pr1_def x(1) seal_def)
  moreover have "nodes_text d (x # y # xs) ((w @ s @ w' @ b) @ v)"
    if v: "list_all IsWhiteSpace v" "plain_text (last (x # y # xs)) \<longrightarrow> v = []" for v
  proof -
    have "nodes_text d (y # xs) (b @ v)" using y(2) v by auto
    then have r: "nodes_text d (y # xs) (w' @ b @ v)"
      using x(3,6) "3.prems"(5) nodes_text_space [of d "y # xs" "b @ v" w'] by (cases "1 < d") auto
    have "w = [] \<and> take 1 (w' @ b @ v) = ''<''" if "plain_text x"
    proof -
      have "1 < d" "\<not> is_element y" "\<not> plain_text y" using "3.prems"(4,5) that by auto
      moreover have "new_line pr1 = []" using x(5) that \<open>1 < d\<close> by (simp add: new_line_def pr1_def x(1))
      ultimately have "take 1 b = ''<''" using y(4) by simp
      then show ?thesis using x(5) that by (cases b) auto
    qed
    then show ?thesis using node_text_nodes_text.next_node [OF x(2,4) r] by simp
  qed
  moreover have "plain_text (last (x # y # xs)) \<longrightarrow> 1 < d \<longrightarrow> 0 \<le> td'" using y(3) by simp
  moreover have "take 1 (w @ s @ w' @ b) = ''<''"
    if "new_line pr = [] \<and> \<not> plain_text (hd (x # y # xs)) \<and> (is_element (hd (x # y # xs)) \<longrightarrow> d = 1)"
    using that x(7) node_text_bracket [OF x(4)] by auto
  ultimately show ?case by (rule nodes_writtenI)
next
  case (2 x)
  obtain w s w' td fe where x: "XMLNode_Accept x pr = pr\<lparr>px_buffer := px_buffer pr @ seal pr @ w @ s @ w',
        px_elementJustOpened := False, px_firstElement := fe, px_textDepth := td\<rparr>"
    "list_all IsWhiteSpace w" "list_all IsWhiteSpace w'" "node_text d x s"
    "plain_text x \<longrightarrow> w = [] \<and> w' = [] \<and> (1 < d \<longrightarrow> 0 \<le> td)" "1 < d \<longrightarrow> w' = []"
    "new_line pr = [] \<and> (is_element x \<longrightarrow> d = 1) \<longrightarrow> w = []"
    by (rule node_writtenE [OF "2.prems"(2) [of x pr]]) (use "2.prems"(3) in simp_all)
  have "nodes_text d [x] ((w @ s @ w') @ v)" if "list_all IsWhiteSpace v" "plain_text x \<longrightarrow> v = []" for v
    using node_text_nodes_text.next_node [OF x(2,4) last_space [of "w' @ v"]] that x(3,5) by auto
  then show ?case
    using x(1,5,7) node_text_bracket [OF x(4)] by (intro nodes_writtenI [where b = "w @ s @ w'" and td = td and fe = fe]) auto
qed simp

lemma node_writtenI:
  assumes "XMLNode_Accept x pr = pr\<lparr>px_buffer := px_buffer pr @ seal pr @ w @ s @ w',
        px_elementJustOpened := False, px_firstElement := fe, px_textDepth := td\<rparr>"
    and "list_all IsWhiteSpace w" and "list_all IsWhiteSpace w'" and "node_text d x s"
    and "plain_text x \<longrightarrow> w = [] \<and> w' = [] \<and> (1 < d \<longrightarrow> 0 \<le> td)" and "1 < d \<longrightarrow> w' = []"
    and "new_line pr = [] \<and> (is_element x \<longrightarrow> d = 1) \<longrightarrow> w = []"
  shows "node_written d x pr"
  unfolding node_written_def using assms
  by (intro exI [of _ w] exI [of _ s] exI [of _ w'] exI [of _ td] exI [of _ fe]) blast

lemma row_written:
  assumes "printer_at d pr" and "\<not> is_element x" and "\<not> plain_text x" and "node_text d x s"
    and "XMLNode_Accept x pr = (push_line pr)\<lparr>px_buffer := px_buffer (push_line pr) @ s\<rparr>"
  shows "node_written d x pr"
  using assms
  by (intro node_writtenI [where s = s and w' = "[]" and fe = False and td = "px_textDepth pr" and
        w = "if new_line pr = [] then [] else new_line pr @ indent_spaces (px_depth pr)"])
    (simp_all add: push_line_text printer_at_def)

lemma new_line_open: "new_line (pr\<lparr>px_firstElement := False\<rparr>) = (if px_textDepth pr < 0 then [CHR 0x0A] else [])"
  by (simp add: new_line_def)

lemma xml_written: "xml_ok d x \<Longrightarrow> printer_at d pr \<Longrightarrow> node_written d x pr"
proof (induction x arbitrary: d pr)
  case (Xml_Element n as cs)
  note ok = Xml_Element.prems(1) [unfolded xml_ok.simps]
  let ?w = "new_line pr @ indent_spaces (px_depth pr)" and ?nl = "if px_depth pr = 0 then [CHR 0x0A] else []"
  define head where "head = CHR ''<'' # n @ concat (map attr_text as)"
  define p1 where "p1 = fold PushAttribute as (OpenElement n False pr)"
  have at_pr: "px_processEntities pr" "\<not> px_compactMode pr" "px_depth pr = int d - 1" "1 \<le> d"
    using Xml_Element.prems(2) by (simp_all add: printer_at_def)
  have p1: "p1 = pr\<lparr>px_buffer := px_buffer pr @ seal pr @ ?w @ head, px_elementJustOpened := True,
      px_stack := n # px_stack pr, px_firstElement := False, px_depth := px_depth pr + 1\<rparr>"
    using ok at_pr by (simp add: p1_def OpenElement_text PushAttributes_text head_def)
  have w: "new_line pr = [] \<and> (is_element (Xml_Element n as cs) \<longrightarrow> d = 1) \<longrightarrow> ?w = []"
    using at_pr(3) by (simp add: indent_spaces_def)
  have nl: "1 < d \<longrightarrow> ?nl = []" using at_pr(3) by simp
  show ?case
  proof (cases "cs = []")
    case True
    have tx: "node_text d (Xml_Element n as cs) (head @ ''/>'')"
      using sealed [of n as d] ok True by (simp add: head_def)
    have shown: "XMLNode_Accept (Xml_Element n as cs) pr = pr\<lparr>px_buffer := px_buffer pr @ seal pr @ ?w @ (head @ ''/>'') @ ?nl,
        px_elementJustOpened := False, px_firstElement := False,
        px_textDepth := (if px_textDepth pr = px_depth pr then -1 else px_textDepth pr)\<rparr>"
      using ok at_pr True by (simp add: p1_def [symmetric] p1 CloseElement_text [where n = n and st = "px_stack pr"])
    show ?thesis by (rule node_writtenI [OF shown _ _ tx]) (use w nl in simp_all)
  next
    case False
    have at1: "printer_at (Suc d) p1" using at_pr by (simp add: p1 printer_at_def)
    have "nodes_written (Suc d) cs p1"
      by (rule nodes_written_all) (use False Xml_Element.IH ok at1 at_pr(4) in \<open>auto simp: list_all_iff\<close>)
    then obtain b td fe where b: "fold XMLNode_Accept cs p1 = p1\<lparr>px_buffer := px_buffer p1 @ seal p1 @ b,
        px_elementJustOpened := False, px_firstElement := fe, px_textDepth := td\<rparr>"
      "\<forall>w. list_all IsWhiteSpace w \<longrightarrow> (plain_text (last cs) \<longrightarrow> w = []) \<longrightarrow> nodes_text (Suc d) cs (b @ w)"
      "plain_text (last cs) \<longrightarrow> 1 < Suc d \<longrightarrow> 0 \<le> td"
      by (rule nodes_writtenE)
    define v where "v = (if td < 0 then CHR 0x0A # indent_spaces (px_depth pr) else [])"
    have "nodes_text (Suc d) cs (b @ v)"
      by (rule b(2) [rule_format]) (use b(3) at_pr(4) in \<open>auto simp: v_def\<close>)
    then have tx: "node_text d (Xml_Element n as cs) (head @ CHR ''>'' # (b @ v) @ ''</'' @ n @ ''>'')"
      using element [of n as d cs "b @ v"] ok False by (simp add: head_def)
    have shown: "XMLNode_Accept (Xml_Element n as cs) pr =
        pr\<lparr>px_buffer := px_buffer pr @ seal pr @ ?w @ (head @ CHR ''>'' # (b @ v) @ ''</'' @ n @ ''>'') @ ?nl,
          px_elementJustOpened := False, px_firstElement := fe,
          px_textDepth := (if td = px_depth pr then -1 else td)\<rparr>"
      using ok at_pr b(1) by (simp add: p1_def [symmetric] p1 seal_def CloseElement_text [where n = n and st = "px_stack pr"] v_def)
    show ?thesis by (rule node_writtenI [OF shown _ _ tx]) (use w nl in simp_all)
  qed
next
  case (Xml_Text t cdata)
  show ?case
  proof (cases cdata)
    case True
    have "node_text d (Xml_Text t True) (''<![CDATA['' @ t @ '']]>'')"
      using Xml_Text.prems(1) True by (intro node_text_nodes_text.cdata) auto
    then show ?thesis
      using Xml_Text.prems True
      by (intro node_writtenI [where w = "[]" and w' = "[]" and fe = "px_firstElement pr" and td = "px_depth pr - 1" and
            s = "''<![CDATA['' @ t @ '']]>''"])
        (simp_all add: PushText_def Seal_text Write_def chars_c_str c_str_def [of "''<![CDATA[''"] c_str_def [of "'']]>''"] seal_def)
  next
    case False
    have "node_text d (Xml_Text t False) (escaped True t)"
      using Xml_Text.prems(1) False by (intro node_text_nodes_text.plain) auto
    then show ?thesis
      using Xml_Text.prems False
      by (intro node_writtenI [where w = "[]" and w' = "[]" and fe = "px_firstElement pr" and td = "px_depth pr - 1" and
            s = "escaped True t"])
        (simp_all add: PushText_def Seal_text PrintString_def chars_c_str seal_def printer_at_def)
  qed
next
  case (Xml_Comment t)
  then show ?case
    using comment [of t d]
    by (intro row_written [where s = "''<!--'' @ t @ ''-->''"])
      (simp_all add: PushComment_def Write_def chars_c_str c_str_def [of "''<!--''"] c_str_def [of "''-->''"])
next
  case (Xml_Declaration t)
  then show ?case
    using decl [of t d]
    by (intro row_written [where s = "''<?'' @ t @ ''?>''"])
      (simp_all add: PushDeclaration_def Write_def chars_c_str c_str_def [of "''<?''"] c_str_def [of "''?>''"])
next
  case (Xml_Unknown t)
  then show ?case
    using unknown [of t d]
    by (intro row_written [where s = "''<!'' @ t @ ''>''"])
      (simp_all add: PushUnknown_def Write_def Putc_def chars_c_str c_str_def [of "''<!''"])
qed

section \<open>Documents\<close>

lemma document_read:
  assumes "nodes_text (Suc 0) xs b" and "list_all (\<lambda>x. \<not> plain_text x) xs"
    and "list_all (\<lambda>x. \<not> is_declaration x) (dropWhile is_declaration xs)"
    and "list_all is_declaration cs \<or> list_all (\<lambda>x. \<not> is_declaration x) xs"
  shows "XMLNode_ParseDeep (Suc 0) True cs b = Level (cs @ xs) None None None"
  using assms
proof (induction xs arbitrary: cs b)
  case Nil
  from Nil.prems(1) have "list_all IsWhiteSpace b" by (cases rule: nodes_text.cases) auto
  then have "SkipWhiteSpace b = []" by (auto simp: SkipWhiteSpace_def list_all_iff dropWhile_eq_Nil_conv)
  then have "Identify b = None" by (simp add: Identify_def)
  then show ?case by (simp add: XMLNode_ParseDeep.simps)
next
  case (Cons x xs)
  from Cons.prems(1) obtain w s r where b: "b = w @ s @ r" "list_all IsWhiteSpace w" "node_text (Suc 0) x s" "nodes_text (Suc 0) xs r"
    by (cases rule: nodes_text.cases) auto
  have located: "well_located True cs" if "is_declaration x"
    using Cons.prems(4) that by (cases cs) (auto simp: well_located_def list_all_iff)
  have "XMLNode_ParseDeep (Suc 0) True cs b = XMLNode_ParseDeep (Suc 0) True (cs @ [x]) r"
    unfolding b(1) by (rule nodes_read(1) [OF b(3,2)]) (use Cons.prems(2) located in auto)
  also have "\<dots> = Level ((cs @ [x]) @ xs) None None None"
  proof (rule Cons.IH [OF b(4)])
    show "list_all (\<lambda>x. \<not> is_declaration x) (dropWhile is_declaration xs)"
      using Cons.prems(3) by (cases "is_declaration x") (auto simp: list_all_iff dest: set_dropWhileD)
    show "list_all is_declaration (cs @ [x]) \<or> list_all (\<lambda>x. \<not> is_declaration x) xs"
      using Cons.prems(3,4) by (cases "is_declaration x") auto
  qed (use Cons.prems(2) in simp)
  finally show ?case by simp
qed

text \<open>The texts of nodes have no NUL.\<close>

lemma escaped_no_nul: "chars_ok t \<Longrightarrow> CHR 0x00 \<notin> set (escaped r t)"
proof
  assume "chars_ok t" "CHR 0x00 \<in> set (escaped r t)"
  with escaped_chars [OF this(2)] show False by (simp add: chars_ok_def)
qed

lemma white_no_nul: "list_all IsWhiteSpace w \<Longrightarrow> CHR 0x00 \<notin> set w"
  by (induction w) (auto simp: IsWhiteSpace_def isspace_def)

lemma attrs_no_nul: "list_all attr_ok as \<Longrightarrow> CHR 0x00 \<notin> set (concat (map attr_text as))"
proof (induction as)
  case (Cons a as)
  have "CHR 0x00 \<notin> set (fst a)" using Cons.prems name_c_str [of "fst a"] nul_notin_c_str [of "fst a"] by (simp add: attr_ok_def)
  moreover have "CHR 0x00 \<notin> set (escaped False (snd a))"
    using Cons.prems by (intro escaped_no_nul) (simp add: attr_ok_def)
  ultimately show ?case using Cons by (simp add: attr_text_def del: set_concat)
qed simp

lemma nodes_text_no_nul:
  "node_text d x s \<Longrightarrow> CHR 0x00 \<notin> set s" "nodes_text d xs b \<Longrightarrow> CHR 0x00 \<notin> set b"
proof (induction rule: node_text_nodes_text.inducts)
  case (sealed n as d)
  then show ?case using attrs_no_nul [of as] name_c_str [of n] nul_notin_c_str [of n] by simp
next
  case (element n as d cs b)
  then show ?case using attrs_no_nul [of as] name_c_str [of n] nul_notin_c_str [of n] by simp
next
  case (plain t d)
  then show ?case by (intro escaped_no_nul)
next
  case (last_space w d)
  then show ?case by (intro white_no_nul)
next
  case (next_node w d x s xs r)
  then show ?case using white_no_nul [of w] by simp
qed (auto simp: chars_ok_def)

lemma document_text:
  assumes "xml_doc_ok ns"
  shows "\<exists>b. XMLDocument_text \<lparr>xd_children = ns, xd_error = e, xd_writeBOM = bom\<rparr> =
      (if bom then TIXML_UTF_LEAD else []) @ b \<and> nodes_text (Suc 0) ns b \<and> take 1 b = ''<''"
proof -
  let ?bom = "if bom then TIXML_UTF_LEAD else []"
  define p1 where "p1 = (if bom then PushHeader True False (XMLPrinter_new False 0) else XMLPrinter_new False 0)"
  have "c_str TIXML_UTF_LEAD = TIXML_UTF_LEAD" by (simp add: TIXML_UTF_LEAD_def)
  then have p1: "p1 = (XMLPrinter_new False 0)\<lparr>px_buffer := ?bom\<rparr>"
    by (simp add: p1_def PushHeader_def Write_def XMLPrinter_new_def)
  have ns: "ns \<noteq> []" "list_all (xml_ok 1) ns" "list_all (\<lambda>x. \<not> plain_text x) ns" using assms by (auto simp: xml_doc_ok_def)
  have siblings: "siblings_ok ns" using ns(3) by (induction ns rule: siblings_ok.induct) auto
  have "printer_at 1 p1" by (simp add: p1 printer_at_def XMLPrinter_new_def)
  then have "nodes_written 1 ns p1"
    using ns siblings xml_written by (intro nodes_written_all) (auto simp: list_all_iff)
  then obtain b td fe where b: "fold XMLNode_Accept ns p1 = p1\<lparr>px_buffer := px_buffer p1 @ seal p1 @ b,
      px_elementJustOpened := False, px_firstElement := fe, px_textDepth := td\<rparr>"
    "\<forall>w. list_all IsWhiteSpace w \<longrightarrow> (plain_text (last ns) \<longrightarrow> w = []) \<longrightarrow> nodes_text 1 ns (b @ w)"
    "new_line p1 = [] \<and> \<not> plain_text (hd ns) \<and> (is_element (hd ns) \<longrightarrow> 1 = (1 :: nat)) \<longrightarrow> take 1 b = ''<''"
    by (rule nodes_writtenE)
  have tx: "nodes_text (Suc 0) ns b" using b(2) [rule_format, of "[]"] by simp
  have "take 1 b = ''<''" using b(3) ns(1,3) by (cases ns) (auto simp: new_line_def p1 XMLPrinter_new_def)
  moreover have "XMLDocument_text \<lparr>xd_children = ns, xd_error = e, xd_writeBOM = bom\<rparr> = c_str (?bom @ b)"
  proof -
    have "(XMLPrinter_new False 0)\<lparr>px_processEntities := True\<rparr> = XMLPrinter_new False 0" by (simp add: XMLPrinter_new_def)
    then have "XMLDocument_Accept \<lparr>xd_children = ns, xd_error = e, xd_writeBOM = bom\<rparr> (XMLPrinter_new False 0) =
        fold XMLNode_Accept ns p1"
      by (simp add: XMLDocument_Accept_def p1_def)
    moreover have "px_buffer (fold XMLNode_Accept ns p1) = ?bom @ b"
      unfolding b(1) by (simp add: p1 seal_def XMLPrinter_new_def)
    ultimately show ?thesis by (simp add: XMLDocument_text_def)
  qed
  moreover have "c_str (?bom @ b) = ?bom @ b"
    using nodes_text_no_nul(2) [OF tx] by (intro c_str_no_nul) (auto simp: TIXML_UTF_LEAD_def)
  ultimately show ?thesis using tx by metis
qed

lemma written_document:
  assumes "xml_doc_ok ns"
  shows "XMLDocument_Parse (XMLDocument_text \<lparr>xd_children = ns, xd_error = e, xd_writeBOM = bom\<rparr>) doc =
    \<lparr>xd_children = ns, xd_error = None, xd_writeBOM = bom\<rparr>"
proof -
  obtain b where b: "XMLDocument_text \<lparr>xd_children = ns, xd_error = e, xd_writeBOM = bom\<rparr> =
      (if bom then TIXML_UTF_LEAD else []) @ b" "nodes_text (Suc 0) ns b" "take 1 b = ''<''"
    using document_text [OF assms] by blast
  let ?t = "(if bom then TIXML_UTF_LEAD else []) @ b"
  obtain q where q: "b = CHR ''<'' # q" using b(3) by (cases b) auto
  have "c_str ?t = ?t" using nodes_text_no_nul(2) [OF b(2)] by (intro c_str_no_nul) (auto simp: TIXML_UTF_LEAD_def)
  moreover have "\<not> IsWhiteSpace CHR 0xEF"
    by (simp add: IsWhiteSpace_def isspace_def)
  then have "ReadBOM (SkipWhiteSpace ?t) = (b, bom)"
    by (simp add: q SkipWhiteSpace_def ReadBOM_def TIXML_UTF_LEAD_def)
  moreover have "XMLNode_ParseDeep (Suc 0) True [] b = Level ns None None None"
    using document_read [OF b(2), of "[]"] assms by (simp add: xml_doc_ok_def)
  ultimately show ?thesis
    by (cases doc) (simp add: b(1) q XMLDocument_Parse_def XMLDocument_Parse_buffer_def XMLDocument_Clear_def PushDepth_def
        TINYXML2_MAX_ELEMENT_DEPTH_def)
qed

section \<open>Decoding in place\<close>

lemma utf8_fill_length: "length (utf8_fill n mark input bs) = n + length bs"
  by (induction n mark input bs rule: utf8_fill.induct) auto

lemma utf8_bytes_at_most_4: "length (ConvertUTF32ToUTF8 u) \<le> 4"
  by (simp add: ConvertUTF32ToUTF8_def utf8_fill_length utf8_length_def)

lemma ref_value_in_place:
  assumes "ref_value base mark q = Some (s, r)"
  shows "length s + length r \<le> length q + 2"
proof -
  let ?body = "takeWhile (\<lambda>c. c \<noteq> CHR '';'') q" and ?rest = "dropWhile (\<lambda>c. c \<noteq> CHR '';'') q"
  obtain ucs where u: "ref_digits base mark (rev ?body) 1 0 = Some ucs" "s = ConvertUTF32ToUTF8 ucs" "r = tl ?rest" "CHR '';'' \<in> set q"
    using assms by (auto simp: ref_value_def split: if_splits)
  have "?rest \<noteq> []" using u(4) by (auto simp: dropWhile_eq_Nil_conv)
  moreover have "length q = length ?body + length ?rest" by (metis length_append takeWhile_dropWhile_id)
  ultimately have q: "length q = length ?body + 1 + length r" using u(3) by (cases ?rest) auto
  show ?thesis
  proof (cases "?body = []")
    case True
    then have "ucs = 0" using u(1) by simp
    then have "length s = 1" using u(2) by (simp add: ConvertUTF32ToUTF8_def utf8_fill_length utf8_length_def)
    then show ?thesis using q by simp
  next
    case False
    then have "1 \<le> length ?body" by (simp add: Suc_leI)
    then show ?thesis using q utf8_bytes_at_most_4 [of ucs] u(2) by simp
  qed
qed

lemma GetCharacterRef_in_place:
  assumes "GetCharacterRef r = Some (s, r')"
  shows "length s + length r' \<le> Suc (Suc (length r))"
proof (cases r)
  case (Cons c q)
  then show ?thesis
    using assms ref_value_in_place [of 16 "CHR ''x''" q s r'] ref_value_in_place [of 10 "CHR ''#''" r s r']
    by (auto simp: GetCharacterRef_def split: if_splits)
qed (use assms in \<open>auto simp: GetCharacterRef_def\<close>)

lemma entity_at_length: "entity_at p = Some (pattern, v) \<Longrightarrow> length pattern + 1 \<le> length p"
proof -
  assume "entity_at p = Some (pattern, v)"
  then have "take (length pattern + 1) p = pattern @ '';''" by (auto simp: entity_at_def find_Some_iff)
  then have "length (take (length pattern + 1) p) = length pattern + 1" by simp
  then show ?thesis by simp
qed

lemma GetStr_loop_in_place: "length (GetStr_loop flags buffer out p) \<le> length out + length p"
proof (induction flags buffer out p rule: GetStr_loop.induct)
  case (2 flags buffer out c p)
  show ?case
  proof (cases "NEEDS_ENTITY_PROCESSING flags \<and> c = CHR ''&''")
    case True
    then have c: "c = CHR ''&''" "c \<noteq> xml_CR" "c \<noteq> xml_LF" "NEEDS_ENTITY_PROCESSING flags" by (auto simp: xml_CR_def xml_LF_def)
    show ?thesis
    proof (cases "take 1 p = ''#''")
      case hash: True
      then obtain q where p: "p = CHR ''#'' # q" by (cases p) auto
      show ?thesis
      proof (cases "GetCharacterRef q")
        case None
        then show ?thesis using 2(3) [of] c hash p by simp
      next
        case (Some x)
        obtain s r where x: "x = (s, r)" by (cases x)
        have "length (GetStr_loop flags buffer (out @ s) r) \<le> length (out @ s) + length r"
          using 2(4) c hash p Some x by simp
        then show ?thesis using GetCharacterRef_in_place [of q s r] Some x c hash p by simp
      qed
    next
      case False
      show ?thesis
      proof (cases "entity_at p")
        case None
        then show ?thesis using 2(5) c False by simp
      next
        case (Some x)
        obtain pattern v where x: "x = (pattern, v)" by (cases x)
        have "length (GetStr_loop flags buffer (out @ [v]) (drop (length pattern + 1) p)) \<le>
            length (out @ [v]) + length (drop (length pattern + 1) p)"
          using 2(6) c False Some x by simp
        then show ?thesis using entity_at_length [of p pattern v] Some x c False by simp
      qed
    qed
  next
    case False
    let ?skip = "\<lambda>c. if take 1 p = [c] then tl p else p"
    have skip: "length (?skip xml_LF) \<le> length p" "length (?skip xml_CR) \<le> length p" by simp_all
    consider "NEEDS_NEWLINE_NORMALIZATION flags \<and> c = xml_CR"
      | "\<not> (NEEDS_NEWLINE_NORMALIZATION flags \<and> c = xml_CR)" "NEEDS_NEWLINE_NORMALIZATION flags \<and> c = xml_LF"
      | "\<not> (NEEDS_NEWLINE_NORMALIZATION flags \<and> c = xml_CR)" "\<not> (NEEDS_NEWLINE_NORMALIZATION flags \<and> c = xml_LF)" by blast
    then show ?thesis
    proof cases
      case 1
      then show ?thesis using 2(1) [OF 1] skip(1) by simp
    next
      case nl: 2
      then show ?thesis using 2(2) [OF nl] skip(2) by simp
    next
      case other: 3
      have "GetStr_loop flags buffer out (c # p) = GetStr_loop flags buffer (out @ [c]) p"
        using other False by (simp only: GetStr_loop.simps(2) if_False)
      then show ?thesis using 2(7) [OF other False] by simp
    qed
  qed
qed simp

section \<open>Properties\<close>

text \<open>C27: a document whose names, texts and nesting XML can carry is read back from its printed text exactly as it
  was, with or without the mark of its encoding, whatever the document read into held before.\<close>

theorem xml_printed_read:
  assumes "xml_doc_ok ns"
  shows "XMLDocument_Parse (XMLDocument_text \<lparr>xd_children = ns, xd_error = e, xd_writeBOM = bom\<rparr>) doc =
    \<lparr>xd_children = ns, xd_error = None, xd_writeBOM = bom\<rparr>"
  by (rule written_document [OF assms])

lemma xml_printed_read_witness:
  "\<forall>bom doc. XMLDocument_Parse (XMLDocument_text
      \<lparr>xd_children = [Xml_Element ''a'' [(''b'', ''x<y'')] [Xml_Text ''1 & 2'' False, Xml_Comment ''c'']], xd_error = None,
        xd_writeBOM = bom\<rparr>) doc =
    \<lparr>xd_children = [Xml_Element ''a'' [(''b'', ''x<y'')] [Xml_Text ''1 & 2'' False, Xml_Comment ''c'']], xd_error = None,
      xd_writeBOM = bom\<rparr>"
proof -
  have "xml_doc_ok [Xml_Element ''a'' [(''b'', ''x<y'')] [Xml_Text ''1 & 2'' False, Xml_Comment ''c'']]" by code_simp
  from xml_printed_read [OF this] show ?thesis by blast
qed

text \<open>A string is decoded in place, and what is written never gets ahead of what is read.\<close>

theorem decoded_in_place: "length (StrPair_GetStr flags s) \<le> length s"
proof -
  have "length (c_str (GetStr_loop flags s [] s)) \<le> length (GetStr_loop flags s [] s)"
    unfolding c_str_def by (rule length_takeWhile_le)
  then show ?thesis using GetStr_loop_in_place [of flags s "[]" s] by (simp add: StrPair_GetStr_def)
qed

lemma GetStr_ordinary:
  "CHR ''&'' \<notin> set s \<Longrightarrow> xml_CR \<notin> set s \<Longrightarrow> GetStr_loop flags buffer out s = out @ s"
proof (induction s arbitrary: out)
  case (Cons c s)
  have "take 1 s \<noteq> [xml_CR]" using Cons.prems by (cases s) auto
  then show ?case using Cons by (cases "c = xml_LF") auto
qed simp



text \<open>A text in front of an element grows by the indentation of the element whenever it is written and read.\<close>

theorem text_before_element_grows:
  assumes "name_ok n" and "name_ok m" and "chars_ok t" and "\<not> list_all IsWhiteSpace t"
  shows "XMLDocument_Parse (XMLDocument_text
      \<lparr>xd_children = [Xml_Element n [] [Xml_Text t False, Xml_Element m [] []]], xd_error = e, xd_writeBOM = False\<rparr>) doc =
    \<lparr>xd_children = [Xml_Element n [] [Xml_Text (t @ ''    '') False, Xml_Element m [] []]], xd_error = None,
      xd_writeBOM = False\<rparr>"
proof -
  let ?t = "escaped True t @ ''    ''" and ?e = "Xml_Element n [] [Xml_Text (t @ ''    '') False, Xml_Element m [] []]"
  let ?b = "(CHR ''<'' # n @ CHR ''>'' # (?t @ CHR ''<'' # m @ ''/>'') @ ''</'' @ n @ ''>'') @ [CHR 0x0A]"
  have body: "nodes_text 2 [Xml_Text (t @ ''    '') False, Xml_Element m [] []] (?t @ CHR ''<'' # m @ ''/>'')"
  proof -
    have "node_text 2 (Xml_Text (t @ ''    '') False) (escaped True (t @ ''    ''))"
      using assms(3,4) by (intro node_text_nodes_text.plain) (auto simp: chars_ok_def xml_CR_def)
    moreover have "escaped True ''    '' = ''    ''" by (simp add: print_char_def restrictedEntityFlag_def)
    ultimately have 1: "node_text 2 (Xml_Text (t @ ''    '') False) ?t" by simp
    have "node_text 2 (Xml_Element m [] []) (CHR ''<'' # m @ concat (map attr_text []) @ ''/>'')"
      using assms(2) by (intro sealed) auto
    then have "nodes_text 2 [Xml_Element m [] []] ([] @ (CHR ''<'' # m @ ''/>'') @ [])"
      by (intro next_node last_space) auto
    then have "nodes_text 2 [Xml_Element m [] []] (CHR ''<'' # m @ ''/>'')" by simp
    with 1 have "nodes_text 2 [Xml_Text (t @ ''    '') False, Xml_Element m [] []] ([] @ ?t @ CHR ''<'' # m @ ''/>'')"
      by (intro next_node) auto
    then show ?thesis by simp
  qed
  have "node_text (Suc 0) ?e (CHR ''<'' # n @ concat (map attr_text []) @ CHR ''>'' # (?t @ CHR ''<'' # m @ ''/>'') @ ''</'' @ n @ ''>'')"
    using assms(1) body by (intro element) (auto simp: TINYXML2_MAX_ELEMENT_DEPTH_def numeral_2_eq_2)
  then have "nodes_text (Suc 0) [?e] ([] @ (CHR ''<'' # n @ CHR ''>'' # (?t @ CHR ''<'' # m @ ''/>'') @ ''</'' @ n @ ''>'') @ [CHR 0x0A])"
    by (intro next_node last_space) auto
  then have nodes: "nodes_text (Suc 0) [?e] ?b" by simp
  have no_nul: "CHR 0x00 \<notin> set ?b" by (rule nodes_text_no_nul(2) [OF nodes])
  have "XMLDocument_text \<lparr>xd_children = [Xml_Element n [] [Xml_Text t False, Xml_Element m [] []]], xd_error = e,
      xd_writeBOM = False\<rparr> = c_str ?b"
  proof -
    let ?p0 = "XMLPrinter_new False 0"
    define p1 where "p1 = OpenElement n False ?p0"
    define p2 where "p2 = PushText t False p1"
    define p3 where "p3 = OpenElement m False p2"
    define p4 where "p4 = CloseElement False p3"
    have p1: "p1 = ?p0\<lparr>px_buffer := CHR ''<'' # n, px_elementJustOpened := True, px_stack := [n], px_firstElement := False, px_depth := 1\<rparr>"
      using assms(1) by (simp add: p1_def OpenElement_text XMLPrinter_new_def seal_def new_line_def indent_spaces_def)
    have p2: "p2 = p1\<lparr>px_buffer := CHR ''<'' # n @ CHR ''>'' # escaped True t, px_elementJustOpened := False, px_textDepth := 0\<rparr>"
      using assms(3) by (simp add: p2_def p1 PushText_def Seal_text seal_def PrintString_def chars_c_str XMLPrinter_new_def)
    have p3: "p3 = p2\<lparr>px_buffer := CHR ''<'' # n @ CHR ''>'' # ?t @ CHR ''<'' # m, px_elementJustOpened := True,
        px_stack := [m, n], px_firstElement := False, px_depth := 2\<rparr>"
      using assms(2) by (simp add: p3_def p2 p1 OpenElement_text XMLPrinter_new_def seal_def new_line_def indent_spaces_def eval_nat_numeral)
    have p4: "p4 = p3\<lparr>px_buffer := CHR ''<'' # n @ CHR ''>'' # ?t @ CHR ''<'' # m @ ''/>'', px_elementJustOpened := False,
        px_stack := [n], px_depth := 1\<rparr>"
      using assms(2) by (simp add: p4_def p3 p2 p1 CloseElement_text [where n = m and st = "[n]"] XMLPrinter_new_def)
    have "px_buffer (CloseElement False p4) = ?b"
      using assms(1) by (simp add: p4 p3 p2 p1 CloseElement_text [where n = n and st = "[]"] XMLPrinter_new_def)
    moreover have "?p0\<lparr>px_processEntities := True\<rparr> = ?p0" "\<not> px_compactMode ?p0" by (simp_all add: XMLPrinter_new_def)
    moreover have "\<not> px_compactMode p2" "\<not> px_compactMode p3" "\<not> px_compactMode p4"
      by (simp_all add: p4 p3 p2 p1 XMLPrinter_new_def)
    ultimately show ?thesis
      by (simp add: XMLDocument_text_def XMLDocument_Accept_def p1_def [symmetric] p2_def [symmetric] p3_def [symmetric] p4_def [symmetric])
  qed
  then have shown: "XMLDocument_text \<lparr>xd_children = [Xml_Element n [] [Xml_Text t False, Xml_Element m [] []]], xd_error = e,
      xd_writeBOM = False\<rparr> = ?b"
    using no_nul by simp
  have "XMLNode_ParseDeep (Suc 0) True [] ?b = Level [?e] None None None"
    using document_read [OF nodes, of "[]"] by simp
  then show ?thesis
    using no_nul by (cases doc) (simp add: shown XMLDocument_Parse_def XMLDocument_Parse_buffer_def XMLDocument_Clear_def
        SkipWhiteSpace_def ReadBOM_def TIXML_UTF_LEAD_def PushDepth_def TINYXML2_MAX_ELEMENT_DEPTH_def)
qed

lemma text_before_element_grows_witness:
  "\<forall>e doc. XMLDocument_Parse (XMLDocument_text
      \<lparr>xd_children = [Xml_Element ''a'' [] [Xml_Text ''x'' False, Xml_Element ''b'' [] []]], xd_error = e, xd_writeBOM = False\<rparr>) doc =
    \<lparr>xd_children = [Xml_Element ''a'' [] [Xml_Text (''x'' @ ''    '') False, Xml_Element ''b'' [] []]], xd_error = None,
      xd_writeBOM = False\<rparr>"
proof -
  have "name_ok ''a''" "name_ok ''b''" "chars_ok ''x''" "\<not> list_all IsWhiteSpace ''x''" by code_simp+
  from text_before_element_grows [OF this] show ?thesis by blast
qed

lemma too_deep:
  assumes "name_ok n" and "s \<noteq> []"
  shows "d + k + 1 = TINYXML2_MAX_ELEMENT_DEPTH \<Longrightarrow>
    XMLElement_ParseDeep d (n @ CHR ''>'' # concat (replicate k (CHR ''<'' # n @ ''>'')) @ s) = Inl (Some XML_ELEMENT_DEPTH_EXCEEDED)"
proof (induction k arbitrary: d)
  case 0
  then show ?case
    using element_head_tag(1) [OF assms(1), of "[]" s] assms(2) by (simp add: XMLElement_ParseDeep.simps PushDepth_def)
next
  case (Suc k)
  let ?r = "n @ CHR ''>'' # concat (replicate k (CHR ''<'' # n @ ''>'')) @ s"
  have "XMLNode_ParseDeep (Suc d) False [] (CHR ''<'' # ?r) = level_fails [] (Some XML_ELEMENT_DEPTH_EXCEEDED)"
    using Suc.IH [of "Suc d"] Suc.prems Identify_tag [of "[]" n] assms(1) by (simp add: XMLNode_ParseDeep.simps)
  then show ?case
    using element_head_tag(1) [OF assms(1), of "[]" "CHR ''<'' # ?r"] Suc.prems
    by (simp add: XMLElement_ParseDeep.simps [of d] PushDepth_def level_fails_def)
qed

text \<open>Ninety-nine elements inside each other are refused, whatever follows.\<close>

theorem too_deep_refused:
  assumes "name_ok n" and "s \<noteq> []" and "CHR 0x00 \<notin> set s"
  shows "XMLDocument_Parse (concat (replicate 99 (CHR ''<'' # n @ ''>'')) @ s) doc =
    \<lparr>xd_children = [], xd_error = Some XML_ELEMENT_DEPTH_EXCEEDED, xd_writeBOM = False\<rparr>"
proof -
  let ?r = "n @ CHR ''>'' # concat (replicate 98 (CHR ''<'' # n @ ''>'')) @ s" and ?s = "concat (replicate 99 (CHR ''<'' # n @ ''>'')) @ s"
  have "Suc 98 = (99 :: nat)" by simp
  then have whole: "?s = CHR ''<'' # ?r" using replicate_Suc [of 98 "CHR ''<'' # n @ ''>''"] by simp
  have "CHR 0x00 \<notin> set n" using name_c_str [OF assms(1)] nul_notin_c_str [of n] by simp
  then have no_nul: "c_str (CHR ''<'' # ?r) = CHR ''<'' # ?r" using assms(3) by (intro c_str_no_nul) auto
  have "XMLElement_ParseDeep (Suc 0) ?r = Inl (Some XML_ELEMENT_DEPTH_EXCEEDED)"
    by (rule too_deep [OF assms(1,2)]) (simp add: TINYXML2_MAX_ELEMENT_DEPTH_def)
  then have "XMLNode_ParseDeep (Suc 0) True [] (CHR ''<'' # ?r) = level_fails [] (Some XML_ELEMENT_DEPTH_EXCEEDED)"
    using Identify_tag [of "[]" n] assms(1) by (simp add: XMLNode_ParseDeep.simps)
  then show ?thesis
    unfolding whole using no_nul
    by (cases doc) (simp add: XMLDocument_Parse_def XMLDocument_Parse_buffer_def XMLDocument_Clear_def level_fails_def
        SkipWhiteSpace_def ReadBOM_def TIXML_UTF_LEAD_def PushDepth_def TINYXML2_MAX_ELEMENT_DEPTH_def del: concat.simps)
qed

lemma too_deep_refused_witness:
  "\<forall>doc. XMLDocument_Parse (concat (replicate 99 (CHR ''<'' # ''a'' @ ''>'')) @ ''x'') doc =
    \<lparr>xd_children = [], xd_error = Some XML_ELEMENT_DEPTH_EXCEEDED, xd_writeBOM = False\<rparr>"
proof
  fix doc
  have "name_ok ''a''" by code_simp
  then show "XMLDocument_Parse (concat (replicate 99 (CHR ''<'' # ''a'' @ ''>'')) @ ''x'') doc =
      \<lparr>xd_children = [], xd_error = Some XML_ELEMENT_DEPTH_EXCEEDED, xd_writeBOM = False\<rparr>"
    by (rule too_deep_refused) simp_all
qed

end
