(* ===== verification/Xml_Doc.thy ===== *)
theory Xml_Doc
  imports Xml_Written
begin

text \<open>
  \<open>xauth/xml_reader.cpp\<close> and what it and \<open>WXBizMsgCrypt\<close> use of a tinyxml2 document: the search for an
  element among the children, the text of an element.
\<close>

fun FirstChildElement :: "string \<Rightarrow> xml list \<Rightarrow> xml option" where
  "FirstChildElement name [] = None"
| "FirstChildElement name (Xml_Element n as cs # rest) =
     (if n = name then Some (Xml_Element n as cs) else FirstChildElement name rest)"
| "FirstChildElement name (_ # rest) = FirstChildElement name rest"

definition GetText :: "xml \<Rightarrow> string option" where
  "GetText element = (case xml_children element of Xml_Text t _ # _ \<Rightarrow> Some t | _ \<Rightarrow> None)"

text \<open>The text of a child of the root element \<open>xml\<close>.\<close>

definition xml_field :: "xml list \<Rightarrow> string \<Rightarrow> string option" where
  "xml_field doc field =
     (case FirstChildElement ''xml'' doc of
        None \<Rightarrow> None
      | Some root \<Rightarrow>
          (case FirstChildElement (c_str field) (xml_children root) of
             None \<Rightarrow> None
           | Some element \<Rightarrow> map_option c_str (GetText element)))"

section \<open>\<open>XmlReader\<close>\<close>

text \<open>A reader is its document, of which only the children are looked at.\<close>

type_synonym xml_reader = "xml list"

definition XmlReader_Parse :: "string \<Rightarrow> bool \<times> xml_reader" where
  "XmlReader_Parse data =
     (let doc = XMLDocument_Parse data XMLDocument_new in (xd_error doc = None, xd_children doc))"

definition XmlReader_new :: "string \<Rightarrow> xml_reader" where
  "XmlReader_new data = snd (XmlReader_Parse data)"

text \<open>The value is left alone when there is none.\<close>

definition XmlReader_Get :: "xml_reader \<Rightarrow> string \<Rightarrow> string \<Rightarrow> int \<times> string" where
  "XmlReader_Get doc field value = (case xml_field doc field of None \<Rightarrow> (-1, value) | Some s \<Rightarrow> (0, s))"

section \<open>Lemmas\<close>

lemma FirstChildElement_is: "FirstChildElement name xs = Some e \<Longrightarrow> e \<in> set xs \<and> (\<exists>as cs. e = Xml_Element name as cs)"
  by (induction name xs rule: FirstChildElement.induct) (auto split: if_splits)

lemma xml_field_built:
  "xml_field [Xml_Element ''xml'' as (Xml_Element n [] [Xml_Text t cd] # rest)] field =
     (if n = c_str field then Some (c_str t)
      else xml_field [Xml_Element ''xml'' as rest] field)"
  by (simp add: xml_field_def GetText_def)

section \<open>Documents of fields\<close>

text \<open>One element \<open>xml\<close> with a CDATA section for every field: what the interface and the program exchange.\<close>

definition fields_doc :: "(string \<times> string) list \<Rightarrow> xml list" where
  "fields_doc fs = [Xml_Element ''xml'' [] (map (\<lambda>(n, t). Xml_Element n [] [Xml_Text t True]) fs)]"

definition fields_text :: "(string \<times> string) list \<Rightarrow> string" where
  "fields_text fs = XMLDocument_text (XMLDocument_new\<lparr>xd_children := fields_doc fs\<rparr>)"

definition field_ok :: "string \<times> string \<Rightarrow> bool" where
  "field_ok f \<longleftrightarrow> name_ok (fst f) \<and> chars_ok (snd f) \<and> \<not> sublist '']]>'' (snd f)"

lemma fields_doc_ok: "list_all field_ok fs \<Longrightarrow> xml_doc_ok (fields_doc fs)"
proof -
  assume fs: "list_all field_ok fs"
  have "siblings_ok (map (\<lambda>(n, t). Xml_Element n [] [Xml_Text t True]) fs)"
  proof (induction fs)
    case (Cons f fs)
    then show ?case by (cases f; cases fs) auto
  qed simp
  moreover have "name_ok ''xml''" by code_simp
  ultimately show ?thesis
    using fs by (auto simp: xml_doc_ok_def fields_doc_def list_all_iff field_ok_def TINYXML2_MAX_ELEMENT_DEPTH_def split: prod.splits)
qed

lemma fields_read:
  assumes "list_all field_ok fs"
  shows "XMLDocument_Parse (fields_text fs) doc = \<lparr>xd_children = fields_doc fs, xd_error = None, xd_writeBOM = False\<rparr>"
  using written_document [OF fields_doc_ok [OF assms], of None False doc]
  by (simp add: fields_text_def XMLDocument_new_def)

lemma fields_text_no_nul: "list_all field_ok fs \<Longrightarrow> CHR 0x00 \<notin> set (fields_text fs)"
  by (simp add: fields_text_def XMLDocument_text_def)

lemma fields_text_nonempty: "list_all field_ok fs \<Longrightarrow> fields_text fs \<noteq> []"
  using document_text [OF fields_doc_ok, of fs None False] by (auto simp: fields_text_def XMLDocument_new_def)

end
