(* ===== verification/Wx_Crypt.thy ===== *)
theory Wx_Crypt
  imports Xml_Doc Std_String Base64
begin

text \<open>
  \<open>xauth/wxwork/WXBizMsgCrypt.cpp\<close>: the signed and encrypted messages of WeChat Work.  The CBC mode of
  AES, the base64 blocks and SHA-1 of OpenSSL and the random numbers are the environment; the texts, lengths, paddings, signatures and error codes around them are the code's.
\<close>

section \<open>The environment and the object\<close>

text \<open>
  \<open>cbc_enc key iv data\<close> is \<open>AES_cbc_encrypt\<close> after the key set-up; \<open>EVP_DecodeBlock\<close> returns what it
  wrote, or nothing for -1; the random numbers come from \<open>srand(time(NULL))\<close> on in order.
\<close>

record wx_crypto =
  cbc_enc :: "byte list \<Rightarrow> byte list \<Rightarrow> byte list \<Rightarrow> byte list"
  cbc_dec :: "byte list \<Rightarrow> byte list \<Rightarrow> byte list \<Rightarrow> byte list"
  evp_encode :: "byte list \<Rightarrow> string"
  evp_decode :: "string \<Rightarrow> byte list option"
  sha1 :: "string \<Rightarrow> byte list option"
  rand_at :: "nat \<Rightarrow> nat"

record wx_crypt =
  m_sToken :: string
  m_sEncodingAESKey :: string
  m_sReceiveId :: string

definition kAesKeySize :: nat where "kAesKeySize = 32"
definition kAesIVSize :: nat where "kAesIVSize = 16"
definition kEncodingKeySize :: nat where "kEncodingKeySize = 43"
definition kRandEncryptStrLen :: nat where "kRandEncryptStrLen = 16"
definition kMsgLen :: nat where "kMsgLen = 4"
definition kMaxBase64Size :: nat where "kMaxBase64Size = 1000000000"

datatype wx_code = WX_OK | ValidateSignature_Error | ParseXml_Error | ComputeSignature_Error | IllegalAesKey
  | ValidateCorpid_Error | EncryptAES_Error | DecryptAES_Error | IllegalBuffer | EncodeBase64_Error
  | DecodeBase64_Error | GenReturnXml_Error

abbreviation u32 :: "nat \<Rightarrow> nat" where
  "u32 n \<equiv> n mod 2 ^ 32"

section \<open>AES\<close>

definition fixed_key :: "byte list \<Rightarrow> byte list" where
  "fixed_key sKey = take kAesKeySize (sKey @ replicate kAesKeySize 0)"

text \<open>A total that wraps is a buffer shorter than the text copied into it.\<close>

definition AES_CBCEncrypt :: "wx_crypto \<Rightarrow> byte list \<Rightarrow> byte list \<Rightarrow> byte list option outcome" where
  "AES_CBCEncrypt env objSource objKey =
     (let iSize = u32 (length objSource);
          padding = kAesKeySize - iSize mod kAesKeySize;
          key = fixed_key objKey;
          tmp = take iSize objSource @ replicate padding (of_nat padding)
      in if iSize = 0 then Inr None
         else if 2 ^ 32 \<le> iSize + padding then Inl Out_Of_Bounds
         else Inr (Some (cbc_enc env key (take kAesIVSize key) tmp)))"

definition AES_CBCDecrypt :: "wx_crypto \<Rightarrow> byte list \<Rightarrow> byte list \<Rightarrow> byte list option" where
  "AES_CBCDecrypt env objSource objKey =
     (let iSize = u32 (length objSource);
          key = fixed_key objKey
      in if iSize < kAesKeySize \<or> iSize mod kAesKeySize \<noteq> 0 then None
         else let out = cbc_dec env key (take kAesIVSize key) (take iSize objSource);
                  pad = unat (out ! (iSize - 1))
              in if 0 < pad \<and> pad \<le> kAesKeySize \<and> 0 < iSize - pad then Some (take (iSize - pad) out)
                 else None)"

section \<open>Base64 and signatures\<close>

definition EncodeBase64 :: "wx_crypto \<Rightarrow> byte list \<Rightarrow> string option" where
  "EncodeBase64 env sSrc =
     (if sSrc = [] \<or> kMaxBase64Size < length sSrc then None
      else let iBlockNum = length sSrc div 3 + (if length sSrc div 3 * 3 \<noteq> length sSrc then 1 else 0);
               iOutBufSize = iBlockNum * 4 + 1;
               out = evp_encode env sSrc
           in if 0 < length out \<and> length out < iOutBufSize then Some out else None)"

definition equal_num :: "string \<Rightarrow> nat" where
  "equal_num s = length (takeWhile (\<lambda>c. c = CHR ''='') (rev s))"

definition DecodeBase64 :: "wx_crypto \<Rightarrow> string \<Rightarrow> byte list option" where
  "DecodeBase64 env sSrc =
     (if sSrc = [] \<or> kMaxBase64Size < length sSrc then None
      else case evp_decode env sSrc of
             None \<Rightarrow> None
           | Some out \<Rightarrow>
               if equal_num sSrc < length out \<and> length out < length sSrc
               then Some (take (length out - equal_num sSrc) out) else None)"

definition hex_lower :: "byte \<Rightarrow> string" where
  "hex_lower b = [''0123456789abcdef'' ! (unat b div 16), ''0123456789abcdef'' ! (unat b mod 16)]"

definition ComputeSignature :: "wx_crypto \<Rightarrow> string \<Rightarrow> string \<Rightarrow> string \<Rightarrow> string \<Rightarrow> string option" where
  "ComputeSignature env sToken sTimeStamp sNonce sMessage =
     (if sToken = [] \<or> sNonce = [] \<or> sMessage = [] \<or> sTimeStamp = [] then None
      else map_option (\<lambda>output. concat (map hex_lower (take 20 output)))
             (sha1 env (concat (sort [sToken, sTimeStamp, sNonce, sMessage]))))"

definition ValidateSignature :: "wx_crypto \<Rightarrow> wx_crypt \<Rightarrow> string \<Rightarrow> string \<Rightarrow> string \<Rightarrow> string \<Rightarrow> bool" where
  "ValidateSignature env w sMsgSignature sTimeStamp sNonce sEncryptMsg \<longleftrightarrow>
     ComputeSignature env (m_sToken w) sTimeStamp sNonce sEncryptMsg = Some sMsgSignature"

definition GenAesKeyFromEncodingKey :: "wx_crypto \<Rightarrow> string \<Rightarrow> byte list option" where
  "GenAesKeyFromEncodingKey env sEncodingKey =
     (if length sEncodingKey \<noteq> kEncodingKeySize then None
      else case DecodeBase64 env (sEncodingKey @ ''='') of
             None \<Rightarrow> None
           | Some sAesKey \<Rightarrow> if length sAesKey \<noteq> kAesKeySize then None else Some sAesKey)"

section \<open>The plain text\<close>

definition htonl_bytes :: "nat \<Rightarrow> byte list" where
  "htonl_bytes n = [of_nat (n div 2 ^ 24), of_nat (n div 2 ^ 16), of_nat (n div 2 ^ 8), of_nat n]"

definition ntohl_bytes :: "byte list \<Rightarrow> nat" where
  "ntohl_bytes bs = fold (\<lambda>b n. n * 256 + unat b) bs 0"

definition isprint :: "nat \<Rightarrow> bool" where
  "isprint c \<longleftrightarrow> 32 \<le> c \<and> c < 127"

text \<open>The loop takes random numbers until \<open>len\<close> printable ones were seen.\<close>

partial_function (option) rand_loop :: "wx_crypto \<Rightarrow> nat \<Rightarrow> nat \<Rightarrow> string \<Rightarrow> string option" where
  "rand_loop env i len s =
     (if len \<le> length s then Some s
      else let c = rand_at env i mod 128
           in rand_loop env (Suc i) len (if isprint c then s @ [char_of c] else s))"

definition GenRandStr :: "wx_crypto \<Rightarrow> nat \<Rightarrow> string option" where
  "GenRandStr env len = rand_loop env 0 len []"

definition GenNeedEncryptData :: "wx_crypto \<Rightarrow> wx_crypt \<Rightarrow> string \<Rightarrow> byte list option" where
  "GenNeedEncryptData env w sReplyMsg =
     map_option (\<lambda>sRandStr. map byte_of sRandStr @ htonl_bytes (u32 (length sReplyMsg)) @
         map byte_of sReplyMsg @ map byte_of (m_sReceiveId w))
       (GenRandStr env kRandEncryptStrLen)"

section \<open>XML\<close>

definition GetXmlField :: "string \<Rightarrow> string \<Rightarrow> string option" where
  "GetXmlField sPostData sField =
     (let xmlDoc = XMLDocument_Parse sPostData XMLDocument_new
      in if xd_error xmlDoc \<noteq> None then None else xml_field (xd_children xmlDoc) sField)"

definition SetOneFieldToXml :: "string \<Rightarrow> string \<Rightarrow> bool \<Rightarrow> xml list \<Rightarrow> xml list" where
  "SetOneFieldToXml pcFieldName value bIsCdata children =
     children @ [Xml_Element pcFieldName [] [Xml_Text (c_str value) bIsCdata]]"

definition GenReturnXml :: "string \<Rightarrow> string \<Rightarrow> string \<Rightarrow> string \<Rightarrow> string" where
  "GenReturnXml sEncryptMsg sSignature sTimeStamp sNonce =
     XMLDocument_text (XMLDocument_new\<lparr>xd_children := [Xml_Element ''xml'' []
       (SetOneFieldToXml ''Nonce'' sNonce True
         (SetOneFieldToXml ''TimeStamp'' sTimeStamp True
           (SetOneFieldToXml ''MsgSignature'' sSignature True
             (SetOneFieldToXml ''Encrypt'' sEncryptMsg True []))))]\<rparr>)"

section \<open>The three operations\<close>

text \<open>
  What \<open>VerifyURL\<close> and \<open>DecryptMsg\<close> do after the signature: the result and the text stored to the caller's
  variable.  The sums are \<open>unsigned int\<close>s; \<open>substr\<close> throws behind the end.
\<close>

definition open_plain :: "wx_crypt \<Rightarrow> byte list \<Rightarrow> (wx_code \<times> string option) outcome" where
  "open_plain w sNoEncryptData =
     (if length sNoEncryptData \<le> kRandEncryptStrLen + kMsgLen then Inr (IllegalBuffer, None)
      else let iMsgLen = ntohl_bytes (take 4 (drop kRandEncryptStrLen sNoEncryptData));
               rest = u32 (kRandEncryptStrLen + kMsgLen + iMsgLen)
           in if length sNoEncryptData < rest then Inr (IllegalBuffer, None)
              else let sMsg = map char_of_byte (take iMsgLen (drop (kRandEncryptStrLen + kMsgLen) sNoEncryptData))
                   in if length sNoEncryptData < rest then Inl Out_Of_Range
                      else if map char_of_byte (drop rest sNoEncryptData) \<noteq> m_sReceiveId w
                      then Inr (ValidateCorpid_Error, Some sMsg)
                      else Inr (WX_OK, Some sMsg))"

definition open_message :: "wx_crypto \<Rightarrow> wx_crypt \<Rightarrow> string \<Rightarrow> (wx_code \<times> string option) outcome" where
  "open_message env w sEncryptMsg =
     (case DecodeBase64 env sEncryptMsg of
        None \<Rightarrow> Inr (DecodeBase64_Error, None)
      | Some sAesData \<Rightarrow>
          (case GenAesKeyFromEncodingKey env (m_sEncodingAESKey w) of
             None \<Rightarrow> Inr (IllegalAesKey, None)
           | Some sAesKey \<Rightarrow>
               (case AES_CBCDecrypt env sAesData sAesKey of
                  None \<Rightarrow> Inr (DecryptAES_Error, None)
                | Some sNoEncryptData \<Rightarrow> open_plain w sNoEncryptData)))"

definition VerifyURL ::
    "wx_crypto \<Rightarrow> wx_crypt \<Rightarrow> string \<Rightarrow> string \<Rightarrow> string \<Rightarrow> string \<Rightarrow> (wx_code \<times> string option) outcome" where
  "VerifyURL env w sMsgSignature sTimeStamp sNonce sEchoStr =
     (if \<not> ValidateSignature env w sMsgSignature sTimeStamp sNonce sEchoStr
      then Inr (ValidateSignature_Error, None)
      else open_message env w sEchoStr)"

definition DecryptMsg ::
    "wx_crypto \<Rightarrow> wx_crypt \<Rightarrow> string \<Rightarrow> string \<Rightarrow> string \<Rightarrow> string \<Rightarrow> (wx_code \<times> string option) outcome" where
  "DecryptMsg env w sMsgSignature sTimeStamp sNonce sPostData =
     (case GetXmlField sPostData ''Encrypt'' of
        None \<Rightarrow> Inr (ParseXml_Error, None)
      | Some sEncryptMsg \<Rightarrow>
          if \<not> ValidateSignature env w sMsgSignature sTimeStamp sNonce sEncryptMsg
          then Inr (ValidateSignature_Error, None)
          else open_message env w sEncryptMsg)"

definition EncryptMsg ::
    "wx_crypto \<Rightarrow> wx_crypt \<Rightarrow> string \<Rightarrow> string \<Rightarrow> string \<Rightarrow> (wx_code \<times> string option) outcome" where
  "EncryptMsg env w sReplyMsg sTimeStamp sNonce =
     (if sReplyMsg = [] then Inr (ParseXml_Error, None)
      else case GenNeedEncryptData env w sReplyMsg of
        None \<Rightarrow> Inl Diverges
      | Some sNeedEncrypt \<Rightarrow>
          (case GenAesKeyFromEncodingKey env (m_sEncodingAESKey w) of
             None \<Rightarrow> Inr (IllegalAesKey, None)
           | Some sAesKey \<Rightarrow>
               obind (AES_CBCEncrypt env sNeedEncrypt sAesKey) (\<lambda>aes.
                 case aes of
                   None \<Rightarrow> Inr (EncryptAES_Error, None)
                 | Some sAesData \<Rightarrow>
                     (case EncodeBase64 env sAesData of
                        None \<Rightarrow> Inr (EncodeBase64_Error, None)
                      | Some sBase64Data \<Rightarrow>
                          (case ComputeSignature env (m_sToken w) sTimeStamp sNonce sBase64Data of
                             None \<Rightarrow> Inr (ComputeSignature_Error, None)
                           | Some sSignature \<Rightarrow>
                               Inr (WX_OK, Some (GenReturnXml sBase64Data sSignature sTimeStamp sNonce)))))))"

section \<open>What the libraries promise\<close>

definition pad3 :: "nat \<Rightarrow> nat" where
  "pad3 n = (3 - n mod 3) mod 3"

definition cdata_ok :: "string \<Rightarrow> bool" where
  "cdata_ok t \<longleftrightarrow> t \<noteq> [] \<and> list_all (\<lambda>c. isprint (of_char c)) t \<and> \<not> sublist '']]>'' t"

definition b64_text :: "string \<Rightarrow> bool" where
  "b64_text t \<longleftrightarrow> list_all (\<lambda>c. isprint (of_char c) \<and> c \<noteq> CHR '']'') t"

text \<open>
  CBC decryption inverts encryption of whole blocks; a decoded base64 text is the data and a zero byte
  for every pad character; a digest is always computed; a printable number comes up again and again.
\<close>

definition cbc_ok :: "wx_crypto \<Rightarrow> bool" where
  "cbc_ok env \<longleftrightarrow> (\<forall>key iv d. length d mod 16 = 0 \<longrightarrow>
     length (cbc_enc env key iv d) = length d \<and> cbc_dec env key iv (cbc_enc env key iv d) = d)"

definition evp_ok :: "wx_crypto \<Rightarrow> bool" where
  "evp_ok env \<longleftrightarrow> (\<forall>d. d \<noteq> [] \<longrightarrow>
     length (evp_encode env d) = 4 * ((length d + 2) div 3) \<and> equal_num (evp_encode env d) = pad3 (length d) \<and>
     b64_text (evp_encode env d) \<and> evp_decode env (evp_encode env d) = Some (d @ replicate (pad3 (length d)) 0))"

definition crypto_ok :: "wx_crypto \<Rightarrow> bool" where
  "crypto_ok env \<longleftrightarrow> cbc_ok env \<and> evp_ok env \<and>
     (\<forall>s. \<exists>out. sha1 env s = Some out \<and> length out = 20) \<and> (\<forall>i. \<exists>j \<ge> i. isprint (rand_at env j mod 128))"

section \<open>Lemmas: the random characters\<close>

lemma rand_loop_returns:
  assumes "\<forall>i. \<exists>j \<ge> i. isprint (rand_at env j mod 128)"
  shows "length s \<le> len \<Longrightarrow> \<exists>r. rand_loop env i len s = Some r \<and> length r = len"
proof (induction "len - length s" arbitrary: i s)
  case 0
  then show ?case by (simp add: rand_loop.simps)
next
  case (Suc k)
  obtain j where j: "i \<le> j" "isprint (rand_at env j mod 128)" using assms by blast
  have tail: "\<exists>r. rand_loop env (Suc i) len (s @ [c]) = Some r \<and> length r = len" for i c
    using Suc.hyps(1) [of "s @ [c]"] Suc.hyps(2) Suc.prems by simp
  have short: "\<not> len \<le> length s" using Suc.hyps(2) by simp
  from j show ?case
  proof (induction "j - i" arbitrary: i)
    case 0
    then show ?case using short tail by (simp add: rand_loop.simps [of env i])
  next
    case (Suc d)
    then show ?case
      using short tail by (cases "isprint (rand_at env i mod 128)") (auto simp: rand_loop.simps [of env i] simp del: ex_simps)
  qed
qed

lemma GenRandStr_returns: "crypto_ok env \<Longrightarrow> \<exists>r. GenRandStr env len = Some r \<and> length r = len"
  unfolding GenRandStr_def crypto_ok_def by (rule rand_loop_returns) auto

section \<open>Lemmas: lengths in network order\<close>

lemma length_htonl [simp]: "length (htonl_bytes n) = 4"
  by (simp add: htonl_bytes_def)

lemma ntohl_htonl:
  assumes "n < 2 ^ 32"
  shows "ntohl_bytes (htonl_bytes n) = n"
proof -
  have "n div 2 ^ 24 < 256" using assms by (simp add: less_mult_imp_div_less)
  moreover have "n div 2 ^ 16 = n div 256 div 256" "n div 2 ^ 24 = n div 256 div 256 div 256" "n div 2 ^ 8 = n div 256"
    by (simp_all add: div_mult2_eq [symmetric])
  then have "(((n div 2 ^ 24) * 256 + n div 2 ^ 16 mod 256) * 256 + n div 2 ^ 8 mod 256) * 256 + n mod 256 = n"
    by (simp only: div_mult_mod_eq)
  ultimately show ?thesis by (simp add: htonl_bytes_def ntohl_bytes_def unat_of_nat)
qed

section \<open>Lemmas: padding and base64\<close>

lemma AES_CBC_inverse:
  assumes "cbc_ok env" and "d \<noteq> []" and "length d + 32 < 2 ^ 32"
  shows "\<exists>e. AES_CBCEncrypt env d key = Inr (Some e) \<and> AES_CBCDecrypt env e key = Some d \<and>
    length d < length e \<and> length e \<le> length d + 32"
proof -
  define n where "n = length d"
  define p where "p = 32 - n mod 32"
  define t where "t = d @ replicate p (of_nat p :: byte)"
  define e where "e = cbc_enc env (fixed_key key) (take 16 (fixed_key key)) t"
  have p: "0 < p" "p \<le> 32" by (simp_all add: p_def)
  have n: "0 < n" "n + 32 < 2 ^ 32" using assms(2,3) by (simp_all add: n_def)
  have "n + p = (n div 32 + 1) * 32" using div_mult_mod_eq [of n 32] unfolding p_def by presburger
  then have np: "(n + p) mod 32 = 0" by simp
  have len: "length t = n + p" by (simp add: t_def n_def)
  have "(n + p) mod 16 = 0" using np by presburger
  then have e: "length e = n + p" "cbc_dec env (fixed_key key) (take 16 (fixed_key key)) e = t"
    using assms(1) len by (auto simp: cbc_ok_def e_def)
  have u: "u32 n = n" "u32 (n + p) = n + p" using n p by simp_all
  have "AES_CBCEncrypt env d key = Inr (Some e)"
    using n u p by (simp add: AES_CBCEncrypt_def Let_def kAesKeySize_def kAesIVSize_def e_def t_def
        n_def [symmetric] p_def [symmetric] flip: p_def)
  moreover have "AES_CBCDecrypt env e key = Some d"
  proof -
    have "n + p - 1 = length d + (p - 1)" using p by (simp add: n_def)
    then have "t ! (n + p - 1) = replicate p (of_nat p :: byte) ! (p - 1)" unfolding t_def by (simp only: nth_append_length_plus)
    then have "t ! (n + p - 1) = (of_nat p :: byte)" using p by simp
    moreover have "unat (of_nat p :: byte) = p" using p by (simp add: unat_of_nat)
    moreover have "32 \<le> n + p" using np n by presburger
    ultimately show ?thesis
      using n p np u e by (simp add: AES_CBCDecrypt_def Let_def kAesKeySize_def kAesIVSize_def t_def n_def)
  qed
  ultimately show ?thesis using p e(1) by (auto simp: n_def)
qed

lemma base64_inverse:
  assumes "evp_ok env" and "d \<noteq> []" and "length d \<le> 749999997"
  shows "\<exists>t. EncodeBase64 env d = Some t \<and> DecodeBase64 env t = Some d \<and> t \<noteq> [] \<and> b64_text t"
proof -
  define n where "n = length d"
  define m where "m = (n + 2) div 3"
  define t where "t = evp_encode env d"
  define z where "z = pad3 n"
  have t: "length t = 4 * m" "equal_num t = z" "b64_text t" "evp_decode env t = Some (d @ replicate z 0)"
    using assms(1,2) by (auto simp: evp_ok_def t_def n_def m_def z_def)
  have n: "0 < n" "n \<le> 749999997" using assms(2,3) by (simp_all add: n_def)
  have m: "0 < m" "m \<le> 249999999" "n div 3 + (if n div 3 * 3 \<noteq> n then 1 else 0) = m"
    using n unfolding m_def by presburger+
  have "n mod 3 = 0 \<or> n mod 3 = 1 \<or> n mod 3 = 2" by presburger
  then have nz: "n + z = 3 * m" unfolding m_def z_def pad3_def by (elim disjE) (simp; presburger)+
  have ne: "t \<noteq> []" using t(1) m(1) by auto
  then have "EncodeBase64 env d = Some t"
    using t m n by (simp add: EncodeBase64_def Let_def kMaxBase64Size_def n_def [symmetric] t_def [symmetric] assms(2))
  moreover have "DecodeBase64 env t = Some d"
  proof -
    have "z < 3 * m" using nz n(1) by linarith
    moreover have "length (d @ replicate z 0) = 3 * m" using nz by (simp add: n_def)
    ultimately show ?thesis using t m nz ne by (simp add: DecodeBase64_def kMaxBase64Size_def n_def)
  qed
  ultimately show ?thesis using t ne by auto
qed

section \<open>Lemmas: opening\<close>

lemma map_char_eq: "map char_of_byte bs = s \<longleftrightarrow> bs = map byte_of s"
  by (auto simp: comp_def)

lemma open_plain_accepts:
  "\<exists>code out. open_plain w plain = Inr (code, out) \<and>
    (code = WX_OK \<longrightarrow> (\<exists>msg. out = Some msg \<and>
      (ntohl_bytes (take 4 (drop 16 plain)) + 20 < 2 ^ 32 \<longrightarrow>
        length msg = ntohl_bytes (take 4 (drop 16 plain)) \<and>
        drop 20 plain = map byte_of msg @ map byte_of (m_sReceiveId w))))"
proof -
  define len where "len = ntohl_bytes (take 4 (drop 16 plain))"
  have split: "drop 20 plain = map byte_of (map char_of_byte (take len (drop 20 plain))) @ map byte_of (m_sReceiveId w)"
    if "map char_of_byte (drop (20 + len) plain) = m_sReceiveId w"
  proof -
    from that have "drop (20 + len) plain = map byte_of (m_sReceiveId w)" by (simp only: map_char_eq)
    moreover have "drop 20 plain = take len (drop 20 plain) @ drop (20 + len) plain"
      by (metis add.commute append_take_drop_id drop_drop)
    ultimately show ?thesis by (simp add: comp_def)
  qed
  show ?thesis
    unfolding len_def [symmetric]
    using split by (auto simp: open_plain_def kRandEncryptStrLen_def kMsgLen_def Let_def len_def [symmetric])
qed

lemma open_message_accepts:
  "\<exists>code out. open_message env w enc = Inr (code, out) \<and>
    (code = WX_OK \<longrightarrow> (\<exists>aes key plain msg. DecodeBase64 env enc = Some aes \<and>
        GenAesKeyFromEncodingKey env (m_sEncodingAESKey w) = Some key \<and>
        AES_CBCDecrypt env aes key = Some plain \<and> out = Some msg \<and>
        (ntohl_bytes (take 4 (drop 16 plain)) + 20 < 2 ^ 32 \<longrightarrow>
          length msg = ntohl_bytes (take 4 (drop 16 plain)) \<and>
          drop 20 plain = map byte_of msg @ map byte_of (m_sReceiveId w))))"
proof (cases "DecodeBase64 env enc")
  case (Some aes)
  show ?thesis
  proof (cases "GenAesKeyFromEncodingKey env (m_sEncodingAESKey w)")
    case key: (Some key)
    show ?thesis
    proof (cases "AES_CBCDecrypt env aes key")
      case plain: (Some plain)
      from open_plain_accepts [of w plain] Some key plain show ?thesis by (auto simp: open_message_def)
    qed (use Some key in \<open>simp add: open_message_def\<close>)
  qed (use Some in \<open>simp add: open_message_def\<close>)
qed (simp add: open_message_def)

section \<open>Lemmas: the returned document\<close>

lemma c_str_printable: "list_all (\<lambda>c. isprint (of_char c)) t \<Longrightarrow> c_str t = t"
  unfolding c_str_def by (rule takeWhile_eq_all_conv [THEN iffD2]) (auto simp: list_all_iff isprint_def)

lemma cdata_field: "cdata_ok t \<Longrightarrow> name_ok n \<Longrightarrow> field_ok (n, t)"
proof -
  assume t: "cdata_ok t" and n: "name_ok n"
  have "CHR 0x00 \<notin> set t" "xml_CR \<notin> set t" using t by (auto simp: cdata_ok_def list_all_iff isprint_def xml_CR_def)
  with t n show ?thesis by (simp add: field_ok_def chars_ok_def cdata_ok_def)
qed

lemma b64_text_cdata: "b64_text t \<Longrightarrow> t \<noteq> [] \<Longrightarrow> cdata_ok t"
  by (fastforce simp: b64_text_def cdata_ok_def list_all_iff dest: set_mono_sublist)

lemma hex_lower_b64: "b64_text (hex_lower b)"
proof -
  have "list_all (\<lambda>n. b64_text [''0123456789abcdef'' ! n]) [0..<16]" by code_simp
  then have "b64_text [''0123456789abcdef'' ! n]" if "n < 16" for n
    using that by (simp add: list_all_iff)
  moreover have "unat b div 16 < 16" using unsigned_less [of b, where 'a=nat] by (simp add: less_mult_imp_div_less)
  moreover have "unat b mod 16 < 16" by simp
  ultimately show ?thesis by (simp add: hex_lower_def b64_text_def)
qed

lemma hex_digest_b64: "b64_text (concat (map hex_lower bs))"
proof (induction bs)
  case (Cons b bs)
  with hex_lower_b64 [of b] show ?case by (simp add: b64_text_def)
qed (simp add: b64_text_def)

lemma signature_b64:
  assumes "crypto_ok env" and "ComputeSignature env a b c d = Some sig"
  shows "b64_text sig \<and> sig \<noteq> []"
proof -
  from assms(2) obtain out where "sha1 env (concat (sort [a, b, c, d])) = Some out"
    and sig: "sig = concat (map hex_lower (take 20 out))"
    by (auto simp: ComputeSignature_def simp del: sort_key_simps split: if_splits)
  moreover obtain out' where "sha1 env (concat (sort [a, b, c, d])) = Some out'" "length out' = 20"
    using assms(1) unfolding crypto_ok_def by blast
  ultimately have "length out = 20" by simp
  then obtain x xs where "take 20 out = x # xs" by (cases out) auto
  with sig hex_digest_b64 [of "take 20 out"] show ?thesis by (auto simp: hex_lower_def)
qed

lemma return_fields:
  assumes "cdata_ok e" "cdata_ok sig" "cdata_ok ts" "cdata_ok nonce"
  shows "GetXmlField (GenReturnXml e sig ts nonce) ''Encrypt'' = Some e"
    "GetXmlField (GenReturnXml e sig ts nonce) ''MsgSignature'' = Some sig"
    "CHR 0x00 \<notin> set (GenReturnXml e sig ts nonce)"
proof -
  let ?fs = "[(''Encrypt'', e), (''MsgSignature'', sig), (''TimeStamp'', ts), (''Nonce'', nonce)]"
  have c: "c_str e = e" "c_str sig = sig" "c_str ts = ts" "c_str nonce = nonce"
    using assms by (auto simp: cdata_ok_def c_str_printable)
  then have doc: "GenReturnXml e sig ts nonce = fields_text ?fs"
    by (simp add: GenReturnXml_def SetOneFieldToXml_def fields_doc_def fields_text_def)
  have "name_ok ''Encrypt''" "name_ok ''MsgSignature''" "name_ok ''TimeStamp''" "name_ok ''Nonce''" by code_simp+
  then have fs: "list_all field_ok ?fs" using assms cdata_field by simp
  have n: "c_str ''Encrypt'' = ''Encrypt''" "c_str ''MsgSignature'' = ''MsgSignature''" by (simp_all add: c_str_def)
  show "GetXmlField (GenReturnXml e sig ts nonce) ''Encrypt'' = Some e"
    "GetXmlField (GenReturnXml e sig ts nonce) ''MsgSignature'' = Some sig"
    by (simp_all add: GetXmlField_def doc fields_read [OF fs]) (simp_all add: fields_doc_def xml_field_def GetText_def n c)
  show "CHR 0x00 \<notin> set (GenReturnXml e sig ts nonce)" unfolding doc by (rule fields_text_no_nul [OF fs])
qed

lemma encrypt_decrypt:
  assumes env: "crypto_ok env" and key: "GenAesKeyFromEncodingKey env (m_sEncodingAESKey w) = Some key"
    and msg: "msg \<noteq> []" "length msg + length (m_sReceiveId w) \<le> 749999900"
    and args: "m_sToken w \<noteq> []" "cdata_ok ts" "cdata_ok nonce"
  shows "\<exists>xml sig. EncryptMsg env w msg ts nonce = Inr (WX_OK, Some xml) \<and>
    GetXmlField xml ''MsgSignature'' = Some sig \<and>
    DecryptMsg env w sig ts nonce xml = Inr (WX_OK, Some msg)"
proof -
  obtain r where r: "GenRandStr env kRandEncryptStrLen = Some r" "length r = 16"
    using GenRandStr_returns [OF env, of kRandEncryptStrLen] by (auto simp: kRandEncryptStrLen_def)
  define plain where "plain = map byte_of r @ htonl_bytes (u32 (length msg)) @ map byte_of msg @ map byte_of (m_sReceiveId w)"
  have u: "u32 (length msg) = length msg" using msg(2) by simp
  have len: "length plain = 20 + length msg + length (m_sReceiveId w)" using r(2) by (simp add: plain_def)
  have parts: "cbc_ok env" "evp_ok env" using env by (simp_all add: crypto_ok_def)
  have "plain \<noteq> []" using len by auto
  moreover have "length plain + 32 < 2 ^ 32" using len msg(2) by simp
  ultimately obtain aes where aes: "AES_CBCEncrypt env plain key = Inr (Some aes)" "AES_CBCDecrypt env aes key = Some plain"
    "length plain < length aes" "length aes \<le> length plain + 32"
    using AES_CBC_inverse [OF parts(1)] by blast
  have "aes \<noteq> []" using aes(3) by auto
  moreover have "length aes \<le> 749999997" using aes(4) len msg(2) by simp
  ultimately obtain t where t: "EncodeBase64 env aes = Some t" "DecodeBase64 env t = Some aes" "t \<noteq> []" "b64_text t"
    using base64_inverse [OF parts(2)] by blast
  have "ts \<noteq> []" "nonce \<noteq> []" using args by (auto simp: cdata_ok_def)
  moreover obtain out where "sha1 env (concat (sort [m_sToken w, ts, nonce, t])) = Some out"
    using env unfolding crypto_ok_def by blast
  ultimately obtain sig where sig: "ComputeSignature env (m_sToken w) ts nonce t = Some sig"
    using args(1) t(3) by (auto simp: ComputeSignature_def simp del: sort_key_simps)
  have fields: "cdata_ok t" "cdata_ok sig"
    using t signature_b64 [OF env sig] b64_text_cdata by auto
  let ?xml = "GenReturnXml t sig ts nonce"
  have "GenNeedEncryptData env w msg = Some plain" using r by (simp add: GenNeedEncryptData_def plain_def)
  then have "EncryptMsg env w msg ts nonce = Inr (WX_OK, Some ?xml)"
    using msg(1) aes(1) t(1) sig key by (simp add: EncryptMsg_def)
  moreover have "open_plain w plain = Inr (WX_OK, Some msg)"
  proof -
    have "ntohl_bytes (take 4 (drop 16 plain)) = length msg"
      using r(2) u ntohl_htonl [of "length msg"] msg(2) by (simp add: plain_def)
    then show ?thesis
      using msg len r(2) by (simp add: open_plain_def kRandEncryptStrLen_def kMsgLen_def Let_def)
        (simp add: plain_def comp_def)
  qed
  then have "DecryptMsg env w sig ts nonce ?xml = Inr (WX_OK, Some msg)"
    using return_fields [OF fields args(2,3)] sig t(2) aes(2) key
    by (simp add: DecryptMsg_def ValidateSignature_def open_message_def)
  ultimately show ?thesis using return_fields [OF fields args(2,3)] by blast
qed

section \<open>Properties\<close>

text \<open>C12: a message that \<open>EncryptMsg\<close> returns is opened by \<open>DecryptMsg\<close> with the same object, the time and
  nonce it was made with and the signature it carries.  With OpenSSL as it is documented and
  a valid configured key, \<open>EncryptMsg\<close> returns for every message whose coded form stays below the limit of
  the base64 buffer.\<close>

theorem wx_encrypt_decrypt:
  assumes env: "crypto_ok env" and key: "GenAesKeyFromEncodingKey env (m_sEncodingAESKey w) = Some key"
    and msg: "msg \<noteq> []" "length msg + length (m_sReceiveId w) \<le> 749999900"
    and args: "m_sToken w \<noteq> []" "cdata_ok ts" "cdata_ok nonce"
  shows "\<exists>xml sig. EncryptMsg env w msg ts nonce = Inr (WX_OK, Some xml) \<and>
    GetXmlField xml ''MsgSignature'' = Some sig \<and>
    DecryptMsg env w sig ts nonce xml = Inr (WX_OK, Some msg)"
  by (rule encrypt_decrypt [OF assms])

text \<open>C22: \<open>DecryptMsg\<close> always returns, and it accepts only what carries the signature of the token, the time,
  the nonce and the encrypted text and, once decrypted, ends with the configured receiver; below the length
  where the 32-bit sum wraps, the text handed out is exactly what stands between the length and the
  receiver.\<close>

theorem wx_decrypt_accepts:
  "\<exists>code out. DecryptMsg env w sig ts nonce post = Inr (code, out) \<and>
    (code = WX_OK \<longrightarrow>
      (\<exists>enc digest aes key plain msg.
        GetXmlField post ''Encrypt'' = Some enc \<and>
        sha1 env (concat (sort [m_sToken w, ts, nonce, enc])) = Some digest \<and>
        sig = concat (map hex_lower (take 20 digest)) \<and>
        DecodeBase64 env enc = Some aes \<and> GenAesKeyFromEncodingKey env (m_sEncodingAESKey w) = Some key \<and>
        AES_CBCDecrypt env aes key = Some plain \<and> out = Some msg \<and>
        (ntohl_bytes (take 4 (drop 16 plain)) + 20 < 2 ^ 32 \<longrightarrow>
          length msg = ntohl_bytes (take 4 (drop 16 plain)) \<and>
          drop 20 plain = map byte_of msg @ map byte_of (m_sReceiveId w))))"
proof (cases "GetXmlField post ''Encrypt''")
  case None
  then show ?thesis by (simp add: DecryptMsg_def)
next
  case (Some enc)
  show ?thesis
  proof (cases "ValidateSignature env w sig ts nonce enc")
    case False
    with Some show ?thesis by (simp add: DecryptMsg_def)
  next
    case True
    then obtain digest where digest: "sha1 env (concat (sort [m_sToken w, ts, nonce, enc])) = Some digest"
      "sig = concat (map hex_lower (take 20 digest))"
      by (auto simp: ValidateSignature_def ComputeSignature_def simp del: sort_key_simps split: if_splits)
    show ?thesis
      using open_message_accepts [of env w enc] Some True digest by (auto simp: DecryptMsg_def simp del: sort_key_simps)
  qed
qed

text \<open>Where the length in the text makes the 32-bit sum wrap, the test of the length passes: the text
  handed out is everything behind the length, and the receiver is looked for from a position inside the
  first twenty bytes.\<close>

theorem wx_length_wraps:
  assumes "ntohl_bytes (take 4 (drop 16 plain)) = 2 ^ 32 - 20 + p" and "p < 20" and "20 < length plain"
    and "length plain < 2 ^ 32 - 20"
  shows "open_plain w plain =
    Inr (if map char_of_byte (drop p plain) = m_sReceiveId w then WX_OK else ValidateCorpid_Error,
         Some (map char_of_byte (drop 20 plain)))"
proof -
  have "u32 (16 + 4 + (2 ^ 32 - 20 + p)) = p" using assms(2) by simp
  then show ?thesis
    using assms by (simp add: open_plain_def kRandEncryptStrLen_def kMsgLen_def Let_def)
qed

lemma wx_length_wraps_witness:
  "open_plain \<lparr>m_sToken = [], m_sEncodingAESKey = [], m_sReceiveId = map char_of_byte (replicate 16 97 @ [255, 255, 255, 236, 98])\<rparr>
     (replicate 16 97 @ [255, 255, 255, 236, 98]) = Inr (WX_OK, Some (map char_of_byte [98]))"
  by (subst wx_length_wraps [where p = 0]) (simp_all add: ntohl_bytes_def)

section \<open>An environment\<close>

text \<open>
  Base64 as the program's own class codes it and an identity for a cipher.
\<close>

definition example_crypto :: wx_crypto where
  "example_crypto =
     \<lparr>cbc_enc = \<lambda>_ _ d. d, cbc_dec = \<lambda>_ _ d. d,
      evp_encode = \<lambda>d. Base64_Encrypt default_b64 (map char_of_byte d),
      evp_decode = \<lambda>s. Some (map byte_of (Base64_Decrypt default_b64 s) @ replicate (equal_num s) 0),
      sha1 = \<lambda>s. Some (replicate 20 (of_nat (length s))),
      rand_at = \<lambda>i. i\<rparr>"

lemma b64_shape:
  assumes "xs \<noteq> []"
  shows "\<exists>pre. run_blocks 3 (b64_block default_b64) xs = pre @ replicate (pad3 (length xs)) pad_char \<and>
    set pre \<subseteq> set (b64_keys default_b64) \<and> length pre + pad3 (length xs) = 4 * ((length xs + 2) div 3)"
  using assms
proof (induction "length xs" arbitrary: xs rule: less_induct)
  case less
  let ?k = "b64_keys default_b64"
  have "length ?k = 64" by (simp add: default_b64_def kDefaultBase64Keys_def)
  then have key: "unat x < 64 \<Longrightarrow> ?k ! unat x \<in> set ?k" for x :: byte by simp
  note keys = key [OF sext_bounds(1)] key [OF sext_bounds(2)] key [OF sext_bounds(3)] key [OF sext_bounds(4)]
  consider a where "xs = [a]" | a b where "xs = [a, b]" | a b c r where "xs = a # b # c # r"
    using less.prems by (metis list.exhaust)
  then show ?case
  proof cases
    case 1
    then show ?thesis
      using keys by (intro exI [of _ "[?k ! unat (sext1 a), ?k ! unat (sext2 a 0)]"])
        (simp add: run_blocks_last b64_block_def base64_encrypt_sext pad3_def numeral_2_eq_2 del: base64_encrypt.simps)
  next
    case 2
    then show ?thesis
      using keys by (intro exI [of _ "[?k ! unat (sext1 a), ?k ! unat (sext2 a b), ?k ! unat (sext3 b 0)]"])
        (simp add: run_blocks_last b64_block_def base64_encrypt_sext pad3_def numeral_2_eq_2 del: base64_encrypt.simps)
  next
    case 3
    let ?b = "[?k ! unat (sext1 a), ?k ! unat (sext2 a b), ?k ! unat (sext3 b c), ?k ! unat (sext4 c)]"
    have step: "run_blocks 3 (b64_block default_b64) xs = ?b @ run_blocks 3 (b64_block default_b64) r"
      using 3 by (simp add: run_blocks_step b64_block_def base64_encrypt_sext del: base64_encrypt.simps)
    show ?thesis
    proof (cases "r = []")
      case True
      then show ?thesis using step 3 keys by (intro exI [of _ ?b]) (simp add: pad3_def)
    next
      case False
      from less.hyps [of r] False 3 obtain pre where
        "run_blocks 3 (b64_block default_b64) r = pre @ replicate (pad3 (length r)) pad_char"
        "set pre \<subseteq> set ?k" "length pre + pad3 (length r) = 4 * ((length r + 2) div 3)" by auto
      moreover have "pad3 (length xs) = pad3 (length r)" "(length xs + 2) div 3 = Suc ((length r + 2) div 3)"
        using 3 by (simp_all add: pad3_def)
      ultimately show ?thesis using step keys by (intro exI [of _ "?b @ pre"]) simp
    qed
  qed
qed

lemma default_key_text: "k \<in> set (b64_keys default_b64) \<Longrightarrow> isprint (unat k) \<and> k \<noteq> 93 \<and> k \<noteq> pad_char"
proof -
  have "list_all (\<lambda>k. isprint (unat k) \<and> k \<noteq> 93 \<and> k \<noteq> pad_char) (b64_keys default_b64)" by code_simp
  then show "k \<in> set (b64_keys default_b64) \<Longrightarrow> isprint (unat k) \<and> k \<noteq> 93 \<and> k \<noteq> pad_char" by (simp add: list_all_iff)
qed

lemma equal_num_shape:
  assumes "\<forall>c \<in> set pre. c \<noteq> CHR ''=''"
  shows "equal_num (pre @ replicate n CHR ''='') = n"
proof -
  have "takeWhile (\<lambda>c. c = CHR ''='') (rev pre) = []"
    using assms by (cases "rev pre") (auto simp: in_set_conv_decomp dest!: arg_cong [of "rev pre" _ rev])
  then show ?thesis by (simp add: equal_num_def takeWhile_append)
qed

lemma of_char_byte: "(of_char (char_of_byte k) :: nat) = unat k"
  by (simp flip: unat_byte_of)

lemma example_evp: "evp_ok example_crypto"
proof -
  have "length (evp_encode example_crypto d) = 4 * ((length d + 2) div 3) \<and>
      equal_num (evp_encode example_crypto d) = pad3 (length d) \<and> b64_text (evp_encode example_crypto d)"
    if ne: "d \<noteq> []" for d
  proof -
    obtain pre where pre: "run_blocks 3 (b64_block default_b64) d = pre @ replicate (pad3 (length d)) pad_char"
      "set pre \<subseteq> set (b64_keys default_b64)" "length pre + pad3 (length d) = 4 * ((length d + 2) div 3)"
      using b64_shape [OF ne] by blast
    have "byte_of CHR ''='' = pad_char" by (simp add: pad_char_def byte_of_def)
    then have eq: "char_of_byte pad_char = CHR ''=''" by (metis char_of_byte_inverse)
    have enc: "evp_encode example_crypto d = map char_of_byte pre @ replicate (pad3 (length d)) CHR ''=''"
      using ne pre(1) eq by (simp add: example_crypto_def Base64_Encrypt_def comp_def)
    have key: "isprint (unat k)" "char_of_byte k \<noteq> CHR '']''" "char_of_byte k \<noteq> CHR ''=''" if "k \<in> set pre" for k
    proof -
      have k: "isprint (unat k) \<and> k \<noteq> 93 \<and> k \<noteq> pad_char" using that pre(2) default_key_text by blast
      then show "isprint (unat k)" by simp
      have "byte_of CHR '']'' = 93" by (simp add: byte_of_def)
      then show "char_of_byte k \<noteq> CHR '']''" using k by (metis byte_of_inverse)
      show "char_of_byte k \<noteq> CHR ''=''" using k eq by (metis byte_of_inverse)
    qed
    have "b64_text (evp_encode example_crypto d)"
      using key by (auto simp: b64_text_def enc list_all_iff of_char_byte isprint_def)
    then show ?thesis
      using pre(3) key equal_num_shape [of "map char_of_byte pre" "pad3 (length d)"] by (auto simp: enc)
  qed
  moreover have "evp_decode example_crypto (evp_encode example_crypto d) = Some (d @ replicate (equal_num (evp_encode example_crypto d)) 0)" for d
    using Decrypt_Encrypt [OF set_keys_ok [OF default_keys], of "map char_of_byte d"]
    by (simp add: example_crypto_def kDefaultBase64Keys_def comp_def)
  ultimately show ?thesis by (simp add: evp_ok_def)
qed

lemma example_crypto_ok: "crypto_ok example_crypto"
proof -
  have "\<exists>j \<ge> i. isprint (j mod 128)" for i :: nat
  proof (intro exI conjI)
    show "i \<le> i * 128 + 65" by simp
    show "isprint ((i * 128 + 65) mod 128)" by (simp add: isprint_def)
  qed
  then show ?thesis
    using example_evp by (simp add: crypto_ok_def cbc_ok_def) (simp add: example_crypto_def)
qed

definition example_crypt :: wx_crypt where
  "example_crypt = \<lparr>m_sToken = ''token'', m_sEncodingAESKey = butlast (evp_encode example_crypto (replicate 32 0)),
     m_sReceiveId = ''ww1''\<rparr>"

lemma example_key: "GenAesKeyFromEncodingKey example_crypto (m_sEncodingAESKey example_crypt) = Some (replicate 32 0)"
proof -
  let ?t = "evp_encode example_crypto (replicate 32 0)"
  have t: "length ?t = 44" "equal_num ?t = 1"
    using example_evp by (auto simp: evp_ok_def pad3_def)
  then have "rev ?t \<noteq> [] \<and> hd (rev ?t) = CHR ''=''" by (cases "rev ?t") (auto simp: equal_num_def split: if_splits)
  then have last: "butlast ?t @ ''='' = ?t" by (metis append_butlast_last_id hd_rev rev.simps(1))
  obtain u where u: "EncodeBase64 example_crypto (replicate 32 0) = Some u" "DecodeBase64 example_crypto u = Some (replicate 32 0)"
    using base64_inverse [OF example_evp, of "replicate 32 0"] by auto
  then have "u = ?t" by (auto simp: EncodeBase64_def Let_def split: if_splits)
  with u(2) last t(1) show ?thesis
    by (simp add: GenAesKeyFromEncodingKey_def example_crypt_def kEncodingKeySize_def kAesKeySize_def)
qed

lemma wx_encrypt_decrypt_witness:
  "\<exists>xml sig. EncryptMsg example_crypto example_crypt ''hello'' ''1600000000'' ''n'' = Inr (WX_OK, Some xml) \<and>
    DecryptMsg example_crypto example_crypt sig ''1600000000'' ''n'' xml = Inr (WX_OK, Some ''hello'')"
proof -
  have "cdata_ok ''1600000000''" "cdata_ok ''n''" by code_simp+
  from wx_encrypt_decrypt [OF example_crypto_ok example_key _ _ _ this, of "''hello''"] show ?thesis
    by (auto simp: example_crypt_def)
qed

lemma wx_decrypt_accepts_witness:
  "\<exists>xml sig enc digest. DecryptMsg example_crypto example_crypt sig ''1600000000'' ''n'' xml = Inr (WX_OK, Some ''hello'') \<and>
    GetXmlField xml ''Encrypt'' = Some enc \<and>
    sha1 example_crypto (concat (sort [''token'', ''1600000000'', ''n'', enc])) = Some digest \<and>
    sig = concat (map hex_lower (take 20 digest))"
proof -
  have "cdata_ok ''1600000000''" "cdata_ok ''n''" by code_simp+
  from encrypt_decrypt [OF example_crypto_ok example_key _ _ _ this, of "''hello''"]
  obtain xml sig where ok: "DecryptMsg example_crypto example_crypt sig ''1600000000'' ''n'' xml = Inr (WX_OK, Some ''hello'')"
    by (auto simp: example_crypt_def)
  with wx_decrypt_accepts [of example_crypto example_crypt sig "''1600000000''" "''n''" xml] show ?thesis
    by (auto simp: example_crypt_def simp del: sort_key_simps)
qed

end
