(* ===== verification/Xauth.thy ===== *)
theory Xauth
  imports App_Cache Wx_Crypt Http_Routes Hexstr
begin

text \<open>
  \<open>xauth\<close>: the route procedures in front of the applications (\<open>route_*.cpp\<close>, \<open>xauth.cpp\<close>), the handler
  tables of \<open>handler_dispatch.h\<close>, the tasks the procedures push and the error texts of \<open>xerror.cpp\<close>.  The
  state is the table of corporations, the tasks in the order they were pushed, and the lines the message
  handlers log.
\<close>

section \<open>The state and the environment\<close>

datatype xauth_task =
    AsyncPostTask string string
  | ExternalContactNotify (en_action: string) (en_corp: string) (en_app: string) (en_userid: string)
      (en_external_userid: string)

datatype log_level = Level_Info | Level_Error

record xauth_state =
  xa_corps :: corps
  xa_tasks :: "xauth_task list"
  xa_log :: "(log_level \<times> string) list"

record xauth_env =
  xe_wx :: wx_env
  xe_crypto :: wx_crypto
  xe_uuid :: string
  xe_sha1 :: "byte list \<Rightarrow> byte list"

definition Execute :: "xauth_task \<Rightarrow> xauth_state \<Rightarrow> xauth_state" where
  "Execute task s = s\<lparr>xa_tasks := xa_tasks s @ [task]\<rparr>"

definition log_line :: "log_level \<Rightarrow> string \<Rightarrow> xauth_state \<Rightarrow> xauth_state" where
  "log_line level line s = s\<lparr>xa_log := xa_log s @ [(level, line)]\<rparr>"

text \<open>\<open>req->query(key).c_str()\<close> and \<open>req->body().c_str()\<close>.\<close>

definition query_arg :: "http_request \<Rightarrow> string \<Rightarrow> string outcome" where
  "query_arg req key = obind (HttpRequest_query req (Mstr key)) (\<lambda>v. Inr (c_str (mstr_str v)))"

definition body_arg :: "http_request \<Rightarrow> string" where
  "body_arg req = c_str (mstr_str (rq_body req))"

section \<open>Handler tables\<close>

text \<open>The lookup stops at the first entry without a handler.\<close>

fun get_handler :: "(string \<times> 'h option) list \<Rightarrow> string \<Rightarrow> 'h option" where
  "get_handler [] name = None"
| "get_handler ((n, None) # rest) name = None"
| "get_handler ((n, Some h) # rest) name = (if n = name then Some h else get_handler rest name)"

definition get_handler_with_default :: "(string \<times> 'h option) list \<Rightarrow> string \<Rightarrow> 'h \<Rightarrow> 'h" where
  "get_handler_with_default table name dflt = (case get_handler table name of None \<Rightarrow> dflt | Some h \<Rightarrow> h)"

text \<open>A handler works on the message and the state; all of them return 0 and leave the response alone.\<close>

type_synonym msg_handler = "xml_reader \<Rightarrow> xauth_state \<Rightarrow> xauth_state"

definition dispatch_field :: "(string \<times> msg_handler option) list \<Rightarrow> string \<Rightarrow> string \<Rightarrow> msg_handler" where
  "dispatch_field table field complaint xml s =
     (let (ret, name) = XmlReader_Get xml field []
      in if ret \<noteq> 0 then log_line Level_Error (complaint @ name) s
         else case get_handler table name of Some h \<Rightarrow> h xml s | None \<Rightarrow> s)"

section \<open>Contacts\<close>

definition OnAddUser :: msg_handler where "OnAddUser xml s = s"
definition OnUpdateUser :: msg_handler where "OnUpdateUser xml s = s"
definition OnDeleteUser :: msg_handler where "OnDeleteUser xml s = s"
definition OnDelFollowUser :: msg_handler where "OnDelFollowUser xml s = s"
definition OnChangeExternalChat :: msg_handler where "OnChangeExternalChat xml s = s"

definition contact_task :: "string \<Rightarrow> xml_reader \<Rightarrow> xauth_task" where
  "contact_task action xml =
     ExternalContactNotify action ''Main'' ''contact'' (snd (XmlReader_Get xml ''UserID'' []))
       (snd (XmlReader_Get xml ''ExternalUserID'' []))"

definition OnAddExternalContact :: msg_handler where
  "OnAddExternalContact xml s = Execute (contact_task ''New External Contact: '' xml) s"

definition OnDelExternalContact :: msg_handler where
  "OnDelExternalContact xml s = Execute (contact_task ''Del External Contact: '' xml) s"

definition cluster_of_change_contact :: "(string \<times> msg_handler option) list" where
  "cluster_of_change_contact =
     [(''add_user'', Some OnAddUser), (''update_user'', Some OnUpdateUser),
      (''delete_user'', Some OnDeleteUser), ([], None)]"

definition cluster_of_change_external_contact :: "(string \<times> msg_handler option) list" where
  "cluster_of_change_external_contact =
     [(''add_external_contact'', Some OnAddExternalContact), (''del_external_contact'', Some OnDelExternalContact),
      (''del_follow_user'', Some OnDelFollowUser), ([], None)]"

definition OnChangeContact :: msg_handler where
  "OnChangeContact = dispatch_field cluster_of_change_contact ''ChangeType'' ''Get ChangeType Failed: ''"

definition OnChangeExternalContact :: msg_handler where
  "OnChangeExternalContact =
     dispatch_field cluster_of_change_external_contact ''ChangeType'' ''Get ChangeType Failed: ''"

definition cluster_of_event :: "(string \<times> msg_handler option) list" where
  "cluster_of_event =
     [(''change_contact'', Some OnChangeContact), (''change_external_contact'', Some OnChangeExternalContact),
      (''change_external_chat'', Some OnChangeExternalChat), ([], None)]"

definition OnEvent :: msg_handler where
  "OnEvent = dispatch_field cluster_of_event ''Event'' ''Get Event Failed: ''"

definition contact_cluster_of_msgtype :: "(string \<times> msg_handler option) list" where
  "contact_cluster_of_msgtype = [(''event'', Some OnEvent), ([], None)]"

definition RouteContact_HandleMessage :: msg_handler where
  "RouteContact_HandleMessage =
     dispatch_field contact_cluster_of_msgtype ''MsgType'' ''Invalid Message Type: ''"

section \<open>Messages\<close>

definition recv_field :: "string \<Rightarrow> string \<Rightarrow> string \<Rightarrow> msg_handler" where
  "recv_field field complaint label xml s =
     (let (ret, v) = XmlReader_Get xml field []
      in if ret \<noteq> 0 then log_line Level_Error complaint s else log_line Level_Info (label @ v) s)"

definition OnRecvText :: msg_handler where
  "OnRecvText = recv_field ''Content'' ''Invalid Text Message'' ''Content: ''"

definition OnRecvImage :: msg_handler where
  "OnRecvImage = recv_field ''PicUrl'' ''Invalid Image Message'' ''PicUrl: ''"

definition OnRecvVoice :: msg_handler where
  "OnRecvVoice = recv_field ''Format'' ''Invalid Voice Message'' ''Format: ''"

definition OnRecvVideo :: msg_handler where
  "OnRecvVideo = recv_field ''ThumbMediaId'' ''Invalid Voice Message'' ''ThumbMediaId: ''"

text \<open>Both coordinates are read into \<open>location_x\<close>, which nothing uses.\<close>

definition OnRecvLocation :: msg_handler where
  "OnRecvLocation xml s =
     (let (r1, location_x) = XmlReader_Get xml ''Location_X'' [];
          (r2, location_x) = XmlReader_Get xml ''Location_Y'' location_x;
          (r3, label) = XmlReader_Get xml ''Label'' []
      in if r1 \<noteq> 0 \<or> r2 \<noteq> 0 \<or> r3 \<noteq> 0 then log_line Level_Error ''Invalid Location Message'' s
         else log_line Level_Info (''Location: '' @ label) s)"

definition message_cluster_of_msgtype :: "(string \<times> msg_handler option) list" where
  "message_cluster_of_msgtype =
     [(''text'', Some OnRecvText), (''image'', Some OnRecvImage), (''voice'', Some OnRecvVoice),
      (''video'', Some OnRecvVideo), (''location'', Some OnRecvLocation), ([], None)]"

definition RouteWxWorkMessage_HandleMessage :: msg_handler where
  "RouteWxWorkMessage_HandleMessage =
     dispatch_field message_cluster_of_msgtype ''MsgType'' ''Invalid Message Type: ''"

section \<open>Callbacks\<close>

text \<open>The object for a corporation's application, with empty strings for what is not configured.\<close>

definition callback_crypt :: "corps \<Rightarrow> string \<Rightarrow> string \<Rightarrow> wx_crypt" where
  "callback_crypt m corp app =
     (case app_Corp m corp of
        Some c \<Rightarrow>
          \<lparr>m_sToken = CorpInfo_GetAppParam c app ''callback_token'',
           m_sEncodingAESKey = CorpInfo_GetAppParam c app ''callback_aeskey'', m_sReceiveId = ci_corp_id c\<rparr>
      | None \<Rightarrow> \<lparr>m_sToken = [], m_sEncodingAESKey = [], m_sReceiveId = []\<rparr>)"

definition RouteCallback_Process :: "string \<Rightarrow> string \<Rightarrow> (wx_crypt \<Rightarrow> xauth_state route_proc) \<Rightarrow> xauth_state route_proc" where
  "RouteCallback_Process corp app OnMessage req resp s =
     OnMessage (callback_crypt (xa_corps s) corp app) req (SetStatus 200 resp) s"

definition RouteCallbackVerify_OnMessage :: "wx_crypto \<Rightarrow> wx_crypt \<Rightarrow> xauth_state route_proc" where
  "RouteCallbackVerify_OnMessage env wxbmc req resp s =
     (let resp1 = SetStatus 200 resp
      in obind (query_arg req ''msg_signature'') (\<lambda>msgsig.
         obind (query_arg req ''timestamp'') (\<lambda>timestamp.
         obind (query_arg req ''nonce'') (\<lambda>nonce.
         obind (query_arg req ''echostr'') (\<lambda>echostr.
         obind (VerifyURL env wxbmc msgsig timestamp nonce echostr) (\<lambda>(ret, echo).
           if ret \<noteq> WX_OK then Inr (0, resp1, s)
           else Inr (0, SetContent (Mstr (case echo of None \<Rightarrow> [] | Some e \<Rightarrow> e)) resp1, s)))))))"

definition RouteCallbackHandler_OnMessage :: "wx_crypto \<Rightarrow> msg_handler \<Rightarrow> wx_crypt \<Rightarrow> xauth_state route_proc" where
  "RouteCallbackHandler_OnMessage env HandleMessage wxbmc req resp s =
     (let resp1 = SetStatus 200 resp
      in obind (query_arg req ''msg_signature'') (\<lambda>msgsig.
         obind (query_arg req ''timestamp'') (\<lambda>timestamp.
         obind (query_arg req ''nonce'') (\<lambda>nonce.
         obind (DecryptMsg env wxbmc msgsig timestamp nonce (body_arg req)) (\<lambda>(ret, message).
           if ret \<noteq> WX_OK then Inr (0, resp1, s)
           else let xml = XmlReader_new (case message of None \<Rightarrow> [] | Some e \<Rightarrow> e)
                in Inr (0, resp1, HandleMessage xml s))))))"

definition RouteContactVerify :: "xauth_env \<Rightarrow> xauth_state route_proc" where
  "RouteContactVerify env =
     RouteCallback_Process ''Main'' ''contact'' (RouteCallbackVerify_OnMessage (xe_crypto env))"

definition RouteContactHandler :: "xauth_env \<Rightarrow> xauth_state route_proc" where
  "RouteContactHandler env =
     RouteCallback_Process ''Main'' ''contact''
       (RouteCallbackHandler_OnMessage (xe_crypto env) RouteContact_HandleMessage)"

definition RouteWxWorkMessageVerify :: "xauth_env \<Rightarrow> xauth_state route_proc" where
  "RouteWxWorkMessageVerify env =
     RouteCallback_Process ''Main'' ''notify'' (RouteCallbackVerify_OnMessage (xe_crypto env))"

definition RouteWxWorkMessageHandler :: "xauth_env \<Rightarrow> xauth_state route_proc" where
  "RouteWxWorkMessageHandler env =
     RouteCallback_Process ''Main'' ''notify''
       (RouteCallbackHandler_OnMessage (xe_crypto env) RouteWxWorkMessage_HandleMessage)"

section \<open>Tokens and notifications\<close>

definition RouteNewToken_Process :: "xauth_env \<Rightarrow> xauth_state route_proc" where
  "RouteNewToken_Process env req resp s =
     (let resp1 = SetStatus 200 resp
      in obind (query_arg req ''corp'') (\<lambda>corp.
         obind (query_arg req ''app'') (\<lambda>app.
         obind (query_arg req ''code'') (\<lambda>code.
         obind (app_GetAccessToken (xe_wx env) corp app (xa_corps s)) (\<lambda>(access_token, corps).
         obind (WxUserInfo_new (xe_wx env) access_token code) (\<lambda>user_info.
           Inr (0, SetContent (Mstr (ui_raw_content user_info)) resp1, s\<lparr>xa_corps := corps\<rparr>)))))))"

definition RouteWxWorkAccessToken_Process :: "xauth_env \<Rightarrow> xauth_state route_proc" where
  "RouteWxWorkAccessToken_Process env req resp s =
     (let resp1 = SetStatus 200 resp
      in obind (query_arg req ''corp'') (\<lambda>corp.
         obind (query_arg req ''app'') (\<lambda>app.
           if corp = [] \<or> app = [] then Inr (0, resp1, s)
           else
             obind (app_GetAccessToken (xe_wx env) corp app (xa_corps s)) (\<lambda>(access_token, corps).
             obind (Json_Set_string JsonDocument ''access_token'' access_token) (\<lambda>doc.
               Inr (0, SetContent (Mstr (JsonDocument_Write (we_io (xe_wx env)) False doc))
                         (SetHeader (Mstr ''Content-Type'') (Mstr ''application/json'') resp1),
                    s\<lparr>xa_corps := corps\<rparr>))))))"

text \<open>A corporation changed by a getter, put back into the table.\<close>

definition put_corp :: "string \<Rightarrow> corp_info \<Rightarrow> xauth_state \<Rightarrow> xauth_state" where
  "put_corp name c s = s\<lparr>xa_corps := amap_set name c (xa_corps s)\<rparr>"

definition RouteApi_Process ::
    "string \<Rightarrow> (http_request \<Rightarrow> http_response \<Rightarrow> corp_info option \<Rightarrow> xauth_state \<Rightarrow> (int \<times> http_response \<times> xauth_state) outcome) \<Rightarrow>
     xauth_state route_proc" where
  "RouteApi_Process corp ApiHandler req resp s = ApiHandler req (SetStatus 200 resp) (app_Corp (xa_corps s) corp) s"

definition RouteNotify_ApiHandler ::
    "xauth_env \<Rightarrow> http_request \<Rightarrow> http_response \<Rightarrow> corp_info option \<Rightarrow> xauth_state \<Rightarrow> (int \<times> http_response \<times> xauth_state) outcome" where
  "RouteNotify_ApiHandler env req resp info s =
     (let resp1 = SetStatus 200 resp
      in obind (JsonDocument_Parse (we_io (xe_wx env)) (body_arg req) JsonDocument) (\<lambda>(_, doc).
         obind (Json_Get_string doc ''touser'') (\<lambda>touser.
         obind (Json_Get_string doc ''content'') (\<lambda>content.
         obind (SendAppTextMessage (xe_wx env) ''notify'' (case touser of Some t \<Rightarrow> t | None \<Rightarrow> [])
                  (case content of Some t \<Rightarrow> t | None \<Rightarrow> []) info) (\<lambda>((url, message), c).
           Inr (0, resp1, Execute (AsyncPostTask url message) (put_corp ''Main'' c s)))))))"

definition RouteNotify_Process :: "xauth_env \<Rightarrow> xauth_state route_proc" where
  "RouteNotify_Process env = RouteApi_Process ''Main'' (RouteNotify_ApiHandler env)"

text \<open>\<open>hlp::crypt::sha1\<close>, and the two signatures of a ticket; the time is printed with \<open>%d\<close>.\<close>

definition crypt_sha1 :: "xauth_env \<Rightarrow> string \<Rightarrow> string" where
  "crypt_sha1 env src = Bytes2HexStr (xe_sha1 env (map byte_of src))"

definition ticket_text :: "string \<Rightarrow> string \<Rightarrow> int \<Rightarrow> string \<Rightarrow> string" where
  "ticket_text ticket nonce timestamp url =
     FormatV (''jsapi_ticket='' @ c_str ticket @ ''&noncestr='' @ c_str nonce @ ''&timestamp='' @
       dec_int (int32 timestamp) @ ''&url='' @ c_str url)"

definition RouteWxWorkJsapiTicket_Process :: "xauth_env \<Rightarrow> xauth_state route_proc" where
  "RouteWxWorkJsapiTicket_Process env req resp s =
     (let resp1 = SetStatus 200 resp
      in obind (query_arg req ''corp'') (\<lambda>corp.
         obind (query_arg req ''app'') (\<lambda>app.
         obind (query_arg req ''url'') (\<lambda>url.
           if corp = [] \<or> app = [] then Inr (0, resp1, s)
           else case app_Corp (xa_corps s) corp of
             None \<Rightarrow> Inl Null_Deref
           | Some info \<Rightarrow>
               obind (app_GetJsapiTicket (xe_wx env) corp app (xa_corps s)) (\<lambda>(ticket, corps).
                 let s1 = s\<lparr>xa_corps := corps\<rparr>
                 in if ticket = [] then Inr (0, resp1, s1)
                    else
                      obind (JsonDocument_Parse (we_io (xe_wx env)) ticket JsonDocument) (\<lambda>(_, doc).
                         obind (Json_Get_string doc ''corp_jsapi_ticket'') (\<lambda>corp_ticket.
                         obind (Json_Get_string doc ''app_jsapi_ticket'') (\<lambda>app_ticket.
                           let now = we_now (xe_wx env);
                               nonce = xe_uuid env;
                               corp_text = ticket_text (case corp_ticket of Some t \<Rightarrow> t | None \<Rightarrow> []) nonce now url;
                               app_text = ticket_text (case app_ticket of Some t \<Rightarrow> t | None \<Rightarrow> []) nonce now url;
                               config_signature = crypt_sha1 env corp_text;
                               agent_config_signature = crypt_sha1 env app_text
                           in obind (Json_Set_string JsonDocument ''corpid'' (ci_corp_id info)) (\<lambda>d1.
                              obind (Json_Set_int d1 ''appid'' (CorpInfo_AppId info app)) (\<lambda>d2.
                              obind (Json_Set_string d2 ''nonce'' nonce) (\<lambda>d3.
                              obind (Json_Set_int d3 ''timestamp'' (int32 now)) (\<lambda>d4.
                              obind (Json_Set_string d4 ''config_signature'' config_signature) (\<lambda>d5.
                              obind (Json_Set_string d5 ''agent_config_signature'' config_signature) (\<lambda>d6.
                                Inr (0, SetContent (Mstr (JsonDocument_Write (we_io (xe_wx env)) False d6))
                                          (SetHeader (Mstr ''Content-Type'') (Mstr ''application/json'') resp1),
                                     s1)))))))))))))))"

section \<open>The tasks\<close>

definition run_contact_notify :: "xauth_env \<Rightarrow> xauth_task \<Rightarrow> xauth_state \<Rightarrow> xauth_state outcome" where
  "run_contact_notify env t s =
     obind (GetExternalContact (xe_wx env) (c_str (en_corp t)) (c_str (en_app t)) (c_str (en_external_userid t)) (xa_corps s))
       (\<lambda>(answer, c).
         let s1 = put_corp (c_str (en_corp t)) c s
         in obind (WxResp_Parse (xe_wx env) answer) (\<lambda>(_, info).
            obind (WxResp_Get info ''external_contact.name'') (\<lambda>wechat.
            obind (SendAppTextMessage_name (xe_wx env) (c_str (en_corp t)) (c_str (en_app t)) (c_str (en_userid t))
                     (c_str (en_action t) @ wechat) (xa_corps s1)) (\<lambda>((url, message), c2).
              Inr (Execute (AsyncPostTask url message) (put_corp (c_str (en_corp t)) c2 s1))))))"

fun run_task :: "xauth_env \<Rightarrow> xauth_task \<Rightarrow> xauth_state \<Rightarrow> xauth_state outcome" where
  "run_task env (AsyncPostTask url content) s = obind (WxApi_Post (xe_wx env) (c_str url) (c_str content)) (\<lambda>_. Inr s)"
| "run_task env t s = run_contact_notify env t s"

section \<open>The table of routes\<close>

definition RouteWxWorkJsapiTicket_key :: route_key where
  "RouteWxWorkJsapiTicket_key = Route_Key HTTP_GET (Mstr ''/wxwork/jsapi_ticket'')"

definition xauth_procs :: "xauth_env \<Rightarrow> (route_key \<times> xauth_state route_proc) list" where
  "xauth_procs env =
     [(Route_Key HTTP_GET (Mstr ''/xauth/token''), RouteNewToken_Process env),
      (Route_Key HTTP_GET (Mstr ''/wxwork/message''), RouteWxWorkMessageVerify env),
      (Route_Key HTTP_POST (Mstr ''/wxwork/message''), RouteWxWorkMessageHandler env),
      (Route_Key HTTP_POST (Mstr ''/wxwork/notify''), RouteNotify_Process env),
      (Route_Key HTTP_GET (Mstr ''/wxwork/contact''), RouteContactVerify env),
      (Route_Key HTTP_POST (Mstr ''/wxwork/contact''), RouteContactHandler env),
      (Route_Key HTTP_GET (Mstr ''/wxwork/access_token''), RouteWxWorkAccessToken_Process env)]"

definition XAuthRoutes_InitTable :: "xauth_env \<Rightarrow> xauth_state route_table" where
  "XAuthRoutes_InitTable env = Routes_of (xauth_procs env)"

section \<open>\<open>ErrorMessage\<close>\<close>

definition xauth_error_list :: "(int \<times> string) list" where
  "xauth_error_list = [(0, ''No Error''), (0x7fffffff, ''Unknown Error'')]"

text \<open>A matching row is left for the row whose index is the code.\<close>

definition ErrorMessage :: "int \<Rightarrow> string outcome" where
  "ErrorMessage error =
     (let code = int32 (- error)
      in if code \<in> fst ` set xauth_error_list
         then (if 0 \<le> code \<and> code < int (length xauth_error_list) then Inr (snd (xauth_error_list ! nat code))
               else Inl Out_Of_Bounds)
         else Inr (snd (last xauth_error_list)))"

section \<open>Lemmas: dispatch\<close>

lemma map_of_xauth:
  "map_of (XAuthRoutes_InitTable env) k = map_option Some (map_of (rev (xauth_procs env)) k)"
  by (simp add: XAuthRoutes_InitTable_def map_of_Routes_of)

lemma dispatch_found:
  assumes "xml_field xml field = Some name" and "get_handler table name = Some h"
  shows "dispatch_field table field complaint xml s = h xml s"
  using assms by (simp add: dispatch_field_def XmlReader_Get_def)

text \<open>A table whose named handlers only log or push keeps the corporations.\<close>

lemma dispatch_keeps:
  assumes "\<And>name h. get_handler table name = Some h \<Longrightarrow> P (h xml s)"
    and "\<And>line. P (log_line Level_Error line s)" and "P s"
  shows "P (dispatch_field table field complaint xml s)"
  using assms by (auto simp: dispatch_field_def split: prod.splits option.splits)

definition contact_tasks :: "xml_reader \<Rightarrow> xauth_task list" where
  "contact_tasks xml =
     (if xml_field xml ''MsgType'' = Some ''event'' \<and> xml_field xml ''Event'' = Some ''change_external_contact''
      then (if xml_field xml ''ChangeType'' = Some ''add_external_contact''
            then [contact_task ''New External Contact: '' xml]
            else if xml_field xml ''ChangeType'' = Some ''del_external_contact''
            then [contact_task ''Del External Contact: '' xml] else [])
      else [])"

lemma change_external_contact_tasks:
  "xa_tasks (OnChangeExternalContact xml s) = xa_tasks s @
     (if xml_field xml ''ChangeType'' = Some ''add_external_contact'' then [contact_task ''New External Contact: '' xml]
      else if xml_field xml ''ChangeType'' = Some ''del_external_contact'' then [contact_task ''Del External Contact: '' xml]
      else [])"
  by (simp add: OnChangeExternalContact_def dispatch_field_def XmlReader_Get_def log_line_def
      cluster_of_change_external_contact_def OnAddExternalContact_def OnDelExternalContact_def OnDelFollowUser_def
      Execute_def split: option.splits)

lemma change_contact_tasks: "xa_tasks (OnChangeContact xml s) = xa_tasks s"
  by (simp add: OnChangeContact_def dispatch_field_def XmlReader_Get_def log_line_def cluster_of_change_contact_def
      OnAddUser_def OnUpdateUser_def OnDeleteUser_def split: option.splits)

lemma event_tasks:
  "xa_tasks (OnEvent xml s) = xa_tasks s @
     (if xml_field xml ''Event'' = Some ''change_external_contact''
      then (if xml_field xml ''ChangeType'' = Some ''add_external_contact'' then [contact_task ''New External Contact: '' xml]
            else if xml_field xml ''ChangeType'' = Some ''del_external_contact'' then [contact_task ''Del External Contact: '' xml]
            else [])
      else [])"
  by (simp add: OnEvent_def dispatch_field_def XmlReader_Get_def log_line_def cluster_of_event_def
      change_external_contact_tasks change_contact_tasks OnChangeExternalChat_def split: option.splits)

lemma contact_handle_tasks: "xa_tasks (RouteContact_HandleMessage xml s) = xa_tasks s @ contact_tasks xml"
  by (simp add: RouteContact_HandleMessage_def dispatch_field_def XmlReader_Get_def log_line_def
      contact_cluster_of_msgtype_def event_tasks contact_tasks_def split: option.splits)

lemmas handler_defs = RouteContact_HandleMessage_def RouteWxWorkMessage_HandleMessage_def OnEvent_def OnChangeContact_def
  OnChangeExternalContact_def dispatch_field_def contact_cluster_of_msgtype_def message_cluster_of_msgtype_def
  cluster_of_event_def cluster_of_change_contact_def cluster_of_change_external_contact_def OnAddUser_def OnUpdateUser_def
  OnDeleteUser_def OnDelFollowUser_def OnChangeExternalChat_def OnAddExternalContact_def OnDelExternalContact_def
  OnRecvText_def OnRecvImage_def OnRecvVoice_def OnRecvVideo_def OnRecvLocation_def recv_field_def log_line_def Execute_def

lemma contact_handle_corps: "xa_corps (RouteContact_HandleMessage xml s) = xa_corps s"
  by (simp add: handler_defs split: prod.splits option.splits)

lemma message_handle_state:
  "xa_corps (RouteWxWorkMessage_HandleMessage xml s) = xa_corps s"
  "xa_tasks (RouteWxWorkMessage_HandleMessage xml s) = xa_tasks s"
  by (simp_all add: handler_defs split: prod.splits option.splits)

section \<open>Lemmas: callbacks\<close>

text \<open>The request carries the signature of the configured token over its time, nonce and encrypted text.\<close>

definition signed_callback :: "wx_crypto \<Rightarrow> wx_crypt \<Rightarrow> http_request \<Rightarrow> bool" where
  "signed_callback env w req \<longleftrightarrow>
     (\<exists>ts nonce enc digest. m_sToken w \<noteq> [] \<and> query_arg req ''timestamp'' = Inr ts \<and> query_arg req ''nonce'' = Inr nonce \<and>
        GetXmlField (body_arg req) ''Encrypt'' = Some enc \<and>
        sha1 env (concat (sort [m_sToken w, ts, nonce, enc])) = Some digest \<and>
        query_arg req ''msg_signature'' = Inr (concat (map hex_lower (take 20 digest))))"

lemma DecryptMsg_OK_signed:
  assumes "DecryptMsg env w sig ts nonce post = Inr (WX_OK, out)"
  shows "\<exists>enc digest. m_sToken w \<noteq> [] \<and> GetXmlField post ''Encrypt'' = Some enc \<and>
    sha1 env (concat (sort [m_sToken w, ts, nonce, enc])) = Some digest \<and> sig = concat (map hex_lower (take 20 digest))"
  using assms
  by (auto simp: DecryptMsg_def ValidateSignature_def ComputeSignature_def simp del: sort_key_simps
      split: option.splits if_splits)

lemma handler_needs_signature:
  assumes "RouteCallbackHandler_OnMessage env h w req resp s = Inr (ret, resp', s')" and "s' \<noteq> s"
  shows "signed_callback env w req"
proof -
  from assms(1) obtain sig where sig: "query_arg req ''msg_signature'' = Inr sig"
    by (cases "query_arg req ''msg_signature''") (auto simp: RouteCallbackHandler_OnMessage_def Let_def)
  from assms(1) sig obtain ts where ts: "query_arg req ''timestamp'' = Inr ts"
    by (cases "query_arg req ''timestamp''") (auto simp: RouteCallbackHandler_OnMessage_def Let_def)
  from assms(1) sig ts obtain nonce where nonce: "query_arg req ''nonce'' = Inr nonce"
    by (cases "query_arg req ''nonce''") (auto simp: RouteCallbackHandler_OnMessage_def Let_def)
  from assms sig ts nonce obtain out where "DecryptMsg env w sig ts nonce (body_arg req) = Inr (WX_OK, out)"
    by (cases "DecryptMsg env w sig ts nonce (body_arg req)")
      (auto simp: RouteCallbackHandler_OnMessage_def Let_def split: if_splits)
  from DecryptMsg_OK_signed [OF this] sig ts nonce show ?thesis unfolding signed_callback_def by blast
qed

section \<open>Lemmas: a contact event\<close>

lemma xauth_contact_route:
  "rq_method req = Some HTTP_POST \<Longrightarrow> rq_url req = Mstr ''/wxwork/contact'' \<Longrightarrow>
   Routes_Process (XAuthRoutes_InitTable env) req resp s = RouteContactHandler env req resp s"
  by (simp add: Routes_Process_def HttpRequest_method_def map_of_xauth xauth_procs_def
      HTTP_POST_def HTTP_HEAD_def HTTP_GET_def)

text \<open>
  Every contact request with this body, signature, time and nonce is answered 200, pushes these tasks and
  keeps the corporations.
\<close>

definition event_accepted ::
    "xauth_env \<Rightarrow> xauth_state \<Rightarrow> string \<Rightarrow> string \<Rightarrow> string \<Rightarrow> string \<Rightarrow> xauth_task list \<Rightarrow> bool" where
  "event_accepted env s ts nonce xml sig tasks \<longleftrightarrow>
     (\<forall>req resp. rq_method req = Some HTTP_POST \<and> rq_url req = Mstr ''/wxwork/contact'' \<and> body_arg req = xml \<and>
       query_arg req ''msg_signature'' = Inr sig \<and> query_arg req ''timestamp'' = Inr ts \<and>
       query_arg req ''nonce'' = Inr nonce \<longrightarrow>
       (\<exists>s'. Routes_Process (XAuthRoutes_InitTable env) req resp s = Inr (0, SetStatus 200 (SetStatus 200 resp), s') \<and>
         xa_tasks s' = xa_tasks s @ tasks \<and> xa_corps s' = xa_corps s))"

lemma contact_event:
  assumes env: "crypto_ok (xe_crypto env)"
    and w: "w = callback_crypt (xa_corps s) ''Main'' ''contact''" "m_sToken w \<noteq> []"
    and key: "GenAesKeyFromEncodingKey (xe_crypto env) (m_sEncodingAESKey w) = Some key"
    and fs: "list_all field_ok fs"
    and msg: "msg = fields_text fs" "length msg + length (m_sReceiveId w) \<le> 749999900"
    and args: "cdata_ok ts" "cdata_ok nonce"
  shows "\<exists>xml sig. EncryptMsg (xe_crypto env) w msg ts nonce = Inr (WX_OK, Some xml) \<and>
    GetXmlField xml ''MsgSignature'' = Some sig \<and>
    event_accepted env s ts nonce xml sig (contact_tasks (fields_doc fs))"
proof -
  have "msg \<noteq> []" using fields_text_nonempty [OF fs] msg(1) by simp
  then obtain xml sig where enc: "EncryptMsg (xe_crypto env) w msg ts nonce = Inr (WX_OK, Some xml)"
    and sig: "GetXmlField xml ''MsgSignature'' = Some sig"
    and dec: "DecryptMsg (xe_crypto env) w sig ts nonce xml = Inr (WX_OK, Some msg)"
    using encrypt_decrypt [OF env key _ msg(2) w(2) args] by blast
  have "\<exists>s'. Routes_Process (XAuthRoutes_InitTable env) req resp s = Inr (0, SetStatus 200 (SetStatus 200 resp), s') \<and>
        xa_tasks s' = xa_tasks s @ contact_tasks (fields_doc fs) \<and> xa_corps s' = xa_corps s"
    if req: "rq_method req = Some HTTP_POST" "rq_url req = Mstr ''/wxwork/contact''" "body_arg req = xml"
      "query_arg req ''msg_signature'' = Inr sig" "query_arg req ''timestamp'' = Inr ts" "query_arg req ''nonce'' = Inr nonce"
    for req resp
  proof -
    have "Routes_Process (XAuthRoutes_InitTable env) req resp s = RouteContactHandler env req resp s"
      by (rule xauth_contact_route [OF req(1,2)])
    also have "\<dots> = Inr (0, SetStatus 200 (SetStatus 200 resp), RouteContact_HandleMessage (fields_doc fs) s)"
      using req(3-6) dec fields_read [OF fs]
      by (simp add: msg(1) RouteContactHandler_def RouteCallback_Process_def RouteCallbackHandler_OnMessage_def Let_def
          w(1) [symmetric] XmlReader_new_def XmlReader_Parse_def)
    finally show ?thesis by (simp add: contact_handle_tasks contact_handle_corps)
  qed
  then have "event_accepted env s ts nonce xml sig (contact_tasks (fields_doc fs))"
    unfolding event_accepted_def by blast
  with enc sig show ?thesis by blast
qed

definition example_state :: xauth_state where
  "example_state =
     \<lparr>xa_corps = [(''Main'', \<lparr>ci_corp_id = ''ww1'',
        ci_apps = [(''contact'', AppInfo_SetAppParam ''callback_aeskey'' (m_sEncodingAESKey example_crypt)
           (AppInfo_SetAppParam ''callback_token'' ''token'' (AppInfo_new (\<lambda>_. \<lparr>nf_size = 0, nf_byte = \<lambda>_. 0\<rparr>) ''1'' ''s'')))]\<rparr>)],
      xa_tasks = [], xa_log = []\<rparr>"

definition example_env :: xauth_env where
  "example_env =
     \<lparr>xe_wx = \<lparr>we_curl = \<lambda>_. None, we_io = example_io, we_now = 0, we_junk = 0\<rparr>,
      xe_crypto = example_crypto, xe_uuid = [], xe_sha1 = \<lambda>_. []\<rparr>"

lemma example_callback: "callback_crypt (xa_corps example_state) ''Main'' ''contact'' = example_crypt"
  by (simp add: callback_crypt_def example_state_def app_Corp_def CorpInfo_GetAppParam_def CorpInfo_GetApp_def
      AppInfo_GetAppParam_def AppInfo_SetAppParam_def AppInfo_new_def example_crypt_def)

definition example_fields :: "(string \<times> string) list" where
  "example_fields = [(''MsgType'', ''event''), (''Event'', ''change_external_contact''),
     (''ChangeType'', ''add_external_contact''), (''UserID'', ''u1''), (''ExternalUserID'', ''e1'')]"

definition callback_request :: "string \<Rightarrow> string \<Rightarrow> string \<Rightarrow> string \<Rightarrow> http_request" where
  "callback_request sig ts nonce body = (HttpRequest_new 4 0)
     \<lparr>rq_method := Some HTTP_POST, rq_url := Mstr ''/wxwork/contact'', rq_body := Mstr body,
      rq_queries := [(Mstr ''msg_signature'', Mstr (UrlEncode sig)), (Mstr ''nonce'', Mstr (UrlEncode nonce)),
        (Mstr ''timestamp'', Mstr (UrlEncode ts))]\<rparr>"

lemma callback_request_route:
  "rq_method (callback_request sig ts nonce body) = Some HTTP_POST"
  "rq_url (callback_request sig ts nonce body) = Mstr ''/wxwork/contact''"
  by (simp_all add: callback_request_def)

lemma callback_request_args:
  "query_arg (callback_request sig ts nonce body) ''msg_signature'' = Inr (c_str sig)"
  "query_arg (callback_request sig ts nonce body) ''timestamp'' = Inr (c_str ts)"
  "query_arg (callback_request sig ts nonce body) ''nonce'' = Inr (c_str nonce)"
  by (simp_all add: query_arg_def HttpRequest_query_def callback_request_def c_str_no_nul [OF UrlEncode_no_nul])

lemma printed_no_nul: "CHR 0x00 \<notin> set (GenReturnXml e sig ts nonce)"
  by (simp add: GenReturnXml_def XMLDocument_text_def)

lemma GetXmlField_c_str: "GetXmlField xml field = Some v \<Longrightarrow> c_str v = v"
  by (auto simp: GetXmlField_def xml_field_def Let_def split: option.splits if_splits)

lemma EncryptMsg_printed:
  "EncryptMsg env w msg ts nonce = Inr (WX_OK, Some xml) \<Longrightarrow> \<exists>e sig. xml = GenReturnXml e sig ts nonce"
  by (cases "GenNeedEncryptData env w msg"; cases "GenAesKeyFromEncodingKey env (m_sEncodingAESKey w)")
    (auto simp: EncryptMsg_def obind_def split: if_splits option.splits sum.splits)

text \<open>A request that satisfies the premises exists.\<close>

lemma example_event:
  assumes xml: "EncryptMsg example_crypto example_crypt msg ''1600000000'' ''n'' = Inr (WX_OK, Some xml)"
    and sig: "GetXmlField xml ''MsgSignature'' = Some sig"
    and all: "event_accepted example_env example_state ''1600000000'' ''n'' xml sig (contact_tasks (fields_doc example_fields))"
  shows "\<exists>s'. Routes_Process (XAuthRoutes_InitTable example_env) (callback_request sig ''1600000000'' ''n'' xml)
      HttpResponse_new example_state = Inr (0, SetStatus 200 (SetStatus 200 HttpResponse_new), s') \<and>
    xa_tasks s' = [ExternalContactNotify ''New External Contact: '' ''Main'' ''contact'' ''u1'' ''e1'']"
proof -
  let ?req = "callback_request sig ''1600000000'' ''n'' xml"
  have "CHR 0x00 \<notin> set xml" using EncryptMsg_printed [OF xml] printed_no_nul by auto
  then have "body_arg ?req = xml" by (simp add: body_arg_def callback_request_def)
  moreover have "rq_method ?req = Some HTTP_POST" "rq_url ?req = Mstr ''/wxwork/contact''"
    by (simp_all add: callback_request_def)
  moreover have "query_arg ?req ''msg_signature'' = Inr sig" "query_arg ?req ''timestamp'' = Inr ''1600000000''"
    "query_arg ?req ''nonce'' = Inr ''n''"
    using GetXmlField_c_str [OF sig] by (simp_all only: callback_request_args) (simp_all add: c_str_def)
  ultimately have "\<exists>s'. Routes_Process (XAuthRoutes_InitTable example_env) ?req HttpResponse_new example_state =
          Inr (0, SetStatus 200 (SetStatus 200 HttpResponse_new), s') \<and>
        xa_tasks s' = xa_tasks example_state @ contact_tasks (fields_doc example_fields)"
    using all unfolding event_accepted_def by blast
  moreover have "xa_tasks example_state @ contact_tasks (fields_doc example_fields) =
      [ExternalContactNotify ''New External Contact: '' ''Main'' ''contact'' ''u1'' ''e1'']"
    by (simp add: example_state_def contact_tasks_def contact_task_def example_fields_def fields_doc_def xml_field_def
        GetText_def c_str_def XmlReader_Get_def)
  ultimately show ?thesis by metis
qed

lemma example_premises:
  shows "list_all field_ok example_fields"
    "length (fields_text example_fields) + length (m_sReceiveId example_crypt) \<le> 749999900"
    "cdata_ok ''1600000000''" "cdata_ok ''n''" "m_sToken example_crypt \<noteq> []" "xe_crypto example_env = example_crypto"
proof -
  show "list_all field_ok example_fields" by code_simp
  have "length (fields_text example_fields) < 400" by code_simp
  then show "length (fields_text example_fields) + length (m_sReceiveId example_crypt) \<le> 749999900"
    by (simp add: example_crypt_def)
  show "cdata_ok ''1600000000''" "cdata_ok ''n''" by code_simp+
qed (simp_all add: example_crypt_def example_env_def)

section \<open>Properties\<close>

text \<open>C14: the callback of contacts changes nothing, whatever is posted to it, unless the request carries the
  signature of a configured, non-empty token over its time, nonce and encrypted text.  In particular a
  corporation or application that is not configured rejects everything.\<close>

theorem callback_needs_signature:
  assumes "RouteContactHandler env req resp s = Inr (ret, resp', s')" and "s' \<noteq> s"
  shows "signed_callback (xe_crypto env) (callback_crypt (xa_corps s) ''Main'' ''contact'') req \<and>
    CorpInfo_GetApp (the (app_Corp (xa_corps s) ''Main'')) ''contact'' \<noteq> None"
proof -
  let ?w = "callback_crypt (xa_corps s) ''Main'' ''contact''"
  have sc: "signed_callback (xe_crypto env) ?w req"
    using handler_needs_signature assms unfolding RouteContactHandler_def RouteCallback_Process_def by blast
  then have "m_sToken ?w \<noteq> []" unfolding signed_callback_def by blast
  with sc show ?thesis
    by (auto simp: callback_crypt_def CorpInfo_GetAppParam_def split: option.splits)
qed

lemma callback_needs_signature_witness:
  "\<exists>req. signed_callback example_crypto example_crypt req"
proof -
  note pre = example_premises
  obtain xml sig where xml: "EncryptMsg example_crypto example_crypt (fields_text example_fields)
      ''1600000000'' ''n'' = Inr (WX_OK, Some xml)" "GetXmlField xml ''MsgSignature'' = Some sig"
    "event_accepted example_env example_state ''1600000000'' ''n'' xml sig (contact_tasks (fields_doc example_fields))"
    using contact_event [of example_env example_crypt example_state _ example_fields _ "''1600000000''" "''n''",
        unfolded pre(6), OF example_crypto_ok example_callback [symmetric] pre(5) example_key pre(1) refl pre(2-4)] by blast
  let ?req = "callback_request sig ''1600000000'' ''n'' xml"
  from example_event [OF xml] obtain s' where s': "RouteContactHandler example_env ?req HttpResponse_new example_state =
      Inr (0, SetStatus 200 (SetStatus 200 HttpResponse_new), s')" "xa_tasks s' \<noteq> []"
    by (auto simp: xauth_contact_route callback_request_route)
  then have "s' \<noteq> example_state" by (auto simp: example_state_def)
  from callback_needs_signature [OF s'(1) this] show ?thesis by (auto simp: example_callback pre(6))
qed

text \<open>C2: a contact event from end to end.  A message of fields that \<open>EncryptMsg\<close> made with the configured
  token, key and corporation, posted to \<open>/wxwork/contact\<close> with its signature, is answered 200 and pushes
  exactly the notification of its change type; nothing else of the state changes.\<close>

theorem contact_event_end_to_end:
  assumes env: "crypto_ok (xe_crypto env)"
    and w: "w = callback_crypt (xa_corps s) ''Main'' ''contact''" "m_sToken w \<noteq> []"
    and key: "GenAesKeyFromEncodingKey (xe_crypto env) (m_sEncodingAESKey w) = Some key"
    and fs: "list_all field_ok fs"
    and msg: "msg = fields_text fs" "length msg + length (m_sReceiveId w) \<le> 749999900"
    and args: "cdata_ok ts" "cdata_ok nonce"
  shows "\<exists>xml sig. EncryptMsg (xe_crypto env) w msg ts nonce = Inr (WX_OK, Some xml) \<and>
    GetXmlField xml ''MsgSignature'' = Some sig \<and>
    event_accepted env s ts nonce xml sig (contact_tasks (fields_doc fs))"
  by (rule contact_event [OF assms])

lemma contact_event_end_to_end_witness:
  "\<exists>req s'. Routes_Process (XAuthRoutes_InitTable example_env) req HttpResponse_new example_state =
      Inr (0, SetStatus 200 (SetStatus 200 HttpResponse_new), s') \<and>
    xa_tasks s' = [ExternalContactNotify ''New External Contact: '' ''Main'' ''contact'' ''u1'' ''e1'']"
proof -
  note pre = example_premises
  obtain xml sig where xml: "EncryptMsg example_crypto example_crypt (fields_text example_fields)
      ''1600000000'' ''n'' = Inr (WX_OK, Some xml)" "GetXmlField xml ''MsgSignature'' = Some sig"
    "event_accepted example_env example_state ''1600000000'' ''n'' xml sig (contact_tasks (fields_doc example_fields))"
    using contact_event_end_to_end [of example_env example_crypt example_state _ example_fields _ "''1600000000''" "''n''",
        unfolded pre(6), OF example_crypto_ok example_callback [symmetric] pre(5) example_key pre(1) refl pre(2-4)] by blast
  from example_event [OF xml] show ?thesis by blast
qed

section \<open>The service over time\<close>

text \<open>
  From the start on: any request answered through the table, any pushed task run, each with whatever the
  environment then answers.
\<close>

inductive xauth_reach :: "(string \<Rightarrow> nfile) \<Rightarrow> config \<Rightarrow> xauth_state \<Rightarrow> bool" for files conf where
  started: "xauth_reach files conf \<lparr>xa_corps = app_Initialize files conf, xa_tasks = [], xa_log = []\<rparr>"
| request: "xauth_reach files conf s \<Longrightarrow>
    Routes_Process (XAuthRoutes_InitTable env) req resp s = Inr (ret, resp', s') \<Longrightarrow> xauth_reach files conf s'"
| task: "xauth_reach files conf s \<Longrightarrow> t \<in> set (xa_tasks s) \<Longrightarrow> run_task env t s = Inr s' \<Longrightarrow> xauth_reach files conf s'"

definition without_token :: "xauth_task \<Rightarrow> bool" where
  "without_token t = (case t of AsyncPostTask url _ \<Rightarrow> url = message_url [] | _ \<Rightarrow> True)"

definition xauth_cold :: "xauth_state \<Rightarrow> bool" where
  "xauth_cold s \<longleftrightarrow> amap_ok (xa_corps s) \<and> (\<forall>x \<in> set (xa_corps s). corp_cold (snd x)) \<and>
     (\<forall>t \<in> set (xa_tasks s). without_token t)"

lemma cold_corp:
  assumes "xauth_cold s" and "app_Corp (xa_corps s) name = Some c"
  shows "corp_cold c" "put_corp name c s = s"
  using assms map_of_SomeD [of "xa_corps s" name c]
  by (fastforce simp: xauth_cold_def app_Corp_def put_corp_def amap_set_known)+

lemma cold_access_token: "corp_cold c \<Longrightarrow> CorpInfo_GetAccessToken env name c = Inr ([], c)"
  by (simp add: CorpInfo_GetAccessToken_def cold_corp_get cold_tokens)

lemma cold_app_token:
  assumes "xauth_cold s"
  shows "app_GetAccessToken env corp app (xa_corps s) = Inr ([], xa_corps s)"
proof (cases "app_Corp (xa_corps s) corp")
  case (Some c)
  then show ?thesis
    using cold_corp [OF assms Some] by (simp add: app_GetAccessToken_def app_get_def cold_access_token put_corp_def)
      (metis xauth_state.ext_inject xauth_state.surjective xauth_state.update_convs(1))
qed (simp add: app_GetAccessToken_def app_get_def)

lemma cold_send:
  assumes "corp_cold c" and "SendAppTextMessage env app touser content (Some c) = Inr ((url, message), c')"
  shows "url = message_url [] \<and> c' = c"
  using assms by (auto simp: SendAppTextMessage_def cold_access_token obind_eq_Inr)

lemma cold_Execute: "xauth_cold s \<Longrightarrow> xauth_cold (Execute t s) \<longleftrightarrow> without_token t"
  by (auto simp: xauth_cold_def Execute_def)

lemma cold_log: "xauth_cold (log_line level line s) \<longleftrightarrow> xauth_cold s"
  by (simp add: xauth_cold_def log_line_def)

lemma cold_contact_handle: "xauth_cold s \<Longrightarrow> xauth_cold (RouteContact_HandleMessage xml s)"
  by (auto simp: xauth_cold_def contact_handle_tasks contact_handle_corps contact_tasks_def contact_task_def
      without_token_def)

lemma cold_message_handle: "xauth_cold s \<Longrightarrow> xauth_cold (RouteWxWorkMessage_HandleMessage xml s)"
  by (simp add: xauth_cold_def message_handle_state)

lemma cold_callback_handler:
  assumes "RouteCallbackHandler_OnMessage env h w req resp s = Inr (ret, resp', s')" and "xauth_cold s"
    and "\<And>xml. xauth_cold (h xml s)"
  shows "xauth_cold s'"
  using assms by (auto simp: RouteCallbackHandler_OnMessage_def Let_def obind_eq_Inr split: if_splits)

lemma cold_callback_verify:
  "RouteCallbackVerify_OnMessage env w req resp s = Inr (ret, resp', s') \<Longrightarrow> s' = s"
  by (auto simp: RouteCallbackVerify_OnMessage_def Let_def obind_eq_Inr split: if_splits)

lemma cold_notify:
  assumes "RouteNotify_Process env req resp s = Inr (ret, resp', s')" and "xauth_cold s"
  shows "xauth_cold s'"
proof (cases "app_Corp (xa_corps s) ''Main''")
  case None
  with assms(1) show ?thesis
    by (auto simp: RouteNotify_Process_def RouteApi_Process_def RouteNotify_ApiHandler_def Let_def obind_eq_Inr
        SendAppTextMessage_def)
next
  case (Some c)
  note c = cold_corp [OF assms(2) Some]
  from assms(1) Some obtain touser content url message c' where
    send: "SendAppTextMessage (xe_wx env) ''notify'' touser content (Some c) = Inr ((url, message), c')"
    and s': "s' = Execute (AsyncPostTask url message) (put_corp ''Main'' c' s)"
    by (auto simp: RouteNotify_Process_def RouteApi_Process_def RouteNotify_ApiHandler_def Let_def obind_eq_Inr)
  from cold_send [OF c(1) send] c(2) assms(2) show ?thesis by (simp add: s' cold_Execute without_token_def)
qed

lemma cold_run_contact:
  assumes "run_contact_notify env t s = Inr s'" and "xauth_cold s"
  shows "xauth_cold s'"
proof (cases "app_Corp (xa_corps s) (c_str (en_corp t))")
  case None
  with assms(1) show ?thesis by (simp add: run_contact_notify_def GetExternalContact_def)
next
  case (Some c)
  note c = cold_corp [OF assms(2) Some]
  have "GetExternalContact (xe_wx env) (c_str (en_corp t)) app uid (xa_corps s) = Inr ([], c)" for app uid
    by (simp add: GetExternalContact_def Some cold_access_token c(1))
  with assms(1) c(2) Some obtain content url message c' where
    send: "SendAppTextMessage (xe_wx env) ''notify'' (c_str (en_userid t)) content (Some c) = Inr ((url, message), c')"
    and s': "s' = Execute (AsyncPostTask url message) (put_corp (c_str (en_corp t)) c' s)"
    by (auto simp: run_contact_notify_def Let_def obind_eq_Inr SendAppTextMessage_name_def)
  from cold_send [OF c(1) send] c(2) assms(2) show ?thesis by (simp add: s' cold_Execute without_token_def)
qed

lemma cold_tokens_routes:
  "RouteNewToken_Process env req resp s = Inr (ret, resp', s') \<Longrightarrow> xauth_cold s \<Longrightarrow> s' = s"
  "RouteWxWorkAccessToken_Process env req resp s = Inr (ret, resp', s') \<Longrightarrow> xauth_cold s \<Longrightarrow> s' = s"
  by (auto simp: RouteNewToken_Process_def RouteWxWorkAccessToken_Process_def Let_def obind_eq_Inr cold_app_token
      split: if_splits)

lemma cold_request:
  assumes "Routes_Process (XAuthRoutes_InitTable env) req resp s = Inr (ret, resp', s')" and "xauth_cold s"
  shows "xauth_cold s'"
proof -
  have same: "xauth_cold s'" if "s' = s" using that assms(2) by simp
  obtain m where m: "rq_method req = Some m" using assms(1)
    by (cases "rq_method req") (auto simp: Routes_Process_def HttpRequest_method_def)
  show ?thesis
  proof (cases "m = HTTP_HEAD \<or> map_of (rev (xauth_procs env)) (Route_Key m (rq_url req)) = None")
    case True
    then show ?thesis using assms(1) m same
      by (auto simp: Routes_Process_def HttpRequest_method_def RouteHeadOk_Process_def RouteUnknown_Process_def
          map_of_xauth split: if_splits)
  next
    case False
    then obtain p where p: "map_of (rev (xauth_procs env)) (Route_Key m (rq_url req)) = Some p" by auto
    then have run: "p req resp s = Inr (ret, resp', s')"
      using assms(1) m False by (simp add: Routes_Process_def HttpRequest_method_def map_of_xauth)
    from map_of_SomeD [OF p] have "p \<in> snd ` set (xauth_procs env)" by force
    then consider "p = RouteNewToken_Process env" | "p = RouteWxWorkMessageVerify env" | "p = RouteWxWorkMessageHandler env"
      | "p = RouteNotify_Process env" | "p = RouteContactVerify env" | "p = RouteContactHandler env"
      | "p = RouteWxWorkAccessToken_Process env"
      by (auto simp: xauth_procs_def)
    then show ?thesis
    proof cases
      case 1 with run same assms(2) cold_tokens_routes show ?thesis by blast
    next
      case 2 with run same cold_callback_verify show ?thesis
        by (auto simp: RouteWxWorkMessageVerify_def RouteCallback_Process_def)
    next
      case 3
      from run [unfolded 3 RouteWxWorkMessageHandler_def RouteCallback_Process_def] assms(2)
        cold_message_handle [OF assms(2)] show ?thesis by (rule cold_callback_handler)
    next
      case 4 with run assms(2) cold_notify show ?thesis by blast
    next
      case 5 with run same cold_callback_verify show ?thesis
        by (auto simp: RouteContactVerify_def RouteCallback_Process_def)
    next
      case 6
      from run [unfolded 6 RouteContactHandler_def RouteCallback_Process_def] assms(2)
        cold_contact_handle [OF assms(2)] show ?thesis by (rule cold_callback_handler)
    next
      case 7 with run same assms(2) cold_tokens_routes show ?thesis by blast
    qed
  qed
qed

lemma cold_task:
  assumes "run_task env t s = Inr s'" and "xauth_cold s"
  shows "xauth_cold s'"
proof (cases t)
  case (AsyncPostTask url content)
  with assms show ?thesis by (auto simp: obind_eq_Inr)
next
  case (ExternalContactNotify action corp app userid external_userid)
  show ?thesis by (rule cold_run_contact [OF _ assms(2)]) (use assms(1) ExternalContactNotify in simp)
qed

lemma reach_cold:
  assumes "xauth_reach files conf s" and "new_files files"
  shows "xauth_cold s"
  using assms(1)
proof induction
  case started
  with app_Initialize_cold [OF assms(2)] show ?case by (simp add: xauth_cold_def)
next
  case request
  with cold_request show ?case by blast
next
  case task
  with cold_task show ?case by blast
qed

text \<open>C23: when the cache files are new, every message the service ever posts, in any sequence of requests and
  tasks and whatever the WeChat Work service answers, is posted with an empty access token.\<close>

theorem posts_without_token:
  assumes "xauth_reach files conf s" and "new_files files" and "AsyncPostTask url content \<in> set (xa_tasks s)"
  shows "url = message_url []"
  using reach_cold [OF assms(1,2)] assms(3) by (auto simp: xauth_cold_def without_token_def)

text \<open>The route of the tickets is not in the table: a request for it is answered 404.\<close>

theorem jsapi_ticket_not_registered:
  assumes "rq_method req = Some (rk_method RouteWxWorkJsapiTicket_key)" and "rq_url req = rk_url RouteWxWorkJsapiTicket_key"
  shows "Routes_Process (XAuthRoutes_InitTable env) req resp s = Inr (0, SetStatus 404 resp, s)"
  using assms by (simp add: Routes_Process_def HttpRequest_method_def map_of_xauth xauth_procs_def
      RouteWxWorkJsapiTicket_key_def HTTP_POST_def HTTP_HEAD_def HTTP_GET_def RouteUnknown_Process_def)

lemma jsapi_ticket_not_registered_witness:
  "\<forall>env s. Routes_Process (XAuthRoutes_InitTable env)
     (HttpRequest_new 4 0\<lparr>rq_method := Some HTTP_GET, rq_url := Mstr ''/wxwork/jsapi_ticket''\<rparr>) HttpResponse_new s =
   Inr (0, SetStatus 404 HttpResponse_new, s)"
  using jsapi_ticket_not_registered by (simp add: RouteWxWorkJsapiTicket_key_def)

lemma text_message_returns: "\<exists>m. text_message env appid touser content = Inr m"
  by (simp add: text_message_def Json_Set_string_def Json_Set_int_def Json_Set.simps json_put_def json_child_def
      json_isMember_def JsonDocument_def before_def after_def)

lemma numbered_1_2:
  "length f < 50 \<Longrightarrow> numbered ''CorpInfo'' 1 f = ''CorpInfo.1'' @ f"
  "length f < 50 \<Longrightarrow> numbered ''CorpInfo'' 2 f = ''CorpInfo.2'' @ f"
proof -
  have "dec_int (int 1) = ''1''" "dec_int (int 2) = ''2''" by code_simp+
  then show "length f < 50 \<Longrightarrow> numbered ''CorpInfo'' 1 f = ''CorpInfo.1'' @ f"
    "length f < 50 \<Longrightarrow> numbered ''CorpInfo'' 2 f = ''CorpInfo.2'' @ f"
    by (simp_all add: numbered_def FormatV_def c_str_def max_buf_len_def)
qed

lemma one_corp_names:
  "Config_Get one_corp (numbered ''CorpInfo'' 1 ''_name'') = ''Main''"
  "Config_Get one_corp (numbered ''CorpInfo'' 1 ''_corpid'') = ''ww1''"
  "Config_Get one_corp (numbered ''CorpInfo'' 2 ''_name'') = []"
  by (simp_all add: numbered_1_2 Config_Get_def one_corp_def Value_Get_def Value_Get_Set Value_Get_empty del: One_nat_def)

lemma one_corp_loaded:
  "app_Initialize files one_corp = [(''Main'', load_apps files one_corp ''Main'' [1..<kMaxSize + 1] (CorpInfo_new ''ww1''))]"
proof -
  have "[1..<n] = 1 # 2 # [3..<n]" if "3 \<le> n" for n :: nat
    using that by (simp add: upt_conv_Cons numeral_3_eq_3 numeral_2_eq_2)
  then have "[1..<kMaxSize + 1] = 1 # 2 # [3..<kMaxSize + 1]" by (simp only: kMaxSize_def)
  then have "load_corps one_corp [1..<kMaxSize + 1] [] = [(''Main'', CorpInfo_new ''ww1'')]"
    using one_corp_names by (simp add: Let_def del: One_nat_def)
  then show ?thesis by (simp add: app_Initialize_def del: upt_Suc)
qed


lemma posts_without_token_witness:
  "\<exists>url content s. xauth_reach (\<lambda>_. \<lparr>nf_size = 0, nf_byte = \<lambda>_. 0\<rparr>) one_corp s \<and>
     AsyncPostTask url content \<in> set (xa_tasks s) \<and> url = message_url []"
proof -
  let ?f = "\<lambda>_. \<lparr>nf_size = 0, nf_byte = \<lambda>_. 0\<rparr>"
  let ?s = "\<lparr>xa_corps = app_Initialize ?f one_corp, xa_tasks = [], xa_log = []\<rparr>"
  let ?req = "HttpRequest_new 4 0\<lparr>rq_method := Some HTTP_POST, rq_url := Mstr ''/wxwork/notify''\<rparr>"
  have files: "new_files ?f" by (simp add: new_files_def)
  have cold: "xauth_cold ?s" by (rule reach_cold [OF xauth_reach.started files])
  obtain c where c: "app_Corp (xa_corps ?s) ''Main'' = Some c" by (simp add: one_corp_loaded app_Corp_def)
  obtain m where m: "text_message (xe_wx example_env) (CorpInfo_AppId c ''notify'') [] [] = Inr m"
    using text_message_returns by blast
  have "SendAppTextMessage (xe_wx example_env) ''notify'' [] [] (Some c) = Inr ((message_url [], m), c)"
    using cold_corp(1) [OF cold c] m by (simp add: SendAppTextMessage_def cold_access_token)
  then have "RouteNotify_Process example_env ?req HttpResponse_new ?s =
      Inr (0, SetStatus 200 (SetStatus 200 HttpResponse_new), Execute (AsyncPostTask (message_url []) m) (put_corp ''Main'' c ?s))"
    using c by (simp add: RouteNotify_Process_def RouteApi_Process_def RouteNotify_ApiHandler_def Let_def
        body_arg_def HttpRequest_new_def example_env_def Json_Get_string_def JsonDocument_def json_simps)
  then have "Routes_Process (XAuthRoutes_InitTable example_env) ?req HttpResponse_new ?s =
      Inr (0, SetStatus 200 (SetStatus 200 HttpResponse_new), Execute (AsyncPostTask (message_url []) m) (put_corp ''Main'' c ?s))"
    by (simp add: Routes_Process_def HttpRequest_method_def map_of_xauth xauth_procs_def HTTP_POST_def HTTP_HEAD_def HTTP_GET_def)
  from xauth_reach.request [OF xauth_reach.started this]
  have "xauth_reach ?f one_corp (Execute (AsyncPostTask (message_url []) m) (put_corp ''Main'' c ?s))" .
  moreover have "AsyncPostTask (message_url []) m \<in> set (xa_tasks (Execute (AsyncPostTask (message_url []) m) (put_corp ''Main'' c ?s)))"
    by (simp add: Execute_def)
  ultimately show ?thesis using posts_without_token [OF _ files] by blast
qed

end
