(* ===== verification/Db_Pool.thy ===== *)
theory Db_Pool
  imports Locks
begin

text \<open>
  \<open>helper/simple_pool.h\<close> and \<open>xauth/db/connection_pool.cpp\<close>: the pool of connections.  The objects are
  numbered in the order they are created.  Two pointers of the code are wrong in a way the model keeps:
  \<open>Get\<close> returns a reference into the list node it has just freed, and \<open>ReleaseObject\<close> computes the
  wrapper from the address of the object instead of the wrapper's own field.
\<close>

section \<open>Objects, wrappers and the pool\<close>

text \<open>
  \<open>First_Word ob\<close> is what the first word of an object points to, taken for an object; \<open>Before ob\<close> is the
  address as far in front of an object as \<open>object_\<close> is inside a wrapper.
\<close>

datatype pool_obj = Object nat | First_Word pool_obj

datatype wrapper = Ref_Object "nat option" | Before pool_obj

record simple_pool =
  sp_current_size :: int
  sp_idle_size :: int
  sp_init_size :: int
  sp_inc_size :: int
  sp_max_size :: int
  sp_list :: "wrapper list"
  sp_lock :: lock_ptr
  sp_created :: nat

text \<open>
  The environment: whether the allocator's \<open>n\<close>-th \<open>Create\<close> gives an object or a null pointer, and what a
  read of a freed list node gives.
\<close>

record pool_env =
  pe_create :: "nat \<Rightarrow> bool"
  pe_freed :: "wrapper \<Rightarrow> wrapper outcome"

definition wrapper_pointer :: "wrapper \<Rightarrow> pool_obj option" where
  "wrapper_pointer w = (case w of Ref_Object n \<Rightarrow> map_option Object n | Before ob \<Rightarrow> Some (First_Word ob))"

definition deref :: "pool_obj option \<Rightarrow> pool_obj outcome" where
  "deref p = (case p of None \<Rightarrow> Inl Null_Deref | Some ob \<Rightarrow> Inr ob)"

section \<open>Operations\<close>

definition create_one :: "pool_env \<Rightarrow> simple_pool \<Rightarrow> simple_pool" where
  "create_one env p =
     p\<lparr>sp_list := sp_list p @ [Ref_Object (if pe_create env (sp_created p) then Some (sp_created p) else None)],
       sp_idle_size := sp_idle_size p + 1, sp_current_size := sp_current_size p + 1, sp_created := sp_created p + 1\<rparr>"

definition Pool_Create :: "pool_env \<Rightarrow> int \<Rightarrow> simple_pool \<Rightarrow> simple_pool" where
  "Pool_Create env n p = (create_one env ^^ nat n) p"

definition SimplePool_new :: "pool_env \<Rightarrow> int \<Rightarrow> int \<Rightarrow> int \<Rightarrow> lock_ptr \<Rightarrow> simple_pool" where
  "SimplePool_new env init_size inc_size max_size lock =
     (let p = \<lparr>sp_current_size = 0, sp_idle_size = 0, sp_init_size = init_size, sp_inc_size = inc_size,
               sp_max_size = max_size, sp_list = [], sp_lock = lock, sp_created = 0\<rparr>
      in if init_size > 0 \<and> (max_size < 0 \<or> init_size < max_size) then Pool_Create env init_size p else p)"

definition grow_size :: "simple_pool \<Rightarrow> int" where
  "grow_size p =
     (if sp_max_size p < 0 then sp_inc_size p
      else if sp_current_size p < sp_max_size p then sp_max_size p - sp_current_size p else 0)"

text \<open>\<open>front\<close> of an empty list has no element.  The result is the value of the node that was freed.\<close>

definition Pool_Get :: "pool_env \<Rightarrow> simple_pool \<Rightarrow> (wrapper \<times> simple_pool) outcome" where
  "Pool_Get env p =
     AutoLock (sp_lock p)
       (let p1 = (if sp_idle_size p = 0 \<and> grow_size p > 0 then Pool_Create env (grow_size p) p else p)
        in case sp_list p1 of
             [] \<Rightarrow> Inl Out_Of_Bounds
           | w # ws \<Rightarrow> Inr (w, p1\<lparr>sp_list := ws, sp_idle_size := sp_idle_size p1 - 1\<rparr>))"

definition Pool_GetObject :: "pool_env \<Rightarrow> simple_pool \<Rightarrow> (pool_obj \<times> simple_pool) outcome" where
  "Pool_GetObject env p =
     obind (Pool_Get env p) (\<lambda>(w, p').
     obind (pe_freed env w) (\<lambda>w'.
     obind (deref (wrapper_pointer w')) (\<lambda>ob. Inr (ob, p'))))"

definition Pool_Release :: "wrapper \<Rightarrow> bool \<Rightarrow> simple_pool \<Rightarrow> simple_pool outcome" where
  "Pool_Release w cleanup p =
     AutoLock (sp_lock p)
       (Inr (if cleanup \<and> sp_idle_size p > sp_init_size p then p\<lparr>sp_current_size := sp_current_size p - 1\<rparr>
             else p\<lparr>sp_list := sp_list p @ [w], sp_idle_size := sp_idle_size p + 1\<rparr>))"

text \<open>With \<open>cleanup\<close> the computed wrapper, which \<open>new\<close> never returned, is deleted.\<close>

definition Pool_ReleaseObject :: "pool_obj \<Rightarrow> bool \<Rightarrow> simple_pool \<Rightarrow> simple_pool outcome" where
  "Pool_ReleaseObject ob cleanup p =
     AutoLock (sp_lock p)
       (if cleanup \<and> sp_idle_size p > sp_init_size p then Inl Use_After_Free
        else Inr (p\<lparr>sp_list := sp_list p @ [Before ob], sp_idle_size := sp_idle_size p + 1\<rparr>))"

text \<open>Each turn reads the freed last node once more, to delete the wrapper; only real wrappers can be deleted.\<close>

fun tidy_loop :: "pool_env \<Rightarrow> nat \<Rightarrow> simple_pool \<Rightarrow> simple_pool outcome" where
  "tidy_loop env 0 p = Inr p"
| "tidy_loop env (Suc i) p =
     (if sp_list p = [] then Inl Out_Of_Bounds
      else obind (pe_freed env (last (sp_list p))) (\<lambda>w.
        case w of
          Before _ \<Rightarrow> Inl Use_After_Free
        | Ref_Object _ \<Rightarrow>
            tidy_loop env i (p\<lparr>sp_idle_size := sp_idle_size p - 1, sp_current_size := sp_current_size p - 1,
                              sp_list := butlast (sp_list p)\<rparr>)))"

definition Pool_Tidy :: "pool_env \<Rightarrow> simple_pool \<Rightarrow> simple_pool outcome" where
  "Pool_Tidy env p = AutoLock (sp_lock p) (tidy_loop env (nat (sp_idle_size p - sp_init_size p)) p)"

section \<open>\<open>ConnectionPool\<close>\<close>

text \<open>The pool pointer is wild until \<open>Init\<close>.\<close>

record connection_pool =
  cp_dsn :: string
  cp_pool :: "simple_pool option"

definition ConnectionPool_new :: connection_pool where
  "ConnectionPool_new = \<lparr>cp_dsn = [], cp_pool = None\<rparr>"

definition ConnectionPool_Init :: "pool_env \<Rightarrow> string \<Rightarrow> int \<Rightarrow> int \<Rightarrow> int \<Rightarrow> connection_pool \<Rightarrow> connection_pool" where
  "ConnectionPool_Init env dsn init_size inc_size max_size c =
     c\<lparr>cp_dsn := dsn, cp_pool := Some (SimplePool_new env init_size inc_size max_size Posix_Lock)\<rparr>"

definition ConnectionPool_Get :: "pool_env \<Rightarrow> connection_pool \<Rightarrow> (pool_obj \<times> connection_pool) outcome" where
  "ConnectionPool_Get env c =
     (case cp_pool c of
        None \<Rightarrow> Inl Uninitialised
      | Some p \<Rightarrow> obind (Pool_GetObject env p) (\<lambda>(ob, p'). Inr (ob, c\<lparr>cp_pool := Some p'\<rparr>)))"

definition ConnectionPool_Release :: "pool_obj \<Rightarrow> connection_pool \<Rightarrow> connection_pool outcome" where
  "ConnectionPool_Release ob c =
     (case cp_pool c of
        None \<Rightarrow> Inl Uninitialised
      | Some p \<Rightarrow> obind (Pool_ReleaseObject ob False p) (\<lambda>p'. Inr (c\<lparr>cp_pool := Some p'\<rparr>)))"

section \<open>Lemmas\<close>

text \<open>What a client of a connection pool does, with the objects it was handed.\<close>

datatype pool_op = Op_Get | Op_Release pool_obj

fun pool_run :: "pool_env \<Rightarrow> pool_op list \<Rightarrow> connection_pool \<Rightarrow> (pool_obj list \<times> connection_pool) outcome" where
  "pool_run env [] c = Inr ([], c)"
| "pool_run env (Op_Get # ops) c =
     obind (ConnectionPool_Get env c) (\<lambda>(ob, c1).
     obind (pool_run env ops c1) (\<lambda>(obs, c2). Inr (ob # obs, c2)))"
| "pool_run env (Op_Release ob # ops) c = obind (ConnectionPool_Release ob c) (\<lambda>c1. pool_run env ops c1)"

definition pool_inv :: "simple_pool \<Rightarrow> bool" where
  "pool_inv p \<longleftrightarrow> sp_lock p \<noteq> Wild_Lock \<and> sp_idle_size p = int (length (sp_list p)) \<and>
     sp_current_size p = int (sp_created p) \<and> distinct [n. Ref_Object (Some n) \<leftarrow> sp_list p] \<and>
     (\<forall>n. Ref_Object (Some n) \<in> set (sp_list p) \<longrightarrow> n < sp_created p)"

definition fresh_in :: "simple_pool \<Rightarrow> nat set" where
  "fresh_in p = {n. Ref_Object (Some n) \<in> set (sp_list p) \<or> sp_created p \<le> n}"

lemma set_refs [simp]: "set [n. Ref_Object (Some n) \<leftarrow> ws] = {n. Ref_Object (Some n) \<in> set ws}"
  by (induction ws) (auto split: wrapper.splits option.splits)

lemma create_one_inv: "pool_inv p \<Longrightarrow> pool_inv (create_one env p)"
  by (auto simp: pool_inv_def create_one_def)

lemma create_one_fresh: "fresh_in (create_one env p) \<subseteq> fresh_in p"
  by (auto simp: fresh_in_def create_one_def)

lemma Pool_Create_keeps:
  "pool_inv p \<Longrightarrow> pool_inv (Pool_Create env k p) \<and> fresh_in (Pool_Create env k p) \<subseteq> fresh_in p"
proof -
  assume "pool_inv p"
  then have "pool_inv ((create_one env ^^ n) p) \<and> fresh_in ((create_one env ^^ n) p) \<subseteq> fresh_in p" for n
    using create_one_inv create_one_fresh by (induction n) (auto, blast)
  then show ?thesis by (simp add: Pool_Create_def)
qed

lemma Pool_Create_sizes:
  "sp_current_size (Pool_Create env k p) = sp_current_size p + max 0 k"
  "length (sp_list (Pool_Create env k p)) = length (sp_list p) + nat k"
  "sp_max_size (Pool_Create env k p) = sp_max_size p" "sp_inc_size (Pool_Create env k p) = sp_inc_size p"
  "sp_lock (Pool_Create env k p) = sp_lock p"
proof -
  have "sp_current_size ((create_one env ^^ n) p) = sp_current_size p + int n \<and>
      length (sp_list ((create_one env ^^ n) p)) = length (sp_list p) + n \<and>
      sp_max_size ((create_one env ^^ n) p) = sp_max_size p \<and> sp_inc_size ((create_one env ^^ n) p) = sp_inc_size p \<and>
      sp_lock ((create_one env ^^ n) p) = sp_lock p" for n
    by (induction n) (auto simp: create_one_def)
  from this [of "nat k"] show
    "sp_current_size (Pool_Create env k p) = sp_current_size p + max 0 k"
    "length (sp_list (Pool_Create env k p)) = length (sp_list p) + nat k"
    "sp_max_size (Pool_Create env k p) = sp_max_size p" "sp_inc_size (Pool_Create env k p) = sp_inc_size p"
    "sp_lock (Pool_Create env k p) = sp_lock p"
    by (simp_all add: Pool_Create_def)
qed

definition pool_bounded :: "int \<Rightarrow> simple_pool \<Rightarrow> bool" where
  "pool_bounded mx p \<longleftrightarrow> pool_inv p \<and> sp_max_size p = mx \<and> (0 \<le> mx \<longrightarrow> sp_current_size p \<le> mx)"

lemma Pool_Create_bounded:
  "pool_bounded mx p \<Longrightarrow> k \<le> grow_size p \<Longrightarrow> pool_bounded mx (Pool_Create env k p)"
  using Pool_Create_keeps [of p env k] Pool_Create_sizes [where env = env and k = k and p = p]
  by (auto simp: pool_bounded_def grow_size_def split: if_splits)

lemma pool_new_bounded:
  assumes "lock \<noteq> Wild_Lock"
  shows "pool_bounded mx (SimplePool_new env init_size inc_size mx lock)"
proof -
  let ?p = "\<lparr>sp_current_size = 0, sp_idle_size = 0, sp_init_size = init_size, sp_inc_size = inc_size,
    sp_max_size = mx, sp_list = [], sp_lock = lock, sp_created = 0\<rparr>"
  have "pool_inv ?p" using assms by (simp add: pool_inv_def)
  then show ?thesis
    using Pool_Create_keeps [of ?p env init_size] Pool_Create_sizes [where env = env and k = init_size and p = ?p]
    by (auto simp: pool_bounded_def SimplePool_new_def Let_def)
qed

lemma Pool_Get_step:
  assumes "pool_bounded mx p" and "Pool_Get env p = Inr (w, p')"
  shows "pool_bounded mx p' \<and> fresh_in p' \<subseteq> fresh_in p \<and>
    (\<forall>n. w = Ref_Object (Some n) \<longrightarrow> n \<in> fresh_in p \<and> n \<notin> fresh_in p' \<and> (0 \<le> mx \<longrightarrow> int n < mx))"
proof -
  define q where "q = (if sp_idle_size p = 0 \<and> grow_size p > 0 then Pool_Create env (grow_size p) p else p)"
  have q: "pool_bounded mx q" "fresh_in q \<subseteq> fresh_in p"
    using assms(1) Pool_Create_bounded [OF assms(1) order_refl] Pool_Create_keeps [of p env "grow_size p"]
    by (auto simp: q_def pool_bounded_def)
  have "sp_lock p \<noteq> Wild_Lock" using assms(1) by (simp add: pool_bounded_def pool_inv_def)
  with assms(2) obtain ws where ws: "sp_list q = w # ws" "p' = q\<lparr>sp_list := ws, sp_idle_size := sp_idle_size q - 1\<rparr>"
    unfolding Pool_Get_def q_def [symmetric] Let_def by (auto split: list.splits)
  have "pool_bounded mx p'" using q(1) ws by (auto simp: pool_bounded_def pool_inv_def split: wrapper.splits option.splits)
  moreover have "fresh_in p' \<subseteq> fresh_in q" using ws by (auto simp: fresh_in_def)
  moreover have "n \<in> fresh_in q \<and> n \<notin> fresh_in p' \<and> (0 \<le> mx \<longrightarrow> int n < mx)" if "w = Ref_Object (Some n)" for n
    using q(1) ws that by (fastforce simp: pool_bounded_def pool_inv_def fresh_in_def)
  ultimately show ?thesis using q(2) by blast
qed

lemma Pool_Release_step:
  assumes "pool_bounded mx p" and "Pool_ReleaseObject ob False p = Inr p'"
  shows "pool_bounded mx p' \<and> fresh_in p' \<subseteq> fresh_in p"
  using assms by (auto simp: Pool_ReleaseObject_def pool_bounded_def pool_inv_def fresh_in_def)

lemma wrapper_pointer_Object: "wrapper_pointer w = Some (Object n) \<longleftrightarrow> w = Ref_Object (Some n)"
  by (auto simp: wrapper_pointer_def split: wrapper.splits)

lemma Pool_GetObject_step:
  assumes "\<And>w. pe_freed env w = Inr w" and "pool_bounded mx p" and "Pool_GetObject env p = Inr (ob, p')"
  shows "pool_bounded mx p' \<and> fresh_in p' \<subseteq> fresh_in p \<and>
    (\<forall>n. ob = Object n \<longrightarrow> n \<in> fresh_in p \<and> n \<notin> fresh_in p' \<and> (0 \<le> mx \<longrightarrow> int n < mx))"
proof -
  from assms(1,3) obtain w where "Pool_Get env p = Inr (w, p')" "wrapper_pointer w = Some ob"
    by (auto simp: Pool_GetObject_def obind_eq_Inr deref_def split: option.splits)
  with Pool_Get_step [OF assms(2)] show ?thesis by (auto simp: wrapper_pointer_Object)
qed

lemma pool_run_once:
  assumes kept: "\<And>w. pe_freed env w = Inr w"
  shows "pool_bounded mx p \<Longrightarrow> cp_pool c = Some p \<Longrightarrow> pool_run env ops c = Inr (obs, c') \<Longrightarrow>
    count_list obs (Object n) \<le> (if n \<in> fresh_in p then 1 else 0) \<and> (Object n \<in> set obs \<longrightarrow> 0 \<le> mx \<longrightarrow> int n < mx)"
proof (induction ops arbitrary: p c obs)
  case Nil
  then show ?case by simp
next
  case (Cons opn ops)
  show ?case
  proof (cases opn)
    case Op_Get
    with Cons.prems obtain ob p1 obs1 where get: "Pool_GetObject env p = Inr (ob, p1)"
      and run: "pool_run env ops (c\<lparr>cp_pool := Some p1\<rparr>) = Inr (obs1, c')" and obs: "obs = ob # obs1"
      by (auto simp: obind_eq_Inr ConnectionPool_Get_def)
    note step = Pool_GetObject_step [OF kept Cons.prems(1) get]
    from Cons.IH [OF _ _ run, of p1] step have
      "count_list obs1 (Object n) \<le> (if n \<in> fresh_in p1 then 1 else 0) \<and> (Object n \<in> set obs1 \<longrightarrow> 0 \<le> mx \<longrightarrow> int n < mx)"
      by simp
    with step show ?thesis by (auto simp: obs split: if_splits)
  next
    case (Op_Release ob)
    with Cons.prems obtain p1 where rel: "Pool_ReleaseObject ob False p = Inr p1"
      and run: "pool_run env ops (c\<lparr>cp_pool := Some p1\<rparr>) = Inr (obs, c')"
      by (auto simp: obind_eq_Inr ConnectionPool_Release_def)
    note step = Pool_Release_step [OF Cons.prems(1) rel]
    from Cons.IH [OF _ _ run, of p1] step show ?thesis by (auto split: if_splits)
  qed
qed

section \<open>Properties\<close>


definition kept_env :: pool_env where
  "kept_env = \<lparr>pe_create = \<lambda>_. True, pe_freed = Inr\<rparr>"


text \<open>\<open>Get\<close> takes the front of an empty list exactly when nothing is idle and the pool may not grow: at
  the maximum, or without one and an increment below one.  With a maximum it grows to it at once, whatever
  the increment.\<close>

theorem pool_get_grows:
  assumes "pool_inv p" and "sp_list p = []"
  shows "(Pool_Get env p = Inl Out_Of_Bounds \<longleftrightarrow>
      (if sp_max_size p < 0 then sp_inc_size p \<le> 0 else sp_max_size p \<le> sp_current_size p)) \<and>
    (0 \<le> sp_max_size p \<and> sp_current_size p < sp_max_size p \<longrightarrow>
      (\<exists>w p'. Pool_Get env p = Inr (w, p') \<and> sp_current_size p' = sp_max_size p))"
proof -
  have lock: "sp_lock p \<noteq> Wild_Lock" and idle: "sp_idle_size p = 0" using assms by (simp_all add: pool_inv_def)
  have grow: "sp_list (Pool_Create env k p) \<noteq> []" if "0 < k" for k
    using Pool_Create_sizes(2) [of env k p] that by auto
  show ?thesis
    using lock idle assms(2) grow [of "grow_size p"] Pool_Create_sizes(1) [of env "grow_size p" p]
    by (auto simp: Pool_Get_def Let_def grow_size_def split: list.splits if_splits)
qed

lemma pool_get_grows_witness:
  "Pool_Get kept_env (SimplePool_new kept_env 0 2 0 Null_Lock) = Inl Out_Of_Bounds"
proof -
  have "pool_inv (SimplePool_new kept_env 0 2 0 Null_Lock)" "sp_list (SimplePool_new kept_env 0 2 0 Null_Lock) = []"
    by (simp_all add: SimplePool_new_def pool_inv_def Let_def)
  from pool_get_grows [OF this, of kept_env] show ?thesis by (simp add: SimplePool_new_def Let_def)
qed

end
