(* ===== verification/Db_Sql.thy ===== *)
theory Db_Sql
  imports Db_Dsn Db_Pool App_Cache
begin

text \<open>
  \<open>xauth/db\<close>: the tables a query fills (\<open>record.h\<close>, \<open>xdb.cpp\<close>), statements and connections of PostgreSQL
  (\<open>xdb_postgresql.cpp\<close>), the wrapper that takes its connection from a pool (\<open>wrapper.cpp\<close>), and the
  \<open>db\<close> part of \<open>xauth/global.cpp\<close>.  libpq is the environment.
\<close>

section \<open>Records and result sets\<close>

text \<open>The elements of a \<open>Record\<close> with their flags; \<open>operator[]\<close> throws outside.\<close>

type_synonym 'a db_record = "('a \<times> bool) list"

definition Record_Append :: "'a \<Rightarrow> bool \<Rightarrow> 'a db_record \<Rightarrow> 'a db_record" where
  "Record_Append value auto_delete r = r @ [(value, auto_delete)]"

definition Record_at :: "'a db_record \<Rightarrow> int \<Rightarrow> 'a outcome" where
  "Record_at r index = (if index < 0 \<or> index \<ge> int (length r) then Inl Logic_Error else Inr (fst (r ! nat index)))"

definition Record_Size :: "'a db_record \<Rightarrow> int" where
  "Record_Size r = int (length r)"

record result_field =
  rf_value :: string
  rf_null :: bool

definition ResultField_new :: result_field where
  "ResultField_new = \<lparr>rf_value = [], rf_null = False\<rparr>"

definition ResultField_SetValue :: "string \<Rightarrow> result_field \<Rightarrow> result_field" where
  "ResultField_SetValue value f = f\<lparr>rf_value := value\<rparr>"

definition ResultField_SetNull :: "result_field \<Rightarrow> result_field" where
  "ResultField_SetNull f = f\<lparr>rf_null := True\<rparr>"

definition ToUpper :: "string \<Rightarrow> string" where
  "ToUpper str = map toupper str"

text \<open>The type is not initialised before it is set.\<close>

record field_type_name =
  ft_type :: "int option"
  ft_name :: string

record result_set =
  rs_rows :: "result_field db_record db_record"
  rs_field_info :: "field_type_name list"

definition ResultSet_new :: result_set where
  "ResultSet_new = \<lparr>rs_rows = [], rs_field_info = []\<rparr>"

definition SetFieldSize :: "int \<Rightarrow> result_set \<Rightarrow> result_set" where
  "SetFieldSize n r =
     (if n \<le> 0 then r
      else r\<lparr>rs_field_info := take (nat n) (rs_field_info r) @
               replicate (nat n - length (rs_field_info r)) \<lparr>ft_type = None, ft_name = []\<rparr>\<rparr>)"

definition SetType :: "nat \<Rightarrow> int \<Rightarrow> result_set \<Rightarrow> result_set outcome" where
  "SetType index type r =
     (if index < length (rs_field_info r)
      then Inr (r\<lparr>rs_field_info := (rs_field_info r)[index := (rs_field_info r ! index)\<lparr>ft_type := Some type\<rparr>]\<rparr>)
      else Inl Out_Of_Bounds)"

definition SetName :: "nat \<Rightarrow> string \<Rightarrow> result_set \<Rightarrow> result_set outcome" where
  "SetName index name r =
     (if index < length (rs_field_info r)
      then Inr (r\<lparr>rs_field_info := (rs_field_info r)[index := (rs_field_info r ! index)\<lparr>ft_name := ToUpper name\<rparr>]\<rparr>)
      else Inl Out_Of_Bounds)"

fun field_index :: "field_type_name list \<Rightarrow> string \<Rightarrow> int \<Rightarrow> int" where
  "field_index [] field_name i = -1"
| "field_index (f # fs) field_name i = (if ft_name f = field_name then i else field_index fs field_name (i + 1))"

definition ResultSet_Index :: "result_set \<Rightarrow> string \<Rightarrow> int" where
  "ResultSet_Index r name = field_index (rs_field_info r) (ToUpper name) 0"

definition ResultSet_value :: "result_set \<Rightarrow> int \<Rightarrow> int \<Rightarrow> result_field outcome" where
  "ResultSet_value r i j = obind (Record_at (rs_rows r) i) (\<lambda>row. Record_at row j)"

section \<open>Statements\<close>

record pg_statement =
  ps_sql :: string
  ps_values :: string
  ps_param_values :: "(int \<times> string) list"

definition PG_STMT_PARAM_SIZE :: nat where "PG_STMT_PARAM_SIZE = 32"

definition Statement_new :: pg_statement where
  "Statement_new = \<lparr>ps_sql = [], ps_values = [], ps_param_values = []\<rparr>"

definition Statement_SetSql :: "string \<Rightarrow> pg_statement \<Rightarrow> pg_statement" where
  "Statement_SetSql sql s = s\<lparr>ps_sql := sql\<rparr>"

definition Statement_Append :: "int \<Rightarrow> string \<Rightarrow> pg_statement \<Rightarrow> pg_statement" where
  "Statement_Append type value s =
     s\<lparr>ps_param_values := ps_param_values s @ [(type, value)],
       ps_values := (if ps_values s = [] then value else ps_values s @ '', '' @ value)\<rparr>"

definition ParamLengths :: "pg_statement \<Rightarrow> nat" where
  "ParamLengths s = length (ps_values s)"

text \<open>
  What \<open>PQexecParams\<close> reads of \<open>ParamValues\<close>, an array of 32 pointers of which only those of the parameters
  were set, or one of exactly the parameters when there are more.
\<close>

definition read_params :: "pg_statement \<Rightarrow> string list outcome" where
  "read_params s =
     (let count = length (ps_param_values s)
      in if ParamLengths s \<le> count then Inr (map (\<lambda>p. c_str (snd p)) (take (ParamLengths s) (ps_param_values s)))
         else if count < PG_STMT_PARAM_SIZE then Inl Uninitialised
         else Inl Out_Of_Bounds)"

section \<open>Connections\<close>

datatype pg_status = PGRES_EMPTY_QUERY | PGRES_COMMAND_OK | PGRES_TUPLES_OK | PGRES_BAD_RESPONSE | PGRES_FATAL_ERROR
  | PGRES_OTHER int

text \<open>An answer: its status, the type and name of every column, and the rows with nothing for a null.\<close>

record pg_result =
  pr_status :: pg_status
  pr_fields :: "(int \<times> string) list"
  pr_rows :: "string option list list"

text \<open>Whether a connection string connects (or the status and message), and what a statement answers.\<close>

record pg_env =
  pg_connect :: "string \<Rightarrow> (int \<times> string) option"
  pg_exec :: "string \<Rightarrow> string list \<Rightarrow> pg_result"
  pg_reset :: bool

text \<open>\<open>None\<close> is a null \<open>conn_\<close>, otherwise whether its status is \<open>CONNECTION_OK\<close>.\<close>

record pg_connection =
  pc_conn :: "bool option"
  pc_username :: string
  pc_password :: string

definition Connection_new :: pg_connection where
  "Connection_new = \<lparr>pc_conn = None, pc_username = [], pc_password = []\<rparr>"

definition connect_text :: "dsn \<Rightarrow> string" where
  "connect_text d =
     ''user='' @ DSN_Username d @ '' password='' @ DSN_Password d @ '' dbname='' @ DSN_DBName d @ '' '' @
     (if DSN_Host d \<noteq> [] then ''host='' @ DSN_Host d @ '' '' else []) @
     (if DSN_Port d \<noteq> [] then ''port='' @ DSN_Port d @ '' '' else [])"

text \<open>The return value, the object and the line logged; \<open>ss.clear()\<close> keeps what the stream holds.\<close>

definition Connection_Create :: "pg_env \<Rightarrow> dsn \<Rightarrow> pg_connection \<Rightarrow> int \<times> pg_connection \<times> string option" where
  "Connection_Create env d c =
     (let c1 = c\<lparr>pc_username := DSN_Username d, pc_password := DSN_Password d\<rparr>
      in if DSN_Username d = [] \<or> DSN_Password d = [] \<or> DSN_DBName d = [] then (-1, c1, None)
         else case pg_connect env (c_str (connect_text d)) of
                None \<Rightarrow> (0, c1\<lparr>pc_conn := Some True\<rparr>, None)
              | Some (status, message) \<Rightarrow>
                  (-1, c1\<lparr>pc_conn := Some False\<rparr>,
                   Some (c_str (connect_text d @ dec_int status @ '': '' @ message @ [CHR 0x0A] @ ''dsn: '' @
                     dsn_connstr d @ [CHR 0x0A]))))"

definition CreateStatement :: "string \<Rightarrow> pg_connection \<Rightarrow> pg_statement option" where
  "CreateStatement sql c = (if pc_conn c = None then None else Some (Statement_SetSql sql Statement_new))"

text \<open>The connection is reset after a bad answer.\<close>

definition after_status :: "pg_env \<Rightarrow> pg_status \<Rightarrow> pg_connection \<Rightarrow> pg_connection" where
  "after_status env st c =
     (if st \<in> {PGRES_BAD_RESPONSE, PGRES_FATAL_ERROR} then c\<lparr>pc_conn := Some (pg_reset env)\<rparr> else c)"

definition Connection_Update :: "pg_env \<Rightarrow> pg_statement option \<Rightarrow> pg_connection \<Rightarrow> (int \<times> pg_connection) outcome" where
  "Connection_Update env stmt c =
     (case stmt of
        None \<Rightarrow> Inr (0, c)
      | Some s \<Rightarrow>
          obind (read_params s) (\<lambda>params.
            let st = pr_status (pg_exec env (c_str (ps_sql s)) params)
            in Inr (if st \<in> {PGRES_EMPTY_QUERY, PGRES_COMMAND_OK} then 0 else -1, after_status env st c)))"

definition Connection_Update_sql :: "pg_env \<Rightarrow> string \<Rightarrow> pg_connection \<Rightarrow> (int \<times> pg_connection) outcome" where
  "Connection_Update_sql env sql c = Connection_Update env (CreateStatement sql c) c"

fun fill_fields :: "nat \<Rightarrow> (int \<times> string) list \<Rightarrow> result_set \<Rightarrow> result_set outcome" where
  "fill_fields index [] r = Inr r"
| "fill_fields index ((type, name) # fs) r =
     obind (SetType index type r) (\<lambda>r1. obind (SetName index (c_str name) r1) (\<lambda>r2. fill_fields (Suc index) fs r2))"

definition fill_field :: "string option \<Rightarrow> result_field" where
  "fill_field v = (case v of
     None \<Rightarrow> ResultField_SetNull ResultField_new | Some s \<Rightarrow> ResultField_SetValue (c_str s) ResultField_new)"

definition fill_row :: "string option list \<Rightarrow> result_field db_record" where
  "fill_row row = fold (\<lambda>v r. Record_Append (fill_field v) True r) row []"

definition fill_result :: "pg_result \<Rightarrow> result_set \<Rightarrow> result_set outcome" where
  "fill_result res r =
     obind (fill_fields 0 (pr_fields res) (SetFieldSize (int (length (pr_fields res))) r)) (\<lambda>r1.
       Inr (r1\<lparr>rs_rows := fold (\<lambda>row. Record_Append (fill_row row) True) (pr_rows res) (rs_rows r1)\<rparr>))"

definition Connection_Query ::
    "pg_env \<Rightarrow> pg_statement option \<Rightarrow> result_set option \<Rightarrow> pg_connection \<Rightarrow> (int \<times> result_set option \<times> pg_connection) outcome" where
  "Connection_Query env stmt result c =
     (case stmt of
        None \<Rightarrow> Inr (0, result, c)
      | Some s \<Rightarrow>
          obind (read_params s) (\<lambda>params.
            let res = pg_exec env (c_str (ps_sql s)) params;
                st = pr_status res
            in if st \<in> {PGRES_EMPTY_QUERY, PGRES_COMMAND_OK} then Inr (0, result, c)
               else if st = PGRES_TUPLES_OK then
                 (case result of
                    None \<Rightarrow> Inr (int (length (pr_rows res)), None, c)
                  | Some r \<Rightarrow> obind (fill_result res r) (\<lambda>r'. Inr (int (length (pr_rows res)), Some r', c)))
               else Inr (-1, result, after_status env st c)))"

definition Connection_Query_sql ::
    "pg_env \<Rightarrow> string \<Rightarrow> result_set option \<Rightarrow> pg_connection \<Rightarrow> (int \<times> result_set option \<times> pg_connection) outcome" where
  "Connection_Query_sql env sql result c = Connection_Query env (CreateStatement sql c) result c"

definition Connection_IsValidate :: "pg_connection \<Rightarrow> bool" where
  "Connection_IsValidate c \<longleftrightarrow> pc_conn c = Some True"

definition Connection_Reconnect :: "pg_env \<Rightarrow> pg_connection \<Rightarrow> bool \<times> pg_connection" where
  "Connection_Reconnect env c =
     (if pc_conn c = None then (False, c) else (pg_reset env, c\<lparr>pc_conn := Some (pg_reset env)\<rparr>))"

definition IsSupported :: "string \<Rightarrow> bool" where
  "IsSupported name \<longleftrightarrow> name = ''postgres'' \<or> name = ''postgresql'' \<or> name = ''pg''"

text \<open>A supported type gives an object whether it connects or not.\<close>

definition CreateConnection :: "pg_env \<Rightarrow> string \<Rightarrow> pg_connection option" where
  "CreateConnection env str =
     (let d = snd (DSN_Parse str)
      in if IsSupported (dsn_dbtype d) then Some (fst (snd (Connection_Create env d Connection_new))) else None)"

section \<open>\<open>SqlWrapper\<close>\<close>

text \<open>
  A wrapper over a pool, with the connections of the pool by number.  A call through an object that is not
  a connection has no defined result.
\<close>

record sql_wrapper =
  sw_conn :: pool_obj
  sw_stmt :: "pg_statement option"
  sw_sql :: string

type_synonym connections = "nat \<Rightarrow> pg_connection"

definition conn_at :: "connections \<Rightarrow> pool_obj \<Rightarrow> pg_connection outcome" where
  "conn_at conns ob = (case ob of Object n \<Rightarrow> Inr (conns n) | First_Word _ \<Rightarrow> Inl Uninitialised)"

definition SqlWrapper_new ::
    "pool_env \<Rightarrow> connections \<Rightarrow> string \<Rightarrow> connection_pool option \<Rightarrow> (sql_wrapper \<times> connection_pool) outcome" where
  "SqlWrapper_new env conns sql pool =
     (case pool of
        None \<Rightarrow> Inl Null_Deref
      | Some p \<Rightarrow>
          obind (ConnectionPool_Get env p) (\<lambda>(ob, p').
          obind (conn_at conns ob) (\<lambda>c. Inr (\<lparr>sw_conn = ob, sw_stmt = CreateStatement sql c, sw_sql = sql\<rparr>, p'))))"

definition SqlWrapper_destroy :: "connections \<Rightarrow> sql_wrapper \<Rightarrow> connection_pool \<Rightarrow> connection_pool outcome" where
  "SqlWrapper_destroy conns w p =
     obind (if sw_stmt w = None then Inr () else obind (conn_at conns (sw_conn w)) (\<lambda>_. Inr ())) (\<lambda>_.
       ConnectionPool_Release (sw_conn w) p)"

definition SqlWrapper_SetSql :: "string \<Rightarrow> sql_wrapper \<Rightarrow> sql_wrapper" where
  "SqlWrapper_SetSql sql w =
     (case sw_stmt w of
        Some s \<Rightarrow> w\<lparr>sw_sql := sql, sw_stmt := Some (Statement_SetSql sql s)\<rparr>
      | None \<Rightarrow> w)"

definition SqlWrapper_Append :: "int \<Rightarrow> string \<Rightarrow> sql_wrapper \<Rightarrow> sql_wrapper" where
  "SqlWrapper_Append type value w = w\<lparr>sw_stmt := map_option (Statement_Append type value) (sw_stmt w)\<rparr>"

definition SqlWrapper_Update :: "pg_env \<Rightarrow> connections \<Rightarrow> sql_wrapper \<Rightarrow> (int \<times> connections) outcome" where
  "SqlWrapper_Update env conns w =
     (if sw_stmt w = None \<or> sw_sql w = [] then Inr (0, conns)
      else obind (conn_at conns (sw_conn w)) (\<lambda>c.
           obind (Connection_Update env (sw_stmt w) c) (\<lambda>(ret, c').
             Inr (ret, case sw_conn w of Object n \<Rightarrow> conns(n := c') | First_Word _ \<Rightarrow> conns))))"

definition SqlWrapper_Query ::
    "pg_env \<Rightarrow> connections \<Rightarrow> sql_wrapper \<Rightarrow> result_set option \<Rightarrow> (int \<times> result_set option \<times> connections) outcome" where
  "SqlWrapper_Query env conns w rs =
     (if sw_stmt w = None \<or> sw_sql w = [] then Inr (0, rs, conns)
      else obind (conn_at conns (sw_conn w)) (\<lambda>c.
           obind (Connection_Query env (sw_stmt w) rs c) (\<lambda>(ret, rs', c').
             Inr (ret, rs', case sw_conn w of Object n \<Rightarrow> conns(n := c') | First_Word _ \<Rightarrow> conns))))"

section \<open>The table of pools\<close>

type_synonym db_pools = "(string, connection_pool) amap"

text \<open>The loop over the numbered names: it stops at the first missing one and skips one without a source.\<close>

fun load_pools :: "(string \<Rightarrow> pool_env) \<Rightarrow> config \<Rightarrow> nat list \<Rightarrow> db_pools \<Rightarrow> db_pools" where
  "load_pools env conf [] m = m"
| "load_pools env conf (index # rest) m =
     (let db = Config_Get conf (numbered ''DSN'' index ''_name'');
          dsn = Config_Get conf (FormatV (c_str db @ ''.dsn''))
      in if db = [] then m
         else if dsn = [] then load_pools env conf rest m
         else
           let init_size = int32 (Config_GetInt_default conf (FormatV (c_str db @ ''.init_size'')) 10);
               inc_size = int32 (Config_GetInt_default conf (FormatV (c_str db @ ''.inc_size'')) 2);
               max_size = int32 (Config_GetInt_default conf (FormatV (c_str db @ ''.max_size'')) 100)
           in load_pools env conf rest
                (amap_set db (ConnectionPool_Init (env dsn) dsn init_size inc_size max_size ConnectionPool_new) m))"

definition db_Initialize :: "(string \<Rightarrow> pool_env) \<Rightarrow> config \<Rightarrow> db_pools" where
  "db_Initialize env conf = load_pools env conf [1..<kMaxSize + 1] []"

definition db_SqlWrapper ::
    "pool_env \<Rightarrow> connections \<Rightarrow> string \<Rightarrow> string \<Rightarrow> db_pools \<Rightarrow> (sql_wrapper \<times> connection_pool) outcome" where
  "db_SqlWrapper env conns db sql m = SqlWrapper_new env conns sql (map_of m db)"

section \<open>Lemmas: parameters\<close>

lemma Append_all:
  "ps_param_values (fold (\<lambda>v. Statement_Append t v) vs s) = ps_param_values s @ map (Pair t) vs"
  by (induction vs arbitrary: s) (auto simp: Statement_Append_def)

lemma ParamLengths_Append:
  "list_all (\<lambda>v. v \<noteq> []) vs \<Longrightarrow> ps_values s \<noteq> [] \<Longrightarrow>
   ParamLengths (fold (\<lambda>v. Statement_Append t v) vs s) = ParamLengths s + (\<Sum>v \<leftarrow> vs. length v + 2)"
  by (induction vs arbitrary: s) (auto simp: Statement_Append_def ParamLengths_def)

lemma sum_lengths: "list_all (\<lambda>v. v \<noteq> []) vs \<Longrightarrow> length vs * 3 \<le> (\<Sum>v \<leftarrow> vs. length v + 2)"
proof (induction vs)
  case (Cons v vs)
  then have "1 \<le> length v" by (cases v) auto
  with Cons show ?case by simp
qed simp

section \<open>Lemmas: results\<close>

definition column_info :: "int \<times> string \<Rightarrow> field_type_name" where
  "column_info f = \<lparr>ft_type = Some (fst f), ft_name = ToUpper (c_str (snd f))\<rparr>"

lemma set_type_name: "f\<lparr>ft_type := a, ft_name := b\<rparr> = \<lparr>ft_type = a, ft_name = b\<rparr>"
  by (cases f) simp

lemma fill_fields_all:
  "length (rs_field_info r) = k + length fs \<Longrightarrow>
   fill_fields k fs r = Inr (r\<lparr>rs_field_info := take k (rs_field_info r) @ map column_info fs\<rparr>)"
proof (induction fs arbitrary: k r)
  case Nil
  then show ?case by simp
next
  case (Cons f fs)
  obtain t n where f: "f = (t, n)" by (cases f)
  let ?r = "r\<lparr>rs_field_info := (rs_field_info r)[k := column_info f]\<rparr>"
  have "fill_fields k (f # fs) r = fill_fields (Suc k) fs ?r"
    using Cons.prems by (simp add: f SetType_def SetName_def column_info_def set_type_name)
  also have "\<dots> = Inr (?r\<lparr>rs_field_info := take (Suc k) (rs_field_info ?r) @ map column_info fs\<rparr>)"
    by (rule Cons.IH) (use Cons.prems in simp)
  finally show ?case using Cons.prems by (simp add: take_Suc_conv_app_nth)
qed

lemma fill_row_eq: "fill_row row = map (\<lambda>v. (fill_field v, True)) row"
proof -
  have "fold (\<lambda>v r. Record_Append (fill_field v) True r) row r = r @ map (\<lambda>v. (fill_field v, True)) row" for r
    by (induction row arbitrary: r) (auto simp: Record_Append_def)
  then show ?thesis by (simp add: fill_row_def)
qed

lemma append_rows_eq:
  "fold (\<lambda>row. Record_Append (fill_row row) True) rows r = r @ map (\<lambda>row. (fill_row row, True)) rows"
  by (induction rows arbitrary: r) (auto simp: Record_Append_def)

lemma field_index_find:
  "field_index fs name i = (case List.find (\<lambda>k. ft_name (fs ! k) = name) [0..<length fs] of None \<Rightarrow> -1 | Some k \<Rightarrow> i + int k)"
proof (induction fs arbitrary: i)
  case Nil
  then show ?case by simp
next
  case (Cons f fs)
  have "[0..<length (f # fs)] = 0 # map Suc [0..<length fs]" by (simp add: upt_conv_Cons map_Suc_upt del: upt_Suc)
  moreover have "List.find P (map Suc xs) = map_option Suc (List.find (\<lambda>k. P (Suc k)) xs)" for P xs
    by (induction xs) auto
  ultimately have "List.find (\<lambda>k. ft_name ((f # fs) ! k) = name) [0..<length (f # fs)] =
      (if ft_name f = name then Some 0 else map_option Suc (List.find (\<lambda>k. ft_name (fs ! k) = name) [0..<length fs]))"
    by (simp only: find.simps nth_Cons_0 nth_Cons_Suc)
  then show ?case using Cons.IH [of "i + 1"] by (simp del: upt_Suc split: option.split)
qed

section \<open>Lemmas: uses of a pool\<close>

text \<open>A wrapper made for one statement and destroyed, again and again.\<close>

primrec sql_uses :: "pool_env \<Rightarrow> connections \<Rightarrow> string \<Rightarrow> nat \<Rightarrow> connection_pool \<Rightarrow> connection_pool outcome" where
  "sql_uses env conns sql 0 c = Inr c"
| "sql_uses env conns sql (Suc k) c =
     obind (SqlWrapper_new env conns sql (Some c)) (\<lambda>(w, c1).
     obind (SqlWrapper_destroy conns w c1) (\<lambda>c2. sql_uses env conns sql k c2))"

definition used_pool :: "nat \<Rightarrow> nat \<Rightarrow> int \<Rightarrow> int \<Rightarrow> simple_pool" where
  "used_pool n k inc mx =
     \<lparr>sp_current_size = int n, sp_idle_size = int n, sp_init_size = int n, sp_inc_size = inc, sp_max_size = mx,
      sp_list = map (\<lambda>i. Ref_Object (Some i)) [k..<n] @ map (\<lambda>i. Before (Object i)) [0..<k],
      sp_lock = Posix_Lock, sp_created = n\<rparr>"

lemma create_n:
  assumes "\<And>i. pe_create env i"
  shows "(create_one env ^^ m) p = p\<lparr>sp_list := sp_list p @ map (\<lambda>i. Ref_Object (Some i)) [sp_created p..<sp_created p + m],
     sp_idle_size := sp_idle_size p + int m, sp_current_size := sp_current_size p + int m, sp_created := sp_created p + m\<rparr>"
  by (induction m) (simp_all add: create_one_def assms)

lemma used_pool_init:
  assumes "\<And>i. pe_create env i" and "0 < n" and "mx < 0 \<or> int n < mx"
  shows "SimplePool_new env (int n) inc mx Posix_Lock = used_pool n 0 inc mx"
  using assms(2,3) by (simp add: SimplePool_new_def Let_def Pool_Create_def create_n [OF assms(1)] used_pool_def)

lemma use_fresh:
  assumes "\<And>w. pe_freed env w = Inr w" and "k < n" and "cp_pool c = Some (used_pool n k inc mx)"
  shows "obind (SqlWrapper_new env conns sql (Some c)) (\<lambda>(w, c1). SqlWrapper_destroy conns w c1) =
    Inr (c\<lparr>cp_pool := Some (used_pool n (Suc k) inc mx)\<rparr>)"
proof -
  have "[k..<n] = k # [Suc k..<n]" using assms(2) by (simp add: upt_conv_Cons)
  then show ?thesis
    using assms(2,3) by (simp add: SqlWrapper_new_def ConnectionPool_Get_def Pool_GetObject_def Pool_Get_def Let_def assms(1)
        used_pool_def wrapper_pointer_def deref_def conn_at_def SqlWrapper_destroy_def ConnectionPool_Release_def
        Pool_ReleaseObject_def)
qed

lemma use_stale:
  assumes "\<And>w. pe_freed env w = Inr w" and "0 < n" and "cp_pool c = Some (used_pool n n inc mx)"
  shows "SqlWrapper_new env conns sql (Some c) = Inl Uninitialised"
proof -
  have "[0..<n] = 0 # [Suc 0..<n]" using assms(2) by (simp add: upt_conv_Cons)
  then show ?thesis
    using assms(2,3) by (simp add: SqlWrapper_new_def ConnectionPool_Get_def Pool_GetObject_def Pool_Get_def Let_def assms(1)
        used_pool_def wrapper_pointer_def deref_def conn_at_def)
qed

lemma sql_uses_used:
  assumes "\<And>w. pe_freed env w = Inr w" and "0 < n"
  shows "k \<le> n \<Longrightarrow> cp_pool c = Some (used_pool n k inc mx) \<Longrightarrow> returns (sql_uses env conns sql m c) \<longleftrightarrow> k + m \<le> n"
proof (induction m arbitrary: k c)
  case 0
  then show ?case by simp
next
  case (Suc m)
  show ?case
  proof (cases "k < n")
    case True
    note use = use_fresh [OF assms(1) True Suc.prems(2), of conns sql]
    then have "sql_uses env conns sql (Suc m) c = sql_uses env conns sql m (c\<lparr>cp_pool := Some (used_pool n (Suc k) inc mx)\<rparr>)"
      by (auto simp: obind_eq_Inr)
    with Suc.IH [of "Suc k" "c\<lparr>cp_pool := Some (used_pool n (Suc k) inc mx)\<rparr>"] True show ?thesis by simp
  next
    case False
    with Suc.prems have "k = n" by simp
    with use_stale [OF assms] Suc.prems(2) show ?thesis by simp
  qed
qed

section \<open>Properties\<close>

text \<open>A pool serves exactly as many statements as it was made with connections.  Where the freed list
  node still holds its value and every connection was created, wrappers that are made and destroyed one
  after the other work for the first \<open>init_size\<close> statements, and the next one calls through something that
  is not a connection.\<close>

theorem pool_serves_init_size:
  assumes "\<And>w. pe_freed env w = Inr w" and "\<And>i. pe_create env i"
    and "0 < init_size" and "max_size < 0 \<or> init_size < max_size"
  shows "returns (sql_uses env conns sql m (ConnectionPool_Init env dsn init_size inc_size max_size c)) \<longleftrightarrow>
    int m \<le> init_size"
proof -
  obtain n where n: "init_size = int n" "0 < n" using assms(3) by (metis zero_less_imp_eq_int)
  then have "cp_pool (ConnectionPool_Init env dsn init_size inc_size max_size c) = Some (used_pool n 0 inc_size max_size)"
    using used_pool_init [OF assms(2) n(2), of max_size inc_size] assms(4) by (simp add: ConnectionPool_Init_def)
  from sql_uses_used [OF assms(1) n(2) _ this, of conns sql m] n(1) show ?thesis by simp
qed

lemma pool_serves_init_size_witness:
  "\<forall>conns. \<not> returns (sql_uses kept_env conns ''select 1'' 11 (ConnectionPool_Init kept_env ''pg://'' 10 2 100 ConnectionPool_new))"
  using pool_serves_init_size [of kept_env 10 100 _ _ 11] by (simp add: kept_env_def)

text \<open>Bound values.  With values that are not empty, a statement hands exactly its values to the server
  when it has a single value of a single character; any other statement makes the server library read
  behind the values, because the number of parameters is taken from the length of the printed list.\<close>

theorem statement_parameters:
  assumes "vs \<noteq> []" and "list_all (\<lambda>v. v \<noteq> [] \<and> CHR 0x00 \<notin> set v) vs"
  shows "read_params (fold (\<lambda>v. Statement_Append t v) vs (Statement_SetSql sql Statement_new)) =
    (if length vs = 1 \<and> length (hd vs) = 1 then Inr vs
     else if length vs < 32 then Inl Uninitialised else Inl Out_Of_Bounds)"
proof -
  obtain v ws where vs: "vs = v # ws" using assms(1) by (cases vs) auto
  let ?start = "Statement_SetSql sql Statement_new"
  let ?s = "fold (\<lambda>v. Statement_Append t v) vs ?start"
  have ne: "list_all (\<lambda>v. v \<noteq> []) ws" "v \<noteq> []" "CHR 0x00 \<notin> set v" using assms(2) by (auto simp: vs list_all_iff)
  have params: "ps_param_values ?s = map (Pair t) vs"
    by (simp add: Append_all Statement_SetSql_def Statement_new_def)
  have "ParamLengths ?s = length v + (\<Sum>w \<leftarrow> ws. length w + 2)"
    using ParamLengths_Append [OF ne(1), of "Statement_Append t v ?start" t] ne(2)
    by (simp add: vs Statement_Append_def Statement_SetSql_def Statement_new_def ParamLengths_def)
  moreover have "1 \<le> length v" using ne(2) by (cases v) auto
  moreover note sum_lengths [OF ne(1)]
  ultimately have len: "ParamLengths ?s \<le> length vs \<longleftrightarrow> ws = [] \<and> length v = 1" "ws = [] \<longrightarrow> ParamLengths ?s = length v"
    by (cases ws; auto simp: vs)+
  show ?thesis
    using len ne(3) params by (auto simp: read_params_def Let_def PG_STMT_PARAM_SIZE_def vs)
qed

lemma statement_parameters_witness:
  "read_params (fold (\<lambda>v. Statement_Append 2 v) [''alice''] (Statement_SetSql ''select $1'' Statement_new)) = Inl Uninitialised"
  using statement_parameters [of "[''alice'']" 2 "''select $1''"] by simp

text \<open>The table of a query without parameters.  The result is the number of rows, each field is the
  value of its row and column or null, and a column is found by its name, upper and lower case alike, at
  its first position.\<close>

theorem query_fills_result:
  assumes "pc_conn c \<noteq> None" and "pg_exec env (c_str sql) [] = res" and "pr_status res = PGRES_TUPLES_OK"
  shows "\<exists>r. Connection_Query_sql env sql (Some ResultSet_new) c = Inr (int (length (pr_rows res)), Some r, c) \<and>
    Record_Size (rs_rows r) = int (length (pr_rows res)) \<and>
    (\<forall>i j. i < length (pr_rows res) \<longrightarrow> j < length (pr_rows res ! i) \<longrightarrow>
      ResultSet_value r (int i) (int j) = Inr (fill_field (pr_rows res ! i ! j))) \<and>
    (\<forall>name. ResultSet_Index r name =
      (case List.find (\<lambda>k. ToUpper (c_str (snd (pr_fields res ! k))) = ToUpper name) [0..<length (pr_fields res)] of
         None \<Rightarrow> -1 | Some k \<Rightarrow> int k))"
proof -
  obtain y where conn: "pc_conn c = Some y" using assms(1) by auto
  let ?empty = "SetFieldSize (int (length (pr_fields res))) ResultSet_new"
  have "length (rs_field_info ?empty) = 0 + length (pr_fields res)"
    by (auto simp: SetFieldSize_def ResultSet_new_def)
  note info = fill_fields_all [OF this]
  let ?r = "?empty\<lparr>rs_field_info := map column_info (pr_fields res), rs_rows := map (\<lambda>row. (fill_row row, True)) (pr_rows res)\<rparr>"
  have "fill_result res ResultSet_new = Inr ?r"
    using info by (simp add: fill_result_def append_rows_eq SetFieldSize_def ResultSet_new_def)
  then have "Connection_Query_sql env sql (Some ResultSet_new) c = Inr (int (length (pr_rows res)), Some ?r, c)"
    using assms(2,3) conn by (simp add: Connection_Query_sql_def Connection_Query_def CreateStatement_def read_params_def
        ParamLengths_def Statement_SetSql_def Statement_new_def Let_def)
  moreover have "ResultSet_value ?r (int i) (int j) = Inr (fill_field (pr_rows res ! i ! j))"
    if "i < length (pr_rows res)" "j < length (pr_rows res ! i)" for i j
    using that by (simp add: ResultSet_value_def Record_at_def fill_row_eq)
  moreover have "ResultSet_Index ?r name =
      (case List.find (\<lambda>k. ToUpper (c_str (snd (pr_fields res ! k))) = ToUpper name) [0..<length (pr_fields res)] of
         None \<Rightarrow> -1 | Some k \<Rightarrow> int k)" for name
  proof -
    have "List.find (\<lambda>k. ft_name (map column_info (pr_fields res) ! k) = ToUpper name) [0..<length (pr_fields res)] =
        List.find (\<lambda>k. ToUpper (c_str (snd (pr_fields res ! k))) = ToUpper name) [0..<length (pr_fields res)]"
      by (rule find_cong) (auto simp: column_info_def)
    then show ?thesis by (simp add: ResultSet_Index_def field_index_find split: option.splits)
  qed
  ultimately show ?thesis by (intro exI [of _ ?r]) (simp add: Record_Size_def)
qed

lemma query_fills_result_witness:
  "\<exists>r. Connection_Query_sql \<lparr>pg_connect = \<lambda>_. None, pg_exec = \<lambda>_ _. \<lparr>pr_status = PGRES_TUPLES_OK, pr_fields = [(25, ''id'')],
      pr_rows = [[Some ''7''], [None]]\<rparr>, pg_reset = True\<rparr> ''select id'' (Some ResultSet_new)
      \<lparr>pc_conn = Some True, pc_username = [], pc_password = []\<rparr> =
      Inr (2, Some r, \<lparr>pc_conn = Some True, pc_username = [], pc_password = []\<rparr>) \<and>
    ResultSet_value r 0 0 = Inr \<lparr>rf_value = ''7'', rf_null = False\<rparr>"
  using query_fills_result [of "\<lparr>pc_conn = Some True, pc_username = [], pc_password = []\<rparr>" "\<lparr>pg_connect = \<lambda>_. None,
      pg_exec = \<lambda>_ _. \<lparr>pr_status = PGRES_TUPLES_OK, pr_fields = [(25, ''id'')], pr_rows = [[Some ''7''], [None]]\<rparr>,
      pg_reset = True\<rparr>" "''select id''"]
  by (auto dest!: spec [of _ "0::nat"] simp: fill_field_def ResultField_SetValue_def ResultField_new_def c_str_def)

lemma password_in_connect_text: "sublist (''password='' @ DSN_Password d) (connect_text d)"
proof -
  define pw where "pw = ''password='' @ DSN_Password d"
  have "connect_text d = (''user='' @ DSN_Username d @ '' '') @ pw @ ('' dbname='' @ DSN_DBName d @ '' '' @
     (if DSN_Host d \<noteq> [] then ''host='' @ DSN_Host d @ '' '' else []) @
     (if DSN_Port d \<noteq> [] then ''port='' @ DSN_Port d @ '' '' else []))"
    by (simp add: connect_text_def pw_def)
  then show ?thesis by (simp only: pw_def [symmetric] sublist_appendI)
qed

text \<open>When a connection fails, the line that is logged holds the password: clearing the stream's state
  does not clear its text.\<close>

theorem connect_failure_logs_password:
  assumes "DSN_Username d \<noteq> []" and "DSN_Password d \<noteq> []" and "DSN_DBName d \<noteq> []"
    and "pg_connect env (c_str (connect_text d)) = Some (status, message)" and "CHR 0x00 \<notin> set (connect_text d)"
  shows "\<exists>c' line. Connection_Create env d c = (-1, c', Some line) \<and> sublist (''password='' @ DSN_Password d) line"
proof -
  let ?tail = "dec_int status @ '': '' @ message @ [CHR 0x0A] @ ''dsn: '' @ dsn_connstr d @ [CHR 0x0A]"
  have "c_str (connect_text d @ ?tail) = connect_text d @ c_str ?tail"
    unfolding c_str_def by (rule takeWhile_append2) (use assms(5) in auto)
  then have "sublist (connect_text d) (c_str (connect_text d @ ?tail))" by (simp only: sublist_append_rightI)
  with password_in_connect_text have "sublist (''password='' @ DSN_Password d) (c_str (connect_text d @ ?tail))"
    by (rule sublist_order.order_trans)
  moreover have "\<exists>c'. Connection_Create env d c = (-1, c', Some (c_str (connect_text d @ ?tail)))"
    using assms(1-3) by (simp add: Connection_Create_def Let_def assms(4))
  ultimately show ?thesis by blast
qed

lemma connect_failure_logs_password_witness:
  "\<exists>c' line. Connection_Create \<lparr>pg_connect = \<lambda>_. Some (1, ''refused''), pg_exec = \<lambda>_ _. \<lparr>pr_status = PGRES_FATAL_ERROR,
      pr_fields = [], pr_rows = []\<rparr>, pg_reset = False\<rparr> (DSN_Clear\<lparr>dsn_username := ''u'', dsn_password := ''secret'', dsn_dbname := ''d''\<rparr>)
      Connection_new = (-1, c', Some line) \<and> sublist ''password=secret'' line"
  using connect_failure_logs_password [of "DSN_Clear\<lparr>dsn_username := ''u'', dsn_password := ''secret'', dsn_dbname := ''d''\<rparr>"
      "\<lparr>pg_connect = \<lambda>_. Some (1, ''refused''), pg_exec = \<lambda>_ _. \<lparr>pr_status = PGRES_FATAL_ERROR, pr_fields = [], pr_rows = []\<rparr>,
        pg_reset = False\<rparr>" 1 "''refused''" Connection_new]
  by (simp add: DSN_Username_def DSN_Password_def DSN_DBName_def DSN_Host_def DSN_Port_def DSN_Param_def DSN_Clear_def connect_text_def)

end
