(* ===== verification/String_Convert.thy ===== *)
theory String_Convert
  imports String_Helper
begin

text \<open>
  \<open>helper/string_convert.cpp\<close>: the classes \<open>Unicode\<close>, \<open>Ansi\<close> and \<open>Utf8\<close>.  A \<open>wchar_t\<close> is a signed
  32-bit integer on the platforms the program is built for, a \<open>wstring\<close> a list of them; the
  pointers are to text that ends at its first NUL.  The locale of the process is a state, the names
  it knows and the conversions of the C library (\<open>mbstowcs\<close>, \<open>wcstombs\<close>) are parameters.
\<close>

type_synonym wchar = "32 word"

abbreviation NONE_INPUT :: int where "NONE_INPUT \<equiv> 0"
abbreviation INVALID_INPUT :: int where "INVALID_INPUT \<equiv> - 1"
abbreviation SMALL_OUTPUT :: int where "SMALL_OUTPUT \<equiv> - 2"

section \<open>One character\<close>

text \<open>\<open>(b ^ 0x80) < 0x40\<close>, and the six bits such a byte carries.\<close>

definition is_tail :: "byte \<Rightarrow> bool" where
  "is_tail b \<longleftrightarrow> b XOR 0x80 < 0x40"

definition tail_bits :: "byte \<Rightarrow> wchar" where
  "tail_bits b = ucast (b XOR 0x80)"

text \<open>\<open>WcharFromUtf8\<close>: the bytes that are left, and \<open>wch\<close> as it was; the result is the number of
  bytes of the character, or why there is none, and \<open>wch\<close> as it is left.\<close>

definition WcharFromUtf8 :: "byte list \<Rightarrow> wchar \<Rightarrow> int \<times> wchar" where
  "WcharFromUtf8 utf8 wch =
     (let size = length utf8; ch = utf8 ! 0; lead = ucast ch :: wchar in
      if size = 0 then (NONE_INPUT, wch)
      else if ch < 0x80 then (1, lead)
      else if ch < 0xc0 then
        if size < 2 \<or> \<not> is_tail (utf8 ! 1) then (INVALID_INPUT, wch)
        else (2, push_bit 6 (lead AND 0x1f) OR tail_bits (utf8 ! 1))
      else if ch < 0xf0 then
        if size < 3 then (INVALID_INPUT, wch)
        else if \<not> (is_tail (utf8 ! 1) \<and> is_tail (utf8 ! 2) \<and> (0xe1 \<le> ch \<or> 0xa0 \<le> utf8 ! 1))
        then (INVALID_INPUT, wch)
        else (3, push_bit 12 (lead AND 0x0f) OR push_bit 6 (tail_bits (utf8 ! 1)) OR tail_bits (utf8 ! 2))
      else if ch < 0xf8 then
        if size < 4 then (INVALID_INPUT, wch)
        else if \<not> (is_tail (utf8 ! 1) \<and> is_tail (utf8 ! 2) \<and> is_tail (utf8 ! 3)
                   \<and> (0xf1 \<le> ch \<or> 0x90 \<le> utf8 ! 1))
        then (INVALID_INPUT, wch)
        else (4, push_bit 18 (lead AND 0x07) OR push_bit 12 (tail_bits (utf8 ! 1))
                 OR push_bit 6 (tail_bits (utf8 ! 2)) OR tail_bits (utf8 ! 3))
      else if ch < 0xfc then
        if size < 5 then (INVALID_INPUT, wch)
        else if \<not> (is_tail (utf8 ! 1) \<and> is_tail (utf8 ! 2) \<and> is_tail (utf8 ! 3) \<and> is_tail (utf8 ! 4)
                   \<and> (0xf9 \<le> ch \<or> 0x88 \<le> utf8 ! 1))
        then (INVALID_INPUT, wch)
        else (5, push_bit 24 (of_nat size AND 0x03) OR push_bit 18 (tail_bits (utf8 ! 1))
                 OR push_bit 12 (tail_bits (utf8 ! 2)) OR push_bit 6 (tail_bits (utf8 ! 3))
                 OR tail_bits (utf8 ! 4))
      else if ch < 0xfe then
        if size < 6 then (INVALID_INPUT, wch)
        else if \<not> (is_tail (utf8 ! 1) \<and> is_tail (utf8 ! 2) \<and> is_tail (utf8 ! 3) \<and> is_tail (utf8 ! 4)
                   \<and> is_tail (utf8 ! 5) \<and> (0xfd \<le> ch \<or> 0x84 \<le> utf8 ! 1))
        then (INVALID_INPUT, wch)
        else (6, push_bit 30 (lead AND 0x01) OR push_bit 24 (tail_bits (utf8 ! 1))
                 OR push_bit 18 (tail_bits (utf8 ! 2)) OR push_bit 12 (tail_bits (utf8 ! 3))
                 OR push_bit 6 (tail_bits (utf8 ! 4)) OR tail_bits (utf8 ! 5))
      else (INVALID_INPUT, wch))"

text \<open>\<open>WcharToUtf8\<close>: the comparisons are those of signed integers, so a negative character takes one
  byte and \<open>INVALID_INPUT\<close> is never returned.  The \<open>switch\<close> falls through from its case to \<open>case 1\<close>;
  the list is what the array holds behind the byte the case writes.\<close>

definition utf8_count :: "wchar \<Rightarrow> nat option" where
  "utf8_count wch =
     (if sint wch < 0x80 then Some 1 else if sint wch < 0x800 then Some 2
      else if sint wch < 0x10000 then Some 3 else if sint wch < 0x200000 then Some 4
      else if sint wch < 0x4000000 then Some 5 else if sint wch \<le> 0x7fffffff then Some 6
      else None)"

definition lead_mark :: "nat \<Rightarrow> wchar" where
  "lead_mark n = (if n = 6 then 0x4000000 else if n = 5 then 0x200000 else if n = 4 then 0x10000
     else if n = 3 then 0x800 else 0xc0)"

fun utf8_bytes :: "nat \<Rightarrow> wchar \<Rightarrow> byte list \<Rightarrow> byte list" where
  "utf8_bytes 0 wch bs = bs"
| "utf8_bytes (Suc 0) wch bs = ucast (wch AND 0xff) # bs"
| "utf8_bytes (Suc (Suc n)) wch bs =
     utf8_bytes (Suc n) (signed_drop_bit 6 wch OR lead_mark (n + 2)) (ucast (0x80 OR (wch AND 0x3f)) # bs)"

definition WcharToUtf8 :: "wchar \<Rightarrow> nat \<Rightarrow> int \<times> byte list" where
  "WcharToUtf8 wch room =
     (case utf8_count wch of
        None \<Rightarrow> (INVALID_INPUT, [])
      | Some count \<Rightarrow> if room < count then (SMALL_OUTPUT, []) else (int count, utf8_bytes count wch []))"

section \<open>Strings\<close>

lemma WcharFromUtf8_step:
  assumes "0 < fst (WcharFromUtf8 utf8 wch)"
  shows "utf8 \<noteq> []"
  using assms by (auto simp: WcharFromUtf8_def Let_def)

text \<open>The loop of \<open>Unicode::FromUtf8\<close>, with \<open>ws_\<close> and the reason it stopped for.\<close>

function from_utf8_loop :: "byte list \<Rightarrow> wchar \<Rightarrow> wchar list \<Rightarrow> int \<times> wchar list" where
  "from_utf8_loop utf8 wch ws =
     (let r = WcharFromUtf8 utf8 wch in
      if 0 < fst r then from_utf8_loop (drop (nat (fst r)) utf8) (snd r) (ws @ [snd r])
      else (fst r, ws))"
  by pat_completeness auto
termination
  by (relation "measure (\<lambda>(utf8, wch, ws). length utf8)") (auto intro!: diff_less dest: WcharFromUtf8_step)

declare from_utf8_loop.simps [simp del]

definition Unicode_FromUtf8 :: "wchar list \<Rightarrow> string \<Rightarrow> wchar list" where
  "Unicode_FromUtf8 ws s =
     (let r = from_utf8_loop (map byte_of (c_str s)) 0 ws in if fst r = INVALID_INPUT then [] else snd r)"

definition wide_c_str :: "wchar list \<Rightarrow> wchar list" where
  "wide_c_str ws = takeWhile (\<lambda>w. w \<noteq> 0) ws"

text \<open>The loop of \<open>Utf8::FromUnicode\<close>; it would stop at a character \<open>WcharToUtf8\<close> refuses.\<close>

fun to_utf8_loop :: "wchar list \<Rightarrow> string \<Rightarrow> string" where
  "to_utf8_loop [] utf8 = utf8"
| "to_utf8_loop (w # ws) utf8 =
     (let r = WcharToUtf8 w 6 in
      if w \<noteq> 0 \<and> 0 < fst r then to_utf8_loop ws (utf8 @ map char_of_byte (snd r)) else utf8)"

definition Utf8_FromUnicode :: "wchar list \<Rightarrow> string" where
  "Utf8_FromUnicode ws = to_utf8_loop ws []"

section \<open>The process's locale\<close>

text \<open>\<open>setlocale\<close> of one category: \<open>known\<close> are the names the C library accepts.  A null name asks for the
  locale and changes nothing.  The result is the name of the locale afterwards, or null.\<close>

definition setlocale :: "(string \<Rightarrow> bool) \<Rightarrow> string option \<Rightarrow> string \<Rightarrow> string option \<times> string" where
  "setlocale known name cur =
     (case name of
        None \<Rightarrow> (Some cur, cur)
      | Some n \<Rightarrow> if known n then (Some n, n) else (None, cur))"

text \<open>A \<open>Locale\<close> keeps what \<open>setlocale\<close> answered; its destructor restores a null locale, which is a query.\<close>

definition Locale_ctor :: "(string \<Rightarrow> bool) \<Rightarrow> string option \<Rightarrow> string \<Rightarrow> string option \<times> string" where
  "Locale_ctor known name cur =
     (case name of None \<Rightarrow> (None, cur) | Some n \<Rightarrow> setlocale known (Some n) cur)"

definition Locale_dtor :: "(string \<Rightarrow> bool) \<Rightarrow> string option \<Rightarrow> string \<Rightarrow> string" where
  "Locale_dtor known locale cur = (if locale = None then snd (setlocale known locale cur) else cur)"

text \<open>\<open>mbs\<close> is \<open>mbstowcs\<close> in a locale, without the final NUL, \<open>wcs\<close> is \<open>wcstombs\<close>; both may refuse the
  text.  The target is one element longer than the text and its last element is the NUL.\<close>

definition Unicode_FromAnsi ::
  "(string \<Rightarrow> bool) \<Rightarrow> (string \<Rightarrow> string \<Rightarrow> wchar list option) \<Rightarrow> wchar list \<Rightarrow> string \<Rightarrow> string option \<Rightarrow> string
   \<Rightarrow> wchar list \<times> string" where
  "Unicode_FromAnsi known mbs ws s locale cur =
     (let (loc, cur') = Locale_ctor known locale cur;
          ws' = (case mbs cur' (c_str s) of None \<Rightarrow> ws | Some r \<Rightarrow> r @ [0])
      in (ws', Locale_dtor known loc cur'))"

definition Unicode_From ::
  "(string \<Rightarrow> bool) \<Rightarrow> (string \<Rightarrow> string \<Rightarrow> wchar list option) \<Rightarrow> string \<Rightarrow> string option \<Rightarrow> string
   \<Rightarrow> wchar list \<times> string" where
  "Unicode_From known mbs s locale cur =
     (let loc = String_of_cstr locale in
      if String_Exist loc ''utf8'' True \<or> String_Exist loc ''utf-8'' True
      then (Unicode_FromUtf8 [] s, cur)
      else Unicode_FromAnsi known mbs [] s locale cur)"

definition Ansi_FromUnicode ::
  "(string \<Rightarrow> bool) \<Rightarrow> (string \<Rightarrow> wchar list \<Rightarrow> string option) \<Rightarrow> string option \<Rightarrow> wchar list \<Rightarrow> string
   \<Rightarrow> string \<times> string" where
  "Ansi_FromUnicode known wcs locale ws cur =
     (let (loc, cur') = Locale_ctor known locale cur;
          s = (case wcs cur' (wide_c_str ws) of None \<Rightarrow> [] | Some r \<Rightarrow> r @ [CHR 0x00])
      in (s, Locale_dtor known loc cur'))"

definition Ansi_FromUtf8 ::
  "(string \<Rightarrow> bool) \<Rightarrow> (string \<Rightarrow> string \<Rightarrow> wchar list option) \<Rightarrow> (string \<Rightarrow> wchar list \<Rightarrow> string option)
   \<Rightarrow> string option \<Rightarrow> string \<Rightarrow> string \<Rightarrow> string \<times> string" where
  "Ansi_FromUtf8 known mbs wcs locale s cur =
     (let (ws, cur') = Unicode_From known mbs s (Some ''utf8'') cur
      in Ansi_FromUnicode known wcs locale (wide_c_str ws) cur')"

definition Utf8_FromAnsi ::
  "(string \<Rightarrow> bool) \<Rightarrow> (string \<Rightarrow> string \<Rightarrow> wchar list option) \<Rightarrow> string \<Rightarrow> string option \<Rightarrow> string
   \<Rightarrow> string \<times> string" where
  "Utf8_FromAnsi known mbs ansi locale cur =
     (let (ws, cur') = Unicode_From known mbs ansi locale cur
      in (Utf8_FromUnicode (wide_c_str ws), cur'))"

section \<open>What the encoder writes\<close>


lemma wchar_eqI: "(\<And>n. n \<in> set [0..<32] \<Longrightarrow> bit x n = bit y n) \<Longrightarrow> x = (y :: wchar)"
  by (rule bit_word_eqI) simp

lemma low_eight: "w AND 0xff = take_bit 8 (w :: wchar)"
  by (simp add: take_bit_eq_mask mask_eq_exp_minus_1)

lemma low_six: "w AND 0x3f = take_bit 6 (w :: wchar)"
  by (simp add: take_bit_eq_mask mask_eq_exp_minus_1)

definition tail_byte :: "wchar \<Rightarrow> byte" where
  "tail_byte w = ucast (0x80 OR (w AND 0x3f))"

lemma bit_octet:
  "bit (128 :: 'a::len word) n \<longleftrightarrow> n = 7 \<and> 7 < LENGTH('a)"
  "bit (128 :: int) n \<longleftrightarrow> n = 7" "bit (128 :: nat) n \<longleftrightarrow> n = 7"
  using bit_exp_iff [where 'a = "'a word", of 7 n] bit_exp_iff [where 'a = int, of 7 n]
    bit_exp_iff [where 'a = nat, of 7 n] by auto

lemma tail_bits_tail_byte [simp]: "tail_bits (tail_byte w) = take_bit 6 w"
  by (rule bit_word_eqI) (auto simp: tail_bits_def tail_byte_def low_six bit_simps bit_octet)

lemma tail_byte_xor: "tail_byte w XOR 0x80 = take_bit 6 (ucast w)"
  by (rule byte_eqI) (auto simp: tail_byte_def bit_simps)

lemma unat_take_bit_six: "unat (take_bit 6 (ucast (w :: wchar)) :: byte) = unat w mod 64"
  by (simp add: unsigned_take_bit_eq unsigned_ucast_eq del: take_bit_eq_mod) (simp add: take_bit_eq_mod)

lemma is_tail_tail_byte [simp]: "is_tail (tail_byte w)"
  by (simp add: is_tail_def tail_byte_xor word_less_nat_alt unat_take_bit_six)

lemma or_plus:
  assumes "m AND x = (0 :: byte)" "unat m + unat x < 256"
  shows "unat (m OR x) = unat m + unat x"
  using assms by (simp add: disjunctive_add_eq_or [symmetric] unat_word_ariths)

lemma unat_tail_byte: "unat (tail_byte w) = 128 + unat w mod 64"
proof -
  have "tail_byte w = 0x80 OR take_bit 6 (ucast w)"
    by (rule byte_eqI) (auto simp: tail_byte_def bit_simps)
  moreover have "0x80 AND take_bit 6 (ucast w) = (0 :: byte)"
    by (rule byte_eqI) (auto simp: bit_simps)
  moreover have "unat w mod 64 < 64"
    by simp
  ultimately show ?thesis
    by (simp add: or_plus unat_take_bit_six)
qed


definition lead_byte :: "nat \<Rightarrow> byte \<Rightarrow> wchar \<Rightarrow> byte" where
  "lead_byte k m w = m OR ucast (drop_bit k w)"

lemma high_bits: "unat w < 2 ^ k \<Longrightarrow> k \<le> n \<Longrightarrow> \<not> bit (w :: wchar) n"
  by (metis (no_types, lifting) bit_take_bit_iff leD take_bit_nat_eq_self_iff unsigned_take_bit_eq word_eq_iff_unsigned)


definition next_wchar :: "nat \<Rightarrow> wchar \<Rightarrow> wchar" where
  "next_wchar j w = signed_drop_bit 6 w OR 2 ^ j"

lemma utf8_bytes_step:
  "utf8_bytes 6 w bs = utf8_bytes 5 (next_wchar 26 w) (tail_byte w # bs)"
  "utf8_bytes 5 w bs = utf8_bytes 4 (next_wchar 21 w) (tail_byte w # bs)"
  "utf8_bytes 4 w bs = utf8_bytes 3 (next_wchar 16 w) (tail_byte w # bs)"
  "utf8_bytes 3 w bs = utf8_bytes 2 (next_wchar 11 w) (tail_byte w # bs)"
  by (simp_all add: numeral_eq_Suc tail_byte_def next_wchar_def lead_mark_def)

lemma utf8_bytes_two:
  "utf8_bytes 2 w bs = ucast (signed_drop_bit 6 w OR 0xc0) # tail_byte w # bs"
proof -
  have "ucast ((signed_drop_bit 6 w OR 0xc0) AND 0xff) = (ucast (signed_drop_bit 6 w OR 0xc0) :: byte)"
    by (rule bit_word_eqI) (auto simp: low_eight bit_simps)
  then show ?thesis
    by (simp add: numeral_eq_Suc tail_byte_def lead_mark_def)
qed

lemma bit_next_wchar:
  assumes "\<not> bit w 31"
  shows "bit (next_wchar j w) n \<longleftrightarrow> n < 32 \<and> (bit w (n + 6) \<or> n = j)"
proof -
  have "26 \<le> n \<Longrightarrow> \<not> bit w (n + 6)"
    by (auto dest: bit_imp_le_length)
  with assms show ?thesis
    by (auto simp: next_wchar_def bit_or_iff bit_signed_drop_bit_iff bit_exp_iff add.commute [of 6])
qed

lemma bit_tail_byte: "bit (tail_byte w) n \<longleftrightarrow> n = 7 \<or> n < 6 \<and> bit w n"
  by (auto simp: tail_byte_def low_six bit_simps bit_octet)

lemma tail_byte_next:
  "\<not> bit w 31 \<Longrightarrow> k + 6 \<le> j \<Longrightarrow> k < 26 \<Longrightarrow> 
   tail_byte (drop_bit k (next_wchar j w)) = tail_byte (drop_bit (k + 6) w)"
  by (rule bit_word_eqI) (auto simp: bit_tail_byte bit_drop_bit_eq bit_next_wchar ac_simps)

lemma tail_byte_next_0:
  "\<not> bit w 31 \<Longrightarrow> 6 \<le> j \<Longrightarrow> tail_byte (next_wchar j w) = tail_byte (drop_bit 6 w)"
  using tail_byte_next [of w 0 j] by simp

lemma next_wchar_sign: "\<not> bit w 31 \<Longrightarrow> j < 31 \<Longrightarrow> \<not> bit (next_wchar j w) 31"
  by (auto simp: bit_next_wchar dest: bit_imp_le_length)

lemma nonneg_bit: "unat w < 2 ^ k \<Longrightarrow> k \<le> 31 \<Longrightarrow> \<not> bit (w :: wchar) 31"
  by (rule high_bits)

lemma bytes_1: "utf8_bytes (Suc 0) w [] = [ucast w]"
proof -
  have "ucast (w AND 0xff) = (ucast w :: byte)"
    by (rule bit_word_eqI) (auto simp: low_eight bit_simps)
  then show ?thesis
    by simp
qed

lemmas bytes_steps = utf8_bytes_step utf8_bytes_two tail_byte_next tail_byte_next_0 next_wchar_sign

lemma bytes_2:
  assumes "unat w < 2 ^ 11"
  shows "utf8_bytes 2 w [] = [lead_byte 6 0xc0 w, tail_byte w]"
proof -
  note high = high_bits [OF assms]
  show ?thesis
    by (simp add: bytes_steps high, rule byte_eqI, simp only: insert_iff empty_iff simp_thms)
      (elim disjE; simp add: lead_byte_def bit_simps high bit_next_wchar next_wchar_sign)
qed

lemma bytes_3:
  assumes "unat w < 2 ^ 16"
  shows "utf8_bytes 3 w [] = [lead_byte 12 0xe0 w, tail_byte (drop_bit 6 w), tail_byte w]"
proof -
  note high = high_bits [OF assms]
  show ?thesis
    by (simp add: bytes_steps high, rule byte_eqI, simp only: insert_iff empty_iff simp_thms)
      (elim disjE; simp add: lead_byte_def bit_simps high bit_next_wchar next_wchar_sign)
qed

lemma bytes_4:
  assumes "unat w < 2 ^ 21"
  shows "utf8_bytes 4 w [] = [lead_byte 18 0xf0 w, tail_byte (drop_bit 12 w), tail_byte (drop_bit 6 w), tail_byte w]"
proof -
  note high = high_bits [OF assms]
  show ?thesis
    by (simp add: bytes_steps high, rule byte_eqI, simp only: insert_iff empty_iff simp_thms)
      (elim disjE; simp add: lead_byte_def bit_simps high bit_next_wchar next_wchar_sign)
qed

lemma bytes_5:
  assumes "unat w < 2 ^ 26"
  shows "utf8_bytes 5 w [] = [lead_byte 24 0xf8 w, tail_byte (drop_bit 18 w), tail_byte (drop_bit 12 w), tail_byte (drop_bit 6 w), tail_byte w]"
proof -
  note high = high_bits [OF assms]
  show ?thesis
    by (simp add: bytes_steps high, rule byte_eqI, simp only: insert_iff empty_iff simp_thms)
      (elim disjE; simp add: lead_byte_def bit_simps high bit_next_wchar next_wchar_sign)
qed

lemma bytes_6:
  assumes "unat w < 2 ^ 31"
  shows "utf8_bytes 6 w [] = [lead_byte 30 0xfc w, tail_byte (drop_bit 24 w), tail_byte (drop_bit 18 w), tail_byte (drop_bit 12 w), tail_byte (drop_bit 6 w), tail_byte w]"
proof -
  note high = high_bits [OF assms]
  show ?thesis
    by (simp add: bytes_steps high, rule byte_eqI, simp only: insert_iff empty_iff simp_thms)
      (elim disjE; simp add: lead_byte_def bit_simps high bit_next_wchar next_wchar_sign)
qed


lemma unat_drop: "unat (drop_bit k (w :: wchar)) = unat w div 2 ^ k"
  by (simp only: unat_drop_bit_eq drop_bit_eq_div [where 'a = nat])

lemma unat_lead_byte:
  assumes "unat w < 2 ^ (k + j)" "m AND mask j = 0" "unat m + 2 ^ j \<le> 256"
  shows "unat (lead_byte k m w) = unat m + unat w div 2 ^ k"
proof -
  let ?x = "ucast (drop_bit k w) :: byte"
  have below: "unat w div 2 ^ k < 2 ^ j"
    using assms(1) by (simp add: less_mult_imp_div_less power_add mult.commute)
  also have "2 ^ j \<le> (256 :: nat)"
    using assms(3) by simp
  finally have x: "unat ?x = unat w div 2 ^ k"
    by (simp add: unsigned_ucast_eq unat_drop take_bit_nat_eq_self_iff)
  then have "?x = take_bit j ?x"
    using below
    by (intro word_unat_eq_iff [THEN iffD2]) (simp add: unsigned_take_bit_eq take_bit_nat_eq_self)
  then have "m AND ?x = (m AND mask j) AND ?x"
    by (metis and.assoc and.commute take_bit_eq_mask)
  then have "m AND ?x = 0"
    using assms(2) by simp
  then show ?thesis
    using below assms(3) by (simp add: lead_byte_def or_plus x)
qed


lemma join_bits:
  "push_bit (k + 6) (drop_bit (k + 6) w) OR push_bit k (take_bit 6 (drop_bit k w)) = push_bit k (drop_bit k (w :: wchar))"
proof (rule bit_word_eqI)
  fix n assume "n < LENGTH(32)"
  show "bit (push_bit (k + 6) (drop_bit (k + 6) w) OR push_bit k (take_bit 6 (drop_bit k w))) n
    \<longleftrightarrow> bit (push_bit k (drop_bit k w)) n"
    by (cases "k + 6 \<le> n"; cases "k \<le> n") (auto simp: bit_simps dest: bit_imp_le_length)
qed

lemmas join_wchar = join_bits [of 24] join_bits [of 18] join_bits [of 12] join_bits [of 6] join_bits [of 0]

lemma lead_bits:
  assumes "unat w < 2 ^ (k + j)" "m AND mask j = 0" "j \<le> 8"
  shows "(ucast (lead_byte k m w) :: wchar) AND mask j = drop_bit k w"
proof (rule bit_word_eqI)
  fix n assume n: "n < LENGTH(32)"
  have "bit (m AND mask j) n = False"
    using assms(2) by simp
  with assms(3) high_bits [OF assms(1), of "k + n"]
  show "bit ((ucast (lead_byte k m w) :: wchar) AND mask j) n \<longleftrightarrow> bit (drop_bit k w) n"
    using n by (cases "n < j") (auto simp: lead_byte_def bit_simps)
qed


lemma not_overlong: "2 ^ (k + i) \<le> u \<Longrightarrow> 1 \<le> u div 2 ^ (k + 6) \<or> 2 ^ i \<le> u div 2 ^ k mod (64 :: nat)"
proof -
  assume u: "2 ^ (k + i) \<le> u"
  have "2 ^ i \<le> u div 2 ^ k"
    using u by (simp add: less_eq_div_iff_mult_less_eq power_add mult.commute)
  moreover have "u div 2 ^ (k + 6) = u div 2 ^ k div 64"
    by (simp add: div_mult2_eq power_add)
  ultimately show ?thesis
    by (cases "u div 2 ^ k < 64") auto
qed

lemmas decode_simps = WcharFromUtf8_def Let_def word_less_nat_alt word_le_nat_alt unat_tail_byte unat_drop
  or.assoc [symmetric]

lemma decode_1:
  assumes "unat w < 2 ^ 7"
  shows "WcharFromUtf8 (utf8_bytes (Suc 0) w [] @ rest) x = (1, w)"
proof -
  have "unat (ucast w :: byte) = unat w"
    using assms by (simp add: unsigned_ucast_eq take_bit_nat_eq_self)
  moreover have "ucast (ucast w :: byte) = w"
    by (rule bit_word_eqI) (use high_bits [OF assms] in \<open>auto simp: bit_simps not_le [symmetric]\<close>)
  ultimately show ?thesis
    using assms by (subst bytes_1) (simp add: decode_simps)
qed

lemma decode_2:
  assumes "unat w < 2 ^ 11" "2 ^ 7 \<le> unat w" "rest = [] \<or> \<not> is_tail (hd rest)"
  shows "WcharFromUtf8 (utf8_bytes 2 w [] @ rest) x = (INVALID_INPUT, x)"
proof -
  have "unat (lead_byte 6 0xc0 w) = 192 + unat w div 2 ^ 6"
    using unat_lead_byte [of w 6 5 "0xc0"] assms by (simp add: mask_eq_exp_minus_1)
  moreover have "unat w div 2 ^ 6 < 2 ^ 5"
    using assms by simp
  ultimately show ?thesis
    using assms by (cases rest) (auto simp: bytes_2 decode_simps)
qed

lemma decode_3:
  assumes "unat w < 2 ^ 16" "2 ^ 11 \<le> unat w"
  shows "WcharFromUtf8 (utf8_bytes 3 w [] @ rest) x = (3, w)"
proof -
  have lead: "unat (lead_byte 12 0xe0 w) = 224 + unat w div 2 ^ 12"
    using unat_lead_byte [of w 12 4 "0xe0"] assms by (simp add: mask_eq_exp_minus_1)
  moreover have "(ucast (lead_byte 12 0xe0 w) :: wchar) AND 0xf = drop_bit 12 w"
    using lead_bits [of w 12 4 "0xe0"] assms by (simp add: mask_eq_exp_minus_1)
  moreover have "unat w div 2 ^ 12 < 2 ^ 4"
    "1 \<le> unat w div 2 ^ 12 \<or> 2 ^ 5 \<le> unat w div 2 ^ 6 mod 64"
    using assms not_overlong [of 6 5] by simp_all
  ultimately show ?thesis
    using assms join_wchar [of w] by (simp add: bytes_3 decode_simps)
qed

lemma decode_4:
  assumes "unat w < 2 ^ 21" "2 ^ 16 \<le> unat w"
  shows "WcharFromUtf8 (utf8_bytes 4 w [] @ rest) x = (4, w)"
proof -
  have lead: "unat (lead_byte 18 0xf0 w) = 240 + unat w div 2 ^ 18"
    using unat_lead_byte [of w 18 3 "0xf0"] assms by (simp add: mask_eq_exp_minus_1)
  moreover have "(ucast (lead_byte 18 0xf0 w) :: wchar) AND 7 = drop_bit 18 w"
    using lead_bits [of w 18 3 "0xf0"] assms by (simp add: mask_eq_exp_minus_1)
  moreover have "unat w div 2 ^ 18 < 2 ^ 3"
    "1 \<le> unat w div 2 ^ 18 \<or> 2 ^ 4 \<le> unat w div 2 ^ 12 mod 64"
    using assms not_overlong [of 12 4] by simp_all
  ultimately show ?thesis
    using assms join_wchar [of w] by (simp add: bytes_4 decode_simps)
qed

lemma decode_6:
  assumes "unat w < 2 ^ 31" "2 ^ 26 \<le> unat w"
  shows "WcharFromUtf8 (utf8_bytes 6 w [] @ rest) x = (6, w)"
proof -
  have lead: "unat (lead_byte 30 0xfc w) = 252 + unat w div 2 ^ 30"
    using unat_lead_byte [of w 30 1 "0xfc"] assms by (simp add: mask_eq_exp_minus_1)
  moreover have "(ucast (lead_byte 30 0xfc w) :: wchar) AND 1 = drop_bit 30 w"
    using lead_bits [of w 30 1 "0xfc"] assms by (simp add: mask_eq_exp_minus_1)
  moreover have "unat w div 2 ^ 30 < 2 ^ 1"
    "1 \<le> unat w div 2 ^ 30 \<or> 2 ^ 2 \<le> unat w div 2 ^ 24 mod 64"
    using assms not_overlong [of 24 2] by simp_all
  ultimately show ?thesis
    using assms join_wchar [of w] by (simp add: bytes_6 decode_simps)
qed




lemma is_tail_iff: "is_tail b \<longleftrightarrow> bit b 7 \<and> \<not> bit b 6"
proof -
  have "is_tail b \<longleftrightarrow> take_bit 6 (unat (b XOR 0x80)) = unat (b XOR 0x80)"
    by (simp add: is_tail_def word_less_nat_alt take_bit_nat_eq_self_iff)
  also have "\<dots> \<longleftrightarrow> take_bit 6 (b XOR 0x80) = b XOR 0x80"
    by (simp only: unsigned_take_bit_eq [symmetric] word_unat_eq_iff)
  also have "\<dots> \<longleftrightarrow> \<not> bit (b XOR 0x80) 6 \<and> \<not> bit (b XOR 0x80) 7"
  proof
    assume "take_bit 6 (b XOR 0x80) = b XOR 0x80"
    then have "bit (b XOR 0x80) n = bit (take_bit 6 (b XOR 0x80)) n" for n
      by simp
    from this [of 6] this [of 7] show "\<not> bit (b XOR 0x80) 6 \<and> \<not> bit (b XOR 0x80) 7"
      by (simp add: bit_take_bit_iff)
  next
    assume "\<not> bit (b XOR 0x80) 6 \<and> \<not> bit (b XOR 0x80) 7"
    then show "take_bit 6 (b XOR 0x80) = b XOR 0x80"
      by (intro byte_eqI, simp only: insert_iff empty_iff simp_thms) (elim disjE; simp add: bit_take_bit_iff bit_xor_iff bit_octet)
  qed
  also have "\<dots> \<longleftrightarrow> bit b 7 \<and> \<not> bit b 6"
    by (auto simp: bit_simps)
  finally show ?thesis .
qed


text \<open>What the code writes for a character, and the characters it would take two bytes, or five, for.\<close>

definition utf8 :: "wchar \<Rightarrow> byte list" where
  "utf8 w = snd (WcharToUtf8 w 6)"

definition two_byte :: "wchar \<Rightarrow> bool" where
  "two_byte w \<longleftrightarrow> 0x80 \<le> sint w \<and> sint w < 0x800"

definition utf8_ok :: "wchar \<Rightarrow> bool" where
  "utf8_ok w \<longleftrightarrow> 0 < sint w \<and> \<not> (0x200000 \<le> sint w \<and> sint w < 0x4000000)"

lemma unat_sint: "0 \<le> sint w \<Longrightarrow> unat w = nat (sint w)"
  for w :: wchar
proof -
  assume "0 \<le> sint w"
  then have "uint w = sint w"
    using sint_lt [of w] by (simp add: uint_sint take_bit_int_eq_self)
  then show ?thesis
    by (simp flip: nat_uint_eq)
qed

lemma WcharToUtf8_cases:
  assumes "utf8_ok w"
  obtains
    (one) "unat w < 2 ^ 7" "WcharToUtf8 w 6 = (1, utf8_bytes (Suc 0) w [])"
  | (two) "unat w < 2 ^ 11" "2 ^ 7 \<le> unat w" "WcharToUtf8 w 6 = (2, utf8_bytes 2 w [])"
  | (three) "unat w < 2 ^ 16" "2 ^ 11 \<le> unat w" "WcharToUtf8 w 6 = (3, utf8_bytes 3 w [])"
  | (four) "unat w < 2 ^ 21" "2 ^ 16 \<le> unat w" "WcharToUtf8 w 6 = (4, utf8_bytes 4 w [])"
  | (six) "unat w < 2 ^ 31" "2 ^ 26 \<le> unat w" "WcharToUtf8 w 6 = (6, utf8_bytes 6 w [])"
proof -
  have pos: "0 \<le> sint w" "sint w < 2 ^ 31" and no_five: "sint w < 0x200000 \<or> 0x4000000 \<le> sint w"
    using assms sint_lt [of w] by (auto simp: utf8_ok_def)
  note unat = unat_sint [OF pos(1)]
  consider "sint w < 0x80" | "0x80 \<le> sint w" "sint w < 0x800" | "0x800 \<le> sint w" "sint w < 0x10000"
    | "0x10000 \<le> sint w" "sint w < 0x200000" | "0x4000000 \<le> sint w"
    using no_five by linarith
  then show thesis
  proof cases
    case 1
    then show thesis using one unat by (simp add: WcharToUtf8_def utf8_count_def nat_less_iff pos)
  next
    case 2
    then show thesis using two unat by (simp add: WcharToUtf8_def utf8_count_def nat_less_iff le_nat_iff pos)
  next
    case 3
    then show thesis using three unat by (simp add: WcharToUtf8_def utf8_count_def nat_less_iff le_nat_iff pos)
  next
    case 4
    then show thesis using four unat by (simp add: WcharToUtf8_def utf8_count_def nat_less_iff le_nat_iff pos)
  next
    case 5
    then show thesis using six unat pos by (simp add: WcharToUtf8_def utf8_count_def nat_less_iff le_nat_iff)
  qed
qed

lemma unat_nonzero: "utf8_ok w \<Longrightarrow> unat w \<noteq> 0"
  by (simp add: utf8_ok_def unat_sint)

lemma tail_byte_nonzero [simp]: "0 \<noteq> tail_byte w" "tail_byte w \<noteq> 0"
  using bit_tail_byte [of w 7] by auto

lemma no_lead:
  "bit m 6 \<Longrightarrow> \<not> is_tail (lead_byte k m w)" "bit m 6 \<Longrightarrow> 0 \<noteq> lead_byte k m w"
  by (auto simp: is_tail_iff lead_byte_def bit_or_iff dest: arg_cong [where f = "\<lambda>b. bit b 6"])

text \<open>Every byte but the first is a tail byte, the first is none, and none is NUL.\<close>

lemma utf8_shape:
  assumes "utf8_ok w"
  shows "utf8 w \<noteq> [] \<and> \<not> is_tail (hd (utf8 w)) \<and> 0 \<notin> set (utf8 w) \<and> 0 < fst (WcharToUtf8 w 6)"
  using assms
proof (cases rule: WcharToUtf8_cases)
  case one
  then have "ucast w \<noteq> (0 :: byte)" "\<not> is_tail (ucast w)"
    using unat_nonzero [OF assms] high_bits [of w 7 7]
    by (auto simp: word_unat_eq_iff unsigned_ucast_eq take_bit_nat_eq_self is_tail_iff bit_simps)
  then show ?thesis
    using one by (simp add: utf8_def bytes_1 del: utf8_bytes.simps)
qed (simp_all add: utf8_def bytes_2 bytes_3 bytes_4 bytes_6 no_lead)

lemma two_byte_unat: "utf8_ok w \<Longrightarrow> two_byte w \<longleftrightarrow> 2 ^ 7 \<le> unat w \<and> unat w < 2 ^ 11"
  by (auto simp: utf8_ok_def two_byte_def unat_sint nat_less_iff le_nat_iff)

lemma utf8_decodes:
  assumes "utf8_ok w" "\<not> two_byte w"
  shows "WcharFromUtf8 (utf8 w @ rest) x = (int (length (utf8 w)), w)"
  using assms(1)
proof (cases rule: WcharToUtf8_cases)
  case one
  then show ?thesis using decode_1 [of w rest x] by (simp add: utf8_def)
next
  case two
  then show ?thesis using assms two_byte_unat [of w] by simp
next
  case three
  then show ?thesis using decode_3 [of w rest x] by (simp add: utf8_def bytes_3)
next
  case four
  then show ?thesis using decode_4 [of w rest x] by (simp add: utf8_def bytes_4)
next
  case six
  then show ?thesis using decode_6 [of w rest x] by (simp add: utf8_def bytes_6)
qed

lemma utf8_refused:
  assumes "utf8_ok w" "two_byte w" "rest = [] \<or> \<not> is_tail (hd rest)"
  shows "WcharFromUtf8 (utf8 w @ rest) x = (INVALID_INPUT, x)"
  using assms(1)
proof (cases rule: WcharToUtf8_cases)
  case two
  then show ?thesis using decode_2 [of w rest x] assms(3) by (simp add: utf8_def)
qed (use two_byte_unat assms in simp_all)

section \<open>Whole strings\<close>

lemma to_utf8_loop_all:
  "\<forall>w \<in> set ws. utf8_ok w \<Longrightarrow>
     to_utf8_loop ws s = s @ map char_of_byte (concat (map utf8 ws))"
proof (induction ws arbitrary: s)
  case (Cons w ws)
  then have "w \<noteq> 0" "0 < fst (WcharToUtf8 w 6)"
    using utf8_shape [of w] by (auto simp: utf8_ok_def)
  with Cons show ?case
    by (simp add: Let_def utf8_def)
qed simp

lemma nul_free_utf8:
  "\<forall>w \<in> set ws. utf8_ok w \<Longrightarrow> 0 \<notin> set (concat (map utf8 ws))"
  using utf8_shape by auto

lemma next_is_head:
  assumes "\<forall>w \<in> set ws. utf8_ok w"
  shows "concat (map utf8 ws) = [] \<or> \<not> is_tail (hd (concat (map utf8 ws)))"
  using assms utf8_shape by (cases ws) auto

lemma from_utf8_loop_all:
  assumes "\<forall>w \<in> set ws. utf8_ok w"
  shows "from_utf8_loop (concat (map utf8 ws)) x acc =
    (if \<exists>w \<in> set ws. two_byte w then (INVALID_INPUT, acc @ takeWhile (\<lambda>w. \<not> two_byte w) ws)
     else (NONE_INPUT, acc @ ws))"
  using assms
proof (induction ws arbitrary: x acc)
  case Nil
  show ?case
    by (simp add: from_utf8_loop.simps [of "[]"] WcharFromUtf8_def)
next
  case (Cons w ws)
  show ?case
  proof (cases "two_byte w")
    case True
    then have "WcharFromUtf8 (utf8 w @ concat (map utf8 ws)) x = (INVALID_INPUT, x)"
      using Cons.prems next_is_head [of ws] by (intro utf8_refused) auto
    then show ?thesis
      using True by (simp add: from_utf8_loop.simps [of "utf8 w @ _"])
  next
    case False
    then have "WcharFromUtf8 (utf8 w @ concat (map utf8 ws)) x = (int (length (utf8 w)), w)"
      using Cons.prems by (intro utf8_decodes) auto
    moreover have "0 < length (utf8 w)"
      using Cons.prems utf8_shape [of w] by simp
    ultimately show ?thesis
      using False Cons by (auto simp: from_utf8_loop.simps [of "utf8 w @ _"])
  qed
qed

section \<open>Properties\<close>

text \<open>C40: text that \<open>Utf8\<close> wrote comes back from \<open>Unicode::FromUtf8\<close> unchanged, for every character of
  one, three, four or six bytes; but one character of two bytes, from U+0080 to U+07FF, and the
  whole text is lost, because the decoder takes the lead bytes from 0xC0 to 0xDF for those of three
  bytes and clears its string.\<close>

theorem utf8_roundtrip:
  assumes "\<forall>w \<in> set ws. 0 < sint w \<and> \<not> (0x200000 \<le> sint w \<and> sint w < 0x4000000)"
  shows "Unicode_FromUtf8 [] (Utf8_FromUnicode ws) =
    (if \<exists>w \<in> set ws. 0x80 \<le> sint w \<and> sint w < 0x800 then [] else ws)"
proof -
  have ok: "\<forall>w \<in> set ws. utf8_ok w"
    using assms by (simp add: utf8_ok_def)
  have "Utf8_FromUnicode ws = map char_of_byte (concat (map utf8 ws))"
    using ok by (simp add: Utf8_FromUnicode_def to_utf8_loop_all)
  moreover have "CHR 0x00 \<notin> set (map char_of_byte (concat (map utf8 ws)))"
    using nul_free_utf8 [OF ok] by (auto dest: arg_cong [where f = byte_of] simp flip: char_of_byte_0)
  moreover have "map byte_of (map char_of_byte (concat (map utf8 ws))) = concat (map utf8 ws)"
    by (simp add: map_idI)
  ultimately show ?thesis
    using from_utf8_loop_all [OF ok, of 0 "[]"]
    by (auto simp: Unicode_FromUtf8_def Let_def two_byte_def split: if_splits)
qed

lemma utf8_roundtrip_witness:
  "Unicode_FromUtf8 [] (Utf8_FromUnicode [0x41, 0x20AC, 0x1F600]) = [0x41, 0x20AC, 0x1F600]
   \<and> Unicode_FromUtf8 [] (Utf8_FromUnicode [0x41, 0xE9]) = []"
  using utf8_roundtrip [of "[0x41, 0x20AC, 0x1F600]"] utf8_roundtrip [of "[0x41, 0xE9]"] by simp

text \<open>\<open>Utf8::FromAnsi\<close> does what its name says only outside UTF-8 locales, and then leaves the locale
  of the process changed: the destructor of \<open>Locale\<close> restores nothing.\<close>

theorem from_ansi_leaves_locale:
  "snd (Utf8_FromAnsi known mbs ansi (Some locale) cur) =
     (if String_Exist (c_str locale) ''utf8'' True \<or> String_Exist (c_str locale) ''utf-8'' True then cur
      else if known locale then locale else cur)"
  by (simp add: Utf8_FromAnsi_def Unicode_From_def Unicode_FromAnsi_def Let_def Locale_ctor_def Locale_dtor_def
      setlocale_def String_of_cstr_def)

end
