(* ===== verification/Http_Parser.thy ===== *)
theory Http_Parser
  imports Prelude
begin

text \<open>
  \<open>server/http_parser.cpp\<close>: the parser of HTTP messages the server feeds with what it reads from a
  socket, with this program's states for the fields and values of a query string, built strict and with
  its assertions.  One definition per state of the switch, or per group of states that share a branch; a
  \<open>goto reexecute\<close> is a call of the definition of the state it goes to.
\<close>

section \<open>Types and tables\<close>

datatype (plugins only: code size) pstate =
    s_dead | s_start_req_or_res | s_res_or_resp_H | s_start_res | s_res_H | s_res_HT | s_res_HTT | s_res_HTTP
  | s_res_first_http_major | s_res_http_major | s_res_first_http_minor | s_res_http_minor
  | s_res_first_status_code | s_res_status_code | s_res_status_start | s_res_status | s_res_line_almost_done
  | s_start_req | s_req_method | s_req_spaces_before_url | s_req_schema | s_req_schema_slash
  | s_req_schema_slash_slash | s_req_server_start | s_req_server | s_req_server_with_at | s_req_path
  | s_req_query_string_start | s_req_query_string | s_req_query_value_start | s_req_query_value
  | s_req_fragment_start | s_req_fragment | s_req_http_start | s_req_http_H | s_req_http_HT | s_req_http_HTT
  | s_req_http_HTTP | s_req_first_http_major | s_req_http_major | s_req_first_http_minor | s_req_http_minor
  | s_req_line_almost_done | s_header_field_start | s_header_field | s_header_value_discard_ws
  | s_header_value_discard_ws_almost_done | s_header_value_discard_lws | s_header_value_start | s_header_value
  | s_header_value_lws | s_header_almost_done | s_chunk_size_start | s_chunk_size | s_chunk_parameters
  | s_chunk_size_almost_done | s_headers_almost_done | s_headers_done | s_chunk_data | s_chunk_data_almost_done
  | s_chunk_data_done | s_body_identity | s_body_identity_eof | s_message_done

datatype (plugins only: code size) header_state =
    h_general | h_C | h_CO | h_CON | h_matching_connection | h_matching_proxy_connection
  | h_matching_content_length | h_matching_transfer_encoding | h_matching_upgrade | h_connection
  | h_content_length | h_transfer_encoding | h_upgrade | h_matching_transfer_encoding_chunked
  | h_matching_connection_token_start | h_matching_connection_keep_alive | h_matching_connection_close
  | h_matching_connection_upgrade | h_matching_connection_token | h_transfer_encoding_chunked
  | h_connection_keep_alive | h_connection_close | h_connection_upgrade

datatype parser_type = HTTP_REQUEST | HTTP_RESPONSE | HTTP_BOTH

datatype parser_flag = F_CHUNKED | F_CONNECTION_KEEP_ALIVE | F_CONNECTION_CLOSE | F_CONNECTION_UPGRADE
  | F_TRAILING | F_UPGRADE | F_SKIPBODY | F_CONTENTLENGTH

datatype (plugins only: code size) http_method = HTTP_DELETE | HTTP_GET | HTTP_HEAD | HTTP_POST | HTTP_PUT | HTTP_CONNECT | HTTP_OPTIONS
  | HTTP_TRACE | HTTP_COPY | HTTP_LOCK | HTTP_MKCOL | HTTP_MOVE | HTTP_PROPFIND | HTTP_PROPPATCH | HTTP_SEARCH
  | HTTP_UNLOCK | HTTP_BIND | HTTP_REBIND | HTTP_UNBIND | HTTP_ACL | HTTP_REPORT | HTTP_MKACTIVITY
  | HTTP_CHECKOUT | HTTP_MERGE | HTTP_MSEARCH | HTTP_NOTIFY | HTTP_SUBSCRIBE | HTTP_UNSUBSCRIBE | HTTP_PATCH
  | HTTP_PURGE | HTTP_MKCALENDAR | HTTP_LINK | HTTP_UNLINK

text \<open>The methods in the order of their numbers, with the strings the parser matches.\<close>

definition HTTP_METHOD_MAP :: "(http_method \<times> string) list" where
  "HTTP_METHOD_MAP =
     [(HTTP_DELETE, ''DELETE''), (HTTP_GET, ''GET''), (HTTP_HEAD, ''HEAD''), (HTTP_POST, ''POST''),
      (HTTP_PUT, ''PUT''), (HTTP_CONNECT, ''CONNECT''), (HTTP_OPTIONS, ''OPTIONS''), (HTTP_TRACE, ''TRACE''),
      (HTTP_COPY, ''COPY''), (HTTP_LOCK, ''LOCK''), (HTTP_MKCOL, ''MKCOL''), (HTTP_MOVE, ''MOVE''),
      (HTTP_PROPFIND, ''PROPFIND''), (HTTP_PROPPATCH, ''PROPPATCH''), (HTTP_SEARCH, ''SEARCH''),
      (HTTP_UNLOCK, ''UNLOCK''), (HTTP_BIND, ''BIND''), (HTTP_REBIND, ''REBIND''), (HTTP_UNBIND, ''UNBIND''),
      (HTTP_ACL, ''ACL''), (HTTP_REPORT, ''REPORT''), (HTTP_MKACTIVITY, ''MKACTIVITY''),
      (HTTP_CHECKOUT, ''CHECKOUT''), (HTTP_MERGE, ''MERGE''), (HTTP_MSEARCH, ''M-SEARCH''),
      (HTTP_NOTIFY, ''NOTIFY''), (HTTP_SUBSCRIBE, ''SUBSCRIBE''), (HTTP_UNSUBSCRIBE, ''UNSUBSCRIBE''),
      (HTTP_PATCH, ''PATCH''), (HTTP_PURGE, ''PURGE''), (HTTP_MKCALENDAR, ''MKCALENDAR''), (HTTP_LINK, ''LINK''),
      (HTTP_UNLINK, ''UNLINK'')]"

definition http_method_str :: "http_method \<Rightarrow> string" where
  "http_method_str m = (case map_of HTTP_METHOD_MAP m of Some s \<Rightarrow> s | None \<Rightarrow> [])"

definition method_number :: "http_method \<Rightarrow> nat" where
  "method_number m = length (takeWhile (\<lambda>e. fst e \<noteq> m) HTTP_METHOD_MAP)"

text \<open>The callbacks: those with data and those without.\<close>

datatype data_cb = on_header_field | on_header_value | on_url | on_body | on_status | on_query_field
  | on_query_value | on_fragment

datatype notify_cb = on_message_begin | on_headers_complete | on_message_complete | on_chunk_header
  | on_chunk_complete

datatype (plugins only: code size) http_errno = HPE_OK | HPE_CB_data data_cb | HPE_CB_notify notify_cb | HPE_INVALID_EOF_STATE
  | HPE_HEADER_OVERFLOW | HPE_CLOSED_CONNECTION | HPE_INVALID_VERSION | HPE_INVALID_STATUS | HPE_INVALID_METHOD
  | HPE_INVALID_URL | HPE_LF_EXPECTED | HPE_INVALID_HEADER_TOKEN | HPE_INVALID_CONTENT_LENGTH
  | HPE_UNEXPECTED_CONTENT_LENGTH | HPE_INVALID_CHUNK_SIZE | HPE_INVALID_CONSTANT | HPE_STRICT | HPE_PAUSED | HPE_UNKNOWN

text \<open>
  The flags are the set bits of \<open>flags\<close>.  \<open>index\<close> and the numbers of the version and the status stay far
  below the width of their bit fields.
\<close>

record http_parser =
  pr_type :: parser_type
  pr_flags :: "parser_flag set"
  pr_state :: pstate
  pr_header_state :: header_state
  pr_index :: nat
  pr_lenient :: bool
  pr_nread :: "32 word"
  pr_content_length :: "64 word"
  pr_http_major :: nat
  pr_http_minor :: nat
  pr_status_code :: nat
  pr_method :: http_method
  pr_errno :: http_errno
  pr_upgrade :: bool

text \<open>
  A call of \<open>http_parser_execute\<close>: the parser, the application behind the callbacks, the position and
  the marks.  The local \<open>p_state\<close> is the parser's state: it is stored before every callback and on every
  way out, and no callback of the program writes it.
\<close>

record 'a exec = http_parser +
  ex_app :: 'a
  ex_p :: nat
  ex_mark :: "data_cb \<Rightarrow> nat option"

text \<open>
  What registering callbacks fixes: each may be missing, and returns a number.  A callback may read the
  parser; none of the program's writes it.
\<close>

record 'a http_parser_settings =
  st_data :: "data_cb \<Rightarrow> (http_parser \<Rightarrow> string \<Rightarrow> 'a \<Rightarrow> int \<times> 'a) option"
  st_notify :: "notify_cb \<Rightarrow> (http_parser \<Rightarrow> 'a \<Rightarrow> int \<times> 'a) option"

text \<open>How a byte ends: with the loop going on, with a return, with \<open>goto error\<close>, or with a failed assertion.\<close>

datatype 'a flow = Next "'a exec" | Return nat "'a exec" | Error "'a exec" | Abort

section \<open>Characters\<close>

abbreviation NUL :: char where "NUL \<equiv> CHR 0x00"
abbreviation CR :: char where "CR \<equiv> CHR 0x0D"
abbreviation LF :: char where "LF \<equiv> CHR 0x0A"
abbreviation TAB :: char where "TAB \<equiv> CHR 0x09"

abbreviation ch_num :: "char \<Rightarrow> nat" where "ch_num c \<equiv> of_char c"

definition LOWER :: "char \<Rightarrow> char" where
  "LOWER c = char_of_byte (byte_of c OR 0x20)"

definition IS_ALPHA :: "char \<Rightarrow> bool" where
  "IS_ALPHA c \<longleftrightarrow> CHR ''a'' \<le> LOWER c \<and> LOWER c \<le> CHR ''z''"

definition IS_NUM :: "char \<Rightarrow> bool" where
  "IS_NUM c \<longleftrightarrow> CHR ''0'' \<le> c \<and> c \<le> CHR ''9''"

definition IS_ALPHANUM :: "char \<Rightarrow> bool" where
  "IS_ALPHANUM c \<longleftrightarrow> IS_ALPHA c \<or> IS_NUM c"

definition IS_HEX :: "char \<Rightarrow> bool" where
  "IS_HEX c \<longleftrightarrow> IS_NUM c \<or> (CHR ''a'' \<le> LOWER c \<and> LOWER c \<le> CHR ''f'')"

definition IS_MARK :: "char \<Rightarrow> bool" where
  "IS_MARK c \<longleftrightarrow> c \<in> set ''-_.!~*()'' \<or> c = CHR 0x27"

definition IS_USERINFO_CHAR :: "char \<Rightarrow> bool" where
  "IS_USERINFO_CHAR c \<longleftrightarrow> IS_ALPHANUM c \<or> IS_MARK c \<or> c \<in> set ''%;:&=+$,''"

definition IS_DELIMITER :: "char \<Rightarrow> bool" where
  "IS_DELIMITER c \<longleftrightarrow> c = CHR ''&'' \<or> c = CHR ''#''"

definition IS_HOST_CHAR :: "char \<Rightarrow> bool" where
  "IS_HOST_CHAR c \<longleftrightarrow> IS_ALPHANUM c \<or> c = CHR ''.'' \<or> c = CHR ''-''"

definition IS_HEADER_CHAR :: "char \<Rightarrow> bool" where
  "IS_HEADER_CHAR c \<longleftrightarrow> c = CR \<or> c = LF \<or> c = TAB \<or> (31 < ch_num c \<and> ch_num c \<noteq> 127)"

definition tokens :: "char list" where
  "tokens = replicate 32 NUL @
     [NUL] @ ''!'' @ [NUL] @ ''#$%&'' @ [CHR 0x27] @ [NUL, NUL] @ ''*+'' @ [NUL] @ ''-.'' @ [NUL] @
     ''0123456789'' @ replicate 7 NUL @ ''abcdefghijklmnopqrstuvwxyz'' @ replicate 3 NUL @ ''^_`'' @
     ''abcdefghijklmnopqrstuvwxyz'' @ [NUL] @ ''|'' @ [NUL] @ ''~'' @ [NUL] @ replicate 128 NUL"

definition TOKEN :: "char \<Rightarrow> char" where
  "TOKEN c = tokens ! ch_num c"

definition unhex :: "char \<Rightarrow> int" where
  "unhex c =
     (replicate 48 (-1) @ [0..9] @ replicate 7 (-1) @ [10..15] @ replicate 26 (-1) @ [10..15] @
      replicate 25 (-1) @ replicate 128 0) ! ch_num c"

definition normal_url_char :: "nat list" where
  "normal_url_char = [0, 0, 0, 0, 246, 255, 255, 127, 255, 255, 255, 255, 255, 255, 255, 127] @ replicate 16 0"

definition IS_URL_CHAR :: "char \<Rightarrow> bool" where
  "IS_URL_CHAR c \<longleftrightarrow> bit (normal_url_char ! (ch_num c div 8)) (ch_num c mod 8)"

section \<open>The characters of a URL\<close>

definition url_dead :: "char \<Rightarrow> bool" where
  "url_dead ch \<longleftrightarrow> ch = CHR '' '' \<or> ch = CR \<or> ch = LF \<or> ch = TAB \<or> ch = CHR 0x0C"

definition url_server :: "char \<Rightarrow> pstate" where
  "url_server ch =
     (if ch = CHR ''/'' then s_req_path
      else if ch = CHR ''?'' then s_req_query_string_start
      else if ch = CHR ''@'' then s_req_server_with_at
      else if IS_USERINFO_CHAR ch \<or> ch = CHR ''['' \<or> ch = CHR '']'' then s_req_server
      else s_dead)"

definition url_query :: "char \<Rightarrow> pstate" where
  "url_query ch =
     (if IS_URL_CHAR ch \<or> ch = CHR ''?'' then s_req_query_string
      else if ch = CHR ''#'' then s_req_fragment_start
      else s_dead)"

definition url_value :: "char \<Rightarrow> pstate" where
  "url_value ch =
     (if IS_URL_CHAR ch \<and> \<not> IS_DELIMITER ch then s_req_query_value
      else if ch = CHR ''&'' then s_req_query_string
      else if ch = CHR ''#'' then s_req_fragment_start
      else s_dead)"

definition parse_url_char :: "pstate \<Rightarrow> char \<Rightarrow> pstate" where
  "parse_url_char s ch =
     (if url_dead ch then s_dead
      else case s of
        s_req_spaces_before_url \<Rightarrow>
          (if ch = CHR ''/'' \<or> ch = CHR ''*'' then s_req_path else if IS_ALPHA ch then s_req_schema else s_dead)
      | s_req_schema \<Rightarrow>
          (if IS_ALPHA ch then s_req_schema else if ch = CHR '':'' then s_req_schema_slash else s_dead)
      | s_req_schema_slash \<Rightarrow> (if ch = CHR ''/'' then s_req_schema_slash_slash else s_dead)
      | s_req_schema_slash_slash \<Rightarrow> (if ch = CHR ''/'' then s_req_server_start else s_dead)
      | s_req_server_with_at \<Rightarrow> (if ch = CHR ''@'' then s_dead else url_server ch)
      | s_req_server_start \<Rightarrow> url_server ch
      | s_req_server \<Rightarrow> url_server ch
      | s_req_path \<Rightarrow>
          (if IS_URL_CHAR ch then s_req_path
           else if ch = CHR ''?'' then s_req_query_string_start
           else if ch = CHR ''#'' then s_req_fragment_start
           else s_dead)
      | s_req_query_string_start \<Rightarrow> url_query ch
      | s_req_query_string \<Rightarrow> url_query ch
      | s_req_query_value_start \<Rightarrow> url_value ch
      | s_req_query_value \<Rightarrow> url_value ch
      | s_req_fragment_start \<Rightarrow>
          (if IS_URL_CHAR ch \<or> ch = CHR ''?'' then s_req_fragment
           else if ch = CHR ''#'' then s_req_fragment_start else s_dead)
      | s_req_fragment \<Rightarrow>
          (if IS_URL_CHAR ch \<or> ch = CHR ''?'' \<or> ch = CHR ''#'' then s_req_fragment else s_dead)
      | _ \<Rightarrow> s_dead)"

end
