(* ===== verification/Http_Execute.thy ===== *)
theory Http_Execute
  imports Http_Parser
begin

text \<open>
  \<open>http_parser_execute\<close> of \<open>server/http_parser.cpp\<close>: the macros, the branches of its switch, the loop over
  the bytes and the callbacks after it.
\<close>

section \<open>The macros\<close>

definition HTTP_MAX_HEADER_SIZE :: nat where "HTTP_MAX_HEADER_SIZE = 80 * 1024"

definition the_parser :: "'a exec \<Rightarrow> http_parser" where
  "the_parser c = http_parser.truncate c"

definition SET_ERRNO :: "http_errno \<Rightarrow> 'a exec \<Rightarrow> 'a exec" where
  "SET_ERRNO e c = c\<lparr>pr_errno := e\<rparr>"

text \<open>\<open>SET_ERRNO\<close> and \<open>goto error\<close>.\<close>

definition fail :: "http_errno \<Rightarrow> 'a exec \<Rightarrow> 'a flow" where
  "fail e c = Error (SET_ERRNO e c)"

definition goto :: "pstate \<Rightarrow> 'a exec \<Rightarrow> 'a exec" where
  "goto s c = c\<lparr>pr_state := s\<rparr>"

definition MARK :: "data_cb \<Rightarrow> 'a exec \<Rightarrow> 'a exec" where
  "MARK cb c = (if ex_mark c cb = None then c\<lparr>ex_mark := (ex_mark c)(cb := Some (ex_p c))\<rparr> else c)"

definition COUNT_HEADER_SIZE :: "nat \<Rightarrow> 'a exec \<Rightarrow> ('a exec \<Rightarrow> 'a flow) \<Rightarrow> 'a flow" where
  "COUNT_HEADER_SIZE v c k =
     (let c' = c\<lparr>pr_nread := pr_nread c + of_nat v\<rparr>
      in if of_nat HTTP_MAX_HEADER_SIZE < pr_nread c' then fail HPE_HEADER_OVERFLOW c' else k c')"

definition STRICT_CHECK :: "bool \<Rightarrow> 'a exec \<Rightarrow> ('a exec \<Rightarrow> 'a flow) \<Rightarrow> 'a flow" where
  "STRICT_CHECK b c k = (if b then fail HPE_STRICT c else k c)"

text \<open>\<open>CALLBACK_NOTIFY_\<close> returns \<open>er\<close> when the callback fails.\<close>

definition CALLBACK_NOTIFY_er ::
    "'a http_parser_settings \<Rightarrow> notify_cb \<Rightarrow> nat \<Rightarrow> 'a exec \<Rightarrow> ('a exec \<Rightarrow> 'a flow) \<Rightarrow> 'a flow" where
  "CALLBACK_NOTIFY_er S cb er c k =
     (if pr_errno c \<noteq> HPE_OK then Abort
      else case st_notify S cb of
             None \<Rightarrow> k c
           | Some f \<Rightarrow>
               let (ret, app) = f (the_parser c) (ex_app c); c' = c\<lparr>ex_app := app\<rparr>
               in if ret \<noteq> 0 then Return er (SET_ERRNO (HPE_CB_notify cb) c') else k c')"

definition CALLBACK_NOTIFY ::
    "'a http_parser_settings \<Rightarrow> notify_cb \<Rightarrow> 'a exec \<Rightarrow> ('a exec \<Rightarrow> 'a flow) \<Rightarrow> 'a flow" where
  "CALLBACK_NOTIFY S cb c k = CALLBACK_NOTIFY_er S cb (ex_p c + 1) c k"

definition CALLBACK_NOTIFY_NOADVANCE ::
    "'a http_parser_settings \<Rightarrow> notify_cb \<Rightarrow> 'a exec \<Rightarrow> ('a exec \<Rightarrow> 'a flow) \<Rightarrow> 'a flow" where
  "CALLBACK_NOTIFY_NOADVANCE S cb c k = CALLBACK_NOTIFY_er S cb (ex_p c) c k"

text \<open>\<open>CALLBACK_DATA_\<close> with the bytes from the mark up to \<open>stop\<close>.\<close>

definition CALLBACK_DATA_er ::
    "'a http_parser_settings \<Rightarrow> string \<Rightarrow> data_cb \<Rightarrow> nat \<Rightarrow> nat \<Rightarrow> 'a exec \<Rightarrow> ('a exec \<Rightarrow> 'a flow) \<Rightarrow> 'a flow" where
  "CALLBACK_DATA_er S data cb stop er c k =
     (if pr_errno c \<noteq> HPE_OK then Abort
      else case ex_mark c cb of
             None \<Rightarrow> k c
           | Some m \<Rightarrow>
               (case st_data S cb of
                  None \<Rightarrow> k (c\<lparr>ex_mark := (ex_mark c)(cb := None)\<rparr>)
                | Some f \<Rightarrow>
                    let (ret, app) = f (the_parser c) (take (stop - m) (drop m data)) (ex_app c);
                        c' = c\<lparr>ex_app := app\<rparr>
                    in if ret \<noteq> 0 then Return er (SET_ERRNO (HPE_CB_data cb) c')
                       else k (c'\<lparr>ex_mark := (ex_mark c)(cb := None)\<rparr>)))"

definition CALLBACK_DATA ::
    "'a http_parser_settings \<Rightarrow> string \<Rightarrow> data_cb \<Rightarrow> 'a exec \<Rightarrow> ('a exec \<Rightarrow> 'a flow) \<Rightarrow> 'a flow" where
  "CALLBACK_DATA S data cb c k = CALLBACK_DATA_er S data cb (ex_p c) (ex_p c + 1) c k"

definition CALLBACK_DATA_NOADVANCE ::
    "'a http_parser_settings \<Rightarrow> string \<Rightarrow> data_cb \<Rightarrow> 'a exec \<Rightarrow> ('a exec \<Rightarrow> 'a flow) \<Rightarrow> 'a flow" where
  "CALLBACK_DATA_NOADVANCE S data cb c k = CALLBACK_DATA_er S data cb (ex_p c) (ex_p c) c k"

definition PARSING_HEADER :: "pstate \<Rightarrow> bool" where
  "PARSING_HEADER s \<longleftrightarrow>
     s \<notin> {s_chunk_data, s_chunk_data_almost_done, s_chunk_data_done, s_body_identity, s_body_identity_eof, s_message_done}"

section \<open>Keep-alive\<close>

definition ULLONG_MAX :: "64 word" where "ULLONG_MAX = - 1"

definition http_message_needs_eof :: "('x) http_parser_scheme \<Rightarrow> bool" where
  "http_message_needs_eof p \<longleftrightarrow>
     pr_type p \<noteq> HTTP_REQUEST \<and>
     \<not> (pr_status_code p div 100 = 1 \<or> pr_status_code p = 204 \<or> pr_status_code p = 304 \<or> F_SKIPBODY \<in> pr_flags p) \<and>
     \<not> (F_CHUNKED \<in> pr_flags p \<or> pr_content_length p \<noteq> ULLONG_MAX)"

definition http_should_keep_alive :: "('x) http_parser_scheme \<Rightarrow> bool" where
  "http_should_keep_alive p =
     (if 0 < pr_http_major p \<and> 0 < pr_http_minor p
      then F_CONNECTION_CLOSE \<notin> pr_flags p \<and> \<not> http_message_needs_eof p
      else F_CONNECTION_KEEP_ALIVE \<in> pr_flags p \<and> \<not> http_message_needs_eof p)"

definition start_state :: "('x) http_parser_scheme \<Rightarrow> pstate" where
  "start_state p = (if pr_type p = HTTP_REQUEST then s_start_req else s_start_res)"

definition NEW_MESSAGE :: "('x) http_parser_scheme \<Rightarrow> pstate" where
  "NEW_MESSAGE p = (if http_should_keep_alive p then start_state p else s_dead)"

section \<open>The states of the first line\<close>

definition st_dead :: "char \<Rightarrow> 'a exec \<Rightarrow> 'a flow" where
  "st_dead ch c = (if ch = CR \<or> ch = LF then Next c else fail HPE_CLOSED_CONNECTION c)"

text \<open>A digit added to a number of at most three digits.\<close>

definition digit_of :: "char \<Rightarrow> nat" where
  "digit_of ch = ch_num ch - 48"

definition add_major :: "char \<Rightarrow> 'a exec \<Rightarrow> 'a flow" where
  "add_major ch c =
     (if \<not> IS_NUM ch then fail HPE_INVALID_VERSION c
      else let c' = c\<lparr>pr_http_major := pr_http_major c * 10 + digit_of ch\<rparr>
           in if 999 < pr_http_major c' then fail HPE_INVALID_VERSION c' else Next c')"

definition first_minor :: "pstate \<Rightarrow> char \<Rightarrow> 'a exec \<Rightarrow> 'a flow" where
  "first_minor s ch c =
     (if \<not> IS_NUM ch then fail HPE_INVALID_VERSION c else Next (goto s (c\<lparr>pr_http_minor := digit_of ch\<rparr>)))"

definition add_minor :: "char \<Rightarrow> 'a exec \<Rightarrow> 'a flow" where
  "add_minor ch c =
     (if \<not> IS_NUM ch then fail HPE_INVALID_VERSION c
      else let c' = c\<lparr>pr_http_minor := pr_http_minor c * 10 + digit_of ch\<rparr>
           in if 999 < pr_http_minor c' then fail HPE_INVALID_VERSION c' else Next c')"

text \<open>The fixed characters of \<open>HTTP/\<close>.\<close>

definition expect :: "char \<Rightarrow> pstate \<Rightarrow> char \<Rightarrow> 'a exec \<Rightarrow> 'a flow" where
  "expect want s ch c = STRICT_CHECK (ch \<noteq> want) c (\<lambda>c. Next (goto s c))"

definition clear_message :: "'a exec \<Rightarrow> 'a exec" where
  "clear_message c = c\<lparr>pr_flags := {}, pr_content_length := ULLONG_MAX\<rparr>"

definition st_start_res :: "'a http_parser_settings \<Rightarrow> char \<Rightarrow> 'a exec \<Rightarrow> 'a flow" where
  "st_start_res S ch c =
     (let c1 = clear_message c
      in if ch = CHR ''H'' then CALLBACK_NOTIFY S on_message_begin (goto s_res_H c1) Next
         else if ch = CR \<or> ch = LF then CALLBACK_NOTIFY S on_message_begin c1 Next
         else fail HPE_INVALID_CONSTANT c1)"

definition st_res_or_resp_H :: "char \<Rightarrow> 'a exec \<Rightarrow> 'a flow" where
  "st_res_or_resp_H ch c =
     (if ch = CHR ''T'' then Next (goto s_res_HT (c\<lparr>pr_type := HTTP_RESPONSE\<rparr>))
      else if ch \<noteq> CHR ''E'' then fail HPE_INVALID_CONSTANT c
      else Next (goto s_req_method (c\<lparr>pr_type := HTTP_REQUEST, pr_method := HTTP_HEAD, pr_index := 2\<rparr>)))"

definition st_res_first_http_major :: "char \<Rightarrow> 'a exec \<Rightarrow> 'a flow" where
  "st_res_first_http_major ch c =
     (if \<not> IS_NUM ch then fail HPE_INVALID_VERSION c
      else Next (goto s_res_http_major (c\<lparr>pr_http_major := digit_of ch\<rparr>)))"

definition st_res_http_major :: "char \<Rightarrow> 'a exec \<Rightarrow> 'a flow" where
  "st_res_http_major ch c = (if ch = CHR ''.'' then Next (goto s_res_first_http_minor c) else add_major ch c)"

definition st_res_http_minor :: "char \<Rightarrow> 'a exec \<Rightarrow> 'a flow" where
  "st_res_http_minor ch c = (if ch = CHR '' '' then Next (goto s_res_first_status_code c) else add_minor ch c)"

definition st_res_first_status_code :: "char \<Rightarrow> 'a exec \<Rightarrow> 'a flow" where
  "st_res_first_status_code ch c =
     (if \<not> IS_NUM ch then (if ch = CHR '' '' then Next c else fail HPE_INVALID_STATUS c)
      else Next (goto s_res_status_code (c\<lparr>pr_status_code := digit_of ch\<rparr>)))"

definition st_res_status_code :: "char \<Rightarrow> 'a exec \<Rightarrow> 'a flow" where
  "st_res_status_code ch c =
     (if \<not> IS_NUM ch then
        (if ch = CHR '' '' then Next (goto s_res_status_start c)
         else if ch = CR then Next (goto s_res_line_almost_done c)
         else if ch = LF then Next (goto s_header_field_start c)
         else fail HPE_INVALID_STATUS c)
      else let c' = c\<lparr>pr_status_code := pr_status_code c * 10 + digit_of ch\<rparr>
           in if 999 < pr_status_code c' then fail HPE_INVALID_STATUS c' else Next c')"

definition st_res_status_start :: "char \<Rightarrow> 'a exec \<Rightarrow> 'a flow" where
  "st_res_status_start ch c =
     (if ch = CR then Next (goto s_res_line_almost_done c)
      else if ch = LF then Next (goto s_header_field_start c)
      else Next ((goto s_res_status (MARK on_status c))\<lparr>pr_index := 0\<rparr>))"

definition st_res_status :: "'a http_parser_settings \<Rightarrow> string \<Rightarrow> char \<Rightarrow> 'a exec \<Rightarrow> 'a flow" where
  "st_res_status S data ch c =
     (if ch = CR then CALLBACK_DATA S data on_status (goto s_res_line_almost_done c) Next
      else if ch = LF then CALLBACK_DATA S data on_status (goto s_header_field_start c) Next
      else Next c)"

text \<open>The letter a method starts with, and the corrections while it is matched.\<close>

definition first_method :: "char \<Rightarrow> http_method option" where
  "first_method ch = map_of
     [(CHR ''A'', HTTP_ACL), (CHR ''B'', HTTP_BIND), (CHR ''C'', HTTP_CONNECT), (CHR ''D'', HTTP_DELETE),
      (CHR ''G'', HTTP_GET), (CHR ''H'', HTTP_HEAD), (CHR ''L'', HTTP_LOCK), (CHR ''M'', HTTP_MKCOL),
      (CHR ''N'', HTTP_NOTIFY), (CHR ''O'', HTTP_OPTIONS), (CHR ''P'', HTTP_POST), (CHR ''R'', HTTP_REPORT),
      (CHR ''S'', HTTP_SUBSCRIBE), (CHR ''T'', HTTP_TRACE), (CHR ''U'', HTTP_UNLOCK)] ch"

definition st_start_req :: "'a http_parser_settings \<Rightarrow> char \<Rightarrow> 'a exec \<Rightarrow> 'a flow" where
  "st_start_req S ch c =
     (if ch = CR \<or> ch = LF then Next c
      else let c1 = clear_message c
           in if \<not> IS_ALPHA ch then fail HPE_INVALID_METHOD c1
              else case first_method ch of
                     None \<Rightarrow> fail HPE_INVALID_METHOD (c1\<lparr>pr_method := HTTP_DELETE, pr_index := 1\<rparr>)
                   | Some m \<Rightarrow>
                       CALLBACK_NOTIFY S on_message_begin
                         (goto s_req_method (c1\<lparr>pr_method := m, pr_index := 1\<rparr>)) Next)"

definition st_start_req_or_res :: "'a http_parser_settings \<Rightarrow> char \<Rightarrow> 'a exec \<Rightarrow> 'a flow" where
  "st_start_req_or_res S ch c =
     (if ch = CR \<or> ch = LF then Next c
      else let c1 = clear_message c
           in if ch = CHR ''H'' then CALLBACK_NOTIFY S on_message_begin (goto s_res_or_resp_H c1) Next
              else st_start_req S ch (goto s_start_req (c1\<lparr>pr_type := HTTP_REQUEST\<rparr>)))"

definition method_change :: "http_method \<Rightarrow> nat \<Rightarrow> char \<Rightarrow> http_method option" where
  "method_change m index ch = map_of
     [((HTTP_POST, 1, CHR ''U''), HTTP_PUT), ((HTTP_POST, 1, CHR ''A''), HTTP_PATCH),
      ((HTTP_CONNECT, 1, CHR ''H''), HTTP_CHECKOUT), ((HTTP_CONNECT, 2, CHR ''P''), HTTP_COPY),
      ((HTTP_MKCOL, 1, CHR ''O''), HTTP_MOVE), ((HTTP_MKCOL, 1, CHR ''E''), HTTP_MERGE),
      ((HTTP_MKCOL, 2, CHR ''A''), HTTP_MKACTIVITY), ((HTTP_MKCOL, 3, CHR ''A''), HTTP_MKCALENDAR),
      ((HTTP_SUBSCRIBE, 1, CHR ''E''), HTTP_SEARCH), ((HTTP_REPORT, 2, CHR ''B''), HTTP_REBIND),
      ((HTTP_POST, 1, CHR ''R''), HTTP_PROPFIND), ((HTTP_PROPFIND, 4, CHR ''P''), HTTP_PROPPATCH),
      ((HTTP_PUT, 2, CHR ''R''), HTTP_PURGE), ((HTTP_LOCK, 1, CHR ''I''), HTTP_LINK),
      ((HTTP_UNLOCK, 2, CHR ''S''), HTTP_UNSUBSCRIBE), ((HTTP_UNLOCK, 2, CHR ''B''), HTTP_UNBIND),
      ((HTTP_UNLOCK, 3, CHR ''I''), HTTP_UNLINK)] (m, index, ch)"

text \<open>A string literal with its terminating NUL.\<close>

definition lit_at :: "string \<Rightarrow> nat \<Rightarrow> char" where
  "lit_at s i = (s @ [NUL]) ! i"

definition st_req_method :: "char \<Rightarrow> 'a exec \<Rightarrow> 'a flow" where
  "st_req_method ch c =
     (let matcher = http_method_str (pr_method c); next = c\<lparr>pr_index := pr_index c + 1\<rparr>
      in if ch = NUL then fail HPE_INVALID_METHOD c
         else if ch = CHR '' '' \<and> lit_at matcher (pr_index c) = NUL then Next (goto s_req_spaces_before_url next)
         else if ch = lit_at matcher (pr_index c) then Next next
         else if IS_ALPHA ch then
           (case method_change (pr_method c) (pr_index c) ch of
              Some m \<Rightarrow> Next (next\<lparr>pr_method := m\<rparr>)
            | None \<Rightarrow> fail HPE_INVALID_METHOD c)
         else if ch = CHR ''-'' \<and> pr_index c = 1 \<and> pr_method c = HTTP_MKCOL
         then Next (next\<lparr>pr_method := HTTP_MSEARCH\<rparr>)
         else fail HPE_INVALID_METHOD c)"

definition url_step :: "char \<Rightarrow> 'a exec \<Rightarrow> 'a flow" where
  "url_step ch c =
     (let c' = goto (parse_url_char (pr_state c) ch) c
      in if pr_state c' = s_dead then fail HPE_INVALID_URL c' else Next c')"

definition st_req_spaces_before_url :: "char \<Rightarrow> 'a exec \<Rightarrow> 'a flow" where
  "st_req_spaces_before_url ch c =
     (if ch = CHR '' '' then Next c
      else let c1 = MARK on_url c
           in url_step ch (if pr_method c = HTTP_CONNECT then goto s_req_server_start c1 else c1))"

definition st_req_schema :: "char \<Rightarrow> 'a exec \<Rightarrow> 'a flow" where
  "st_req_schema ch c =
     (if ch = CHR '' '' \<or> ch = CR \<or> ch = LF then fail HPE_INVALID_URL c else url_step ch c)"

definition st_req_server_or_path :: "'a http_parser_settings \<Rightarrow> string \<Rightarrow> char \<Rightarrow> 'a exec \<Rightarrow> 'a flow" where
  "st_req_server_or_path S data ch c =
     (if ch = CHR '' '' then CALLBACK_DATA S data on_url (goto s_req_http_start c) Next
      else if ch = CR \<or> ch = LF then
        CALLBACK_DATA S data on_url
          (goto (if ch = CR then s_req_line_almost_done else s_header_field_start)
             (c\<lparr>pr_http_major := 0, pr_http_minor := 9\<rparr>)) Next
      else if ch = CHR ''?'' then CALLBACK_DATA S data on_url (goto s_req_query_string_start c) Next
      else url_step ch c)"

definition st_req_query_string :: "'a http_parser_settings \<Rightarrow> string \<Rightarrow> char \<Rightarrow> 'a exec \<Rightarrow> 'a flow" where
  "st_req_query_string S data ch c =
     (let c1 = MARK on_query_field c
      in if ch = CHR '' '' then Next (goto s_req_http_start c1)
         else if ch = CHR ''='' then CALLBACK_DATA S data on_query_field (goto s_req_query_value_start c1) Next
         else if ch = CHR ''#'' then Next (goto s_req_fragment_start c1)
         else url_step ch c1)"

definition st_req_query_value :: "'a http_parser_settings \<Rightarrow> string \<Rightarrow> char \<Rightarrow> 'a exec \<Rightarrow> 'a flow" where
  "st_req_query_value S data ch c =
     (let c1 = MARK on_query_value c
      in if ch = CHR '' '' then CALLBACK_DATA S data on_query_value (goto s_req_http_start c1) Next
         else if ch = CHR ''&'' then CALLBACK_DATA S data on_query_value (goto s_req_query_string_start c1) Next
         else if ch = CHR ''#'' then CALLBACK_DATA S data on_query_value (goto s_req_fragment_start c1) Next
         else url_step ch c1)"

definition st_req_fragment :: "'a http_parser_settings \<Rightarrow> string \<Rightarrow> char \<Rightarrow> 'a exec \<Rightarrow> 'a flow" where
  "st_req_fragment S data ch c =
     (let c1 = MARK on_fragment c
      in if ch = CHR '' '' then CALLBACK_DATA S data on_fragment (goto s_req_http_start c1) Next
         else url_step ch c1)"

definition st_req_http_start :: "char \<Rightarrow> 'a exec \<Rightarrow> 'a flow" where
  "st_req_http_start ch c =
     (if ch = CHR ''H'' then Next (goto s_req_http_H c)
      else if ch = CHR '' '' then Next c
      else fail HPE_INVALID_CONSTANT c)"

definition st_req_first_http_major :: "char \<Rightarrow> 'a exec \<Rightarrow> 'a flow" where
  "st_req_first_http_major ch c =
     (if ch < CHR ''1'' \<or> CHR ''9'' < ch then fail HPE_INVALID_VERSION c
      else Next (goto s_req_http_major (c\<lparr>pr_http_major := digit_of ch\<rparr>)))"

definition st_req_http_major :: "char \<Rightarrow> 'a exec \<Rightarrow> 'a flow" where
  "st_req_http_major ch c = (if ch = CHR ''.'' then Next (goto s_req_first_http_minor c) else add_major ch c)"

definition st_req_http_minor :: "char \<Rightarrow> 'a exec \<Rightarrow> 'a flow" where
  "st_req_http_minor ch c =
     (if ch = CR then Next (goto s_req_line_almost_done c)
      else if ch = LF then Next (goto s_header_field_start c)
      else add_minor ch c)"

definition st_req_line_almost_done :: "char \<Rightarrow> 'a exec \<Rightarrow> 'a flow" where
  "st_req_line_almost_done ch c =
     (if ch \<noteq> LF then fail HPE_LF_EXPECTED c else Next (goto s_header_field_start c))"

section \<open>The body\<close>

text \<open>The length of a buffer is below \<open>2 ^ 64\<close>.\<close>

definition remaining :: "string \<Rightarrow> 'a exec \<Rightarrow> nat" where
  "remaining data c = length data - ex_p c"

text \<open>\<open>MIN(parser->content_length, (uint64_t) ((data + len) - p))\<close>\<close>

definition to_read :: "string \<Rightarrow> 'a exec \<Rightarrow> nat" where
  "to_read data c = min (unat (pr_content_length c)) (remaining data c)"

definition take_body :: "string \<Rightarrow> 'a exec \<Rightarrow> 'a exec" where
  "take_body data c =
     (let n = to_read data c; c1 = MARK on_body c
      in c1\<lparr>pr_content_length := pr_content_length c1 - of_nat n, ex_p := ex_p c1 + n - 1\<rparr>)"

definition st_message_done :: "'a http_parser_settings \<Rightarrow> 'a exec \<Rightarrow> 'a flow" where
  "st_message_done S c =
     CALLBACK_NOTIFY S on_message_complete (goto (NEW_MESSAGE c) c) (\<lambda>c.
       if pr_upgrade c then Return (ex_p c + 1) c else Next c)"

definition st_body_identity :: "'a http_parser_settings \<Rightarrow> string \<Rightarrow> 'a exec \<Rightarrow> 'a flow" where
  "st_body_identity S data c =
     (if pr_content_length c = 0 \<or> pr_content_length c = ULLONG_MAX then Abort
      else let c1 = take_body data c
           in if pr_content_length c1 = 0
              then CALLBACK_DATA_er S data on_body (ex_p c1 + 1) (ex_p c1) (goto s_message_done c1) (st_message_done S)
              else Next c1)"

definition st_body_identity_eof :: "string \<Rightarrow> 'a exec \<Rightarrow> 'a flow" where
  "st_body_identity_eof data c = Next ((MARK on_body c)\<lparr>ex_p := length data - 1\<rparr>)"

definition has_body :: "'a exec \<Rightarrow> bool" where
  "has_body c \<longleftrightarrow> F_CHUNKED \<in> pr_flags c \<or> (0 < pr_content_length c \<and> pr_content_length c \<noteq> ULLONG_MAX)"

definition st_headers_done :: "'a http_parser_settings \<Rightarrow> char \<Rightarrow> 'a exec \<Rightarrow> 'a flow" where
  "st_headers_done S ch c = STRICT_CHECK (ch \<noteq> LF) c (\<lambda>c.
     let c1 = c\<lparr>pr_nread := 0\<rparr>; done = CALLBACK_NOTIFY S on_message_complete (goto (NEW_MESSAGE c1) c1)
     in if pr_upgrade c1 \<and> (pr_method c1 = HTTP_CONNECT \<or> F_SKIPBODY \<in> pr_flags c1 \<or> \<not> has_body c1)
        then done (\<lambda>c. Return (ex_p c + 1) c)
        else if F_SKIPBODY \<in> pr_flags c1 then done Next
        else if F_CHUNKED \<in> pr_flags c1 then Next (goto s_chunk_size_start c1)
        else if pr_content_length c1 = 0 then done Next
        else if pr_content_length c1 \<noteq> ULLONG_MAX then Next (goto s_body_identity c1)
        else if \<not> http_message_needs_eof c1 then done Next
        else Next (goto s_body_identity_eof c1))"

section \<open>The headers\<close>

definition st_headers_almost_done :: "'a http_parser_settings \<Rightarrow> char \<Rightarrow> 'a exec \<Rightarrow> 'a flow" where
  "st_headers_almost_done S ch c = STRICT_CHECK (ch \<noteq> LF) c (\<lambda>c.
     if F_TRAILING \<in> pr_flags c
     then CALLBACK_NOTIFY_NOADVANCE S on_chunk_complete (goto s_message_done c) (st_message_done S)
     else if F_CHUNKED \<in> pr_flags c \<and> F_CONTENTLENGTH \<in> pr_flags c then fail HPE_UNEXPECTED_CONTENT_LENGTH c
     else
       let c1 = (goto s_headers_done c)
                  \<lparr>pr_upgrade := ({F_UPGRADE, F_CONNECTION_UPGRADE} \<subseteq> pr_flags c \<or> pr_method c = HTTP_CONNECT)\<rparr>
       in case st_notify S on_headers_complete of
            None \<Rightarrow> st_headers_done S ch c1
          | Some f \<Rightarrow>
              let (ret, app) = f (the_parser c1) (ex_app c1); c2 = c1\<lparr>ex_app := app\<rparr>
              in if ret = 0 then st_headers_done S ch c2
                 else if ret = 2 then
                   st_headers_done S ch (c2\<lparr>pr_upgrade := True, pr_flags := insert F_SKIPBODY (pr_flags c2)\<rparr>)
                 else if ret = 1 then st_headers_done S ch (c2\<lparr>pr_flags := insert F_SKIPBODY (pr_flags c2)\<rparr>)
                 else Return (ex_p c2) (SET_ERRNO (HPE_CB_notify on_headers_complete) c2))"

definition first_header_state :: "char \<Rightarrow> header_state" where
  "first_header_state t =
     (if t = CHR ''c'' then h_C
      else if t = CHR ''p'' then h_matching_proxy_connection
      else if t = CHR ''t'' then h_matching_transfer_encoding
      else if t = CHR ''u'' then h_matching_upgrade
      else h_general)"

definition st_header_field_start :: "'a http_parser_settings \<Rightarrow> char \<Rightarrow> 'a exec \<Rightarrow> 'a flow" where
  "st_header_field_start S ch c =
     (if ch = CR then Next (goto s_headers_almost_done c)
      else if ch = LF then st_headers_almost_done S ch (goto s_headers_almost_done c)
      else if TOKEN ch = NUL then fail HPE_INVALID_HEADER_TOKEN c
      else Next ((goto s_header_field (MARK on_header_field c))
                   \<lparr>pr_index := 0, pr_header_state := first_header_state (TOKEN ch)\<rparr>))"

definition CONNECTION :: string where "CONNECTION = ''connection''"
definition PROXY_CONNECTION :: string where "PROXY_CONNECTION = ''proxy-connection''"
definition CONTENT_LENGTH :: string where "CONTENT_LENGTH = ''content-length''"
definition TRANSFER_ENCODING :: string where "TRANSFER_ENCODING = ''transfer-encoding''"
definition UPGRADE :: string where "UPGRADE = ''upgrade''"
definition CHUNKED :: string where "CHUNKED = ''chunked''"
definition KEEP_ALIVE :: string where "KEEP_ALIVE = ''keep-alive''"
definition CLOSE :: string where "CLOSE = ''close''"

text \<open>One more character of a literal: it is at its end, goes on or does not match.\<close>

definition match_lit :: "string \<Rightarrow> nat \<Rightarrow> char \<Rightarrow> header_state \<Rightarrow> header_state \<Rightarrow> header_state \<Rightarrow> header_state" where
  "match_lit lit index ch mismatch matching matched =
     (if index > length lit \<or> ch \<noteq> lit_at lit index then mismatch
      else if index = length lit - 1 then matched
      else matching)"

text \<open>The state and the index after a character \<open>ch\<close> of a header's name whose token is \<open>t\<close>.\<close>

definition header_field_char :: "char \<Rightarrow> char \<Rightarrow> header_state \<times> nat \<Rightarrow> (header_state \<times> nat) option" where
  "header_field_char ch t hi =
     (let hs = fst hi; index = snd hi; i1 = index + 1
      in case hs of
        h_general \<Rightarrow> Some (hs, index)
      | h_C \<Rightarrow> Some (if t = CHR ''o'' then h_CO else h_general, i1)
      | h_CO \<Rightarrow> Some (if t = CHR ''n'' then h_CON else h_general, i1)
      | h_CON \<Rightarrow> Some (if t = CHR ''n'' then h_matching_connection
                        else if t = CHR ''t'' then h_matching_content_length else h_general, i1)
      | h_matching_connection \<Rightarrow> Some (match_lit CONNECTION i1 t h_general hs h_connection, i1)
      | h_matching_proxy_connection \<Rightarrow> Some (match_lit PROXY_CONNECTION i1 t h_general hs h_connection, i1)
      | h_matching_content_length \<Rightarrow> Some (match_lit CONTENT_LENGTH i1 t h_general hs h_content_length, i1)
      | h_matching_transfer_encoding \<Rightarrow> Some (match_lit TRANSFER_ENCODING i1 t h_general hs h_transfer_encoding, i1)
      | h_matching_upgrade \<Rightarrow> Some (match_lit UPGRADE i1 t h_general hs h_upgrade, i1)
      | h_connection \<Rightarrow> Some (if ch \<noteq> CHR '' '' then h_general else hs, index)
      | h_content_length \<Rightarrow> Some (if ch \<noteq> CHR '' '' then h_general else hs, index)
      | h_transfer_encoding \<Rightarrow> Some (if ch \<noteq> CHR '' '' then h_general else hs, index)
      | h_upgrade \<Rightarrow> Some (if ch \<noteq> CHR '' '' then h_general else hs, index)
      | _ \<Rightarrow> None)"

text \<open>The loop over the name: the state, and the bytes from the first that is not a token.\<close>

fun header_field_loop :: "string \<Rightarrow> header_state \<times> nat \<Rightarrow> ((header_state \<times> nat) \<times> string) option" where
  "header_field_loop [] hi = Some (hi, [])"
| "header_field_loop (ch # s) hi =
     (if TOKEN ch = NUL then Some (hi, ch # s)
      else case header_field_char ch (TOKEN ch) hi of
             None \<Rightarrow> None
           | Some hi' \<Rightarrow> header_field_loop s hi')"

definition st_header_field :: "'a http_parser_settings \<Rightarrow> string \<Rightarrow> 'a exec \<Rightarrow> 'a flow" where
  "st_header_field S data c =
     (case header_field_loop (drop (ex_p c) data) (pr_header_state c, pr_index c) of
        None \<Rightarrow> Abort
      | Some ((hs, index), rest) \<Rightarrow>
          let p = length data - length rest;
              c1 = c\<lparr>pr_header_state := hs, pr_index := index, ex_p := p\<rparr>
          in COUNT_HEADER_SIZE (p - ex_p c) c1 (\<lambda>c.
               if rest = [] then Next (c\<lparr>ex_p := p - 1\<rparr>)
               else if hd rest = CHR '':''
               then CALLBACK_DATA S data on_header_field (goto s_header_value_discard_ws c) Next
               else fail HPE_INVALID_HEADER_TOKEN c))"

definition st_header_value_start :: "char \<Rightarrow> 'a exec \<Rightarrow> 'a flow" where
  "st_header_value_start ch c =
     (let c1 = (goto s_header_value (MARK on_header_value c))\<lparr>pr_index := 0\<rparr>; t = LOWER ch
      in case pr_header_state c of
        h_upgrade \<Rightarrow> Next (c1\<lparr>pr_flags := insert F_UPGRADE (pr_flags c1), pr_header_state := h_general\<rparr>)
      | h_transfer_encoding \<Rightarrow>
          Next (c1\<lparr>pr_header_state :=
                     (if t = CHR ''c'' then h_matching_transfer_encoding_chunked else h_general)\<rparr>)
      | h_content_length \<Rightarrow>
          (if \<not> IS_NUM ch then fail HPE_INVALID_CONTENT_LENGTH c1
           else if F_CONTENTLENGTH \<in> pr_flags c1 then fail HPE_UNEXPECTED_CONTENT_LENGTH c1
           else Next (c1\<lparr>pr_flags := insert F_CONTENTLENGTH (pr_flags c1),
                         pr_content_length := of_nat (digit_of ch)\<rparr>))
      | h_connection \<Rightarrow>
          Next (c1\<lparr>pr_header_state :=
                     (if t = CHR ''k'' then h_matching_connection_keep_alive
                      else if t = CHR ''c'' then h_matching_connection_close
                      else if t = CHR ''u'' then h_matching_connection_upgrade
                      else h_matching_connection_token)\<rparr>)
      | h_matching_connection_token_start \<Rightarrow> Next c1
      | _ \<Rightarrow> Next (c1\<lparr>pr_header_state := h_general\<rparr>))"

definition st_header_value_discard_ws :: "char \<Rightarrow> 'a exec \<Rightarrow> 'a flow" where
  "st_header_value_discard_ws ch c =
     (if ch = CHR '' '' \<or> ch = TAB then Next c
      else if ch = CR then Next (goto s_header_value_discard_ws_almost_done c)
      else if ch = LF then Next (goto s_header_value_discard_lws c)
      else st_header_value_start ch c)"

text \<open>What a finished value sets.\<close>

definition value_flags :: "header_state \<Rightarrow> parser_flag set" where
  "value_flags hs =
     (if hs = h_connection_keep_alive then {F_CONNECTION_KEEP_ALIVE}
      else if hs = h_connection_close then {F_CONNECTION_CLOSE}
      else if hs = h_transfer_encoding_chunked then {F_CHUNKED}
      else if hs = h_connection_upgrade then {F_CONNECTION_UPGRADE}
      else {})"

definition finish_value :: "'a exec \<Rightarrow> 'a exec" where
  "finish_value c = c\<lparr>pr_flags := pr_flags c \<union> value_flags (pr_header_state c)\<rparr>"

definition st_header_value_lws :: "'a http_parser_settings \<Rightarrow> char \<Rightarrow> 'a exec \<Rightarrow> 'a flow" where
  "st_header_value_lws S ch c =
     (if ch = CHR '' '' \<or> ch = TAB then st_header_value_start ch (goto s_header_value_start c)
      else st_header_field_start S ch (goto s_header_field_start (finish_value c)))"

definition st_header_value_discard_lws :: "'a http_parser_settings \<Rightarrow> string \<Rightarrow> char \<Rightarrow> 'a exec \<Rightarrow> 'a flow" where
  "st_header_value_discard_lws S data ch c =
     (if ch = CHR '' '' \<or> ch = TAB then Next (goto s_header_value_discard_ws c)
      else CALLBACK_DATA_NOADVANCE S data on_header_value
             (goto s_header_field_start (MARK on_header_value (finish_value c))) (st_header_field_start S ch))"

definition st_header_almost_done :: "char \<Rightarrow> 'a exec \<Rightarrow> 'a flow" where
  "st_header_almost_done ch c =
     (if ch \<noteq> LF then fail HPE_LF_EXPECTED c else Next (goto s_header_value_lws c))"

text \<open>
  The loop over a value.  \<open>memchr\<close> looks for the end of the line in the next 80 kB; a value that has no
  further meaning is skipped up to there, or to the end of the buffer.
\<close>

datatype 'a value_char = V_Go header_state "'a exec" | V_Error "'a exec" | V_Assert

definition value_keyword :: "string \<Rightarrow> char \<Rightarrow> header_state \<Rightarrow> header_state \<Rightarrow> header_state \<Rightarrow> 'a exec \<Rightarrow> 'a value_char" where
  "value_keyword lit t mismatch h matched c =
     V_Go (match_lit lit (pr_index c + 1) t mismatch h matched) (c\<lparr>pr_index := pr_index c + 1\<rparr>)"

definition value_token_start :: "char \<Rightarrow> header_state \<Rightarrow> header_state" where
  "value_token_start t h =
     (if t = CHR ''k'' then h_matching_connection_keep_alive
      else if t = CHR ''c'' then h_matching_connection_close
      else if t = CHR ''u'' then h_matching_connection_upgrade
      else if TOKEN t \<noteq> NUL then h_matching_connection_token
      else if t = CHR '' '' \<or> t = TAB then h
      else h_general)"

definition value_length :: "char \<Rightarrow> header_state \<Rightarrow> 'a exec \<Rightarrow> 'a value_char" where
  "value_length ch h c =
     (if ch = CHR '' '' then V_Go h c
      else if \<not> IS_NUM ch \<or> (ULLONG_MAX - 10) div 10 < pr_content_length c
      then V_Error (SET_ERRNO HPE_INVALID_CONTENT_LENGTH (c\<lparr>pr_header_state := h\<rparr>))
      else V_Go h (c\<lparr>pr_content_length := pr_content_length c * 10 + of_nat (digit_of ch)\<rparr>))"

definition value_comma :: "char \<Rightarrow> header_state \<Rightarrow> 'a exec \<Rightarrow> 'a value_char" where
  "value_comma ch h c =
     (if ch = CHR '',''
      then V_Go h_matching_connection_token_start (c\<lparr>pr_flags := pr_flags c \<union> value_flags h, pr_index := 0\<rparr>)
      else V_Go (if ch \<noteq> CHR '' '' then h_matching_connection_token else h) c)"

definition header_value_char :: "char \<Rightarrow> header_state \<Rightarrow> 'a exec \<Rightarrow> 'a value_char" where
  "header_value_char ch h c =
     (let t = LOWER ch
      in case h of
        h_general \<Rightarrow> V_Go h c
      | h_connection \<Rightarrow> V_Assert
      | h_transfer_encoding \<Rightarrow> V_Assert
      | h_content_length \<Rightarrow> value_length ch h c
      | h_matching_transfer_encoding_chunked \<Rightarrow> value_keyword CHUNKED t h_general h h_transfer_encoding_chunked c
      | h_matching_connection_token_start \<Rightarrow> V_Go (value_token_start t h) c
      | h_matching_connection_keep_alive \<Rightarrow>
          value_keyword KEEP_ALIVE t h_matching_connection_token h h_connection_keep_alive c
      | h_matching_connection_close \<Rightarrow> value_keyword CLOSE t h_matching_connection_token h h_connection_close c
      | h_matching_connection_upgrade \<Rightarrow> value_keyword UPGRADE t h_matching_connection_token h h_connection_upgrade c
      | h_matching_connection_token \<Rightarrow>
          (if ch = CHR '','' then V_Go h_matching_connection_token_start (c\<lparr>pr_index := 0\<rparr>) else V_Go h c)
      | h_transfer_encoding_chunked \<Rightarrow> V_Go (if ch \<noteq> CHR '' '' then h_general else h) c
      | h_connection_keep_alive \<Rightarrow> value_comma ch h c
      | h_connection_close \<Rightarrow> value_comma ch h c
      | h_connection_upgrade \<Rightarrow> value_comma ch h c
      | _ \<Rightarrow> V_Go h_general (goto s_header_value c))"

definition line_end :: "char \<Rightarrow> bool" where
  "line_end ch \<longleftrightarrow> ch = CR \<or> ch = LF"

definition skip_value :: "string \<Rightarrow> string" where
  "skip_value s = (if list_ex line_end (take HTTP_MAX_HEADER_SIZE s) then dropWhile (\<lambda>x. \<not> line_end x) s else [])"

lemma skip_value_shorter: "\<not> line_end ch \<Longrightarrow> length (skip_value (ch # s)) \<le> length s"
  using length_dropWhile_le [of "\<lambda>x. \<not> line_end x" s] by (auto simp: skip_value_def)

datatype 'a value_end = V_Stop header_state "'a exec" string | V_Fail "'a exec" string | V_Abort

function header_value_loop :: "string \<Rightarrow> header_state \<Rightarrow> 'a exec \<Rightarrow> 'a value_end" where
  "header_value_loop s h c =
     (case s of
        [] \<Rightarrow> V_Stop h c []
      | ch # rest \<Rightarrow>
          if line_end ch then V_Stop h c s
          else if \<not> pr_lenient c \<and> \<not> IS_HEADER_CHAR ch then V_Fail (SET_ERRNO HPE_INVALID_HEADER_TOKEN c) s
          else case header_value_char ch h c of
                 V_Assert \<Rightarrow> V_Abort
               | V_Error c' \<Rightarrow> V_Fail c' s
               | V_Go h' c' \<Rightarrow> header_value_loop (if h = h_general then skip_value s else rest) h' c')"
  by pat_completeness auto

termination
  by (relation "measure (\<lambda>(s, _). length s)") (auto simp: less_Suc_eq_le intro: skip_value_shorter)

definition st_header_value :: "'a http_parser_settings \<Rightarrow> string \<Rightarrow> 'a exec \<Rightarrow> 'a flow" where
  "st_header_value S data c =
     (case header_value_loop (drop (ex_p c) data) (pr_header_state c) c of
        V_Abort \<Rightarrow> Abort
      | V_Fail c' rest \<Rightarrow> Error (c'\<lparr>ex_p := length data - length rest\<rparr>)
      | V_Stop h c' rest \<Rightarrow>
          let p = length data - length rest; c1 = c'\<lparr>ex_p := p\<rparr>; set = (\<lambda>c. c\<lparr>pr_header_state := h\<rparr>)
          in if rest = [] then COUNT_HEADER_SIZE (p - ex_p c) (set c1) (\<lambda>c. Next (c\<lparr>ex_p := p - 1\<rparr>))
             else if hd rest = CR then
               CALLBACK_DATA S data on_header_value (set (goto s_header_almost_done c1)) (\<lambda>c'.
                 COUNT_HEADER_SIZE (p - ex_p c) c' Next)
             else
               COUNT_HEADER_SIZE (p - ex_p c) (goto s_header_almost_done c1) (\<lambda>c'.
                 CALLBACK_DATA_NOADVANCE S data on_header_value (set c') (st_header_almost_done LF)))"

section \<open>Chunks\<close>

definition st_chunk_size_start :: "char \<Rightarrow> 'a exec \<Rightarrow> 'a flow" where
  "st_chunk_size_start ch c =
     (if pr_nread c \<noteq> 1 \<or> F_CHUNKED \<notin> pr_flags c then Abort
      else if unhex ch = -1 then fail HPE_INVALID_CHUNK_SIZE c
      else Next (goto s_chunk_size (c\<lparr>pr_content_length := of_int (unhex ch)\<rparr>)))"

definition st_chunk_size :: "char \<Rightarrow> 'a exec \<Rightarrow> 'a flow" where
  "st_chunk_size ch c =
     (if F_CHUNKED \<notin> pr_flags c then Abort
      else if ch = CR then Next (goto s_chunk_size_almost_done c)
      else if unhex ch = -1 then
        (if ch = CHR '';'' \<or> ch = CHR '' '' then Next (goto s_chunk_parameters c) else fail HPE_INVALID_CHUNK_SIZE c)
      else if (ULLONG_MAX - 16) div 16 < pr_content_length c then fail HPE_INVALID_CONTENT_LENGTH c
      else Next (c\<lparr>pr_content_length := pr_content_length c * 16 + of_int (unhex ch)\<rparr>))"

definition st_chunk_parameters :: "char \<Rightarrow> 'a exec \<Rightarrow> 'a flow" where
  "st_chunk_parameters ch c =
     (if F_CHUNKED \<notin> pr_flags c then Abort
      else if ch = CR then Next (goto s_chunk_size_almost_done c) else Next c)"

definition st_chunk_size_almost_done :: "'a http_parser_settings \<Rightarrow> char \<Rightarrow> 'a exec \<Rightarrow> 'a flow" where
  "st_chunk_size_almost_done S ch c =
     (if F_CHUNKED \<notin> pr_flags c then Abort
      else STRICT_CHECK (ch \<noteq> LF) c (\<lambda>c.
        let c1 = c\<lparr>pr_nread := 0\<rparr>
        in CALLBACK_NOTIFY S on_chunk_header
             (if pr_content_length c1 = 0
              then goto s_header_field_start (c1\<lparr>pr_flags := insert F_TRAILING (pr_flags c1)\<rparr>)
              else goto s_chunk_data c1) Next))"

definition st_chunk_data :: "string \<Rightarrow> 'a exec \<Rightarrow> 'a flow" where
  "st_chunk_data data c =
     (if F_CHUNKED \<notin> pr_flags c \<or> pr_content_length c = 0 \<or> pr_content_length c = ULLONG_MAX then Abort
      else let c1 = take_body data c
           in Next (if pr_content_length c1 = 0 then goto s_chunk_data_almost_done c1 else c1))"

definition st_chunk_data_almost_done :: "'a http_parser_settings \<Rightarrow> string \<Rightarrow> char \<Rightarrow> 'a exec \<Rightarrow> 'a flow" where
  "st_chunk_data_almost_done S data ch c =
     (if F_CHUNKED \<notin> pr_flags c \<or> pr_content_length c \<noteq> 0 then Abort
      else STRICT_CHECK (ch \<noteq> CR) c (\<lambda>c. CALLBACK_DATA S data on_body (goto s_chunk_data_done c) Next))"

definition st_chunk_data_done :: "'a http_parser_settings \<Rightarrow> char \<Rightarrow> 'a exec \<Rightarrow> 'a flow" where
  "st_chunk_data_done S ch c =
     (if F_CHUNKED \<notin> pr_flags c then Abort
      else STRICT_CHECK (ch \<noteq> LF) c (\<lambda>c.
        CALLBACK_NOTIFY S on_chunk_complete (goto s_chunk_size_start (c\<lparr>pr_nread := 0\<rparr>)) Next))"

declare header_value_loop.simps [simp del]

lemma header_value_loop_simps [simp]:
  "header_value_loop [] h c = V_Stop h c []"
  "header_value_loop (ch # rest) h c =
     (if line_end ch then V_Stop h c (ch # rest)
      else if \<not> pr_lenient c \<and> \<not> IS_HEADER_CHAR ch then V_Fail (SET_ERRNO HPE_INVALID_HEADER_TOKEN c) (ch # rest)
      else case header_value_char ch h c of
             V_Assert \<Rightarrow> V_Abort
           | V_Error c' \<Rightarrow> V_Fail c' (ch # rest)
           | V_Go h' c' \<Rightarrow> header_value_loop (if h = h_general then skip_value (ch # rest) else rest) h' c')"
  by (subst header_value_loop.simps, simp)+

section \<open>The switch, the loop and what follows it\<close>

definition exec_state :: "'a http_parser_settings \<Rightarrow> string \<Rightarrow> char \<Rightarrow> 'a exec \<Rightarrow> 'a flow" where
  "exec_state S data ch c =
     (case pr_state c of
        s_dead \<Rightarrow> st_dead ch c
      | s_start_req_or_res \<Rightarrow> st_start_req_or_res S ch c
      | s_res_or_resp_H \<Rightarrow> st_res_or_resp_H ch c
      | s_start_res \<Rightarrow> st_start_res S ch c
      | s_res_H \<Rightarrow> expect (CHR ''T'') s_res_HT ch c
      | s_res_HT \<Rightarrow> expect (CHR ''T'') s_res_HTT ch c
      | s_res_HTT \<Rightarrow> expect (CHR ''P'') s_res_HTTP ch c
      | s_res_HTTP \<Rightarrow> expect (CHR ''/'') s_res_first_http_major ch c
      | s_res_first_http_major \<Rightarrow> st_res_first_http_major ch c
      | s_res_http_major \<Rightarrow> st_res_http_major ch c
      | s_res_first_http_minor \<Rightarrow> first_minor s_res_http_minor ch c
      | s_res_http_minor \<Rightarrow> st_res_http_minor ch c
      | s_res_first_status_code \<Rightarrow> st_res_first_status_code ch c
      | s_res_status_code \<Rightarrow> st_res_status_code ch c
      | s_res_status_start \<Rightarrow> st_res_status_start ch c
      | s_res_status \<Rightarrow> st_res_status S data ch c
      | s_res_line_almost_done \<Rightarrow> expect LF s_header_field_start ch c
      | s_start_req \<Rightarrow> st_start_req S ch c
      | s_req_method \<Rightarrow> st_req_method ch c
      | s_req_spaces_before_url \<Rightarrow> st_req_spaces_before_url ch c
      | s_req_schema \<Rightarrow> st_req_schema ch c
      | s_req_schema_slash \<Rightarrow> st_req_schema ch c
      | s_req_schema_slash_slash \<Rightarrow> st_req_schema ch c
      | s_req_server_start \<Rightarrow> st_req_schema ch c
      | s_req_server \<Rightarrow> st_req_server_or_path S data ch c
      | s_req_server_with_at \<Rightarrow> st_req_server_or_path S data ch c
      | s_req_path \<Rightarrow> st_req_server_or_path S data ch c
      | s_req_query_string_start \<Rightarrow> st_req_query_string S data ch c
      | s_req_query_string \<Rightarrow> st_req_query_string S data ch c
      | s_req_query_value_start \<Rightarrow> st_req_query_value S data ch c
      | s_req_query_value \<Rightarrow> st_req_query_value S data ch c
      | s_req_fragment_start \<Rightarrow> st_req_fragment S data ch c
      | s_req_fragment \<Rightarrow> st_req_fragment S data ch c
      | s_req_http_start \<Rightarrow> st_req_http_start ch c
      | s_req_http_H \<Rightarrow> expect (CHR ''T'') s_req_http_HT ch c
      | s_req_http_HT \<Rightarrow> expect (CHR ''T'') s_req_http_HTT ch c
      | s_req_http_HTT \<Rightarrow> expect (CHR ''P'') s_req_http_HTTP ch c
      | s_req_http_HTTP \<Rightarrow> expect (CHR ''/'') s_req_first_http_major ch c
      | s_req_first_http_major \<Rightarrow> st_req_first_http_major ch c
      | s_req_http_major \<Rightarrow> st_req_http_major ch c
      | s_req_first_http_minor \<Rightarrow> first_minor s_req_http_minor ch c
      | s_req_http_minor \<Rightarrow> st_req_http_minor ch c
      | s_req_line_almost_done \<Rightarrow> st_req_line_almost_done ch c
      | s_header_field_start \<Rightarrow> st_header_field_start S ch c
      | s_header_field \<Rightarrow> st_header_field S data c
      | s_header_value_discard_ws \<Rightarrow> st_header_value_discard_ws ch c
      | s_header_value_discard_ws_almost_done \<Rightarrow> expect LF s_header_value_discard_lws ch c
      | s_header_value_discard_lws \<Rightarrow> st_header_value_discard_lws S data ch c
      | s_header_value_start \<Rightarrow> st_header_value_start ch c
      | s_header_value \<Rightarrow> st_header_value S data c
      | s_header_value_lws \<Rightarrow> st_header_value_lws S ch c
      | s_header_almost_done \<Rightarrow> st_header_almost_done ch c
      | s_chunk_size_start \<Rightarrow> st_chunk_size_start ch c
      | s_chunk_size \<Rightarrow> st_chunk_size ch c
      | s_chunk_parameters \<Rightarrow> st_chunk_parameters ch c
      | s_chunk_size_almost_done \<Rightarrow> st_chunk_size_almost_done S ch c
      | s_headers_almost_done \<Rightarrow> st_headers_almost_done S ch c
      | s_headers_done \<Rightarrow> st_headers_done S ch c
      | s_chunk_data \<Rightarrow> st_chunk_data data c
      | s_chunk_data_almost_done \<Rightarrow> st_chunk_data_almost_done S data ch c
      | s_chunk_data_done \<Rightarrow> st_chunk_data_done S ch c
      | s_body_identity \<Rightarrow> st_body_identity S data c
      | s_body_identity_eof \<Rightarrow> st_body_identity_eof data c
      | s_message_done \<Rightarrow> st_message_done S c)"

definition exec_byte :: "'a http_parser_settings \<Rightarrow> string \<Rightarrow> 'a exec \<Rightarrow> 'a flow" where
  "exec_byte S data c =
     (let ch = data ! ex_p c
      in if PARSING_HEADER (pr_state c) then COUNT_HEADER_SIZE 1 c (exec_state S data ch)
         else exec_state S data ch c)"

text \<open>The assertion that at most one mark is left, and the callbacks for it.\<close>

definition marks_left :: "'a exec \<Rightarrow> nat" where
  "marks_left c = length (filter (\<lambda>cb. ex_mark c cb \<noteq> None)
     [on_header_field, on_header_value, on_url, on_body, on_status, on_query_field, on_query_value, on_fragment])"

definition exec_finish :: "'a http_parser_settings \<Rightarrow> string \<Rightarrow> 'a exec \<Rightarrow> 'a flow" where
  "exec_finish S data c =
     (if 1 < marks_left c then Abort
      else
        CALLBACK_DATA_NOADVANCE S data on_header_field c (\<lambda>c.
        CALLBACK_DATA_NOADVANCE S data on_header_value c (\<lambda>c.
        CALLBACK_DATA_NOADVANCE S data on_url c (\<lambda>c.
        CALLBACK_DATA_NOADVANCE S data on_body c (\<lambda>c.
        CALLBACK_DATA_NOADVANCE S data on_status c (\<lambda>c.
        CALLBACK_DATA_NOADVANCE S data on_query_field c (\<lambda>c.
        CALLBACK_DATA_NOADVANCE S data on_query_value c (\<lambda>c.
        CALLBACK_DATA_NOADVANCE S data on_fragment c (\<lambda>c. Return (length data) c)))))))))"

section \<open>What a step leaves\<close>

text \<open>\<open>P\<close> where the loop goes on, \<open>Q\<close> on the way out, \<open>A\<close> where an assertion fails.\<close>

definition flow_post :: "bool \<Rightarrow> ('a exec \<Rightarrow> bool) \<Rightarrow> ('a exec \<Rightarrow> bool) \<Rightarrow> 'a flow \<Rightarrow> bool" where
  "flow_post A P Q fl = (case fl of Next c \<Rightarrow> P c | Return n c \<Rightarrow> Q c | Error c \<Rightarrow> Q c | Abort \<Rightarrow> A)"

named_theorems flow_simps \<open>the macros under \<^term>\<open>flow_post\<close>\<close>

lemma flow_post_simps [simp]:
  "flow_post A P Q (Next c) = P c"
  "flow_post A P Q (Return n c) = Q c"
  "flow_post A P Q (Error c) = Q c"
  "flow_post A P Q Abort = A"
  "flow_post A P Q (fail e c) = Q (SET_ERRNO e c)"
  by (simp_all add: flow_post_def fail_def)

lemma flow_post_if [flow_simps]:
  "flow_post A P Q (if b then x else y) \<longleftrightarrow> (b \<longrightarrow> flow_post A P Q x) \<and> (\<not> b \<longrightarrow> flow_post A P Q y)"
  by simp

lemma flow_post_count [flow_simps]:
  "flow_post A P Q (COUNT_HEADER_SIZE v c k) \<longleftrightarrow>
     (let c' = c\<lparr>pr_nread := pr_nread c + of_nat v\<rparr>
      in if of_nat HTTP_MAX_HEADER_SIZE < pr_nread c' then Q (SET_ERRNO HPE_HEADER_OVERFLOW c')
         else flow_post A P Q (k c'))"
  by (simp add: COUNT_HEADER_SIZE_def Let_def)

lemma flow_post_strict [flow_simps]:
  "flow_post A P Q (STRICT_CHECK b c k) \<longleftrightarrow> (if b then Q (SET_ERRNO HPE_STRICT c) else flow_post A P Q (k c))"
  by (simp add: STRICT_CHECK_def)

lemma flow_post_notify:
  assumes "pr_errno c \<noteq> HPE_OK \<Longrightarrow> A"
    and "\<And>app. Q (SET_ERRNO (HPE_CB_notify cb) (c\<lparr>ex_app := app\<rparr>))"
    and "\<And>app. flow_post A P Q (k (c\<lparr>ex_app := app\<rparr>))"
  shows "flow_post A P Q (CALLBACK_NOTIFY_er S cb er c k)"
proof -
  have "c\<lparr>ex_app := ex_app c\<rparr> = c" by simp
  with assms(3) [of "ex_app c"] have "flow_post A P Q (k c)" by simp
  with assms show ?thesis by (auto simp: CALLBACK_NOTIFY_er_def Let_def split: option.split prod.split)
qed

lemma flow_post_data:
  assumes "pr_errno c \<noteq> HPE_OK \<Longrightarrow> A"
    and "\<And>app. Q (SET_ERRNO (HPE_CB_data cb) (c\<lparr>ex_app := app\<rparr>))"
    and "\<And>app. flow_post A P Q (k (c\<lparr>ex_app := app, ex_mark := (ex_mark c)(cb := None)\<rparr>))"
  shows "flow_post A P Q (CALLBACK_DATA_er S data cb stop er c k)"
proof -
  have "c\<lparr>ex_app := ex_app c, ex_mark := (ex_mark c)(cb := None)\<rparr> = c\<lparr>ex_mark := (ex_mark c)(cb := None)\<rparr>" by simp
  with assms(3) [of "ex_app c"] have "flow_post A P Q (k (c\<lparr>ex_mark := (ex_mark c)(cb := None)\<rparr>))" by simp
  moreover from this have "ex_mark c cb = None \<Longrightarrow> flow_post A P Q (k c)" by (simp add: fun_upd_idem)
  ultimately show ?thesis using assms by (auto simp: CALLBACK_DATA_er_def Let_def split: option.split prod.split)
qed

lemmas flow_intros = flow_post_notify flow_post_data

named_theorems st_defs \<open>the branches of the switch\<close>

lemmas [st_defs] = st_dead_def add_major_def first_minor_def add_minor_def expect_def clear_message_def
  st_start_res_def st_res_or_resp_H_def st_res_first_http_major_def st_res_http_major_def st_res_http_minor_def
  st_res_first_status_code_def st_res_status_code_def st_res_status_start_def st_res_status_def st_start_req_def
  st_start_req_or_res_def st_req_method_def url_step_def st_req_spaces_before_url_def st_req_schema_def
  st_req_server_or_path_def st_req_query_string_def st_req_query_value_def st_req_fragment_def
  st_req_http_start_def st_req_first_http_major_def st_req_http_major_def st_req_http_minor_def
  st_req_line_almost_done_def

lemmas [st_defs] = st_message_done_def st_body_identity_eof_def st_headers_done_def
  st_headers_almost_done_def st_header_field_start_def st_header_value_start_def st_header_value_discard_ws_def
  finish_value_def st_header_value_lws_def st_header_value_discard_lws_def st_header_almost_done_def
  st_chunk_size_start_def st_chunk_size_def st_chunk_parameters_def st_chunk_size_almost_done_def
  st_chunk_data_almost_done_def st_chunk_data_done_def

lemmas macro_defs = CALLBACK_NOTIFY_def CALLBACK_NOTIFY_NOADVANCE_def CALLBACK_DATA_def CALLBACK_DATA_NOADVANCE_def
  goto_def SET_ERRNO_def MARK_def

section \<open>The position never goes back\<close>

abbreviation forward :: "nat \<Rightarrow> 'a flow \<Rightarrow> bool" where
  "forward n \<equiv> flow_post True (\<lambda>c. n \<le> ex_p c) (\<lambda>_. True)"

lemma header_field_loop_shorter: "header_field_loop s hi = Some (hi', rest) \<Longrightarrow> length rest \<le> length s"
  by (induction s arbitrary: hi) (fastforce split: if_splits option.splits)+

lemma header_value_loop_shorter:
  "header_value_loop s h c = V_Stop h' c' rest \<Longrightarrow> length rest \<le> length s"
proof (induction s arbitrary: h c rule: length_induct)
  case (1 s)
  show ?case
  proof (cases s)
    case (Cons ch t)
    with 1 skip_value_shorter [of ch t] show ?thesis
      by (fastforce split: if_splits value_char.splits simp: less_Suc_eq_le)
  qed (use 1 in simp)
qed

lemma forward_take_body:
  assumes "n \<le> ex_p c" "ex_p c < length data" "pr_content_length c \<noteq> 0"
  shows "n \<le> ex_p (take_body data c)"
proof -
  have "1 \<le> to_read data c" using assms by (simp add: to_read_def remaining_def unat_gt_0 Suc_le_eq)
  with assms(1) have "n \<le> ex_p c + to_read data c - 1" by linarith
  then show ?thesis by (simp add: take_body_def Let_def MARK_def)
qed

lemma forward_first_line:
  assumes "n \<le> ex_p c"
  shows "forward n (st_dead ch c)" "forward n (add_major ch c)" "forward n (first_minor s ch c)" "forward n (add_minor ch c)"
    "forward n (expect want s ch c)" "forward n (st_start_res S ch c)" "forward n (st_res_or_resp_H ch c)"
    "forward n (st_res_first_http_major ch c)" "forward n (st_res_first_status_code ch c)"
    "forward n (st_res_status_code ch c)" "forward n (st_res_status_start ch c)" "forward n (st_res_status S data ch c)"
    "forward n (st_req_http_start ch c)" "forward n (st_req_first_http_major ch c)"
    "forward n (st_req_line_almost_done ch c)" "forward n (url_step ch c)"
  using assms by (auto simp: st_defs flow_simps macro_defs Let_def intro!: flow_intros)

lemma forward_method:
  assumes "n \<le> ex_p c"
  shows "forward n (st_start_req S ch c)" "forward n (st_req_method ch c)"
  using assms by (auto simp: st_start_req_def clear_message_def st_req_method_def flow_simps macro_defs Let_def
      intro!: flow_intros split: option.split)

lemma forward_request_line:
  assumes "n \<le> ex_p c"
  shows "forward n (st_start_req_or_res S ch c)" "forward n (st_req_spaces_before_url ch c)" "forward n (st_req_schema ch c)"
    "forward n (st_req_server_or_path S data ch c)" "forward n (st_req_query_string S data ch c)"
    "forward n (st_req_query_value S data ch c)" "forward n (st_req_fragment S data ch c)"
    "forward n (st_res_http_major ch c)" "forward n (st_res_http_minor ch c)"
    "forward n (st_req_http_major ch c)" "forward n (st_req_http_minor ch c)"
  using assms by (auto simp: st_start_req_or_res_def clear_message_def st_req_spaces_before_url_def st_req_schema_def
      st_req_server_or_path_def st_req_query_string_def st_req_query_value_def st_req_fragment_def
      st_res_http_major_def st_res_http_minor_def st_req_http_major_def st_req_http_minor_def
      flow_simps macro_defs Let_def forward_method forward_first_line intro!: flow_intros)

lemma forward_message_done: "n \<le> ex_p c \<Longrightarrow> forward n (st_message_done S c)"
  by (auto simp: st_message_done_def flow_simps macro_defs intro!: flow_intros)

lemma forward_headers_done: "n \<le> ex_p c \<Longrightarrow> forward n (st_headers_done S ch c)"
  by (auto simp: st_headers_done_def flow_simps macro_defs Let_def intro!: flow_intros)

lemma forward_headers_almost_done: "n \<le> ex_p c \<Longrightarrow> forward n (st_headers_almost_done S ch c)"
  by (auto simp: st_headers_almost_done_def flow_simps macro_defs Let_def forward_message_done forward_headers_done
      intro!: flow_intros split: option.split prod.split)

lemma forward_header_field_start: "n \<le> ex_p c \<Longrightarrow> forward n (st_header_field_start S ch c)"
  by (auto simp: st_header_field_start_def flow_simps macro_defs forward_headers_almost_done)

lemma forward_header_value_start: "n \<le> ex_p c \<Longrightarrow> forward n (st_header_value_start ch c)"
  by (auto simp: st_header_value_start_def flow_simps macro_defs Let_def split: header_state.split)

lemma forward_headers:
  assumes "n \<le> ex_p c"
  shows "forward n (st_header_value_discard_ws ch c)" "forward n (st_header_value_lws S ch c)"
    "forward n (st_header_value_discard_lws S data ch c)" "forward n (st_header_almost_done ch c)"
  using assms by (auto simp: st_header_value_discard_ws_def st_header_value_lws_def st_header_value_discard_lws_def
      st_header_almost_done_def finish_value_def flow_simps macro_defs forward_header_field_start
      forward_header_value_start intro!: flow_intros)

lemma forward_header_field:
  assumes "n \<le> ex_p c" "ex_p c < length data"
  shows "forward n (st_header_field S data c)"
proof (cases "header_field_loop (drop (ex_p c) data) (pr_header_state c, pr_index c)")
  case (Some r)
  obtain hs index rest where r: "r = ((hs, index), rest)" by (metis surj_pair)
  with Some have "length rest \<le> length data - ex_p c" using header_field_loop_shorter by fastforce
  moreover from this have "rest = [] \<longrightarrow> n \<le> length data - 1" using assms by auto
  ultimately show ?thesis using assms unfolding st_header_field_def Some r
    by (auto simp: flow_simps macro_defs Let_def intro!: flow_intros)
qed (simp add: st_header_field_def)

lemma forward_header_value:
  assumes "n \<le> ex_p c" "ex_p c < length data"
  shows "forward n (st_header_value S data c)"
proof (cases "header_value_loop (drop (ex_p c) data) (pr_header_state c) c")
  case (V_Stop h c' rest)
  then have "length rest \<le> length data - ex_p c" using header_value_loop_shorter by fastforce
  then show ?thesis using assms unfolding st_header_value_def V_Stop
    by (auto simp: flow_simps macro_defs Let_def st_header_almost_done_def intro!: flow_intros)
qed (simp_all add: st_header_value_def)

lemma forward_chunks:
  assumes "n \<le> ex_p c"
  shows "forward n (st_chunk_size_start ch c)" "forward n (st_chunk_size ch c)" "forward n (st_chunk_parameters ch c)"
    "forward n (st_chunk_size_almost_done S ch c)" "forward n (st_chunk_data_almost_done S data ch c)"
    "forward n (st_chunk_data_done S ch c)"
  using assms by (auto simp: st_defs flow_simps macro_defs Let_def intro!: flow_intros)

lemma forward_body:
  assumes "n \<le> ex_p c" "ex_p c < length data"
  shows "forward n (st_body_identity S data c)" "forward n (st_chunk_data data c)" "forward n (st_body_identity_eof data c)"
  using assms by (auto simp: st_body_identity_def st_chunk_data_def st_body_identity_eof_def Let_def flow_simps
      macro_defs forward_take_body forward_message_done intro!: flow_intros)

lemma forward_state:
  assumes "n \<le> ex_p c" "ex_p c < length data"
  shows "forward n (exec_state S data ch c)"
  using assms unfolding exec_state_def
  by (cases "pr_state c"; simp only: pstate.case forward_first_line forward_method forward_request_line
      forward_message_done forward_headers_done forward_headers_almost_done forward_header_field_start
      forward_header_value_start forward_headers forward_header_field forward_header_value forward_chunks forward_body)

lemma forward_byte:
  assumes "ex_p c < length data"
  shows "forward (ex_p c) (exec_byte S data c)"
  using assms by (auto simp: exec_byte_def flow_simps Let_def forward_state)

text \<open>The loop ends because the position grows with every byte.\<close>

function exec_loop :: "'a http_parser_settings \<Rightarrow> string \<Rightarrow> 'a exec \<Rightarrow> 'a flow" where
  "exec_loop S data c =
     (if ex_p c < length data then
        (case exec_byte S data c of
           Next c' \<Rightarrow> exec_loop S data (c'\<lparr>ex_p := ex_p c' + 1\<rparr>)
         | Return n c' \<Rightarrow> Return n c'
         | Error c' \<Rightarrow> Error c'
         | Abort \<Rightarrow> Abort)
      else exec_finish S data c)"
  by pat_completeness auto

termination
proof (relation "measure (\<lambda>(S, data, c). length data - ex_p c)")
  fix S :: "'a http_parser_settings" and data c c'
  assume "ex_p c < length data" "exec_byte S data c = Next c'"
  with forward_byte [of c data S] show "((S, data, c'\<lparr>ex_p := ex_p c' + 1\<rparr>), (S, data, c)) \<in> measure (\<lambda>(S, data, c). length data - ex_p c)"
    by simp
qed simp

declare exec_loop.simps [simp del]

text \<open>A part of a field that goes on from the last buffer starts at the buffer's begin.\<close>

definition resumed_field :: "pstate \<Rightarrow> data_cb option" where
  "resumed_field s =
     (if s = s_header_field then Some on_header_field
      else if s = s_header_value then Some on_header_value
      else if s \<in> {s_req_path, s_req_schema, s_req_schema_slash, s_req_schema_slash_slash, s_req_server_start,
                   s_req_server, s_req_server_with_at} then Some on_url
      else if s \<in> {s_req_query_string_start, s_req_query_string} then Some on_query_field
      else if s \<in> {s_req_query_value_start, s_req_query_value} then Some on_query_value
      else if s \<in> {s_req_fragment_start, s_req_fragment} then Some on_fragment
      else if s = s_res_status then Some on_status
      else None)"

definition exec_start :: "http_parser \<Rightarrow> 'a \<Rightarrow> 'a exec" where
  "exec_start parser app = http_parser.extend parser (exec.fields app 0
     (case resumed_field (pr_state parser) of None \<Rightarrow> (\<lambda>_. None) | Some cb \<Rightarrow> (\<lambda>_. None)(cb := Some 0)))"

text \<open>The number returned, the parser and the application.\<close>

fun exec_result :: "'a flow \<Rightarrow> (nat \<times> http_parser \<times> 'a) outcome" where
  "exec_result (Next c) = Inr (ex_p c, the_parser c, ex_app c)"
| "exec_result (Return n c) = Inr (n, the_parser c, ex_app c)"
| "exec_result (Error c) =
     (let c' = (if pr_errno c = HPE_OK then SET_ERRNO HPE_UNKNOWN c else c)
      in Inr (ex_p c, the_parser c', ex_app c))"
| "exec_result Abort = Inl Assertion_Failed"

definition http_parser_execute ::
    "'a http_parser_settings \<Rightarrow> http_parser \<Rightarrow> 'a \<Rightarrow> string \<Rightarrow> (nat \<times> http_parser \<times> 'a) outcome" where
  "http_parser_execute S parser app data =
     (let c = exec_start parser app
      in if pr_errno parser \<noteq> HPE_OK then Inr (0, parser, app)
         else if data = [] then
           (if pr_state parser = s_body_identity_eof
            then exec_result (CALLBACK_NOTIFY_NOADVANCE S on_message_complete c (Return 0))
            else if pr_state parser \<in> {s_dead, s_start_req_or_res, s_start_res, s_start_req} then Inr (0, parser, app)
            else Inr (1, parser\<lparr>pr_errno := HPE_INVALID_EOF_STATE\<rparr>, app))
         else exec_result (exec_loop S data c))"

definition http_parser_init :: "parser_type \<Rightarrow> http_parser" where
  "http_parser_init t =
     \<lparr>pr_type = t, pr_flags = {},
      pr_state = (if t = HTTP_REQUEST then s_start_req else if t = HTTP_RESPONSE then s_start_res else s_start_req_or_res),
      pr_header_state = h_general, pr_index = 0, pr_lenient = False, pr_nread = 0, pr_content_length = 0,
      pr_http_major = 0, pr_http_minor = 0, pr_status_code = 0, pr_method = HTTP_DELETE, pr_errno = HPE_OK,
      pr_upgrade = False\<rparr>"

definition http_parser_pause :: "bool \<Rightarrow> http_parser \<Rightarrow> http_parser outcome" where
  "http_parser_pause paused parser =
     (if pr_errno parser = HPE_OK \<or> pr_errno parser = HPE_PAUSED
      then Inr (parser\<lparr>pr_errno := (if paused then HPE_PAUSED else HPE_OK)\<rparr>)
      else Inl Assertion_Failed)"

definition http_body_is_final :: "http_parser \<Rightarrow> bool" where
  "http_body_is_final parser \<longleftrightarrow> pr_state parser = s_message_done"

end
