(* ===== verification/Http_Parser_Inv.thy ===== *)
theory Http_Parser_Inv
  imports Http_Execute
begin

text \<open>
  The invariant of the parser between two buffers, and which of its assertions can fail: none but the last
  one, and that one only after a question mark or a hash.
\<close>

section \<open>The invariant\<close>

definition name_states :: "header_state set" where
  "name_states = {h_general, h_C, h_CO, h_CON, h_matching_connection, h_matching_proxy_connection,
     h_matching_content_length, h_matching_transfer_encoding, h_matching_upgrade, h_connection, h_content_length,
     h_transfer_encoding, h_upgrade}"

definition value_state :: "header_state \<Rightarrow> bool" where
  "value_state h \<longleftrightarrow> h \<noteq> h_connection \<and> h \<noteq> h_transfer_encoding"

definition method_ok :: "http_method \<Rightarrow> nat \<Rightarrow> bool" where
  "method_ok m i \<longleftrightarrow> 1 \<le> i \<and> i \<le> length (http_method_str m)"

definition chunked_ok :: "('x) http_parser_scheme \<Rightarrow> bool" where
  "chunked_ok p \<longleftrightarrow> F_CHUNKED \<in> pr_flags p \<and> pr_content_length p \<noteq> ULLONG_MAX"

text \<open>\<open>n\<close> is what \<open>nread\<close> holds where a chunk starts.\<close>

definition state_ok :: "32 word \<Rightarrow> ('x) http_parser_scheme \<Rightarrow> bool" where
  "state_ok n p \<longleftrightarrow>
     (pr_state p = s_req_method \<longrightarrow> method_ok (pr_method p) (pr_index p)) \<and>
     (pr_state p = s_header_field \<longrightarrow> pr_header_state p \<in> name_states) \<and>
     (pr_state p = s_header_value \<longrightarrow> value_state (pr_header_state p)) \<and>
     (pr_state p = s_chunk_size_start \<longrightarrow> F_CHUNKED \<in> pr_flags p \<and> pr_nread p = n) \<and>
     (pr_state p \<in> {s_chunk_size, s_chunk_parameters, s_chunk_size_almost_done} \<longrightarrow> chunked_ok p) \<and>
     (pr_state p = s_chunk_data \<longrightarrow> chunked_ok p \<and> pr_content_length p \<noteq> 0) \<and>
     (pr_state p = s_chunk_data_almost_done \<longrightarrow> F_CHUNKED \<in> pr_flags p \<and> pr_content_length p = 0) \<and>
     (pr_state p = s_chunk_data_done \<longrightarrow> F_CHUNKED \<in> pr_flags p) \<and>
     (pr_state p = s_body_identity \<longrightarrow> pr_content_length p \<noteq> 0 \<and> pr_content_length p \<noteq> ULLONG_MAX)"

definition parser_ok :: "('x) http_parser_scheme \<Rightarrow> bool" where
  "parser_ok p \<longleftrightarrow> pr_errno p = HPE_OK \<and> pr_nread p \<le> of_nat HTTP_MAX_HEADER_SIZE \<and> state_ok 0 p"

definition base_ok :: "('x) http_parser_scheme \<Rightarrow> bool" where
  "base_ok p \<longleftrightarrow> pr_errno p = HPE_OK \<and> pr_nread p \<le> of_nat HTTP_MAX_HEADER_SIZE"

text \<open>States without a condition of their own.\<close>

definition plain :: "pstate \<Rightarrow> bool" where
  "plain s \<longleftrightarrow> s \<notin> {s_req_method, s_header_field, s_header_value, s_chunk_size_start, s_chunk_size, s_chunk_parameters,
     s_chunk_size_almost_done, s_chunk_data, s_chunk_data_almost_done, s_chunk_data_done, s_body_identity}"

definition left_ok :: "'a exec \<Rightarrow> bool" where
  "left_ok c \<longleftrightarrow> pr_errno c \<noteq> HPE_OK \<or> parser_ok c"

abbreviation safe :: "'a flow \<Rightarrow> bool" where
  "safe \<equiv> flow_post False parser_ok left_ok"

lemma left_failed [simp]: "e \<noteq> HPE_OK \<Longrightarrow> left_ok (SET_ERRNO e c)"
  by (simp add: left_ok_def SET_ERRNO_def)

lemma left_errno: "pr_errno c \<noteq> HPE_OK \<Longrightarrow> left_ok (c\<lparr>ex_p := p\<rparr>)"
  by (simp add: left_ok_def)

lemma parser_ok_left: "parser_ok c \<Longrightarrow> left_ok c"
  by (simp add: left_ok_def)

lemma plain_ok: "plain (pr_state c) \<Longrightarrow> parser_ok c \<longleftrightarrow> base_ok c"
  by (auto simp: plain_def parser_ok_def base_ok_def state_ok_def)

text \<open>The condition of each of the other states.\<close>

lemma parser_ok_states:
  "pr_state c = s_req_method \<Longrightarrow> parser_ok c \<longleftrightarrow> base_ok c \<and> method_ok (pr_method c) (pr_index c)"
  "pr_state c = s_header_field \<Longrightarrow> parser_ok c \<longleftrightarrow> base_ok c \<and> pr_header_state c \<in> name_states"
  "pr_state c = s_header_value \<Longrightarrow> parser_ok c \<longleftrightarrow> base_ok c \<and> value_state (pr_header_state c)"
  "pr_state c = s_chunk_size_start \<Longrightarrow> parser_ok c \<longleftrightarrow> base_ok c \<and> F_CHUNKED \<in> pr_flags c \<and> pr_nread c = 0"
  "pr_state c = s_chunk_size \<Longrightarrow> parser_ok c \<longleftrightarrow> base_ok c \<and> chunked_ok c"
  "pr_state c = s_chunk_parameters \<Longrightarrow> parser_ok c \<longleftrightarrow> base_ok c \<and> chunked_ok c"
  "pr_state c = s_chunk_size_almost_done \<Longrightarrow> parser_ok c \<longleftrightarrow> base_ok c \<and> chunked_ok c"
  "pr_state c = s_chunk_data \<Longrightarrow> parser_ok c \<longleftrightarrow> base_ok c \<and> chunked_ok c \<and> pr_content_length c \<noteq> 0"
  "pr_state c = s_chunk_data_almost_done \<Longrightarrow> parser_ok c \<longleftrightarrow> base_ok c \<and> F_CHUNKED \<in> pr_flags c \<and> pr_content_length c = 0"
  "pr_state c = s_chunk_data_done \<Longrightarrow> parser_ok c \<longleftrightarrow> base_ok c \<and> F_CHUNKED \<in> pr_flags c"
  "pr_state c = s_body_identity \<Longrightarrow> parser_ok c \<longleftrightarrow> base_ok c \<and> pr_content_length c \<noteq> 0 \<and> pr_content_length c \<noteq> ULLONG_MAX"
  by (simp_all add: parser_ok_def base_ok_def state_ok_def)

lemma base_ok_updates [simp]:
  "base_ok (c\<lparr>pr_type := t\<rparr>) = base_ok c" "base_ok (c\<lparr>pr_flags := f\<rparr>) = base_ok c" "base_ok (c\<lparr>pr_state := s\<rparr>) = base_ok c"
  "base_ok (c\<lparr>pr_header_state := h\<rparr>) = base_ok c" "base_ok (c\<lparr>pr_index := i\<rparr>) = base_ok c"
  "base_ok (c\<lparr>pr_content_length := l\<rparr>) = base_ok c" "base_ok (c\<lparr>pr_http_major := x\<rparr>) = base_ok c"
  "base_ok (c\<lparr>pr_http_minor := x\<rparr>) = base_ok c" "base_ok (c\<lparr>pr_status_code := x\<rparr>) = base_ok c"
  "base_ok (c\<lparr>pr_method := m\<rparr>) = base_ok c" "base_ok (c\<lparr>pr_upgrade := u\<rparr>) = base_ok c"
  by (simp_all add: base_ok_def)

lemma base_ok_exec [simp]:
  "base_ok (c\<lparr>ex_app := a\<rparr>) = base_ok c" "base_ok (c\<lparr>ex_p := p\<rparr>) = base_ok c" "base_ok (c\<lparr>ex_mark := m\<rparr>) = base_ok c"
  "base_ok c \<Longrightarrow> base_ok (c\<lparr>pr_nread := 0\<rparr>)" "base_ok c \<Longrightarrow> pr_errno c = HPE_OK"
  by (simp_all add: base_ok_def)

lemma base_ok_counted: "base_ok c \<Longrightarrow> \<not> of_nat HTTP_MAX_HEADER_SIZE < v \<Longrightarrow> base_ok (c\<lparr>pr_nread := v\<rparr>)"
  by (simp add: base_ok_def not_less)

lemma plain_simps [simp]:
  "plain s_dead" "plain s_start_req_or_res" "plain s_res_or_resp_H" "plain s_start_res" "plain s_res_H" "plain s_res_HT"
  "plain s_res_HTT" "plain s_res_HTTP" "plain s_res_first_http_major" "plain s_res_http_major"
  "plain s_res_first_http_minor" "plain s_res_http_minor" "plain s_res_first_status_code" "plain s_res_status_code"
  "plain s_res_status_start" "plain s_res_status" "plain s_res_line_almost_done" "plain s_start_req"
  "plain s_req_spaces_before_url" "plain s_req_schema" "plain s_req_schema_slash" "plain s_req_schema_slash_slash"
  "plain s_req_server_start" "plain s_req_server" "plain s_req_server_with_at" "plain s_req_path"
  "plain s_req_query_string_start" "plain s_req_query_string" "plain s_req_query_value_start" "plain s_req_query_value"
  "plain s_req_fragment_start" "plain s_req_fragment" "plain s_req_http_start" "plain s_req_http_H" "plain s_req_http_HT"
  "plain s_req_http_HTT" "plain s_req_http_HTTP" "plain s_req_first_http_major" "plain s_req_http_major"
  "plain s_req_first_http_minor" "plain s_req_http_minor" "plain s_req_line_almost_done" "plain s_header_field_start"
  "plain s_header_value_discard_ws" "plain s_header_value_discard_ws_almost_done" "plain s_header_value_discard_lws"
  "plain s_header_value_start" "plain s_header_value_lws" "plain s_header_almost_done" "plain s_headers_almost_done"
  "plain s_headers_done" "plain s_body_identity_eof" "plain s_message_done"
  by (simp_all add: plain_def)

lemma plain_new_message [simp]: "plain (NEW_MESSAGE c)"
  by (simp add: NEW_MESSAGE_def start_state_def)

lemma plain_parse_url_char [simp]: "plain (parse_url_char s ch)"
  by (cases s) (simp_all add: parse_url_char_def url_server_def url_query_def url_value_def)

section \<open>Methods\<close>

lemma http_method_str_simps [simp]:
  "http_method_str HTTP_DELETE = ''DELETE''"
  "http_method_str HTTP_GET = ''GET''"
  "http_method_str HTTP_HEAD = ''HEAD''"
  "http_method_str HTTP_POST = ''POST''"
  "http_method_str HTTP_PUT = ''PUT''"
  "http_method_str HTTP_CONNECT = ''CONNECT''"
  "http_method_str HTTP_OPTIONS = ''OPTIONS''"
  "http_method_str HTTP_TRACE = ''TRACE''"
  "http_method_str HTTP_COPY = ''COPY''"
  "http_method_str HTTP_LOCK = ''LOCK''"
  "http_method_str HTTP_MKCOL = ''MKCOL''"
  "http_method_str HTTP_MOVE = ''MOVE''"
  "http_method_str HTTP_PROPFIND = ''PROPFIND''"
  "http_method_str HTTP_PROPPATCH = ''PROPPATCH''"
  "http_method_str HTTP_SEARCH = ''SEARCH''"
  "http_method_str HTTP_UNLOCK = ''UNLOCK''"
  "http_method_str HTTP_BIND = ''BIND''"
  "http_method_str HTTP_REBIND = ''REBIND''"
  "http_method_str HTTP_UNBIND = ''UNBIND''"
  "http_method_str HTTP_ACL = ''ACL''"
  "http_method_str HTTP_REPORT = ''REPORT''"
  "http_method_str HTTP_MKACTIVITY = ''MKACTIVITY''"
  "http_method_str HTTP_CHECKOUT = ''CHECKOUT''"
  "http_method_str HTTP_MERGE = ''MERGE''"
  "http_method_str HTTP_MSEARCH = ''M-SEARCH''"
  "http_method_str HTTP_NOTIFY = ''NOTIFY''"
  "http_method_str HTTP_SUBSCRIBE = ''SUBSCRIBE''"
  "http_method_str HTTP_UNSUBSCRIBE = ''UNSUBSCRIBE''"
  "http_method_str HTTP_PATCH = ''PATCH''"
  "http_method_str HTTP_PURGE = ''PURGE''"
  "http_method_str HTTP_MKCALENDAR = ''MKCALENDAR''"
  "http_method_str HTTP_LINK = ''LINK''"
  "http_method_str HTTP_UNLINK = ''UNLINK''"
  by (simp_all add: http_method_str_def HTTP_METHOD_MAP_def)

lemma first_method_ok: "first_method ch = Some m \<Longrightarrow> method_ok m 1"
  unfolding first_method_def by (drule map_of_SomeD) (auto simp: method_ok_def)

lemma method_change_ok: "method_change m i ch = Some m' \<Longrightarrow> method_ok m' (i + 1)"
  unfolding method_change_def by (drule map_of_SomeD) (auto simp: method_ok_def)

lemma method_next_ok: "method_ok m i \<Longrightarrow> ch \<noteq> NUL \<Longrightarrow> ch = lit_at (http_method_str m) i \<Longrightarrow> method_ok m (i + 1)"
  by (cases "i = length (http_method_str m)") (auto simp: method_ok_def lit_at_def)

section \<open>Every state keeps it\<close>

lemma safe_first_line:
  assumes "base_ok c" "plain (pr_state c)"
  shows "safe (st_dead ch c)" "safe (add_major ch c)" "plain s \<Longrightarrow> safe (first_minor s ch c)" "safe (add_minor ch c)"
    "plain s \<Longrightarrow> safe (expect want s ch c)" "safe (st_start_res S ch c)"
    "safe (st_res_first_http_major ch c)" "safe (st_res_first_status_code ch c)"
    "safe (st_res_status_code ch c)" "safe (st_res_status_start ch c)" "safe (st_res_status S data ch c)"
    "safe (st_req_http_start ch c)" "safe (st_req_first_http_major ch c)"
    "safe (st_req_line_almost_done ch c)" "safe (url_step ch c)"
  using assms by (auto simp: st_defs flow_simps goto_def MARK_def CALLBACK_DATA_def CALLBACK_NOTIFY_def Let_def plain_ok
      intro!: flow_intros)

lemma safe_method:
  assumes "base_ok c"
  shows "plain (pr_state c) \<Longrightarrow> safe (st_start_req S ch c)"
    "pr_state c = s_req_method \<Longrightarrow> method_ok (pr_method c) (pr_index c) \<Longrightarrow> safe (st_req_method ch c)"
    "safe (st_res_or_resp_H ch c)"
proof -
  show "safe (st_start_req S ch c)" if "plain (pr_state c)"
    using assms that by (auto simp: st_start_req_def clear_message_def flow_simps goto_def CALLBACK_NOTIFY_def Let_def
        plain_ok parser_ok_states intro!: flow_intros split: option.split dest: first_method_ok)
  show "safe (st_req_method ch c)" if "pr_state c = s_req_method" "method_ok (pr_method c) (pr_index c)"
    using assms that method_next_ok [OF that(2), of ch] method_change_ok [of "pr_method c" "pr_index c" ch]
    by (auto simp: st_req_method_def flow_simps goto_def Let_def plain_ok parser_ok_states method_ok_def
        split: option.split)
  show "safe (st_res_or_resp_H ch c)"
    using assms by (auto simp: st_res_or_resp_H_def flow_simps goto_def plain_ok parser_ok_states method_ok_def)
qed

lemma safe_request_line:
  assumes "base_ok c" "plain (pr_state c)"
  shows "safe (st_start_req_or_res S ch c)" "safe (st_req_spaces_before_url ch c)" "safe (st_req_schema ch c)"
    "safe (st_req_server_or_path S data ch c)" "safe (st_req_query_string S data ch c)"
    "safe (st_req_query_value S data ch c)" "safe (st_req_fragment S data ch c)"
    "safe (st_res_http_major ch c)" "safe (st_res_http_minor ch c)"
    "safe (st_req_http_major ch c)" "safe (st_req_http_minor ch c)"
proof -
  show "safe (st_start_req_or_res S ch c)"
    using assms by (auto simp: st_start_req_or_res_def clear_message_def flow_simps goto_def CALLBACK_NOTIFY_def Let_def
        plain_ok safe_method intro!: flow_intros)
  show "safe (st_req_spaces_before_url ch c)" "safe (st_req_schema ch c)"
    using assms by (auto simp: st_req_spaces_before_url_def st_req_schema_def flow_simps Let_def goto_def MARK_def plain_ok
        safe_first_line)
  show "safe (st_req_server_or_path S data ch c)" "safe (st_req_query_string S data ch c)"
      "safe (st_req_query_value S data ch c)" "safe (st_req_fragment S data ch c)"
    using assms by (auto simp: st_req_server_or_path_def st_req_query_string_def st_req_query_value_def
        st_req_fragment_def flow_simps goto_def MARK_def CALLBACK_DATA_def Let_def plain_ok safe_first_line intro!: flow_intros)
  show "safe (st_res_http_major ch c)" "safe (st_res_http_minor ch c)" "safe (st_req_http_major ch c)"
      "safe (st_req_http_minor ch c)"
    using assms by (auto simp: st_res_http_major_def st_res_http_minor_def st_req_http_major_def st_req_http_minor_def
        flow_simps goto_def plain_ok safe_first_line)
qed

lemma safe_message_done: "base_ok c \<Longrightarrow> safe (st_message_done S c)"
  by (auto simp: st_message_done_def flow_simps goto_def CALLBACK_NOTIFY_def plain_ok parser_ok_left intro!: flow_intros)

lemma safe_headers_done: "base_ok c \<Longrightarrow> safe (st_headers_done S ch c)"
  by (auto simp: st_headers_done_def flow_simps goto_def CALLBACK_NOTIFY_def Let_def plain_ok parser_ok_left
      parser_ok_states intro!: flow_intros)

lemma safe_headers_almost_done: "base_ok c \<Longrightarrow> safe (st_headers_almost_done S ch c)"
  by (auto simp: st_headers_almost_done_def flow_simps goto_def CALLBACK_NOTIFY_NOADVANCE_def Let_def
      safe_message_done safe_headers_done intro!: flow_intros split: option.split prod.split)

lemma first_header_state_name: "first_header_state t \<in> name_states"
  by (simp add: first_header_state_def name_states_def)

lemma safe_header_field_start:
  assumes "base_ok c" "plain (pr_state c)"
  shows "safe (st_header_field_start S ch c)"
  using assms by (auto simp: st_header_field_start_def flow_simps goto_def MARK_def plain_ok safe_headers_almost_done
      parser_ok_states first_header_state_name)

lemma safe_header_value_start: "base_ok c \<Longrightarrow> safe (st_header_value_start ch c)"
  by (auto simp: st_header_value_start_def flow_simps goto_def MARK_def Let_def parser_ok_states value_state_def
      split: header_state.split)

lemma safe_headers:
  assumes "base_ok c" "plain (pr_state c)"
  shows "safe (st_header_value_discard_ws ch c)" "safe (st_header_value_lws S ch c)"
    "safe (st_header_value_discard_lws S data ch c)" "safe (st_header_almost_done ch c)"
  using assms by (auto simp: st_header_value_discard_ws_def st_header_value_lws_def st_header_value_discard_lws_def
      st_header_almost_done_def finish_value_def flow_simps goto_def MARK_def CALLBACK_DATA_NOADVANCE_def plain_ok
      safe_header_field_start safe_header_value_start intro!: flow_intros)

lemma header_field_char_name:
  "fst hi \<in> name_states \<Longrightarrow> \<exists>hi'. header_field_char ch t hi = Some hi' \<and> fst hi' \<in> name_states"
  by (cases "fst hi") (auto simp: header_field_char_def name_states_def match_lit_def Let_def)

lemma header_field_loop_name:
  "fst hi \<in> name_states \<Longrightarrow> \<exists>hi' rest. header_field_loop s hi = Some (hi', rest) \<and> fst hi' \<in> name_states"
proof (induction s arbitrary: hi)
  case (Cons ch s)
  obtain hi' where "header_field_char ch (TOKEN ch) hi = Some hi'" "fst hi' \<in> name_states"
    using header_field_char_name [OF Cons.prems] by blast
  with Cons.IH [of hi'] Cons.prems show ?case by (cases hi) auto
qed auto

lemma safe_header_field:
  assumes "base_ok c" "pr_state c = s_header_field" "pr_header_state c \<in> name_states"
  shows "safe (st_header_field S data c)"
proof -
  obtain hi rest where loop: "header_field_loop (drop (ex_p c) data) (pr_header_state c, pr_index c) = Some (hi, rest)"
      "fst hi \<in> name_states"
    using header_field_loop_name [of "(pr_header_state c, pr_index c)" "drop (ex_p c) data"] assms(3) by (auto simp del: split_paired_Ex)
  then show ?thesis using assms(1,2)
    by (cases hi) (auto simp: st_header_field_def flow_simps goto_def Let_def CALLBACK_DATA_def plain_ok parser_ok_states base_ok_counted intro!: flow_intros)
qed

text \<open>What every character of a value keeps, the loop over the value keeps.\<close>

lemma header_value_loop_inv:
  assumes step: "\<And>ch h c. I h c \<Longrightarrow> case header_value_char ch h c of V_Go h' c' \<Rightarrow> I h' c' | V_Error c' \<Rightarrow> F c' | V_Assert \<Rightarrow> A"
    and token: "\<And>h c. I h c \<Longrightarrow> F (SET_ERRNO HPE_INVALID_HEADER_TOKEN c)"
    and I: "I h c"
  shows "case header_value_loop s h c of V_Stop h' c' rest \<Rightarrow> I h' c' \<and> (rest = [] \<or> line_end (hd rest))
     | V_Fail c' rest \<Rightarrow> F c' | V_Abort \<Rightarrow> A"
  using I
proof (induction s h c rule: header_value_loop.induct)
  case (1 s h c)
  show ?case
  proof (cases s)
    case (Cons ch t)
    show ?thesis
    proof (cases "line_end ch \<or> \<not> pr_lenient c \<and> \<not> IS_HEADER_CHAR ch")
      case False
      note go = 1(1) [OF Cons] step [OF 1(2), of ch]
      show ?thesis
      proof (cases "header_value_char ch h c")
        case (V_Go h' c')
        have "header_value_loop s h c = header_value_loop (if h = h_general then skip_value s else t) h' c'"
          using False Cons V_Go by auto
        moreover have "\<not> line_end ch" "\<not> (\<not> pr_lenient c \<and> \<not> IS_HEADER_CHAR ch)" using False by auto
        ultimately show ?thesis using go(1) [OF _ _ V_Go] go(2) V_Go by simp
      qed (use go False Cons in auto)
    qed (use 1(2) token Cons in auto)
  qed (use 1(2) in simp)
qed

text \<open>The loop over a value changes the state of the header, the index, the flags and the length only.\<close>

definition value_ok :: "'a exec \<Rightarrow> bool" where
  "value_ok c \<longleftrightarrow> base_ok c \<and> pr_state c = s_header_value"

lemma header_value_char_ok:
  assumes "value_state h" "value_ok c"
  shows "case header_value_char ch h c of V_Go h' c' \<Rightarrow> value_state h' \<and> value_ok c'
    | V_Error c' \<Rightarrow> pr_errno c' \<noteq> HPE_OK | V_Assert \<Rightarrow> False"
  using assms by (cases h) (auto simp: header_value_char_def value_state_def value_ok_def value_keyword_def match_lit_def
      value_length_def value_token_start_def value_comma_def Let_def goto_def SET_ERRNO_def)

lemma header_value_loop_ok:
  "value_state h \<Longrightarrow> value_ok c \<Longrightarrow>
   case header_value_loop s h c of V_Stop h' c' rest \<Rightarrow> (value_state h' \<and> value_ok c') \<and> (rest = [] \<or> line_end (hd rest))
     | V_Fail c' rest \<Rightarrow> pr_errno c' \<noteq> HPE_OK | V_Abort \<Rightarrow> False"
proof (rule header_value_loop_inv [where I = "\<lambda>h c. value_state h \<and> value_ok c"])
  fix ch h and c :: "'a exec" assume "value_state h \<and> value_ok c"
  then show "case header_value_char ch h c of V_Go h' c' \<Rightarrow> value_state h' \<and> value_ok c'
      | V_Error c' \<Rightarrow> pr_errno c' \<noteq> HPE_OK | V_Assert \<Rightarrow> False"
    by (intro header_value_char_ok) auto
qed (simp_all add: SET_ERRNO_def)

lemma safe_header_value:
  assumes "base_ok c" "pr_state c = s_header_value" "value_state (pr_header_state c)"
  shows "safe (st_header_value S data c)"
proof -
  have "value_ok c" using assms by (simp add: value_ok_def)
  from header_value_loop_ok [OF assms(3) this, of "drop (ex_p c) data"] show ?thesis
    by (cases "header_value_loop (drop (ex_p c) data) (pr_header_state c) c")
       (auto simp: st_header_value_def flow_simps goto_def Let_def CALLBACK_DATA_def CALLBACK_DATA_NOADVANCE_def plain_ok
         parser_ok_states base_ok_counted value_ok_def left_errno st_header_almost_done_def intro!: flow_intros)
qed

lemma unhex_small: "unhex ch = -1 \<or> (0 \<le> unhex ch \<and> unhex ch \<le> 15)"
proof -
  define xs where "xs = replicate 48 (-1) @ [0..9] @ replicate 7 (-1) @ [10..15] @ replicate 26 (-1) @ [10..15] @
    replicate 25 (-1) @ replicate 128 (0 :: int)"
  have "list_all (\<lambda>v. v = -1 \<or> (0 \<le> v \<and> v \<le> 15)) xs" by (auto simp: xs_def list_all_iff)
  moreover have "ch_num ch < length xs" by (simp add: xs_def)
  moreover have "unhex ch = xs ! ch_num ch" by (simp add: unhex_def xs_def)
  ultimately show ?thesis by (simp add: list_all_length)
qed

lemma unat_ULLONG_MAX: "unat ULLONG_MAX = 2 ^ 64 - 1"
  by (simp add: ULLONG_MAX_def unsigned_minus_1_eq_mask mask_eq_exp_minus_1)

lemma small_int_word: "0 \<le> d \<Longrightarrow> d \<le> 15 \<Longrightarrow> unat (of_int d :: 64 word) \<le> 15"
  by (cases d) (auto simp: unat_of_nat)

lemma chunk_digit:
  assumes "pr_content_length c \<le> (ULLONG_MAX - 16) div 16" "0 \<le> d" "d \<le> 15"
  shows "pr_content_length c * 16 + of_int d \<noteq> ULLONG_MAX"
proof -
  have bound: "unat ((ULLONG_MAX - 16) div 16) = 2 ^ 60 - 2" by (simp add: ULLONG_MAX_def)
  with assms(1) have le: "unat (pr_content_length c) \<le> 2 ^ 60 - 2" by (simp add: word_le_nat_alt)
  note d = small_int_word [OF assms(2,3)]
  have m: "unat (pr_content_length c * 16) = unat (pr_content_length c) * 16"
    using le by (subst unat_mult_lem [THEN iffD1]) auto
  have "unat (pr_content_length c * 16 + of_int d) = unat (pr_content_length c) * 16 + unat (of_int d :: 64 word)"
    using le d m by (subst unat_plus_simple [THEN iffD1]) (auto simp: word_le_nat_alt unat_word_ariths)
  moreover have "unat (pr_content_length c) * 16 + unat (of_int d :: 64 word) < unat ULLONG_MAX"
    using le d by (simp add: unat_ULLONG_MAX)
  ultimately show ?thesis by auto
qed

lemma safe_chunks:
  assumes "base_ok c"
  shows "pr_state c = s_chunk_size_start \<Longrightarrow> F_CHUNKED \<in> pr_flags c \<Longrightarrow> pr_nread c = 1 \<Longrightarrow> safe (st_chunk_size_start ch c)"
    "pr_state c = s_chunk_size \<Longrightarrow> chunked_ok c \<Longrightarrow> safe (st_chunk_size ch c)"
    "pr_state c = s_chunk_parameters \<Longrightarrow> chunked_ok c \<Longrightarrow> safe (st_chunk_parameters ch c)"
    "chunked_ok c \<Longrightarrow> safe (st_chunk_size_almost_done S ch c)"
    "F_CHUNKED \<in> pr_flags c \<Longrightarrow> pr_content_length c = 0 \<Longrightarrow> safe (st_chunk_data_almost_done S data ch c)"
    "F_CHUNKED \<in> pr_flags c \<Longrightarrow> safe (st_chunk_data_done S ch c)"
proof -
  have "(of_int (unhex ch) :: 64 word) \<noteq> ULLONG_MAX" if "unhex ch \<noteq> -1"
  proof
    assume "(of_int (unhex ch) :: 64 word) = ULLONG_MAX"
    moreover have "unat (of_int (unhex ch) :: 64 word) \<le> 15" using that unhex_small [of ch] small_int_word by blast
    ultimately show False by (simp add: unat_ULLONG_MAX)
  qed
  then show "safe (st_chunk_size_start ch c)"
    if "pr_state c = s_chunk_size_start" "F_CHUNKED \<in> pr_flags c" "pr_nread c = 1"
    using assms that by (auto simp: st_chunk_size_start_def flow_simps goto_def parser_ok_states chunked_ok_def)
  show "safe (st_chunk_size ch c)" if "pr_state c = s_chunk_size" "chunked_ok c"
    using assms that chunk_digit [of c "unhex ch"] unhex_small [of ch]
    by (auto simp: st_chunk_size_def flow_simps goto_def parser_ok_states chunked_ok_def not_less)
  show "safe (st_chunk_parameters ch c)" if "pr_state c = s_chunk_parameters" "chunked_ok c"
    using assms that by (auto simp: st_chunk_parameters_def flow_simps goto_def parser_ok_states chunked_ok_def)
  show "safe (st_chunk_size_almost_done S ch c)" if "chunked_ok c"
    using assms that by (auto simp: st_chunk_size_almost_done_def flow_simps goto_def parser_ok_states chunked_ok_def
        plain_ok Let_def CALLBACK_NOTIFY_def intro!: flow_intros)
  show "safe (st_chunk_data_almost_done S data ch c)" if "F_CHUNKED \<in> pr_flags c" "pr_content_length c = 0"
    using assms that by (auto simp: st_chunk_data_almost_done_def flow_simps goto_def parser_ok_states CALLBACK_DATA_def
        intro!: flow_intros)
  show "safe (st_chunk_data_done S ch c)" if "F_CHUNKED \<in> pr_flags c"
    using assms that by (auto simp: st_chunk_data_done_def flow_simps goto_def parser_ok_states CALLBACK_NOTIFY_def
        intro!: flow_intros)
qed

lemma take_body_fields [simp]:
  "base_ok (take_body data c) = base_ok c" "pr_state (take_body data c) = pr_state c"
  "pr_flags (take_body data c) = pr_flags c" "pr_errno (take_body data c) = pr_errno c"
  by (simp_all add: take_body_def Let_def MARK_def)

lemma take_body_length:
  "unat (pr_content_length (take_body data c)) = unat (pr_content_length c) - to_read data c"
proof -
  let ?n = "to_read data c"
  have n: "?n \<le> unat (pr_content_length c)" by (simp add: to_read_def)
  moreover have "unat (pr_content_length c) < 2 ^ 64" using unsigned_less [of "pr_content_length c"] by simp
  ultimately have "unat (of_nat ?n :: 64 word) = ?n" by (simp add: unat_of_nat)
  with n have "unat (pr_content_length c - of_nat ?n) = unat (pr_content_length c) - ?n"
    by (simp add: unat_sub word_le_nat_alt)
  then show ?thesis by (simp add: take_body_def Let_def MARK_def)
qed

lemma take_body_length_max: "pr_content_length c \<noteq> ULLONG_MAX \<Longrightarrow> pr_content_length (take_body data c) \<noteq> ULLONG_MAX"
proof
  assume a: "pr_content_length c \<noteq> ULLONG_MAX" and b: "pr_content_length (take_body data c) = ULLONG_MAX"
  from a have "unat (pr_content_length c) < unat ULLONG_MAX" unfolding ULLONG_MAX_def by (simp add: word_order.not_eq_extremum unat_mono)
  with take_body_length [of data c] b show False by simp
qed

lemma safe_body:
  assumes "base_ok c" "pr_content_length c \<noteq> 0" "pr_content_length c \<noteq> ULLONG_MAX"
  shows "pr_state c = s_body_identity \<Longrightarrow> safe (st_body_identity S data c)"
    "pr_state c = s_chunk_data \<Longrightarrow> F_CHUNKED \<in> pr_flags c \<Longrightarrow> safe (st_chunk_data data c)"
  using assms by (auto simp: st_body_identity_def st_chunk_data_def Let_def flow_simps goto_def parser_ok_states
      chunked_ok_def take_body_length_max safe_message_done intro!: flow_intros)

lemma safe_state:
  assumes "parser_ok c" "PARSING_HEADER (pr_state c) \<longrightarrow> \<not> of_nat HTTP_MAX_HEADER_SIZE < pr_nread c + 1"
  defines "c' \<equiv> (if PARSING_HEADER (pr_state c) then c\<lparr>pr_nread := pr_nread c + 1\<rparr> else c)"
  shows "safe (exec_state S data ch c')"
proof -
  have base: "base_ok c'" using assms by (auto simp: parser_ok_def base_ok_def base_ok_counted)
  have "state_ok 0 c" using assms(1) by (simp add: parser_ok_def)
  then show ?thesis using base unfolding c'_def
    by (cases "pr_state c"; simp add: exec_state_def state_ok_def PARSING_HEADER_def chunked_ok_def plain_ok
        safe_first_line safe_method safe_request_line safe_message_done safe_headers_done safe_headers_almost_done
        safe_header_field_start safe_header_value_start safe_headers safe_header_field safe_header_value safe_chunks
        safe_body st_body_identity_eof_def MARK_def)
qed

section \<open>Marks\<close>

text \<open>The field a state is in the middle of.\<close>

definition mark_of :: "pstate \<Rightarrow> data_cb option" where
  "mark_of s = (if s \<in> {s_body_identity, s_body_identity_eof, s_chunk_data, s_chunk_data_almost_done} then Some on_body
     else resumed_field s)"

definition quiet :: "char \<Rightarrow> bool" where
  "quiet ch \<longleftrightarrow> ch \<noteq> CHR ''?'' \<and> ch \<noteq> CHR ''#''"

definition quiet_state :: "pstate \<Rightarrow> bool" where
  "quiet_state s \<longleftrightarrow> s \<notin> {s_req_query_string_start, s_req_query_string, s_req_query_value_start, s_req_query_value,
     s_req_fragment_start, s_req_fragment}"

text \<open>No mark but that of the field.\<close>

definition clean :: "'a exec \<Rightarrow> bool" where
  "clean c \<longleftrightarrow> quiet_state (pr_state c) \<and> (\<forall>cb. ex_mark c cb \<noteq> None \<longrightarrow> mark_of (pr_state c) = Some cb)"

abbreviation unmarked :: "'a exec \<Rightarrow> bool" where
  "unmarked c \<equiv> ex_mark c = (\<lambda>_. None)"

abbreviation only :: "data_cb \<Rightarrow> 'a exec \<Rightarrow> bool" where
  "only cb c \<equiv> (\<forall>x. x \<noteq> cb \<longrightarrow> ex_mark c x = None)"

abbreviation keeps :: "'a flow \<Rightarrow> bool" where
  "keeps \<equiv> flow_post True clean (\<lambda>c. quiet_state (pr_state c))"

lemma SET_ERRNO_state [simp]: "pr_state (SET_ERRNO e c) = pr_state c"
  by (simp add: SET_ERRNO_def)

lemma clean_unmarked: "clean c \<Longrightarrow> mark_of (pr_state c) = None \<Longrightarrow> unmarked c"
  by (auto simp: clean_def)

lemma clean_only: "clean c \<Longrightarrow> mark_of (pr_state c) = Some cb \<Longrightarrow> only cb c"
  by (auto simp: clean_def)

lemma only_clear: "only cb c \<Longrightarrow> (ex_mark c)(cb := None) = (\<lambda>_. None)"
  by auto

lemma unmarked_ok: "unmarked c \<Longrightarrow> clean c \<longleftrightarrow> quiet_state (pr_state c)"
  by (simp add: clean_def)

lemma only_ok: "only cb c \<Longrightarrow> mark_of (pr_state c) = Some cb \<Longrightarrow> clean c \<longleftrightarrow> quiet_state (pr_state c)"
  by (auto simp: clean_def)

lemma only_MARK: "only cb c \<Longrightarrow> only cb (MARK cb c)" "unmarked c \<Longrightarrow> only cb (MARK cb c)"
  by (auto simp: MARK_def)

lemma MARK_state [simp]: "pr_state (MARK cb c) = pr_state c"
  by (simp add: MARK_def)

lemma quiet_simps [simp]:
  "quiet_state s_dead" "quiet_state s_start_req_or_res" "quiet_state s_res_or_resp_H" "quiet_state s_start_res"
  "quiet_state s_res_H" "quiet_state s_res_HT" "quiet_state s_res_HTT" "quiet_state s_res_HTTP"
  "quiet_state s_res_first_http_major" "quiet_state s_res_http_major" "quiet_state s_res_first_http_minor"
  "quiet_state s_res_http_minor" "quiet_state s_res_first_status_code" "quiet_state s_res_status_code"
  "quiet_state s_res_status_start" "quiet_state s_res_status" "quiet_state s_res_line_almost_done"
  "quiet_state s_start_req" "quiet_state s_req_method" "quiet_state s_req_spaces_before_url"
  "quiet_state s_req_schema" "quiet_state s_req_schema_slash" "quiet_state s_req_schema_slash_slash"
  "quiet_state s_req_server_start" "quiet_state s_req_server" "quiet_state s_req_server_with_at"
  "quiet_state s_req_path" "quiet_state s_req_http_start" "quiet_state s_req_http_H" "quiet_state s_req_http_HT"
  "quiet_state s_req_http_HTT" "quiet_state s_req_http_HTTP" "quiet_state s_req_first_http_major"
  "quiet_state s_req_http_major" "quiet_state s_req_first_http_minor" "quiet_state s_req_http_minor"
  "quiet_state s_req_line_almost_done" "quiet_state s_header_field_start" "quiet_state s_header_field"
  "quiet_state s_header_value_discard_ws" "quiet_state s_header_value_discard_ws_almost_done"
  "quiet_state s_header_value_discard_lws" "quiet_state s_header_value_start" "quiet_state s_header_value"
  "quiet_state s_header_value_lws" "quiet_state s_header_almost_done" "quiet_state s_chunk_size_start"
  "quiet_state s_chunk_size" "quiet_state s_chunk_parameters" "quiet_state s_chunk_size_almost_done"
  "quiet_state s_headers_almost_done" "quiet_state s_headers_done" "quiet_state s_chunk_data"
  "quiet_state s_chunk_data_almost_done" "quiet_state s_chunk_data_done" "quiet_state s_body_identity"
  "quiet_state s_body_identity_eof" "quiet_state s_message_done"
  by (simp_all add: quiet_state_def)

lemma loud_simps [simp]:
  "\<not> quiet_state s_req_query_string_start" "\<not> quiet_state s_req_query_string" "\<not> quiet_state s_req_query_value_start"
  "\<not> quiet_state s_req_query_value" "\<not> quiet_state s_req_fragment_start" "\<not> quiet_state s_req_fragment"
  by (simp_all add: quiet_state_def)

lemma mark_of_simps [simp]:
  "mark_of s_dead = None" "mark_of s_start_req_or_res = None" "mark_of s_res_or_resp_H = None"
  "mark_of s_start_res = None" "mark_of s_res_H = None" "mark_of s_res_HT = None" "mark_of s_res_HTT = None"
  "mark_of s_res_HTTP = None" "mark_of s_res_first_http_major = None" "mark_of s_res_http_major = None"
  "mark_of s_res_first_http_minor = None" "mark_of s_res_http_minor = None" "mark_of s_res_first_status_code = None"
  "mark_of s_res_status_code = None" "mark_of s_res_status_start = None" "mark_of s_res_status = Some on_status"
  "mark_of s_res_line_almost_done = None" "mark_of s_start_req = None" "mark_of s_req_method = None"
  "mark_of s_req_spaces_before_url = None" "mark_of s_req_schema = Some on_url"
  "mark_of s_req_schema_slash = Some on_url" "mark_of s_req_schema_slash_slash = Some on_url"
  "mark_of s_req_server_start = Some on_url" "mark_of s_req_server = Some on_url"
  "mark_of s_req_server_with_at = Some on_url" "mark_of s_req_path = Some on_url"
  "mark_of s_req_query_string_start = Some on_query_field" "mark_of s_req_query_string = Some on_query_field"
  "mark_of s_req_query_value_start = Some on_query_value" "mark_of s_req_query_value = Some on_query_value"
  "mark_of s_req_fragment_start = Some on_fragment" "mark_of s_req_fragment = Some on_fragment"
  "mark_of s_req_http_start = None" "mark_of s_req_http_H = None" "mark_of s_req_http_HT = None"
  "mark_of s_req_http_HTT = None" "mark_of s_req_http_HTTP = None" "mark_of s_req_first_http_major = None"
  "mark_of s_req_http_major = None" "mark_of s_req_first_http_minor = None" "mark_of s_req_http_minor = None"
  "mark_of s_req_line_almost_done = None" "mark_of s_header_field_start = None"
  "mark_of s_header_field = Some on_header_field" "mark_of s_header_value_discard_ws = None"
  "mark_of s_header_value_discard_ws_almost_done = None" "mark_of s_header_value_discard_lws = None"
  "mark_of s_header_value_start = None" "mark_of s_header_value = Some on_header_value"
  "mark_of s_header_value_lws = None" "mark_of s_header_almost_done = None" "mark_of s_chunk_size_start = None"
  "mark_of s_chunk_size = None" "mark_of s_chunk_parameters = None" "mark_of s_chunk_size_almost_done = None"
  "mark_of s_headers_almost_done = None" "mark_of s_headers_done = None" "mark_of s_chunk_data = Some on_body"
  "mark_of s_chunk_data_almost_done = Some on_body" "mark_of s_chunk_data_done = None"
  "mark_of s_body_identity = Some on_body" "mark_of s_body_identity_eof = Some on_body"
  "mark_of s_message_done = None"
  by (simp_all add: mark_of_def resumed_field_def)

lemma quiet_new_message [simp]: "quiet_state (NEW_MESSAGE c)"
  by (simp add: NEW_MESSAGE_def start_state_def)

lemma url_marks:
  assumes "quiet ch" "s = s_req_spaces_before_url \<or> mark_of s = Some on_url"
  shows "parse_url_char s ch = s_dead \<or> mark_of (parse_url_char s ch) = Some on_url \<and> quiet_state (parse_url_char s ch)"
  using assms by (cases s) (auto simp: quiet_def parse_url_char_def
      url_server_def)

lemma keeps_url_step:
  assumes "quiet ch" "only on_url c" "pr_state c = s_req_spaces_before_url \<or> mark_of (pr_state c) = Some on_url"
  shows "keeps (url_step ch c)"
  using url_marks [OF assms(1,3)] assms(2) by (auto simp: url_step_def flow_simps goto_def only_ok [of on_url] Let_def)

lemma keeps_first_line:
  assumes "unmarked c" "quiet_state (pr_state c)"
  shows "keeps (st_dead ch c)" "keeps (add_major ch c)" "quiet_state s \<Longrightarrow> keeps (first_minor s ch c)" "keeps (add_minor ch c)"
    "quiet_state s \<Longrightarrow> keeps (expect want s ch c)" "keeps (st_start_res S ch c)" "keeps (st_res_or_resp_H ch c)"
    "keeps (st_res_first_http_major ch c)" "keeps (st_res_first_status_code ch c)"
    "keeps (st_res_status_code ch c)" "keeps (st_res_status_start ch c)"
    "keeps (st_req_http_start ch c)" "keeps (st_req_first_http_major ch c)"
    "keeps (st_req_line_almost_done ch c)" "keeps (st_start_req S ch c)" "keeps (st_req_method ch c)"
  using assms by (auto simp: st_defs flow_simps goto_def MARK_def CALLBACK_NOTIFY_def Let_def clean_def
      intro!: flow_intros split: option.split)

lemma keeps_request_line:
  assumes "unmarked c" "quiet_state (pr_state c)"
  shows "keeps (st_start_req_or_res S ch c)" "quiet ch \<Longrightarrow> pr_state c = s_req_spaces_before_url \<Longrightarrow> keeps (st_req_spaces_before_url ch c)"
    "keeps (st_res_http_major ch c)" "keeps (st_res_http_minor ch c)"
    "keeps (st_req_http_major ch c)" "keeps (st_req_http_minor ch c)"
proof -
  show "keeps (st_start_req_or_res S ch c)" "keeps (st_res_http_major ch c)" "keeps (st_res_http_minor ch c)"
    "keeps (st_req_http_major ch c)" "keeps (st_req_http_minor ch c)"
    using assms by (auto simp: st_start_req_or_res_def clear_message_def st_res_http_major_def st_res_http_minor_def
        st_req_http_major_def st_req_http_minor_def flow_simps goto_def CALLBACK_NOTIFY_def Let_def keeps_first_line
        unmarked_ok intro!: flow_intros)
  show "keeps (st_req_spaces_before_url ch c)" if "quiet ch" "pr_state c = s_req_spaces_before_url"
    using assms that by (auto simp: st_req_spaces_before_url_def flow_simps goto_def MARK_def unmarked_ok Let_def
        intro!: keeps_url_step)
qed

lemma keeps_fields:
  assumes "quiet ch" "quiet_state (pr_state c)"
  shows "only on_status c \<Longrightarrow> pr_state c = s_res_status \<Longrightarrow> keeps (st_res_status S data ch c)"
    "only on_url c \<Longrightarrow> mark_of (pr_state c) = Some on_url \<Longrightarrow> keeps (st_req_schema ch c)"
    "only on_url c \<Longrightarrow> mark_of (pr_state c) = Some on_url \<Longrightarrow> keeps (st_req_server_or_path S data ch c)"
proof -
  show "keeps (st_res_status S data ch c)" if "only on_status c" "pr_state c = s_res_status"
    using assms that by (auto simp: st_res_status_def flow_simps goto_def CALLBACK_DATA_def only_ok [of on_status]
        unmarked_ok only_clear intro!: flow_intros)
  show "keeps (st_req_schema ch c)" if "only on_url c" "mark_of (pr_state c) = Some on_url"
    using assms that by (auto simp: st_req_schema_def flow_simps intro!: keeps_url_step)
  show "keeps (st_req_server_or_path S data ch c)" if "only on_url c" "mark_of (pr_state c) = Some on_url"
    using assms that by (auto simp: st_req_server_or_path_def flow_simps goto_def CALLBACK_DATA_def clean_def
        quiet_def intro!: flow_intros keeps_url_step)
qed

lemma keeps_message_done: "unmarked c \<Longrightarrow> keeps (st_message_done S c)"
  by (auto simp: st_message_done_def flow_simps goto_def CALLBACK_NOTIFY_def unmarked_ok intro!: flow_intros)

lemma keeps_headers_done: "unmarked c \<Longrightarrow> quiet_state (pr_state c) \<Longrightarrow> keeps (st_headers_done S ch c)"
  by (auto simp: st_headers_done_def flow_simps goto_def CALLBACK_NOTIFY_def Let_def unmarked_ok
      intro!: flow_intros)

lemma keeps_headers_almost_done: "unmarked c \<Longrightarrow> quiet_state (pr_state c) \<Longrightarrow> keeps (st_headers_almost_done S ch c)"
  by (auto simp: st_headers_almost_done_def flow_simps goto_def CALLBACK_NOTIFY_NOADVANCE_def Let_def
      keeps_message_done keeps_headers_done intro!: flow_intros split: option.split prod.split)

lemma keeps_header_field_start: "unmarked c \<Longrightarrow> quiet_state (pr_state c) \<Longrightarrow> keeps (st_header_field_start S ch c)"
  by (auto simp: st_header_field_start_def flow_simps goto_def MARK_def keeps_headers_almost_done unmarked_ok
      clean_def)

lemma keeps_header_value_start: "unmarked c \<Longrightarrow> quiet_state (pr_state c) \<Longrightarrow> keeps (st_header_value_start ch c)"
  by (auto simp: st_header_value_start_def flow_simps goto_def MARK_def Let_def clean_def split: header_state.split)

lemma keeps_headers:
  assumes "unmarked c" "quiet_state (pr_state c)"
  shows "keeps (st_header_value_discard_ws ch c)" "keeps (st_header_value_lws S ch c)"
    "keeps (st_header_value_discard_lws S data ch c)" "keeps (st_header_almost_done ch c)"
  using assms by (auto simp: st_header_value_discard_ws_def st_header_value_lws_def st_header_value_discard_lws_def
      st_header_almost_done_def finish_value_def flow_simps goto_def MARK_def CALLBACK_DATA_NOADVANCE_def unmarked_ok
      keeps_header_field_start keeps_header_value_start intro!: flow_intros)

lemma keeps_header_field:
  assumes "only on_header_field c" "pr_state c = s_header_field"
  shows "keeps (st_header_field S data c)"
proof (cases "header_field_loop (drop (ex_p c) data) (pr_header_state c, pr_index c)")
  case (Some r)
  obtain hs index rest where "r = ((hs, index), rest)" by (metis surj_pair)
  with Some show ?thesis using assms
    by (auto simp: st_header_field_def flow_simps goto_def Let_def CALLBACK_DATA_def only_ok [of on_header_field]
        unmarked_ok only_clear intro!: flow_intros)
qed (simp add: st_header_field_def)

lemma header_value_char_marks:
  assumes "pr_state c = s_header_value"
  shows "case header_value_char ch h c of V_Go h' c' \<Rightarrow> ex_mark c' = ex_mark c \<and> pr_state c' = s_header_value
    | V_Error c' \<Rightarrow> pr_state c' = s_header_value | V_Assert \<Rightarrow> True"
  using assms by (cases h) (auto simp: header_value_char_def value_keyword_def value_length_def value_comma_def
      Let_def goto_def)

lemma header_value_loop_marks:
  assumes "pr_state c = s_header_value"
  shows "case header_value_loop s h c of
      V_Stop h' c' rest \<Rightarrow> (pr_state c' = s_header_value \<and> ex_mark c' = ex_mark c) \<and> (rest = [] \<or> line_end (hd rest))
    | V_Fail c' rest \<Rightarrow> pr_state c' = s_header_value | V_Abort \<Rightarrow> True"
proof (rule header_value_loop_inv [where I = "\<lambda>h d. pr_state d = s_header_value \<and> ex_mark d = ex_mark c"])
  fix ch h and d :: "'a exec" assume "pr_state d = s_header_value \<and> ex_mark d = ex_mark c"
  with header_value_char_marks [of d ch h]
  show "case header_value_char ch h d of V_Go h' c' \<Rightarrow> pr_state c' = s_header_value \<and> ex_mark c' = ex_mark c
      | V_Error c' \<Rightarrow> pr_state c' = s_header_value | V_Assert \<Rightarrow> True"
    by (auto split: value_char.split)
qed (use assms in simp_all)

lemma keeps_header_value:
  assumes "only on_header_value c" "pr_state c = s_header_value"
  shows "keeps (st_header_value S data c)"
proof -
  note header_value_loop_marks [OF assms(2), of "drop (ex_p c) data" "pr_header_state c"]
  moreover have "ex_mark c' = ex_mark c \<Longrightarrow> only on_header_value c'" for c' :: "'a exec" using assms(1) by simp
  ultimately show ?thesis
    by (cases "header_value_loop (drop (ex_p c) data) (pr_header_state c) c")
       (auto simp: st_header_value_def flow_simps goto_def Let_def CALLBACK_DATA_def CALLBACK_DATA_NOADVANCE_def
        only_ok [of on_header_value] unmarked_ok only_clear st_header_almost_done_def intro!: flow_intros)
qed

lemma keeps_chunks:
  assumes "unmarked c" "quiet_state (pr_state c)"
  shows "keeps (st_chunk_size_start ch c)" "keeps (st_chunk_size ch c)" "keeps (st_chunk_parameters ch c)"
    "keeps (st_chunk_size_almost_done S ch c)" "keeps (st_chunk_data_done S ch c)"
  using assms by (auto simp: st_defs flow_simps goto_def CALLBACK_NOTIFY_def Let_def unmarked_ok
      intro!: flow_intros)

lemma keeps_body:
  assumes "only on_body c"
  shows "pr_state c = s_body_identity \<Longrightarrow> keeps (st_body_identity S data c)"
    "pr_state c = s_chunk_data \<Longrightarrow> keeps (st_chunk_data data c)"
    "pr_state c = s_body_identity_eof \<Longrightarrow> keeps (st_body_identity_eof data c)"
    "quiet_state (pr_state c) \<Longrightarrow> keeps (st_chunk_data_almost_done S data ch c)"
  using assms by (auto simp: st_body_identity_def st_chunk_data_def st_body_identity_eof_def
      st_chunk_data_almost_done_def take_body_def MARK_def Let_def flow_simps goto_def CALLBACK_DATA_def
      only_ok [of on_body] unmarked_ok only_clear keeps_message_done intro!: flow_intros)

lemma clean_cases:
  assumes "clean c"
  shows "quiet_state (pr_state c)" "mark_of (pr_state c) = None \<Longrightarrow> unmarked c"
    "mark_of (pr_state c) = Some cb \<Longrightarrow> only cb c"
  using assms clean_unmarked clean_only by (auto simp: clean_def)

lemma keeps_state:
  assumes "clean c" "quiet ch"
  shows "keeps (exec_state S data ch c)"
  using clean_cases [OF assms(1)] assms(2)
  by (cases "pr_state c"; simp add: exec_state_def
      keeps_first_line keeps_request_line
      keeps_fields keeps_message_done keeps_headers_done
      keeps_headers_almost_done keeps_header_field_start keeps_header_value_start
      keeps_headers keeps_header_field keeps_header_value
      keeps_chunks keeps_body)

section \<open>Runs\<close>

lemma safe_byte: "parser_ok c \<Longrightarrow> safe (exec_byte S data c)"
proof -
  assume ok: "parser_ok c"
  note state = safe_state [OF ok, of S data "data ! ex_p c"]
  show ?thesis
  proof (cases "PARSING_HEADER (pr_state c)")
    case True
    with state show ?thesis by (auto simp: exec_byte_def flow_simps Let_def)
  next
    case False
    with state show ?thesis by (simp add: exec_byte_def)
  qed
qed

lemma clean_counted [simp]: "clean (c\<lparr>pr_nread := n\<rparr>) = clean c"
  by (simp add: clean_def)

lemma keeps_byte: "clean c \<Longrightarrow> quiet (data ! ex_p c) \<Longrightarrow> keeps (exec_byte S data c)"
  using keeps_state [of c "data ! ex_p c" S data] keeps_state [of "c\<lparr>pr_nread := n\<rparr>" "data ! ex_p c" S data for n]
  by (auto simp: exec_byte_def flow_simps Let_def clean_def)

lemma clean_marks_left:
  assumes "clean c"
  shows "marks_left c \<le> 1"
proof (cases "mark_of (pr_state c)")
  case None
  from clean_unmarked [OF assms this] show ?thesis by (simp add: marks_left_def)
next
  case (Some cb)
  from clean_only [OF assms this] show ?thesis by (cases cb) (simp_all add: marks_left_def)
qed

lemma parser_ok_exec [simp]:
  "parser_ok (c\<lparr>ex_app := a\<rparr>) = parser_ok c" "parser_ok (c\<lparr>ex_mark := m\<rparr>) = parser_ok c" "parser_ok (c\<lparr>ex_p := p\<rparr>) = parser_ok c"
  by (simp_all add: parser_ok_def state_ok_def chunked_ok_def)

lemma clean_exec [simp]: "clean (c\<lparr>ex_p := p\<rparr>) = clean c"
  by (simp add: clean_def)

lemma parser_ok_errno: "parser_ok c \<Longrightarrow> pr_errno c = HPE_OK"
  by (simp add: parser_ok_def)

lemma finish_ok:
  assumes "parser_ok c"
  shows "flow_post (1 < marks_left c) (\<lambda>_. False) left_ok (exec_finish S data c)"
  using assms by (auto simp: exec_finish_def flow_simps CALLBACK_DATA_NOADVANCE_def parser_ok_errno parser_ok_left
      intro!: flow_intros)

lemma finish_quiet:
  assumes "quiet_state (pr_state c)"
  shows "flow_post True (\<lambda>_. False) (\<lambda>c. quiet_state (pr_state c)) (exec_finish S data c)"
  using assms by (auto simp: exec_finish_def flow_simps CALLBACK_DATA_NOADVANCE_def intro!: flow_intros)

lemma flow_post_next: "flow_post A P Q fl \<Longrightarrow> fl = Next c \<Longrightarrow> P c"
  by simp

lemma loop_ok: "parser_ok c \<Longrightarrow> flow_post True (\<lambda>_. False) left_ok (exec_loop S data c)"
proof (induction S data c rule: exec_loop.induct)
  case (1 S data c)
  note byte = safe_byte [OF 1(2), of S data]
  show ?case
  proof (cases "exec_byte S data c")
    case (Next c')
    with byte have "parser_ok (c'\<lparr>ex_p := ex_p c' + 1\<rparr>)" by simp
    with 1(1) [OF _ Next] finish_ok [OF 1(2), of S data] Next show ?thesis
      by (subst exec_loop.simps) (auto simp: flow_post_def split: flow.splits)
  qed (use byte finish_ok [OF 1(2), of S data] in \<open>subst exec_loop.simps; auto simp: flow_post_def split: flow.splits\<close>)+
qed

lemma loop_quiet:
  "parser_ok c \<Longrightarrow> clean c \<Longrightarrow> list_all quiet data \<Longrightarrow>
   flow_post False (\<lambda>_. False) (\<lambda>c. left_ok c \<and> quiet_state (pr_state c)) (exec_loop S data c)"
proof (induction S data c rule: exec_loop.induct)
  case (1 S data c)
  note byte = safe_byte [OF 1(2), of S data]
  show ?case
  proof (cases "ex_p c < length data")
    case True
    then have "quiet (data ! ex_p c)" using 1(4) by (simp add: list_all_length)
    note keep = keeps_byte [OF 1(3) this, of S]
    show ?thesis
    proof (cases "exec_byte S data c")
      case (Next c')
      with byte keep have "parser_ok (c'\<lparr>ex_p := ex_p c' + 1\<rparr>)" "clean (c'\<lparr>ex_p := ex_p c' + 1\<rparr>)" by simp_all
      from 1(1) [OF True Next this 1(4)] show ?thesis using True Next by (subst exec_loop.simps) simp
    qed (use True byte keep in \<open>subst exec_loop.simps; simp\<close>)+
  next
    case False
    have "\<not> 1 < marks_left c" using clean_marks_left [OF 1(3)] by simp
    with finish_ok [OF 1(2), of S data] finish_quiet [of c S data] 1(3) False show ?thesis
      by (subst exec_loop.simps) (auto simp: flow_post_def clean_def split: flow.splits)
  qed
qed

section \<open>Sequences of buffers\<close>

text \<open>What the server reads from a socket, one call for each buffer; the number returned is not used.\<close>

primrec feed :: "'a http_parser_settings \<Rightarrow> http_parser \<Rightarrow> 'a \<Rightarrow> string list \<Rightarrow> (http_parser \<times> 'a) outcome" where
  "feed S p app [] = Inr (p, app)"
| "feed S p app (data # bufs) = obind (http_parser_execute S p app data) (\<lambda>(n, p', app'). feed S p' app' bufs)"

lemma the_parser_fields [simp]:
  "pr_type (the_parser c) = pr_type c" "pr_flags (the_parser c) = pr_flags c" "pr_state (the_parser c) = pr_state c"
  "pr_header_state (the_parser c) = pr_header_state c" "pr_index (the_parser c) = pr_index c"
  "pr_lenient (the_parser c) = pr_lenient c" "pr_nread (the_parser c) = pr_nread c"
  "pr_content_length (the_parser c) = pr_content_length c" "pr_http_major (the_parser c) = pr_http_major c"
  "pr_http_minor (the_parser c) = pr_http_minor c" "pr_status_code (the_parser c) = pr_status_code c"
  "pr_method (the_parser c) = pr_method c" "pr_errno (the_parser c) = pr_errno c" "pr_upgrade (the_parser c) = pr_upgrade c"
  by (simp_all add: the_parser_def http_parser.defs)

lemma exec_start_fields [simp]:
  "pr_type (exec_start p a) = pr_type p" "pr_flags (exec_start p a) = pr_flags p" "pr_state (exec_start p a) = pr_state p"
  "pr_header_state (exec_start p a) = pr_header_state p" "pr_index (exec_start p a) = pr_index p"
  "pr_lenient (exec_start p a) = pr_lenient p" "pr_nread (exec_start p a) = pr_nread p"
  "pr_content_length (exec_start p a) = pr_content_length p" "pr_http_major (exec_start p a) = pr_http_major p"
  "pr_http_minor (exec_start p a) = pr_http_minor p" "pr_status_code (exec_start p a) = pr_status_code p"
  "pr_method (exec_start p a) = pr_method p" "pr_errno (exec_start p a) = pr_errno p" "pr_upgrade (exec_start p a) = pr_upgrade p"
  "ex_app (exec_start p a) = a" "ex_p (exec_start p a) = 0"
  "ex_mark (exec_start p a) = (case resumed_field (pr_state p) of None \<Rightarrow> (\<lambda>_. None) | Some cb \<Rightarrow> (\<lambda>_. None)(cb := Some 0))"
  by (simp_all add: exec_start_def http_parser.defs exec.defs)

lemma parser_ok_the_parser [simp]: "parser_ok (the_parser c) = parser_ok c"
  by (simp add: parser_ok_def state_ok_def chunked_ok_def)

lemma parser_ok_start [simp]: "parser_ok (exec_start p a) = parser_ok p"
  by (simp add: parser_ok_def state_ok_def chunked_ok_def)

lemma clean_start: "quiet_state (pr_state p) \<Longrightarrow> clean (exec_start p a)"
  by (auto simp: clean_def mark_of_def resumed_field_def split: option.split)

definition settled :: "http_parser \<Rightarrow> bool" where
  "settled p \<longleftrightarrow> pr_errno p \<noteq> HPE_OK \<or> parser_ok p"

lemma result_settled:
  assumes "flow_post A (\<lambda>_. False) left_ok fl" "exec_result fl = Inr (n, p, a)"
  shows "settled p"
  using assms by (cases fl) (auto simp: left_ok_def settled_def Let_def SET_ERRNO_def split: if_splits)

lemma execute_settled:
  assumes "settled p" "http_parser_execute S p a data = Inr (n, p', a')"
  shows "settled p'"
proof (cases "pr_errno p \<noteq> HPE_OK \<or> data = []")
  case True
  have "flow_post True (\<lambda>_. False) left_ok (CALLBACK_NOTIFY_NOADVANCE S on_message_complete (exec_start p a) (Return 0))"
    if "pr_errno p = HPE_OK"
    using that assms(1) by (auto simp: CALLBACK_NOTIFY_NOADVANCE_def settled_def parser_ok_left intro!: flow_intros)
  with True assms result_settled show ?thesis
    by (fastforce simp: http_parser_execute_def Let_def settled_def split: if_splits)
next
  case False
  with assms(1) have "parser_ok (exec_start p a)" by (simp add: settled_def)
  from result_settled [OF loop_ok [OF this]] assms(2) False show ?thesis by (simp add: http_parser_execute_def)
qed

lemma init_settled: "settled (http_parser_init t)"
  by (simp add: settled_def http_parser_init_def parser_ok_def state_ok_def)

lemma result_quiet:
  assumes "flow_post False (\<lambda>_. False) (\<lambda>c. left_ok c \<and> quiet_state (pr_state c)) fl"
  shows "\<exists>n p a. exec_result fl = Inr (n, p, a) \<and> settled p \<and> quiet_state (pr_state p)"
  using assms by (cases fl) (auto simp: left_ok_def settled_def Let_def SET_ERRNO_def)

lemma execute_quiet:
  assumes "settled p" "quiet_state (pr_state p)" "list_all quiet data"
  shows "\<exists>n p' a'. http_parser_execute S p a data = Inr (n, p', a') \<and> settled p' \<and> quiet_state (pr_state p')"
proof (cases "pr_errno p \<noteq> HPE_OK \<or> data = []")
  case True
  have "flow_post False (\<lambda>_. False) (\<lambda>c. left_ok c \<and> quiet_state (pr_state c))
      (CALLBACK_NOTIFY_NOADVANCE S on_message_complete (exec_start p a) (Return 0))" if "pr_errno p = HPE_OK"
    using that assms by (auto simp: CALLBACK_NOTIFY_NOADVANCE_def settled_def parser_ok_left intro!: flow_intros)
  from result_quiet [OF this] True assms show ?thesis by (auto simp: http_parser_execute_def Let_def settled_def)
next
  case False
  with assms(1) have "parser_ok (exec_start p a)" by (simp add: settled_def)
  from result_quiet [OF loop_quiet [OF this clean_start [OF assms(2)] assms(3)]] False show ?thesis
    by (simp add: http_parser_execute_def)
qed

lemma feed_quiet:
  assumes "settled q" "quiet_state (pr_state q)" "\<forall>data \<in> set bufs. \<forall>ch \<in> set data. ch \<noteq> CHR ''?'' \<and> ch \<noteq> CHR ''#''"
  shows "\<exists>p app'. feed S q a bufs = Inr (p, app')"
  using assms
proof (induction bufs arbitrary: q a)
  case (Cons data bufs)
  from Cons.prems(3) have "list_all quiet data" by (auto simp: list_all_iff quiet_def)
  from execute_quiet [OF Cons.prems(1,2) this, of S a] obtain n q' a' where
    "http_parser_execute S q a data = Inr (n, q', a')" "settled q'" "quiet_state (pr_state q')" by blast
  with Cons.IH [of q' a'] Cons.prems(3) show ?case by simp
qed simp

lemma init_quiet: "quiet_state (pr_state (http_parser_init t))"
  by (simp add: http_parser_init_def)

section \<open>Properties\<close>

text \<open>C7: what holds of the parser between two buffers, whatever they are and whatever the callbacks
  answer: either it has failed, or the bytes of the header it is in are at most 80 kB and the index, the
  state of the header, the flags and the length fit its state; so none of the assertions in the switch can
  fail.\<close>

theorem parser_invariant:
  assumes "feed S (http_parser_init t) app bufs = Inr (p, app')"
  shows "pr_errno p \<noteq> HPE_OK \<or> parser_ok p"
proof -
  have "feed S q a bufs = Inr (p, app') \<Longrightarrow> settled q \<Longrightarrow> settled p" for q a
    by (induction bufs arbitrary: q a) (auto simp: obind_eq_Inr intro: execute_settled)
  with assms init_settled show ?thesis by (auto simp: settled_def)
qed

lemma parser_invariant_witness:
  "\<exists>p. feed \<lparr>st_data = \<lambda>_. None, st_notify = \<lambda>_. None\<rparr> (http_parser_init HTTP_REQUEST) () [[CR], [LF]] = Inr (p, ()) \<and>
    (pr_errno p \<noteq> HPE_OK \<or> parser_ok p)"
proof -
  let ?S = "\<lparr>st_data = \<lambda>_. None, st_notify = \<lambda>_. None\<rparr> :: unit http_parser_settings"
  obtain p where "feed ?S (http_parser_init HTTP_REQUEST) () [[CR], [LF]] = Inr (p, ())"
    using feed_quiet [OF init_settled init_quiet, of "[[CR], [LF]]" ?S HTTP_REQUEST "()"] by auto
  with parser_invariant [OF this] show ?thesis by blast
qed

text \<open>C8: a connection on which no question mark and no hash is sent never makes the parser fail an
  assertion, in however many buffers its bytes come and whatever the callbacks answer.\<close>

theorem parser_no_abort:
  assumes "\<forall>data \<in> set bufs. \<forall>ch \<in> set data. ch \<noteq> CHR ''?'' \<and> ch \<noteq> CHR ''#''"
  shows "\<exists>p app'. feed S (http_parser_init t) app bufs = Inr (p, app')"
  by (rule feed_quiet [OF init_settled init_quiet assms])

lemma parser_no_abort_witness:
  "\<exists>p app'. feed \<lparr>st_data = \<lambda>_. None, st_notify = \<lambda>_. None\<rparr> (http_parser_init HTTP_REQUEST) () [''GET / HT'', ''TP/1.1''] =
    Inr (p, app')"
  by (rule parser_no_abort) simp

end
