(* ===== verification/Http_Request_Line.thy ===== *)
theory Http_Request_Line
  imports Http_Parser_Inv Http_Message
begin

text \<open>
  The parser under the callbacks of \<open>server/http_request.cpp\<close>: the events of a run
  over known bytes, and the request line.
\<close>

section \<open>The callbacks of \<open>HttpRequestBase\<close>\<close>

definition HttpRequestBase_settings :: "http_request http_parser_settings" where
  "HttpRequestBase_settings =
     \<lparr>st_data = (\<lambda>cb. case cb of
          on_url \<Rightarrow> Some (\<lambda>_ at r. (0, OnUrl at r))
        | on_body \<Rightarrow> Some (\<lambda>_ at r. (0, OnBody at r))
        | on_header_field \<Rightarrow> Some (\<lambda>_ at r. (0, OnHeaderField at r))
        | on_header_value \<Rightarrow> Some (\<lambda>_ at r. (0, OnHeaderValue at r))
        | on_query_field \<Rightarrow> Some (\<lambda>_ at r. (0, OnQueryField at r))
        | on_query_value \<Rightarrow> Some (\<lambda>_ at r. (0, OnQueryValue at r))
        | on_fragment \<Rightarrow> Some (\<lambda>_ at r. (0, OnFragment at r))
        | on_status \<Rightarrow> None),
      st_notify = (\<lambda>cb. case cb of
          on_message_begin \<Rightarrow> Some (\<lambda>_ r. (0, r))
        | on_headers_complete \<Rightarrow> Some (\<lambda>p r. (0, OnHeadersComplete (int (method_number (pr_method p))) r))
        | on_message_complete \<Rightarrow> Some (\<lambda>_ r. (0, OnMessageComplete r))
        | on_chunk_header \<Rightarrow> None
        | on_chunk_complete \<Rightarrow> None)\<rparr>"

text \<open>The same callbacks over any way of taking them.\<close>

fun data_event :: "data_cb \<Rightarrow> (string \<Rightarrow> http_event) option" where
  "data_event on_url = Some On_Url"
| "data_event on_body = Some On_Body"
| "data_event on_header_field = Some On_Header_Field"
| "data_event on_header_value = Some On_Header_Value"
| "data_event on_query_field = Some On_Query_Field"
| "data_event on_query_value = Some On_Query_Value"
| "data_event on_fragment = Some On_Fragment"
| "data_event on_status = None"

fun notify_event :: "notify_cb \<Rightarrow> (http_parser \<Rightarrow> http_event) option" where
  "notify_event on_message_begin = Some (\<lambda>_. On_Message_Begin)"
| "notify_event on_headers_complete = Some (\<lambda>p. On_Headers_Complete (int (method_number (pr_method p))))"
| "notify_event on_message_complete = Some (\<lambda>_. On_Message_Complete)"
| "notify_event on_chunk_header = None"
| "notify_event on_chunk_complete = None"

definition event_settings :: "(http_event \<Rightarrow> 'a \<Rightarrow> 'a) \<Rightarrow> 'a http_parser_settings" where
  "event_settings h =
     \<lparr>st_data = (\<lambda>cb. map_option (\<lambda>e _ at a. (0, h (e at) a)) (data_event cb)),
      st_notify = (\<lambda>cb. map_option (\<lambda>e p a. (0, h (e p) a)) (notify_event cb))\<rparr>"

lemma HttpRequestBase_settings_events: "HttpRequestBase_settings = event_settings on_event"
proof -
  have "st_data HttpRequestBase_settings cb = st_data (event_settings on_event) cb" for cb
    by (cases cb) (simp_all add: HttpRequestBase_settings_def event_settings_def)
  moreover have "st_notify HttpRequestBase_settings cb = st_notify (event_settings on_event) cb" for cb
    by (cases cb) (simp_all add: HttpRequestBase_settings_def event_settings_def)
  ultimately show ?thesis by (intro http_parser_settings.equality ext) auto
qed

lemma notify_events [simp]:
  "pr_errno c = HPE_OK \<Longrightarrow> CALLBACK_NOTIFY_er (event_settings h) on_message_begin er c k = k (c\<lparr>ex_app := h On_Message_Begin (ex_app c)\<rparr>)"
  "pr_errno c = HPE_OK \<Longrightarrow> CALLBACK_NOTIFY_er (event_settings h) on_message_complete er c k = k (c\<lparr>ex_app := h On_Message_Complete (ex_app c)\<rparr>)"
  by (simp_all add: CALLBACK_NOTIFY_er_def event_settings_def)

lemma data_events:
  "pr_errno c = HPE_OK \<Longrightarrow> ex_mark c cb = Some m \<Longrightarrow> data_event cb = Some e \<Longrightarrow>
   CALLBACK_DATA_er (event_settings h) data cb stop er c k =
     k (c\<lparr>ex_app := h (e (take (stop - m) (drop m data))) (ex_app c), ex_mark := (ex_mark c)(cb := None)\<rparr>)"
  by (simp add: CALLBACK_DATA_er_def event_settings_def)

lemma no_mark [simp]: "pr_errno c = HPE_OK \<Longrightarrow> ex_mark c cb = None \<Longrightarrow> CALLBACK_DATA_er S data cb stop er c k = k c"
  by (simp add: CALLBACK_DATA_er_def)

lemma headers_complete_event [simp]:
  "st_notify (event_settings h) on_headers_complete =
     Some (\<lambda>p a. (0, h (On_Headers_Complete (int (method_number (pr_method p)))) a))"
  by (simp add: event_settings_def)

section \<open>Runs over known bytes\<close>

lemma count_ok:
  assumes "pr_nread c = of_nat n" "n + v \<le> HTTP_MAX_HEADER_SIZE"
  shows "COUNT_HEADER_SIZE v c k = k (c\<lparr>pr_nread := of_nat (n + v)\<rparr>)"
proof -
  have "n + v < 2 ^ 32" "HTTP_MAX_HEADER_SIZE < 2 ^ 32" using assms(2) by (simp_all add: HTTP_MAX_HEADER_SIZE_def)
  then have "\<not> (of_nat HTTP_MAX_HEADER_SIZE :: 32 word) < of_nat (n + v)"
    using assms(2) by (simp add: word_less_nat_alt unat_of_nat del: of_nat_add)
  then show ?thesis using assms(1) by (simp add: COUNT_HEADER_SIZE_def Let_def)
qed

text \<open>A byte of the header at its place.\<close>

lemma header_byte:
  assumes "ex_p c = length pre" "data = pre @ ch # post" "PARSING_HEADER (pr_state c)"
    and "pr_nread c = of_nat n" "n < HTTP_MAX_HEADER_SIZE"
  shows "exec_loop S data c =
    (case exec_state S data ch (c\<lparr>pr_nread := of_nat (n + 1)\<rparr>) of
       Next c' \<Rightarrow> exec_loop S data (c'\<lparr>ex_p := ex_p c' + 1\<rparr>)
     | Return n c' \<Rightarrow> Return n c' | Error c' \<Rightarrow> Error c' | Abort \<Rightarrow> Abort)"
proof -
  have "exec_byte S data c = exec_state S data ch (c\<lparr>pr_nread := of_nat (n + 1)\<rparr>)"
    using assms count_ok [OF assms(4), of 1] by (simp add: exec_byte_def)
  then show ?thesis using assms(1,2) by (subst exec_loop.simps) simp
qed

primrec run_bytes :: "'a http_parser_settings \<Rightarrow> string \<Rightarrow> string \<Rightarrow> 'a exec \<Rightarrow> 'a exec option" where
  "run_bytes S data [] c = Some c"
| "run_bytes S data (ch # s) c =
     (if PARSING_HEADER (pr_state c) then
        (case exec_state S data ch (c\<lparr>pr_nread := pr_nread c + 1\<rparr>) of
           Next c' \<Rightarrow>
             if ex_p c' = ex_p c \<and> pr_nread c' = pr_nread c + 1 then run_bytes S data s (c'\<lparr>ex_p := ex_p c' + 1\<rparr>) else None
         | _ \<Rightarrow> None)
      else None)"

lemma run_bytes_loop:
  "run_bytes S data seg c = Some c' \<Longrightarrow> ex_p c = length pre \<Longrightarrow> data = pre @ seg @ post \<Longrightarrow> pr_nread c = of_nat n \<Longrightarrow>
   n + length seg \<le> HTTP_MAX_HEADER_SIZE \<Longrightarrow> exec_loop S data c = exec_loop S data c'"
proof (induction seg arbitrary: c pre n)
  case (Cons ch seg)
  from Cons.prems(1) obtain d where d: "exec_state S data ch (c\<lparr>pr_nread := pr_nread c + 1\<rparr>) = Next d" "ex_p d = ex_p c"
      "pr_nread d = pr_nread c + 1" "PARSING_HEADER (pr_state c)" "run_bytes S data seg (d\<lparr>ex_p := ex_p d + 1\<rparr>) = Some c'"
    by (auto split: if_splits flow.splits)
  have "exec_loop S data c = exec_loop S data (d\<lparr>ex_p := ex_p d + 1\<rparr>)"
    using header_byte [of c pre data ch "seg @ post" n S] Cons.prems d by (simp add: add.commute)
  also have "\<dots> = exec_loop S data c'"
    by (rule Cons.IH [OF d(5), of "pre @ [ch]" "n + 1"]) (use Cons.prems d in \<open>simp_all add: add.commute\<close>)
  finally show ?case .
qed simp

text \<open>
  The parser in the first buffer of a connection: at byte \<open>n\<close>, with \<open>r\<close> bytes of the header counted.
\<close>

definition spot :: "nat \<Rightarrow> nat \<Rightarrow> pstate \<Rightarrow> header_state \<Rightarrow> nat \<Rightarrow> parser_flag set \<Rightarrow> 64 word \<Rightarrow> nat \<times> nat \<Rightarrow>
    http_method \<Rightarrow> (data_cb \<Rightarrow> nat option) \<Rightarrow> 'a \<Rightarrow> 'a exec" where
  "spot n r s hs i fl cl ver m mk app =
     \<lparr>pr_type = HTTP_REQUEST, pr_flags = fl, pr_state = s, pr_header_state = hs, pr_index = i, pr_lenient = False,
      pr_nread = of_nat r, pr_content_length = cl, pr_http_major = fst ver, pr_http_minor = snd ver,
      pr_status_code = 0, pr_method = m, pr_errno = HPE_OK, pr_upgrade = False,
      ex_app = app, ex_p = n, ex_mark = mk\<rparr>"

abbreviation "at_byte n \<equiv> spot n n"

lemma spot_fields [simp]:
  "ex_p (spot n r s hs i fl cl ver m mk app) = n" "pr_state (spot n r s hs i fl cl ver m mk app) = s"
  "pr_errno (spot n r s hs i fl cl ver m mk app) = HPE_OK" "ex_mark (spot n r s hs i fl cl ver m mk app) = mk"
  "pr_method (spot n r s hs i fl cl ver m mk app) = m" "ex_app (spot n r s hs i fl cl ver m mk app) = app"
  "pr_index (spot n r s hs i fl cl ver m mk app) = i" "pr_header_state (spot n r s hs i fl cl ver m mk app) = hs"
  "pr_http_major (spot n r s hs i fl cl ver m mk app) = fst ver" "pr_http_minor (spot n r s hs i fl cl ver m mk app) = snd ver"
  "pr_lenient (spot n r s hs i fl cl ver m mk app) = False" "pr_upgrade (spot n r s hs i fl cl ver m mk app) = False"
  "pr_type (spot n r s hs i fl cl ver m mk app) = HTTP_REQUEST" "pr_nread (spot n r s hs i fl cl ver m mk app) = of_nat r"
  "pr_flags (spot n r s hs i fl cl ver m mk app) = fl" "pr_content_length (spot n r s hs i fl cl ver m mk app) = cl"
  by (simp_all add: spot_def)

lemma spot_updates [simp]:
  "(spot n r s hs i fl cl ver m mk app)\<lparr>pr_state := s'\<rparr> = spot n r s' hs i fl cl ver m mk app"
  "(spot n r s hs i fl cl ver m mk app)\<lparr>pr_header_state := hs'\<rparr> = spot n r s hs' i fl cl ver m mk app"
  "(spot n r s hs i fl cl ver m mk app)\<lparr>pr_index := i'\<rparr> = spot n r s hs i' fl cl ver m mk app"
  "(spot n r s hs i fl cl ver m mk app)\<lparr>pr_flags := fl'\<rparr> = spot n r s hs i fl' cl ver m mk app"
  "(spot n r s hs i fl cl ver m mk app)\<lparr>pr_content_length := cl'\<rparr> = spot n r s hs i fl cl' ver m mk app"
  "(spot n r s hs i fl cl ver m mk app)\<lparr>pr_http_major := a\<rparr> = spot n r s hs i fl cl (a, snd ver) m mk app"
  "(spot n r s hs i fl cl ver m mk app)\<lparr>pr_http_minor := a\<rparr> = spot n r s hs i fl cl (fst ver, a) m mk app"
  "(spot n r s hs i fl cl ver m mk app)\<lparr>pr_method := m'\<rparr> = spot n r s hs i fl cl ver m' mk app"
  "(spot n r s hs i fl cl ver m mk app)\<lparr>ex_mark := mk'\<rparr> = spot n r s hs i fl cl ver m mk' app"
  "(spot n r s hs i fl cl ver m mk app)\<lparr>ex_app := app'\<rparr> = spot n r s hs i fl cl ver m mk app'"
  "(spot n r s hs i fl cl ver m mk app)\<lparr>ex_p := n'\<rparr> = spot n' r s hs i fl cl ver m mk app"
  "(spot n r s hs i fl cl ver m mk app)\<lparr>pr_nread := 0\<rparr> = spot n 0 s hs i fl cl ver m mk app"
  "(spot n r s hs i fl cl ver m mk app)\<lparr>pr_upgrade := False\<rparr> = spot n r s hs i fl cl ver m mk app"
  by (simp_all add: spot_def)

lemma spot_step:
  assumes "drop n data = ch # rest" "PARSING_HEADER s" "n < HTTP_MAX_HEADER_SIZE"
  shows "exec_loop S data (at_byte n s hs i fl cl ver m mk app) =
    (case exec_state S data ch (spot n (n + 1) s hs i fl cl ver m mk app) of
       Next c' \<Rightarrow> exec_loop S data (c'\<lparr>ex_p := ex_p c' + 1\<rparr>)
     | Return n c' \<Rightarrow> Return n c' | Error c' \<Rightarrow> Error c' | Abort \<Rightarrow> Abort)"
proof -
  have "data = take n data @ ch # rest" "length (take n data) = n"
    using assms(1) append_take_drop_id [of n data] by (simp, metis drop_all length_take list.distinct(1) min.absorb2 nat_le_linear)
  then show ?thesis
    using assms by (subst header_byte [where pre = "take n data" and post = rest]) (auto simp: spot_def)
qed

lemma spot_jump:
  assumes "drop n data = ch # rest" "PARSING_HEADER s" "n < HTTP_MAX_HEADER_SIZE"
    and "exec_state S data ch (spot n (n + 1) s hs i fl cl ver m mk app) = Next (spot k (k + 1) s' hs' i' fl' cl' ver' m' mk' app')"
  shows "exec_loop S data (at_byte n s hs i fl cl ver m mk app) = exec_loop S data (at_byte (k + 1) s' hs' i' fl' cl' ver' m' mk' app')"
  unfolding spot_step [OF assms(1-3)] assms(4) by simp

lemmas spot_byte = spot_jump [where k = n and n = n for n]

lemma drop_more: "drop n data = s @ t \<Longrightarrow> k = length s \<Longrightarrow> drop (n + k) data = t"
  by (metis add.commute append_eq_conv_conj drop_drop)

text \<open>The text from a mark on.\<close>

lemma marked_text: "drop m data = s @ t \<Longrightarrow> k = length s \<Longrightarrow> take k (drop m data) = s"
  by simp

lemma spot_data:
  assumes "mk cb = Some k" "data_event cb = Some e" "drop k data = s @ t" "stop = k + length s"
  shows "CALLBACK_DATA_er (event_settings h) data cb stop er (spot n r st hs i fl cl ver m mk app) f =
    f (spot n r st hs i fl cl ver m (mk(cb := None)) (h (e s) app))"
  using assms data_events [of "spot n r st hs i fl cl ver m mk app" cb k e h data stop n' f for n'] by (simp add: spot_def)

section \<open>The request line\<close>

text \<open>A method the parser takes by its first letter.\<close>

definition plain_method :: "http_method \<Rightarrow> bool" where
  "plain_method m \<longleftrightarrow> first_method (hd (http_method_str m)) = Some m \<and> m \<noteq> HTTP_CONNECT"

lemma method_str_ok: "http_method_str m \<noteq> [] \<and> NUL \<notin> set (http_method_str m) \<and> CHR '' '' \<notin> set (http_method_str m)"
  by (cases m) simp_all

lemma first_method_letter: "first_method ch = Some m \<Longrightarrow> IS_ALPHA ch \<and> \<not> line_end ch"
proof -
  assume "first_method ch = Some m"
  then have "ch \<in> set ''ABCDGHLMNOPRSTU''" unfolding first_method_def by (drule_tac map_of_SomeD) auto
  then show ?thesis by (auto simp: IS_ALPHA_def LOWER_def char_of_byte_def byte_of_def line_end_def less_eq_char_def)
qed

named_theorems step_simps \<open>one byte of a request\<close>

lemmas [step_simps] = exec_state_def PARSING_HEADER_def goto_def Let_def

lemma run_method_rest:
  "drop n data = seg @ '' '' @ rest \<Longrightarrow> http_method_str m = pref @ seg \<Longrightarrow> i = length pref \<Longrightarrow>
   n + length seg < HTTP_MAX_HEADER_SIZE \<Longrightarrow>
   exec_loop S data (at_byte n s_req_method hs i fl cl ver m mk app) =
   exec_loop S data (at_byte (n + length seg + 1) s_req_spaces_before_url hs (i + length seg + 1) fl cl ver m mk app)"
proof (induction seg arbitrary: n i pref)
  case Nil
  have "exec_loop S data (at_byte n s_req_method hs i fl cl ver m mk app) =
      exec_loop S data (at_byte (n + 1) s_req_spaces_before_url hs (i + 1) fl cl ver m mk app)"
    by (rule spot_byte [where ch = "CHR '' ''" and rest = rest])
      (use Nil in \<open>simp_all add: step_simps st_req_method_def lit_at_def\<close>)
  then show ?case by simp
next
  case (Cons ch seg)
  have ch: "ch \<noteq> NUL" "ch \<noteq> CHR '' ''" using method_str_ok [of m] Cons.prems(2) by auto
  have "exec_loop S data (at_byte n s_req_method hs i fl cl ver m mk app) =
      exec_loop S data (at_byte (n + 1) s_req_method hs (i + 1) fl cl ver m mk app)"
    by (rule spot_byte [where ch = ch and rest = "seg @ '' '' @ rest"])
      (use Cons.prems ch in \<open>simp_all add: step_simps st_req_method_def lit_at_def nth_append\<close>)
  also have "\<dots> = exec_loop S data (at_byte (n + 1 + length seg + 1) s_req_spaces_before_url hs (i + 1 + length seg + 1) fl cl ver m mk app)"
    using Cons.prems drop_more [of n data "[ch]"] by (intro Cons.IH [of _ "pref @ [ch]"]) auto
  finally show ?case by simp
qed

lemma run_method:
  assumes "data = http_method_str m @ '' '' @ rest" "plain_method m" "length (http_method_str m) < HTTP_MAX_HEADER_SIZE"
  shows "exec_loop (event_settings h) data (at_byte 0 s_start_req hs i fl cl ver m0 (\<lambda>_. None) app) =
    exec_loop (event_settings h) data (at_byte (length (http_method_str m) + 1) s_req_spaces_before_url hs
      (length (http_method_str m) + 1) {} ULLONG_MAX ver m (\<lambda>_. None) (h On_Message_Begin app))"
proof -
  obtain ch seg where str: "http_method_str m = ch # seg" using method_str_ok [of m] by (cases "http_method_str m") auto
  with assms(2) have first: "first_method ch = Some m" by (simp add: plain_method_def)
  note letter = first_method_letter [OF first]
  have "exec_loop (event_settings h) data (at_byte 0 s_start_req hs i fl cl ver m0 (\<lambda>_. None) app) =
      exec_loop (event_settings h) data (at_byte (0 + 1) s_req_method hs 1 {} ULLONG_MAX ver m (\<lambda>_. None) (h On_Message_Begin app))"
    by (rule spot_byte [where ch = ch and rest = "seg @ '' '' @ rest"])
      (use assms str first letter in \<open>simp_all add: step_simps st_start_req_def clear_message_def CALLBACK_NOTIFY_def
        line_end_def HTTP_MAX_HEADER_SIZE_def\<close>)
  also have "\<dots> = exec_loop (event_settings h) data (at_byte (0 + 1 + length seg + 1) s_req_spaces_before_url hs
      (1 + length seg + 1) {} ULLONG_MAX ver m (\<lambda>_. None) (h On_Message_Begin app))"
    using assms str by (intro run_method_rest [where pref = "[ch]" and rest = rest]) auto
  finally show ?thesis by (simp add: str)
qed

text \<open>Bytes a state takes without leaving it.\<close>

lemma run_same:
  "drop n data = seg @ rest \<Longrightarrow> PARSING_HEADER s \<Longrightarrow> n + length seg \<le> HTTP_MAX_HEADER_SIZE \<Longrightarrow>
   (\<And>ch n. ch \<in> set seg \<Longrightarrow> exec_state S data ch (spot n (n + 1) s hs i fl cl ver m mk app) =
      Next (spot n (n + 1) s hs i fl cl ver m mk app)) \<Longrightarrow>
   exec_loop S data (at_byte n s hs i fl cl ver m mk app) = exec_loop S data (at_byte (n + length seg) s hs i fl cl ver m mk app)"
proof (induction seg arbitrary: n)
  case (Cons ch seg)
  have "exec_loop S data (at_byte n s hs i fl cl ver m mk app) = exec_loop S data (at_byte (n + 1) s hs i fl cl ver m mk app)"
    by (rule spot_byte [where ch = ch and rest = "seg @ rest"]) (use Cons.prems in auto)
  also have "\<dots> = exec_loop S data (at_byte (n + 1 + length seg) s hs i fl cl ver m mk app)"
    using Cons.prems drop_more [of n data "[ch]"] by (intro Cons.IH) auto
  finally show ?case by simp
qed simp

abbreviation unmarked :: "data_cb \<Rightarrow> nat option" where
  "unmarked \<equiv> \<lambda>_. None"

lemma unmark [simp]: "unmarked(cb := None) = unmarked"
  by auto

lemma not_url_char: "\<not> IS_URL_CHAR (CHR ''?'')" "\<not> IS_URL_CHAR (CHR '' '')" "\<not> IS_URL_CHAR CR" "\<not> IS_URL_CHAR LF"
  "\<not> IS_URL_CHAR TAB" "\<not> IS_URL_CHAR (CHR 0x0C)" "\<not> IS_URL_CHAR (CHR ''#'')"
  by (simp_all add: IS_URL_CHAR_def normal_url_char_def)

lemma url_char_alive: "IS_URL_CHAR ch \<Longrightarrow> \<not> url_dead ch \<and> ch \<notin> {CHR '' '', CHR ''?'', CHR ''#'', CR, LF}"
  using not_url_char by (auto simp: url_dead_def)

lemma url_char_printable:
  assumes "32 < ch_num ch" "ch_num ch < (127 :: nat)" "ch \<noteq> CHR ''#''" "ch \<noteq> CHR ''?''"
  shows "IS_URL_CHAR ch"
proof -
  let ?n = "of_char ch :: nat"
  define d m where "d = ?n div 8" and "m = ?n mod 8"
  have n: "?n = d * 8 + m" "m < 8" by (simp_all add: d_def m_def)
  have "?n \<noteq> of_char (CHR ''#'')" "?n \<noteq> of_char (CHR ''?'')" using assms(3,4) by (metis char_of_char)+
  then have "d * 8 + m \<noteq> 35" "d * 8 + m \<noteq> 63" using n by simp_all
  moreover have "4 \<le> d" "d < 16" using n assms(1,2) by simp_all
  then have "d \<in> {4, 5, 6, 7, 8, 9, 10, 11, 12, 13, 14, 15}" by (simp, presburger)
  moreover have "m \<in> {0, 1, 2, 3, 4, 5, 6, 7}" using n(2) by (simp, presburger)
  ultimately have "bit (normal_url_char ! d) m"
    using n assms(1,2) by (auto simp: normal_url_char_def bit_0)
  then show ?thesis by (simp add: IS_URL_CHAR_def d_def m_def)
qed

definition path_ok :: "string \<Rightarrow> bool" where
  "path_ok path \<longleftrightarrow> path \<noteq> [] \<and> hd path = CHR ''/'' \<and> list_all IS_URL_CHAR (tl path)"

text \<open>A text from its first byte, up to the byte behind it or with the byte that hands it to a callback.\<close>

lemma run_marked:
  assumes "drop n data = tx @ rest" "PARSING_HEADER s0" "PARSING_HEADER s1" "n + length tx \<le> HTTP_MAX_HEADER_SIZE"
    and first: "tx \<noteq> [] \<Longrightarrow> exec_state S data (hd tx) (spot n (n + 1) s0 hs i fl cl ver m unmarked app) =
      Next (spot n (n + 1) s1 hs i fl cl ver m (unmarked(cb := Some n)) app)"
    and loop: "\<And>ch k. ch \<in> set (tl tx) \<Longrightarrow>
      exec_state S data ch (spot k (k + 1) s1 hs i fl cl ver m (unmarked(cb := Some n)) app) =
      Next (spot k (k + 1) s1 hs i fl cl ver m (unmarked(cb := Some n)) app)"
  shows "exec_loop S data (at_byte n s0 hs i fl cl ver m unmarked app) =
    exec_loop S data (at_byte (n + length tx) (if tx = [] then s0 else s1) hs i fl cl ver m
      (if tx = [] then unmarked else unmarked(cb := Some n)) app)"
proof (cases tx)
  case (Cons ch seg)
  let ?mk = "unmarked(cb := Some n)"
  have "exec_loop S data (at_byte n s0 hs i fl cl ver m unmarked app) = exec_loop S data (at_byte (n + 1) s1 hs i fl cl ver m ?mk app)"
    by (rule spot_byte [where ch = ch and rest = "seg @ rest"]) (use Cons assms first in auto)
  also have "\<dots> = exec_loop S data (at_byte (n + 1 + length seg) s1 hs i fl cl ver m ?mk app)"
    using Cons assms(1-4) drop_more [of n data "[ch]" "seg @ rest" 1] loop
    by (intro run_same [where rest = rest]) auto
  finally show ?thesis using Cons by simp
qed simp

lemma run_text:
  assumes "drop n data = tx @ t # rest" "PARSING_HEADER s0" "PARSING_HEADER s1" "n + length tx < HTTP_MAX_HEADER_SIZE"
    and first: "tx \<noteq> [] \<Longrightarrow> exec_state (event_settings h) data (hd tx) (spot n (n + 1) s0 hs i fl cl ver m unmarked app) =
      Next (spot n (n + 1) s1 hs i fl cl ver m (unmarked(cb := Some n)) app)"
    and loop: "\<And>ch k. ch \<in> set (tl tx) \<Longrightarrow>
      exec_state (event_settings h) data ch (spot k (k + 1) s1 hs i fl cl ver m (unmarked(cb := Some n)) app) =
      Next (spot k (k + 1) s1 hs i fl cl ver m (unmarked(cb := Some n)) app)"
    and last: "\<And>k. exec_state (event_settings h) data t (spot k (k + 1) (if tx = [] then s0 else s1) hs i fl cl ver m
        (if tx = [] then unmarked else unmarked(cb := Some n)) app) =
      CALLBACK_DATA (event_settings h) data cb (spot k (k + 1) s2 hs i fl cl ver m (unmarked(cb := Some (if tx = [] then k else n))) app) Next"
    and e: "data_event cb = Some e"
  shows "exec_loop (event_settings h) data (at_byte n s0 hs i fl cl ver m unmarked app) =
    exec_loop (event_settings h) data (at_byte (n + length tx + 1) s2 hs i fl cl ver m unmarked (h (e tx) app))"
proof -
  let ?run = "\<lambda>c. exec_loop (event_settings h) data c" and ?mk = "if tx = [] then unmarked else unmarked(cb := Some n)"
  have "?run (at_byte n s0 hs i fl cl ver m unmarked app) =
      ?run (at_byte (n + length tx) (if tx = [] then s0 else s1) hs i fl cl ver m ?mk app)"
    by (rule run_marked [OF assms(1-3) _ first loop]) (use assms(4) in auto)
  also have "\<dots> = ?run (at_byte (n + length tx + 1) s2 hs i fl cl ver m unmarked (h (e tx) app))"
  proof (rule spot_byte)
    show "drop (n + length tx) data = t # rest" using drop_more [of n data tx] assms(1) by simp
    have "CALLBACK_DATA_er (event_settings h) data cb (n + length tx) er
        (spot k r st hs i fl cl ver m (unmarked(cb := Some n)) app) f = f (spot k r st hs i fl cl ver m unmarked (h (e tx) app))" for k r st er f
      using assms(1) e by (subst spot_data [where k = n and e = e and s = tx]) auto
    then show "exec_state (event_settings h) data t (spot (n + length tx) (n + length tx + 1)
          (if tx = [] then s0 else s1) hs i fl cl ver m ?mk app) =
        Next (spot (n + length tx) (n + length tx + 1) s2 hs i fl cl ver m unmarked (h (e tx) app))"
      unfolding last by (cases "tx = []") (simp_all add: CALLBACK_DATA_def)
  qed (use assms in auto)
  finally show ?thesis .
qed

lemma run_path:
  assumes "drop n data = path @ t # rest" "path_ok path" "t = CHR '' '' \<or> t = CHR ''?''" "n + length path < HTTP_MAX_HEADER_SIZE"
    and "m \<noteq> HTTP_CONNECT"
  shows "exec_loop (event_settings h) data (at_byte n s_req_spaces_before_url hs i fl cl ver m unmarked app) =
    exec_loop (event_settings h) data (at_byte (n + length path + 1)
      (if t = CHR ''?'' then s_req_query_string_start else s_req_http_start) hs i fl cl ver m unmarked (h (On_Url path) app))"
proof (rule run_text [where ?s1.0 = s_req_path and cb = on_url])
  have path: "path \<noteq> []" "hd path = CHR ''/''" "\<And>ch. ch \<in> set (tl path) \<Longrightarrow> IS_URL_CHAR ch"
    using assms(2) by (auto simp: path_ok_def list_all_iff)
  show "exec_state (event_settings h) data (hd path) (spot n (n + 1) s_req_spaces_before_url hs i fl cl ver m unmarked app) =
      Next (spot n (n + 1) s_req_path hs i fl cl ver m (unmarked(on_url := Some n)) app)"
    using assms(5) path by (simp add: step_simps st_req_spaces_before_url_def url_step_def parse_url_char_def url_dead_def MARK_def)
  show "exec_state (event_settings h) data ch (spot k (k + 1) s_req_path hs i fl cl ver m (unmarked(on_url := Some n)) app) =
      Next (spot k (k + 1) s_req_path hs i fl cl ver m (unmarked(on_url := Some n)) app)" if "ch \<in> set (tl path)" for ch k
    using path(3) [OF that] url_char_alive [of ch]
    by (simp add: step_simps st_req_server_or_path_def url_step_def parse_url_char_def)
qed (use assms in \<open>auto simp: step_simps path_ok_def st_req_server_or_path_def\<close>)

definition query_key_char :: "char \<Rightarrow> bool" where
  "query_key_char ch \<longleftrightarrow> (IS_URL_CHAR ch \<or> ch = CHR ''?'') \<and> ch \<noteq> CHR ''=''"

definition query_value_char :: "char \<Rightarrow> bool" where
  "query_value_char ch \<longleftrightarrow> IS_URL_CHAR ch \<and> \<not> IS_DELIMITER ch"

lemma query_key_steps:
  assumes "list_all query_key_char k" "s = s_req_query_string_start \<or> s = s_req_query_string"
  shows "k \<noteq> [] \<Longrightarrow> exec_state S data (hd k) (spot n (n + 1) s hs i fl cl ver m unmarked app) =
      Next (spot n (n + 1) s_req_query_string hs i fl cl ver m (unmarked(on_query_field := Some n)) app)"
    and "ch \<in> set (tl k) \<Longrightarrow> exec_state S data ch (spot j (j + 1) s_req_query_string hs i fl cl ver m (unmarked(on_query_field := Some n)) app) =
      Next (spot j (j + 1) s_req_query_string hs i fl cl ver m (unmarked(on_query_field := Some n)) app)"
proof -
  have char: "ch \<noteq> CHR '' ''" "ch \<noteq> CHR ''=''" "ch \<noteq> CHR ''#''" "\<not> url_dead ch" "IS_URL_CHAR ch \<or> ch = CHR ''?''"
    if "ch \<in> set k" for ch
    using assms(1) that url_char_alive [of ch] by (auto simp: list_all_iff query_key_char_def url_dead_def)
  show "k \<noteq> [] \<Longrightarrow> exec_state S data (hd k) (spot n (n + 1) s hs i fl cl ver m unmarked app) =
      Next (spot n (n + 1) s_req_query_string hs i fl cl ver m (unmarked(on_query_field := Some n)) app)"
    using char [of "hd k"] assms(2)
    by (auto simp: step_simps st_req_query_string_def url_step_def parse_url_char_def url_query_def MARK_def)
  show "ch \<in> set (tl k) \<Longrightarrow> exec_state S data ch (spot j (j + 1) s_req_query_string hs i fl cl ver m (unmarked(on_query_field := Some n)) app) =
      Next (spot j (j + 1) s_req_query_string hs i fl cl ver m (unmarked(on_query_field := Some n)) app)"
    using char [of ch] list.set_sel(2) [of k ch]
    by (cases k) (auto simp: step_simps st_req_query_string_def url_step_def parse_url_char_def url_query_def MARK_def)
qed

lemma run_query_field:
  assumes "drop n data = k @ CHR ''='' # rest" "list_all query_key_char k" "n + length k < HTTP_MAX_HEADER_SIZE"
    and "s = s_req_query_string_start \<or> s = s_req_query_string"
  shows "exec_loop (event_settings h) data (at_byte n s hs i fl cl ver m unmarked app) =
    exec_loop (event_settings h) data (at_byte (n + length k + 1) s_req_query_value_start hs i fl cl ver m unmarked (h (On_Query_Field k) app))"
  by (rule run_text [where ?s1.0 = s_req_query_string and cb = on_query_field, OF assms(1) _ _ assms(3)
        query_key_steps(1) [OF assms(2,4)] query_key_steps(2) [OF assms(2,4)]])
    (use assms(4) in \<open>auto simp: step_simps st_req_query_string_def MARK_def\<close>)

text \<open>A key without a value ends at the space without a callback: its mark stays.\<close>

lemma run_query_bare:
  assumes "drop n data = k @ CHR '' '' # rest" "k \<noteq> []" "list_all query_key_char k" "n + length k < HTTP_MAX_HEADER_SIZE"
  shows "exec_loop S data (at_byte n s_req_query_string_start hs i fl cl ver m unmarked app) =
    exec_loop S data (at_byte (n + length k + 1) s_req_http_start hs i fl cl ver m (unmarked(on_query_field := Some n)) app)"
proof -
  let ?mk = "unmarked(on_query_field := Some n)"
  have "exec_loop S data (at_byte n s_req_query_string_start hs i fl cl ver m unmarked app) =
      exec_loop S data (at_byte (n + length k) s_req_query_string hs i fl cl ver m ?mk app)"
    using assms
    by (subst run_marked [where ?s1.0 = s_req_query_string and cb = on_query_field and tx = k, OF assms(1) _ _ _
          query_key_steps(1) [OF assms(3)] query_key_steps(2) [OF assms(3) disjI1 [OF refl]]]) (simp_all add: PARSING_HEADER_def)
  also have "\<dots> = exec_loop S data (at_byte (n + length k + 1) s_req_http_start hs i fl cl ver m ?mk app)"
    by (rule spot_byte [where ch = "CHR '' ''" and rest = rest])
      (use assms drop_more [OF assms(1) refl] in \<open>simp_all add: step_simps st_req_query_string_def MARK_def\<close>)
  finally show ?thesis .
qed

lemma run_query_value:
  assumes "drop n data = v @ t # rest" "list_all query_value_char v" "n + length v < HTTP_MAX_HEADER_SIZE"
    and "t = CHR '' '' \<or> t = CHR ''&''"
  shows "exec_loop (event_settings h) data (at_byte n s_req_query_value_start hs i fl cl ver m unmarked app) =
    exec_loop (event_settings h) data (at_byte (n + length v + 1) (if t = CHR ''&'' then s_req_query_string_start else s_req_http_start)
      hs i fl cl ver m unmarked (h (On_Query_Value v) app))"
proof (rule run_text [where ?s1.0 = s_req_query_value and cb = on_query_value])
  have char: "ch \<noteq> CHR '' ''" "ch \<noteq> CHR ''&''" "ch \<noteq> CHR ''#''" "\<not> url_dead ch" "IS_URL_CHAR ch" "\<not> IS_DELIMITER ch"
    if "ch \<in> set v" for ch
    using assms(2) that url_char_alive [of ch] by (auto simp: list_all_iff query_value_char_def IS_DELIMITER_def)
  show "exec_state (event_settings h) data (hd v) (spot n (n + 1) s_req_query_value_start hs i fl cl ver m unmarked app) =
      Next (spot n (n + 1) s_req_query_value hs i fl cl ver m (unmarked(on_query_value := Some n)) app)" if "v \<noteq> []"
    using char [of "hd v"] that
    by (auto simp: step_simps st_req_query_value_def url_step_def parse_url_char_def url_value_def MARK_def)
  show "exec_state (event_settings h) data ch (spot j (j + 1) s_req_query_value hs i fl cl ver m (unmarked(on_query_value := Some n)) app) =
      Next (spot j (j + 1) s_req_query_value hs i fl cl ver m (unmarked(on_query_value := Some n)) app)" if "ch \<in> set (tl v)" for ch j
    using char [of ch] that list.set_sel(2) [of v ch]
    by (cases v) (auto simp: step_simps st_req_query_value_def url_step_def parse_url_char_def url_value_def MARK_def)
qed (use assms in \<open>auto simp: step_simps st_req_query_value_def MARK_def\<close>)

fun pairs_text :: "(string \<times> string) list \<Rightarrow> string" where
  "pairs_text [] = []"
| "pairs_text [(k, v)] = k @ CHR ''='' # v"
| "pairs_text ((k, v) # qs) = k @ CHR ''='' # v @ CHR ''&'' # pairs_text qs"

definition pair_ok :: "string \<times> string \<Rightarrow> bool" where
  "pair_ok kv \<longleftrightarrow> list_all query_key_char (fst kv) \<and> list_all query_value_char (snd kv)"

definition query_events :: "string \<times> string \<Rightarrow> http_event list" where
  "query_events = (\<lambda>(k, v). [On_Query_Field k, On_Query_Value v])"

lemma run_pair:
  assumes "drop n data = k @ CHR ''='' # v @ t # rest" "pair_ok (k, v)" "n + length k + length v + 1 < HTTP_MAX_HEADER_SIZE"
    and "t = CHR '' '' \<or> t = CHR ''&''"
  shows "exec_loop (event_settings h) data (at_byte n s_req_query_string_start hs i fl cl ver m unmarked app) =
    exec_loop (event_settings h) data (at_byte (n + length k + length v + 2)
      (if t = CHR ''&'' then s_req_query_string_start else s_req_http_start)
      hs i fl cl ver m unmarked (fold h (query_events (k, v)) app))"
proof -
  have "exec_loop (event_settings h) data (at_byte n s_req_query_string_start hs i fl cl ver m unmarked app) =
    exec_loop (event_settings h) data (at_byte (n + length k + 1) s_req_query_value_start hs i fl cl ver m unmarked (h (On_Query_Field k) app))"
    using assms by (intro run_query_field [where rest = "v @ t # rest"]) (auto simp: pair_ok_def)
  also have "\<dots> = exec_loop (event_settings h) data (at_byte (n + length k + 1 + length v + 1)
      (if t = CHR ''&'' then s_req_query_string_start else s_req_http_start)
      hs i fl cl ver m unmarked (h (On_Query_Value v) (h (On_Query_Field k) app)))"
    using assms drop_more [of n data "k @ ''=''" "v @ t # rest" "length k + 1"]
    by (intro run_query_value [where rest = rest]) (auto simp: pair_ok_def)
  finally show ?thesis by (simp add: query_events_def add_ac)
qed

lemma run_pairs:
  "drop n data = pairs_text qs @ CHR '' '' # rest \<Longrightarrow> qs \<noteq> [] \<Longrightarrow> list_all pair_ok qs \<Longrightarrow>
   n + length (pairs_text qs) < HTTP_MAX_HEADER_SIZE \<Longrightarrow>
   exec_loop (event_settings h) data (at_byte n s_req_query_string_start hs i fl cl ver m unmarked app) =
   exec_loop (event_settings h) data (at_byte (n + length (pairs_text qs) + 1) s_req_http_start
     hs i fl cl ver m unmarked (fold h (concat (map query_events qs)) app))"
proof (induction qs arbitrary: n app rule: pairs_text.induct)
  case (2 k v)
  then show ?case using run_pair [of n data k v "CHR '' ''" rest] by (simp add: add.assoc)
next
  case (3 k v q qs)
  let ?qs = "q # qs"
  have "exec_loop (event_settings h) data (at_byte n s_req_query_string_start hs i fl cl ver m unmarked app) =
    exec_loop (event_settings h) data (at_byte (n + length k + length v + 2) s_req_query_string_start
      hs i fl cl ver m unmarked (fold h (query_events (k, v)) app))"
    using 3 run_pair [of n data k v "CHR ''&''" "pairs_text ?qs @ CHR '' '' # rest"] by simp
  also have "\<dots> = exec_loop (event_settings h) data (at_byte (n + length k + length v + 2 + length (pairs_text ?qs) + 1) s_req_http_start
      hs i fl cl ver m unmarked (fold h (concat (map query_events ?qs)) (fold h (query_events (k, v)) app)))"
    using "3.prems" drop_more [of n data "k @ ''='' @ v @ ''&''" "pairs_text ?qs @ CHR '' '' # rest" "length k + length v + 2"]
    by (intro "3.IH") (auto simp: add.assoc)
  finally show ?case by (simp add: add.assoc)
qed simp

definition query_text :: "(string \<times> string) list \<Rightarrow> string" where
  "query_text qs = (if qs = [] then [] else CHR ''?'' # pairs_text qs)"

lemma spot_nth:
  assumes "n < length data" "PARSING_HEADER s" "n < HTTP_MAX_HEADER_SIZE"
  shows "exec_loop S data (at_byte n s hs i fl cl ver m mk app) =
    (case exec_state S data (data ! n) (spot n (Suc n) s hs i fl cl ver m mk app) of
       Next c' \<Rightarrow> exec_loop S data (c'\<lparr>ex_p := ex_p c' + 1\<rparr>)
     | Return n c' \<Rightarrow> Return n c' | Error c' \<Rightarrow> Error c' | Abort \<Rightarrow> Abort)"
  using spot_step [of n data "data ! n" "drop (Suc n) data" s S] assms by (simp add: Cons_nth_drop_Suc)

lemma run_version:
  assumes "drop n data = ''HTTP/1.1'' @ crlf @ rest" "n + 10 \<le> HTTP_MAX_HEADER_SIZE"
  shows "exec_loop S data (at_byte n s_req_http_start hs i fl cl ver m mk app) =
    exec_loop S data (at_byte (n + 10) s_header_field_start hs i fl cl (1, 1) m mk app)"
proof -
  have nth: "data ! (n + k) = (''HTTP/1.1'' @ crlf @ rest) ! k" "k < length (''HTTP/1.1'' @ crlf @ rest) \<Longrightarrow> n + k < length data" for k
    using assms(1) nth_drop [of n data k] length_drop [of n data] by (auto simp: linorder_not_le intro: ccontr)
  show ?thesis
    using assms(2) nth [of 0] nth [of 1] nth [of 2] nth [of 3] nth [of 4] nth [of 5] nth [of 6] nth [of 7] nth [of 8] nth [of 9]
    by (simp add: spot_nth step_simps crlf_def eval_nat_numeral st_req_http_start_def expect_def STRICT_CHECK_def
        st_req_first_http_major_def st_req_http_major_def first_minor_def st_req_http_minor_def
        st_req_line_almost_done_def IS_NUM_def digit_of_def less_eq_char_def less_char_def)
qed

end
