(* ===== verification/Http_Request_Parse.thy ===== *)
theory Http_Request_Parse
  imports Http_Request_Line
begin

text \<open>
  A request of the shape clients send, from its first byte to its last: the events the parser makes and what they
  leave in an \<open>HttpRequest\<close> of \<open>server/http_request.cpp\<close>.
\<close>

section \<open>The name of a header\<close>

definition token_text :: "string \<Rightarrow> bool" where
  "token_text s \<longleftrightarrow> list_all (\<lambda>ch. TOKEN ch \<noteq> NUL) s"

definition special_names :: "string set" where
  "special_names = {CONNECTION, PROXY_CONNECTION, CONTENT_LENGTH, TRANSFER_ENCODING, UPGRADE}"

text \<open>The state after the lower-case name \<open>p\<close>.\<close>

definition matching :: "string \<Rightarrow> string \<Rightarrow> nat \<Rightarrow> bool" where
  "matching lit p i \<longleftrightarrow> p = take (i + 1) lit \<and> i + 1 < length lit"

definition name_read :: "string \<Rightarrow> header_state \<times> nat \<Rightarrow> bool" where
  "name_read p hi \<longleftrightarrow>
     (case fst hi of
        h_general \<Rightarrow> True
      | h_C \<Rightarrow> p = ''c'' \<and> snd hi = 0
      | h_CO \<Rightarrow> p = ''co'' \<and> snd hi = 1
      | h_CON \<Rightarrow> p = ''con'' \<and> snd hi = 2
      | h_matching_connection \<Rightarrow> matching CONNECTION p (snd hi)
      | h_matching_proxy_connection \<Rightarrow> matching PROXY_CONNECTION p (snd hi)
      | h_matching_content_length \<Rightarrow> matching CONTENT_LENGTH p (snd hi)
      | h_matching_transfer_encoding \<Rightarrow> matching TRANSFER_ENCODING p (snd hi)
      | h_matching_upgrade \<Rightarrow> matching UPGRADE p (snd hi)
      | h_connection \<Rightarrow> p = CONNECTION \<or> p = PROXY_CONNECTION
      | h_content_length \<Rightarrow> p = CONTENT_LENGTH
      | h_transfer_encoding \<Rightarrow> p = TRANSFER_ENCODING
      | h_upgrade \<Rightarrow> p = UPGRADE
      | _ \<Rightarrow> False)"

lemma matching_next:
  assumes "matching lit p i" "t \<noteq> NUL" "NUL \<notin> set lit"
    and "Q a" "matching lit (p @ [t]) (i + 1) \<Longrightarrow> Q b" "p @ [t] = lit \<Longrightarrow> Q c"
  shows "Q (match_lit lit (i + 1) t a b c)"
proof (cases "t = lit_at lit (i + 1)")
  case True
  with assms(1) have p: "p @ [t] = take (i + 2) lit" and i: "i + 1 < length lit"
    by (simp_all add: matching_def lit_at_def take_Suc_conv_app_nth nth_append)
  show ?thesis
  proof (cases "i + 2 < length lit")
    case True
    moreover from this have "i + 1 \<noteq> length lit - 1" by linarith
    ultimately show ?thesis using p i assms(5) \<open>t = _\<close> by (simp add: match_lit_def matching_def)
  next
    case False
    with i have "length lit = i + 2" by simp
    with p assms(6) \<open>t = _\<close> show ?thesis by (simp add: match_lit_def)
  qed
qed (use assms(4) in \<open>simp add: match_lit_def\<close>)

lemmas header_lits = CONNECTION_def PROXY_CONNECTION_def CONTENT_LENGTH_def TRANSFER_ENCODING_def UPGRADE_def

lemma header_lits_ok: "NUL \<notin> set CONNECTION" "NUL \<notin> set PROXY_CONNECTION" "NUL \<notin> set CONTENT_LENGTH"
  "NUL \<notin> set TRANSFER_ENCODING" "NUL \<notin> set UPGRADE"
  by (simp_all add: header_lits)

lemma TOKEN_space [simp]: "TOKEN (CHR '' '') = NUL" "TOKEN CR = NUL" "TOKEN LF = NUL" "TOKEN (CHR '':'') = NUL" "TOKEN TAB = NUL"
  by code_simp+

lemma name_read_first: "TOKEN ch \<noteq> NUL \<Longrightarrow> name_read [TOKEN ch] (first_header_state (TOKEN ch), 0)"
  by (simp add: name_read_def first_header_state_def matching_def header_lits)

lemma name_read_match:
  assumes "matching lit p i" "t \<noteq> NUL"
  shows "lit = CONNECTION \<Longrightarrow> name_read (p @ [t]) (match_lit lit (i + 1) t h_general h_matching_connection h_connection, i + 1)"
    "lit = PROXY_CONNECTION \<Longrightarrow> name_read (p @ [t]) (match_lit lit (i + 1) t h_general h_matching_proxy_connection h_connection, i + 1)"
    "lit = CONTENT_LENGTH \<Longrightarrow> name_read (p @ [t]) (match_lit lit (i + 1) t h_general h_matching_content_length h_content_length, i + 1)"
    "lit = TRANSFER_ENCODING \<Longrightarrow> name_read (p @ [t]) (match_lit lit (i + 1) t h_general h_matching_transfer_encoding h_transfer_encoding, i + 1)"
    "lit = UPGRADE \<Longrightarrow> name_read (p @ [t]) (match_lit lit (i + 1) t h_general h_matching_upgrade h_upgrade, i + 1)"
  by (rule matching_next [OF assms, where Q = "\<lambda>h. name_read (p @ [t]) (h, i + 1)"]; simp add: name_read_def header_lits_ok)+

lemma name_read_char:
  assumes "name_read p hi" "TOKEN ch \<noteq> NUL"
  shows "\<exists>hi'. header_field_char ch (TOKEN ch) hi = Some hi' \<and> name_read (p @ [TOKEN ch]) hi'"
proof -
  have ch: "ch \<noteq> CHR '' ''" using assms(2) by auto
  obtain hs i where hi: "hi = (hs, i)" by (cases hi)
  have "name_read (p @ [TOKEN ch]) (the (header_field_char ch (TOKEN ch) hi)) \<and> header_field_char ch (TOKEN ch) hi \<noteq> None"
  proof (cases "hs \<in> {h_matching_connection, h_matching_proxy_connection, h_matching_content_length,
      h_matching_transfer_encoding, h_matching_upgrade}")
    case True
    then show ?thesis using assms name_read_match [of _ p i "TOKEN ch"]
      by (auto simp: hi header_field_char_def Let_def name_read_def [of p])
  next
    case False
    then show ?thesis using assms ch
      by (cases hs) (simp_all add: hi header_field_char_def Let_def name_read_def matching_def header_lits)
  qed
  then show ?thesis by auto
qed

lemma name_read_loop:
  "name_read p hi \<Longrightarrow> token_text s \<Longrightarrow> \<exists>hi'. header_field_loop (s @ CHR '':'' # rest) hi = Some (hi', CHR '':'' # rest) \<and>
     name_read (p @ map TOKEN s) hi'"
proof (induction s arbitrary: p hi)
  case (Cons ch s)
  then have ch: "TOKEN ch \<noteq> NUL" "token_text s" by (simp_all add: token_text_def)
  obtain hi1 where "header_field_char ch (TOKEN ch) hi = Some hi1" "name_read (p @ [TOKEN ch]) hi1"
    using name_read_char [OF Cons.prems(1) ch(1)] by blast
  with Cons.IH [of "p @ [TOKEN ch]" hi1] ch show ?case by (simp del: split_paired_Ex)
qed (simp add: token_text_def del: split_paired_Ex)

text \<open>The parser knows the five names it has a meaning for, whatever their case.\<close>

definition name_state :: "string \<Rightarrow> header_state \<times> nat" where
  "name_state k = fst (the (header_field_loop (tl k @ '':'') (first_header_state (TOKEN (hd k)), 0)))"

lemma name_state:
  assumes "k \<noteq> []" "token_text k"
  shows "header_field_loop (tl k @ CHR '':'' # rest) (first_header_state (TOKEN (hd k)), 0) = Some (name_state k, CHR '':'' # rest)"
    "name_read (map TOKEN k) (name_state k)"
proof -
  obtain ch s where k: "k = ch # s" "TOKEN ch \<noteq> NUL" "token_text s" using assms by (cases k) (auto simp: token_text_def)
  note loop = name_read_loop [OF name_read_first [OF k(2)] k(3)]
  obtain hi where hi: "header_field_loop (s @ '':'') (first_header_state (TOKEN ch), 0) = Some (hi, '':'')"
      "name_read (map TOKEN k) hi"
    using loop [of "[]"] k by auto
  have "header_field_loop (s @ CHR '':'' # rest) hi0 = map_option (\<lambda>(h, r). (h, r @ rest)) (header_field_loop (s @ '':'') hi0)" for hi0
    by (induction s arbitrary: hi0) (auto split: option.split)
  with hi k show "header_field_loop (tl k @ CHR '':'' # rest) (first_header_state (TOKEN (hd k)), 0) = Some (name_state k, CHR '':'' # rest)"
    "name_read (map TOKEN k) (name_state k)" by (simp_all add: name_state_def)
qed

section \<open>A header\<close>

lemma spot_count:
  "r + v \<le> HTTP_MAX_HEADER_SIZE \<Longrightarrow>
   COUNT_HEADER_SIZE v (spot n r s hs i fl cl ver m mk app) f = f (spot n (r + v) s hs i fl cl ver m mk app)"
  by (subst count_ok [where n = r]) (simp_all add: spot_def)

lemma run_name:
  assumes "drop n data = k @ CHR '':'' # rest" "k \<noteq> []" "token_text k" "n + length k < HTTP_MAX_HEADER_SIZE"
  shows "exec_loop (event_settings h) data (at_byte n s_header_field_start hs i fl cl ver m unmarked app) =
    exec_loop (event_settings h) data (at_byte (n + length k + 1) s_header_value_discard_ws
      (fst (name_state k)) (snd (name_state k)) fl cl ver m unmarked (h (On_Header_Field k) app))"
proof -
  obtain ch s where k: "k = ch # s" "TOKEN ch \<noteq> NUL" using assms(2,3) by (cases k) (auto simp: token_text_def)
  then have ch: "ch \<noteq> CR" "ch \<noteq> LF" by auto
  let ?run = "\<lambda>c. exec_loop (event_settings h) data c" and ?mk = "unmarked(on_header_field := Some n)"
    and ?hs = "first_header_state (TOKEN ch)"
  have rest: "drop (n + 1) data = s @ CHR '':'' # rest" using drop_more [of n data "[ch]"] assms(1) k by simp
  have "?run (at_byte n s_header_field_start hs i fl cl ver m unmarked app) = ?run (at_byte (n + 1) s_header_field ?hs 0 fl cl ver m ?mk app)"
    by (rule spot_byte [where ch = ch and rest = "s @ CHR '':'' # rest"])
      (use assms k ch in \<open>simp_all add: step_simps st_header_field_start_def MARK_def\<close>)
  also have "\<dots> = ?run (at_byte (n + length k + 1) s_header_value_discard_ws
      (fst (name_state k)) (snd (name_state k)) fl cl ver m unmarked (h (On_Header_Field k) app))"
  proof -
    obtain c0 r0 where r0: "s @ CHR '':'' # rest = c0 # r0" by (cases "s @ CHR '':'' # rest") auto
    have loop: "header_field_loop (drop (Suc n) data) (?hs, 0) = Some (name_state k, CHR '':'' # rest)"
      using name_state(1) [OF assms(2,3)] k rest by simp
    have len: "length data = n + length k + 1 + length rest"
      using assms(1,2) length_drop [of n data] k by simp
    have data: "CALLBACK_DATA_er (event_settings h) data on_header_field (n + length k) er
        (spot q r st x j fl cl ver m ?mk app) f = f (spot q r st x j fl cl ver m unmarked (h (On_Header_Field k) app))" for q r st x j er f
      using assms(1) by (subst spot_data [where k = n and e = On_Header_Field and s = k]) auto
    have "?run (at_byte (n + 1) s_header_field ?hs 0 fl cl ver m ?mk app) = ?run (at_byte (n + length k + 1) s_header_value_discard_ws
        (fst (name_state k)) (snd (name_state k)) fl cl ver m unmarked (h (On_Header_Field k) app))"
      by (rule spot_jump [where ch = c0 and rest = r0])
        (use assms(4) k(1) len data loop r0 rest in
          \<open>simp_all add: step_simps st_header_field_def spot_count CALLBACK_DATA_def split_beta\<close>)
    then show ?thesis .
  qed
  finally show ?thesis .
qed

lemma lws_start:
  assumes "drop n data = ch # rest" "ch \<noteq> CHR '' ''" "ch \<noteq> TAB" "value_flags hs = {}" "n < HTTP_MAX_HEADER_SIZE"
  shows "exec_loop S data (at_byte n s_header_value_lws hs i fl cl ver m mk app) =
    exec_loop S data (at_byte n s_header_field_start hs i fl cl ver m mk app)"
proof -
  have "exec_state S data ch (spot n (n + 1) s_header_value_lws hs i fl cl ver m mk app) =
      exec_state S data ch (spot n (n + 1) s_header_field_start hs i fl cl ver m mk app)"
    using assms by (simp add: step_simps st_header_value_lws_def finish_value_def)
  then show ?thesis using assms(5) by (subst (1 2) spot_step [OF assms(1)]) (simp_all add: PARSING_HEADER_def)
qed

definition value_text :: "string \<Rightarrow> bool" where
  "value_text v \<longleftrightarrow> v \<noteq> [] \<and> hd v \<noteq> CHR '' '' \<and> hd v \<noteq> TAB \<and> list_all (\<lambda>ch. \<not> line_end ch \<and> IS_HEADER_CHAR ch) v"

lemma value_loop_general:
  assumes "list_all (\<lambda>ch. \<not> line_end ch \<and> IS_HEADER_CHAR ch) w" "length w < HTTP_MAX_HEADER_SIZE"
  shows "header_value_loop (w @ CR # rest) h_general c = V_Stop h_general c (CR # rest)"
proof (cases w)
  case (Cons ch s)
  have "CR \<in> set (take HTTP_MAX_HEADER_SIZE (w @ CR # rest))" using assms(2) by (simp add: take_Cons')
  then have "list_ex line_end (take HTTP_MAX_HEADER_SIZE (w @ CR # rest))" by (auto simp: list_ex_iff line_end_def)
  moreover have "dropWhile (\<lambda>x. \<not> line_end x) (w @ CR # rest) = CR # rest"
    using assms(1) by (subst dropWhile_append2) (auto simp: list_all_iff line_end_def)
  ultimately have "skip_value (w @ CR # rest) = CR # rest" by (simp add: skip_value_def)
  then show ?thesis using assms(1) Cons by (simp add: header_value_char_def line_end_def)
qed (simp add: line_end_def)

text \<open>The space behind the colon and the first byte of the value.\<close>

lemma run_value_start:
  assumes "drop n data = CHR '' '' # ch # rest" "n + 2 \<le> HTTP_MAX_HEADER_SIZE"
    and "st_header_value_start ch (spot (n + 1) (n + 2) s_header_value_discard_ws hs i fl cl ver m unmarked app) =
      Next (spot (n + 1) (n + 2) s_header_value hs1 0 fl1 cl1 ver m (unmarked(on_header_value := Some (n + 1))) app)"
    and "ch \<noteq> CHR '' ''" "ch \<noteq> TAB" "\<not> line_end ch"
  shows "exec_loop S data (at_byte n s_header_value_discard_ws hs i fl cl ver m unmarked app) =
    exec_loop S data (at_byte (n + 2) s_header_value hs1 0 fl1 cl1 ver m (unmarked(on_header_value := Some (n + 1))) app)"
proof -
  have "exec_loop S data (at_byte n s_header_value_discard_ws hs i fl cl ver m unmarked app) =
      exec_loop S data (at_byte (n + 1) s_header_value_discard_ws hs i fl cl ver m unmarked app)"
    by (rule spot_byte [where ch = "CHR '' ''" and rest = "ch # rest"])
      (use assms in \<open>simp_all add: step_simps st_header_value_discard_ws_def\<close>)
  also have "\<dots> = exec_loop S data (at_byte (n + 1 + 1) s_header_value hs1 0 fl1 cl1 ver m (unmarked(on_header_value := Some (n + 1))) app)"
    by (rule spot_byte [where ch = ch and rest = rest])
      (use assms drop_more [of n data "'' ''" "ch # rest" 1] in
        \<open>simp_all add: step_simps st_header_value_discard_ws_def line_end_def\<close>)
  finally show ?thesis by simp
qed

text \<open>A value, from the colon to the end of its line; its meaning is in what the first character and the loop do.\<close>

lemma run_value:
  assumes "drop n data = CHR '' '' # v @ crlf @ rest" "v \<noteq> []" "n + length v + 3 \<le> HTTP_MAX_HEADER_SIZE"
    and first: "st_header_value_start (hd v) (spot (n + 1) (n + 2) s_header_value_discard_ws hs i fl cl ver m unmarked app) =
      Next (spot (n + 1) (n + 2) s_header_value hs1 0 fl1 cl1 ver m (unmarked(on_header_value := Some (n + 1))) app)"
    and loop: "\<And>r. header_value_loop (tl v @ CR # LF # rest) hs1
        (spot (n + 2) r s_header_value hs1 0 fl1 cl1 ver m (unmarked(on_header_value := Some (n + 1))) app) =
      V_Stop hs1 (spot (n + 2) r s_header_value hs1 0 fl1 cl2 ver m (unmarked(on_header_value := Some (n + 1))) app) (CR # LF # rest)"
    and hd: "hd v \<noteq> CHR '' ''" "hd v \<noteq> TAB" "\<not> line_end (hd v)"
  shows "exec_loop (event_settings h) data (at_byte n s_header_value_discard_ws hs i fl cl ver m unmarked app) =
    exec_loop (event_settings h) data (at_byte (n + length v + 3) s_header_value_lws hs1 0 fl1 cl2 ver m unmarked (h (On_Header_Value v) app))"
proof -
  obtain ch s where v: "v = ch # s" using assms(2) by (cases v) auto
  let ?run = "\<lambda>c. exec_loop (event_settings h) data c" and ?mk = "unmarked(on_header_value := Some (n + 1))"
  have rest: "drop (n + 1) data = v @ CR # LF # rest" "drop (n + 2) data = s @ CR # LF # rest"
      "drop (n + 2 + length s + 1) data = LF # rest"
    using drop_more [of n data "'' ''" "v @ CR # LF # rest" 1] drop_more [of n data "CHR '' '' # [ch]" "s @ CR # LF # rest" 2]
      drop_more [of n data "CHR '' '' # ch # s @ [CR]" "LF # rest" "length s + 3"] assms(1) v by (simp_all add: crlf_def numeral_eq_Suc)
  have len: "length data = n + 4 + length s + length rest" using assms(1) v length_drop [of n data] by (simp add: crlf_def)
  have "?run (at_byte n s_header_value_discard_ws hs i fl cl ver m unmarked app) = ?run (at_byte (n + 2) s_header_value hs1 0 fl1 cl1 ver m ?mk app)"
    by (rule run_value_start [where ch = ch and rest = "s @ crlf @ rest"]) (use assms v in auto)
  also have "\<dots> = ?run (at_byte (n + 2 + length s + 1) s_header_almost_done hs1 0 fl1 cl2 ver m unmarked (h (On_Header_Value v) app))"
  proof -
    obtain c0 r0 where r0: "s @ CR # LF # rest = c0 # r0" by (cases "s @ CR # LF # rest") auto
    have data: "CALLBACK_DATA_er (event_settings h) data on_header_value (n + 2 + length s) er
        (spot q r st x j fl cl ver m ?mk app) f = f (spot q r st x j fl cl ver m unmarked (h (On_Header_Value v) app))" for q r st x j fl cl er f
      using rest v by (subst spot_data [where k = "n + 1" and e = On_Header_Value and s = v]) auto
    show ?thesis
      by (rule spot_jump [where ch = c0 and rest = r0])
        (use assms(3) v len data loop r0 rest in
          \<open>simp_all add: step_simps st_header_value_def spot_count CALLBACK_DATA_def\<close>)
  qed
  also have "\<dots> = ?run (at_byte (n + 2 + length s + 1 + 1) s_header_value_lws hs1 0 fl1 cl2 ver m unmarked (h (On_Header_Value v) app))"
    by (rule spot_byte [where ch = LF and rest = rest]) (use assms v rest in \<open>simp_all add: step_simps st_header_almost_done_def\<close>)
  finally show ?thesis using v by (simp add: numeral_eq_Suc)
qed

lemma plain_name:
  assumes "k \<noteq> []" "token_text k" "map TOKEN k \<notin> special_names"
  shows "fst (name_state k) \<notin> {h_upgrade, h_transfer_encoding, h_content_length, h_connection, h_matching_connection_token_start}"
  using name_state(2) [OF assms(1,2)] assms(3) by (cases "fst (name_state k)") (auto simp: name_read_def special_names_def)

definition header_ok :: "string \<times> string \<Rightarrow> bool" where
  "header_ok kv \<longleftrightarrow> fst kv \<noteq> [] \<and> token_text (fst kv) \<and> map TOKEN (fst kv) \<notin> special_names \<and> value_text (snd kv)"

definition header_text :: "string \<times> string \<Rightarrow> string" where
  "header_text = (\<lambda>(k, v). k @ '': '' @ v @ crlf)"

definition header_events :: "string \<times> string \<Rightarrow> http_event list" where
  "header_events = (\<lambda>(k, v). [On_Header_Field k, On_Header_Value v])"

lemma run_header:
  assumes "drop n data = header_text (k, v) @ rest" "header_ok (k, v)" "n + length (header_text (k, v)) \<le> HTTP_MAX_HEADER_SIZE"
  shows "exec_loop (event_settings h) data (at_byte n s_header_field_start hs i fl cl ver m unmarked app) =
    exec_loop (event_settings h) data (at_byte (n + length (header_text (k, v))) s_header_value_lws h_general 0
      fl cl ver m unmarked (fold h (header_events (k, v)) app))"
proof -
  have k: "k \<noteq> []" "token_text k" "map TOKEN k \<notin> special_names" and v: "value_text v" using assms(2) by (simp_all add: header_ok_def)
  note plain = plain_name [OF k]
  have rest: "drop (n + length k + 1) data = CHR '' '' # v @ crlf @ rest"
    using drop_more [of n data "k @ '':''" "CHR '' '' # v @ crlf @ rest" "length k + 1"] assms(1) by (simp add: header_text_def)
  have len: "n + length k + length v + 4 \<le> HTTP_MAX_HEADER_SIZE" using assms(3) by (simp add: header_text_def crlf_def)
  have "exec_loop (event_settings h) data (at_byte n s_header_field_start hs i fl cl ver m unmarked app) =
    exec_loop (event_settings h) data (at_byte (n + length k + 1) s_header_value_discard_ws
      (fst (name_state k)) (snd (name_state k)) fl cl ver m unmarked (h (On_Header_Field k) app))"
    by (rule run_name [where rest = "CHR '' '' # v @ crlf @ rest"]) (use assms(1) k len in \<open>simp_all add: header_text_def\<close>)
  also have "\<dots> = exec_loop (event_settings h) data (at_byte (n + length k + 1 + length v + 3) s_header_value_lws h_general 0
      fl cl ver m unmarked (h (On_Header_Value v) (h (On_Header_Field k) app)))"
  proof (rule run_value [where rest = rest and ?cl1.0 = cl])
    show "st_header_value_start (hd v) (spot (n + length k + 1 + 1) (n + length k + 1 + 2) s_header_value_discard_ws
          (fst (name_state k)) (snd (name_state k)) fl cl ver m unmarked (h (On_Header_Field k) app)) =
        Next (spot (n + length k + 1 + 1) (n + length k + 1 + 2) s_header_value h_general 0 fl cl ver m
          (unmarked(on_header_value := Some (n + length k + 1 + 1))) (h (On_Header_Field k) app))"
      using plain by (cases "fst (name_state k)") (simp_all add: st_header_value_start_def step_simps MARK_def)
    have "list_all (\<lambda>ch. \<not> line_end ch \<and> IS_HEADER_CHAR ch) (tl v)" "length (tl v) < HTTP_MAX_HEADER_SIZE"
      using v len by (auto simp: value_text_def list_all_iff dest: list.set_sel(2))
    then show "header_value_loop (tl v @ CR # LF # rest) h_general c = V_Stop h_general c (CR # LF # rest)" for c
      by (rule value_loop_general)
  qed (use v len rest in \<open>auto simp: value_text_def list_all_iff\<close>)
  finally show ?thesis by (simp add: header_events_def header_text_def crlf_def numeral_eq_Suc add_ac)
qed

lemma header_text_Cons: "header_ok kv \<Longrightarrow> \<exists>ch r. header_text kv = ch # r \<and> ch \<noteq> CHR '' '' \<and> ch \<noteq> TAB"
  by (cases kv; cases "fst kv") (auto simp: header_text_def header_ok_def token_text_def)

text \<open>The headers up to a line that is not continued.\<close>

lemma run_headers:
  "drop n data = concat (map header_text kvs) @ ch # rest \<Longrightarrow> list_all header_ok kvs \<Longrightarrow> ch \<noteq> CHR '' '' \<Longrightarrow> ch \<noteq> TAB \<Longrightarrow>
   n + length (concat (map header_text kvs)) < HTTP_MAX_HEADER_SIZE \<Longrightarrow>
   \<exists>hs' i'. exec_loop (event_settings h) data (at_byte n s_header_field_start hs i fl cl ver m unmarked app) =
     exec_loop (event_settings h) data (at_byte (n + length (concat (map header_text kvs))) s_header_field_start hs' i'
       fl cl ver m unmarked (fold h (concat (map header_events kvs)) app))"
proof (induction kvs arbitrary: n hs i app)
  case Nil
  then show ?case by auto
next
  case (Cons kv kvs)
  obtain k v where kv: "kv = (k, v)" by (cases kv)
  let ?n = "n + length (header_text kv)" and ?app = "fold h (header_events kv) app"
  have rest: "drop ?n data = concat (map header_text kvs) @ ch # rest"
    using drop_more [of n data "header_text kv"] Cons.prems(1) by simp
  obtain c r where c: "concat (map header_text kvs) @ ch # rest = c # r" "c \<noteq> CHR '' ''" "c \<noteq> TAB"
  proof (cases kvs)
    case (Cons kv' kvs')
    with Cons.prems(2) header_text_Cons [of kv'] that show ?thesis by auto
  qed (use Cons.prems that in auto)
  have "exec_loop (event_settings h) data (at_byte n s_header_field_start hs i fl cl ver m unmarked app) =
      exec_loop (event_settings h) data (at_byte ?n s_header_value_lws h_general 0 fl cl ver m unmarked ?app)"
    unfolding kv by (rule run_header) (use Cons.prems kv in auto)
  also have "\<dots> = exec_loop (event_settings h) data (at_byte ?n s_header_field_start h_general 0 fl cl ver m unmarked ?app)"
    by (rule lws_start) (use rest c Cons.prems in \<open>auto simp: value_flags_def\<close>)
  finally show ?case using Cons.IH [OF rest, of h_general 0 ?app] Cons.prems by (auto simp: add.assoc)
qed

section \<open>The length of the body\<close>

text \<open>The value of a decimal, as the parser adds its digits up.\<close>

fun digits_from :: "nat \<Rightarrow> string \<Rightarrow> nat" where
  "digits_from v [] = v"
| "digits_from v (d # ds) = digits_from (v * 10 + digit_of d) ds"

lemma digits_from_grows: "v \<le> digits_from v ds"
proof (induction ds arbitrary: v)
  case (Cons d ds)
  from Cons.IH [of "v * 10 + digit_of d"] show ?case by simp
qed simp

text \<open>A digit is added unless the number would leave no room: the largest number taken is \<open>2 ^ 64 - 7\<close>.\<close>

definition length_limit :: nat where
  "length_limit = 2 ^ 64 - 6"

lemma digit_of_bound: "IS_NUM d \<Longrightarrow> digit_of d < 10"
proof -
  assume "IS_NUM d"
  then have "ch_num d \<le> (57 :: nat)" by (simp add: IS_NUM_def less_eq_char_def)
  then show ?thesis by (simp add: digit_of_def)
qed

lemma value_length_digit:
  assumes "IS_NUM d" "v < 2 ^ 64" "pr_content_length c = of_nat v"
  shows "value_length d h c =
    (if v * 10 + digit_of d < length_limit then V_Go h (c\<lparr>pr_content_length := of_nat (v * 10 + digit_of d)\<rparr>)
     else V_Error (SET_ERRNO HPE_INVALID_CONTENT_LENGTH (c\<lparr>pr_header_state := h\<rparr>)))"
proof -
  have "unat ((ULLONG_MAX - 10) div 10) = (2 ^ 64 - 11) div 10" by (simp add: ULLONG_MAX_def unat_div)
  then have "(ULLONG_MAX - 10) div 10 < pr_content_length c \<longleftrightarrow> (2 ^ 64 - 11) div 10 < v"
    using assms(2,3) by (simp add: word_less_nat_alt unat_of_nat)
  also have "\<dots> \<longleftrightarrow> \<not> v * 10 + digit_of d < length_limit" using digit_of_bound [OF assms(1)] by (auto simp: length_limit_def)
  finally have "(ULLONG_MAX - 10) div 10 < pr_content_length c \<longleftrightarrow> \<not> v * 10 + digit_of d < length_limit" .
  moreover have "d \<noteq> CHR '' ''" using assms(1) by (auto simp: IS_NUM_def less_eq_char_def)
  ultimately show ?thesis using assms by (simp add: value_length_def algebra_simps)
qed

lemma digit_char: "IS_NUM d \<Longrightarrow> IS_HEADER_CHAR d \<and> \<not> line_end d \<and> d \<noteq> CHR '' '' \<and> d \<noteq> TAB"
  by (auto simp: IS_NUM_def IS_HEADER_CHAR_def line_end_def less_eq_char_def)

lemma length_loop:
  "list_all IS_NUM ds \<Longrightarrow> digits_from v ds < length_limit \<Longrightarrow> pr_content_length c = of_nat v \<Longrightarrow>
   header_value_loop (ds @ CR # rest) h_content_length c =
     V_Stop h_content_length (c\<lparr>pr_content_length := of_nat (digits_from v ds)\<rparr>) (CR # rest)"
proof (induction ds arbitrary: v c)
  case Nil
  then show ?case by (simp add: line_end_def)
next
  case (Cons d ds)
  then have d: "v * 10 + digit_of d < length_limit" "IS_NUM d"
    using digits_from_grows [of "v * 10 + digit_of d" ds] by auto
  then have "v < 2 ^ 64" by (simp add: length_limit_def)
  with Cons d digit_char [of d] show ?case
    by (simp add: header_value_char_def value_length_digit [where v = v] del: of_nat_add of_nat_mult)
qed

lemma length_loop_overflow:
  "list_all IS_NUM ds \<Longrightarrow> length_limit \<le> digits_from v ds \<Longrightarrow> v < length_limit \<Longrightarrow> pr_content_length c = of_nat v \<Longrightarrow>
   \<exists>c' left. header_value_loop (ds @ rest) h_content_length c = V_Fail c' left \<and> pr_errno c' = HPE_INVALID_CONTENT_LENGTH"
proof (induction ds arbitrary: v c)
  case (Cons d ds)
  then have d: "IS_NUM d" "v < 2 ^ 64" by (simp_all add: length_limit_def)
  show ?case
  proof (cases "v * 10 + digit_of d < length_limit")
    case True
    with Cons.IH [of "v * 10 + digit_of d" "c\<lparr>pr_content_length := of_nat (v * 10 + digit_of d)\<rparr>"] Cons.prems d digit_char [of d] show ?thesis
      by (simp add: header_value_char_def value_length_digit [where v = v] del: of_nat_add of_nat_mult)
  next
    case False
    with Cons.prems d digit_char [of d] show ?thesis
      by (simp add: header_value_char_def value_length_digit [where v = v] SET_ERRNO_def)
  qed
qed simp

lemma digits_from_nat: "list_all IS_NUM ds \<Longrightarrow> digits_from 0 ds = digits_nat ds"
proof -
  assume ds: "list_all IS_NUM ds"
  have "digits_from v ds = foldl (\<lambda>n c. 10 * n + (of_char c - 48)) v ds" for v
    by (induction ds arbitrary: v) (simp_all add: digit_of_def mult.commute)
  moreover have *: "takeWhile is_digit ds = ds"
    using ds by (simp add: takeWhile_eq_all_conv list_all_iff is_digit_def IS_NUM_def less_eq_char_def)
  ultimately show ?thesis by (simp only: digits_nat_def *)
qed

lemma dec_nat_num: "list_all IS_NUM (dec_nat n)"
  using dec_nat_digits [of n] by (simp add: list_all_iff is_digit_def IS_NUM_def less_eq_char_def)

lemma digits_from_dec [simp]: "digits_from 0 (dec_nat n) = n"
  by (simp add: digits_from_nat dec_nat_num)

definition length_text :: "string \<Rightarrow> string" where
  "length_text ds = ''Content-Length: '' @ ds @ crlf"

definition length_events :: "string \<Rightarrow> http_event list" where
  "length_events ds = [On_Header_Field ''Content-Length'', On_Header_Value ds]"

lemma name_state_length: "fst (name_state ''Content-Length'') = h_content_length"
  by code_simp

lemma token_length: "token_text ''Content-Length''"
  by code_simp

lemma length_first:
  "IS_NUM d \<Longrightarrow> F_CONTENTLENGTH \<notin> fl \<Longrightarrow>
   st_header_value_start d (spot n r s h_content_length i fl cl ver m unmarked app) =
   Next (spot n r s_header_value h_content_length 0 (insert F_CONTENTLENGTH fl) (of_nat (digit_of d)) ver m
     (unmarked(on_header_value := Some n)) app)"
  by (simp add: st_header_value_start_def step_simps MARK_def)

lemma run_length:
  assumes "drop n data = length_text ds @ rest" "ds \<noteq> []" "list_all IS_NUM ds" "digits_from 0 ds < length_limit"
    and "F_CONTENTLENGTH \<notin> fl" "n + length (length_text ds) \<le> HTTP_MAX_HEADER_SIZE"
  shows "exec_loop (event_settings h) data (at_byte n s_header_field_start hs i fl cl ver m unmarked app) =
    exec_loop (event_settings h) data (at_byte (n + length (length_text ds)) s_header_value_lws h_content_length 0
      (insert F_CONTENTLENGTH fl) (of_nat (digits_from 0 ds)) ver m unmarked (fold h (length_events ds) app))"
proof -
  obtain d s where ds: "ds = d # s" "IS_NUM d" using assms(2,3) by (cases ds) auto
  have rest: "drop (n + 15) data = CHR '' '' # ds @ crlf @ rest"
    using drop_more [of n data "''Content-Length:''" "CHR '' '' # ds @ crlf @ rest" 15] assms(1) by (simp add: length_text_def)
  have colon: "n + length ''Content-Length'' + 1 = n + 15" by simp
  have len: "n + length ds + 18 \<le> HTTP_MAX_HEADER_SIZE" using assms(6) by (simp add: length_text_def crlf_def)
  have "exec_loop (event_settings h) data (at_byte n s_header_field_start hs i fl cl ver m unmarked app) =
    exec_loop (event_settings h) data (at_byte (n + length ''Content-Length'' + 1) s_header_value_discard_ws
      (fst (name_state ''Content-Length'')) (snd (name_state ''Content-Length'')) fl cl ver m unmarked
      (h (On_Header_Field ''Content-Length'') app))"
    by (rule run_name [where rest = "CHR '' '' # ds @ crlf @ rest"]) (use assms(1) token_length len in \<open>simp_all add: length_text_def\<close>)
  also have "\<dots> = exec_loop (event_settings h) data (at_byte (n + 15 + length ds + 3) s_header_value_lws h_content_length 0
      (insert F_CONTENTLENGTH fl) (of_nat (digits_from 0 ds)) ver m unmarked
      (h (On_Header_Value ds) (h (On_Header_Field ''Content-Length'') app)))"
    unfolding name_state_length colon
  proof (rule run_value [where rest = rest])
    show "drop (n + 15) data = CHR '' '' # ds @ crlf @ rest" by (rule rest)
    show "st_header_value_start (hd ds) (spot (n + 15 + 1) (n + 15 + 2) s_header_value_discard_ws h_content_length
          (snd (name_state ''Content-Length'')) fl cl ver m unmarked (h (On_Header_Field ''Content-Length'') app)) =
        Next (spot (n + 15 + 1) (n + 15 + 2) s_header_value h_content_length 0 (insert F_CONTENTLENGTH fl) (of_nat (digit_of d)) ver m
          (unmarked(on_header_value := Some (n + 15 + 1))) (h (On_Header_Field ''Content-Length'') app))"
      using ds assms(5) by (simp add: length_first)
    show "header_value_loop (tl ds @ CR # LF # rest) h_content_length
        (spot (n + 15 + 2) r s_header_value h_content_length 0 (insert F_CONTENTLENGTH fl) (of_nat (digit_of d)) ver m
          (unmarked(on_header_value := Some (n + 15 + 1))) (h (On_Header_Field ''Content-Length'') app)) =
      V_Stop h_content_length
        (spot (n + 15 + 2) r s_header_value h_content_length 0 (insert F_CONTENTLENGTH fl) (of_nat (digits_from 0 ds)) ver m
          (unmarked(on_header_value := Some (n + 15 + 1))) (h (On_Header_Field ''Content-Length'') app)) (CR # LF # rest)" for r
      using ds assms by (subst length_loop [where v = "digit_of d"]) simp_all
  qed (use ds len digit_char [of d] in auto)
  finally show ?thesis by (simp add: length_events_def length_text_def crlf_def numeral_eq_Suc add_ac)
qed

section \<open>The end of a request\<close>

lemma finish_unmarked:
  "ex_mark c = unmarked \<Longrightarrow> pr_errno c = HPE_OK \<Longrightarrow> exec_finish S data c = Return (length data) c"
  by (simp add: exec_finish_def marks_left_def CALLBACK_DATA_NOADVANCE_def)

lemma loop_end:
  "ex_mark c = unmarked \<Longrightarrow> pr_errno c = HPE_OK \<Longrightarrow> length data \<le> ex_p c \<Longrightarrow> exec_loop S data c = Return (length data) c"
  by (subst exec_loop.simps) (simp add: finish_unmarked)

text \<open>The next message of a connection that is kept.\<close>

lemma next_message:
  "F_CONNECTION_CLOSE \<notin> fl \<Longrightarrow> NEW_MESSAGE (spot n r s hs i fl cl (1, 1) m mk app) = s_start_req"
  by (simp add: NEW_MESSAGE_def http_should_keep_alive_def http_message_needs_eof_def start_state_def)

definition complete_event :: "http_method \<Rightarrow> http_event" where
  "complete_event m = On_Headers_Complete (int (method_number m))"

text \<open>The blank line, of a message without a body and of one whose length is known.\<close>

lemma blank_line:
  assumes "fl \<subseteq> {F_CONTENTLENGTH}" "m \<noteq> HTTP_CONNECT"
  shows "st_headers_almost_done (event_settings h) LF (spot n r s hs i fl cl (1, 1) m unmarked app) =
    Next (if cl = 0 \<or> cl = ULLONG_MAX
      then spot n 0 s_start_req hs i fl cl (1, 1) m unmarked (h On_Message_Complete (h (complete_event m) app))
      else spot n 0 s_body_identity hs i fl cl (1, 1) m unmarked (h (complete_event m) app))"
proof -
  have fl: "F_TRAILING \<notin> fl" "F_CHUNKED \<notin> fl" "F_SKIPBODY \<notin> fl" "F_CONNECTION_CLOSE \<notin> fl" "F_UPGRADE \<notin> fl"
    using assms(1) by auto
  have "st_headers_done (event_settings h) LF (spot n r s_headers_done hs i fl cl (1, 1) m unmarked app) =
      Next (if cl = 0 \<or> cl = ULLONG_MAX
        then spot n 0 s_start_req hs i fl cl (1, 1) m unmarked (h On_Message_Complete app)
        else spot n 0 s_body_identity hs i fl cl (1, 1) m unmarked app)" for app
    using fl by (simp add: st_headers_done_def STRICT_CHECK_def CALLBACK_NOTIFY_def goto_def Let_def next_message [simplified]
        http_message_needs_eof_def)
  with fl assms(2) show ?thesis by (simp add: st_headers_almost_done_def STRICT_CHECK_def goto_def complete_event_def)
qed

lemma run_blank:
  assumes "drop n data = crlf @ rest" "fl \<subseteq> {F_CONTENTLENGTH}" "m \<noteq> HTTP_CONNECT" "n + 2 \<le> HTTP_MAX_HEADER_SIZE"
  shows "exec_loop (event_settings h) data (at_byte n s_header_field_start hs i fl cl (1, 1) m unmarked app) =
    (if cl = 0 \<or> cl = ULLONG_MAX
     then exec_loop (event_settings h) data (spot (n + 2) 0 s_start_req hs i fl cl (1, 1) m unmarked
       (h On_Message_Complete (h (complete_event m) app)))
     else exec_loop (event_settings h) data (spot (n + 2) 0 s_body_identity hs i fl cl (1, 1) m unmarked (h (complete_event m) app)))"
proof -
  have "exec_loop (event_settings h) data (at_byte n s_header_field_start hs i fl cl (1, 1) m unmarked app) =
      exec_loop (event_settings h) data (at_byte (n + 1) s_headers_almost_done hs i fl cl (1, 1) m unmarked app)"
    by (rule spot_byte [where ch = CR and rest = "LF # rest"])
      (use assms in \<open>simp_all add: step_simps st_header_field_start_def crlf_def\<close>)
  moreover have lf: "drop (n + 1) data = LF # rest" using drop_more [of n data "[CR]" "LF # rest" 1] assms(1) by (simp add: crlf_def)
  ultimately show ?thesis
    using spot_step [OF lf, of s_headers_almost_done "event_settings h" hs i fl cl "(1, 1)" m unmarked app] assms(4)
    by (simp add: step_simps blank_line [OF assms(2,3), simplified])
qed

section \<open>The body\<close>

lemma body_byte:
  assumes "drop n data = b" "b \<noteq> []"
  shows "exec_loop S data (spot n r s_body_identity hs i fl cl ver m mk app) =
    (case st_body_identity S data (spot n r s_body_identity hs i fl cl ver m mk app) of
       Next c' \<Rightarrow> exec_loop S data (c'\<lparr>ex_p := ex_p c' + 1\<rparr>)
     | Return n c' \<Rightarrow> Return n c' | Error c' \<Rightarrow> Error c' | Abort \<Rightarrow> Abort)"
proof -
  have "n < length data" using assms by (cases "n < length data") auto
  then show ?thesis by (subst exec_loop.simps) (simp add: exec_byte_def PARSING_HEADER_def exec_state_def Let_def)
qed

lemma take_body_all:
  assumes "drop n data = b" "b \<noteq> []" "length b \<le> k" "k < 2 ^ 64"
  shows "take_body data (spot n r s hs i fl (of_nat k) ver m unmarked app) =
    spot (n + length b - 1) r s hs i fl (of_nat (k - length b)) ver m (unmarked(on_body := Some n)) app"
proof -
  have "length data = n + length b" using assms(1,2) length_drop [of n data] by (cases b) auto
  then have "to_read data (spot n r s hs i fl (of_nat k) ver m unmarked app) = length b"
    using assms(3,4) by (simp add: to_read_def remaining_def unat_of_nat)
  then show ?thesis using assms(3) by (simp add: take_body_def Let_def MARK_def of_nat_diff)
qed

lemma length_word:
  assumes "0 < k" "k < length_limit"
  shows "(of_nat k :: 64 word) \<noteq> 0" "(of_nat k :: 64 word) \<noteq> ULLONG_MAX" "k < 2 ^ 64"
proof -
  show k: "k < 2 ^ 64" using assms(2) by (simp add: length_limit_def)
  then have "unat (of_nat k :: 64 word) = k" by (simp add: unat_of_nat)
  moreover have "unat ULLONG_MAX = 2 ^ 64 - 1" by (simp add: ULLONG_MAX_def unsigned_minus_1_eq_mask mask_eq_exp_minus_1)
  ultimately show "(of_nat k :: 64 word) \<noteq> 0" "(of_nat k :: 64 word) \<noteq> ULLONG_MAX"
    using assms by (force simp: length_limit_def)+
qed

text \<open>A buffer with a part of the body, and one with its end.\<close>

lemma run_body_part:
  assumes "drop n data = b" "b \<noteq> []" "length b < k" "k < length_limit"
  shows "exec_loop (event_settings h) data (spot n r s_body_identity hs i fl (of_nat k) ver m unmarked app) =
    Return (length data) (spot (length data) r s_body_identity hs i fl (of_nat (k - length b)) ver m unmarked (h (On_Body b) app))"
proof -
  let ?c = "spot (length data) r s_body_identity hs i fl (of_nat (k - length b)) ver m (unmarked(on_body := Some n)) app"
  have len: "length data = n + length b" using assms(1,2) length_drop [of n data] by (cases b) auto
  have data: "CALLBACK_DATA_er (event_settings h) data on_body (n + length b) er
      (spot q r st hs i fl cl ver m (unmarked(on_body := Some n)) app) f = f (spot q r st hs i fl cl ver m unmarked (h (On_Body b) app))" for q st cl ver er f
    using assms(1) by (subst spot_data [where k = n and e = On_Body and s = b and t = "[]"]) auto
  note k = length_word [of k] length_word [of "k - length b"]
  have "st_body_identity (event_settings h) data (spot n r s_body_identity hs i fl (of_nat k) ver m unmarked app) =
      Next (?c\<lparr>ex_p := n + length b - 1\<rparr>)"
    using assms k by (simp add: st_body_identity_def take_body_all del: of_nat_diff)
  then have "exec_loop (event_settings h) data (spot n r s_body_identity hs i fl (of_nat k) ver m unmarked app) =
      exec_loop (event_settings h) data ?c"
    using assms(2) len by (simp add: body_byte [OF assms(1,2)])
  also have "\<dots> = exec_finish (event_settings h) data ?c" by (subst exec_loop.simps) simp
  also have "\<dots> = Return (length data) (spot (length data) r s_body_identity hs i fl (of_nat (k - length b)) ver m unmarked (h (On_Body b) app))"
    using len by (simp add: exec_finish_def marks_left_def CALLBACK_DATA_NOADVANCE_def data del: of_nat_diff)
  finally show ?thesis .
qed

lemma run_body_last:
  assumes "drop n data = b" "b \<noteq> []" "length b < length_limit" "F_CONNECTION_CLOSE \<notin> fl"
  shows "exec_loop (event_settings h) data (spot n r s_body_identity hs i fl (of_nat (length b)) (1, 1) m unmarked app) =
    Return (length data) (spot (length data) r s_start_req hs i fl 0 (1, 1) m unmarked (h On_Message_Complete (h (On_Body b) app)))"
proof -
  let ?c = "spot (n + length b - 1) r s_start_req hs i fl 0 (1, 1) m unmarked (h On_Message_Complete (h (On_Body b) app))"
  have len: "length data = n + length b" using assms(1,2) length_drop [of n data] by (cases b) auto
  have data: "CALLBACK_DATA_er (event_settings h) data on_body (n + length b) er
      (spot q r st hs i fl cl ver m (unmarked(on_body := Some n)) app) f = f (spot q r st hs i fl cl ver m unmarked (h (On_Body b) app))" for q st cl ver er f
    using assms(1) by (subst spot_data [where k = n and e = On_Body and s = b and t = "[]"]) auto
  have "st_body_identity (event_settings h) data (spot n r s_body_identity hs i fl (of_nat (length b)) (1, 1) m unmarked app) = Next ?c"
    using assms length_word [of "length b"] data
    by (simp add: st_body_identity_def take_body_all goto_def st_message_done_def CALLBACK_NOTIFY_def
        next_message [simplified])
  then have "exec_loop (event_settings h) data (spot n r s_body_identity hs i fl (of_nat (length b)) (1, 1) m unmarked app) =
      exec_loop (event_settings h) data (?c\<lparr>ex_p := length data\<rparr>)"
    using assms(2) len by (simp add: body_byte [OF assms(1,2)])
  also have "\<dots> = Return (length data) (?c\<lparr>ex_p := length data\<rparr>)" by (rule loop_end) simp_all
  finally show ?thesis by simp
qed

section \<open>The head of a request\<close>

definition request_line :: "http_method \<Rightarrow> string \<Rightarrow> (string \<times> string) list \<Rightarrow> string" where
  "request_line m path qs = http_method_str m @ '' '' @ path @ query_text qs @ '' HTTP/1.1'' @ crlf"

definition length_part :: "string option \<Rightarrow> string" where
  "length_part len = (case len of None \<Rightarrow> [] | Some ds \<Rightarrow> length_text ds)"

definition request_head :: "http_method \<Rightarrow> string \<Rightarrow> (string \<times> string) list \<Rightarrow> (string \<times> string) list \<Rightarrow> string option \<Rightarrow> string" where
  "request_head m path qs kvs len = request_line m path qs @ concat (map header_text kvs) @ length_part len @ crlf"

definition line_events :: "string \<Rightarrow> (string \<times> string) list \<Rightarrow> http_event list" where
  "line_events path qs = On_Message_Begin # On_Url path # concat (map query_events qs)"

definition head_events :: "http_method \<Rightarrow> string \<Rightarrow> (string \<times> string) list \<Rightarrow> (string \<times> string) list \<Rightarrow> string option \<Rightarrow> http_event list" where
  "head_events m path qs kvs len = line_events path qs @ concat (map header_events kvs) @
     (case len of None \<Rightarrow> [] | Some ds \<Rightarrow> length_events ds) @ [complete_event m]"

definition line_fine :: "http_method \<Rightarrow> string \<Rightarrow> (string \<times> string) list \<Rightarrow> bool" where
  "line_fine m path qs \<longleftrightarrow> plain_method m \<and> path_ok path \<and> list_all pair_ok qs"

definition digits_ok :: "string \<Rightarrow> bool" where
  "digits_ok ds \<longleftrightarrow> ds \<noteq> [] \<and> list_all IS_NUM ds"

lemma start_spot:
  "exec_start (http_parser_init HTTP_REQUEST) app = at_byte 0 s_start_req h_general 0 {} 0 (0, 0) HTTP_DELETE unmarked app"
  by (simp add: exec_start_def http_parser_init_def resumed_field_def spot_def http_parser.defs exec.defs)

lemma run_line:
  assumes "data = request_line m path qs @ rest" "line_fine m path qs" "length (request_line m path qs) \<le> HTTP_MAX_HEADER_SIZE"
  shows "\<exists>i. exec_loop (event_settings h) data (exec_start (http_parser_init HTTP_REQUEST) app) =
    exec_loop (event_settings h) data (at_byte (length (request_line m path qs)) s_header_field_start h_general i {} ULLONG_MAX (1, 1)
      m unmarked (fold h (line_events path qs) app))"
proof -
  let ?run = "\<lambda>c. exec_loop (event_settings h) data c" and ?str = "http_method_str m"
  let ?i = "length ?str + 1" and ?tail = "''HTTP/1.1'' @ crlf @ rest"
  have m: "plain_method m" "m \<noteq> HTTP_CONNECT" "path_ok path" "list_all pair_ok qs"
    using assms(2) by (auto simp: line_fine_def plain_method_def)
  have data: "data = ?str @ '' '' @ path @ query_text qs @ CHR '' '' # ?tail" using assms(1) by (simp add: request_line_def)
  have len: "length ?str + length path + length (query_text qs) + 12 \<le> HTTP_MAX_HEADER_SIZE"
    using assms(3) by (simp add: request_line_def crlf_def)
  have d1: "drop ?i data = path @ query_text qs @ CHR '' '' # ?tail" using data by simp
  have "?run (exec_start (http_parser_init HTTP_REQUEST) app) =
      ?run (at_byte ?i s_req_spaces_before_url h_general ?i {} ULLONG_MAX (0, 0) m unmarked (h On_Message_Begin app))"
    unfolding start_spot by (rule run_method) (use data m len in auto)
  also have "\<dots> = ?run (at_byte (?i + length path + length (query_text qs) + 1) s_req_http_start h_general ?i {} ULLONG_MAX (0, 0)
      m unmarked (fold h (line_events path qs) app))"
  proof (cases "qs = []")
    case True
    then show ?thesis using d1 m len
      by (subst run_path [where t = "CHR '' ''" and rest = ?tail]) (simp_all add: query_text_def line_events_def)
  next
    case False
    have "?run (at_byte ?i s_req_spaces_before_url h_general ?i {} ULLONG_MAX (0, 0) m unmarked (h On_Message_Begin app)) =
        ?run (at_byte (?i + length path + 1) s_req_query_string_start h_general ?i {} ULLONG_MAX (0, 0) m unmarked
          (h (On_Url path) (h On_Message_Begin app)))"
      using d1 m len False
      by (subst run_path [where t = "CHR ''?''" and rest = "pairs_text qs @ CHR '' '' # ?tail"]) (simp_all add: query_text_def)
    also have "\<dots> = ?run (at_byte (?i + length path + 1 + length (pairs_text qs) + 1) s_req_http_start h_general ?i {} ULLONG_MAX (0, 0)
        m unmarked (fold h (concat (map query_events qs)) (h (On_Url path) (h On_Message_Begin app))))"
      using d1 m len False drop_more [of ?i data "path @ ''?''" "pairs_text qs @ CHR '' '' # ?tail" "length path + 1"]
      by (intro run_pairs [where rest = ?tail]) (simp_all add: query_text_def)
    finally show ?thesis using False by (simp add: query_text_def line_events_def)
  qed
  also have "\<dots> = ?run (at_byte (?i + length path + length (query_text qs) + 1 + 10) s_header_field_start h_general ?i {} ULLONG_MAX (1, 1)
      m unmarked (fold h (line_events path qs) app))"
    using d1 len drop_more [of ?i data "path @ query_text qs @ '' ''" ?tail "length path + length (query_text qs) + 1"]
    by (intro run_version [where rest = rest]) (simp_all add: add.assoc)
  finally show ?thesis by (auto simp: request_line_def crlf_def numeral_eq_Suc add_ac)
qed

definition body_length :: "string option \<Rightarrow> nat" where
  "body_length len = (case len of None \<Rightarrow> 0 | Some ds \<Rightarrow> digits_from 0 ds)"

lemma body_length_simps [simp]: "body_length None = 0" "body_length (Some ds) = digits_from 0 ds"
  by (simp_all add: body_length_def)

definition length_fine :: "string option \<Rightarrow> bool" where
  "length_fine len \<longleftrightarrow> (case len of None \<Rightarrow> True | Some ds \<Rightarrow> digits_ok ds \<and> digits_from 0 ds < length_limit)"

lemma body_length_bound: "length_fine len \<Longrightarrow> body_length len < length_limit"
  by (auto simp: length_fine_def body_length_def length_limit_def split: option.splits)

definition head_fine :: "http_method \<Rightarrow> string \<Rightarrow> (string \<times> string) list \<Rightarrow> (string \<times> string) list \<Rightarrow> string option \<Rightarrow> bool" where
  "head_fine m path qs kvs len \<longleftrightarrow> line_fine m path qs \<and> list_all header_ok kvs \<and> length_fine len \<and>
     length (request_head m path qs kvs len) \<le> HTTP_MAX_HEADER_SIZE"

lemma length_part_first: "\<exists>ch r. length_part len @ crlf @ rest = ch # r \<and> ch \<noteq> CHR '' '' \<and> ch \<noteq> TAB"
  by (cases len) (auto simp: length_part_def length_text_def crlf_def)

text \<open>The headers before the length, and the length.\<close>

lemma run_to_length:
  assumes "data = request_line m path qs @ concat (map header_text kvs) @ ch # rest" "line_fine m path qs" "list_all header_ok kvs"
    and "ch \<noteq> CHR '' ''" "ch \<noteq> TAB" "n = length (request_line m path qs @ concat (map header_text kvs))" "n < HTTP_MAX_HEADER_SIZE"
  shows "\<exists>hs i. exec_loop (event_settings h) data (exec_start (http_parser_init HTTP_REQUEST) app) =
    exec_loop (event_settings h) data (at_byte n s_header_field_start hs i {} ULLONG_MAX (1, 1) m unmarked
      (fold h (line_events path qs @ concat (map header_events kvs)) app))"
proof -
  let ?k = "length (request_line m path qs)"
  obtain i where "exec_loop (event_settings h) data (exec_start (http_parser_init HTTP_REQUEST) app) =
      exec_loop (event_settings h) data (at_byte ?k s_header_field_start h_general i {} ULLONG_MAX (1, 1) m unmarked
        (fold h (line_events path qs) app))"
    using run_line [of data m path qs "concat (map header_text kvs) @ ch # rest" h app] assms by auto
  moreover have "drop ?k data = concat (map header_text kvs) @ ch # rest" using assms(1) by simp
  ultimately show ?thesis
    using run_headers [of ?k data kvs ch rest h h_general i "{}" ULLONG_MAX "(1, 1)" m "fold h (line_events path qs) app"] assms by auto
qed

lemma run_head:
  assumes "data = request_head m path qs kvs len @ rest" "head_fine m path qs kvs len"
    and "n = length (request_head m path qs kvs len)" "k = body_length len"
  shows "\<exists>hs i fl cl. fl \<subseteq> {F_CONTENTLENGTH} \<and> (len \<noteq> None \<longrightarrow> cl = of_nat k) \<and>
    exec_loop (event_settings h) data (exec_start (http_parser_init HTTP_REQUEST) app) =
    exec_loop (event_settings h) data
      (if k = 0 then spot n 0 s_start_req hs i fl cl (1, 1) m unmarked
         (h On_Message_Complete (fold h (head_events m path qs kvs len) app))
       else spot n 0 s_body_identity hs i fl cl (1, 1) m unmarked (fold h (head_events m path qs kvs len) app))"
proof -
  let ?run = "\<lambda>c. exec_loop (event_settings h) data c"
    and ?n = "length (request_line m path qs @ concat (map header_text kvs))"
    and ?app = "fold h (line_events path qs @ concat (map header_events kvs)) app"
  have fine: "line_fine m path qs" "list_all header_ok kvs" "length_fine len" "n \<le> HTTP_MAX_HEADER_SIZE" "m \<noteq> HTTP_CONNECT"
    using assms(2,3) by (auto simp: head_fine_def line_fine_def plain_method_def)
  have n: "n = ?n + length (length_part len) + 2" using assms(3) by (simp add: request_head_def crlf_def)
  obtain ch r where ch: "length_part len @ crlf @ rest = ch # r" "ch \<noteq> CHR '' ''" "ch \<noteq> TAB" using length_part_first by blast
  obtain hs i where line: "?run (exec_start (http_parser_init HTTP_REQUEST) app) =
      ?run (at_byte ?n s_header_field_start hs i {} ULLONG_MAX (1, 1) m unmarked ?app)"
    using run_to_length [of data m path qs kvs ch r ?n h app] assms(1) ch fine n by (auto simp: request_head_def)
  have at: "drop ?n data = length_part len @ crlf @ rest" using assms(1) by (simp add: request_head_def)
  show ?thesis
  proof (cases len)
    case None
    with at line run_blank [of ?n data rest "{}" m h hs i ULLONG_MAX ?app] fine n assms(4) show ?thesis
      by (auto simp: length_part_def body_length_def head_events_def)
  next
    case (Some ds)
    then have ds: "digits_ok ds" "digits_from 0 ds < length_limit" using fine(3) by (auto simp: length_fine_def)
    let ?k = "?n + length (length_text ds)" and ?cl = "of_nat (digits_from 0 ds) :: 64 word"
    have at2: "drop ?k data = crlf @ rest" using drop_more [OF at] Some by (simp add: length_part_def)
    have "?run (at_byte ?n s_header_field_start hs i {} ULLONG_MAX (1, 1) m unmarked ?app) =
        ?run (at_byte ?k s_header_value_lws h_content_length 0 {F_CONTENTLENGTH} ?cl (1, 1) m unmarked (fold h (length_events ds) ?app))"
      by (rule run_length [where fl = "{}", simplified]) (use at Some ds fine n in \<open>auto simp: length_part_def digits_ok_def\<close>)
    also have "\<dots> = ?run (at_byte ?k s_header_field_start h_content_length 0 {F_CONTENTLENGTH} ?cl (1, 1) m unmarked (fold h (length_events ds) ?app))"
      by (rule lws_start [where ch = CR and rest = "LF # rest"])
        (use at2 fine n Some in \<open>auto simp: crlf_def value_flags_def length_part_def\<close>)
    also have "\<dots> = (if ?cl = 0 \<or> ?cl = ULLONG_MAX
        then ?run (spot (?k + 2) 0 s_start_req h_content_length 0 {F_CONTENTLENGTH} ?cl (1, 1) m unmarked
          (h On_Message_Complete (h (complete_event m) (fold h (length_events ds) ?app))))
        else ?run (spot (?k + 2) 0 s_body_identity h_content_length 0 {F_CONTENTLENGTH} ?cl (1, 1) m unmarked
          (h (complete_event m) (fold h (length_events ds) ?app))))"
      by (rule run_blank) (use at2 fine n Some in \<open>auto simp: length_part_def\<close>)
    finally show ?thesis
      using line Some n assms(4) length_word [of "digits_from 0 ds"] ds
      by (intro exI [of _ h_content_length] exI [of _ 0] exI [of _ "{F_CONTENTLENGTH}"] exI [of _ ?cl])
        (auto simp: length_part_def body_length_def head_events_def)
  qed
qed

section \<open>A request in one buffer\<close>

definition request_events :: "http_method \<Rightarrow> string \<Rightarrow> (string \<times> string) list \<Rightarrow> (string \<times> string) list \<Rightarrow> string option \<Rightarrow> string \<Rightarrow> http_event list" where
  "request_events m path qs kvs len body = head_events m path qs kvs len @
     (if body = [] then [] else [On_Body body]) @ [On_Message_Complete]"

lemma request_head_not_Nil [simp]: "request_head m path qs kvs len \<noteq> []"
  by (simp add: request_head_def request_line_def)

lemma execute_run:
  "data \<noteq> [] \<Longrightarrow> pr_errno p = HPE_OK \<Longrightarrow> http_parser_execute S p app data = exec_result (exec_loop S data (exec_start p app))"
  by (simp add: http_parser_execute_def)

lemma init_errno [simp]: "pr_errno (http_parser_init t) = HPE_OK"
  by (simp add: http_parser_init_def)

lemma execute_request:
  assumes "head_fine m path qs kvs len" "body_length len = length body"
  shows "\<exists>p. http_parser_execute (event_settings h) (http_parser_init HTTP_REQUEST) app (request_head m path qs kvs len @ body) =
      Inr (length (request_head m path qs kvs len @ body), p, fold h (request_events m path qs kvs len body) app) \<and>
    pr_state p = s_start_req \<and> pr_errno p = HPE_OK"
proof -
  let ?data = "request_head m path qs kvs len @ body" and ?n = "length (request_head m path qs kvs len)"
  obtain hs i fl cl where fl: "fl \<subseteq> {F_CONTENTLENGTH}" and cl: "len \<noteq> None \<longrightarrow> cl = of_nat (length body)"
    and run: "exec_loop (event_settings h) ?data (exec_start (http_parser_init HTTP_REQUEST) app) =
      exec_loop (event_settings h) ?data
        (if length body = 0 then spot ?n 0 s_start_req hs i fl cl (1, 1) m unmarked
           (h On_Message_Complete (fold h (head_events m path qs kvs len) app))
         else spot ?n 0 s_body_identity hs i fl cl (1, 1) m unmarked (fold h (head_events m path qs kvs len) app))"
    using run_head [of ?data m path qs kvs len body ?n "length body" h app] assms by auto
  have body: "length body < length_limit" using body_length_bound [of len] assms by (simp add: head_fine_def)
  have "\<exists>c. exec_loop (event_settings h) ?data (exec_start (http_parser_init HTTP_REQUEST) app) = Return (length ?data) c \<and>
      ex_app c = fold h (request_events m path qs kvs len body) app \<and> pr_state c = s_start_req \<and> pr_errno c = HPE_OK"
  proof (cases "body = []")
    case True
    then show ?thesis unfolding run by (subst loop_end) (simp_all add: request_events_def)
  next
    case False
    moreover have "F_CONNECTION_CLOSE \<notin> fl" using fl by auto
    ultimately show ?thesis unfolding run
      using run_body_last [of ?n ?data body fl h 0 hs i m "fold h (head_events m path qs kvs len) app"] fl cl body assms(2)
      by (auto simp: request_events_def)
  qed
  then show ?thesis by (auto simp: execute_run)
qed

section \<open>The request the callbacks leave\<close>

lemma fold_query_events:
  "fold on_event (concat (map query_events qs)) r =
     r\<lparr>rq_tempkey := (if qs = [] then rq_tempkey r else Mstr (fst (last qs))),
       rq_tempval := (if qs = [] then rq_tempval r else Mstr (snd (last qs))),
       rq_queries := amap_store.put_all (map (\<lambda>(k, v). (Mstr k, Mstr v)) qs) (rq_queries r)\<rparr>"
  by (induction qs arbitrary: r) (auto simp: query_events_def event_simps)

lemma fold_header_events:
  "fold on_event (concat (map header_events kvs)) r =
     r\<lparr>rq_tempkey := (if kvs = [] then rq_tempkey r else Mstr (fst (last kvs))),
       rq_tempval := (if kvs = [] then rq_tempval r else Mstr (snd (last kvs))),
       rq_headers := amap_store.put_all (map (\<lambda>(k, v). (Mstr k, Mstr v)) kvs) (rq_headers r)\<rparr>"
  by (induction kvs arbitrary: r) (auto simp: header_events_def event_simps)

definition all_headers :: "(string \<times> string) list \<Rightarrow> string option \<Rightarrow> (string \<times> string) list" where
  "all_headers kvs len = kvs @ (case len of None \<Rightarrow> [] | Some ds \<Rightarrow> [(''Content-Length'', ds)])"

lemma head_events_headers:
  "head_events m path qs kvs len = line_events path qs @ concat (map header_events (all_headers kvs len)) @ [complete_event m]"
  by (cases len) (simp_all add: head_events_def all_headers_def header_events_def length_events_def)

lemma head_leaves:
  assumes "r = fold on_event (head_events m path qs kvs len) (HttpRequest_new sock now)"
  shows "rq_url r = Mstr path" "rq_method r = Some (int (method_number m))" "rq_body r = Mstr []" "rq_finished r = False" "rq_socket r = sock"
    "rq_queries r = amap_store.put_all (map (\<lambda>(k, v). (Mstr k, Mstr v)) qs) []"
    "rq_headers r = amap_store.put_all (map (\<lambda>(k, v). (Mstr k, Mstr v)) (all_headers kvs len)) []"
  by (simp_all add: assms head_events_headers line_events_def complete_event_def fold_query_events fold_header_events
      event_simps HttpRequest_new_def)

lemma map_of_put_all_Mstr:
  "map_of (amap_store.put_all (map (\<lambda>(k, v). (Mstr k, Mstr v)) qs) []) (Mstr k) = map_option Mstr (map_of (rev qs) k)"
proof -
  have "map_of (rev (map (\<lambda>(k, v). (Mstr k, Mstr v)) qs)) (Mstr k) = map_option Mstr (map_of (rev qs) k)"
    using map_of_Mstr [of "\<lambda>v. v" "rev qs" k] by (simp add: rev_map)
  then show ?thesis by (simp add: amap_store.get_put_all split: option.splits)
qed

section \<open>A body in several buffers\<close>

lemma resume_spot:
  "exec_start (the_parser (spot n r s_body_identity hs i fl cl ver m mk app0)) app = spot 0 r s_body_identity hs i fl cl ver m unmarked app"
  by (simp add: exec_start_def resumed_field_def the_parser_def spot_def http_parser.defs exec.defs)

lemma feed_body:
  "bs \<noteq> [] \<Longrightarrow> [] \<notin> set bs \<Longrightarrow> k = length (concat bs) \<Longrightarrow> k < length_limit \<Longrightarrow> F_CONNECTION_CLOSE \<notin> fl \<Longrightarrow>
   \<exists>p. feed (event_settings h) (the_parser (spot n r s_body_identity hs i fl (of_nat k) (1, 1) m unmarked app)) app bs =
     Inr (p, fold h (map On_Body bs @ [On_Message_Complete]) app) \<and> pr_state p = s_start_req"
proof (induction bs arbitrary: n k app)
  case (Cons b bs)
  let ?p = "the_parser (spot n r s_body_identity hs i fl (of_nat k) (1, 1) m unmarked app)"
  have b: "b \<noteq> []" using Cons.prems by auto
  then have execute: "http_parser_execute (event_settings h) ?p app b =
      exec_result (exec_loop (event_settings h) b (spot 0 r s_body_identity hs i fl (of_nat k) (1, 1) m unmarked app))"
    by (simp add: execute_run resume_spot)
  show ?case
  proof (cases "bs = []")
    case True
    then have "http_parser_execute (event_settings h) ?p app b = Inr (length b,
        the_parser (spot (length b) r s_start_req hs i fl 0 (1, 1) m unmarked (h On_Message_Complete (h (On_Body b) app))),
        h On_Message_Complete (h (On_Body b) app))"
      unfolding execute using Cons.prems b run_body_last [of 0 b b fl h r hs i m app] True by simp
    with True show ?thesis by simp
  next
    case False
    have less: "length b < k" using Cons.prems False by (cases bs) auto
    have "http_parser_execute (event_settings h) ?p app b = Inr (length b,
        the_parser (spot (length b) r s_body_identity hs i fl (of_nat (k - length b)) (1, 1) m unmarked (h (On_Body b) app)),
        h (On_Body b) app)"
      unfolding execute using Cons.prems b less
      by (subst run_body_part [where b = b]) (simp_all del: of_nat_diff)
    with Cons.IH [of "k - length b" "length b" "h (On_Body b) app"] Cons.prems False show ?thesis
      by (simp del: of_nat_diff)
  qed
qed simp

lemma feed_request:
  assumes "head_fine m path qs kvs len" "body_length len = length (concat (b # bs))" "[] \<notin> set (b # bs)"
  shows "\<exists>p. feed (event_settings h) (http_parser_init HTTP_REQUEST) app ((request_head m path qs kvs len @ b) # bs) =
    Inr (p, fold h (head_events m path qs kvs len @ map On_Body (b # bs) @ [On_Message_Complete]) app)"
proof (cases "bs = []")
  case True
  then show ?thesis using execute_request [of m path qs kvs len b h app] assms by (auto simp: request_events_def)
next
  case False
  let ?data = "request_head m path qs kvs len @ b" and ?n = "length (request_head m path qs kvs len)"
    and ?k = "length (concat (b # bs))" and ?app = "fold h (head_events m path qs kvs len) app"
  have b: "b \<noteq> []" "length b < ?k" using assms(3) False by (cases bs; auto)+
  have k: "?k < length_limit" using body_length_bound [of len] assms(1,2) by (simp add: head_fine_def)
  obtain hs i fl where fl: "fl \<subseteq> {F_CONTENTLENGTH}"
    and run: "exec_loop (event_settings h) ?data (exec_start (http_parser_init HTTP_REQUEST) app) =
      exec_loop (event_settings h) ?data (spot ?n 0 s_body_identity hs i fl (of_nat ?k) (1, 1) m unmarked ?app)"
    using run_head [of ?data m path qs kvs len b ?n ?k h app] assms b by auto
  have "http_parser_execute (event_settings h) (http_parser_init HTTP_REQUEST) app ?data = Inr (length ?data,
      the_parser (spot (length ?data) 0 s_body_identity hs i fl (of_nat (?k - length b)) (1, 1) m unmarked (h (On_Body b) ?app)),
      h (On_Body b) ?app)"
    using b k run_body_part [of ?n ?data b ?k h 0 hs i fl "(1, 1)" m ?app] by (simp add: execute_run run del: of_nat_diff)
  moreover have "F_CONNECTION_CLOSE \<notin> fl" using fl by auto
  moreover note feed_body [of bs "?k - length b" fl h "length ?data" 0 hs i m "h (On_Body b) ?app"]
  ultimately show ?thesis using assms False k by auto
qed

section \<open>A length that does not fit\<close>

lemma run_length_overflow:
  assumes "drop n data = length_text ds @ rest" "digits_ok ds" "length_limit \<le> digits_from 0 ds"
    and "n + length (length_text ds) \<le> HTTP_MAX_HEADER_SIZE"
  shows "\<exists>c. exec_loop (event_settings h) data (at_byte n s_header_field_start hs i {} cl ver m unmarked app) = Error c \<and>
    pr_errno c = HPE_INVALID_CONTENT_LENGTH"
proof -
  obtain d s where ds: "ds = d # s" "IS_NUM d" "list_all IS_NUM s" using assms(2) by (cases ds) (auto simp: digits_ok_def)
  let ?run = "\<lambda>c. exec_loop (event_settings h) data c" and ?mk = "unmarked(on_header_value := Some (n + 15 + 1))"
    and ?app = "h (On_Header_Field ''Content-Length'') app"
  let ?c = "\<lambda>n r. spot n r s_header_value h_content_length 0 {F_CONTENTLENGTH} (of_nat (digit_of d)) ver m ?mk ?app"
  have rest: "drop (n + 15) data = CHR '' '' # ds @ crlf @ rest" "drop (n + 15 + 2) data = s @ crlf @ rest"
    using drop_more [of n data "''Content-Length:''" "CHR '' '' # ds @ crlf @ rest" 15]
      drop_more [of n data "''Content-Length: '' @ [d]" "s @ crlf @ rest" 17] assms(1) ds by (simp_all add: length_text_def add_ac)
  have colon: "n + length ''Content-Length'' + 1 = n + 15" by simp
  have len: "n + length ds + 18 \<le> HTTP_MAX_HEADER_SIZE" using assms(4) by (simp add: length_text_def crlf_def)
  have "?run (at_byte n s_header_field_start hs i {} cl ver m unmarked app) =
      ?run (at_byte (n + length ''Content-Length'' + 1) s_header_value_discard_ws (fst (name_state ''Content-Length''))
        (snd (name_state ''Content-Length'')) {} cl ver m unmarked ?app)"
    by (rule run_name [where rest = "CHR '' '' # ds @ crlf @ rest"]) (use assms(1) token_length len in \<open>simp_all add: length_text_def\<close>)
  also have "\<dots> = ?run (?c (n + 15 + 2) (n + 15 + 2))"
    unfolding name_state_length colon
    by (rule run_value_start [where ch = d and rest = "s @ crlf @ rest"]) (use rest ds len digit_char [of d] in \<open>simp_all add: length_first\<close>)
  finally have run: "?run (at_byte n s_header_field_start hs i {} cl ver m unmarked app) = ?run (?c (n + 15 + 2) (n + 15 + 2))" .
  obtain c0 r0 where r0: "drop (n + 15 + 2) data = c0 # r0" using rest(2) by (cases "s @ crlf @ rest") (auto simp: crlf_def)
  have d: "digit_of d < length_limit" using digit_of_bound [OF ds(2)] by (simp add: length_limit_def)
  obtain c' left where loop: "header_value_loop (s @ crlf @ rest) h_content_length (?c (n + 15 + 2) (n + 15 + 3)) = V_Fail c' left"
      "pr_errno c' = HPE_INVALID_CONTENT_LENGTH"
    using length_loop_overflow [of s "digit_of d" "?c (n + 15 + 2) (n + 15 + 3)" "crlf @ rest"] ds assms(3) d by auto
  have "st_header_value (event_settings h) data (?c (n + 15 + 2) (n + 15 + 3)) = Error (c'\<lparr>ex_p := length data - length left\<rparr>)"
    using loop(1) rest(2) by (simp add: st_header_value_def)
  then have "?run (?c (n + 15 + 2) (n + 15 + 2)) = Error (c'\<lparr>ex_p := length data - length left\<rparr>)"
    using len ds by (subst spot_step [OF r0]) (simp_all add: PARSING_HEADER_def exec_state_def add.commute)
  with run loop(2) show ?thesis by simp
qed

section \<open>A buffer that ends in a header\<close>

lemma name_loop_part:
  "name_read p hi \<Longrightarrow> token_text s \<Longrightarrow> \<exists>hi'. header_field_loop s hi = Some (hi', [])"
proof (induction s arbitrary: p hi)
  case (Cons ch s)
  then have ch: "TOKEN ch \<noteq> NUL" "token_text s" by (simp_all add: token_text_def)
  obtain hi1 where "header_field_char ch (TOKEN ch) hi = Some hi1" "name_read (p @ [TOKEN ch]) hi1"
    using name_read_char [OF Cons.prems(1) ch(1)] by blast
  with Cons.IH [of "p @ [TOKEN ch]" hi1] ch show ?case by (simp del: split_paired_Ex)
qed (simp add: token_text_def del: split_paired_Ex)

text \<open>A buffer that ends in the name of a header.\<close>

lemma run_name_part:
  assumes "drop n data = k" "k \<noteq> []" "token_text k" "n + length k < HTTP_MAX_HEADER_SIZE" "mk on_header_field = None"
  shows "\<exists>c. exec_loop S data (at_byte n s_header_field_start hs i fl cl ver m mk app) = exec_finish S data c \<and>
    ex_mark c = mk(on_header_field := Some n)"
proof -
  obtain ch s where k: "k = ch # s" "TOKEN ch \<noteq> NUL" "token_text s" using assms(2,3) by (cases k) (auto simp: token_text_def)
  then have ch: "ch \<noteq> CR" "ch \<noteq> LF" by auto
  let ?mk = "mk(on_header_field := Some n)" and ?hs = "first_header_state (TOKEN ch)"
  have len: "length data = n + length k" using assms(1,2) length_drop [of n data] by (cases k) auto
  have rest: "drop (n + 1) data = s" using drop_more [of n data "[ch]"] assms(1) k by simp
  have start: "exec_loop S data (at_byte n s_header_field_start hs i fl cl ver m mk app) =
      exec_loop S data (at_byte (n + 1) s_header_field ?hs 0 fl cl ver m ?mk app)"
    by (rule spot_byte [where ch = ch and rest = s])
      (use assms k ch in \<open>simp_all add: step_simps st_header_field_start_def MARK_def\<close>)
  show ?thesis
  proof (cases s)
    case Nil
    with start len k show ?thesis
      by (intro exI [of _ "at_byte (n + 1) s_header_field ?hs 0 fl cl ver m ?mk app"]) (simp add: exec_loop.simps)
  next
    case (Cons c0 r0)
    obtain hi where loop: "header_field_loop (drop (Suc n) data) (?hs, 0) = Some (hi, [])"
      using name_loop_part [OF name_read_first [OF k(2)] k(3)] rest by auto
    let ?c = "\<lambda>n r. spot n r s_header_field (fst hi) (snd hi) fl cl ver m ?mk app"
    have "st_header_field S data (spot (n + 1) (n + 2) s_header_field ?hs 0 fl cl ver m ?mk app) =
        Next (?c (length data - 1) (length data + 1))"
      using assms(4) k(1) len loop by (simp add: st_header_field_def Let_def spot_count split_beta)
    then have "exec_loop S data (at_byte (n + 1) s_header_field ?hs 0 fl cl ver m ?mk app) = exec_loop S data (?c (length data) (length data + 1))"
      using assms(4) k(1) len Cons rest
      by (subst spot_step [where ch = c0 and rest = r0]) (simp_all add: PARSING_HEADER_def exec_state_def)
    with start show ?thesis by (intro exI [of _ "?c (length data) (length data + 1)"]) (simp add: exec_loop.simps)
  qed
qed

section \<open>A whole request\<close>

lemma request_leaves:
  assumes "r = fold on_event (request_events m path qs kvs len body) (HttpRequest_new sock now)"
  shows "rq_url r = Mstr path" "rq_method r = Some (int (method_number m))" "rq_body r = Mstr body" "rq_finished r" "rq_socket r = sock"
    "rq_queries r = amap_store.put_all (map (\<lambda>(k, v). (Mstr k, Mstr v)) qs) []"
    "rq_headers r = amap_store.put_all (map (\<lambda>(k, v). (Mstr k, Mstr v)) (all_headers kvs len)) []"
  using head_leaves [OF refl, of m path qs kvs len sock now] by (simp_all add: assms request_events_def event_simps)

lemma unreserved_url_char: "unreserved ch \<Longrightarrow> query_value_char ch"
  by (auto simp: unreserved_def query_value_char_def IS_DELIMITER_def less_eq_char_def intro!: url_char_printable)

lemma hex_digit_url_char:
  assumes "n < 16"
  shows "query_value_char (hex_digit n)"
proof -
  have "list_all query_value_char ''0123456789ABCDEF''"
    by (auto simp: query_value_char_def IS_DELIMITER_def intro!: url_char_printable)
  with assms show ?thesis by (simp add: hex_digit_def list_all_length)
qed

lemma UrlEncode_query_chars: "list_all query_value_char (UrlEncode v)"
proof (induction v)
  case (Cons ch v)
  have "list_all query_value_char (encode_table ch)"
  proof (cases "unreserved ch")
    case False
    have "query_value_char (CHR ''%'')" by code_simp
    moreover have "(of_char ch :: nat) div 16 < 16" by (simp add: div_less_iff_less_mult)
    ultimately show ?thesis using False by (simp add: encode_table_def hex_digit_url_char)
  qed (simp add: encode_table_def unreserved_url_char)
  with Cons show ?case by simp
qed simp

section \<open>An example\<close>

lemma example_line: "line_fine HTTP_POST ''/p'' [(''a'', ''1'')]"
  by code_simp

lemma example_headers: "list_all header_ok [(''Host'', ''x'')]"
  by code_simp

lemma example_size: "length (request_head HTTP_POST ''/p'' [(''a'', ''1'')] [(''Host'', ''x'')] (Some ds)) = length ds + 51"
  by (simp add: request_head_def request_line_def query_text_def header_text_def length_part_def length_text_def crlf_def)

lemma example_head:
  "head_fine HTTP_POST ''/p'' [(''a'', ''1'')] [(''Host'', ''x'')] (Some ''2'')" "body_length (Some ''2'') = 2"
  using example_line example_headers
  by (simp_all add: head_fine_def example_size length_fine_def length_limit_def digits_ok_def IS_NUM_def
      digit_of_def less_eq_char_def HTTP_MAX_HEADER_SIZE_def)

section \<open>Properties\<close>

text \<open>C4: a well-formed request in one buffer is read to its end without an error, and the \<open>HttpRequest\<close> holds
  its path, its method, the last value of every parameter and header and the whole body; the parser is ready for the
  next request of the connection.\<close>

theorem request_read:
  assumes "head_fine m path qs kvs len" "body_length len = length body"
  shows "\<exists>p r. http_parser_execute HttpRequestBase_settings (http_parser_init HTTP_REQUEST) (HttpRequest_new sock now)
        (request_head m path qs kvs len @ body) = Inr (length (request_head m path qs kvs len @ body), p, r) \<and>
      pr_state p = s_start_req \<and> pr_errno p = HPE_OK \<and> rq_finished r \<and> rq_url r = Mstr path \<and>
      HttpRequest_method r = Inr (int (method_number m)) \<and> rq_body r = Mstr body \<and>
      (\<forall>k. map_of (rq_queries r) (Mstr k) = map_option Mstr (map_of (rev qs) k)) \<and>
      (\<forall>k. map_of (rq_headers r) (Mstr k) = map_option Mstr (map_of (rev (all_headers kvs len)) k))"
proof -
  have "\<exists>p. http_parser_execute HttpRequestBase_settings (http_parser_init HTTP_REQUEST) (HttpRequest_new sock now)
        (request_head m path qs kvs len @ body) = Inr (length (request_head m path qs kvs len @ body), p,
          fold on_event (request_events m path qs kvs len body) (HttpRequest_new sock now)) \<and>
      pr_state p = s_start_req \<and> pr_errno p = HPE_OK"
    unfolding HttpRequestBase_settings_events by (rule execute_request [OF assms])
  then show ?thesis
    by (auto simp: request_leaves [OF refl] HttpRequest_method_def map_of_put_all_Mstr)
qed

lemma request_read_witness:
  "\<exists>p r. http_parser_execute HttpRequestBase_settings (http_parser_init HTTP_REQUEST) (HttpRequest_new 4 0)
        (request_head HTTP_POST ''/p'' [(''a'', ''1'')] [(''Host'', ''x'')] (Some ''2'') @ ''{}'') = Inr (54, p, r) \<and>
      rq_finished r \<and> rq_url r = Mstr ''/p'' \<and> rq_body r = Mstr ''{}''"
  using request_read [OF example_head(1), of "''{}''" 4 0] example_head(2) by (auto simp: example_size)

text \<open>C20: a parameter whose value the client encoded as a URL arrives at the route procedure as it was.\<close>

theorem encoded_parameter_arrives:
  assumes "plain_method m" "path_ok path" "list_all header_ok kvs" "length_fine len" "body_length len = length body"
    and "\<forall>kv \<in> set ps. list_all query_key_char (fst kv)" "qs = map (\<lambda>(k, v). (k, UrlEncode v)) ps"
    and "length (request_head m path qs kvs len) \<le> HTTP_MAX_HEADER_SIZE" "map_of (rev ps) k = Some v"
  shows "\<exists>n p r. http_parser_execute HttpRequestBase_settings (http_parser_init HTTP_REQUEST) (HttpRequest_new sock now)
      (request_head m path qs kvs len @ body) = Inr (n, p, r) \<and> HttpRequest_query r (Mstr k) = Inr (Mstr v)"
proof -
  have "list_all pair_ok qs" using assms(6,7) by (auto simp: list_all_iff pair_ok_def UrlEncode_query_chars [unfolded list_all_iff])
  then have "head_fine m path qs kvs len" using assms by (simp add: head_fine_def line_fine_def)
  from execute_request [OF this assms(5), of on_event "HttpRequest_new sock now"] obtain p where
    "http_parser_execute HttpRequestBase_settings (http_parser_init HTTP_REQUEST) (HttpRequest_new sock now)
      (request_head m path qs kvs len @ body) = Inr (length (request_head m path qs kvs len @ body), p,
        fold on_event (request_events m path qs kvs len body) (HttpRequest_new sock now))"
    by (auto simp: HttpRequestBase_settings_events)
  moreover have "map_of (rev qs) k = Some (UrlEncode v)"
    using assms(7,9) by (simp add: rev_map map_of_map)
  then have "HttpRequest_query (fold on_event (request_events m path qs kvs len body) (HttpRequest_new sock now)) (Mstr k) = Inr (Mstr v)"
    using UrlEncode_no_nul [of v] by (simp add: HttpRequest_query_def request_leaves [OF refl] map_of_put_all_Mstr)
  ultimately show ?thesis by blast
qed

lemma encoded_parameter_arrives_witness:
  "\<exists>n p r. http_parser_execute HttpRequestBase_settings (http_parser_init HTTP_REQUEST) (HttpRequest_new 4 0)
      (request_head HTTP_POST ''/p'' [(''a'', ''%261'')] [(''Host'', ''x'')] (Some ''2'') @ ''{}'') = Inr (n, p, r) \<and>
    HttpRequest_query r (Mstr ''a'') = Inr (Mstr ''&1'')"
proof -
  have e: "UrlEncode ''&1'' = ''%261''" by code_simp
  have "plain_method HTTP_POST" "path_ok ''/p''" "list_all query_key_char ''a''" by code_simp+
  moreover have "length (request_head HTTP_POST ''/p'' [(''a'', ''%261'')] [(''Host'', ''x'')] (Some ''2'')) = 55"
    by (simp add: request_head_def request_line_def query_text_def header_text_def length_part_def length_text_def crlf_def)
  ultimately show ?thesis
    using encoded_parameter_arrives [of HTTP_POST "''/p''" "[(''Host'', ''x'')]" "Some ''2''" "''{}''" "[(''a'', ''&1'')]" _ "''a''" "''&1''" 4 0]
      example_headers example_head e by (simp add: head_fine_def HTTP_MAX_HEADER_SIZE_def)
qed

text \<open>C18: the body of a request that comes in several reads: only the part of the last read is kept.\<close>

theorem body_of_last_read:
  assumes "head_fine m path qs kvs len" "body_length len = length (concat (b # bs))" "[] \<notin> set (b # bs)"
  shows "\<exists>p r. feed HttpRequestBase_settings (http_parser_init HTTP_REQUEST) (HttpRequest_new sock now)
      ((request_head m path qs kvs len @ b) # bs) = Inr (p, r) \<and> rq_finished r \<and> rq_body r = Mstr (last (b # bs))"
proof -
  have last_body: "rq_body (fold on_event (map On_Body bs) r) = (if bs = [] then rq_body r else Mstr (last bs))" for r bs
    by (induction bs arbitrary: r) (auto simp: event_simps)
  have "rq_body (fold on_event (head_events m path qs kvs len @ map On_Body (b # bs) @ [On_Message_Complete]) r) = Mstr (last (b # bs))" for r
    unfolding fold_append comp_apply by (simp add: last_body event_simps)
  moreover have "rq_finished (fold on_event (head_events m path qs kvs len @ map On_Body (b # bs) @ [On_Message_Complete]) r)" for r
    by (simp add: event_simps)
  ultimately show ?thesis using feed_request [OF assms, of on_event "HttpRequest_new sock now"]
    by (auto simp: HttpRequestBase_settings_events)
qed

lemma body_of_last_read_witness:
  "\<exists>p r. feed HttpRequestBase_settings (http_parser_init HTTP_REQUEST) (HttpRequest_new 4 0)
      [request_head HTTP_POST ''/p'' [(''a'', ''1'')] [(''Host'', ''x'')] (Some ''2'') @ ''{'', ''}''] = Inr (p, r) \<and>
    rq_finished r \<and> rq_body r = Mstr ''}''"
  using body_of_last_read [OF example_head(1), of "''{''" "[''}'']" 4 0] example_head(2) by auto

text \<open>C19: the length of the body is read exactly as long as its decimal is at most \<open>2 ^ 64 - 7\<close>; a larger one stops the
  parser, it never wraps around.\<close>

theorem content_length_exact:
  assumes "line_fine m path qs" "list_all header_ok kvs" "digits_ok ds"
    and "length (request_head m path qs kvs (Some ds)) \<le> HTTP_MAX_HEADER_SIZE"
  shows "\<exists>n p a. http_parser_execute (event_settings h) (http_parser_init HTTP_REQUEST) app (request_head m path qs kvs (Some ds)) =
      Inr (n, p, a) \<and>
    (if digits_nat ds \<le> 2 ^ 64 - 7
     then pr_errno p = HPE_OK \<and> n = length (request_head m path qs kvs (Some ds)) \<and> unat (pr_content_length p) = digits_nat ds
     else pr_errno p = HPE_INVALID_CONTENT_LENGTH)"
proof -
  let ?data = "request_head m path qs kvs (Some ds)" and ?n = "length (request_line m path qs @ concat (map header_text kvs))"
  have val: "digits_from 0 ds = digits_nat ds" using assms(3) by (simp add: digits_ok_def digits_from_nat)
  show ?thesis
  proof (cases "digits_nat ds < length_limit")
    case True
    then have "head_fine m path qs kvs (Some ds)" "digits_nat ds < 2 ^ 64"
      using assms val by (simp_all add: head_fine_def length_fine_def length_limit_def)
    then obtain c where "exec_loop (event_settings h) ?data (exec_start (http_parser_init HTTP_REQUEST) app) =
        exec_loop (event_settings h) ?data c" "ex_mark c = unmarked" "pr_errno c = HPE_OK" "ex_p c = length ?data"
        "pr_content_length c = of_nat (digits_nat ds)"
      using run_head [of ?data m path qs kvs "Some ds" "[]" "length ?data" "digits_nat ds" h app] val
      by (auto simp: body_length_def split: if_splits)
    with True loop_end [of c ?data "event_settings h"] \<open>digits_nat ds < 2 ^ 64\<close> show ?thesis
      by (auto simp: execute_run length_limit_def unat_of_nat)
  next
    case False
    obtain hs i where "exec_loop (event_settings h) ?data (exec_start (http_parser_init HTTP_REQUEST) app) =
        exec_loop (event_settings h) ?data (at_byte ?n s_header_field_start hs i {} ULLONG_MAX (1, 1) m unmarked
          (fold h (line_events path qs @ concat (map header_events kvs)) app))"
      using run_to_length [of ?data m path qs kvs "CHR ''C''" "tl (length_text ds) @ crlf" ?n h app] assms
      by (auto simp: request_head_def length_part_def length_text_def)
    moreover have "drop ?n ?data = length_text ds @ crlf" by (simp add: request_head_def length_part_def)
    ultimately obtain c where "exec_loop (event_settings h) ?data (exec_start (http_parser_init HTTP_REQUEST) app) = Error c"
        "pr_errno c = HPE_INVALID_CONTENT_LENGTH"
      using False assms val run_length_overflow [of ?n ?data ds crlf h hs i ULLONG_MAX "(1, 1)" m "fold h (line_events path qs @ concat (map header_events kvs)) app"]
      by (auto simp: length_limit_def request_head_def length_part_def)
    with False show ?thesis by (auto simp: execute_run length_limit_def)
  qed
qed

lemma content_length_exact_witness:
  "\<exists>n p a. http_parser_execute HttpRequestBase_settings (http_parser_init HTTP_REQUEST) (HttpRequest_new 4 0)
      (request_head HTTP_POST ''/p'' [(''a'', ''1'')] [(''Host'', ''x'')] (Some ''18446744073709551610'')) = Inr (n, p, a) \<and>
    pr_errno p = HPE_INVALID_CONTENT_LENGTH"
proof -
  have "digits_ok ''18446744073709551610''" by code_simp
  moreover have "digits_nat ''18446744073709551610'' = 18446744073709551610"
    by (simp add: digits_nat_def is_digit_def)
  ultimately show ?thesis
    using content_length_exact [OF example_line example_headers, of "''18446744073709551610''" on_event "HttpRequest_new 4 0"]
    by (auto simp: example_size HTTP_MAX_HEADER_SIZE_def HttpRequestBase_settings_events)
qed

text \<open>C9: a request whose query has no \<open>=\<close> stops the server when a read ends within the name of its first header: the
  assertion that at most one text is pending fails.\<close>

theorem valueless_query_aborts:
  assumes "plain_method m" "path_ok path" "k \<noteq> []" "list_all query_key_char k" "name \<noteq> []" "token_text name"
    and "data = http_method_str m @ '' '' @ path @ ''?'' @ k @ '' HTTP/1.1'' @ crlf @ name" "length data < HTTP_MAX_HEADER_SIZE"
  shows "http_parser_execute HttpRequestBase_settings (http_parser_init HTTP_REQUEST) (HttpRequest_new sock now) data =
    Inl Assertion_Failed"
proof -
  let ?run = "exec_loop HttpRequestBase_settings data" and ?str = "http_method_str m" and ?app = "HttpRequest_new sock now"
  let ?i = "length ?str + 1" and ?line = "?str @ '' '' @ path @ ''?'' @ k @ '' HTTP/1.1'' @ crlf"
  let ?q = "?i + length path + 1"
  let ?mk = "unmarked(on_query_field := Some ?q)"
  have m: "m \<noteq> HTTP_CONNECT" using assms(1) by (simp add: plain_method_def)
  have at: "drop ?i data = path @ ''?'' @ k @ '' HTTP/1.1'' @ crlf @ name" "drop ?q data = k @ '' HTTP/1.1'' @ crlf @ name"
    "drop (?q + length k + 1) data = ''HTTP/1.1'' @ crlf @ name" "drop (?q + length k + 1 + 10) data = name"
    using assms(7) drop_more [of 0 data "?str @ '' ''" "path @ ''?'' @ k @ '' HTTP/1.1'' @ crlf @ name" ?i]
      drop_more [of 0 data "?str @ '' '' @ path @ ''?''" "k @ '' HTTP/1.1'' @ crlf @ name" ?q]
      drop_more [of 0 data "?str @ '' '' @ path @ ''?'' @ k @ '' ''" "''HTTP/1.1'' @ crlf @ name" "?q + length k + 1"]
      drop_more [of 0 data ?line name "?q + length k + 1 + 10"] by (simp_all add: crlf_def)
  have len: "length data = ?q + length k + 11 + length name" using assms(7) by (simp add: crlf_def)
  note events = HttpRequestBase_settings_events
  have "?run (exec_start (http_parser_init HTTP_REQUEST) ?app) =
      ?run (at_byte ?i s_req_spaces_before_url h_general ?i {} ULLONG_MAX (0, 0) m unmarked (on_event On_Message_Begin ?app))"
    unfolding start_spot events by (rule run_method [where rest = "path @ ''?'' @ k @ '' HTTP/1.1'' @ crlf @ name"])
      (use assms(1,7,8) len in simp_all)
  also have "\<dots> = ?run (at_byte ?q s_req_query_string_start h_general ?i {} ULLONG_MAX (0, 0) m unmarked
      (on_event (On_Url path) (on_event On_Message_Begin ?app)))"
    unfolding events using assms at m len by (subst run_path [where t = "CHR ''?''" and rest = "k @ '' HTTP/1.1'' @ crlf @ name"]) simp_all
  also have "\<dots> = ?run (at_byte (?q + length k + 1) s_req_http_start h_general ?i {} ULLONG_MAX (0, 0) m ?mk
      (on_event (On_Url path) (on_event On_Message_Begin ?app)))"
    by (rule run_query_bare [where rest = "''HTTP/1.1'' @ crlf @ name"]) (use assms at len in simp_all)
  also have "\<dots> = ?run (at_byte (?q + length k + 1 + 10) s_header_field_start h_general ?i {} ULLONG_MAX (1, 1) m ?mk
      (on_event (On_Url path) (on_event On_Message_Begin ?app)))"
    by (rule run_version [where rest = name]) (use assms at len in simp_all)
  finally have line: "?run (exec_start (http_parser_init HTTP_REQUEST) ?app) = \<dots>" .
  have "?q + length k + 1 + 10 + length name < HTTP_MAX_HEADER_SIZE" using assms(8) len by simp
  then have "\<exists>c. ?run (exec_start (http_parser_init HTTP_REQUEST) ?app) = exec_finish HttpRequestBase_settings data c \<and>
      ex_mark c = ?mk(on_header_field := Some (?q + length k + 1 + 10))"
    unfolding line by (intro run_name_part [OF at(4) assms(5,6)]) simp_all
  then have "?run (exec_start (http_parser_init HTTP_REQUEST) ?app) = Abort"
    by (auto simp: exec_finish_def marks_left_def)
  then show ?thesis using len by (subst execute_run) auto
qed

lemma valueless_query_aborts_witness:
  "http_parser_execute HttpRequestBase_settings (http_parser_init HTTP_REQUEST) (HttpRequest_new 4 0)
    (''GET /p?a HTTP/1.1'' @ crlf @ ''Ho'') = Inl Assertion_Failed"
proof -
  have "plain_method HTTP_GET" "path_ok ''/p''" "list_all query_key_char ''a''" "token_text ''Ho''" by code_simp+
  then show ?thesis
    using valueless_query_aborts [of HTTP_GET "''/p''" "''a''" "''Ho''" "''GET /p?a HTTP/1.1'' @ crlf @ ''Ho''" 4 0]
    by (simp add: crlf_def HTTP_MAX_HEADER_SIZE_def)
qed

end
