(* ===== verification/Http_Parser_Events.thy ===== *)
theory Http_Parser_Events
  imports Http_Request_Parse
begin

text \<open>
  The parser does not look at the application: what it does with the callbacks of \<open>HttpRequestBase\<close> is what the
  callbacks make of the events it records.
\<close>

section \<open>Another application\<close>

definition app_map :: "('a \<Rightarrow> 'b) \<Rightarrow> 'a exec \<Rightarrow> 'b exec" where
  "app_map g c = http_parser.extend (the_parser c) (exec.fields (g (ex_app c)) (ex_p c) (ex_mark c))"

fun flow_map :: "('a \<Rightarrow> 'b) \<Rightarrow> 'a flow \<Rightarrow> 'b flow" where
  "flow_map g (Next c) = Next (app_map g c)"
| "flow_map g (Return n c) = Return n (app_map g c)"
| "flow_map g (Error c) = Error (app_map g c)"
| "flow_map g Abort = Abort"

lemma app_map_fields [simp]:
  "pr_type (app_map g c) = pr_type c" "pr_flags (app_map g c) = pr_flags c" "pr_state (app_map g c) = pr_state c"
  "pr_header_state (app_map g c) = pr_header_state c" "pr_index (app_map g c) = pr_index c"
  "pr_lenient (app_map g c) = pr_lenient c" "pr_nread (app_map g c) = pr_nread c"
  "pr_content_length (app_map g c) = pr_content_length c" "pr_http_major (app_map g c) = pr_http_major c"
  "pr_http_minor (app_map g c) = pr_http_minor c" "pr_status_code (app_map g c) = pr_status_code c"
  "pr_method (app_map g c) = pr_method c" "pr_errno (app_map g c) = pr_errno c" "pr_upgrade (app_map g c) = pr_upgrade c"
  "ex_app (app_map g c) = g (ex_app c)" "ex_p (app_map g c) = ex_p c" "ex_mark (app_map g c) = ex_mark c"
  "the_parser (app_map g c) = the_parser c"
  by (simp_all add: app_map_def the_parser_def http_parser.defs exec.defs)

lemma app_map_updates [simp]:
  "(app_map g c)\<lparr>pr_type := t\<rparr> = app_map g (c\<lparr>pr_type := t\<rparr>)" "(app_map g c)\<lparr>pr_flags := f\<rparr> = app_map g (c\<lparr>pr_flags := f\<rparr>)"
  "(app_map g c)\<lparr>pr_state := s\<rparr> = app_map g (c\<lparr>pr_state := s\<rparr>)"
  "(app_map g c)\<lparr>pr_header_state := x\<rparr> = app_map g (c\<lparr>pr_header_state := x\<rparr>)"
  "(app_map g c)\<lparr>pr_index := i\<rparr> = app_map g (c\<lparr>pr_index := i\<rparr>)" "(app_map g c)\<lparr>pr_nread := n\<rparr> = app_map g (c\<lparr>pr_nread := n\<rparr>)"
  "(app_map g c)\<lparr>pr_content_length := l\<rparr> = app_map g (c\<lparr>pr_content_length := l\<rparr>)"
  "(app_map g c)\<lparr>pr_http_major := v\<rparr> = app_map g (c\<lparr>pr_http_major := v\<rparr>)"
  "(app_map g c)\<lparr>pr_http_minor := v\<rparr> = app_map g (c\<lparr>pr_http_minor := v\<rparr>)"
  "(app_map g c)\<lparr>pr_status_code := v\<rparr> = app_map g (c\<lparr>pr_status_code := v\<rparr>)"
  "(app_map g c)\<lparr>pr_method := m\<rparr> = app_map g (c\<lparr>pr_method := m\<rparr>)" "(app_map g c)\<lparr>pr_errno := e\<rparr> = app_map g (c\<lparr>pr_errno := e\<rparr>)"
  "(app_map g c)\<lparr>pr_upgrade := u\<rparr> = app_map g (c\<lparr>pr_upgrade := u\<rparr>)" "(app_map g c)\<lparr>ex_p := p\<rparr> = app_map g (c\<lparr>ex_p := p\<rparr>)"
  "(app_map g c)\<lparr>ex_mark := k\<rparr> = app_map g (c\<lparr>ex_mark := k\<rparr>)"
  "(app_map g c)\<lparr>ex_app := g a\<rparr> = app_map g (c\<lparr>ex_app := a\<rparr>)"
  by (cases c; simp add: app_map_def the_parser_def http_parser.defs exec.defs)+

lemma map_keep_alive [simp]:
  "http_message_needs_eof (app_map g c) = http_message_needs_eof c" "http_should_keep_alive (app_map g c) = http_should_keep_alive c"
  "start_state (app_map g c) = start_state c" "NEW_MESSAGE (app_map g c) = NEW_MESSAGE c"
  by (simp_all add: http_message_needs_eof_def http_should_keep_alive_def start_state_def NEW_MESSAGE_def)

lemma map_macros [simp]:
  "SET_ERRNO e (app_map g c) = app_map g (SET_ERRNO e c)" "goto s (app_map g c) = app_map g (goto s c)"
  "MARK cb (app_map g c) = app_map g (MARK cb c)" "fail e (app_map g c) = flow_map g (fail e c)"
  "clear_message (app_map g c) = app_map g (clear_message c)" "finish_value (app_map g c) = app_map g (finish_value c)"
  "take_body data (app_map g c) = app_map g (take_body data c)" "has_body (app_map g c) = has_body c"
  "marks_left (app_map g c) = marks_left c"
  by (simp_all add: SET_ERRNO_def goto_def MARK_def fail_def clear_message_def finish_value_def take_body_def has_body_def
      to_read_def remaining_def Let_def marks_left_def)

lemma flow_map_if [simp]: "flow_map g (if b then x else y) = (if b then flow_map g x else flow_map g y)"
  by simp

lemma map_count:
  "(\<And>c. k' (app_map g c) = flow_map g (k c)) \<Longrightarrow> COUNT_HEADER_SIZE v (app_map g c) k' = flow_map g (COUNT_HEADER_SIZE v c k)"
  by (simp add: COUNT_HEADER_SIZE_def Let_def)

lemma map_strict:
  "(\<And>c. k' (app_map g c) = flow_map g (k c)) \<Longrightarrow> STRICT_CHECK b (app_map g c) k' = flow_map g (STRICT_CHECK b c k)"
  by (simp add: STRICT_CHECK_def)

section \<open>The loop over a value\<close>

fun char_map :: "('a \<Rightarrow> 'b) \<Rightarrow> 'a value_char \<Rightarrow> 'b value_char" where
  "char_map g (V_Go h c) = V_Go h (app_map g c)"
| "char_map g (V_Error c) = V_Error (app_map g c)"
| "char_map g V_Assert = V_Assert"

fun end_map :: "('a \<Rightarrow> 'b) \<Rightarrow> 'a value_end \<Rightarrow> 'b value_end" where
  "end_map g (V_Stop h c rest) = V_Stop h (app_map g c) rest"
| "end_map g (V_Fail c rest) = V_Fail (app_map g c) rest"
| "end_map g V_Abort = V_Abort"

lemma map_value_char: "header_value_char ch h (app_map g c) = char_map g (header_value_char ch h c)"
  by (cases h) (simp_all add: header_value_char_def Let_def value_keyword_def value_length_def value_comma_def)

lemma map_value_loop: "header_value_loop s h (app_map g c) = end_map g (header_value_loop s h c)"
proof (induction s h c rule: header_value_loop.induct)
  case (1 s h c)
  then show ?case
    by (cases s) (auto simp: map_value_char split: value_char.split)
qed

section \<open>Settings that do the same\<close>

locale callback_map =
  fixes S :: "'a http_parser_settings" and T :: "'b http_parser_settings" and g :: "'a \<Rightarrow> 'b"
  assumes data_map: "rel_option (\<lambda>f f'. \<forall>p s a. f' p s (g a) = map_prod id g (f p s a)) (st_data S cb) (st_data T cb)"
    and notify_map: "rel_option (\<lambda>f f'. \<forall>p a. f' p (g a) = map_prod id g (f p a)) (st_notify S ev) (st_notify T ev)"
begin

lemma map_notify:
  "(\<And>c. k' (app_map g c) = flow_map g (k c)) \<Longrightarrow>
   CALLBACK_NOTIFY_er T ev er (app_map g c) k' = flow_map g (CALLBACK_NOTIFY_er S ev er c k)"
  using notify_map [of ev]
  by (cases "st_notify S ev"; cases "st_notify T ev") (auto simp: CALLBACK_NOTIFY_er_def Let_def split_beta)

lemma map_data:
  "(\<And>c. k' (app_map g c) = flow_map g (k c)) \<Longrightarrow>
   CALLBACK_DATA_er T data cb stop er (app_map g c) k' = flow_map g (CALLBACK_DATA_er S data cb stop er c k)"
  using data_map [of cb]
  by (cases "st_data S cb"; cases "st_data T cb") (auto simp: CALLBACK_DATA_er_def Let_def split_beta split: option.split)

lemmas map_callbacks = map_notify map_data map_count map_strict

lemma map_first_line:
  "st_dead ch (app_map g c) = flow_map g (st_dead ch c)" "add_major ch (app_map g c) = flow_map g (add_major ch c)"
  "first_minor s ch (app_map g c) = flow_map g (first_minor s ch c)" "add_minor ch (app_map g c) = flow_map g (add_minor ch c)"
  "expect want s ch (app_map g c) = flow_map g (expect want s ch c)"
  "st_start_res T ch (app_map g c) = flow_map g (st_start_res S ch c)"
  "st_res_or_resp_H ch (app_map g c) = flow_map g (st_res_or_resp_H ch c)"
  "st_res_first_http_major ch (app_map g c) = flow_map g (st_res_first_http_major ch c)"
  "st_res_first_status_code ch (app_map g c) = flow_map g (st_res_first_status_code ch c)"
  "st_res_status_code ch (app_map g c) = flow_map g (st_res_status_code ch c)"
  "st_res_status_start ch (app_map g c) = flow_map g (st_res_status_start ch c)"
  "st_res_status T data ch (app_map g c) = flow_map g (st_res_status S data ch c)"
  "st_req_http_start ch (app_map g c) = flow_map g (st_req_http_start ch c)"
  "st_req_first_http_major ch (app_map g c) = flow_map g (st_req_first_http_major ch c)"
  "st_req_line_almost_done ch (app_map g c) = flow_map g (st_req_line_almost_done ch c)"
  "url_step ch (app_map g c) = flow_map g (url_step ch c)"
  by (simp_all add: st_dead_def add_major_def first_minor_def add_minor_def expect_def st_start_res_def
      st_res_or_resp_H_def st_res_first_http_major_def st_res_first_status_code_def st_res_status_code_def
      st_res_status_start_def st_res_status_def st_req_http_start_def st_req_first_http_major_def
      st_req_line_almost_done_def url_step_def Let_def CALLBACK_NOTIFY_def CALLBACK_DATA_def map_callbacks)

lemma map_method:
  "st_start_req T ch (app_map g c) = flow_map g (st_start_req S ch c)" "st_req_method ch (app_map g c) = flow_map g (st_req_method ch c)"
  by (simp_all add: st_start_req_def st_req_method_def Let_def CALLBACK_NOTIFY_def map_callbacks split: option.split)

lemma map_request_line:
  "st_start_req_or_res T ch (app_map g c) = flow_map g (st_start_req_or_res S ch c)"
  "st_req_spaces_before_url ch (app_map g c) = flow_map g (st_req_spaces_before_url ch c)"
  "st_req_schema ch (app_map g c) = flow_map g (st_req_schema ch c)"
  "st_req_server_or_path T data ch (app_map g c) = flow_map g (st_req_server_or_path S data ch c)"
  "st_req_query_string T data ch (app_map g c) = flow_map g (st_req_query_string S data ch c)"
  "st_req_query_value T data ch (app_map g c) = flow_map g (st_req_query_value S data ch c)"
  "st_req_fragment T data ch (app_map g c) = flow_map g (st_req_fragment S data ch c)"
  "st_res_http_major ch (app_map g c) = flow_map g (st_res_http_major ch c)"
  "st_res_http_minor ch (app_map g c) = flow_map g (st_res_http_minor ch c)"
  "st_req_http_major ch (app_map g c) = flow_map g (st_req_http_major ch c)"
  "st_req_http_minor ch (app_map g c) = flow_map g (st_req_http_minor ch c)"
  by (simp_all add: st_start_req_or_res_def st_req_spaces_before_url_def st_req_schema_def st_req_server_or_path_def
      st_req_query_string_def st_req_query_value_def st_req_fragment_def st_res_http_major_def st_res_http_minor_def
      st_req_http_major_def st_req_http_minor_def Let_def CALLBACK_NOTIFY_def CALLBACK_DATA_def map_callbacks
      map_method map_first_line)

lemma map_message_done: "st_message_done T (app_map g c) = flow_map g (st_message_done S c)"
  by (simp add: st_message_done_def CALLBACK_NOTIFY_def map_callbacks)

lemmas map_notify_return = map_notify [where k' = "\<lambda>c. Return (ex_p c + 1) c" and k = "\<lambda>c. Return (ex_p c + 1) c", simplified]
  map_notify [where k' = Next and k = Next, simplified]

lemma map_headers_done: "st_headers_done T ch (app_map g c) = flow_map g (st_headers_done S ch c)"
  unfolding st_headers_done_def
  by (rule map_strict) (simp add: Let_def CALLBACK_NOTIFY_def map_notify_return cong: if_cong split del: if_split)

lemma map_headers_almost_done: "st_headers_almost_done T ch (app_map g c) = flow_map g (st_headers_almost_done S ch c)"
  using notify_map [of on_headers_complete]
  by (cases "st_notify S on_headers_complete"; cases "st_notify T on_headers_complete")
    (auto simp: st_headers_almost_done_def Let_def CALLBACK_NOTIFY_NOADVANCE_def map_callbacks map_message_done
      map_headers_done split_beta)

lemma map_header_field_start: "st_header_field_start T ch (app_map g c) = flow_map g (st_header_field_start S ch c)"
  by (simp add: st_header_field_start_def map_headers_almost_done)

lemma map_header_field: "st_header_field T data (app_map g c) = flow_map g (st_header_field S data c)"
  by (simp add: st_header_field_def Let_def CALLBACK_DATA_def map_callbacks split: option.split prod.split)

lemma map_header_value_start: "st_header_value_start ch (app_map g c) = flow_map g (st_header_value_start ch c)"
  by (cases "pr_header_state c") (simp_all add: st_header_value_start_def Let_def)

lemma map_headers:
  "st_header_value_discard_ws ch (app_map g c) = flow_map g (st_header_value_discard_ws ch c)"
  "st_header_value_lws T ch (app_map g c) = flow_map g (st_header_value_lws S ch c)"
  "st_header_value_discard_lws T data ch (app_map g c) = flow_map g (st_header_value_discard_lws S data ch c)"
  "st_header_almost_done ch (app_map g c) = flow_map g (st_header_almost_done ch c)"
  by (simp_all add: st_header_value_discard_ws_def st_header_value_lws_def st_header_value_discard_lws_def
      st_header_almost_done_def CALLBACK_DATA_NOADVANCE_def map_callbacks map_header_field_start map_header_value_start)

lemma map_header_value: "st_header_value T data (app_map g c) = flow_map g (st_header_value S data c)"
proof (cases "header_value_loop (drop (ex_p c) data) (pr_header_state c) c")
  case (V_Stop h c' rest)
  then show ?thesis
    by (simp add: st_header_value_def map_value_loop Let_def CALLBACK_DATA_def CALLBACK_DATA_NOADVANCE_def map_callbacks map_headers)
qed (simp_all add: st_header_value_def map_value_loop)

lemma map_chunks:
  "st_chunk_size_start ch (app_map g c) = flow_map g (st_chunk_size_start ch c)"
  "st_chunk_size ch (app_map g c) = flow_map g (st_chunk_size ch c)"
  "st_chunk_parameters ch (app_map g c) = flow_map g (st_chunk_parameters ch c)"
  "st_chunk_size_almost_done T ch (app_map g c) = flow_map g (st_chunk_size_almost_done S ch c)"
  "st_chunk_data_almost_done T data ch (app_map g c) = flow_map g (st_chunk_data_almost_done S data ch c)"
  "st_chunk_data_done T ch (app_map g c) = flow_map g (st_chunk_data_done S ch c)"
  by (simp_all add: st_chunk_size_start_def st_chunk_size_def st_chunk_parameters_def st_chunk_size_almost_done_def
      st_chunk_data_almost_done_def st_chunk_data_done_def Let_def CALLBACK_NOTIFY_def CALLBACK_DATA_def map_callbacks)

lemma map_body:
  "st_body_identity T data (app_map g c) = flow_map g (st_body_identity S data c)"
  "st_chunk_data data (app_map g c) = flow_map g (st_chunk_data data c)"
  "st_body_identity_eof data (app_map g c) = flow_map g (st_body_identity_eof data c)"
  by (simp_all add: st_body_identity_def st_chunk_data_def st_body_identity_eof_def Let_def map_callbacks map_message_done)

lemma map_state: "exec_state T data ch (app_map g c) = flow_map g (exec_state S data ch c)"
  unfolding exec_state_def
  by (cases "pr_state c"; simp only: app_map_fields pstate.case map_first_line map_method map_request_line map_message_done
      map_headers_done map_headers_almost_done map_header_field_start map_header_value_start map_headers map_header_field
      map_header_value map_chunks map_body)

lemma map_byte: "exec_byte T data (app_map g c) = flow_map g (exec_byte S data c)"
  by (simp add: exec_byte_def Let_def map_count map_state)

lemma map_finish: "exec_finish T data (app_map g c) = flow_map g (exec_finish S data c)"
  by (simp add: exec_finish_def CALLBACK_DATA_NOADVANCE_def map_callbacks)

lemma map_loop: "exec_loop T data (app_map g c) = flow_map g (exec_loop S data c)"
proof (induction "length data - ex_p c" arbitrary: c rule: less_induct)
  case less
  show ?case
  proof (cases "ex_p c < length data")
    case True
    then have forward: "forward (ex_p c) (exec_byte S data c)" by (rule forward_byte)
    show ?thesis
    proof (cases "exec_byte S data c")
      case (Next c')
      with forward True less [of "c'\<lparr>ex_p := ex_p c' + 1\<rparr>"] show ?thesis
        by (subst (1 2) exec_loop.simps) (simp add: map_byte)
    qed (use True in \<open>subst (1 2) exec_loop.simps, simp add: map_byte\<close>)+
  next
    case False
    then show ?thesis by (subst (1 2) exec_loop.simps) (simp add: map_finish)
  qed
qed

lemma map_execute:
  "http_parser_execute T p (g a) data = map_sum id (\<lambda>(n, p', a'). (n, p', g a')) (http_parser_execute S p a data)"
proof -
  have start: "exec_start p (g a) = app_map g (exec_start p a)"
    by (simp add: exec_start_def app_map_def the_parser_def http_parser.defs exec.defs)
  have result: "exec_result (flow_map g fl) = map_sum id (\<lambda>(n, p', a'). (n, p', g a')) (exec_result fl)" for fl
    by (cases fl) (simp_all add: Let_def)
  show ?thesis
    by (simp add: http_parser_execute_def Let_def start map_loop result CALLBACK_NOTIFY_NOADVANCE_def
        map_notify [where k' = "Return 0" and k = "Return 0"])
qed

end

section \<open>The events of a request\<close>

text \<open>\<open>http_parser_execute\<close> as the function of a parser and a chunk that \<open>HttpRequest\<close> takes.\<close>

definition recorder :: "http_event list http_parser_settings" where
  "recorder = event_settings (\<lambda>e es. es @ [e])"

interpretation recorded: callback_map recorder "event_settings h" "\<lambda>es. fold h es a"
  by unfold_locales (simp_all add: recorder_def event_settings_def rel_option_iff split: option.split)

definition parser_events :: "http_parser parse_function" where
  "parser_events p data = (case http_parser_execute recorder p [] data of Inr (n, p', es) \<Rightarrow> (es, p') | Inl f \<Rightarrow> ([], p))"

lemma execute_recorded:
  "http_parser_execute (event_settings h) p a data =
     map_sum id (\<lambda>(n, p', es). (n, p', fold h es a)) (http_parser_execute recorder p [] data)"
  using recorded.map_execute [of h p "[]" a data] by simp

section \<open>Properties\<close>


end
