(* ===== verification/Auth_End_To_End.thy ===== *)
theory Auth_End_To_End
  imports Http_Parser_Events Http_Server Auth_Service
begin

text \<open>
  From the bytes a client sends to the bytes it gets: the parser of \<open>server/http_parser.cpp\<close> under the callbacks of
  \<open>server/http_request.cpp\<close>, the server of \<open>server/http_server.cpp\<close>, the routes of the authentication service and the
  JSON reader and writer.
\<close>

section \<open>One request through the server\<close>

lemma append_request:
  assumes "head_fine m path qs kvs len" "body_length len = length body"
  shows "\<exists>p. HttpRequest_Append parser_events (request_head m path qs kvs len @ body) (http_parser_init HTTP_REQUEST, r) =
    (p, fold on_event (request_events m path qs kvs len body) r)"
proof -
  obtain p where "http_parser_execute recorder (http_parser_init HTTP_REQUEST) [] (request_head m path qs kvs len @ body) =
      Inr (length (request_head m path qs kvs len @ body), p, fold (\<lambda>e es. es @ [e]) (request_events m path qs kvs len body) [])"
    using execute_request [OF assms, of "\<lambda>e es. es @ [e]" "[]"] unfolding recorder_def by auto
  moreover have "fold (\<lambda>e es. es @ [e]) evs es = es @ evs" for evs es :: "http_event list"
    by (induction evs arbitrary: es) auto
  ultimately show ?thesis by (simp add: HttpRequest_Append_def parser_events_def)
qed

lemma serve_request:
  assumes "head_fine m path qs kvs len" "body_length len = length body"
    and "HttpServer_OnAccept (http_parser_init HTTP_REQUEST) now client hs = (client1, hs1)"
    and "HttpServer_OnRead parser_events client1 (request_head m path qs kvs len @ body) hs1 = (rc, hs2)"
  shows "rc = -1" "hs_pool hs2 = hs_pool hs @ [hs_next hs]" "hs_fault hs2 = hs_fault hs"
    "\<exists>p. hs_requests hs2 (hs_next hs) = Some (p, fold on_event (request_events m path qs kvs len body) (HttpRequest_new (cl_fd client) now))"
proof -
  obtain p where p: "HttpRequest_Append parser_events (request_head m path qs kvs len @ body)
        (http_parser_init HTTP_REQUEST, HttpRequest_new (cl_fd client) now) =
      (p, fold on_event (request_events m path qs kvs len body) (HttpRequest_new (cl_fd client) now))"
    using append_request [OF assms(1,2)] by blast
  have "rq_finished (fold on_event (request_events m path qs kvs len body) (HttpRequest_new (cl_fd client) now))"
    by (rule request_leaves(4) [OF refl])
  with assms(3,4) p show "rc = -1" "hs_pool hs2 = hs_pool hs @ [hs_next hs]" "hs_fault hs2 = hs_fault hs"
    "\<exists>p. hs_requests hs2 (hs_next hs) = Some (p, fold on_event (request_events m path qs kvs len body) (HttpRequest_new (cl_fd client) now))"
    by (auto simp: HttpServer_OnAccept_def HttpServer_OnRead_def)
qed

section \<open>The answer of the service\<close>

definition check_user_answer :: "real_io \<Rightarrow> bool \<Rightarrow> string" where
  "check_user_answer io granted = HttpResponse_Message
     (SetContent (Mstr (JsonDocument_Write io False (answer_doc granted))) (MosqAuthRouteProc_Process HttpResponse_new))"

lemma SendResponse_all:
  "errno \<noteq> EAGAIN \<Longrightarrow> n = length (mstr_str buffer) \<Longrightarrow> SendResponse now (Sent n) errno sock buffer None = (None, mstr_str buffer, errno)"
  by (simp add: SendResponse_def Let_def mlen_def EWOULDBLOCK_def)

section \<open>Properties\<close>

text \<open>C1: a POST to \<open>/mosquitto/checkuser\<close> that arrives in one read is answered with \<open>code\<close> 0 when the user name and
  the password are the trusted ones or the user name has the trusted prefix, and with -1 otherwise, and the connection is
  closed; this is what the bytes on the wire are, from the parser through the server and the table to the answer.\<close>

theorem check_user_end_to_end:
  assumes "mm_lock m \<noteq> Wild_Lock" "list_all header_ok kvs" "length body < 2 ^ 64 - 6"
    and "req = request_head http_method.HTTP_POST ''/mosquitto/checkuser'' [] kvs (Some (dec_nat (length body)))"
    and "length req \<le> HTTP_MAX_HEADER_SIZE" "JsonDocument_Parse io body JsonDocument = Inr (ok, JObject d)"
    and "map_of d ''name'' = Some (JString name)" "map_of d ''clientid'' = Some (JString cid)"
    and "map_of d ''username'' = Some (JString user)" "map_of d ''password'' = Some (JString pass)"
    and "granted = ((mm_trust_username m = user \<and> mm_trust_password m = pass) \<or> prefix (mm_trust_prefix m) user)"
    and "errno \<noteq> EAGAIN" "n = length (check_user_answer io granted)"
    and "HttpServer_OnAccept (http_parser_init HTTP_REQUEST) now client hs = (client1, hs1)"
    and "HttpServer_OnRead parser_events client1 (req @ body) hs1 = (rc, hs2)"
  shows "rc = -1 \<and> hs_pool hs2 = hs_pool hs @ [hs_next hs] \<and> (\<exists>p r. hs_requests hs2 (hs_next hs) = Some (p, r) \<and>
    HttpTask_Run (Some (AuthServiceRoutes_InitTable io)) t (Sent n) errno r m =
      Inr (Some (Closed (cl_fd client)), check_user_answer io granted, errno, m))"
proof -
  let ?len = "Some (dec_nat (length body))" and ?path = "''/mosquitto/checkuser''"
  have line: "line_fine http_method.HTTP_POST ?path []" by code_simp
  have fine: "head_fine http_method.HTTP_POST ?path [] kvs ?len" "body_length ?len = length body"
    using line assms(2,3,4,5) by (simp_all add: head_fine_def length_fine_def digits_ok_def dec_nat_num length_limit_def)
  note served = serve_request [OF fine assms(14), of rc hs2, folded assms(4), OF assms(15)]
  let ?r = "fold on_event (request_events http_method.HTTP_POST ?path [] kvs ?len body) (HttpRequest_new (cl_fd client) now)"
  have r: "rq_method ?r = Some Http_Routes.HTTP_POST" "rq_url ?r = Mstr ?path" "rq_body ?r = Mstr body" "rq_socket ?r = cl_fd client"
    by (simp_all only: request_leaves [OF refl] Http_Routes.HTTP_POST_def) (simp add: method_number_def HTTP_METHOD_MAP_def)
  have "Routes_Process (AuthServiceRoutes_InitTable io) ?r HttpResponse_new m =
      Inr (0, SetContent (Mstr (JsonDocument_Write io False (answer_doc granted))) (MosqAuthRouteProc_Process HttpResponse_new), m)"
    unfolding table_check_user [OF r(1,2)]
    using assms(6-11) by (simp add: RouteCheckUser_decision [OF assms(1)] r(3))
  then have "HttpTask_Run (Some (AuthServiceRoutes_InitTable io)) t (Sent n) errno ?r m =
      Inr (Some (Closed (cl_fd client)), check_user_answer io granted, errno, m)"
    using assms(12,13) by (simp add: HttpTask_Run_def SendResponse_all check_user_answer_def r(4))
  with served show ?thesis by blast
qed

definition example_user :: "(string \<times> json) list" where
  "example_user = [(''clientid'', JString ''c''), (''name'', JString ''n''), (''password'', JString ''p''), (''username'', JString ''u'')]"

definition example_body :: string where
  "example_body = JsonDocument_Write example_io False (JObject example_user)"

definition example_manager :: mosq_manager where
  "example_manager = (MosquittoContextManager_new Null_Lock [] [] [])\<lparr>mm_trust_username := ''u'', mm_trust_password := ''p''\<rparr>"

definition example_client :: client_context where
  "example_client = \<lparr>cl_fd = 7, cl_userptr = None\<rparr>"

definition example_server :: "http_parser http_server" where
  "example_server = \<lparr>hs_requests = \<lambda>_. None, hs_next = 0, hs_pool = [], hs_fault = None\<rparr>"

lemma example_body_length: "length example_body = 57"
  by code_simp

lemma example_body_read: "JsonDocument_Parse example_io example_body JsonDocument = Inr (True, JObject example_user)"
  unfolding example_body_def by (rule flat_read) (simp add: flat_object_def example_user_def amap_ok_def)

lemma example_head_length:
  "length (request_head http_method.HTTP_POST ''/mosquitto/checkuser'' [] [(''Host'', ''x'')] (Some ''57'')) \<le> HTTP_MAX_HEADER_SIZE"
  by (simp add: request_head_def request_line_def query_text_def header_text_def length_part_def length_text_def crlf_def
      HTTP_MAX_HEADER_SIZE_def)

lemma check_user_end_to_end_witness:
  "\<exists>client1 hs1 hs2 p r. HttpServer_OnAccept (http_parser_init HTTP_REQUEST) 50 example_client example_server = (client1, hs1) \<and>
    HttpServer_OnRead parser_events client1
      (request_head http_method.HTTP_POST ''/mosquitto/checkuser'' [] [(''Host'', ''x'')] (Some ''57'') @ example_body) hs1 = (-1, hs2) \<and>
    hs_requests hs2 0 = Some (p, r) \<and>
    HttpTask_Run (Some (AuthServiceRoutes_InitTable example_io)) 60
        (Sent (length (check_user_answer example_io True))) 0 r example_manager =
      Inr (Some (Closed 7), check_user_answer example_io True, 0, example_manager)"
proof -
  let ?head = "request_head http_method.HTTP_POST ''/mosquitto/checkuser'' [] [(''Host'', ''x'')] (Some ''57'')"
  obtain client1 hs1 where accept: "HttpServer_OnAccept (http_parser_init HTTP_REQUEST) 50 example_client example_server = (client1, hs1)"
    by (cases "HttpServer_OnAccept (http_parser_init HTTP_REQUEST) 50 example_client example_server")
  obtain rc hs2 where read: "HttpServer_OnRead parser_events client1 (?head @ example_body) hs1 = (rc, hs2)"
    by (cases "HttpServer_OnRead parser_events client1 (?head @ example_body) hs1")
  have len: "dec_nat 57 = ''57''" by code_simp
  have "mm_lock example_manager \<noteq> Wild_Lock" "mm_trust_username example_manager = ''u''" "mm_trust_password example_manager = ''p''"
    by (simp_all add: example_manager_def MosquittoContextManager_new_def)
  moreover have "cl_fd example_client = 7" "hs_next example_server = 0" by (simp_all add: example_client_def example_server_def)
  ultimately show ?thesis
    using check_user_end_to_end [of example_manager "[(''Host'', ''x'')]" example_body ?head example_io True example_user "''n''" "''c''" "''u''" "''p''" True 0
        "length (check_user_answer example_io True)" 50 example_client example_server client1 hs1 rc hs2 60]
      accept read example_headers len example_body_length example_body_read example_head_length
    by (auto simp: example_user_def EAGAIN_def)
qed

text \<open>C10: a POST to any of the three routes whose body is a JSON text of a value nested deeper than 1000 levels makes the task
  that answers it throw, which nothing in the program catches: the service ends, whatever the value is and whoever sent
  it.\<close>

theorem deep_body_stops_service:
  assumes "path \<in> {''/mosquitto/checkuser'', ''/mosquitto/checkacl'', ''/mosquitto/initialize''}"
    and "list_all header_ok kvs" "length body < 2 ^ 64 - 6"
    and "req = request_head http_method.HTTP_POST path [] kvs (Some (dec_nat (length body)))"
    and "length req \<le> HTTP_MAX_HEADER_SIZE" "json_text io v body" "1000 < json_depth v"
    and "HttpServer_OnAccept (http_parser_init HTTP_REQUEST) now client hs = (client1, hs1)"
    and "HttpServer_OnRead parser_events client1 (req @ body) hs1 = (rc, hs2)"
  shows "\<exists>p r. hs_requests hs2 (hs_next hs) = Some (p, r) \<and>
    HttpTask_Run (Some (AuthServiceRoutes_InitTable io)) t send errno r m = Inl Runtime_Error"
proof -
  let ?len = "Some (dec_nat (length body))"
  have "line_fine http_method.HTTP_POST ''/mosquitto/checkuser'' []" "line_fine http_method.HTTP_POST ''/mosquitto/checkacl'' []"
    "line_fine http_method.HTTP_POST ''/mosquitto/initialize'' []" by code_simp+
  then have fine: "head_fine http_method.HTTP_POST path [] kvs ?len" "body_length ?len = length body"
    using assms(1-5) by (auto simp: head_fine_def length_fine_def digits_ok_def dec_nat_num length_limit_def)
  note served = serve_request [OF fine assms(8), of rc hs2, folded assms(4), OF assms(9)]
  let ?r = "fold on_event (request_events http_method.HTTP_POST path [] kvs ?len body) (HttpRequest_new (cl_fd client) now)"
  have r: "rq_method ?r = Some Http_Routes.HTTP_POST" "rq_url ?r = Mstr path" "rq_body ?r = Mstr body"
    by (simp_all only: request_leaves [OF refl] Http_Routes.HTTP_POST_def) (simp add: method_number_def HTTP_METHOD_MAP_def)
  have "JsonDocument_Parse io (mstr_str (rq_body ?r)) JsonDocument = Inl Runtime_Error"
    using parse_text [OF assms(6), of "[]" JsonDocument] assms(7) by (simp add: r(3))
  then have "Routes_Process (AuthServiceRoutes_InitTable io) ?r HttpResponse_new m = Inl Runtime_Error"
    using assms(1) r(1,2) by (intro routes_parse_fault) auto
  then have "HttpTask_Run (Some (AuthServiceRoutes_InitTable io)) t send errno ?r m = Inl Runtime_Error"
    by (simp add: HttpTask_Run_def)
  with served(4) show ?thesis by blast
qed

lemma nested_text_length: "length (nested_text n) = 2 * Suc n"
  by (simp add: nested_text_def)

lemma deep_body_stops_service_witness:
  "\<exists>client1 hs1 rc hs2 p r. HttpServer_OnAccept (http_parser_init HTTP_REQUEST) 50 example_client example_server = (client1, hs1) \<and>
    HttpServer_OnRead parser_events client1
      (request_head http_method.HTTP_POST ''/mosquitto/checkuser'' [] [(''Host'', ''x'')] (Some ''2002'') @ nested_text 1000) hs1 = (rc, hs2) \<and>
    hs_requests hs2 0 = Some (p, r) \<and>
    HttpTask_Run (Some (AuthServiceRoutes_InitTable example_io)) 60 (Sent 0) 0 r example_manager = Inl Runtime_Error"
proof -
  let ?head = "request_head http_method.HTTP_POST ''/mosquitto/checkuser'' [] [(''Host'', ''x'')] (Some ''2002'')"
  obtain client1 hs1 where accept: "HttpServer_OnAccept (http_parser_init HTTP_REQUEST) 50 example_client example_server = (client1, hs1)"
    by (cases "HttpServer_OnAccept (http_parser_init HTTP_REQUEST) 50 example_client example_server")
  obtain rc hs2 where read: "HttpServer_OnRead parser_events client1 (?head @ nested_text 1000) hs1 = (rc, hs2)"
    by (cases "HttpServer_OnRead parser_events client1 (?head @ nested_text 1000) hs1")
  have len: "dec_nat 2002 = ''2002''" by code_simp
  have "length ?head \<le> HTTP_MAX_HEADER_SIZE"
    by (simp add: request_head_def request_line_def query_text_def header_text_def length_part_def length_text_def crlf_def
        HTTP_MAX_HEADER_SIZE_def)
  moreover have "hs_next example_server = 0" by (simp add: example_server_def)
  ultimately show ?thesis
    using deep_body_stops_service [of "''/mosquitto/checkuser''" "[(''Host'', ''x'')]" "nested_text 1000" ?head example_io "nested 1000"
        50 example_client example_server client1 hs1 rc hs2 60 "Sent 0" 0 example_manager]
      accept read example_headers len by (auto simp: nested_text_length json_text_nested)
qed

end
