(* ===== verification/Logger.thy ===== *)
theory Logger
  imports Locks Decimal
begin

text \<open>
  \<open>helper/logger.cpp\<close>: messages, the logger and its storages.  What is written is text on the console and in
  the file, which is \<open>None\<close> when it could not be opened; the date and what \<open>vsnprintf\<close> prints are arguments.
\<close>

section \<open>Levels and storages\<close>

datatype log_level = Debug | Info | Warning | Error | Fatal | MaxLevel

definition level_number :: "log_level \<Rightarrow> int" where
  "level_number l = (case l of Debug \<Rightarrow> 0 | Info \<Rightarrow> 1 | Warning \<Rightarrow> 2 | Error \<Rightarrow> 3 | Fatal \<Rightarrow> 4 | MaxLevel \<Rightarrow> 5)"

definition LogLevelName :: "string list" where
  "LogLevelName = [''Debug'', ''Info'', ''Warning'', ''Error'', ''Fatal'']"

record log_output =
  lo_console :: string
  lo_file :: "string option"

datatype storage = Console lock_ptr | SingleFile lock_ptr

definition Console_Write :: "lock_ptr \<Rightarrow> string \<Rightarrow> log_output \<Rightarrow> log_output outcome" where
  "Console_Write lock message out = AutoLock lock (Inr (out\<lparr>lo_console := lo_console out @ message @ [CHR 0x0A]\<rparr>))"

definition SingleFile_Write :: "lock_ptr \<Rightarrow> string \<Rightarrow> log_output \<Rightarrow> log_output outcome" where
  "SingleFile_Write lock message out =
     AutoLock lock (Inr (out\<lparr>lo_file := map_option (\<lambda>t. t @ message @ [CHR 0x0A]) (lo_file out)\<rparr>))"

definition Storage_Write :: "storage \<Rightarrow> string \<Rightarrow> log_output \<Rightarrow> log_output outcome" where
  "Storage_Write st message out =
     (case st of Console lock \<Rightarrow> Console_Write lock message out | SingleFile lock \<Rightarrow> SingleFile_Write lock message out)"

section \<open>The logger\<close>

record logger =
  lg_level :: log_level
  lg_storage :: storage

definition Logger_new :: "log_level \<Rightarrow> logger" where
  "Logger_new level = \<lparr>lg_level = level, lg_storage = Console Null_Lock\<rparr>"

definition Logger_SetLevel :: "log_level \<Rightarrow> logger \<Rightarrow> logger" where
  "Logger_SetLevel level lg = lg\<lparr>lg_level := level\<rparr>"

definition Logger_SetStorage :: "storage \<Rightarrow> logger \<Rightarrow> logger" where
  "Logger_SetStorage st lg = lg\<lparr>lg_storage := st\<rparr>"

text \<open>The five methods.\<close>

definition write_at :: "log_level \<Rightarrow> logger \<Rightarrow> string \<Rightarrow> log_output \<Rightarrow> log_output outcome" where
  "write_at level lg message out =
     (if level_number (lg_level lg) \<le> level_number level then Storage_Write (lg_storage lg) message out else Inr out)"

definition Logger_debug :: "logger \<Rightarrow> string \<Rightarrow> log_output \<Rightarrow> log_output outcome" where
  "Logger_debug = write_at Debug"

definition Logger_info :: "logger \<Rightarrow> string \<Rightarrow> log_output \<Rightarrow> log_output outcome" where
  "Logger_info = write_at Info"

definition Logger_warning :: "logger \<Rightarrow> string \<Rightarrow> log_output \<Rightarrow> log_output outcome" where
  "Logger_warning = write_at Warning"

definition Logger_error :: "logger \<Rightarrow> string \<Rightarrow> log_output \<Rightarrow> log_output outcome" where
  "Logger_error = write_at Error"

definition Logger_fatal :: "logger \<Rightarrow> string \<Rightarrow> log_output \<Rightarrow> log_output outcome" where
  "Logger_fatal = write_at Fatal"

text \<open>\<open>log\<close> indexes the table of methods with \<open>level_\<close>, the threshold, and never looks at \<open>level\<close>.\<close>

definition Logger_methods :: "(logger \<Rightarrow> string \<Rightarrow> log_output \<Rightarrow> log_output outcome) list" where
  "Logger_methods = [Logger_debug, Logger_info, Logger_warning, Logger_error, Logger_fatal]"

definition Logger_log :: "log_level \<Rightarrow> logger \<Rightarrow> string \<Rightarrow> log_output \<Rightarrow> log_output outcome" where
  "Logger_log level lg message out =
     (let i = level_number (lg_level lg)
      in if 0 \<le> i \<and> i < level_number MaxLevel then (Logger_methods ! nat i) lg message out else Inr out)"

section \<open>Messages\<close>

record log_message =
  ms_level :: log_level
  ms_text :: string

definition Message_put :: "string \<Rightarrow> log_message \<Rightarrow> log_message" where
  "Message_put t m = m\<lparr>ms_text := ms_text m @ t\<rparr>"

definition Message_new :: "string \<Rightarrow> log_level \<Rightarrow> log_message outcome" where
  "Message_new now level =
     (if level = MaxLevel then Inl Out_Of_Bounds
      else Inr \<lparr>ms_level = level, ms_text = ''['' @ now @ '']-'' @ LogLevelName ! nat (level_number level) @ '' ''\<rparr>)"

text \<open>\<open>format\<close>: the buffer of the thread keeps all but the last character of its size of what is printed; the
  first argument is whether it could be allocated.\<close>

definition message_buffer_size :: int where
  "message_buffer_size = 4 * 1024"

definition Message_format :: "bool \<Rightarrow> string \<Rightarrow> log_message \<Rightarrow> log_message" where
  "Message_format allocated printed m =
     (let wr = int (length printed);
          message_buffer = take (nat (message_buffer_size - 1)) printed
      in if \<not> allocated \<or> wr \<le> 0 then m
         else if message_buffer_size \<le> wr then
           Message_put (c_str (take (nat (message_buffer_size - 32)) message_buffer) @ ''...'' @
             dec_int (wr - message_buffer_size + 32) @ ''more bytes'') m
         else Message_put (c_str message_buffer) m)"

text \<open>The destructor.\<close>

definition Message_end :: "logger option \<Rightarrow> log_message \<Rightarrow> log_output \<Rightarrow> log_output outcome" where
  "Message_end lg m out = (case lg of None \<Rightarrow> Inr out | Some l \<Rightarrow> Logger_log (ms_level m) l (ms_text m) out)"

text \<open>A statement \<open>logger::Info() << text\<close>.\<close>

definition log_statement :: "logger option \<Rightarrow> string \<Rightarrow> log_level \<Rightarrow> string \<Rightarrow> log_output \<Rightarrow> log_output outcome" where
  "log_statement lg now level t out = obind (Message_new now level) (\<lambda>m. Message_end lg (Message_put t m) out)"

section \<open>Properties\<close>

lemma Logger_log_eq:
  "Logger_log level lg message out =
     (if lg_level lg = MaxLevel then Inr out else Storage_Write (lg_storage lg) message out)"
  by (cases "lg_level lg")
    (simp_all add: Logger_log_def level_number_def Logger_methods_def Logger_debug_def Logger_info_def Logger_warning_def
      Logger_error_def Logger_fatal_def write_at_def numeral_2_eq_2 numeral_3_eq_3 numeral_eq_Suc)

text \<open>A threshold filters nothing: whatever level below \<open>MaxLevel\<close> is set, a message of any level is written.\<close>

theorem threshold_ignored:
  assumes "threshold \<noteq> MaxLevel"
  shows "Logger_log level (Logger_SetLevel threshold lg) message out = Storage_Write (lg_storage lg) message out"
  using assms by (simp add: Logger_log_eq Logger_SetLevel_def)

lemma threshold_ignored_witness:
  "Logger_log Debug (Logger_SetLevel Fatal (Logger_new Debug)) ''x'' \<lparr>lo_console = [], lo_file = None\<rparr> =
     Inr \<lparr>lo_console = ''x'' @ [CHR 0x0A], lo_file = None\<rparr>"
  by (subst threshold_ignored) (simp_all add: Logger_new_def Storage_Write_def Console_Write_def)

text \<open>A printed text without NUL is in the message as it is when it is shorter than the buffer; otherwise its first
  4064 characters are, with the number of those left out behind them.\<close>

theorem format_text:
  assumes "CHR 0x00 \<notin> set printed" "printed \<noteq> []"
  shows "\<exists>shown left. printed = shown @ left \<and>
    (if length printed < 4096 then left = [] else length shown = 4064) \<and>
    ms_text (Message_format True printed m) =
      ms_text m @ shown @ (if left = [] then [] else ''...'' @ dec_int (int (length left)) @ ''more bytes'')"
proof (cases "length printed < 4096")
  case True
  then show ?thesis
    using assms by (intro exI [of _ printed] exI [of _ "[]"])
      (simp add: Message_format_def message_buffer_size_def Message_put_def)
next
  case False
  moreover have "CHR 0x00 \<notin> set (take 4064 printed)"
    using assms(1) by (auto dest: in_set_takeD)
  ultimately show ?thesis
    using assms by (intro exI [of _ "take 4064 printed"] exI [of _ "drop 4064 printed"])
      (simp add: Message_format_def message_buffer_size_def Message_put_def min_def of_nat_diff)
qed

lemma format_text_witness:
  "\<exists>shown left. replicate 5000 (CHR ''x'') = shown @ left \<and> length shown = 4064 \<and>
    ms_text (Message_format True (replicate 5000 (CHR ''x'')) \<lparr>ms_level = Info, ms_text = []\<rparr>) =
      shown @ ''...'' @ dec_int (int (length left)) @ ''more bytes''"
proof -
  have "CHR 0x00 \<notin> set (replicate 5000 (CHR ''x''))" "replicate 5000 (CHR ''x'') \<noteq> []"
    by simp_all
  from format_text [OF this, of "\<lparr>ms_level = Info, ms_text = []\<rparr>"] obtain shown left where
    s: "replicate 5000 (CHR ''x'') = shown @ left" "length shown = 4064"
      "ms_text (Message_format True (replicate 5000 (CHR ''x'')) \<lparr>ms_level = Info, ms_text = []\<rparr>) =
        shown @ (if left = [] then [] else ''...'' @ dec_int (int (length left)) @ ''more bytes'')"
    by auto
  moreover have "left \<noteq> []"
    using s(1,2) by (cases left) (auto dest!: arg_cong [where f = length])
  ultimately show ?thesis
    by (intro exI [of _ shown] exI [of _ left]) simp
qed

end
