(* ===== verification/Service_Globals.thy ===== *)
theory Service_Globals
  imports Ini_Parser Thread_Pool Logger
begin

text \<open>
  What \<open>mosquitto_auth_service/global.cpp\<close> and \<open>xauth/global.cpp\<close> have in common: the configuration, the log file and
  the pool of worker threads a program sets up before it serves, and the decision of \<open>main\<close> to stay.
\<close>

section \<open>The parts\<close>

text \<open>\<open>config::Initialize\<close>, with the program's default file.\<close>

definition config_Initialize :: "file_system \<Rightarrow> string \<Rightarrow> command_line \<Rightarrow> config" where
  "config_Initialize fs dflt cmdline =
     Config_LoadFile fs (GetSwitchValueWithDefault cmdline ''config'' dflt) Config_new"

text \<open>\<open>NamedFileLogger\<close>, and \<open>logger::Initialize\<close> with the entry and the default the program asks for; the file is the
  second component.\<close>

definition NamedFileLogger_new :: logger where
  "NamedFileLogger_new = Logger_SetStorage (SingleFile Posix_Lock) (Logger_new Debug)"

definition logger_Initialize :: "string \<Rightarrow> string \<Rightarrow> config \<Rightarrow> logger \<times> string" where
  "logger_Initialize entry dflt conf = (NamedFileLogger_new, c_str (Config_Get_default conf entry dflt))"

definition async_Initialize :: "bool \<Rightarrow> 'a pool" where
  "async_Initialize junk_stop = ThreadPool_Create 20 (ThreadPool_new junk_stop)"

text \<open>\<open>async::Cleanup\<close>: whether its \<open>Wait\<close> returns.\<close>

definition async_Cleanup :: "'a pool \<Rightarrow> bool outcome" where
  "async_Cleanup p = ThreadPool_Wait_returns (ThreadPool_Stop p)"

text \<open>The first lines of \<open>main\<close>: the arguments, and whether this process goes on; \<open>pid\<close> is what \<open>fork\<close> returns in it.\<close>

definition main_stays :: "string list \<Rightarrow> int \<Rightarrow> (command_line \<times> bool) outcome" where
  "main_stays argv pid =
     obind (FromArgs argv CommandLine_new) (\<lambda>cmdline. Inr (cmdline, HasSwitch cmdline ''daemon'' \<longrightarrow> pid = 0))"

section \<open>Lemmas\<close>

lemma config_missing:
  assumes "fs (c_str (GetSwitchValueWithDefault cmdline ''config'' dflt)) = None"
  shows "config_Initialize fs dflt cmdline = Config_new"
  using assms by (simp add: config_Initialize_def Config_LoadFile_def ParseFile_def Config_new_def)

lemma Config_Get_new [simp]: "Config_Get Config_new name = []"
  by (simp add: Config_Get_def Config_new_def Value_Get_def Value_Get_empty)

lemma cleanup_uninitialised: "async_Cleanup (async_Initialize junk_stop) = Inl Uninitialised"
  by (simp add: async_Cleanup_def async_Initialize_def ThreadPool_Wait_returns_def ThreadPool_Stop_def
      ThreadPool_Create_def ThreadPool_new_def)

lemma statement_logged:
  "level \<noteq> MaxLevel \<Longrightarrow> log_statement (Some NamedFileLogger_new) now level t out =
     Inr (out\<lparr>lo_file := map_option (\<lambda>f. f @ ''['' @ now @ '']-'' @ LogLevelName ! nat (level_number level) @ '' '' @ t @ [CHR 0x0A])
       (lo_file out)\<rparr>)"
  by (simp add: log_statement_def Message_new_def Message_end_def Message_put_def Logger_log_eq NamedFileLogger_new_def
      Logger_SetStorage_def Logger_new_def Storage_Write_def SingleFile_Write_def)

end
