(* ===== verification/Auth_Main.thy ===== *)
theory Auth_Main
  imports Auth_End_To_End Service_Globals
begin

text \<open>
  \<open>mosquitto_auth_service/global.cpp\<close> and \<open>auth_service_main.cpp\<close>: the service from its command line and its
  configuration to the manager its routes ask.
\<close>

record auth_service =
  as_config :: config
  as_logger :: logger
  as_log_file :: string
  as_pool :: "unit pool"
  as_manager :: mosq_manager
  as_port :: int
  as_listen :: string

text \<open>\<open>service::Initialize\<close>; the manager's lock is what the memory held.\<close>

definition service_Initialize :: "lock_ptr \<Rightarrow> config \<Rightarrow> mosq_manager" where
  "service_Initialize junk conf =
     MosquittoContextManager_new junk (Config_Get conf ''mosq_trust_username'') (Config_Get conf ''mosq_trust_password'')
       (Config_Get conf ''mosq_trust_prefix'')"

definition GlobalInitializer_new :: "file_system \<Rightarrow> lock_ptr \<Rightarrow> bool \<Rightarrow> command_line \<Rightarrow> auth_service" where
  "GlobalInitializer_new fs junk junk_stop cmdline =
     (let conf = config_Initialize fs ''./auth.conf'' cmdline;
          (lg, log_file) = logger_Initialize ''logpath'' ''/var/log/mosquitto_auth_service.log'' conf;
          pool = async_Initialize junk_stop;
          manager = service_Initialize junk conf
      in \<lparr>as_config = conf, as_logger = lg, as_log_file = log_file, as_pool = pool, as_manager = manager,
          as_port = int32 (Config_GetInt_default conf ''port'' 2020),
          as_listen = c_str (Config_Get_default conf ''listen'' ''127.0.0.1'')\<rparr>)"

text \<open>\<open>main\<close> up to the call of \<open>server.Start\<close>; \<open>None\<close> is the parent of a daemon, or a \<open>fork\<close> that failed.\<close>

definition auth_service_main ::
    "file_system \<Rightarrow> lock_ptr \<Rightarrow> bool \<Rightarrow> int \<Rightarrow> string list \<Rightarrow> auth_service option outcome" where
  "auth_service_main fs junk junk_stop pid argv =
     obind (main_stays argv pid) (\<lambda>(cmdline, stays).
       Inr (if stays then Some (GlobalInitializer_new fs junk junk_stop cmdline) else None))"

section \<open>Lemmas\<close>

lemma main_config:
  assumes "auth_service_main fs junk junk_stop pid argv = Inr (Some svc)"
  shows "\<exists>cmdline. svc = GlobalInitializer_new fs junk junk_stop cmdline \<and> FromArgs argv CommandLine_new = Inr cmdline"
  using assms by (auto simp: auth_service_main_def main_stays_def obind_eq_Inr split: if_splits)

lemma service_fields:
  "as_manager (GlobalInitializer_new fs junk junk_stop cmdline) =
     service_Initialize junk (as_config (GlobalInitializer_new fs junk junk_stop cmdline))"
  by (simp add: GlobalInitializer_new_def Let_def logger_Initialize_def)

section \<open>Properties\<close>

text \<open>C35: a service whose configuration does not name a trusted prefix, and so one whose configuration file is missing,
  accepts every user with any password: whatever the body of a check says the four fields are, the answer is \<open>code\<close> 0.\<close>

theorem unconfigured_service_accepts:
  assumes "auth_service_main fs junk junk_stop pid argv = Inr (Some svc)" "junk \<noteq> Wild_Lock"
    and "Config_Get (as_config svc) ''mosq_trust_prefix'' = []"
    and "rq_method req = Some HTTP_POST" "rq_url req = Mstr ''/mosquitto/checkuser''"
    and "JsonDocument_Parse io (mstr_str (rq_body req)) JsonDocument = Inr (ok, JObject d)"
    and "\<And>k. k \<in> {''name'', ''clientid'', ''username'', ''password''} \<Longrightarrow> \<exists>v. map_of d k = Some (JString v)"
  shows "Routes_Process (AuthServiceRoutes_InitTable io) req resp (as_manager svc) =
    Inr (0, SetContent (Mstr (JsonDocument_Write io False (answer_doc True))) (MosqAuthRouteProc_Process resp), as_manager svc)"
proof -
  obtain cmdline where svc: "svc = GlobalInitializer_new fs junk junk_stop cmdline"
    using main_config [OF assms(1)] by blast
  have m: "mm_lock (as_manager svc) \<noteq> Wild_Lock" "mm_trust_prefix (as_manager svc) = []"
    using assms(2,3) by (simp_all add: svc service_fields service_Initialize_def MosquittoContextManager_new_def)
  obtain n c u p where "map_of d ''name'' = Some (JString n)" "map_of d ''clientid'' = Some (JString c)"
    "map_of d ''username'' = Some (JString u)" "map_of d ''password'' = Some (JString p)"
    using assms(7) [of "''name''"] assms(7) [of "''clientid''"] assms(7) [of "''username''"] assms(7) [of "''password''"]
    by (meson insertI1 insertI2)
  then show ?thesis
    unfolding table_check_user [OF assms(4,5)] RouteCheckUser_decision [OF m(1)] assms(6) by (simp add: m(2))
qed

text \<open>A service started without a configuration file, asked about a user.\<close>

lemma unconfigured_service_accepts_witness:
  "\<exists>svc. auth_service_main (\<lambda>_. None) Null_Lock True 0 [''auth'', ''--daemon''] = Inr (Some svc) \<and>
    (\<exists>resp'. Routes_Process (AuthServiceRoutes_InitTable example_io)
       (HttpRequest_new 4 0\<lparr>rq_method := Some HTTP_POST, rq_url := Mstr ''/mosquitto/checkuser'', rq_body := Mstr example_body\<rparr>)
       HttpResponse_new (as_manager svc) = Inr (0, resp', as_manager svc) \<and>
     rs_content resp' = Mstr (JsonDocument_Write example_io False (answer_doc True)))"
proof -
  let ?cmd = "\<lparr>cl_application = ''auth'', cl_switches = [(''daemon'', [])]\<rparr>"
  let ?svc = "GlobalInitializer_new (\<lambda>_. None) Null_Lock True ?cmd"
  let ?req = "HttpRequest_new 4 0\<lparr>rq_method := Some HTTP_POST, rq_url := Mstr ''/mosquitto/checkuser'', rq_body := Mstr example_body\<rparr>"
  have main: "auth_service_main (\<lambda>_. None) Null_Lock True 0 [''auth'', ''--daemon''] = Inr (Some ?svc)"
    by (simp add: auth_service_main_def main_stays_def CommandLine_new_def parse_switch_def HasSwitch_def)
  have "as_config ?svc = Config_new"
    by (simp add: GlobalInitializer_new_def Let_def logger_Initialize_def config_missing)
  then have "Routes_Process (AuthServiceRoutes_InitTable example_io) ?req HttpResponse_new (as_manager ?svc) =
    Inr (0, SetContent (Mstr (JsonDocument_Write example_io False (answer_doc True))) (MosqAuthRouteProc_Process HttpResponse_new), as_manager ?svc)"
    using example_body_read
    by (intro unconfigured_service_accepts [OF main, where d = example_user and ok = True]) (auto simp: example_user_def)
  then show ?thesis
    using main by (auto simp: SetContent_def)
qed

end
