(* ===== verification/Xauth_Main.thy ===== *)
theory Xauth_Main
  imports Xauth Db_Sql Service_Globals
begin

text \<open>
  \<open>xauth/global.cpp\<close> and \<open>xauth/main.cpp\<close>: the gateway from its command line and its configuration to the state its
  routes start from.
\<close>

record xauth_service =
  xs_config :: config
  xs_logger :: logger
  xs_log_file :: string
  xs_pool :: "xauth_task pool"
  xs_dbs :: db_pools
  xs_corps :: corps
  xs_port :: int
  xs_listen :: string

definition XauthInitializer_new ::
    "file_system \<Rightarrow> (string \<Rightarrow> nfile) \<Rightarrow> (string \<Rightarrow> pool_env) \<Rightarrow> bool \<Rightarrow> command_line \<Rightarrow> xauth_service" where
  "XauthInitializer_new fs files env junk_stop cmdline =
     (let conf = config_Initialize fs ''./xauth.conf'' cmdline;
          (lg, log_file) = logger_Initialize ''logdir'' ''/var/log/xauth.log'' conf;
          pool = async_Initialize junk_stop;
          dbs = db_Initialize env conf;
          corps = app_Initialize files conf
      in \<lparr>xs_config = conf, xs_logger = lg, xs_log_file = log_file, xs_pool = pool, xs_dbs = dbs, xs_corps = corps,
          xs_port = int32 (Config_GetInt_default conf ''port'' 8881),
          xs_listen = c_str (Config_Get_default conf ''listen'' ''0.0.0.0'')\<rparr>)"

definition xauth_main ::
    "file_system \<Rightarrow> (string \<Rightarrow> nfile) \<Rightarrow> (string \<Rightarrow> pool_env) \<Rightarrow> bool \<Rightarrow> int \<Rightarrow> string list \<Rightarrow> xauth_service option outcome" where
  "xauth_main fs files env junk_stop pid argv =
     obind (main_stays argv pid) (\<lambda>(cmdline, stays).
       Inr (if stays then Some (XauthInitializer_new fs files env junk_stop cmdline) else None))"

text \<open>The state the routes start from.\<close>

definition started_state :: "xauth_service \<Rightarrow> xauth_state" where
  "started_state svc = \<lparr>xa_corps = xs_corps svc, xa_tasks = [], xa_log = []\<rparr>"

lemma started_reach:
  assumes "xauth_main fs files env junk_stop pid argv = Inr (Some svc)"
  shows "xauth_reach files (xs_config svc) (started_state svc)"
proof -
  obtain cmdline where "svc = XauthInitializer_new fs files env junk_stop cmdline"
    using assms by (auto simp: xauth_main_def main_stays_def obind_eq_Inr split: if_splits)
  then have "xs_corps svc = app_Initialize files (xs_config svc)"
    by (simp add: XauthInitializer_new_def Let_def logger_Initialize_def)
  then show ?thesis
    unfolding started_state_def by (metis xauth_reach.started)
qed

text \<open>Two parts of the program read different entries for the same thing: the file of the log is \<open>logdir\<close> here and
  \<open>logpath\<close> in the authentication service; and the gateway listens on every address unless told otherwise.\<close>

theorem started_defaults:
  assumes "xauth_main fs files env junk_stop pid argv = Inr (Some svc)" "\<And>file. fs file = None"
  shows "xs_log_file svc = ''/var/log/xauth.log'' \<and> xs_port svc = 8881 \<and> xs_listen svc = ''0.0.0.0'' \<and> xs_corps svc = []"
proof -
  obtain cmdline where svc: "svc = XauthInitializer_new fs files env junk_stop cmdline"
    using assms by (auto simp: xauth_main_def main_stays_def obind_eq_Inr split: if_splits)
  have none: "Value_Get (cf_root Config_new) name = []" for name
    by (simp add: Config_new_def Value_Get_def Value_Get_empty)
  have "[1..<kMaxSize + 1] = 1 # [2..<kMaxSize + 1]"
    by (simp add: kMaxSize_def upt_conv_Cons numeral_2_eq_2)
  then have "app_Initialize files Config_new = []"
    by (simp add: app_Initialize_def Config_Get_def none Let_def del: upt_Suc)
  moreover have "int32 8881 = 8881"
    by (simp add: int32_def)
  ultimately show ?thesis
    using assms(2) by (simp add: svc XauthInitializer_new_def config_missing logger_Initialize_def Config_Get_default_def
        Value_Get_default_def Config_GetInt_default_def Value_GetInt_default_def none Let_def c_str_def)
qed

lemma started_defaults_witness:
  "\<exists>svc. xauth_main (\<lambda>_. None) (\<lambda>_. \<lparr>nf_size = 0, nf_byte = \<lambda>_. 0\<rparr>) (\<lambda>_. undefined) True 1 [''xauth''] = Inr (Some svc) \<and>
    xs_listen svc = ''0.0.0.0''"
proof -
  let ?svc = "XauthInitializer_new (\<lambda>_. None) (\<lambda>_. \<lparr>nf_size = 0, nf_byte = \<lambda>_. 0\<rparr>) (\<lambda>_. undefined) True
      \<lparr>cl_application = ''xauth'', cl_switches = []\<rparr>"
  have "xauth_main (\<lambda>_. None) (\<lambda>_. \<lparr>nf_size = 0, nf_byte = \<lambda>_. 0\<rparr>) (\<lambda>_. undefined) True 1 [''xauth''] = Inr (Some ?svc)"
    by (simp add: xauth_main_def main_stays_def CommandLine_new_def HasSwitch_def)
  with started_defaults [OF this] show ?thesis by simp
qed

end
