(* ===== verification/Hash_Uuid.thy ===== *)
theory Hash_Uuid
  imports Hexstr
begin

text \<open>
  \<open>helper/crypto/hash.cpp\<close> and \<open>helper/uuidx.cpp\<close>: digests and unique identifiers as text.  The digests of OpenSSL,
  by name where it has one, and the random bytes are arguments.
\<close>

section \<open>Digests\<close>

type_synonym digest = "byte list \<Rightarrow> byte list"

definition crypt_Hash :: "(string \<Rightarrow> digest option) \<Rightarrow> string \<Rightarrow> string \<Rightarrow> string" where
  "crypt_Hash EVP_get_digestbyname name src =
     (case EVP_get_digestbyname (c_str name) of
        None \<Rightarrow> src
      | Some md \<Rightarrow> Bytes2HexStr (md (map byte_of src)))"

definition crypt_md5 :: "digest \<Rightarrow> string \<Rightarrow> string" where
  "crypt_md5 MD5 src = Bytes2HexStr (MD5 (map byte_of src))"

definition crypt_sha1_text :: "digest \<Rightarrow> string \<Rightarrow> string" where
  "crypt_sha1_text SHA1 src = Bytes2HexStr (SHA1 (map byte_of src))"

section \<open>Identifiers\<close>

record uuid =
  Data1 :: "32 word"
  Data2 :: "16 word"
  Data3 :: "16 word"
  Data4 :: "8 word list"

text \<open>\<open>uuid_generate\<close> fills the structure as sixteen bytes; its numbers have their low byte first.\<close>

definition le_word :: "byte list \<Rightarrow> 'a::len word" where
  "le_word bs = fold (\<lambda>b w. w * 256 + ucast b) (rev bs) 0"

definition uuidx_new :: "byte list \<Rightarrow> uuid" where
  "uuidx_new bs =
     \<lparr>Data1 = le_word (take 4 bs), Data2 = le_word (take 2 (drop 4 bs)), Data3 = le_word (take 2 (drop 6 bs)),
      Data4 = take 8 (drop 8 bs)\<rparr>"

text \<open>The conversions \<open>%0nX\<close> and \<open>%0nx\<close> of a number of at most \<open>n\<close> digits.\<close>

definition hex_char :: "bool \<Rightarrow> nat \<Rightarrow> char" where
  "hex_char upper n = (if upper then ''0123456789ABCDEF'' else ''0123456789abcdef'') ! n"

fun hex_field :: "bool \<Rightarrow> nat \<Rightarrow> nat \<Rightarrow> string" where
  "hex_field upper 0 n = []"
| "hex_field upper (Suc k) n = hex_field upper k (n div 16) @ [hex_char upper (n mod 16)]"

definition uuidx_str :: "bool \<Rightarrow> uuid \<Rightarrow> string" where
  "uuidx_str upper u =
     hex_field upper 8 (unat (Data1 u)) @ ''-'' @ hex_field upper 4 (unat (Data2 u)) @ ''-'' @
     hex_field upper 4 (unat (Data3 u)) @ ''-'' @ concat (map (\<lambda>b. hex_field upper 2 (unat b)) (take 2 (Data4 u))) @ ''-'' @
     concat (map (\<lambda>b. hex_field upper 2 (unat b)) (drop 2 (Data4 u)))"

section \<open>Lemmas\<close>

lemma length_hex_field [simp]: "length (hex_field upper k n) = k"
  by (induction upper k n rule: hex_field.induct) simp_all

lemma hex_char_inj: "m < 16 \<Longrightarrow> n < 16 \<Longrightarrow> hex_char upper m = hex_char upper n \<longleftrightarrow> m = n"
proof -
  assume "m < 16" "n < 16"
  moreover have "list_all (\<lambda>u. list_all (\<lambda>m. list_all (\<lambda>n. (hex_char u m = hex_char u n) = (m = n)) [0..<16]) [0..<16]) [True, False]"
    by code_simp
  ultimately show ?thesis
    by (cases upper) (simp_all add: list_all_iff)
qed

lemma hex_field_inj: "m < 16 ^ k \<Longrightarrow> n < 16 ^ k \<Longrightarrow> hex_field upper k m = hex_field upper k n \<longleftrightarrow> m = n"
proof (induction k arbitrary: m n)
  case (Suc k)
  then have "m div 16 < 16 ^ k" "n div 16 < 16 ^ k"
    by (simp_all add: less_mult_imp_div_less mult.commute)
  then have "hex_field upper (Suc k) m = hex_field upper (Suc k) n \<longleftrightarrow> m div 16 = n div 16 \<and> m mod 16 = n mod 16"
    using Suc.IH by (simp add: hex_char_inj)
  then show ?case
    by (metis mult_div_mod_eq)
qed simp

lemma hex_fields_inj:
  "length bs = length cs \<Longrightarrow>
     concat (map (\<lambda>b. hex_field upper 2 (unat b)) bs) = concat (map (\<lambda>b. hex_field upper 2 (unat b)) cs) \<longleftrightarrow> bs = (cs :: byte list)"
proof (induction bs cs rule: list_induct2)
  case (Cons b bs c cs)
  have "unat b < 16 ^ 2" "unat c < 16 ^ 2"
    using unat_lt2p_byte [of b] unat_lt2p_byte [of c] by simp_all
  then have "hex_field upper 2 (unat b) = hex_field upper 2 (unat c) \<longleftrightarrow> b = c"
    using hex_field_inj by (simp only: word_unat_eq_iff)
  then show ?case
    using Cons by simp
qed simp

lemma length_hex_fields [simp]: "length (concat (map (\<lambda>b. hex_field upper 2 (unat b)) bs)) = 2 * length bs"
  by (induction bs) simp_all

lemma word_field_inj:
  "hex_field upper 8 (unat a) = hex_field upper 8 (unat b) \<longleftrightarrow> a = b" for a b :: "32 word"
  using hex_field_inj [of "unat a" 8 "unat b"] unsigned_less [of a, where 'a = nat] unsigned_less [of b, where 'a = nat] by (simp add: word_unat_eq_iff)

lemma short_field_inj:
  "hex_field upper 4 (unat a) = hex_field upper 4 (unat b) \<longleftrightarrow> a = b" for a b :: "16 word"
  using hex_field_inj [of "unat a" 4 "unat b"] unsigned_less [of a, where 'a = nat] unsigned_less [of b, where 'a = nat] by (simp add: word_unat_eq_iff)

lemma five_groups:
  "length a1 = length b1 \<Longrightarrow> length a2 = length b2 \<Longrightarrow> length a3 = length b3 \<Longrightarrow> length a4 = length b4 \<Longrightarrow>
     a1 @ ''-'' @ a2 @ ''-'' @ a3 @ ''-'' @ a4 @ ''-'' @ a5 = b1 @ ''-'' @ b2 @ ''-'' @ b3 @ ''-'' @ b4 @ ''-'' @ b5 \<longleftrightarrow>
     a1 = b1 \<and> a2 = b2 \<and> a3 = b3 \<and> a4 = b4 \<and> a5 = b5"
  by simp

section \<open>Properties\<close>

text \<open>An identifier is printed in 36 characters, in either case, and different identifiers are printed differently.\<close>

theorem uuid_text_faithful:
  assumes "length (Data4 u) = 8" "length (Data4 v) = 8"
  shows "length (uuidx_str upper u) = 36 \<and> (uuidx_str upper u = uuidx_str upper v \<longleftrightarrow> u = v)"
proof
  show "length (uuidx_str upper u) = 36"
    using assms by (simp add: uuidx_str_def)
  have "uuidx_str upper u = uuidx_str upper v \<longleftrightarrow>
      Data1 u = Data1 v \<and> Data2 u = Data2 v \<and> Data3 u = Data3 v \<and> take 2 (Data4 u) = take 2 (Data4 v) \<and> drop 2 (Data4 u) = drop 2 (Data4 v)"
    unfolding uuidx_str_def
  proof (subst five_groups)
    have "length (take 2 (Data4 u)) = length (take 2 (Data4 v))" "length (drop 2 (Data4 u)) = length (drop 2 (Data4 v))"
      using assms by simp_all
    then show "(hex_field upper 8 (unat (Data1 u)) = hex_field upper 8 (unat (Data1 v)) \<and>
        hex_field upper 4 (unat (Data2 u)) = hex_field upper 4 (unat (Data2 v)) \<and>
        hex_field upper 4 (unat (Data3 u)) = hex_field upper 4 (unat (Data3 v)) \<and>
        concat (map (\<lambda>b. hex_field upper 2 (unat b)) (take 2 (Data4 u))) = concat (map (\<lambda>b. hex_field upper 2 (unat b)) (take 2 (Data4 v))) \<and>
        concat (map (\<lambda>b. hex_field upper 2 (unat b)) (drop 2 (Data4 u))) = concat (map (\<lambda>b. hex_field upper 2 (unat b)) (drop 2 (Data4 v)))) \<longleftrightarrow>
      (Data1 u = Data1 v \<and> Data2 u = Data2 v \<and> Data3 u = Data3 v \<and> take 2 (Data4 u) = take 2 (Data4 v) \<and> drop 2 (Data4 u) = drop 2 (Data4 v))"
      by (simp only: word_field_inj short_field_inj hex_fields_inj)
  qed (use assms in simp_all)
  also have "\<dots> \<longleftrightarrow> Data1 u = Data1 v \<and> Data2 u = Data2 v \<and> Data3 u = Data3 v \<and> Data4 u = Data4 v"
    by (metis append_take_drop_id)
  also have "\<dots> \<longleftrightarrow> u = v"
    by (cases u; cases v) auto
  finally show "uuidx_str upper u = uuidx_str upper v \<longleftrightarrow> u = v" .
qed

lemma uuid_text_faithful_witness:
  "uuidx_str True (uuidx_new [26, 0, 0, 0, 2, 0, 3, 0, 4, 5, 6, 7, 8, 9, 10, 11]) = ''0000001A-0002-0003-0405-060708090A0B'' \<and>
    length (uuidx_str False (uuidx_new (replicate 16 0))) = 36"
proof -
  have "length (Data4 (uuidx_new (replicate 16 0))) = 8"
    by (simp add: uuidx_new_def)
  from uuid_text_faithful [OF this this, of False] have "length (uuidx_str False (uuidx_new (replicate 16 0))) = 36" ..
  moreover have "uuidx_str True (uuidx_new [26, 0, 0, 0, 2, 0, 3, 0, 4, 5, 6, 7, 8, 9, 10, 11]) = ''0000001A-0002-0003-0405-060708090A0B''"
    by code_simp
  ultimately show ?thesis by simp
qed

text \<open>A digest OpenSSL does not know by its name is not computed: the text itself is returned in its place.\<close>

theorem unknown_digest_returns_source:
  "crypt_Hash env name src = src \<longleftrightarrow>
    (case env (c_str name) of None \<Rightarrow> True | Some md \<Rightarrow> Bytes2HexStr (md (map byte_of src)) = src)"
  by (simp add: crypt_Hash_def split: option.split)

end
