(* ===== verification/Local_Stream.thy ===== *)
theory Local_Stream
  imports Prelude
begin

text \<open>
  \<open>helper/local_stream.h\<close>: numbers and strings put into a buffer of bytes one behind the other, and the stream that
  is to take them out again.
\<close>

section \<open>Putting in\<close>

record ostream =
  os_buffer :: "byte list"
  os_size :: nat

definition stream_put_bytes :: "nat \<Rightarrow> byte list \<Rightarrow> byte list \<Rightarrow> byte list outcome" where
  "stream_put_bytes at bs buffer =
     (if length buffer < at + length bs then Inl Out_Of_Bounds
      else Inr (take at buffer @ bs @ drop (at + length bs) buffer))"

text \<open>The constructor allocates without asking whether it could; the memory holds what it held.\<close>

definition OLocalStream_new :: "byte list \<Rightarrow> ostream" where
  "OLocalStream_new memory = \<lparr>os_buffer = memory, os_size = 0\<rparr>"

text \<open>\<open>operator<<\<close> of a value: its bytes, as many as its type has, the low one first.\<close>

definition OLocalStream_put :: "byte list \<Rightarrow> ostream \<Rightarrow> ostream outcome" where
  "OLocalStream_put bs o1 =
     obind (stream_put_bytes (os_size o1) bs (os_buffer o1)) (\<lambda>buffer.
       Inr \<lparr>os_buffer = buffer, os_size = os_size o1 + length bs\<rparr>)"

definition size_bytes :: "32 word \<Rightarrow> byte list" where
  "size_bytes n = map (\<lambda>i. ucast (drop_bit (8 * i) n)) [0..<4]"

definition OLocalStream_put_string :: "string \<Rightarrow> ostream \<Rightarrow> ostream outcome" where
  "OLocalStream_put_string s o1 =
     (let n = of_nat (length s) :: 32 word
      in obind (OLocalStream_put (size_bytes n) o1) (OLocalStream_put (map byte_of (take (unat n) s))))"

section \<open>Taking out\<close>

record istream =
  is_buffer :: "byte list"
  is_offset :: nat

definition ILocalStream_new :: "byte list \<Rightarrow> istream" where
  "ILocalStream_new buffer = \<lparr>is_buffer = buffer, is_offset = 0\<rparr>"

text \<open>
  \<open>operator>>\<close> of a number of \<open>n\<close> bytes: the assignment \<open>*cur = value\<close> goes from the number to the buffer, so one byte
  of the buffer is overwritten with the low byte of the number and the number stays what it was.
\<close>

definition ILocalStream_get :: "nat \<Rightarrow> int \<Rightarrow> istream \<Rightarrow> (int \<times> istream) outcome" where
  "ILocalStream_get n val i =
     obind (stream_put_bytes (is_offset i) [word_of_int val] (is_buffer i)) (\<lambda>buffer.
       Inr (val, \<lparr>is_buffer = buffer, is_offset = is_offset i + n\<rparr>))"

definition ILocalStream_get_string :: "istream \<Rightarrow> (string \<times> istream) outcome" where
  "ILocalStream_get_string i =
     obind (ILocalStream_get 4 0 i) (\<lambda>(size, i1).
       if length (is_buffer i1) < is_offset i1 + nat size then Inl Out_Of_Bounds
       else Inr (map char_of_byte (take (nat size) (drop (is_offset i1) (is_buffer i1))),
                 i1\<lparr>is_offset := is_offset i1 + nat size\<rparr>))"

section \<open>Properties\<close>

text \<open>Nothing comes out again: whatever string was put in, with room for it, the one taken out is empty, and taking it out
  destroys the length in front of it.\<close>

theorem stream_reads_nothing:
  assumes "length s < 2 ^ 32" "4 + length s \<le> length memory"
  shows "\<exists>o1 i. OLocalStream_put_string s (OLocalStream_new memory) = Inr o1 \<and>
    take (os_size o1) (os_buffer o1) = size_bytes (of_nat (length s)) @ map byte_of s \<and>
    ILocalStream_get_string (ILocalStream_new (os_buffer o1)) = Inr ([], i) \<and> hd (is_buffer i) = 0"
proof -
  let ?n = "of_nat (length s) :: 32 word"
  have n: "unat ?n = length s"
    using assms(1) by (simp add: unat_of_nat take_bit_nat_eq_self)
  have len: "length (size_bytes ?n) = 4"
    by (simp add: size_bytes_def)
  then have "size_bytes ?n \<noteq> []"
    by auto
  let ?b = "size_bytes ?n @ map byte_of s @ drop (4 + length s) memory"
  have "OLocalStream_put_string s (OLocalStream_new memory) = Inr \<lparr>os_buffer = ?b, os_size = 4 + length s\<rparr>"
    using assms(2) by (simp add: OLocalStream_put_string_def OLocalStream_new_def OLocalStream_put_def stream_put_bytes_def n len add.commute)
  moreover have "ILocalStream_get_string (ILocalStream_new ?b) = Inr ([], \<lparr>is_buffer = 0 # tl ?b, is_offset = 4\<rparr>)"
    using len \<open>size_bytes ?n \<noteq> []\<close> by (simp add: ILocalStream_get_string_def ILocalStream_get_def ILocalStream_new_def stream_put_bytes_def drop_Suc Let_def)
  ultimately show ?thesis
    using len by (auto simp: take_append)
qed

lemma stream_reads_nothing_witness:
  "\<exists>o1 i. OLocalStream_put_string ''ab'' (OLocalStream_new (replicate 8 7)) = Inr o1 \<and>
    take (os_size o1) (os_buffer o1) = [2, 0, 0, 0, 97, 98] \<and>
    ILocalStream_get_string (ILocalStream_new (os_buffer o1)) = Inr ([], i) \<and> hd (is_buffer i) = 0"
proof -
  have "size_bytes (of_nat (length ''ab'')) @ map byte_of ''ab'' = [2, 0, 0, 0, 97, 98]"
    by code_simp
  then show ?thesis
    using stream_reads_nothing [of "''ab''" "replicate 8 7"] by simp
qed

end
