(* ===== verification/Redis_Client.thy ===== *)
theory Redis_Client
  imports String_Containers Decimal
begin

text \<open>
  \<open>xauth/redis/redis_client.cpp\<close>: the client of a Redis server.  The library hiredis is an argument: what connecting
  to an address gives, and what a command answers on the server's state.
\<close>

datatype redis_reply = Reply_Status string | Reply_String string | Reply_Integer int | Reply_Other

datatype redis_connect = Connected | Connect_Error | No_Memory

record 'r redis =
  rd_connect :: "string \<Rightarrow> int \<Rightarrow> redis_connect"
  rd_command :: "string list \<Rightarrow> 'r \<Rightarrow> redis_reply option \<times> 'r"

text \<open>The context: none, one of an address, or one that was freed and is still pointed to.\<close>

datatype redis_context = No_Context | Context string int | Freed_Context

record redis_client =
  rc_context :: redis_context
  rc_server :: string

definition RedisClient_new :: redis_client where
  "RedisClient_new = \<lparr>rc_context = No_Context, rc_server = []\<rparr>"

section \<open>Commands\<close>

definition RedisCommand_new :: "'r redis \<Rightarrow> redis_context \<Rightarrow> string list \<Rightarrow> 'r \<Rightarrow> (redis_reply option \<times> 'r) outcome" where
  "RedisCommand_new env c args r =
     (case c of No_Context \<Rightarrow> Inl Null_Deref | Freed_Context \<Rightarrow> Inl Use_After_Free | Context ip port \<Rightarrow> Inr (rd_command env args r))"

text \<open>\<open>IsOK\<close> returns what \<open>strcmp\<close> does, which is not zero when the text is another one.\<close>

definition IsOK :: "redis_reply option \<Rightarrow> bool" where
  "IsOK reply = (case reply of Some (Reply_Status s) \<Rightarrow> c_str s \<noteq> ''OK'' | _ \<Rightarrow> False)"

definition reply_str :: "redis_reply option \<Rightarrow> string" where
  "reply_str reply = (case reply of Some (Reply_String s) \<Rightarrow> c_str s | _ \<Rightarrow> [])"

definition reply_integer :: "redis_reply option \<Rightarrow> int" where
  "reply_integer reply = (case reply of Some (Reply_Integer i) \<Rightarrow> i | _ \<Rightarrow> -1)"

section \<open>The client\<close>

text \<open>\<open>Connect\<close> remembers the context but not the server, and keeps pointing to a context it freed.\<close>

definition RedisClient_Connect :: "'r redis \<Rightarrow> string \<Rightarrow> redis_client \<Rightarrow> int \<times> redis_client" where
  "RedisClient_Connect env server c =
     (let v = Vector_Split server '':'';
          ip = (if Vector_index v 0 = [] then ''127.0.0.1'' else Vector_index v 0);
          port = (if Vector_index v 1 = [] then 6379 else atoi (Vector_index v 1))
      in case rd_connect env (c_str ip) port of
           Connected \<Rightarrow> (0, c\<lparr>rc_context := Context (c_str ip) port\<rparr>)
         | Connect_Error \<Rightarrow> (-1, c\<lparr>rc_context := Freed_Context\<rparr>)
         | No_Memory \<Rightarrow> (-1, c\<lparr>rc_context := No_Context\<rparr>))"

definition RedisClient_new_server :: "'r redis \<Rightarrow> string \<Rightarrow> redis_client" where
  "RedisClient_new_server env server = snd (RedisClient_Connect env server RedisClient_new)"

text \<open>\<open>redisFree\<close> of a null context does nothing, of a freed one it frees it twice; the same in the destructor.\<close>

definition redisFree :: "redis_context \<Rightarrow> unit outcome" where
  "redisFree c = (case c of Freed_Context \<Rightarrow> Inl Use_After_Free | _ \<Rightarrow> Inr ())"

definition RedisClient_Reconnect :: "'r redis \<Rightarrow> redis_client \<Rightarrow> redis_client outcome" where
  "RedisClient_Reconnect env c =
     obind (redisFree (rc_context c)) (\<lambda>_. Inr (snd (RedisClient_Connect env (rc_server c) c)))"

definition RedisClient_delete :: "redis_client \<Rightarrow> unit outcome" where
  "RedisClient_delete c = redisFree (rc_context c)"

definition RedisClient_Auth :: "'r redis \<Rightarrow> string \<Rightarrow> redis_client \<Rightarrow> 'r \<Rightarrow> (int \<times> 'r) outcome" where
  "RedisClient_Auth env password c r =
     obind (RedisCommand_new env (rc_context c) [''AUTH'', c_str password] r) (\<lambda>(reply, r1).
       Inr (if IsOK reply then 1 else 0, r1))"

definition RedisClient_Set :: "'r redis \<Rightarrow> string \<Rightarrow> string \<Rightarrow> int \<Rightarrow> redis_client \<Rightarrow> 'r \<Rightarrow> 'r outcome" where
  "RedisClient_Set env key val expires_in c r =
     obind (RedisCommand_new env (rc_context c) [''SET'', c_str key, c_str val] r) (\<lambda>(_, r1).
     obind (RedisCommand_new env (rc_context c) [''EXPIRE'', c_str key, dec_int (int32 expires_in)] r1) (\<lambda>(_, r2).
       Inr r2))"

definition RedisClient_Get :: "'r redis \<Rightarrow> string \<Rightarrow> bool \<Rightarrow> redis_client \<Rightarrow> 'r \<Rightarrow> (string \<times> 'r) outcome" where
  "RedisClient_Get env key cleanup c r =
     obind (RedisCommand_new env (rc_context c) [''GET'', c_str key] r) (\<lambda>(reply, r1). Inr (reply_str reply, r1))"

section \<open>Properties\<close>

text \<open>A reconnect goes to the default address, whichever server the client was made for.\<close>

theorem reconnect_forgets_server:
  assumes "RedisClient_Reconnect env (RedisClient_new_server env server) = Inr c"
  shows "rc_context c \<in> {Context ''127.0.0.1'' 6379, No_Context, Freed_Context}"
proof -
  have "rc_server (RedisClient_new_server env server) = []"
    by (simp add: RedisClient_new_server_def RedisClient_Connect_def RedisClient_new_def Let_def split: redis_connect.split)
  with assms show ?thesis
    by (auto simp: RedisClient_Reconnect_def RedisClient_Connect_def obind_eq_Inr Vector_Split_def Vector_index_def
        Vector_At_def Let_def split: redis_connect.splits)
qed

lemma reconnect_forgets_server_witness:
  "RedisClient_Reconnect \<lparr>rd_connect = \<lambda>_ _. Connected, rd_command = \<lambda>_ _. (None, ())\<rparr>
     (RedisClient_new_server \<lparr>rd_connect = \<lambda>_ _. Connected, rd_command = \<lambda>_ _. (None, ())\<rparr> ''10.0.0.1:7000'') =
   Inr \<lparr>rc_context = Context ''127.0.0.1'' 6379, rc_server = []\<rparr>"
proof -
  let ?env = "\<lparr>rd_connect = \<lambda>_ _. Connected, rd_command = \<lambda>_ _. (None, ())\<rparr>"
  obtain c where c: "RedisClient_Reconnect ?env (RedisClient_new_server ?env ''10.0.0.1:7000'') = Inr c"
    "rc_server c = []" "\<exists>ip p. rc_context c = Context ip p"
    by (simp add: RedisClient_Reconnect_def RedisClient_new_server_def RedisClient_Connect_def RedisClient_new_def
        redisFree_def Let_def)
  with reconnect_forgets_server [OF c(1)] show ?thesis
    by (cases c) auto
qed

text \<open>The answer of \<open>Auth\<close> is the wrong way round: an accepted password gives 0, a status that is not \<open>OK\<close> gives 1.\<close>

theorem auth_inverted:
  assumes "rc_context c = Context ip port" "rd_command env [''AUTH'', c_str password] r = (Some (Reply_Status s), r1)"
  shows "RedisClient_Auth env password c r = Inr (if c_str s = ''OK'' then 0 else 1, r1)"
  using assms by (simp add: RedisClient_Auth_def RedisCommand_new_def IsOK_def)

lemma auth_inverted_witness:
  "RedisClient_Auth \<lparr>rd_connect = \<lambda>_ _. Connected, rd_command = \<lambda>_ _. (Some (Reply_Status ''OK''), ())\<rparr> ''p''
     \<lparr>rc_context = Context ''h'' 1, rc_server = []\<rparr> () = Inr (0, ())"
  by (subst auth_inverted [where ip = "''h''" and port = 1 and s = "''OK''" and ?r1.0 = "()"]) simp_all

text \<open>A client that could not connect frees its context again when it is destroyed.\<close>

theorem failed_connect_frees_twice:
  assumes "\<And>ip port. rd_connect env ip port = Connect_Error"
  shows "RedisClient_delete (RedisClient_new_server env server) = Inl Use_After_Free"
  using assms by (simp add: RedisClient_delete_def RedisClient_new_server_def RedisClient_Connect_def Let_def redisFree_def)

lemma failed_connect_frees_twice_witness:
  "RedisClient_delete (RedisClient_new_server \<lparr>rd_connect = \<lambda>_ _. Connect_Error, rd_command = \<lambda>_ _. (None, ())\<rparr> ''h:1'') =
     Inl Use_After_Free"
  by (rule failed_connect_frees_twice) simp

end
