(* ===== verification/Http_Url.thy ===== *)
theory Http_Url
  imports Http_Parser Decimal
begin

text \<open>
  \<open>http_parser_parse_url\<close> and \<open>http_parse_host\<close> of \<open>server/http_parser.cpp\<close>: the parts of a URL as offsets and lengths
  of 16 bits, over the transition function the parser of requests uses.
\<close>

section \<open>The parts of a URL\<close>

datatype url_field = UF_SCHEMA | UF_HOST | UF_PORT | UF_PATH | UF_QUERY | UF_FRAGMENT | UF_USERINFO

record parser_url =
  ul_field_set :: "url_field set"
  ul_port :: "16 word"
  ul_off :: "url_field \<Rightarrow> 16 word"
  ul_len :: "url_field \<Rightarrow> 16 word"

definition http_parser_url_init :: parser_url where
  "http_parser_url_init = \<lparr>ul_field_set = {}, ul_port = 0, ul_off = \<lambda>_. 0, ul_len = \<lambda>_. 0\<rparr>"

abbreviation grow_field :: "url_field \<Rightarrow> parser_url \<Rightarrow> parser_url" where
  "grow_field f u \<equiv> u\<lparr>ul_len := (ul_len u)(f := ul_len u f + 1)\<rparr>"

abbreviation move_field :: "url_field \<Rightarrow> nat \<Rightarrow> parser_url \<Rightarrow> parser_url" where
  "move_field f p u \<equiv> u\<lparr>ul_off := (ul_off u)(f := of_nat p)\<rparr>"

definition start_field :: "url_field \<Rightarrow> nat \<Rightarrow> parser_url \<Rightarrow> parser_url" where
  "start_field f p u = u\<lparr>ul_off := (ul_off u)(f := of_nat p), ul_len := (ul_len u)(f := 0), ul_field_set := insert f (ul_field_set u)\<rparr>"

section \<open>The host\<close>

datatype host_state = s_http_host_dead | s_http_userinfo_start | s_http_userinfo | s_http_host_start
  | s_http_host_v6_start | s_http_host | s_http_host_v6 | s_http_host_v6_end | s_http_host_v6_zone_start
  | s_http_host_v6_zone | s_http_host_port_start | s_http_host_port

definition host_v6 :: "host_state \<Rightarrow> char \<Rightarrow> host_state" where
  "host_v6 s ch =
     (if IS_HEX ch \<or> ch = CHR '':'' \<or> ch = CHR ''.'' then s_http_host_v6
      else if s = s_http_host_v6 \<and> ch = CHR ''%'' then s_http_host_v6_zone_start
      else s_http_host_dead)"

definition host_zone :: "char \<Rightarrow> host_state" where
  "host_zone ch =
     (if IS_ALPHANUM ch \<or> ch \<in> set ''%.-_~'' then s_http_host_v6_zone else s_http_host_dead)"

definition http_parse_host_char :: "host_state \<Rightarrow> char \<Rightarrow> host_state" where
  "http_parse_host_char s ch =
     (if s = s_http_userinfo \<or> s = s_http_userinfo_start then
        (if ch = CHR ''@'' then s_http_host_start else if IS_USERINFO_CHAR ch then s_http_userinfo else s_http_host_dead)
      else if s = s_http_host_start then
        (if ch = CHR ''['' then s_http_host_v6_start else if IS_HOST_CHAR ch then s_http_host else s_http_host_dead)
      else if s = s_http_host then
        (if IS_HOST_CHAR ch then s_http_host else if ch = CHR '':'' then s_http_host_port_start else s_http_host_dead)
      else if s = s_http_host_v6_end then (if ch = CHR '':'' then s_http_host_port_start else s_http_host_dead)
      else if s = s_http_host_v6 then (if ch = CHR '']'' then s_http_host_v6_end else host_v6 s ch)
      else if s = s_http_host_v6_start then host_v6 s ch
      else if s = s_http_host_v6_zone then (if ch = CHR '']'' then s_http_host_v6_end else host_zone ch)
      else if s = s_http_host_v6_zone_start then host_zone ch
      else if s = s_http_host_port \<or> s = s_http_host_port_start then
        (if IS_NUM ch then s_http_host_port else s_http_host_dead)
      else s_http_host_dead)"

text \<open>What one character does to the fields; \<open>p\<close> is its position.\<close>

definition host_field :: "host_state \<Rightarrow> host_state \<Rightarrow> nat \<Rightarrow> parser_url \<Rightarrow> parser_url" where
  "host_field s new_s p u =
     (if new_s = s_http_host \<or> new_s = s_http_host_v6 then grow_field UF_HOST (if s \<noteq> new_s then move_field UF_HOST p u else u)
      else if new_s = s_http_host_v6_zone_start \<or> new_s = s_http_host_v6_zone then grow_field UF_HOST u
      else if new_s = s_http_host_port then grow_field UF_PORT (if s \<noteq> new_s then start_field UF_PORT p u else u)
      else if new_s = s_http_userinfo then grow_field UF_USERINFO (if s \<noteq> new_s then start_field UF_USERINFO p u else u)
      else u)"

text \<open>\<open>None\<close> is \<open>return 1\<close>.\<close>

fun host_loop :: "nat \<Rightarrow> string \<Rightarrow> host_state \<Rightarrow> parser_url \<Rightarrow> (host_state \<times> parser_url) option" where
  "host_loop p [] s u = Some (s, u)"
| "host_loop p (ch # cs) s u =
     (let new_s = http_parse_host_char s ch
      in if new_s = s_http_host_dead then None else host_loop (Suc p) cs new_s (host_field s new_s p u))"

definition host_complete :: "host_state \<Rightarrow> bool" where
  "host_complete s \<longleftrightarrow> s \<notin> {s_http_host_start, s_http_host_v6_start, s_http_host_v6, s_http_host_v6_zone_start,
     s_http_host_v6_zone, s_http_host_port_start, s_http_userinfo, s_http_userinfo_start}"

definition http_parse_host :: "string \<Rightarrow> bool \<Rightarrow> parser_url \<Rightarrow> parser_url option outcome" where
  "http_parse_host buf found_at u =
     (if UF_HOST \<notin> ul_field_set u then Inl Assertion_Failed
      else
        let off = unat (ul_off u UF_HOST); len = unat (ul_len u UF_HOST)
        in if length buf < off + len then Inl Out_Of_Bounds
           else Inr (case host_loop off (take len (drop off buf)) (if found_at then s_http_userinfo_start else s_http_host_start)
                       (u\<lparr>ul_len := (ul_len u)(UF_HOST := 0)\<rparr>) of
                 None \<Rightarrow> None
               | Some (s, u1) \<Rightarrow> if host_complete s then Some u1 else None))"

section \<open>The URL\<close>

text \<open>The field a state belongs to; \<open>None\<close> is a delimiter, skipped.\<close>

definition url_field_of :: "pstate \<Rightarrow> url_field option outcome" where
  "url_field_of s =
     (if s \<in> {s_req_schema_slash, s_req_schema_slash_slash, s_req_server_start, s_req_query_string_start, s_req_fragment_start}
      then Inr None
      else if s = s_req_schema then Inr (Some UF_SCHEMA)
      else if s = s_req_server_with_at \<or> s = s_req_server then Inr (Some UF_HOST)
      else if s = s_req_path then Inr (Some UF_PATH)
      else if s = s_req_query_string then Inr (Some UF_QUERY)
      else if s = s_req_fragment then Inr (Some UF_FRAGMENT)
      else Inl Assertion_Failed)"

text \<open>A field that starts has length 1.\<close>

fun url_loop :: "nat \<Rightarrow> string \<Rightarrow> pstate \<Rightarrow> url_field option \<Rightarrow> bool \<Rightarrow> parser_url \<Rightarrow> (bool \<times> parser_url) option outcome" where
  "url_loop p [] s old_uf found_at u = Inr (Some (found_at, u))"
| "url_loop p (ch # cs) s old_uf found_at u =
     (let s' = parse_url_char s ch; found_at' = (found_at \<or> s' = s_req_server_with_at)
      in if s' = s_dead then Inr None
         else obind (url_field_of s') (\<lambda>uf. case uf of
             None \<Rightarrow> url_loop (Suc p) cs s' old_uf found_at' u
           | Some f \<Rightarrow>
               if uf = old_uf then url_loop (Suc p) cs s' old_uf found_at' (grow_field f u)
               else url_loop (Suc p) cs s' uf found_at' (grow_field f (start_field f p u))))"

text \<open>\<open>strtoul\<close> reads on behind the buffer: \<open>behind\<close> is what the memory holds there.\<close>

definition http_parser_parse_url :: "string \<Rightarrow> string \<Rightarrow> bool \<Rightarrow> parser_url \<Rightarrow> parser_url option outcome" where
  "http_parser_parse_url buf behind is_connect u0 =
     obind (url_loop 0 buf (if is_connect then s_req_server_start else s_req_spaces_before_url) None False
              (u0\<lparr>ul_port := 0, ul_field_set := {}\<rparr>)) (\<lambda>r.
       case r of
         None \<Rightarrow> Inr None
       | Some (found_at, u1) \<Rightarrow>
           if UF_SCHEMA \<in> ul_field_set u1 \<and> UF_HOST \<notin> ul_field_set u1 then Inr None
           else
             obind (if UF_HOST \<in> ul_field_set u1 then http_parse_host buf found_at u1 else Inr (Some u1)) (\<lambda>r2.
               case r2 of
                 None \<Rightarrow> Inr None
               | Some u2 \<Rightarrow>
                   if is_connect \<and> ul_field_set u2 \<noteq> {UF_HOST, UF_PORT} then Inr None
                   else if UF_PORT \<in> ul_field_set u2 then
                     let v = digits_nat (drop (unat (ul_off u2 UF_PORT)) (buf @ behind))
                     in if 0xffff < v then Inr None else Inr (Some (u2\<lparr>ul_port := of_nat v\<rparr>))
                   else Inr (Some u2)))"

section \<open>Lemmas\<close>

text \<open>Every field that is set lies before position \<open>p\<close>.\<close>

definition fields_before :: "nat \<Rightarrow> parser_url \<Rightarrow> bool" where
  "fields_before p u \<longleftrightarrow> (\<forall>f \<in> ul_field_set u. unat (ul_off u f) + unat (ul_len u f) \<le> p)"

lemma fields_before_mono: "fields_before p u \<Longrightarrow> p \<le> q \<Longrightarrow> fields_before q u"
  by (auto simp: fields_before_def)

lemma unat_grow: "unat w < 2 ^ 16 - 1 \<Longrightarrow> unat (w + 1 :: 16 word) = unat w + 1"
  by (simp add: unat_word_ariths)

lemma unat_position: "p < 2 ^ 16 \<Longrightarrow> unat (of_nat p :: 16 word) = p"
  by (simp add: unat_of_nat take_bit_nat_eq_self)

lemma grow_before:
  assumes "fields_before p u" "p < 2 ^ 16 - 1" "f \<in> ul_field_set u"
  shows "fields_before (Suc p) (grow_field f u)"
proof -
  have "unat (ul_off u f) + unat (ul_len u f) \<le> p"
    using assms by (simp add: fields_before_def)
  then have "unat (ul_len u f + 1) = unat (ul_len u f) + 1"
    using assms(2) by (intro unat_grow) simp
  then show ?thesis
    using assms(1,3) by (auto simp: fields_before_def dest: bspec)
qed

lemma start_before:
  assumes "fields_before p u" "p < 2 ^ 16 - 1"
  shows "fields_before (Suc p) (grow_field f (start_field f p u))"
  using assms unat_position [of p] by (auto simp: fields_before_def start_field_def dest: bspec)

text \<open>The states of the loop over the URL.\<close>

definition url_states :: "pstate set" where
  "url_states = {s_req_schema, s_req_schema_slash, s_req_schema_slash_slash, s_req_server_start, s_req_server, s_req_server_with_at,
     s_req_path, s_req_query_string_start, s_req_query_string, s_req_fragment_start, s_req_fragment}"

lemma url_step:
  "s \<in> insert s_req_spaces_before_url url_states \<Longrightarrow> parse_url_char s ch = s_dead \<or> parse_url_char s ch \<in> url_states"
  unfolding url_states_def
  by (cases s) (simp_all add: parse_url_char_def url_server_def url_query_def)

lemma url_field_total:
  "s \<in> url_states \<Longrightarrow> url_field_of s = Inr None \<or> (\<exists>f. url_field_of s = Inr (Some f) \<and> f \<noteq> UF_PORT \<and> f \<noteq> UF_USERINFO)"
  by (auto simp: url_states_def url_field_of_def)

definition url_fine :: "nat \<Rightarrow> parser_url \<Rightarrow> bool" where
  "url_fine p u \<longleftrightarrow> fields_before p u \<and> UF_PORT \<notin> ul_field_set u \<and> UF_USERINFO \<notin> ul_field_set u"

lemma url_loop_fine:
  assumes "url_fine p u" "s \<in> insert s_req_spaces_before_url url_states" "\<And>f. old_uf = Some f \<Longrightarrow> f \<in> ul_field_set u"
    and "p + length cs < 2 ^ 16"
  shows "\<exists>r. url_loop p cs s old_uf fa u = Inr r \<and> (\<forall>fa' u'. r = Some (fa', u') \<longrightarrow> url_fine (p + length cs) u')"
  using assms
proof (induction cs arbitrary: p u s old_uf fa)
  case (Cons ch cs)
  let ?s = "parse_url_char s ch" and ?fa = "fa \<or> parse_url_char s ch = s_req_server_with_at"
  show ?case
  proof (cases "?s = s_dead")
    case False
    then have s: "?s \<in> url_states"
      using url_step [OF Cons.prems(2)] by blast
    note IH = Cons.IH [of "Suc p" _ ?s _ ?fa]
    from url_field_total [OF s] consider "url_field_of ?s = Inr None"
      | f where "url_field_of ?s = Inr (Some f)" "f \<noteq> UF_PORT" "f \<noteq> UF_USERINFO"
      by blast
    then show ?thesis
    proof cases
      case 1
      have "url_fine (Suc p) u"
        using Cons.prems(1) fields_before_mono [of p u "Suc p"] by (simp add: url_fine_def)
      from IH [OF this, of old_uf] 1 s False Cons.prems(3,4) show ?thesis
        by (simp add: Let_def)
    next
      case 2
      show ?thesis
      proof (cases "old_uf = Some f")
        case True
        then have "url_fine (Suc p) (grow_field f u)"
          using Cons.prems grow_before [of p u f] by (simp add: url_fine_def)
        from IH [OF this, of old_uf] 2 True s False Cons.prems(3,4) show ?thesis
          by (simp add: Let_def)
      next
        case new: False
        have "url_fine (Suc p) (grow_field f (start_field f p u))"
          using Cons.prems(1,4) 2 start_before [of p u f] by (simp add: url_fine_def start_field_def)
        from IH [OF this, of "Some f"] 2 new s False Cons.prems(4) show ?thesis
          by (simp add: start_field_def Let_def)
      qed
    qed
  qed simp
qed simp

text \<open>The host is being read, at position \<open>p\<close>.\<close>

abbreviation before_at :: "parser_url \<Rightarrow> nat \<Rightarrow> url_field \<Rightarrow> bool" where
  "before_at u p f \<equiv> unat (ul_off u f) + unat (ul_len u f) \<le> p"

definition host_inv :: "host_state \<Rightarrow> nat \<Rightarrow> parser_url \<Rightarrow> bool" where
  "host_inv s p u \<longleftrightarrow>
     (if s \<in> {s_http_userinfo_start, s_http_userinfo, s_http_host_start, s_http_host_v6_start} then ul_len u UF_HOST = 0
      else before_at u p UF_HOST) \<and>
     (UF_PORT \<in> ul_field_set u \<longrightarrow> before_at u p UF_PORT) \<and> (UF_USERINFO \<in> ul_field_set u \<longrightarrow> before_at u p UF_USERINFO) \<and>
     (s = s_http_host_port \<longrightarrow> UF_PORT \<in> ul_field_set u) \<and> (s = s_http_userinfo \<longrightarrow> UF_USERINFO \<in> ul_field_set u)"

lemma grow_len: "a + unat w \<le> p \<Longrightarrow> p < 65535 \<Longrightarrow> unat (w + 1 :: 16 word) = Suc (unat w)"
  using unat_grow [of w] by simp

lemma host_step:
  assumes "host_inv s p u" "p < 2 ^ 16 - 1" "http_parse_host_char s ch = new_s" "new_s \<noteq> s_http_host_dead"
  shows "host_inv new_s (Suc p) (host_field s new_s p u)"
  using assms unat_position [of p]
  by (cases s) (auto simp: http_parse_host_char_def host_v6_def host_zone_def host_inv_def host_field_def start_field_def
      grow_len split: if_splits)

lemma host_loop_fine:
  "host_inv s p u \<Longrightarrow> p + length cs < 2 ^ 16 \<Longrightarrow> host_loop p cs s u = Some (s', u') \<Longrightarrow> host_inv s' (p + length cs) u'"
proof (induction p cs s u rule: host_loop.induct)
  case (2 p ch cs s u)
  then show ?case
    using host_step [of s p u ch] by (auto simp: Let_def split: if_splits)
qed simp

lemma host_loop_others:
  "host_loop p cs s u = Some (s', u') \<Longrightarrow> f \<notin> {UF_HOST, UF_PORT, UF_USERINFO} \<Longrightarrow>
     ul_off u' f = ul_off u f \<and> ul_len u' f = ul_len u f \<and> (f \<in> ul_field_set u' \<longleftrightarrow> f \<in> ul_field_set u)"
proof (induction p cs s u rule: host_loop.induct)
  case (2 p ch cs s u)
  then show ?case
    by (auto simp: Let_def host_field_def start_field_def split: if_splits)
qed simp

lemma parse_host_fine:
  assumes "url_fine (length buf) u" "UF_HOST \<in> ul_field_set u" "length buf < 2 ^ 16"
  shows "\<exists>r. http_parse_host buf fa u = Inr r \<and> (\<forall>u'. r = Some u' \<longrightarrow> fields_before (length buf) u')"
proof -
  define off len where "off = unat (ul_off u UF_HOST)" and "len = unat (ul_len u UF_HOST)"
  have le: "off + len \<le> length buf"
    using assms(1,2) by (simp add: url_fine_def fields_before_def off_def len_def)
  let ?s = "if fa then s_http_userinfo_start else s_http_host_start" and ?u = "u\<lparr>ul_len := (ul_len u)(UF_HOST := 0)\<rparr>"
  have fine: "fields_before (length buf) u'"
    if r: "host_loop off (take len (drop off buf)) ?s ?u = Some (s', u')" and c: "host_complete s'" for s' u'
  proof -
    have inv: "host_inv ?s off ?u"
      using assms(1) by (simp add: host_inv_def url_fine_def)
    have "length (take len (drop off buf)) = len"
      using le by simp
    then have "host_inv s' (off + len) u'"
      using host_loop_fine [OF inv _ r] le assms(3) by simp
    then have "before_at u' (length buf) UF_HOST" "UF_PORT \<in> ul_field_set u' \<longrightarrow> before_at u' (length buf) UF_PORT"
      "UF_USERINFO \<in> ul_field_set u' \<longrightarrow> before_at u' (length buf) UF_USERINFO"
      using c le by (auto simp: host_inv_def host_complete_def split: if_splits)
    moreover have "before_at u' (length buf) f" if "f \<in> ul_field_set u'" "f \<notin> {UF_HOST, UF_PORT, UF_USERINFO}" for f
      using host_loop_others [OF r that(2)] that assms(1) by (auto simp: url_fine_def fields_before_def)
    ultimately show ?thesis
      by (auto simp: fields_before_def)
  qed
  then show ?thesis
    using assms(2) le by (auto simp: http_parse_host_def Let_def simp flip: off_def len_def split: option.split)
qed

section \<open>Properties\<close>

text \<open>On a text shorter than 65536 characters no assertion of the parser of URLs can fail and it reads no character outside
  the text up to the port; a URL it accepts has its fields inside the text.\<close>

theorem url_fields_in_bounds:
  assumes "length buf < 2 ^ 16"
  shows "\<exists>r. http_parser_parse_url buf behind is_connect u0 = Inr r \<and>
    (\<forall>u. r = Some u \<longrightarrow> (\<forall>f \<in> ul_field_set u. unat (ul_off u f) + unat (ul_len u f) \<le> length buf))"
proof -
  let ?s = "if is_connect then s_req_server_start else s_req_spaces_before_url" and ?u = "u0\<lparr>ul_port := 0, ul_field_set := {}\<rparr>"
  have "url_fine 0 ?u" "?s \<in> insert s_req_spaces_before_url url_states"
    by (simp_all add: url_fine_def fields_before_def url_states_def)
  from url_loop_fine [OF this, of None buf False] assms obtain r where
    r: "url_loop 0 buf ?s None False ?u = Inr r" "\<And>fa' u'. r = Some (fa', u') \<Longrightarrow> url_fine (length buf) u'"
    by auto
  have port: "fields_before n (u\<lparr>ul_port := v\<rparr>) = fields_before n u" for n u v
    by (simp add: fields_before_def)
  have "\<exists>r'. http_parser_parse_url buf behind is_connect u0 = Inr r' \<and> (\<forall>u. r' = Some u \<longrightarrow> fields_before (length buf) u)"
  proof (cases r)
    case None
    then show ?thesis
      by (simp add: http_parser_parse_url_def r(1))
  next
    case (Some x)
    obtain fa u1 where x: "r = Some (fa, u1)"
      using Some by (cases x) auto
    then have fine: "url_fine (length buf) u1"
      using r(2) by simp
    obtain r2 where r2: "(if UF_HOST \<in> ul_field_set u1 then http_parse_host buf fa u1 else Inr (Some u1)) = Inr r2"
      "\<And>u2. r2 = Some u2 \<Longrightarrow> fields_before (length buf) u2"
      using parse_host_fine [OF fine _ assms, of fa] fine by (cases "UF_HOST \<in> ul_field_set u1") (auto simp: url_fine_def)
    show ?thesis
      using r2(2) by (cases r2) (auto simp: http_parser_parse_url_def r(1) x r2(1) port Let_def)
  qed
  then show ?thesis
    by (simp add: fields_before_def)
qed

lemma url_fields_in_bounds_witness:
  "\<exists>r. http_parser_parse_url ''http://a:80/x'' [] False http_parser_url_init = Inr r \<and>
    (\<forall>u. r = Some u \<longrightarrow> (\<forall>f \<in> ul_field_set u. unat (ul_off u f) + unat (ul_len u f) \<le> 13))"
proof -
  have len: "length ''http://a:80/x'' = 13"
    by simp
  then have "length ''http://a:80/x'' < 2 ^ 16"
    by simp
  from url_fields_in_bounds [OF this, of "[]" False http_parser_url_init] show ?thesis
    unfolding len .
qed

end
