(* ===== verification/Server_Start.thy ===== *)
theory Server_Start
  imports Http_Server Thread_Pool
begin

text \<open>
  \<open>CreateServerSocket\<close> of \<open>server/server.cpp\<close> with the socket options, and \<open>HttpServer::Start\<close> of
  \<open>server/http_server.cpp\<close>: what the accept loop is started with.  The answers of the system calls are arguments.
\<close>

section \<open>The listening socket\<close>

record socket_calls =
  so_socket :: int
  so_flags :: "32 word"
  so_bind :: int
  so_listen :: int
  so_inet_addr :: "string \<Rightarrow> 32 word"

record server_socket =
  sv_fd :: int
  sv_flags :: "32 word"
  sv_reuse :: bool
  sv_linger :: "(bool \<times> int) option"
  sv_address :: "(32 word \<times> 16 word) option"
  sv_backlog :: "nat option"

definition O_NONBLOCK :: "32 word" where "O_NONBLOCK = 0x800"

definition INADDR_ANY :: "32 word" where "INADDR_ANY = 0"

definition SetNonBlocking :: "bool \<Rightarrow> server_socket \<Rightarrow> server_socket" where
  "SetNonBlocking nio s =
     s\<lparr>sv_flags := (if nio then sv_flags s OR O_NONBLOCK else sv_flags s AND NOT O_NONBLOCK)\<rparr>"

definition SetReuseAddr :: "bool \<Rightarrow> server_socket \<Rightarrow> server_socket" where
  "SetReuseAddr reuse s = s\<lparr>sv_reuse := reuse\<rparr>"

definition SetLinger :: "bool \<Rightarrow> int \<Rightarrow> server_socket \<Rightarrow> server_socket" where
  "SetLinger on linger s = s\<lparr>sv_linger := Some (on, linger)\<rparr>"

text \<open>
  What is returned, and the socket that is open afterwards, if one is.  The port is cut to its 16 bits; the
  order of its bytes is left out.
\<close>

definition CreateServerSocket :: "socket_calls \<Rightarrow> string option \<Rightarrow> int \<Rightarrow> int \<times> server_socket option" where
  "CreateServerSocket calls ip port =
     (let addr = ((case ip of None \<Rightarrow> INADDR_ANY | Some a \<Rightarrow> so_inet_addr calls (c_str a)), word_of_int port);
          listen_socket = so_socket calls
      in if listen_socket = -1 then (-1, None)
         else let s = SetNonBlocking True (SetReuseAddr True
                \<lparr>sv_fd = listen_socket, sv_flags = so_flags calls, sv_reuse = False, sv_linger = None, sv_address = None,
                 sv_backlog = None\<rparr>)
              in if so_bind calls \<noteq> 0 then (-1, Some s)
                 else let s1 = s\<lparr>sv_address := Some addr\<rparr>
                      in if so_listen calls \<noteq> 0 then (-1, Some s1)
                         else (listen_socket, Some (s1\<lparr>sv_backlog := Some 1024\<rparr>)))"

section \<open>\<open>HttpServer::Start\<close>\<close>

record ('s, 'a) started_server =
  st_listen_socket :: int
  st_socket :: "server_socket option"
  st_routes :: "'s route_table option"
  st_thread_pool :: "'a pool"
  st_context :: server_context

text \<open>Up to the first test of the loop, with the table \<open>InitTable\<close> makes if there are routes.\<close>

definition HttpServer_Start ::
    "socket_calls \<Rightarrow> bool \<Rightarrow> 's route_table option \<Rightarrow> int \<Rightarrow> string option \<Rightarrow> ('s, 'a) started_server \<times> bool outcome" where
  "HttpServer_Start calls junk_stop routes port ip =
     (let (fd, sock) = CreateServerSocket calls ip port;
          server = \<lparr>st_listen_socket = fd, st_socket = sock, st_routes = routes,
            st_thread_pool = ThreadPool_Create 20 (ThreadPool_new junk_stop), st_context = StartServer_context\<rparr>
      in (server, loop_continues (st_context server)))"

section \<open>Properties\<close>

text \<open>Starting on an address that is taken: the server goes on to its loop with the descriptor -1 and its twenty
  workers, and the socket it made stays open; nothing tells the caller.
\<close>

theorem started_without_socket:
  assumes "so_socket calls \<noteq> -1" and "so_bind calls \<noteq> 0 \<or> so_listen calls \<noteq> 0"
  shows "\<exists>server s. HttpServer_Start calls junk routes port ip = (server, loop_continues StartServer_context) \<and>
    st_listen_socket server = -1 \<and> st_socket server = Some s \<and> sv_fd s = so_socket calls \<and> sv_backlog s = None \<and>
    (\<forall>t < 20. tp_worker (st_thread_pool server) t = W_Test) \<and> st_routes server = routes"
  using assms by (auto simp: HttpServer_Start_def CreateServerSocket_def SetNonBlocking_def SetReuseAddr_def Let_def
      StartServer_context_def ThreadPool_Create_def)

lemma started_without_socket_witness:
  "\<forall>junk. \<exists>server s. HttpServer_Start \<lparr>so_socket = 3, so_flags = 2, so_bind = -1, so_listen = 0, so_inet_addr = \<lambda>_. 0\<rparr> junk
      None 80 None = (server, loop_continues StartServer_context) \<and>
    st_listen_socket server = -1 \<and> st_socket server = Some s \<and> sv_fd s = 3"
  using started_without_socket [of "\<lparr>so_socket = 3, so_flags = 2, so_bind = -1, so_listen = 0, so_inet_addr = \<lambda>_. 0\<rparr>" _ None 80 None]
  by fastforce

text \<open>A socket that listens does not block, may reuse its address, and has the port modulo \<open>2 ^ 16\<close>.\<close>

theorem listening_socket:
  assumes "CreateServerSocket calls ip port = (fd, Some s)" and "fd \<noteq> -1"
  shows "fd = so_socket calls \<and> sv_fd s = fd \<and> sv_reuse s \<and> sv_flags s AND O_NONBLOCK = O_NONBLOCK \<and> sv_backlog s = Some 1024 \<and>
    (\<exists>a. sv_address s = Some (a, word_of_int port)) \<and> uint (snd (the (sv_address s))) = port mod 2 ^ 16"
proof -
  have bit: "(w OR O_NONBLOCK) AND O_NONBLOCK = O_NONBLOCK" for w by (simp add: word_ao_absorbs)
  show ?thesis
    using assms by (auto simp: CreateServerSocket_def SetNonBlocking_def SetReuseAddr_def Let_def bit uint_word_of_int
        split: if_splits)
qed

lemma listening_socket_witness:
  "\<exists>s. CreateServerSocket \<lparr>so_socket = 3, so_flags = 2, so_bind = 0, so_listen = 0, so_inet_addr = \<lambda>_. 0\<rparr> None 65616 = (3, Some s) \<and>
    uint (snd (the (sv_address s))) = 80"
proof -
  let ?c = "\<lparr>so_socket = 3, so_flags = 2, so_bind = 0, so_listen = 0, so_inet_addr = \<lambda>_. 0\<rparr>"
  obtain s where s: "CreateServerSocket ?c None 65616 = (3, Some s)" by (simp add: CreateServerSocket_def Let_def)
  from listening_socket [OF this] show ?thesis using s by auto
qed

end
