(* ===== verification/Spec2Isabelle.thy ===== *)
theory Spec2Isabelle
  imports String_Containers Url_Encode Base32 Block_Cipher XString Cluster_Plugin Thread_Pool Http_Server Xauth Db_Sql String_Convert Auth_Main Xauth_Main Hash_Uuid Local_Stream Redis_Client Http_Url Server_Start
begin

text \<open>
  A model of the repository: \<open>mosquitto_cluster_plugin\<close>, the plugin that makes a cluster of mosquitto brokers;
  \<open>mosquitto_auth_plugin\<close>, the plugin that asks a service whether a client may connect, publish and subscribe;
  \<open>mosquitto_auth_service\<close>, the service; \<open>xauth\<close>, a gateway to the WeChat Work interface; and the libraries they
  share, \<open>helper\<close> and \<open>server\<close>.

  \<^bold>\<open>Conventions.\<close>  Strings and buffers of bytes are lists of characters; \<open>mstr\<close> is the reference-counted string of
  \<open>helper/xstring.h\<close>.  \<open>std::map\<close> is an ordered association list (\<open>amap\<close>), words keep their width where the code can
  wrap them, and what a run can fail with (a null pointer, an index, an exception, an assertion) is the left side of an
  \<open>outcome\<close>.  Constructors end in \<open>_new\<close>; a method \<open>C::m\<close> is \<open>C_m\<close>.  The clock, the file system, sockets, curl,
  epoll, libpq, libmosquitto, hiredis, OpenSSL, the DES and AES block functions, the random numbers and the reading and
  printing of doubles are arguments of the definitions, with what the code relies on as hypotheses.

  \<^bold>\<open>Ground.\<close>  \<open>Prelude\<close>: outcomes, bytes, ordered maps with their interface \<open>kv_store\<close>.  \<open>Std_String\<close>: the members of
  \<open>std::string\<close>.  \<open>Decimal\<close>: the conversions of the C library.

  \<^bold>\<open>helper.\<close>  \<open>String_Helper\<close> and \<open>String_Containers\<close> (\<open>string_helper.cpp\<close>): trimming, replacing, the containers with
  split, join and find; lemmas: reference definitions, the inputs on which a loop does not return, split after join.
  \<open>Url_Encode\<close>, \<open>Block_Codec\<close>, \<open>Base64\<close>, \<open>Base32\<close>, \<open>Hexstr\<close>, \<open>Block_Cipher\<close> (\<open>url_encode.cpp\<close>, \<open>crypto/*\<close>):
  the codecs, their round trips through the interface \<open>block_codec\<close>, and the texts the padding loses.  \<open>XString\<close>
  (\<open>xstring.h\<close>): the string over its block of memory refines a list of characters.  \<open>Json_Wrapper\<close>: dotted paths, get
  after set.  \<open>Json_Text\<close>, \<open>Json_Reader\<close>, \<open>Json_Syntax\<close>, \<open>Json_Writer\<close>, \<open>Json_Document\<close> (\<open>jsoncpp.cpp\<close>): the reader with
  its error recovery and its limit of depth, the grammar it reads, the writer on one line and on several, and that what is
  written is read back.  \<open>String_Convert\<close> (\<open>string_convert.cpp\<close>): UTF-8 to wide text and back, and the characters it
  loses.  \<open>Logger\<close>, \<open>Hash_Uuid\<close>, \<open>Local_Stream\<close> (\<open>logger.cpp\<close>, \<open>crypto/hash.cpp\<close>, \<open>uuidx.cpp\<close>, \<open>local_stream.h\<close>): the
  threshold that filters nothing, the texts of identifiers, the stream that reads nothing.  \<open>Config\<close>, \<open>Ini_Parser\<close> (also \<open>command_line.cpp\<close>): the tree of sections, reading back what was written,
  the buffers the parser does not return from.  \<open>Locks\<close>, \<open>Task_Queue\<close>, \<open>Thread_Pool\<close> (\<open>lock*.cpp\<close>, \<open>waitable*.cpp\<close>,
  \<open>task_queue_posix.h\<close>, \<open>thread_pool.cpp\<close>): step relations over threads, with the order of the queue, the absence of
  lost wake-ups and the stop that wakes nobody.  \<open>Http_Client\<close> (\<open>http_client.cpp\<close>, \<open>http_wrapper.cpp\<close>): the options
  set on curl.  \<open>Native_Memory\<close>, \<open>Native_File\<close>, \<open>App_Cache\<close> (\<open>cache.cpp\<close>, \<open>cache/*\<close>): the cache in memory and the
  hash file with its chains of items over the bytes of the file, as code and as a well-formed file.  \<open>Db_Pool\<close>
  (\<open>simple_pool.h\<close>): the pool of objects over a heap.

  \<^bold>\<open>server.\<close>  \<open>Http_Parser\<close>, \<open>Http_Execute\<close> (\<open>http_parser.cpp\<close>): the states, the tables and one definition per state
  of the switch of \<open>http_parser_execute\<close>, its macros as continuations, the loop with its termination.
  \<open>Http_Parser_Inv\<close>: the invariant between two buffers and the assertions that cannot fail.  \<open>Http_Request_Line\<close> and
  \<open>Http_Request_Parse\<close>: runs over known bytes, segment by segment, up to whole requests; what they leave in a request,
  the bounds of a length, the request that stops the server.  \<open>Http_Parser_Events\<close>: the parser commutes with maps of the
  application (\<open>callback_map\<close>), so a run is the events it records.  \<open>Http_Url\<close>: the URL parser and the bounds of its
  fields.  \<open>Http_Message\<close> (\<open>http_request.cpp\<close>): requests and
  responses.  \<open>Http_Routes\<close> (\<open>routes.cpp\<close>), \<open>Server_Loop\<close> (\<open>server.cpp\<close>) and \<open>Http_Server\<close> (\<open>http_server.cpp\<close>): the
  table of procedures, the accept and read loop over its table of clients with its invariant, the tasks and the chain of
  sends.  \<open>Server_Start\<close>: the listening socket and what the loop is started with.

  \<^bold>\<open>The programs.\<close>  \<open>Auth_Service\<close>: the manager and the routes of the authentication service; \<open>Auth_Plugin\<close>: the plugin,
  which agrees with the service over any faithful transport; \<open>Auth_End_To_End\<close>: the service from the bytes received to the
  bytes sent.  \<open>Service_Globals\<close>, \<open>Auth_Main\<close>, \<open>Xauth_Main\<close> (\<open>global.cpp\<close>, \<open>auth_service_main.cpp\<close>, \<open>xauth/main.cpp\<close>):
  from the command line and the configuration to the state that is served.  \<open>Mosq_Client\<close>, \<open>Cluster_Plugin\<close>: the client with its two threads and its states as a step relation, and
  the plugin that joins, publishes and passes on; lemmas: one hop, the nodes after joins.  \<open>Wx_Api\<close>, \<open>App_Cache\<close>,
  \<open>Wx_Crypt\<close>, \<open>Xauth\<close>: requests to the interface, applications and corporations with their tokens, messages
  and their encryption, the callbacks from the signature to the tasks pushed.  \<open>Db_Dsn\<close>, \<open>Db_Sql\<close> (\<open>xauth/db\<close>): data
  source names, statements, results and the pools of connections.
  \<open>Redis_Client\<close> (\<open>xauth/redis\<close>): the client and its connection.  \<open>Xml_Text\<close>, \<open>Xml_Parse\<close>, \<open>Xml_Print\<close>, \<open>Xml_Syntax\<close>,
  \<open>Xml_Written\<close>, \<open>Xml_Doc\<close> (\<open>xauth/tinyxml2\<close>, \<open>xml_reader.cpp\<close>): strings decoded in place, the recursive descent, the
  printer, the texts the parser reads, and which documents come back as they were written.

  \<^bold>\<open>How the parts interact.\<close>  A chunk a client sends goes from \<open>Server_Loop.handle_client\<close> to \<open>HttpServer_OnRead\<close>, through
  \<open>HttpRequest_Append\<close> to the parser and back through the callbacks into the request; a finished request is a task of
  the pool, whose run looks the procedure up in the table, and the response is sent by a chain of tasks.  The plugins
  reach the service through \<open>Http_Client\<close>; the tasks of \<open>xauth\<close> reach the interface through \<open>Wx_Api\<close>, with the tokens
  of \<open>App_Cache\<close>.

  \<^bold>\<open>Bounds and fuel.\<close>  Loops that may not return are fuelled functions or \<open>option\<close>-valued, and that they return or not
  is a theorem (\<open>ReplaceAll\<close>, the parser of ini buffers, the chain of the hash file).  The runs of the parser are over
  headers of at most \<open>HTTP_MAX_HEADER_SIZE\<close> bytes, the limit of the code, and lengths below \<open>2 ^ 64 - 6\<close>, above which
  the code refuses them.  The JSON reader counts down the characters of its text and the 1000 levels of the code, and
  \<open>reader_returns\<close> shows that the count is enough; the XML parser needs no fuel, since each of its calls leaves a shorter
  text, and refuses what is nested as deep as \<open>TINYXML2_MAX_ELEMENT_DEPTH\<close>.  Threads are interleaved at the calls that lock, wait, signal or send.

  \<^bold>\<open>Not modelled.\<close>  Of the vendored \<open>jsoncpp\<close> the second reader, the other writers, \<open>Path\<close> and the members of \<open>Value\<close>
  no part of the program calls; of the vendored \<open>tinyxml2\<close> the pools of memory, files, copies, comparisons and the queries
  and conversions of values; of both the texts of errors and line numbers.  \<open>mosquitto_plugin.h\<close>, the header of the
  broker.  \<open>xtime\<close>: one system call each.  \<open>access_token\<close>: used by nothing.  \<open>linux_dummy\<close>: stubs for a build on another
  system.
\<close>

end
